(* ===== verification/Xv6_Prelude.thy ===== *)
theory Xv6_Prelude
  imports Main "HOL-Library.Word"
begin

text \<open>
  Shared vocabulary of the development: the machine integer types, the outcome type of kernel
  code and its sequencing combinator, little-endian encodings of the C integer types, and the
  byte-range operations (\<open>memmove\<close>, \<open>memset\<close> into a fixed array) that the
  block and directory code uses. Facts that every component needs are collected in
  \<open>res_simps\<close> (sequencing) and \<open>bytes_simps\<close> (byte arrays).
\<close>

unbundle bit_operations_syntax

named_theorems res_simps
named_theorems bytes_simps

section \<open>Machine integers\<close>

type_synonym u8 = "8 word"
type_synonym u16 = "16 word"
type_synonym u32 = "32 word"

section \<open>Outcomes of kernel code\<close>

text \<open>
  A kernel function takes the kernel state and ends in one of four ways: it returns a value
  and a state; it calls \<open>panic\<close> with a message and never returns; it gives up the CPU
  inside \<open>sched()\<close> (the state is the one at the \<open>swtch\<close>); or it spins on a
  lock that another CPU holds.
\<close>

datatype ('a, 's) res = Ok 'a 's | Panic string | Swtch 's | Spin

fun andthen :: "('a, 's) res \<Rightarrow> ('a \<Rightarrow> 's \<Rightarrow> ('b, 's) res) \<Rightarrow> ('b, 's) res" where
  "andthen (Ok x s) f = f x s"
| "andthen (Panic m) f = Panic m"
| "andthen (Swtch s) f = Swtch s"
| "andthen Spin f = Spin"

declare andthen.simps [res_simps]

lemma andthen_eq_Ok [res_simps]:
  "andthen r f = Ok y t \<longleftrightarrow> (\<exists>x s. r = Ok x s \<and> f x s = Ok y t)"
  by (cases r) auto

lemma andthen_OkE:
  assumes "andthen r f = Ok y t"
  obtains x s where "r = Ok x s" "f x s = Ok y t"
  using assms by (cases r) auto

lemma andthen_assoc: "andthen (andthen r f) g = andthen r (\<lambda>x s. andthen (f x s) g)"
  by (cases r) auto

fun is_Ok :: "('a, 's) res \<Rightarrow> bool" where
  "is_Ok (Ok x s) = True"
| "is_Ok _ = False"

section \<open>Loops\<close>

text \<open>A counting loop whose body may fail: the body is run for each element in turn.\<close>

fun foreach :: "('a \<Rightarrow> 's \<Rightarrow> (unit, 's) res) \<Rightarrow> 'a list \<Rightarrow> 's \<Rightarrow> (unit, 's) res" where
  "foreach f [] s = Ok () s"
| "foreach f (x # xs) s = andthen (f x s) (\<lambda>_ s. foreach f xs s)"

lemma foreach_append:
  "foreach f (xs @ ys) s = andthen (foreach f xs s) (\<lambda>_ s. foreach f ys s)"
proof (induction xs arbitrary: s)
  case (Cons x xs)
  then show ?case by (cases "f x s") simp_all
qed simp

section \<open>Little-endian integers in byte arrays\<close>

definition enc16 :: "u16 \<Rightarrow> u8 list" where
  "enc16 w = [ucast w, ucast (drop_bit 8 w)]"

definition enc32 :: "nat \<Rightarrow> u8 list" where
  "enc32 n = [of_nat n, of_nat (n div 256), of_nat (n div 65536), of_nat (n div 16777216)]"

definition dec16 :: "u8 list \<Rightarrow> nat \<Rightarrow> u16" where
  "dec16 d i = ucast (d ! i) + 256 * ucast (d ! (i + 1))"

definition dec32 :: "u8 list \<Rightarrow> nat \<Rightarrow> nat" where
  "dec32 d i = unat (d ! i) + 256 * unat (d ! (i + 1)) + 65536 * unat (d ! (i + 2))
     + 16777216 * unat (d ! (i + 3))"

lemma length_enc16 [simp]: "length (enc16 w) = 2"
  by (simp add: enc16_def)

lemma length_enc32 [simp]: "length (enc32 n) = 4"
  by (simp add: enc32_def)

lemma nat_bytes4:
  assumes "(n::nat) < 4294967296"
  shows "n mod 256 + 256 * (n div 256 mod 256) + 65536 * (n div 65536 mod 256)
           + 16777216 * (n div 16777216 mod 256) = n"
proof -
  have a: "n div 65536 = n div 256 div 256" and b: "n div 16777216 = n div 256 div 256 div 256"
    by (simp_all add: div_mult2_eq [symmetric])
  have "n div 256 div 256 div 256 < 256" using assms by simp
  then have c: "n div 256 div 256 div 256 mod 256 = n div 256 div 256 div 256" by simp
  show ?thesis
    unfolding a b c
    using div_mult_mod_eq [of n 256] div_mult_mod_eq [of "n div 256" 256]
      div_mult_mod_eq [of "n div 256 div 256" 256]
    by linarith
qed

lemma unat_of_nat8: "unat (of_nat n :: u8) = n mod 256"
  by (simp add: unat_of_nat)

lemma unat8_less: "unat (x :: u8) < 256"
proof -
  have "unat x < 2 ^ LENGTH(8)" by (rule unsigned_less)
  then show ?thesis by simp
qed

lemma dec32_enc32_at:
  assumes "n < 4294967296" and "i + 4 \<le> length d" and "take 4 (drop i d) = enc32 n"
  shows "dec32 d i = n"
proof -
  have at: "d ! (i + k) = enc32 n ! k" if "k < 4" for k
    using that assms(2,3) by (metis add_leD1 nth_drop nth_take)
  have top: "n div 16777216 mod 256 = n div 16777216" using assms(1) by simp
  show ?thesis
    using at [of 0] at [of 1] at [of 2] at [of 3] nat_bytes4 [OF assms(1), unfolded top] top
    by (simp add: dec32_def enc32_def unat_of_nat8)
qed

lemma dec32_bound: "dec32 d i < 4294967296"
  using unat8_less [of "d ! i"] unat8_less [of "d ! (i + 1)"] unat8_less [of "d ! (i + 2)"]
    unat8_less [of "d ! (i + 3)"]
  unfolding dec32_def by linarith

lemma u16_bytes: "ucast (ucast w :: u8) + 256 * ucast (ucast (drop_bit 8 w) :: u8) = (w :: u16)"
proof -
  have "unat w < 2 ^ LENGTH(16)" by (rule unsigned_less)
  then have "unat w < 65536" by simp
  then have "unat w div 256 < 256" by (simp add: less_mult_imp_div_less)
  then have "(unat w mod 256 + 256 * (unat w div 256 mod 256)) mod 65536 = unat w"
    using \<open>unat w < 65536\<close> by simp
  then show ?thesis
    by (simp add: word_unat_eq_iff unat_word_ariths unsigned_ucast_eq unat_drop_bit_eq
        drop_bit_eq_div take_bit_eq_mod mod_simps)
qed

lemma dec16_enc16_at:
  assumes "i + 2 \<le> length d" and "take 2 (drop i d) = enc16 w"
  shows "dec16 d i = w"
proof -
  have at: "d ! (i + k) = enc16 w ! k" if "k < 2" for k
    using that assms by (metis add_leD1 nth_drop nth_take)
  show ?thesis
    using at [of 0] at [of 1] u16_bytes [of w] by (simp add: dec16_def enc16_def)
qed

section \<open>Byte ranges\<close>

text \<open>
  \<open>put_bytes d off src\<close> is array \<open>d\<close> after \<open>memmove(d + off, src, n)\<close> where
  \<open>n\<close> is the length of \<open>src\<close>; \<open>get_bytes d off n\<close> are the \<open>n\<close>
  bytes at \<open>d + off\<close>.
\<close>

definition put_bytes :: "u8 list \<Rightarrow> nat \<Rightarrow> u8 list \<Rightarrow> u8 list" where
  "put_bytes d off src = take off d @ src @ drop (off + length src) d"

definition get_bytes :: "u8 list \<Rightarrow> nat \<Rightarrow> nat \<Rightarrow> u8 list" where
  "get_bytes d off n = take n (drop off d)"

lemma length_put_bytes [simp, bytes_simps]:
  "off + length src \<le> length d \<Longrightarrow> length (put_bytes d off src) = length d"
  by (simp add: put_bytes_def)

lemma length_get_bytes [simp, bytes_simps]:
  "off + n \<le> length d \<Longrightarrow> length (get_bytes d off n) = n"
  by (simp add: get_bytes_def)

lemma get_put_same [bytes_simps]:
  "off + length src \<le> length d \<Longrightarrow> n = length src \<Longrightarrow> get_bytes (put_bytes d off src) off n = src"
  by (simp add: get_bytes_def put_bytes_def)

lemma nth_put_bytes:
  assumes "off + length src \<le> length d" "i < length d"
  shows "put_bytes d off src ! i =
    (if off \<le> i \<and> i < off + length src then src ! (i - off) else d ! i)"
  using assms by (auto simp: put_bytes_def nth_append not_less min_def)

lemma get_put_disjoint [bytes_simps]:
  assumes "off + length src \<le> length d" "i + n \<le> length d"
    and "i + n \<le> off \<or> off + length src \<le> i"
  shows "get_bytes (put_bytes d off src) i n = get_bytes d i n"
proof (rule nth_equalityI)
  show "length (get_bytes (put_bytes d off src) i n) = length (get_bytes d i n)"
    using assms by simp
  fix k assume "k < length (get_bytes (put_bytes d off src) i n)"
  then have "k < n" using assms by simp
  with assms show "get_bytes (put_bytes d off src) i n ! k = get_bytes d i n ! k"
    by (auto simp: get_bytes_def nth_put_bytes)
qed

lemma put_bytes_whole [bytes_simps]: "length src = length d \<Longrightarrow> put_bytes d 0 src = src"
  by (simp add: put_bytes_def)

lemma dec32_put_same [bytes_simps]:
  "off + 4 \<le> length d \<Longrightarrow> n < 4294967296 \<Longrightarrow> dec32 (put_bytes d off (enc32 n)) off = n"
  by (rule dec32_enc32_at) (simp_all add: put_bytes_def)

lemma dec16_put_same [bytes_simps]:
  "off + 2 \<le> length d \<Longrightarrow> dec16 (put_bytes d off (enc16 w)) off = w"
  by (rule dec16_enc16_at) (simp_all add: put_bytes_def)

lemma dec32_put_other [bytes_simps]:
  "off + length src \<le> length d \<Longrightarrow> i + 4 \<le> length d \<Longrightarrow> i + 4 \<le> off \<or> off + length src \<le> i \<Longrightarrow>
   dec32 (put_bytes d off src) i = dec32 d i"
  by (auto simp: dec32_def nth_put_bytes)

lemma dec16_put_other [bytes_simps]:
  "off + length src \<le> length d \<Longrightarrow> i + 2 \<le> length d \<Longrightarrow> i + 2 \<le> off \<or> off + length src \<le> i \<Longrightarrow>
   dec16 (put_bytes d off src) i = dec16 d i"
  by (auto simp: dec16_def nth_put_bytes)

end
