(* ===== verification/Kernel_State.thy ===== *)
theory Kernel_State
  imports Xv6_Prelude
begin

text \<open>
  The state every kernel path shares: CPUs, locks and the process table. It mirrors
  \<open>proc.h\<close> (\<open>struct cpu\<close>, \<open>struct context\<close>, \<open>struct proc\<close>),
  \<open>x86.h\<close> (\<open>struct trapframe\<close>), \<open>spinlock.h\<close>, \<open>sleeplock.h\<close> and
  the constants of \<open>param.h\<close>. A pointer to an element of a static array is its index,
  a null pointer is \<open>None\<close>. Locks live inside the structures they protect; here each has
  a name in \<open>lockid\<close>, which plays the role of its address. The wait channels of
  \<open>sleep\<close> and \<open>wakeup\<close>, which the code takes as addresses, are the values of
  \<open>chan\<close>. Components with state of their own extend the record \<open>kstate\<close>.
\<close>

section \<open>Constants of param.h\<close>

definition NPROC :: nat where "NPROC = 64"
definition KSTACKSIZE :: nat where "KSTACKSIZE = 4096"
definition NCPU :: nat where "NCPU = 8"
definition NOFILE :: nat where "NOFILE = 16"
definition NFILE :: nat where "NFILE = 100"
definition NINODE :: nat where "NINODE = 50"
definition NDEV :: nat where "NDEV = 10"
definition ROOTDEV :: nat where "ROOTDEV = 1"
definition MAXARG :: nat where "MAXARG = 32"
definition MAXOPBLOCKS :: nat where "MAXOPBLOCKS = 10"
definition LOGSIZE :: nat where "LOGSIZE = MAXOPBLOCKS * 3"
definition NBUF :: nat where "NBUF = MAXOPBLOCKS * 3"
definition FSSIZE :: nat where "FSSIZE = 1000"

lemmas param_defs = NPROC_def KSTACKSIZE_def NCPU_def NOFILE_def NFILE_def NINODE_def NDEV_def
  ROOTDEV_def MAXARG_def MAXOPBLOCKS_def LOGSIZE_def NBUF_def FSSIZE_def

section \<open>Locks and wait channels\<close>

datatype sleepid = BufLock nat | InodeLock nat

datatype lockid = PtableLock | BcacheLock | LogLock | IcacheLock | FtableLock | KmemLock
  | ConsLock | IdeLock | TicksLock | PipeLock nat | SleepLk sleepid

datatype chan = ChanProc nat | ChanLog | ChanSleep sleepid | ChanPipeRead nat
  | ChanPipeWrite nat | ChanTicks | ChanInput | ChanBuf nat

record spinlock =
  lk_locked :: bool
  lk_name :: string
  lk_cpu :: "nat option"

record sleeplock =
  sl_locked :: bool
  sl_name :: string
  sl_pid :: int

section \<open>CPUs\<close>

record cpu =
  c_apicid :: nat
  c_started :: bool
  c_ncli :: int
  c_intena :: bool
  c_proc :: "nat option"

section \<open>Processes\<close>

datatype procstate = UNUSED | EMBRYO | SLEEPING | RUNNABLE | RUNNING | ZOMBIE

record trapframe =
  tf_edi :: u32
  tf_esi :: u32
  tf_ebp :: u32
  tf_oesp :: u32
  tf_ebx :: u32
  tf_edx :: u32
  tf_ecx :: u32
  tf_eax :: u32
  tf_gs :: u16
  tf_fs :: u16
  tf_es :: u16
  tf_ds :: u16
  tf_trapno :: u32
  tf_err :: u32
  tf_eip :: u32
  tf_cs :: u16
  tf_eflags :: u32
  tf_esp :: u32
  tf_ss :: u16

record kcontext =
  cx_edi :: u32
  cx_esi :: u32
  cx_ebx :: u32
  cx_ebp :: u32
  cx_eip :: u32

record proc =
  p_sz :: u32
  p_pgdir :: u32
  p_kstack :: u32
  p_state :: procstate
  p_pid :: int
  p_parent :: "nat option"
  p_tf :: trapframe
  p_context :: kcontext
  p_chan :: "chan option"
  p_killed :: bool
  p_ofile :: "nat \<Rightarrow> nat option"
  p_cwd :: "nat option"
  p_name :: string

section \<open>The state\<close>

text \<open>
  \<open>lapic_id\<close> is the identifier the local APIC of the executing CPU reports and
  \<open>eflags_if a\<close> the interrupt-enable flag of the CPU with identifier \<open>a\<close>: the
  two hardware registers the locking code reads. Running code on another CPU is running it
  with another \<open>lapic_id\<close>.
\<close>

record kstate =
  lapic_id :: nat
  eflags_if :: "nat \<Rightarrow> bool"
  ncpu :: nat
  cpus :: "nat \<Rightarrow> cpu"
  locks :: "lockid \<Rightarrow> spinlock"
  slocks :: "sleepid \<Rightarrow> sleeplock"
  procs :: "nat \<Rightarrow> proc"
  initproc :: "nat option"
  nextpid :: int

definition set_if :: "bool \<Rightarrow> 'z kstate_scheme \<Rightarrow> 'z kstate_scheme" where
  "set_if b s = s\<lparr>eflags_if := (eflags_if s)(lapic_id s := b)\<rparr>"

definition upd_cpu :: "nat \<Rightarrow> (cpu \<Rightarrow> cpu) \<Rightarrow> 'z kstate_scheme \<Rightarrow> 'z kstate_scheme" where
  "upd_cpu i f s = s\<lparr>cpus := (cpus s)(i := f (cpus s i))\<rparr>"

definition upd_lock :: "lockid \<Rightarrow> (spinlock \<Rightarrow> spinlock) \<Rightarrow> 'z kstate_scheme \<Rightarrow> 'z kstate_scheme"
  where "upd_lock l f s = s\<lparr>locks := (locks s)(l := f (locks s l))\<rparr>"

definition upd_slock :: "sleepid \<Rightarrow> (sleeplock \<Rightarrow> sleeplock) \<Rightarrow> 'z kstate_scheme \<Rightarrow> 'z kstate_scheme"
  where "upd_slock l f s = s\<lparr>slocks := (slocks s)(l := f (slocks s l))\<rparr>"

definition upd_proc :: "nat \<Rightarrow> (proc \<Rightarrow> proc) \<Rightarrow> 'z kstate_scheme \<Rightarrow> 'z kstate_scheme" where
  "upd_proc i f s = s\<lparr>procs := (procs s)(i := f (procs s i))\<rparr>"

lemmas kstate_upd_defs = set_if_def upd_cpu_def upd_lock_def upd_slock_def upd_proc_def

end
