(* ===== verification/Spinlock.thy ===== *)
theory Spinlock
  imports Kernel_State
begin

text \<open>
  \<open>spinlock.c\<close> and the CPU lookup of \<open>proc.c\<close>: finding the current CPU, nested
  disabling of interrupts (\<open>pushcli\<close>, \<open>popcli\<close>), and acquiring, releasing and
  testing spinlocks. The debugging call trace of a lock is left out. An \<open>acquire\<close> that
  finds the lock taken by another CPU spins; the model returns \<open>Spin\<close>, and the call is
  made again when the lock may have been released.
\<close>

section \<open>The current CPU\<close>

definition cpu_lookup :: "(nat \<Rightarrow> cpu) \<Rightarrow> nat \<Rightarrow> nat \<Rightarrow> nat option" where
  "cpu_lookup cs n apicid = find (\<lambda>i. c_apicid (cs i) = apicid) [0..<n]"

definition mycpu :: "'z kstate_scheme \<Rightarrow> (nat, 'z kstate_scheme) res" where
  "mycpu s =
     (if eflags_if s (lapic_id s) then Panic ''mycpu called with interrupts enabled''
      else case cpu_lookup (cpus s) (ncpu s) (lapic_id s) of
             None \<Rightarrow> Panic ''unknown apicid''
           | Some i \<Rightarrow> Ok i s)"

section \<open>Interrupt nesting\<close>

definition pushcli :: "'z kstate_scheme \<Rightarrow> (unit, 'z kstate_scheme) res" where
  "pushcli s =
     (let eflags = eflags_if s (lapic_id s);
          s = set_if False s
      in andthen (mycpu s) (\<lambda>c s.
         let s = (if c_ncli (cpus s c) = 0 then upd_cpu c (\<lambda>r. r\<lparr>c_intena := eflags\<rparr>) s else s)
         in Ok () (upd_cpu c (\<lambda>r. r\<lparr>c_ncli := c_ncli r + 1\<rparr>) s)))"

definition popcli :: "'z kstate_scheme \<Rightarrow> (unit, 'z kstate_scheme) res" where
  "popcli s =
     (if eflags_if s (lapic_id s) then Panic ''popcli - interruptible''
      else andthen (mycpu s) (\<lambda>c s.
        let s = upd_cpu c (\<lambda>r. r\<lparr>c_ncli := c_ncli r - 1\<rparr>) s
        in if c_ncli (cpus s c) < 0 then Panic ''popcli''
           else if c_ncli (cpus s c) = 0 \<and> c_intena (cpus s c) then Ok () (set_if True s)
           else Ok () s))"

section \<open>Spinlocks\<close>

definition initlock :: "lockid \<Rightarrow> string \<Rightarrow> 'z kstate_scheme \<Rightarrow> 'z kstate_scheme" where
  "initlock l name s =
     upd_lock l (\<lambda>k. k\<lparr>lk_name := name, lk_locked := False, lk_cpu := None\<rparr>) s"

definition holding :: "lockid \<Rightarrow> 'z kstate_scheme \<Rightarrow> (bool, 'z kstate_scheme) res" where
  "holding l s =
     andthen (pushcli s) (\<lambda>_ s.
     andthen (mycpu s) (\<lambda>c s.
     let r = (lk_locked (locks s l) \<and> lk_cpu (locks s l) = Some c)
     in andthen (popcli s) (\<lambda>_ s. Ok r s)))"

definition acquire :: "lockid \<Rightarrow> 'z kstate_scheme \<Rightarrow> (unit, 'z kstate_scheme) res" where
  "acquire l s =
     andthen (pushcli s) (\<lambda>_ s.
     andthen (holding l s) (\<lambda>h s.
     if h then Panic ''acquire''
     else if lk_locked (locks s l) then Spin
     else
       let s = upd_lock l (\<lambda>k. k\<lparr>lk_locked := True\<rparr>) s
       in andthen (mycpu s) (\<lambda>c s.
          Ok () (upd_lock l (\<lambda>k. k\<lparr>lk_cpu := Some c\<rparr>) s))))"

definition release :: "lockid \<Rightarrow> 'z kstate_scheme \<Rightarrow> (unit, 'z kstate_scheme) res" where
  "release l s =
     andthen (holding l s) (\<lambda>h s.
     if \<not> h then Panic ''release''
     else
       let s = upd_lock l (\<lambda>k. k\<lparr>lk_cpu := None\<rparr>) s;
           s = upd_lock l (\<lambda>k. k\<lparr>lk_locked := False\<rparr>) s
       in popcli s)"

definition myproc :: "'z kstate_scheme \<Rightarrow> (nat option, 'z kstate_scheme) res" where
  "myproc s =
     andthen (pushcli s) (\<lambda>_ s.
     andthen (mycpu s) (\<lambda>c s.
     let p = c_proc (cpus s c)
     in andthen (popcli s) (\<lambda>_ s. Ok p s)))"

definition cpuid :: "'z kstate_scheme \<Rightarrow> (nat, 'z kstate_scheme) res" where
  "cpuid s = mycpu s"

section \<open>Steady CPUs\<close>

text \<open>
  \<open>steady c s\<close>: the executing CPU is entry \<open>c\<close> of \<open>cpus\<close>; at nesting
  depth zero the saved flag \<open>intena\<close> agrees with the interrupt flag (as it does after
  any matched \<open>pushcli\<close>/\<open>popcli\<close>), and at a positive depth interrupts are off.
  \<open>calm c s\<close>: moreover no spinlock is held and the depth is zero, the situation of
  code running in a system call outside critical sections.
\<close>

definition steady :: "nat \<Rightarrow> 'z kstate_scheme \<Rightarrow> bool" where
  "steady c s \<longleftrightarrow>
     cpu_lookup (cpus s) (ncpu s) (lapic_id s) = Some c \<and>
     0 \<le> c_ncli (cpus s c) \<and>
     (c_ncli (cpus s c) = 0 \<longrightarrow> c_intena (cpus s c) = eflags_if s (lapic_id s)) \<and>
     (c_ncli (cpus s c) \<noteq> 0 \<longrightarrow> \<not> eflags_if s (lapic_id s))"

definition lk_free :: "lockid \<Rightarrow> 'z kstate_scheme \<Rightarrow> bool" where
  "lk_free l s \<longleftrightarrow> \<not> lk_locked (locks s l) \<and> lk_cpu (locks s l) = None"

definition calm :: "nat \<Rightarrow> 'z kstate_scheme \<Rightarrow> bool" where
  "calm c s \<longleftrightarrow> steady c s \<and> c_ncli (cpus s c) = 0 \<and> (\<forall>l. lk_free l s)"

definition push_state :: "nat \<Rightarrow> 'z kstate_scheme \<Rightarrow> 'z kstate_scheme" where
  "push_state c s =
     s\<lparr>eflags_if := (eflags_if s)(lapic_id s := False),
       cpus := (cpus s)(c := (cpus s c)\<lparr>c_ncli := c_ncli (cpus s c) + 1\<rparr>)\<rparr>"

definition acq :: "lockid \<Rightarrow> nat \<Rightarrow> 'z kstate_scheme \<Rightarrow> 'z kstate_scheme" where
  "acq l c s =
     s\<lparr>eflags_if := (eflags_if s)(lapic_id s := False),
       cpus := (cpus s)(c := (cpus s c)\<lparr>c_ncli := c_ncli (cpus s c) + 1\<rparr>),
       locks := (locks s)(l := (locks s l)\<lparr>lk_locked := True, lk_cpu := Some c\<rparr>)\<rparr>"

lemma cpu_lookup_upd [simp]:
  "c_apicid r = c_apicid (cs c) \<Longrightarrow> cpu_lookup (cs(c := r)) n a = cpu_lookup cs n a"
  unfolding cpu_lookup_def by (rule find_cong) auto

lemma mycpu_steady: "steady c s \<Longrightarrow> \<not> eflags_if s (lapic_id s) \<Longrightarrow> mycpu s = Ok c s"
  by (simp add: steady_def mycpu_def)

lemma mycpu_set_if:
  "steady c s \<Longrightarrow> mycpu (s\<lparr>eflags_if := (eflags_if s)(lapic_id s := False)\<rparr>)
     = Ok c (s\<lparr>eflags_if := (eflags_if s)(lapic_id s := False)\<rparr>)"
  by (simp add: steady_def mycpu_def)

lemma cpu_intena_same: "c_intena r = b \<Longrightarrow> r\<lparr>c_intena := b\<rparr> = r"
  by (cases r) simp

lemma pushcli_steady: "steady c s \<Longrightarrow> pushcli s = Ok () (push_state c s)"
proof -
  assume s: "steady c s"
  show ?thesis
  proof (cases "c_ncli (cpus s c) = 0")
    case True
    with s have "c_intena (cpus s c) = eflags_if s (lapic_id s)" by (simp add: steady_def)
    with True s show ?thesis
      by (simp add: pushcli_def Let_def set_if_def mycpu_set_if upd_cpu_def push_state_def
          cpu_intena_same)
  next
    case False
    with s show ?thesis
      by (simp add: pushcli_def Let_def set_if_def mycpu_set_if upd_cpu_def push_state_def)
  qed
qed

lemma steady_push_state: "steady c s \<Longrightarrow> steady c (push_state c s)"
  by (simp add: steady_def push_state_def)

lemma kstate_cpu_same: "s\<lparr>eflags_if := eflags_if s, cpus := cpus s\<rparr> = s"
  by (cases s) simp

lemma popcli_push_state: "steady c s \<Longrightarrow> popcli (push_state c s) = Ok () s"
proof -
  assume s: "steady c s"
  have r: "(cpus s c)\<lparr>c_ncli := c_ncli (cpus s c)\<rparr> = cpus s c" by (cases "cpus s c") simp
  have e: "(eflags_if s)(lapic_id s := eflags_if s (lapic_id s)) = eflags_if s" by simp
  show ?thesis
    using s
    by (cases "c_ncli (cpus s c) = 0"; cases "eflags_if s (lapic_id s)")
       (auto simp: popcli_def mycpu_def Let_def upd_cpu_def set_if_def push_state_def steady_def r
          kstate_cpu_same fun_upd_idem)
qed

lemma push_state_simps [simp]:
  "locks (push_state c s) = locks s"
  "c_proc (cpus (push_state c s) c) = c_proc (cpus s c)"
  by (simp_all add: push_state_def)

lemma mycpu_push_state: "steady c s \<Longrightarrow> mycpu (push_state c s) = Ok c (push_state c s)"
  by (rule mycpu_steady [OF steady_push_state]) (simp_all add: push_state_def)

lemma holding_steady:
  "steady c s \<Longrightarrow> holding l s = Ok (lk_locked (locks s l) \<and> lk_cpu (locks s l) = Some c) s"
  by (simp add: holding_def pushcli_steady mycpu_push_state popcli_push_state Let_def)

lemma steady_acq: "steady c s \<Longrightarrow> steady c (acq l c s)"
  by (simp add: steady_def acq_def)

lemma acquire_unfold:
  assumes "steady c s"
  shows "acquire l s =
    (if lk_locked (locks s l) then
       (if lk_cpu (locks s l) = Some c then Panic ''acquire'' else Spin)
     else Ok () (acq l c s))"
proof -
  let ?u = "upd_lock l (\<lambda>k. k\<lparr>lk_locked := True\<rparr>) (push_state c s)"
  have m: "mycpu ?u = Ok c ?u"
    using assms by (simp add: mycpu_def steady_def push_state_def upd_lock_def)
  have "upd_lock l (\<lambda>k. k\<lparr>lk_cpu := Some c\<rparr>) ?u = acq l c s"
    by (cases s) (simp add: push_state_def upd_lock_def acq_def)
  with m show ?thesis
    using assms
    by (simp add: acquire_def pushcli_steady holding_steady [OF steady_push_state [OF assms]] Let_def)
qed

lemma acquire_free: "steady c s \<Longrightarrow> lk_free l s \<Longrightarrow> acquire l s = Ok () (acq l c s)"
  by (simp add: acquire_unfold lk_free_def)

lemma spinlock_free_same:
  "\<not> lk_locked k \<Longrightarrow> lk_cpu k = None \<Longrightarrow> k\<lparr>lk_cpu := None, lk_locked := False\<rparr> = k"
  by (cases k) simp

lemma kstate_locks_same: "s\<lparr>locks := locks s\<rparr> = s"
  by (cases s) simp

lemma release_acq: "steady c s \<Longrightarrow> lk_free l s \<Longrightarrow> release l (acq l c s) = Ok () s"
proof -
  assume s: "steady c s" and l: "lk_free l s"
  let ?t = "s\<lparr>locks := (locks s)(l := (locks s l)\<lparr>lk_cpu := None, lk_locked := False\<rparr>)\<rparr>"
  have t: "?t = s"
    using l by (simp add: lk_free_def spinlock_free_same kstate_locks_same)
  have "release l (acq l c s) = popcli (push_state c ?t)"
    using holding_steady [OF steady_acq [OF s], of l l]
    by (cases s) (simp add: release_def Let_def upd_lock_def acq_def push_state_def)
  then show ?thesis by (simp add: t popcli_push_state s)
qed

lemma release_not_held:
  "steady c s \<Longrightarrow> \<not> (lk_locked (locks s l) \<and> lk_cpu (locks s l) = Some c) \<Longrightarrow>
   release l s = Panic ''release''"
  by (simp add: release_def holding_steady)

lemma myproc_steady: "steady c s \<Longrightarrow> myproc s = Ok (c_proc (cpus s c)) s"
  by (simp add: myproc_def pushcli_steady mycpu_push_state popcli_push_state Let_def)

lemma lk_free_acq [simp]: "lk_free k (acq l c s) \<longleftrightarrow> k \<noteq> l \<and> lk_free k s"
  by (auto simp: lk_free_def acq_def)

lemma calm_steady: "calm c s \<Longrightarrow> steady c s"
  by (simp add: calm_def)

lemma calm_free: "calm c s \<Longrightarrow> lk_free l s"
  by (simp add: calm_def)

section \<open>Several CPUs\<close>

text \<open>
  A run of completed \<open>acquire\<close> and \<open>release\<close> calls by any CPUs, in any order,
  and the CPUs that have acquired a lock and not released it yet.
\<close>

datatype lock_event = Acq nat lockid | Rel nat lockid

fun lock_step :: "lock_event \<Rightarrow> 'z kstate_scheme \<Rightarrow> (unit, 'z kstate_scheme) res" where
  "lock_step (Acq a l) s = acquire l (s\<lparr>lapic_id := a\<rparr>)"
| "lock_step (Rel a l) s = release l (s\<lparr>lapic_id := a\<rparr>)"

fun lock_run :: "lock_event list \<Rightarrow> 'z kstate_scheme \<Rightarrow> (unit, 'z kstate_scheme) res" where
  "lock_run [] s = Ok () s"
| "lock_run (e # es) s = andthen (lock_step e s) (\<lambda>_ s. lock_run es s)"

fun holders :: "lock_event list \<Rightarrow> (lockid \<Rightarrow> nat set) \<Rightarrow> lockid \<Rightarrow> nat set" where
  "holders [] H = H"
| "holders (Acq a l # es) H = holders es (H(l := insert a (H l)))"
| "holders (Rel a l # es) H = holders es (H(l := H l - {a}))"

definition all_steady :: "'z kstate_scheme \<Rightarrow> bool" where
  "all_steady s \<longleftrightarrow>
     (\<forall>a c. cpu_lookup (cpus s) (ncpu s) a = Some c \<longrightarrow> steady c (s\<lparr>lapic_id := a\<rparr>))"

definition held :: "nat \<Rightarrow> 'z kstate_scheme \<Rightarrow> lockid set" where
  "held c s = {l. lk_cpu (locks s l) = Some c}"

definition lock_inv :: "(lockid \<Rightarrow> nat set) \<Rightarrow> 'z kstate_scheme \<Rightarrow> bool" where
  "lock_inv H s \<longleftrightarrow>
     all_steady s \<and>
     (\<forall>a c. cpu_lookup (cpus s) (ncpu s) a = Some c \<longrightarrow>
        finite (held c s) \<and> c_ncli (cpus s c) = int (card (held c s))) \<and>
     (\<forall>l. lk_locked (locks s l) \<longleftrightarrow> lk_cpu (locks s l) \<noteq> None) \<and>
     (\<forall>l a. a \<in> H l \<longleftrightarrow>
        (\<exists>c. cpu_lookup (cpus s) (ncpu s) a = Some c \<and> lk_cpu (locks s l) = Some c))"

lemma cpu_lookup_apicid: "cpu_lookup cs n a = Some c \<Longrightarrow> c_apicid (cs c) = a"
  by (auto simp: cpu_lookup_def find_Some_iff)

lemma cpu_lookup_inj: "cpu_lookup cs n a = Some c \<Longrightarrow> cpu_lookup cs n b = Some c \<Longrightarrow> a = b"
  by (auto dest: cpu_lookup_apicid)

definition rel :: "lockid \<Rightarrow> nat \<Rightarrow> 'z kstate_scheme \<Rightarrow> 'z kstate_scheme" where
  "rel l c s =
     s\<lparr>eflags_if := (eflags_if s)(lapic_id s := (c_ncli (cpus s c) = 1 \<and> c_intena (cpus s c))),
       cpus := (cpus s)(c := (cpus s c)\<lparr>c_ncli := c_ncli (cpus s c) - 1\<rparr>),
       locks := (locks s)(l := (locks s l)\<lparr>lk_locked := False, lk_cpu := None\<rparr>)\<rparr>"

lemma release_held:
  assumes s: "steady c s" and "1 \<le> c_ncli (cpus s c)"
    and "lk_locked (locks s l)" "lk_cpu (locks s l) = Some c"
  shows "release l s = Ok () (rel l c s)"
proof -
  have e: "\<not> eflags_if s (lapic_id s)" using assms by (auto simp: steady_def split: if_splits)
  have f: "(eflags_if s)(lapic_id s := False) = eflags_if s" using e by (simp add: fun_eq_iff)
  have "release l s = popcli (s\<lparr>locks := (locks s)(l := (locks s l)\<lparr>lk_locked := False,
      lk_cpu := None\<rparr>)\<rparr>)"
    using assms(3,4) by (simp add: release_def holding_steady [OF s] Let_def upd_lock_def)
       (cases "locks s l", simp)
  also have "\<dots> = Ok () (rel l c s)"
    using assms e f
    by (cases s) (auto simp: popcli_def mycpu_def upd_cpu_def steady_def set_if_def rel_def Let_def)
  finally show ?thesis .
qed

lemma mycpu_unknown: "cpu_lookup (cpus s) (ncpu s) (lapic_id s) = None \<Longrightarrow> mycpu s \<noteq> Ok c t"
  by (auto simp: mycpu_def)

lemma pushcli_unknown:
  "cpu_lookup (cpus s) (ncpu s) (lapic_id s) = None \<Longrightarrow> pushcli s \<noteq> Ok () t"
  using mycpu_unknown [of "set_if False s"]
  by (auto simp: pushcli_def Let_def andthen_eq_Ok set_if_def)

lemma acquire_cpu: "acquire l s = Ok () t \<Longrightarrow> \<exists>c. cpu_lookup (cpus s) (ncpu s) (lapic_id s) = Some c"
  using pushcli_unknown [of s] by (auto simp: acquire_def andthen_eq_Ok)

lemma release_cpu: "release l s = Ok () t \<Longrightarrow> \<exists>c. cpu_lookup (cpus s) (ncpu s) (lapic_id s) = Some c"
  using pushcli_unknown [of s] by (auto simp: release_def holding_def andthen_eq_Ok)

lemma cpu_lookup_upd_ncli [simp]:
  "cpu_lookup (cs(c := (cs c)\<lparr>c_ncli := v\<rparr>)) n a = cpu_lookup cs n a"
  by simp

lemma lock_inv_steady:
  "lock_inv H s \<Longrightarrow> cpu_lookup (cpus s) (ncpu s) a = Some c \<Longrightarrow> steady c (s\<lparr>lapic_id := a\<rparr>)"
  unfolding lock_inv_def all_steady_def by blast

lemma lock_inv_count:
  "lock_inv H s \<Longrightarrow> cpu_lookup (cpus s) (ncpu s) a = Some c \<Longrightarrow>
   finite (held c s) \<and> c_ncli (cpus s c) = int (card (held c s))"
  unfolding lock_inv_def by blast

lemma lock_inv_locked: "lock_inv H s \<Longrightarrow> lk_locked (locks s l) \<longleftrightarrow> lk_cpu (locks s l) \<noteq> None"
  unfolding lock_inv_def by blast

lemma lock_inv_holder:
  "lock_inv H s \<Longrightarrow> a \<in> H l \<longleftrightarrow>
     (\<exists>c. cpu_lookup (cpus s) (ncpu s) a = Some c \<and> lk_cpu (locks s l) = Some c)"
  unfolding lock_inv_def by blast

lemma lock_invI:
  assumes "\<And>a c. cpu_lookup (cpus s) (ncpu s) a = Some c \<Longrightarrow> steady c (s\<lparr>lapic_id := a\<rparr>)"
    and "\<And>a c. cpu_lookup (cpus s) (ncpu s) a = Some c \<Longrightarrow>
      finite (held c s) \<and> c_ncli (cpus s c) = int (card (held c s))"
    and "\<And>l. lk_locked (locks s l) \<longleftrightarrow> lk_cpu (locks s l) \<noteq> None"
    and "\<And>l a. a \<in> H l \<longleftrightarrow>
      (\<exists>c. cpu_lookup (cpus s) (ncpu s) a = Some c \<and> lk_cpu (locks s l) = Some c)"
  shows "lock_inv H s"
  unfolding lock_inv_def all_steady_def using assms by blast

lemma lock_inv_acq:
  assumes inv: "lock_inv H s" and c: "cpu_lookup (cpus s) (ncpu s) a = Some c"
    and free: "lk_cpu (locks s l) = None"
  shows "lock_inv (H(l := insert a (H l))) (acq l c (s\<lparr>lapic_id := a\<rparr>))" (is "lock_inv ?H ?t")
proof -
  have look: "cpu_lookup (cpus ?t) (ncpu ?t) = cpu_lookup (cpus s) (ncpu s)"
    by (rule ext) (simp add: acq_def)
  have heldt: "held d ?t = (if d = c then insert l (held c s) else held d s)" for d
    using free by (auto simp: held_def acq_def)
  have lct: "lk_cpu (locks ?t k) = (if k = l then Some c else lk_cpu (locks s k))" for k
    by (simp add: acq_def)
  show ?thesis
  proof (rule lock_invI, unfold look)
    fix b d assume d: "cpu_lookup (cpus s) (ncpu s) b = Some d"
    show "steady d (?t\<lparr>lapic_id := b\<rparr>)"
    proof (cases "d = c")
      case True
      then have "b = a" using cpu_lookup_inj [OF c] d by blast
      with True show ?thesis using lock_inv_steady [OF inv c] by (simp add: steady_def acq_def)
    next
      case False
      then have "b \<noteq> a" using c d by auto
      with False show ?thesis using lock_inv_steady [OF inv d] by (simp add: steady_def acq_def)
    qed
    show "finite (held d ?t) \<and> c_ncli (cpus ?t d) = int (card (held d ?t))"
      using lock_inv_count [OF inv d] free unfolding heldt
      by (cases "d = c") (simp_all add: acq_def held_def)
  next
    fix k show "lk_locked (locks ?t k) \<longleftrightarrow> lk_cpu (locks ?t k) \<noteq> None"
      using lock_inv_locked [OF inv, of k] by (simp add: acq_def)
  next
    fix k b
    show "b \<in> ?H k \<longleftrightarrow>
        (\<exists>d. cpu_lookup (cpus s) (ncpu s) b = Some d \<and> lk_cpu (locks ?t k) = Some d)"
      unfolding lct using lock_inv_holder [OF inv, of b k] free c cpu_lookup_inj [OF c, of b]
      by (cases "k = l") auto
  qed
qed

lemma lock_inv_rel:
  assumes inv: "lock_inv H s" and c: "cpu_lookup (cpus s) (ncpu s) a = Some c"
    and mine: "lk_cpu (locks s l) = Some c"
  shows "lock_inv (H(l := H l - {a})) (rel l c (s\<lparr>lapic_id := a\<rparr>))" (is "lock_inv ?H ?t")
proof -
  have look: "cpu_lookup (cpus ?t) (ncpu ?t) = cpu_lookup (cpus s) (ncpu s)"
    by (rule ext) (simp add: rel_def)
  have heldt: "held d ?t = (if d = c then held c s - {l} else held d s)" for d
    using mine by (auto simp: held_def rel_def)
  have lct: "lk_cpu (locks ?t k) = (if k = l then None else lk_cpu (locks s k))" for k
    by (simp add: rel_def)
  have l_in: "l \<in> held c s" using mine by (simp add: held_def)
  have fin: "finite (held c s)" using lock_inv_count [OF inv c] by simp
  then have pos: "1 \<le> card (held c s)" using l_in by (auto simp: Suc_le_eq card_gt_0_iff)
  have card: "int (card (held c s - {l})) = int (card (held c s)) - 1"
    using pos l_in fin by (simp add: card_Diff_singleton of_nat_diff)
  show ?thesis
  proof (rule lock_invI, unfold look)
    fix b d assume d: "cpu_lookup (cpus s) (ncpu s) b = Some d"
    show "steady d (?t\<lparr>lapic_id := b\<rparr>)"
    proof (cases "d = c")
      case True
      then have "b = a" using cpu_lookup_inj [OF c] d by blast
      with True show ?thesis using lock_inv_steady [OF inv c] lock_inv_count [OF inv c] pos by (auto simp: steady_def rel_def)
    next
      case False
      then have "b \<noteq> a" using c d by auto
      with False show ?thesis using lock_inv_steady [OF inv d] by (simp add: steady_def rel_def)
    qed
    show "finite (held d ?t) \<and> c_ncli (cpus ?t d) = int (card (held d ?t))"
      using lock_inv_count [OF inv d] card unfolding heldt
      by (cases "d = c") (simp_all add: rel_def)
  next
    fix k show "lk_locked (locks ?t k) \<longleftrightarrow> lk_cpu (locks ?t k) \<noteq> None"
      using lock_inv_locked [OF inv, of k] by (simp add: rel_def)
  next
    fix k b
    show "b \<in> ?H k \<longleftrightarrow>
        (\<exists>d. cpu_lookup (cpus s) (ncpu s) b = Some d \<and> lk_cpu (locks ?t k) = Some d)"
      unfolding lct using lock_inv_holder [OF inv, of b k] mine c cpu_lookup_inj [OF c, of b]
      by (cases "k = l") auto
  qed
qed

lemma lock_step_inv:
  assumes inv: "lock_inv H s" and step: "lock_step e s = Ok () t"
  shows "lock_inv (holders [e] H) t"
proof (cases e)
  case (Acq a l)
  with step have ac: "acquire l (s\<lparr>lapic_id := a\<rparr>) = Ok () t" by simp
  from acquire_cpu [OF this] obtain c where c: "cpu_lookup (cpus s) (ncpu s) a = Some c" by auto
  from ac have "lk_cpu (locks s l) = None" "t = acq l c (s\<lparr>lapic_id := a\<rparr>)"
    using acquire_unfold [OF lock_inv_steady [OF inv c], of l] lock_inv_locked [OF inv, of l]
    by (auto split: if_splits)
  with lock_inv_acq [OF inv c] Acq show ?thesis by simp
next
  case (Rel a l)
  with step have rl: "release l (s\<lparr>lapic_id := a\<rparr>) = Ok () t" by simp
  from release_cpu [OF this] obtain c where c: "cpu_lookup (cpus s) (ncpu s) a = Some c" by auto
  note st = lock_inv_steady [OF inv c]
  have mine: "lk_locked (locks s l)" "lk_cpu (locks s l) = Some c"
    using rl release_not_held [OF st, of l] by auto
  then have "l \<in> held c s" by (simp add: held_def)
  then have "1 \<le> c_ncli (cpus s c)"
    using lock_inv_count [OF inv c] by (auto simp: Suc_le_eq card_gt_0_iff)
  then have "t = rel l c (s\<lparr>lapic_id := a\<rparr>)"
    using release_held [OF st, of l] mine rl by simp
  with lock_inv_rel [OF inv c mine(2)] Rel show ?thesis by simp
qed

lemma holders_Cons: "holders (e # es) H = holders es (holders [e] H)"
  by (cases e) simp_all

lemma lock_run_inv:
  "lock_inv H s \<Longrightarrow> lock_run es s = Ok () t \<Longrightarrow> lock_inv (holders es H) t"
proof (induction es arbitrary: H s)
  case (Cons e es)
  from Cons.prems(2) obtain u where u: "lock_step e s = Ok () u" "lock_run es u = Ok () t"
    by (auto simp: andthen_eq_Ok)
  from Cons.IH [OF lock_step_inv [OF Cons.prems(1) u(1)] u(2)] show ?case
    by (simp add: holders_Cons [of e es])
qed simp

lemma lock_inv_start:
  assumes "all_steady s" and "\<forall>l. lk_free l s" and "\<forall>c < ncpu s. c_ncli (cpus s c) = 0"
  shows "lock_inv (\<lambda>_. {}) s"
proof (rule lock_invI)
  fix a c assume c: "cpu_lookup (cpus s) (ncpu s) a = Some c"
  then show "steady c (s\<lparr>lapic_id := a\<rparr>)" using assms(1) by (simp add: all_steady_def)
  from c have "c < ncpu s" by (auto simp: cpu_lookup_def find_Some_iff)
  moreover have "held c s = {}" using assms(2) by (simp add: held_def lk_free_def)
  ultimately show "finite (held c s) \<and> c_ncli (cpus s c) = int (card (held c s))"
    using assms(3) by simp
qed (use assms(2) in \<open>auto simp: lk_free_def\<close>)

text \<open>
  C5. Mutual exclusion of spinlocks. Start with all locks free and every CPU at nesting depth
  zero, and let any CPUs complete any sequence of \<open>acquire\<close> and \<open>release\<close> calls.
  Then no two CPUs are between an \<open>acquire\<close> and the matching \<open>release\<close> of the
  same lock, the lock itself records the holder, and every holder runs with interrupts off.
\<close>

theorem spinlock_mutual_exclusion:
  assumes "all_steady s" and "\<forall>l. lk_free l s" and "\<forall>c < ncpu s. c_ncli (cpus s c) = 0"
    and run: "lock_run es s = Ok () t"
    and a: "a \<in> holders es (\<lambda>_. {}) l"
  shows "(b \<in> holders es (\<lambda>_. {}) l \<longrightarrow> b = a) \<and> lk_locked (locks t l) \<and> \<not> eflags_if t a"
proof -
  have inv: "lock_inv (holders es (\<lambda>_. {})) t"
    using lock_run_inv [OF lock_inv_start [OF assms(1-3)] run] .
  from a obtain c where c: "cpu_lookup (cpus t) (ncpu t) a = Some c" "lk_cpu (locks t l) = Some c"
    using lock_inv_holder [OF inv] by blast
  have "l \<in> held c t" using c(2) by (simp add: held_def)
  then have "c_ncli (cpus t c) \<noteq> 0"
    using lock_inv_count [OF inv c(1)] by auto
  then have "\<not> eflags_if t a" using lock_inv_steady [OF inv c(1)] by (simp add: steady_def)
  moreover have "b \<in> holders es (\<lambda>_. {}) l \<longrightarrow> b = a"
    using lock_inv_holder [OF inv, of b l] c cpu_lookup_inj [OF c(1), of b] by auto
  ultimately show ?thesis using lock_inv_locked [OF inv, of l] c(2) by simp
qed

text \<open>A machine with two CPUs, used to show that the hypotheses can hold.\<close>

definition idle_cpu :: "nat \<Rightarrow> cpu" where
  "idle_cpu a = \<lparr>c_apicid = a, c_started = True, c_ncli = 0, c_intena = True, c_proc = None\<rparr>"

definition free_spinlock :: spinlock where
  "free_spinlock = \<lparr>lk_locked = False, lk_name = [], lk_cpu = None\<rparr>"

definition free_sleeplock :: sleeplock where
  "free_sleeplock = \<lparr>sl_locked = False, sl_name = [], sl_pid = 0\<rparr>"

definition zero_tf :: trapframe where
  "zero_tf = \<lparr>tf_edi = 0, tf_esi = 0, tf_ebp = 0, tf_oesp = 0, tf_ebx = 0, tf_edx = 0, tf_ecx = 0,
     tf_eax = 0, tf_gs = 0, tf_fs = 0, tf_es = 0, tf_ds = 0, tf_trapno = 0, tf_err = 0, tf_eip = 0,
     tf_cs = 0, tf_eflags = 0, tf_esp = 0, tf_ss = 0\<rparr>"

definition zero_context :: kcontext where
  "zero_context = \<lparr>cx_edi = 0, cx_esi = 0, cx_ebx = 0, cx_ebp = 0, cx_eip = 0\<rparr>"

definition zero_proc :: proc where
  "zero_proc = \<lparr>p_sz = 0, p_pgdir = 0, p_kstack = 0, p_state = UNUSED, p_pid = 0, p_parent = None,
     p_tf = zero_tf, p_context = zero_context, p_chan = None, p_killed = False,
     p_ofile = (\<lambda>_. None), p_cwd = None, p_name = []\<rparr>"

definition two_cpus :: kstate where
  "two_cpus = \<lparr>lapic_id = 0, eflags_if = (\<lambda>_. True), ncpu = 2, cpus = idle_cpu,
     locks = (\<lambda>_. free_spinlock), slocks = (\<lambda>_. free_sleeplock), procs = (\<lambda>_. zero_proc),
     initproc = None, nextpid = 1\<rparr>"

lemma idle_lookup:
  "cpu_lookup idle_cpu 2 a = (if a = 0 then Some 0 else if a = 1 then Some 1 else None)"
  by (simp add: cpu_lookup_def idle_cpu_def numeral_2_eq_2)

lemmas lock_eval = acquire_def release_def pushcli_def mycpu_def holding_def popcli_def idle_lookup
  set_if_def upd_cpu_def upd_lock_def Let_def idle_cpu_def free_spinlock_def

lemma two_cpus_ready:
  "all_steady two_cpus" "\<forall>l. lk_free l two_cpus"
  "\<forall>c < ncpu two_cpus. c_ncli (cpus two_cpus c) = 0"
  by (simp add: all_steady_def steady_def two_cpus_def idle_lookup, simp add: idle_cpu_def)
     (simp_all add: lk_free_def two_cpus_def free_spinlock_def idle_cpu_def)

theorem spinlock_mutual_exclusion_witness:
  "\<exists>t. lock_run [Acq 1 PtableLock, Acq 0 LogLock] two_cpus = Ok () t
     \<and> 1 \<in> holders [Acq 1 PtableLock, Acq 0 LogLock] (\<lambda>_. {}) PtableLock
     \<and> lk_locked (locks t PtableLock) \<and> \<not> eflags_if t 1"
proof -
  have "\<exists>t. lock_run [Acq 1 PtableLock, Acq 0 LogLock] two_cpus = Ok () t"
    by (simp add: two_cpus_def lock_eval)
  then obtain t where t: "lock_run [Acq 1 PtableLock, Acq 0 LogLock] two_cpus = Ok () t" ..
  have h: "1 \<in> holders [Acq 1 PtableLock, Acq 0 LogLock] (\<lambda>_. {}) PtableLock" by simp
  show ?thesis
    using spinlock_mutual_exclusion [OF two_cpus_ready t h, of 1] t h by blast
qed

end
