(* ===== verification/Sleep_Wakeup.thy ===== *)
theory Sleep_Wakeup
  imports Spinlock
begin

text \<open>
  The part of \<open>proc.c\<close> that other components call: giving up the CPU (\<open>sched\<close>,
  \<open>yield\<close>), sleeping on a channel and waking sleepers. A call that reaches
  \<open>swtch\<close> ends in \<open>Swtch\<close> with the state at that point; \<open>sleep_return\<close> is
  the code a sleeper runs when the scheduler resumes it.
\<close>

section \<open>Code as a sequence of statements\<close>

text \<open>\<open>sleep\<close> and \<open>wakeup\<close> are written as lists of their statements, which \<open>run_code\<close> executes one after
  the other, so that the statements of two CPUs can also be interleaved.\<close>

type_synonym 's code = "('s \<Rightarrow> (unit, 's) res) list"

fun run_code :: "'s code \<Rightarrow> 's \<Rightarrow> (unit, 's) res" where
  "run_code [] s = Ok () s"
| "run_code (x # xs) s = andthen (x s) (\<lambda>_ s. run_code xs s)"

section \<open>Waking up\<close>

definition wakeup1 :: "chan \<Rightarrow> 'z kstate_scheme \<Rightarrow> 'z kstate_scheme" where
  "wakeup1 ch s =
     fold (\<lambda>p s. if p_state (procs s p) = SLEEPING \<and> p_chan (procs s p) = Some ch
                 then upd_proc p (\<lambda>r. r\<lparr>p_state := RUNNABLE\<rparr>) s else s) [0..<NPROC] s"

definition wakeup_code :: "chan \<Rightarrow> 'z kstate_scheme code" where
  "wakeup_code ch = [acquire PtableLock, \<lambda>s. Ok () (wakeup1 ch s), release PtableLock]"

definition wakeup :: "chan \<Rightarrow> 'z kstate_scheme \<Rightarrow> (unit, 'z kstate_scheme) res" where
  "wakeup ch = run_code (wakeup_code ch)"

section \<open>Giving up the CPU\<close>

text \<open>\<open>sched\<close> up to the \<open>swtch\<close>. A null \<open>myproc()\<close> is dereferenced.\<close>

definition sched :: "'z kstate_scheme \<Rightarrow> (unit, 'z kstate_scheme) res" where
  "sched s =
     andthen (myproc s) (\<lambda>p s.
     andthen (holding PtableLock s) (\<lambda>h s.
     if \<not> h then Panic ''sched ptable.lock''
     else andthen (mycpu s) (\<lambda>c s.
     if c_ncli (cpus s c) \<noteq> 1 then Panic ''sched locks''
     else case p of None \<Rightarrow> Panic ''null proc''
     | Some p \<Rightarrow>
       if p_state (procs s p) = RUNNING then Panic ''sched running''
       else if eflags_if s (lapic_id s) then Panic ''sched interruptible''
       else Swtch s)))"

text \<open>The rest of \<open>sched\<close>, run when the scheduler switches back to the process.\<close>

definition sched_return :: "bool \<Rightarrow> 'z kstate_scheme \<Rightarrow> (unit, 'z kstate_scheme) res" where
  "sched_return intena s =
     andthen (mycpu s) (\<lambda>c s. Ok () (upd_cpu c (\<lambda>r. r\<lparr>c_intena := intena\<rparr>) s))"

definition yield :: "'z kstate_scheme \<Rightarrow> (unit, 'z kstate_scheme) res" where
  "yield s =
     andthen (acquire PtableLock s) (\<lambda>_ s.
     andthen (myproc s) (\<lambda>p s.
     case p of None \<Rightarrow> Panic ''null proc''
     | Some p \<Rightarrow>
       andthen (sched (upd_proc p (\<lambda>r. r\<lparr>p_state := RUNNABLE\<rparr>) s)) (\<lambda>_ s.
       release PtableLock s)))"

text \<open>\<open>sleep\<close> of process \<open>p\<close> up to the switch. A lock identifier always names a lock, so the test for a null
  \<open>lk\<close> has no counterpart.\<close>

definition sleep_code :: "chan \<Rightarrow> lockid \<Rightarrow> nat \<Rightarrow> 'z kstate_scheme code" where
  "sleep_code ch lk p =
     (if lk \<noteq> PtableLock then [acquire PtableLock, release lk] else []) @
     [\<lambda>s. Ok () (upd_proc p (\<lambda>r. r\<lparr>p_chan := Some ch\<rparr>) s),
      \<lambda>s. Ok () (upd_proc p (\<lambda>r. r\<lparr>p_state := SLEEPING\<rparr>) s),
      sched]"

definition sleep :: "chan \<Rightarrow> lockid \<Rightarrow> 'z kstate_scheme \<Rightarrow> (unit, 'z kstate_scheme) res" where
  "sleep ch lk s =
     andthen (myproc s) (\<lambda>p s.
     case p of None \<Rightarrow> Panic ''sleep''
     | Some p \<Rightarrow> run_code (sleep_code ch lk p) s)"

text \<open>The rest of \<open>yield\<close> and of \<open>sleep\<close> after the switch back.\<close>

definition yield_return :: "bool \<Rightarrow> 'z kstate_scheme \<Rightarrow> (unit, 'z kstate_scheme) res" where
  "yield_return intena s = andthen (sched_return intena s) (\<lambda>_ s. release PtableLock s)"

definition sleep_return :: "nat \<Rightarrow> lockid \<Rightarrow> bool \<Rightarrow> 'z kstate_scheme \<Rightarrow> (unit, 'z kstate_scheme) res"
  where
  "sleep_return p lk intena s =
     andthen (sched_return intena s) (\<lambda>_ s.
     let s = upd_proc p (\<lambda>r. r\<lparr>p_chan := None\<rparr>) s
     in if lk \<noteq> PtableLock
        then andthen (release PtableLock s) (\<lambda>_ s. acquire lk s)
        else Ok () s)"

lemma andthen_Ok: "andthen r Ok = r"
  by (cases r) simp_all

lemma run_code_eq: "run_code [] = Ok ()" "run_code (x # xs) = (\<lambda>s. andthen (x s) (\<lambda>_. run_code xs))"
  by (rule ext, simp)+

lemma wakeup_eq: "wakeup ch s = andthen (acquire PtableLock s) (\<lambda>_ s. release PtableLock (wakeup1 ch s))"
  by (simp add: wakeup_def wakeup_code_def run_code_eq andthen_Ok)

lemma sleep_eq:
  "sleep ch lk s =
     andthen (myproc s) (\<lambda>p s.
     case p of None \<Rightarrow> Panic ''sleep''
     | Some p \<Rightarrow>
       andthen (if lk \<noteq> PtableLock
                then andthen (acquire PtableLock s) (\<lambda>_ s. release lk s)
                else Ok () s) (\<lambda>_ s.
       sched (upd_proc p (\<lambda>r. r\<lparr>p_chan := Some ch, p_state := SLEEPING\<rparr>) s)))"
  by (simp add: sleep_def sleep_code_def upd_proc_def andthen_assoc run_code_eq andthen_Ok cong: option.case_cong)

section \<open>What waking up does\<close>

text \<open>The process a sleeper on \<open>ch\<close> becomes.\<close>

definition woken :: "chan \<Rightarrow> proc \<Rightarrow> proc" where
  "woken ch r = (if p_state r = SLEEPING \<and> p_chan r = Some ch then r\<lparr>p_state := RUNNABLE\<rparr> else r)"

lemma woken_simps [simp]:
  "p_pid (woken ch r) = p_pid r" "p_killed (woken ch r) = p_killed r"
  "p_cwd (woken ch r) = p_cwd r" "p_ofile (woken ch r) = p_ofile r"
  "p_parent (woken ch r) = p_parent r" "p_chan (woken ch r) = p_chan r"
  "p_sz (woken ch r) = p_sz r" "p_pgdir (woken ch r) = p_pgdir r"
  "p_kstack (woken ch r) = p_kstack r" "p_tf (woken ch r) = p_tf r"
  "p_name (woken ch r) = p_name r"
  by (simp_all add: woken_def)

text \<open>The process table after a wakeup.\<close>

definition woken_procs :: "chan \<Rightarrow> nat \<Rightarrow> (nat \<Rightarrow> proc) \<Rightarrow> nat \<Rightarrow> proc" where
  "woken_procs ch n f p = (if p < n then woken ch (f p) else f p)"

lemma woken_procs_simps [simp]:
  "p_pid (woken_procs ch n f q) = p_pid (f q)" "p_killed (woken_procs ch n f q) = p_killed (f q)"
  "p_cwd (woken_procs ch n f q) = p_cwd (f q)" "p_ofile (woken_procs ch n f q) = p_ofile (f q)"
  "p_parent (woken_procs ch n f q) = p_parent (f q)" "p_chan (woken_procs ch n f q) = p_chan (f q)"
  "p_sz (woken_procs ch n f q) = p_sz (f q)" "p_name (woken_procs ch n f q) = p_name (f q)"
  by (simp_all add: woken_procs_def)

lemma fold_wake:
  "fold (\<lambda>p s. if p_state (procs s p) = SLEEPING \<and> p_chan (procs s p) = Some ch
               then upd_proc p (\<lambda>r. r\<lparr>p_state := RUNNABLE\<rparr>) s else s) [0..<n] s
   = s\<lparr>procs := woken_procs ch n (procs s)\<rparr>"
proof (induction n)
  case 0
  then show ?case by (cases s) (simp add: fun_eq_iff woken_procs_def)
next
  case (Suc n)
  have "woken_procs ch (Suc n) (procs s)
      = (woken_procs ch n (procs s))(n := woken ch (procs s n))"
    by (auto simp: fun_eq_iff woken_procs_def less_Suc_eq)
  moreover have "(woken_procs ch n (procs s))(n := procs s n) = woken_procs ch n (procs s)"
    by (auto simp: fun_eq_iff woken_procs_def)
  moreover have "woken_procs ch n (procs s) n = procs s n" by (simp add: woken_procs_def)
  ultimately show ?case
    by (auto simp: Suc upd_proc_def woken_def fun_upd_def)
qed

lemma wakeup1_eq: "wakeup1 ch s = s\<lparr>procs := woken_procs ch NPROC (procs s)\<rparr>"
  by (simp add: wakeup1_def fold_wake)

lemma steady_procs [simp]: "steady c (s\<lparr>procs := x\<rparr>) = steady c s"
  by (simp add: steady_def)

lemma lk_free_procs [simp]: "lk_free l (s\<lparr>procs := x\<rparr>) = lk_free l s"
  by (simp add: lk_free_def)

lemma calm_procs [simp]: "calm c (s\<lparr>procs := x\<rparr>) = calm c s"
  by (simp add: calm_def)

lemma steady_slocks [simp]: "steady c (s\<lparr>slocks := x\<rparr>) = steady c s"
  by (simp add: steady_def)

lemma lk_free_slocks [simp]: "lk_free l (s\<lparr>slocks := x\<rparr>) = lk_free l s"
  by (simp add: lk_free_def)

lemma calm_slocks [simp]: "calm c (s\<lparr>slocks := x\<rparr>) = calm c s"
  by (simp add: calm_def)

lemma acq_procs: "(acq l c s)\<lparr>procs := x\<rparr> = acq l c (s\<lparr>procs := x\<rparr>)"
  by (cases s) (simp add: acq_def)

lemma acq_slocks: "(acq l c s)\<lparr>slocks := x\<rparr> = acq l c (s\<lparr>slocks := x\<rparr>)"
  by (cases s) (simp add: acq_def)

lemma acq_simps [simp]:
  "procs (acq l c s) = procs s" "slocks (acq l c s) = slocks s"
  "lapic_id (acq l c s) = lapic_id s" "ncpu (acq l c s) = ncpu s"
  "initproc (acq l c s) = initproc s" "nextpid (acq l c s) = nextpid s"
  "c_proc (cpus (acq l c s) d) = c_proc (cpus s d)"
  "c_apicid (cpus (acq l c s) d) = c_apicid (cpus s d)"
  by (simp_all add: acq_def)

lemma wakeup_ok:
  assumes "steady c s" "lk_free PtableLock s"
  shows "wakeup ch s = Ok () (wakeup1 ch s)"
  using release_acq [of c "wakeup1 ch s" PtableLock] assms
  by (simp add: wakeup_eq acquire_free [OF assms] wakeup1_eq acq_procs)

section \<open>What sleeping does\<close>

text \<open>
  A running process that holds \<open>lk\<close> alone, and sleeps: it gives up \<open>lk\<close>, marks itself
  sleeping and leaves holding only \<open>ptable.lock\<close>, which the scheduler releases.
\<close>

lemma rel_acq_other:
  "l \<noteq> m \<Longrightarrow> lk_free l s \<Longrightarrow> steady c s \<Longrightarrow>
   rel l c (acq m c (acq l c s)) = acq m c s"
  by (cases s) (auto simp: rel_def acq_def lk_free_def steady_def fun_eq_iff)

lemma sched_switches:
  assumes "steady c s" "c_ncli (cpus s c) = 0" "c_proc (cpus s c) = Some p"
    and "p_state (procs s p) \<noteq> RUNNING"
  shows "sched (acq PtableLock c s) = Swtch (acq PtableLock c s)"
proof -
  have "steady c (acq PtableLock c s)" by (rule steady_acq [OF assms(1)])
  moreover have "\<not> eflags_if (acq PtableLock c s) (lapic_id s)"
    "c_ncli (cpus (acq PtableLock c s) c) = 1"
    "lk_locked (locks (acq PtableLock c s) PtableLock)"
    "lk_cpu (locks (acq PtableLock c s) PtableLock) = Some c"
    using assms(2) by (simp_all add: acq_def)
  ultimately show ?thesis
    using assms by (simp add: sched_def myproc_steady holding_steady mycpu_steady)
qed

lemma sleep_switches:
  assumes st: "steady c s" and n: "c_ncli (cpus s c) = 0" and p: "c_proc (cpus s c) = Some p"
    and f: "lk_free lk s" "lk_free PtableLock s" and ne: "lk \<noteq> PtableLock"
  shows "sleep ch lk (acq lk c s) =
    Swtch (acq PtableLock c (upd_proc p (\<lambda>r. r\<lparr>p_chan := Some ch, p_state := SLEEPING\<rparr>) s))"
proof -
  let ?a = "acq PtableLock c (acq lk c s)"
  let ?u = "upd_proc p (\<lambda>r. r\<lparr>p_chan := Some ch, p_state := SLEEPING\<rparr>) s"
  have sa: "steady c (acq lk c s)" by (rule steady_acq [OF st])
  have fa: "lk_free PtableLock (acq lk c s)" using f ne by (simp add: lk_free_def acq_def)
  have "release lk ?a = Ok () (rel lk c ?a)"
    using steady_acq [OF sa, of PtableLock] n ne by (intro release_held) (simp_all add: acq_def)
  also have "rel lk c ?a = acq PtableLock c s" using ne f(1) st by (rule rel_acq_other)
  finally have r: "release lk ?a = Ok () (acq PtableLock c s)" .
  have "sched (acq PtableLock c ?u) = Swtch (acq PtableLock c ?u)"
    using st n p by (intro sched_switches [of c ?u p]) (simp_all add: upd_proc_def)
  then show ?thesis
    using p ne by (simp add: sleep_eq myproc_steady [OF sa] acquire_free [OF sa fa] r)
       (simp add: upd_proc_def acq_procs)
qed

end
