(* ===== verification/Sleeplock.thy ===== *)
theory Sleeplock
  imports Sleep_Wakeup
begin

text \<open>
  \<open>sleeplock.c\<close>: long-term locks that are held across disk operations. A caller that
  finds the lock taken sleeps on it (\<open>Swtch\<close>); when it is resumed it goes back to the
  test of the loop (\<open>acquiresleep_resume\<close>).
\<close>

definition initsleeplock :: "sleepid \<Rightarrow> string \<Rightarrow> 'z kstate_scheme \<Rightarrow> 'z kstate_scheme" where
  "initsleeplock sl name s =
     upd_slock sl (\<lambda>k. k\<lparr>sl_name := name, sl_locked := False, sl_pid := 0\<rparr>)
       (initlock (SleepLk sl) ''sleep lock'' s)"

definition acquiresleep_loop :: "sleepid \<Rightarrow> 'z kstate_scheme \<Rightarrow> (unit, 'z kstate_scheme) res" where
  "acquiresleep_loop sl s =
     (if sl_locked (slocks s sl) then sleep (ChanSleep sl) (SleepLk sl) s
      else
        let s = upd_slock sl (\<lambda>k. k\<lparr>sl_locked := True\<rparr>) s
        in andthen (myproc s) (\<lambda>p s.
           case p of None \<Rightarrow> Panic ''null proc''
           | Some p \<Rightarrow>
             release (SleepLk sl) (upd_slock sl (\<lambda>k. k\<lparr>sl_pid := p_pid (procs s p)\<rparr>) s)))"

definition acquiresleep :: "sleepid \<Rightarrow> 'z kstate_scheme \<Rightarrow> (unit, 'z kstate_scheme) res" where
  "acquiresleep sl s = andthen (acquire (SleepLk sl) s) (\<lambda>_ s. acquiresleep_loop sl s)"

definition acquiresleep_resume ::
  "nat \<Rightarrow> sleepid \<Rightarrow> bool \<Rightarrow> 'z kstate_scheme \<Rightarrow> (unit, 'z kstate_scheme) res" where
  "acquiresleep_resume p sl intena s =
     andthen (sleep_return p (SleepLk sl) intena s) (\<lambda>_ s. acquiresleep_loop sl s)"

definition releasesleep :: "sleepid \<Rightarrow> 'z kstate_scheme \<Rightarrow> (unit, 'z kstate_scheme) res" where
  "releasesleep sl s =
     andthen (acquire (SleepLk sl) s) (\<lambda>_ s.
     let s = upd_slock sl (\<lambda>k. k\<lparr>sl_locked := False, sl_pid := 0\<rparr>) s
     in andthen (wakeup (ChanSleep sl) s) (\<lambda>_ s. release (SleepLk sl) s))"

definition holdingsleep :: "sleepid \<Rightarrow> 'z kstate_scheme \<Rightarrow> (bool, 'z kstate_scheme) res" where
  "holdingsleep sl s =
     andthen (acquire (SleepLk sl) s) (\<lambda>_ s.
     andthen (if sl_locked (slocks s sl)
              then andthen (myproc s) (\<lambda>p s.
                case p of None \<Rightarrow> Panic ''null proc''
                | Some p \<Rightarrow> Ok (sl_pid (slocks s sl) = p_pid (procs s p)) s)
              else Ok False s) (\<lambda>r s.
     andthen (release (SleepLk sl) s) (\<lambda>_ s. Ok r s)))"

section \<open>Behaviour outside critical sections\<close>

text \<open>\<open>runs c p s\<close>: process \<open>p\<close> runs on CPU \<open>c\<close> outside every critical section.\<close>

definition runs :: "nat \<Rightarrow> nat \<Rightarrow> 'z kstate_scheme \<Rightarrow> bool" where
  "runs c p s \<longleftrightarrow> calm c s \<and> c_proc (cpus s c) = Some p"

lemma runs_calm: "runs c p s \<Longrightarrow> calm c s"
  by (simp add: runs_def)

lemma runs_steady: "runs c p s \<Longrightarrow> steady c s"
  by (simp add: runs_def calm_def)

lemma runs_free: "runs c p s \<Longrightarrow> lk_free l s"
  by (simp add: runs_def calm_def)

lemma runs_upd [simp]:
  "runs c p (s\<lparr>procs := x\<rparr>) = runs c p s" "runs c p (s\<lparr>slocks := y\<rparr>) = runs c p s"
  by (simp_all add: runs_def)

definition slock_set :: "sleepid \<Rightarrow> nat \<Rightarrow> 'z kstate_scheme \<Rightarrow> 'z kstate_scheme" where
  "slock_set sl p s =
     s\<lparr>slocks := (slocks s)(sl := (slocks s sl)\<lparr>sl_locked := True, sl_pid := p_pid (procs s p)\<rparr>)\<rparr>"

definition slock_clear :: "sleepid \<Rightarrow> 'z kstate_scheme \<Rightarrow> 'z kstate_scheme" where
  "slock_clear sl s =
     wakeup1 (ChanSleep sl) (s\<lparr>slocks := (slocks s)(sl := (slocks s sl)\<lparr>sl_locked := False, sl_pid := 0\<rparr>)\<rparr>)"

lemma acquiresleep_free:
  assumes r: "runs c p s" and f: "\<not> sl_locked (slocks s sl)"
  shows "acquiresleep sl s = Ok () (slock_set sl p s)"
proof -
  note st = runs_steady [OF r] and fr = runs_free [OF r, of "SleepLk sl"]
  let ?t = "slock_set sl p s"
  have sc: "steady c ?t" "lk_free (SleepLk sl) ?t" using st fr by (simp_all add: slock_set_def)
  have p: "c_proc (cpus s c) = Some p" using r by (simp add: runs_def)
  have "acquiresleep sl s = release (SleepLk sl) (acq (SleepLk sl) c ?t)"
    using f p myproc_steady [OF steady_acq [OF st], of "SleepLk sl"]
    by (simp add: acquiresleep_def acquire_free [OF st fr] acquiresleep_loop_def Let_def
        upd_slock_def acq_slocks slock_set_def
        myproc_steady [OF steady_acq, of c "s\<lparr>slocks := _\<rparr>"] st)
  then show ?thesis by (simp add: release_acq [OF sc])
qed

lemma acquiresleep_busy:
  assumes r: "runs c p s" and f: "sl_locked (slocks s sl)"
  shows "acquiresleep sl s =
    Swtch (acq PtableLock c
      (upd_proc p (\<lambda>r. r\<lparr>p_chan := Some (ChanSleep sl), p_state := SLEEPING\<rparr>) s))"
  using f r runs_free [OF r] runs_steady [OF r]
  by (simp add: acquiresleep_def acquire_free acquiresleep_loop_def sleep_switches runs_def calm_def)

lemma releasesleep_ok:
  assumes r: "runs c p s"
  shows "releasesleep sl s = Ok () (slock_clear sl s)"
proof -
  note st = runs_steady [OF r] and fr = runs_free [OF r]
  let ?u = "s\<lparr>slocks := (slocks s)(sl := (slocks s sl)\<lparr>sl_locked := False, sl_pid := 0\<rparr>)\<rparr>"
  have u: "steady c ?u" "lk_free l ?u" for l using st fr by simp_all
  have "wakeup (ChanSleep sl) (acq (SleepLk sl) c ?u)
      = Ok () (acq (SleepLk sl) c (wakeup1 (ChanSleep sl) ?u))"
    using wakeup_ok [of c "acq (SleepLk sl) c ?u" "ChanSleep sl"] u
    by (simp add: steady_acq wakeup1_eq acq_procs)
  then show ?thesis
    using release_acq [of c "wakeup1 (ChanSleep sl) ?u" "SleepLk sl"] u
    by (simp add: releasesleep_def acquire_free [OF st fr] Let_def upd_slock_def acq_slocks
        slock_clear_def) (simp add: wakeup1_eq)
qed

lemma holdingsleep_ok:
  assumes r: "runs c p s"
  shows "holdingsleep sl s =
    Ok (sl_locked (slocks s sl) \<and> sl_pid (slocks s sl) = p_pid (procs s p)) s"
proof -
  note st = runs_steady [OF r] and fr = runs_free [OF r]
  have p: "c_proc (cpus s c) = Some p" using r by (simp add: runs_def)
  show ?thesis
    using p by (simp add: holdingsleep_def acquire_free [OF st fr] myproc_steady [OF steady_acq [OF st]]
        release_acq [OF st fr])
qed

lemma slock_set_simps [simp]:
  "procs (slock_set sl p s) = procs s" "runs c q (slock_set sl p s) = runs c q s"
  "cpus (slock_set sl p s) = cpus s" "locks (slock_set sl p s) = locks s"
  "slocks (slock_set sl p s) = (slocks s)(sl := (slocks s sl)\<lparr>sl_locked := True, sl_pid := p_pid (procs s p)\<rparr>)"
  by (simp_all add: slock_set_def)

lemma slock_clear_simps [simp]:
  "p_pid (procs (slock_clear sl s) q) = p_pid (procs s q)"
  "p_killed (procs (slock_clear sl s) q) = p_killed (procs s q)"
  "p_cwd (procs (slock_clear sl s) q) = p_cwd (procs s q)"
  "p_ofile (procs (slock_clear sl s) q) = p_ofile (procs s q)"
  "runs c q (slock_clear sl s) = runs c q s"
  "slocks (slock_clear sl s) = (slocks s)(sl := (slocks s sl)\<lparr>sl_locked := False, sl_pid := 0\<rparr>)"
  by (simp_all add: slock_clear_def wakeup1_eq)

end
