(* ===== verification/Block_Cache.thy ===== *)
theory Block_Cache
  imports Kernel_State
begin

text \<open>
  The contract of the buffer cache, as its clients (\<open>log.c\<close>, \<open>fs.c\<close>) use it: an abstract
  cache, the effect of each call on it, and a locale with the laws. The lemmas inside the
  locale are about the patterns in which the clients use the calls.
\<close>

section \<open>The abstract cache\<close>

definition BSIZE :: nat where "BSIZE = 512"

type_synonym disk = "nat \<Rightarrow> u8 list"

text \<open>
  The newest contents of each block, the blocks somebody has locked, the blocks this process
  has locked (with the handle), the modified blocks that are kept in memory, the disk and
  the sequence of writes it has seen.
\<close>

record cache =
  ca_view :: disk
  ca_held :: "nat set"
  ca_mine :: "(nat \<times> nat) set"
  ca_dirty :: "nat set"
  ca_disk :: disk
  ca_log :: "(nat \<times> u8 list) list"
  ca_size :: nat

definition a_read :: "nat \<Rightarrow> nat \<Rightarrow> cache \<Rightarrow> cache" where
  "a_read i b a = a\<lparr>ca_held := insert b (ca_held a), ca_mine := insert (i, b) (ca_mine a)\<rparr>"

definition a_set :: "nat \<Rightarrow> u8 list \<Rightarrow> cache \<Rightarrow> cache" where
  "a_set b d a = a\<lparr>ca_view := (ca_view a)(b := d)\<rparr>"

definition a_write :: "nat \<Rightarrow> cache \<Rightarrow> cache" where
  "a_write b a = a\<lparr>ca_dirty := ca_dirty a - {b}, ca_disk := (ca_disk a)(b := ca_view a b),
     ca_log := ca_log a @ [(b, ca_view a b)]\<rparr>"

definition a_release :: "nat \<Rightarrow> nat \<Rightarrow> cache \<Rightarrow> cache" where
  "a_release i b a = a\<lparr>ca_held := ca_held a - {b}, ca_mine := ca_mine a - {(i, b)}\<rparr>"

definition a_pin :: "nat \<Rightarrow> cache \<Rightarrow> cache" where
  "a_pin b a = a\<lparr>ca_dirty := insert b (ca_dirty a)\<rparr>"

lemmas a_defs = a_read_def a_set_def a_write_def a_release_def a_pin_def

text \<open>A block can be read if nobody has it and a buffer is left for it.\<close>

definition can_read :: "nat \<Rightarrow> cache \<Rightarrow> bool" where
  "can_read b a \<longleftrightarrow> b < ca_size a \<and> b \<notin> ca_held a \<and>
     (b \<in> ca_dirty a \<or> card (ca_held a \<union> ca_dirty a) < NBUF)"

section \<open>The laws\<close>

text \<open>Reading, changing and releasing blocks: what every client relies on.\<close>

locale block_io =
  fixes rd :: "nat \<Rightarrow> 's \<Rightarrow> (nat, 's) res"
    and rel :: "nat \<Rightarrow> 's \<Rightarrow> (unit, 's) res"
    and getd :: "nat \<Rightarrow> 's \<Rightarrow> u8 list"
    and setd :: "nat \<Rightarrow> u8 list \<Rightarrow> 's \<Rightarrow> 's"
    and good :: "'s \<Rightarrow> bool"
    and ab :: "'s \<Rightarrow> cache"
    and core :: "'s \<Rightarrow> 'c"
  assumes rd_ok: "good s \<Longrightarrow> can_read b (ab s) \<Longrightarrow>
      \<exists>i t. rd b s = Ok i t \<and> good t \<and> ab t = a_read i b (ab s) \<and> core t = core s"
    and getd_ok: "good s \<Longrightarrow> (i, b) \<in> ca_mine (ab s) \<Longrightarrow> getd i s = ca_view (ab s) b"
    and setd_ok: "good s \<Longrightarrow> (i, b) \<in> ca_mine (ab s) \<Longrightarrow> length d = BSIZE \<Longrightarrow>
      good (setd i d s) \<and> ab (setd i d s) = a_set b d (ab s) \<and> core (setd i d s) = core s"
    and rel_ok: "good s \<Longrightarrow> (i, b) \<in> ca_mine (ab s) \<Longrightarrow>
      b \<in> ca_dirty (ab s) \<or> ca_view (ab s) b = ca_disk (ab s) b \<Longrightarrow>
      \<exists>t. rel i s = Ok () t \<and> good t \<and> ab t = a_release i b (ab s) \<and> core t = core s"
    and mine_held: "good s \<Longrightarrow> (i, b) \<in> ca_mine (ab s) \<Longrightarrow> b \<in> ca_held (ab s)"
    and clean: "good s \<Longrightarrow> b \<notin> ca_dirty (ab s) \<Longrightarrow> b \<notin> ca_held (ab s) \<Longrightarrow>
      ca_view (ab s) b = ca_disk (ab s) b"
    and view_length: "good s \<Longrightarrow> length (ca_view (ab s) b) = BSIZE"
begin

lemma settled: "good s \<Longrightarrow> b \<notin> ca_held (ab s) \<Longrightarrow>
   b \<in> ca_dirty (ab s) \<or> ca_view (ab s) b = ca_disk (ab s) b"
  using clean by blast

lemma read_release_id:
  "good s \<Longrightarrow> b \<notin> ca_held (ab s) \<Longrightarrow> a_release i b (a_read i b (ab s)) = ab s"
  using mine_held [of s i b] by (cases "ab s") (auto simp: a_defs)

text \<open>Read a block and release it unchanged.\<close>

lemma peek:
  assumes "good s" "can_read b (ab s)"
  obtains i t u where "rd b s = Ok i t" "getd i t = ca_view (ab s) b" "core t = core s" "rel i t = Ok () u"
    "good u" "ab u = ab s" "core u = core s"
proof -
  obtain i t where t: "rd b s = Ok i t" "good t" "ab t = a_read i b (ab s)" "core t = core s"
    using rd_ok [OF assms] by blast
  have h: "b \<notin> ca_held (ab s)" using assms(2) by (simp add: can_read_def)
  have "(i, b) \<in> ca_mine (ab t)" using t(3) by (simp add: a_read_def)
  moreover have "b \<in> ca_dirty (ab t) \<or> ca_view (ab t) b = ca_disk (ab t) b"
    using settled [OF assms(1) h] t(3) by (simp add: a_read_def)
  ultimately obtain u where u: "rel i t = Ok () u" "good u" "ab u = a_release i b (ab t)" "core u = core t"
    using rel_ok [OF t(2)] by blast
  have "ab u = ab s" using u(3) t(3) read_release_id [OF assms(1) h] by simp
  moreover have "getd i t = ca_view (ab s) b"
    using getd_ok [OF t(2) \<open>(i, b) \<in> ca_mine (ab t)\<close>] t(3) by (simp add: a_read_def)
  ultimately show ?thesis using that [OF t(1) _ t(4) u(1,2)] u(4) t(4) by simp
qed

text \<open>Two blocks held at once, and a copy between them that is written to the disk.\<close>

lemma two_reads:
  assumes "good s" "can_read x (ab s)" "y \<noteq> x" "y < ca_size (ab s)" "y \<notin> ca_held (ab s)"
    and room: "y \<in> ca_dirty (ab s) \<or> card (insert x (ca_held (ab s) \<union> ca_dirty (ab s))) < NBUF"
  obtains i t j u where "rd x s = Ok i t" "rd y t = Ok j u" "good u"
    "ab u = a_read j y (a_read i x (ab s))" "core u = core s"
proof -
  obtain i t where t: "rd x s = Ok i t" "good t" "ab t = a_read i x (ab s)" "core t = core s"
    using rd_ok [OF assms(1,2)] by blast
  have "can_read y (ab t)" using assms(3-5) room t(3) by (auto simp: can_read_def a_read_def)
  then obtain j u where "rd y t = Ok j u" "good u" "ab u = a_read j y (ab t)" "core u = core t"
    using rd_ok [OF t(2)] by blast
  with t that show ?thesis by simp
qed

end

text \<open>Writing to the disk: what the log relies on.\<close>

locale block_cache = block_io +
  fixes wr :: "nat \<Rightarrow> 's \<Rightarrow> (unit, 's) res"
    and pin :: "nat \<Rightarrow> 's \<Rightarrow> 's"
    and blk :: "nat \<Rightarrow> 's \<Rightarrow> nat"
  assumes pin_ok: "good s \<Longrightarrow> (i, b) \<in> ca_mine (ab s) \<Longrightarrow>
      good (pin i s) \<and> ab (pin i s) = a_pin b (ab s) \<and> core (pin i s) = core s"
    and blk_ok: "(i, b) \<in> ca_mine (ab s) \<Longrightarrow> blk i s = b"
    and wr_ok: "good s \<Longrightarrow> (i, b) \<in> ca_mine (ab s) \<Longrightarrow> b < ca_size (ab s) \<Longrightarrow>
      \<exists>t. wr i s = Ok () t \<and> good t \<and> ab t = a_write b (ab s) \<and> core t = core s"
begin

lemma write_release:
  assumes u: "good u" "(i, x) \<in> ca_mine (ab u)" "(j, y) \<in> ca_mine (ab u)" "x \<noteq> y" "y < ca_size (ab u)"
    and x: "x \<in> ca_dirty (ab u) \<or> ca_view (ab u) x = ca_disk (ab u) x"
  obtains w w1 w2 where "wr j (setd j (getd i u) u) = Ok () w" "rel i w = Ok () w1" "rel j w1 = Ok () w2"
    "good w2" "core w2 = core u"
    "ab w2 = a_release j y (a_release i x (a_write y (a_set y (ca_view (ab u) x) (ab u))))"
proof -
  let ?v = "setd j (getd i u) u"
  have g: "getd i u = ca_view (ab u) x" by (rule getd_ok [OF u(1,2)])
  have v: "good ?v" "ab ?v = a_set y (ca_view (ab u) x) (ab u)" "core ?v = core u"
    using setd_ok [OF u(1,3)] view_length [OF u(1)] g by auto
  obtain w where w: "wr j ?v = Ok () w" "good w" "ab w = a_write y (ab ?v)" "core w = core ?v"
    using wr_ok [OF v(1), of j y] u(3,5) v(2) by (auto simp: a_set_def)
  obtain w1 where w1: "rel i w = Ok () w1" "good w1" "ab w1 = a_release i x (ab w)" "core w1 = core w"
    using rel_ok [OF w(2), of i x] u(2,4) x w(3) v(2) by (auto simp: a_set_def a_write_def)
  obtain w2 where w2: "rel j w1 = Ok () w2" "good w2" "ab w2 = a_release j y (ab w1)" "core w2 = core w1"
    using rel_ok [OF w1(2), of j y] u(3,4) w1(3) w(3) v(2) by (auto simp: a_defs)
  show ?thesis using that [OF w(1) w1(1) w2(1,2)] w w1 w2 v by simp
qed

lemma release_both:
  assumes "good s" "x \<notin> ca_held (ab s)" "y \<notin> ca_held (ab s)" "x \<noteq> y"
  shows "a_release j y (a_release i x (a_write y (a_set y d (a_read j y (a_read i x (ab s)))))) =
         a_write y (a_set y d (ab s))"
    "a_release j y (a_release i x (a_write y (a_set y d (a_read i x (a_read j y (ab s)))))) =
         a_write y (a_set y d (ab s))"
  using assms mine_held [OF assms(1), of i x] mine_held [OF assms(1), of j y]
  by (cases "ab s"; auto simp: a_defs)+

lemma copy_src_first:
  assumes "good s" "can_read x (ab s)" "y \<noteq> x" "y < ca_size (ab s)" "y \<notin> ca_held (ab s)"
    "y \<in> ca_dirty (ab s) \<or> card (insert x (ca_held (ab s) \<union> ca_dirty (ab s))) < NBUF"
  obtains i t j u w w1 w2 where "rd x s = Ok i t" "rd y t = Ok j u"
    "wr j (setd j (getd i u) u) = Ok () w" "rel i w = Ok () w1" "rel j w1 = Ok () w2" "good w2"
    "core w2 = core s" "ab w2 = a_write y (a_set y (ca_view (ab s) x) (ab s))"
proof -
  obtain i t j u where u: "rd x s = Ok i t" "rd y t = Ok j u" "good u"
    "ab u = a_read j y (a_read i x (ab s))" "core u = core s"
    using two_reads [OF assms] .
  have x: "x < ca_size (ab s)" "x \<notin> ca_held (ab s)" using assms(2) by (simp_all add: can_read_def)
  have "x \<in> ca_dirty (ab u) \<or> ca_view (ab u) x = ca_disk (ab u) x"
    using settled [OF assms(1) x(2)] u(4) by (simp add: a_read_def)
  then obtain w w1 w2 where "wr j (setd j (getd i u) u) = Ok () w" "rel i w = Ok () w1" "rel j w1 = Ok () w2"
    "good w2" "core w2 = core u"
    "ab w2 = a_release j y (a_release i x (a_write y (a_set y (ca_view (ab u) x) (ab u))))"
    using write_release [OF u(3), of i x j y] u(4) assms(3,4) by (auto simp: a_read_def)
  with u that show ?thesis
    using release_both(1) [OF assms(1) x(2) assms(5)] assms(3) by (simp add: a_read_def)
qed

lemma copy_dst_first:
  assumes "good s" "can_read y (ab s)" "x \<noteq> y" "x < ca_size (ab s)" "x \<notin> ca_held (ab s)"
    "x \<in> ca_dirty (ab s) \<or> card (insert y (ca_held (ab s) \<union> ca_dirty (ab s))) < NBUF"
  obtains i t j u w w1 w2 where "rd y s = Ok j t" "rd x t = Ok i u"
    "wr j (setd j (getd i u) u) = Ok () w" "rel i w = Ok () w1" "rel j w1 = Ok () w2" "good w2"
    "core w2 = core s" "ab w2 = a_write y (a_set y (ca_view (ab s) x) (ab s))"
proof -
  obtain j t i u where u: "rd y s = Ok j t" "rd x t = Ok i u" "good u"
    "ab u = a_read i x (a_read j y (ab s))" "core u = core s"
    using two_reads [OF assms] .
  have y: "y < ca_size (ab s)" "y \<notin> ca_held (ab s)" using assms(2) by (simp_all add: can_read_def)
  have "x \<in> ca_dirty (ab u) \<or> ca_view (ab u) x = ca_disk (ab u) x"
    using settled [OF assms(1,5)] u(4) by (simp add: a_read_def)
  then obtain w w1 w2 where "wr j (setd j (getd i u) u) = Ok () w" "rel i w = Ok () w1" "rel j w1 = Ok () w2"
    "good w2" "core w2 = core u"
    "ab w2 = a_release j y (a_release i x (a_write y (a_set y (ca_view (ab u) x) (ab u))))"
    using write_release [OF u(3), of i x j y] u(4) assms(3) y by (auto simp: a_read_def)
  with u that show ?thesis
    using release_both(2) [OF assms(1,5) y(2)] assms(3) by (simp add: a_read_def)
qed

text \<open>Change a block through \<open>f\<close> and write it to the disk.\<close>

lemma rewrite:
  assumes "good s" "can_read b (ab s)" "length (f (ca_view (ab s) b)) = BSIZE"
  obtains i t w u where "rd b s = Ok i t" "wr i (setd i (f (getd i t)) t) = Ok () w" "rel i w = Ok () u"
    "good u" "core u = core s" "ab u = a_write b (a_set b (f (ca_view (ab s) b)) (ab s))"
proof -
  obtain i t where t: "rd b s = Ok i t" "good t" "ab t = a_read i b (ab s)" "core t = core s"
    using rd_ok [OF assms(1,2)] by blast
  have m: "(i, b) \<in> ca_mine (ab t)" using t(3) by (simp add: a_read_def)
  have h: "b \<notin> ca_held (ab s)" "b < ca_size (ab s)" using assms(2) by (simp_all add: can_read_def)
  let ?d = "f (getd i t)"
  have d: "?d = f (ca_view (ab s) b)" using getd_ok [OF t(2) m] t(3) by (simp add: a_read_def)
  have v: "good (setd i ?d t)" "ab (setd i ?d t) = a_set b ?d (ab t)" "core (setd i ?d t) = core t"
    using setd_ok [OF t(2) m] assms(3) d by auto
  obtain w where w: "wr i (setd i ?d t) = Ok () w" "good w" "ab w = a_write b (ab (setd i ?d t))" "core w = core t"
    using wr_ok [OF v(1), of i b] v t(3) h m by (auto simp: a_set_def a_read_def)
  obtain u where u: "rel i w = Ok () u" "good u" "ab u = a_release i b (ab w)" "core u = core w"
    using rel_ok [OF w(2), of i b] w(3) v(2) m by (auto simp: a_defs)
  have "ab u = a_write b (a_set b ?d (ab s))"
    using u(3) w(3) v(2) t(3) h mine_held [OF assms(1), of i b] by (cases "ab s") (auto simp: a_defs)
  then show ?thesis using that [OF t(1) w(1) u(1,2)] u w t d by simp
qed

end

section \<open>Transactions\<close>

text \<open>
  Changing blocks inside a transaction: what the file system relies on. \<open>lw\<close> records a
  held block in the transaction, as long as fewer than \<open>lim\<close> blocks are in it; blocks of
  the log itself may not be changed.
\<close>

definition a_put :: "nat \<Rightarrow> u8 list \<Rightarrow> cache \<Rightarrow> cache" where
  "a_put b d a = a\<lparr>ca_view := (ca_view a)(b := d), ca_dirty := insert b (ca_dirty a)\<rparr>"

text \<open>Room for \<open>k\<close> more blocks, held or logged, under a limit.\<close>

definition fits :: "nat \<Rightarrow> nat \<Rightarrow> cache \<Rightarrow> bool" where
  "fits k l a \<longleftrightarrow> finite (ca_held a \<union> ca_dirty a) \<and> card (ca_held a \<union> ca_dirty a) + k \<le> l"

lemma card_insert_le: "finite A \<Longrightarrow> card (insert x A) \<le> Suc (card A)"
  by (simp add: card_insert_if)

lemma fits_put: "fits (Suc k) l a \<Longrightarrow> fits k l (a_put b d a)"
  using card_insert_le [of "ca_held a \<union> ca_dirty a" b] by (simp add: fits_def a_put_def)

lemma fits_read: "fits (Suc k) l a \<Longrightarrow> fits k l (a_read i b a)"
  using card_insert_le [of "ca_held a \<union> ca_dirty a" b] by (simp add: fits_def a_read_def)

lemma fits_mono: "fits k l a \<Longrightarrow> j \<le> k \<Longrightarrow> fits j l a"
  by (simp add: fits_def)

lemma fits_dirty: "fits (Suc k) l a \<Longrightarrow> card (ca_dirty a) < l"
  using card_mono [of "ca_held a \<union> ca_dirty a" "ca_dirty a"] by (auto simp: fits_def)

lemma fits_can_read:
  "fits (Suc k) l a \<Longrightarrow> l \<le> NBUF \<Longrightarrow> b < ca_size a \<Longrightarrow> b \<notin> ca_held a \<Longrightarrow> can_read b a"
  by (simp add: fits_def can_read_def)

lemma a_put_sel [simp]:
  "ca_view (a_put b d a) = (ca_view a)(b := d)" "ca_held (a_put b d a) = ca_held a"
  "ca_mine (a_put b d a) = ca_mine a" "ca_dirty (a_put b d a) = insert b (ca_dirty a)"
  "ca_disk (a_put b d a) = ca_disk a" "ca_size (a_put b d a) = ca_size a" "ca_log (a_put b d a) = ca_log a"
  by (simp_all add: a_put_def)

locale block_txn = block_io +
  fixes lw :: "nat \<Rightarrow> 's \<Rightarrow> (unit, 's) res"
    and lim :: "'s \<Rightarrow> nat"
    and res :: "'s \<Rightarrow> nat set"
  assumes lw_ok: "good s \<Longrightarrow> (i, b) \<in> ca_mine (ab s) \<Longrightarrow> b < ca_size (ab s) \<Longrightarrow> b \<notin> res s \<Longrightarrow>
      card (ca_dirty (ab s)) < lim s \<Longrightarrow>
      \<exists>t. lw i s = Ok () t \<and> good t \<and> ab t = a_pin b (ab s) \<and> core t = core s"
    and lim_core: "core t = core s \<Longrightarrow> lim t = lim s \<and> res t = res s"
begin

text \<open>Change a held block, log it and release it.\<close>

lemma put_release:
  assumes g: "good s" and m: "(i, b) \<in> ca_mine (ab s)" and d: "length d = BSIZE" and b: "b < ca_size (ab s)" "b \<notin> res s"
    and l: "card (ca_dirty (ab s)) < lim s"
  obtains w u where "lw i (setd i d s) = Ok () w" "rel i w = Ok () u" "good u" "core u = core s"
    "ab u = a_release i b (a_put b d (ab s))"
proof -
  have v: "good (setd i d s)" "ab (setd i d s) = a_set b d (ab s)" "core (setd i d s) = core s"
    using setd_ok [OF g m d] by auto
  obtain w where w: "lw i (setd i d s) = Ok () w" "good w" "ab w = a_pin b (ab (setd i d s))" "core w = core s"
    using lw_ok [OF v(1), of i b] v m b l lim_core [OF v(3)] by (auto simp: a_set_def)
  obtain u where u: "rel i w = Ok () u" "good u" "ab u = a_release i b (ab w)" "core u = core w"
    using rel_ok [OF w(2), of i b] w(3) v(2) m by (auto simp: a_defs)
  show ?thesis using that [OF w(1) u(1,2)] u(3,4) w(3,4) v(2) by (simp add: a_defs a_put_def)
qed

text \<open>Change a block through \<open>f\<close>, log it and release it.\<close>

lemma modify:
  assumes g: "good s" and cr: "can_read b (ab s)" and f: "length (f (ca_view (ab s) b)) = BSIZE"
    and r: "b \<notin> res s" and l: "card (ca_dirty (ab s)) < lim s"
  obtains i t w u where "rd b s = Ok i t" "getd i t = ca_view (ab s) b" "core t = core s"
    "lw i (setd i (f (ca_view (ab s) b)) t) = Ok () w" "rel i w = Ok () u"
    "good u" "core u = core s" "ab u = a_put b (f (ca_view (ab s) b)) (ab s)"
proof -
  obtain i t where t: "rd b s = Ok i t" "good t" "ab t = a_read i b (ab s)" "core t = core s"
    using rd_ok [OF g cr] by blast
  have m: "(i, b) \<in> ca_mine (ab t)" using t(3) by (simp add: a_read_def)
  have h: "b \<notin> ca_held (ab s)" "b < ca_size (ab s)" using cr by (simp_all add: can_read_def)
  let ?d = "f (ca_view (ab s) b)"
  have d: "getd i t = ca_view (ab s) b" using getd_ok [OF t(2) m] t(3) by (simp add: a_read_def)
  obtain w u where u: "lw i (setd i ?d t) = Ok () w" "rel i w = Ok () u" "good u" "core u = core t"
    "ab u = a_release i b (a_put b ?d (ab t))"
    using put_release [OF t(2) m f] h r l t(3) lim_core [OF t(4)] by (auto simp: a_read_def)
  have "ab u = a_put b ?d (ab s)"
    using u(5) t(3) h mine_held [OF g, of i b] by (cases "ab s") (auto simp: a_defs a_put_def)
  then show ?thesis using that [OF t(1) d t(4) u(1-3)] u(4) t(4) by simp
qed

end

end
