(* ===== verification/Bio.thy ===== *)
theory Bio
  imports Sleeplock Block_Cache
begin

text \<open>
  \<open>bio.c\<close>, the buffer cache, over the disk driver of \<open>memide.c\<close>. The buffers are
  numbered from 0; number \<open>NBUF\<close> is \<open>bcache.head\<close>, so \<open>b_prev\<close> and \<open>b_next\<close> are
  the links of the cyclic list of buffers. The lock of buffer \<open>i\<close> is the sleep lock
  \<open>BufLock i\<close>. The disk is a map from block numbers to blocks; \<open>disk_log\<close> records the
  sequence of block writes the device has performed, for the reasoning about crashes.
\<close>

section \<open>Buffers and the disk\<close>

record buf =
  b_valid :: bool
  b_dirty :: bool
  b_dev :: nat
  b_blockno :: nat
  b_refcnt :: u32
  b_prev :: nat
  b_next :: nat
  b_data :: "u8 list"

record bstate = kstate +
  bufs :: "nat \<Rightarrow> buf"
  memdisk :: disk
  disksize :: nat
  disk_log :: "(nat \<times> u8 list) list"

definition upd_buf :: "nat \<Rightarrow> (buf \<Rightarrow> buf) \<Rightarrow> 'z bstate_scheme \<Rightarrow> 'z bstate_scheme" where
  "upd_buf i f s = s\<lparr>bufs := (bufs s)(i := f (bufs s i))\<rparr>"

text \<open>Reading and writing the array \<open>b->data\<close> of a buffer.\<close>

definition buf_data :: "nat \<Rightarrow> 'z bstate_scheme \<Rightarrow> u8 list" where
  "buf_data i s = b_data (bufs s i)"

definition set_data :: "nat \<Rightarrow> u8 list \<Rightarrow> 'z bstate_scheme \<Rightarrow> 'z bstate_scheme" where
  "set_data i d s = upd_buf i (\<lambda>r. r\<lparr>b_data := d\<rparr>) s"

definition set_dirty :: "nat \<Rightarrow> 'z bstate_scheme \<Rightarrow> 'z bstate_scheme" where
  "set_dirty i s = upd_buf i (\<lambda>r. r\<lparr>b_dirty := True\<rparr>) s"

definition buf_blockno :: "nat \<Rightarrow> 'z bstate_scheme \<Rightarrow> nat" where
  "buf_blockno i s = b_blockno (bufs s i)"

section \<open>The memory disk\<close>

definition ideinit :: "disk \<Rightarrow> nat \<Rightarrow> 'z bstate_scheme \<Rightarrow> 'z bstate_scheme" where
  "ideinit img imgsize s = s\<lparr>memdisk := img, disksize := imgsize div BSIZE\<rparr>"

definition iderw :: "nat \<Rightarrow> 'z bstate_scheme \<Rightarrow> (unit, 'z bstate_scheme) res" where
  "iderw i s =
     andthen (holdingsleep (BufLock i) s) (\<lambda>h s.
     let b = bufs s i in
     if \<not> h then Panic ''iderw: buf not locked''
     else if b_valid b \<and> \<not> b_dirty b then Panic ''iderw: nothing to do''
     else if b_dev b \<noteq> 1 then Panic ''iderw: request not for disk 1''
     else if b_blockno b \<ge> disksize s then Panic ''iderw: block out of range''
     else if b_dirty b then
       Ok () (upd_buf i (\<lambda>r. r\<lparr>b_dirty := False, b_valid := True\<rparr>)
         (s\<lparr>memdisk := (memdisk s)(b_blockno b := b_data b),
            disk_log := disk_log s @ [(b_blockno b, b_data b)]\<rparr>))
     else
       Ok () (upd_buf i (\<lambda>r. r\<lparr>b_data := memdisk s (b_blockno r), b_valid := True\<rparr>) s))"

section \<open>The buffer cache\<close>

text \<open>Push buffer \<open>b\<close> at the front of the list: the four assignments of \<open>binit\<close> and
  \<open>brelse\<close>, in order.\<close>

definition list_push :: "nat \<Rightarrow> 'z bstate_scheme \<Rightarrow> 'z bstate_scheme" where
  "list_push b s =
     (let s = upd_buf b (\<lambda>r. r\<lparr>b_next := b_next (bufs s NBUF)\<rparr>) s;
          s = upd_buf b (\<lambda>r. r\<lparr>b_prev := NBUF\<rparr>) s;
          s = upd_buf (b_next (bufs s NBUF)) (\<lambda>r. r\<lparr>b_prev := b\<rparr>) s
      in upd_buf NBUF (\<lambda>r. r\<lparr>b_next := b\<rparr>) s)"

definition list_unlink :: "nat \<Rightarrow> 'z bstate_scheme \<Rightarrow> 'z bstate_scheme" where
  "list_unlink b s =
     (let s = upd_buf (b_next (bufs s b)) (\<lambda>r. r\<lparr>b_prev := b_prev (bufs s b)\<rparr>) s
      in upd_buf (b_prev (bufs s b)) (\<lambda>r. r\<lparr>b_next := b_next (bufs s b)\<rparr>) s)"

definition binit :: "'z bstate_scheme \<Rightarrow> 'z bstate_scheme" where
  "binit s =
     fold (\<lambda>b s. initsleeplock (BufLock b) ''buffer'' (list_push b s)) [0..<NBUF]
       (upd_buf NBUF (\<lambda>r. r\<lparr>b_prev := NBUF, b_next := NBUF\<rparr>) (initlock BcacheLock ''bcache'' s))"

text \<open>
  The search loops of \<open>bget\<close>: follow the links \<open>f\<close> from \<open>b\<close> to the head \<open>h\<close>. \<open>None\<close>
  is a walk that never ends.
\<close>

partial_function (option) lru_find ::
  "(nat \<Rightarrow> nat) \<Rightarrow> nat \<Rightarrow> (nat \<Rightarrow> bool) \<Rightarrow> nat \<Rightarrow> nat option option" where
  "lru_find f h P b =
     (if b = h then Some None else if P b then Some (Some b) else lru_find f h P (f b))"

definition bget :: "nat \<Rightarrow> nat \<Rightarrow> 'z bstate_scheme \<Rightarrow> (nat, 'z bstate_scheme) res" where
  "bget dev blockno s =
     andthen (acquire BcacheLock s) (\<lambda>_ s.
     case lru_find (\<lambda>i. b_next (bufs s i)) NBUF
            (\<lambda>i. b_dev (bufs s i) = dev \<and> b_blockno (bufs s i) = blockno)
            (b_next (bufs s NBUF)) of
       None \<Rightarrow> Spin
     | Some (Some b) \<Rightarrow>
         andthen (release BcacheLock (upd_buf b (\<lambda>r. r\<lparr>b_refcnt := b_refcnt r + 1\<rparr>) s)) (\<lambda>_ s.
         andthen (acquiresleep (BufLock b) s) (\<lambda>_ s. Ok b s))
     | Some None \<Rightarrow>
         (case lru_find (\<lambda>i. b_prev (bufs s i)) NBUF
                 (\<lambda>i. b_refcnt (bufs s i) = 0 \<and> \<not> b_dirty (bufs s i))
                 (b_prev (bufs s NBUF)) of
            None \<Rightarrow> Spin
          | Some None \<Rightarrow> Panic ''bget: no buffers''
          | Some (Some b) \<Rightarrow>
              andthen (release BcacheLock
                (upd_buf b (\<lambda>r. r\<lparr>b_dev := dev, b_blockno := blockno, b_valid := False,
                                   b_dirty := False, b_refcnt := 1\<rparr>) s)) (\<lambda>_ s.
              andthen (acquiresleep (BufLock b) s) (\<lambda>_ s. Ok b s))))"

definition bread :: "nat \<Rightarrow> nat \<Rightarrow> 'z bstate_scheme \<Rightarrow> (nat, 'z bstate_scheme) res" where
  "bread dev blockno s =
     andthen (bget dev blockno s) (\<lambda>b s.
     if \<not> b_valid (bufs s b) then andthen (iderw b s) (\<lambda>_ s. Ok b s) else Ok b s)"

definition bwrite :: "nat \<Rightarrow> 'z bstate_scheme \<Rightarrow> (unit, 'z bstate_scheme) res" where
  "bwrite b s =
     andthen (holdingsleep (BufLock b) s) (\<lambda>h s.
     if \<not> h then Panic ''bwrite''
     else iderw b (set_dirty b s))"

definition brelse :: "nat \<Rightarrow> 'z bstate_scheme \<Rightarrow> (unit, 'z bstate_scheme) res" where
  "brelse b s =
     andthen (holdingsleep (BufLock b) s) (\<lambda>h s.
     if \<not> h then Panic ''brelse''
     else
       andthen (releasesleep (BufLock b) s) (\<lambda>_ s.
       andthen (acquire BcacheLock s) (\<lambda>_ s.
       let s = upd_buf b (\<lambda>r. r\<lparr>b_refcnt := b_refcnt r - 1\<rparr>) s;
           s = (if b_refcnt (bufs s b) = 0 then list_push b (list_unlink b s) else s)
       in release BcacheLock s)))"

section \<open>The ring of buffers\<close>

text \<open>
  The links abstract to the list of buffers, most recently used first: from the head through
  the elements of \<open>l\<close> and back to the head, each \<open>nx\<close> link has its \<open>pv\<close> link.
\<close>

definition ring :: "(nat \<Rightarrow> nat) \<Rightarrow> (nat \<Rightarrow> nat) \<Rightarrow> nat \<Rightarrow> nat list \<Rightarrow> bool" where
  "ring nx pv h l \<longleftrightarrow> distinct (h # l) \<and> successively (\<lambda>a b. nx a = b \<and> pv b = a) (h # l @ [h])"

lemma successively_weaken:
  "successively P L \<Longrightarrow> (\<And>a b. P a b \<Longrightarrow> a \<in> set (butlast L) \<Longrightarrow> b \<in> set (tl L) \<Longrightarrow> Q a b) \<Longrightarrow>
   successively Q L"
proof (induction L rule: induct_list012)
  case (3 x y zs)
  then have "successively Q (y # zs)" by (cases zs) (auto intro!: "3.IH"(2) "3.prems"(2))
  with 3 show ?case by auto
qed auto

lemma walk_find:
  "successively (\<lambda>a b. f a = b) (x # l @ [h]) \<Longrightarrow> h \<notin> set l \<Longrightarrow>
   lru_find f h P (f x) = Some (find P l)"
proof (induction l arbitrary: x)
  case Nil
  then show ?case by (simp add: lru_find.simps [of f h P h])
next
  case (Cons a l)
  then have "f x = a" "a \<noteq> h" by auto
  with Cons show ?case by (simp add: lru_find.simps [of f h P a])
qed

lemma ring_find: "ring nx pv h l \<Longrightarrow> lru_find nx h P (nx h) = Some (find P l)"
  by (intro walk_find) (auto simp: ring_def elim!: successively_weaken)

lemma ring_find_prev:
  assumes "ring nx pv h l" shows "lru_find pv h P (pv h) = Some (find P (rev l))"
proof (rule walk_find)
  have "successively (\<lambda>a b. pv b = a) (h # l @ [h])"
    using assms by (auto simp: ring_def elim!: successively_weaken)
  then have "successively (\<lambda>a b. pv a = b) (rev (h # l @ [h]))"
    unfolding successively_rev by simp
  then show "successively (\<lambda>a b. pv a = b) (h # rev l @ [h])" by simp
qed (use assms in \<open>simp add: ring_def\<close>)

lemma ring_push:
  assumes "ring nx pv h l" "b \<noteq> h" "b \<notin> set l"
  shows "ring (nx(b := nx h, h := b)) (pv(b := h, nx h := b)) h (b # l)"
proof -
  obtain x r where l: "l @ [h] = x # r" by (cases "l @ [h]") auto
  have s: "successively (\<lambda>a b. nx a = b \<and> pv b = a) (h # x # r)" and d: "distinct (h # l)"
    using assms(1) by (simp_all add: ring_def l)
  have x: "nx h = x" using s by simp
  have set: "set (x # r) = insert h (set l)" "distinct (x # r)" "butlast (x # r) = l"
    using d by (simp_all flip: l)
  have "successively (\<lambda>a c. (nx(b := nx h, h := b)) a = c \<and> (pv(b := h, nx h := b)) c = a) (x # r)"
  proof (rule successively_weaken)
    show "successively (\<lambda>a b. nx a = b \<and> pv b = a) (x # r)" using s by simp
  next
    fix a c assume "nx a = c \<and> pv c = a" "a \<in> set (butlast (x # r))" "c \<in> set (tl (x # r))"
    then have "nx a = c \<and> pv c = a" "a \<in> set l" "c \<in> set r" by (simp_all only: set list.sel)
    moreover have "c \<noteq> x" "c \<noteq> b" using set assms(2,3) \<open>c \<in> set r\<close> by auto
    ultimately show "(nx(b := nx h, h := b)) a = c \<and> (pv(b := h, nx h := b)) c = a"
      using assms(2,3) d x by auto
  qed
  then show ?thesis using assms d x set by (auto simp: ring_def l)
qed

lemma ring_remove:
  assumes "ring nx pv h l" "b \<in> set l"
  shows "ring (nx(pv b := nx b)) (pv(nx b := pv b)) h (remove1 b l)"
proof -
  obtain xs ys where l: "l = xs @ b # ys" "b \<notin> set xs" using split_list_first [OF assms(2)] by blast
  obtain us p where us: "h # xs = us @ [p]" by (cases "h # xs" rule: rev_cases) auto
  obtain q vs where vs: "ys @ [h] = q # vs" by (cases "ys @ [h]") auto
  let ?P = "\<lambda>a b. nx a = b \<and> pv b = a"
  have e: "h # l @ [h] = us @ [p, b, q] @ vs" using us vs l by (metis append.assoc append_Cons append_Nil)
  have s: "successively ?P (us @ [p, b, q] @ vs)" using assms(1) by (simp only: ring_def e)
  have k: "nx p = b" "pv b = p" "nx b = q" "pv q = b" "successively ?P (us @ [p])" "successively ?P (q # vs)"
    using s by (auto simp: successively_append_iff successively_Cons)
  have d: "distinct (h # xs)" "distinct (ys @ [h])" "set (h # xs) \<inter> set ys = {}" "set xs \<inter> set (ys @ [h]) = {}"
    using assms(1) l by (auto simp: ring_def)
  let ?Q = "\<lambda>a c. (nx(p := q)) a = c \<and> (pv(q := p)) c = a"
  have du: "distinct (us @ [p])" "distinct (q # vs)" using d(1,2) by (simp_all only: us vs)
  have "successively ?Q (us @ [p])"
  proof (rule successively_weaken [OF k(5)])
    fix a c assume "?P a c" "a \<in> set (butlast (us @ [p]))" "c \<in> set (tl (us @ [p]))"
    moreover have "tl (us @ [p]) = xs" using us by (metis list.sel(3))
    moreover have "q \<in> set (ys @ [h])" by (simp only: vs) simp
    ultimately show "?Q a c" using du d(4) by auto
  qed
  moreover have "successively ?Q (q # vs)"
  proof (rule successively_weaken [OF k(6)])
    fix a c assume "?P a c" "a \<in> set (butlast (q # vs))" "c \<in> set (tl (q # vs))"
    moreover have "butlast (q # vs) = ys" using vs by (metis butlast_snoc)
    moreover have "p \<in> set (h # xs)" by (simp only: us) simp
    ultimately show "?Q a c" using du d(3) by auto
  qed
  ultimately have "successively ?Q ((us @ [p]) @ q # vs)"
    unfolding successively_append_iff by simp
  also have "(us @ [p]) @ q # vs = h # (xs @ ys) @ [h]"
    by (simp only: us [symmetric] vs [symmetric]) simp
  finally have "ring (nx(p := q)) (pv(q := p)) h (xs @ ys)"
    using assms(1) l by (simp add: ring_def)
  then show ?thesis using l k by (simp add: remove1_append)
qed

end
