(* ===== verification/Bio_Spec.thy ===== *)
theory Bio_Spec
  imports Bio
begin

text \<open>
  What the buffer cache promises its clients. The cache abstracts to a \<open>view\<close> of the disk
  (the newest contents of every block), the set of blocks some process has locked and the
  set of blocks that are modified and pinned; \<open>binv\<close> is its invariant.
\<close>

section \<open>The abstract cache\<close>

definition lru :: "'z bstate_scheme \<Rightarrow> nat list \<Rightarrow> bool" where
  "lru s l \<longleftrightarrow>
     ring (\<lambda>i. b_next (bufs s i)) (\<lambda>i. b_prev (bufs s i)) NBUF l \<and> set l = {0..<NBUF}"

definition caches :: "'z bstate_scheme \<Rightarrow> nat \<Rightarrow> nat \<Rightarrow> bool" where
  "caches s i b \<longleftrightarrow> i < NBUF \<and> b_dev (bufs s i) = 1 \<and> b_blockno (bufs s i) = b"

definition buf_locked :: "'z bstate_scheme \<Rightarrow> nat \<Rightarrow> bool" where
  "buf_locked s i \<longleftrightarrow> sl_locked (slocks s (BufLock i))"

definition bview :: "'z bstate_scheme \<Rightarrow> disk" where
  "bview s b =
     (case find (\<lambda>i. caches s i b \<and> b_valid (bufs s i)) [0..<NBUF] of
        Some i \<Rightarrow> b_data (bufs s i)
      | None \<Rightarrow> memdisk s b)"

definition bheld :: "'z bstate_scheme \<Rightarrow> nat set" where
  "bheld s = {b. \<exists>i. caches s i b \<and> buf_locked s i}"

definition bdirty :: "'z bstate_scheme \<Rightarrow> nat set" where
  "bdirty s = {b. \<exists>i. caches s i b \<and> b_dirty (bufs s i)}"

text \<open>A process holds buffer \<open>i\<close> with block \<open>b\<close>.\<close>

definition holds_buf :: "nat \<Rightarrow> nat \<Rightarrow> nat \<Rightarrow> 'z bstate_scheme \<Rightarrow> bool" where
  "holds_buf p i b s \<longleftrightarrow>
     caches s i b \<and> b_valid (bufs s i) \<and> buf_locked s i \<and>
     sl_pid (slocks s (BufLock i)) = p_pid (procs s p)"

section \<open>The invariant\<close>

definition buf_ok :: "disk \<Rightarrow> buf \<Rightarrow> sleeplock \<Rightarrow> bool" where
  "buf_ok d r k \<longleftrightarrow>
     length (b_data r) = BSIZE \<and>
     (b_dirty r \<or> sl_locked k \<longrightarrow> b_valid r \<and> b_dev r = 1) \<and>
     (b_valid r \<and> b_dev r = 1 \<and> \<not> b_dirty r \<and> \<not> sl_locked k \<longrightarrow> b_data r = d (b_blockno r)) \<and>
     b_refcnt r = (if sl_locked k then 1 else 0) \<and>
     (\<not> sl_locked k \<longrightarrow> sl_pid k = 0)"

definition no_waiter :: "sleepid \<Rightarrow> (nat \<Rightarrow> proc) \<Rightarrow> bool" where
  "no_waiter sl ps \<longleftrightarrow>
     (\<forall>q<NPROC. \<not> (p_state (ps q) = SLEEPING \<and> p_chan (ps q) = Some (ChanSleep sl)))"

definition binv :: "'z bstate_scheme \<Rightarrow> bool" where
  "binv s \<longleftrightarrow>
     (\<exists>l. lru s l) \<and>
     (\<forall>i<NBUF. buf_ok (memdisk s) (bufs s i) (slocks s (BufLock i))) \<and>
     (\<forall>i b j. caches s i b \<and> caches s j b \<longrightarrow> i = j) \<and>
     (\<forall>b. length (memdisk s b) = BSIZE) \<and>
     (\<forall>i. no_waiter (BufLock i) (procs s))"

section \<open>Shared facts\<close>

lemma runs_bio [simp]:
  "runs c p (s\<lparr>bufs := x\<rparr>) = runs c p s" "runs c p (s\<lparr>memdisk := d\<rparr>) = runs c p s"
  "runs c p (s\<lparr>disk_log := w\<rparr>) = runs c p s"
  by (simp_all add: runs_def calm_def steady_def lk_free_def)

lemma acq_bufs: "(acq l c s)\<lparr>bufs := x\<rparr> = acq l c (s\<lparr>bufs := x\<rparr>)"
  by (cases s) (simp add: acq_def)

lemma acq_bio [simp]:
  "bufs (acq l c s) = bufs s" "memdisk (acq l c s) = memdisk s"
  "disksize (acq l c s) = disksize s" "disk_log (acq l c s) = disk_log s"
  by (simp_all add: acq_def)

lemma release_acq_runs: "runs c p s \<Longrightarrow> release l (acq l c s) = Ok () s"
  by (rule release_acq [OF runs_steady runs_free])

lemma acquire_runs: "runs c p s \<Longrightarrow> acquire l s = Ok () (acq l c s)"
  by (rule acquire_free [OF runs_steady runs_free])

lemma wakeup1_no_waiter:
  "no_waiter sl (procs s) \<Longrightarrow> wakeup1 (ChanSleep sl) s = s"
proof -
  assume "no_waiter sl (procs s)"
  then have "woken_procs (ChanSleep sl) NPROC (procs s) = procs s"
    by (auto simp: no_waiter_def woken_procs_def woken_def fun_eq_iff)
  then show ?thesis by (cases s) (simp add: wakeup1_eq)
qed

lemma slock_clear_no_waiter:
  "no_waiter sl (procs s) \<Longrightarrow>
   slock_clear sl s = s\<lparr>slocks := (slocks s)(sl := (slocks s sl)\<lparr>sl_locked := False, sl_pid := 0\<rparr>)\<rparr>"
  unfolding slock_clear_def by (rule wakeup1_no_waiter) simp

lemma lru_bufs_cong:
  "lru s l \<Longrightarrow> (\<And>i. b_next (bufs t i) = b_next (bufs s i)) \<Longrightarrow> (\<And>i. b_prev (bufs t i) = b_prev (bufs s i))
   \<Longrightarrow> lru t l"
  by (simp add: lru_def)

lemma binv_buf_ok: "binv s \<Longrightarrow> i < NBUF \<Longrightarrow> buf_ok (memdisk s) (bufs s i) (slocks s (BufLock i))"
  unfolding binv_def by blast

lemma binv_caches_ok: "binv s \<Longrightarrow> caches s i b \<Longrightarrow> buf_ok (memdisk s) (bufs s i) (slocks s (BufLock i))"
  by (rule binv_buf_ok) (simp_all add: caches_def)

lemma binv_unique: "binv s \<Longrightarrow> caches s i b \<Longrightarrow> caches s j b \<Longrightarrow> i = j"
  unfolding binv_def by blast

lemma binv_disk: "binv s \<Longrightarrow> length (memdisk s b) = BSIZE"
  unfolding binv_def by blast

lemma binv_no_waiter: "binv s \<Longrightarrow> no_waiter (BufLock i) (procs s)"
  unfolding binv_def by blast

lemma binv_lruE: "binv s \<Longrightarrow> (\<And>l. lru s l \<Longrightarrow> P) \<Longrightarrow> P"
  unfolding binv_def by blast

lemma find_SomeD: "find P xs = Some x \<Longrightarrow> P x \<and> x \<in> set xs"
  by (induction xs) (auto split: if_splits)

lemma find_unique:
  assumes "\<And>j. j \<in> set xs \<and> P j \<longleftrightarrow> j = i" shows "find P xs = Some i"
proof (cases "find P xs")
  case None
  then show ?thesis using assms [of i] by (auto simp: find_None_iff)
next
  case (Some j)
  then show ?thesis using assms [of j] find_SomeD [OF Some] by simp
qed

lemma bview_cached:
  assumes "binv s" "caches s i b" "b_valid (bufs s i)"
  shows "bview s b = b_data (bufs s i)"
proof -
  have "find (\<lambda>i. caches s i b \<and> b_valid (bufs s i)) [0..<NBUF] = Some i"
  proof (rule find_unique)
    fix j
    show "j \<in> set [0..<NBUF] \<and> caches s j b \<and> b_valid (bufs s j) \<longleftrightarrow> j = i"
      using assms(2,3) binv_unique [OF assms(1), of j b i] by (auto simp: caches_def)
  qed
  then show ?thesis by (simp add: bview_def)
qed

lemma bview_uncached: "(\<And>i. caches s i b \<Longrightarrow> \<not> b_valid (bufs s i)) \<Longrightarrow> bview s b = memdisk s b"
proof -
  assume "\<And>i. caches s i b \<Longrightarrow> \<not> b_valid (bufs s i)"
  then have "find (\<lambda>i. caches s i b \<and> b_valid (bufs s i)) [0..<NBUF] = None"
    by (auto simp: find_None_iff)
  then show ?thesis by (simp add: bview_def)
qed

lemma bview_clean:
  assumes "binv s" "b \<notin> bdirty s" "b \<notin> bheld s"
  shows "bview s b = memdisk s b"
proof (cases "\<exists>i. caches s i b \<and> b_valid (bufs s i)")
  case True
  then obtain i where i: "caches s i b" "b_valid (bufs s i)" by blast
  then have "buf_ok (memdisk s) (bufs s i) (slocks s (BufLock i))"
    using assms(1) by (intro binv_caches_ok)
  moreover have "\<not> b_dirty (bufs s i)" "\<not> buf_locked s i"
    using assms(2,3) i by (auto simp: bdirty_def bheld_def)
  ultimately show ?thesis
    using i bview_cached [OF assms(1) i] by (simp add: buf_ok_def buf_locked_def caches_def)
qed (auto intro: bview_uncached)

lemma length_bview: "binv s \<Longrightarrow> length (bview s b) = BSIZE"
  using binv_disk [of s b] binv_buf_ok [of s]
  by (auto simp: bview_def buf_ok_def caches_def split: option.splits dest!: find_SomeD)

section \<open>Reading a block\<close>

text \<open>The state with buffer \<open>i\<close> set to \<open>r\<close> and locked by process \<open>p\<close>.\<close>

definition take_buf :: "nat \<Rightarrow> nat \<Rightarrow> buf \<Rightarrow> 'z bstate_scheme \<Rightarrow> 'z bstate_scheme" where
  "take_buf p i r s =
     s\<lparr>bufs := (bufs s)(i := r),
       slocks := (slocks s)(BufLock i := (slocks s (BufLock i))\<lparr>sl_locked := True, sl_pid := p_pid (procs s p)\<rparr>)\<rparr>"

lemma caches_take_buf:
  "caches (take_buf p i r s) j b \<longleftrightarrow>
   (if j = i then i < NBUF \<and> b_dev r = 1 \<and> b_blockno r = b else caches s j b)"
  by (auto simp: caches_def take_buf_def)

lemma buf_locked_take_buf: "buf_locked (take_buf p i r s) j \<longleftrightarrow> j = i \<or> buf_locked s j"
  by (auto simp: buf_locked_def take_buf_def)

lemma take_buf_simps [simp]:
  "bufs (take_buf p i r s) = (bufs s)(i := r)" "memdisk (take_buf p i r s) = memdisk s"
  "procs (take_buf p i r s) = procs s" "disksize (take_buf p i r s) = disksize s"
  "disk_log (take_buf p i r s) = disk_log s" "runs c q (take_buf p i r s) = runs c q s"
  "slocks (take_buf p i r s) (BufLock i) = (slocks s (BufLock i))\<lparr>sl_locked := True, sl_pid := p_pid (procs s p)\<rparr>"
  by (simp_all add: take_buf_def)

text \<open>How \<open>bread\<close> may fill a buffer with block \<open>b\<close>: the one that has it, or a clean one.\<close>

definition fills :: "'z bstate_scheme \<Rightarrow> nat \<Rightarrow> nat \<Rightarrow> buf \<Rightarrow> bool" where
  "fills s b i r \<longleftrightarrow>
     i < NBUF \<and> \<not> buf_locked s i \<and> (caches s i b \<or> (\<forall>j. \<not> caches s j b) \<and> \<not> b_dirty (bufs s i)) \<and>
     b_next r = b_next (bufs s i) \<and> b_prev r = b_prev (bufs s i) \<and>
     b_dev r = 1 \<and> b_blockno r = b \<and> b_valid r \<and> b_refcnt r = 1 \<and> b_data r = bview s b \<and>
     (b_dirty r \<longleftrightarrow> caches s i b \<and> b_dirty (bufs s i))"

lemma fills_binv:
  assumes v: "binv s" and f: "fills s b i r"
  shows "binv (take_buf p i r s)"
  unfolding binv_def
proof (intro conjI allI impI)
  let ?t = "take_buf p i r s"
  obtain l where "lru s l" using v by (rule binv_lruE)
  then have "lru ?t l" by (rule lru_bufs_cong) (use f in \<open>auto simp: fills_def\<close>)
  then show "\<exists>l. lru ?t l" ..
next
  fix j assume "j < NBUF"
  then show "buf_ok (memdisk (take_buf p i r s)) (bufs (take_buf p i r s) j)
      (slocks (take_buf p i r s) (BufLock j))"
    using binv_buf_ok [OF v, of j] f length_bview [OF v, of b]
    by (cases "j = i") (auto simp: take_buf_def fills_def buf_ok_def)
next
  fix j d k assume "caches (take_buf p i r s) j d \<and> caches (take_buf p i r s) k d"
  then show "j = k"
    using f binv_unique [OF v, of j d k] binv_unique [OF v, of i b]
    by (fastforce simp: caches_take_buf fills_def split: if_splits)
qed (use binv_disk [OF v] binv_no_waiter [OF v] in auto)

lemma fills_bview:
  assumes v: "binv s" and f: "fills s b i r"
  shows "bview (take_buf p i r s) = bview s"
proof
  let ?t = "take_buf p i r s"
  fix d
  have vt: "binv ?t" by (rule fills_binv [OF v f])
  show "bview ?t d = bview s d"
  proof (cases "d = b")
    case True
    have "caches ?t i b" "b_valid (bufs ?t i)" using f by (auto simp: fills_def caches_take_buf)
    from bview_cached [OF vt this] show ?thesis using f True by (simp add: fills_def)
  next
    case False
    have c: "caches ?t j d \<longleftrightarrow> j \<noteq> i \<and> caches s j d" for j
      using f False by (auto simp: caches_take_buf fills_def)
    show ?thesis
    proof (cases "\<exists>j. j \<noteq> i \<and> caches s j d \<and> b_valid (bufs s j)")
      case True
      then obtain j where "j \<noteq> i" "caches s j d" "b_valid (bufs s j)" by blast
      then show ?thesis using bview_cached [OF v, of j d] bview_cached [OF vt, of j d] c by simp
    next
      case nj: False
      then have t: "bview ?t d = memdisk s d" using bview_uncached [of ?t d] c by auto
      show ?thesis
      proof (cases "caches s i d \<and> b_valid (bufs s i)")
        case True
        then have "b_data (bufs s i) = memdisk s d"
          using binv_caches_ok [OF v, of i d] f False by (auto simp: buf_ok_def fills_def buf_locked_def caches_def)
        then show ?thesis using bview_cached [OF v, of i d] True t by simp
      next
        case False
        then show ?thesis using nj t bview_uncached [of s d] by metis
      qed
    qed
  qed
qed

lemma fills_bheld:
  assumes "binv s" "fills s b i r"
  shows "bheld (take_buf p i r s) = insert b (bheld s)"
  using assms(2) unfolding bheld_def
  by (auto simp: caches_take_buf buf_locked_take_buf fills_def)

lemma fills_bdirty:
  assumes v: "binv s" and f: "fills s b i r"
  shows "bdirty (take_buf p i r s) = bdirty s"
proof -
  have "(\<exists>j. caches (take_buf p i r s) j d \<and> b_dirty (((bufs s)(i := r)) j)) \<longleftrightarrow>
        (\<exists>j. caches s j d \<and> b_dirty (bufs s j))" for d
    using f by (auto simp: caches_take_buf fills_def caches_def) metis+
  then show ?thesis by (simp add: bdirty_def)
qed

lemma fills_holds: "fills s b i r \<Longrightarrow> holds_buf p i b (take_buf p i r s)"
  by (simp add: holds_buf_def caches_take_buf buf_locked_take_buf fills_def)

lemmas fills_facts = fills_binv fills_bview fills_bheld fills_bdirty

lemma lru_walk:
  "lru s l \<Longrightarrow> lru_find (\<lambda>i. b_next (bufs s i)) NBUF P (b_next (bufs s NBUF)) = Some (find P l)"
  unfolding lru_def using ring_find [of "\<lambda>i. b_next (bufs s i)" _ NBUF l P] by blast

lemma lru_walk_back:
  "lru s l \<Longrightarrow> lru_find (\<lambda>i. b_prev (bufs s i)) NBUF P (b_prev (bufs s NBUF)) = Some (find P (rev l))"
  unfolding lru_def using ring_find_prev [of _ "\<lambda>i. b_prev (bufs s i)" NBUF l P] by blast

lemma bget_found:
  assumes r: "runs c p s" and l: "lru s l"
    and f: "find (\<lambda>i. b_dev (bufs s i) = dev \<and> b_blockno (bufs s i) = b) l = Some i"
    and u: "\<not> buf_locked s i"
  shows "bget dev b s =
    Ok i (take_buf p i ((bufs s i)\<lparr>b_refcnt := b_refcnt (bufs s i) + 1\<rparr>) s)"
proof -
  let ?r = "(bufs s i)\<lparr>b_refcnt := b_refcnt (bufs s i) + 1\<rparr>"
  let ?u = "s\<lparr>bufs := (bufs s)(i := ?r)\<rparr>"
  have "release BcacheLock (acq BcacheLock c ?u) = Ok () ?u"
    using r by (simp add: release_acq_runs [of c p])
  moreover have "acquiresleep (BufLock i) ?u = Ok () (slock_set (BufLock i) p ?u)"
    using r u by (intro acquiresleep_free [of c]) (simp_all add: buf_locked_def)
  ultimately show ?thesis
    by (simp add: bget_def acquire_runs [OF r] lru_walk [OF l] f upd_buf_def acq_bufs
        slock_set_def take_buf_def)
qed

lemma bget_recycle:
  assumes r: "runs c p s" and l: "lru s l"
    and n: "find (\<lambda>i. b_dev (bufs s i) = dev \<and> b_blockno (bufs s i) = b) l = None"
    and f: "find (\<lambda>i. b_refcnt (bufs s i) = 0 \<and> \<not> b_dirty (bufs s i)) (rev l) = Some i"
    and u: "\<not> buf_locked s i"
  shows "bget dev b s =
    Ok i (take_buf p i ((bufs s i)\<lparr>b_dev := dev, b_blockno := b, b_valid := False,
                                  b_dirty := False, b_refcnt := 1\<rparr>) s)"
proof -
  let ?r = "(bufs s i)\<lparr>b_dev := dev, b_blockno := b, b_valid := False, b_dirty := False, b_refcnt := 1\<rparr>"
  let ?u = "s\<lparr>bufs := (bufs s)(i := ?r)\<rparr>"
  have "release BcacheLock (acq BcacheLock c ?u) = Ok () ?u"
    using r by (simp add: release_acq_runs [of c p])
  moreover have "acquiresleep (BufLock i) ?u = Ok () (slock_set (BufLock i) p ?u)"
    using r u by (intro acquiresleep_free [of c]) (simp_all add: buf_locked_def)
  ultimately show ?thesis
    by (simp add: bget_def acquire_runs [OF r] lru_walk [OF l] lru_walk_back [OF l] n f upd_buf_def
        acq_bufs slock_set_def take_buf_def)
qed

lemma iderw_read:
  assumes r: "runs c p s" and "buf_locked s i" "sl_pid (slocks s (BufLock i)) = p_pid (procs s p)"
    and "\<not> b_valid (bufs s i)" "\<not> b_dirty (bufs s i)" "b_dev (bufs s i) = 1"
    and "b_blockno (bufs s i) < disksize s"
  shows "iderw i s = Ok () (upd_buf i (\<lambda>r. r\<lparr>b_data := memdisk s (b_blockno r), b_valid := True\<rparr>) s)"
  using assms by (simp add: iderw_def holdingsleep_ok [OF r] buf_locked_def Let_def)

text \<open>The busy buffers are those of the held and of the dirty blocks.\<close>

lemma finite_busy: "finite (bheld s \<union> bdirty s)"
proof -
  have "bheld s \<union> bdirty s \<subseteq> (\<lambda>i. b_blockno (bufs s i)) ` {0..<NBUF}"
    by (auto simp: bheld_def bdirty_def caches_def)
  then show ?thesis by (rule finite_subset) simp
qed

lemma busy_card:
  assumes "binv s"
  shows "card {i. i < NBUF \<and> (buf_locked s i \<or> b_dirty (bufs s i))} \<le> card (bheld s \<union> bdirty s)"
proof (rule card_inj_on_le)
  let ?I = "{i. i < NBUF \<and> (buf_locked s i \<or> b_dirty (bufs s i))}"
  have dev: "caches s i (b_blockno (bufs s i))" if "i \<in> ?I" for i
    using that binv_buf_ok [OF assms, of i] by (auto simp: caches_def buf_ok_def buf_locked_def)
  show "inj_on (\<lambda>i. b_blockno (bufs s i)) ?I"
  proof (rule inj_onI)
    fix x y assume "x \<in> ?I" "y \<in> ?I" "b_blockno (bufs s x) = b_blockno (bufs s y)"
    then show "x = y" using dev [of x] dev [of y] by (intro binv_unique [OF assms]) simp_all
  qed
  show "(\<lambda>i. b_blockno (bufs s i)) ` ?I \<subseteq> bheld s \<union> bdirty s"
    using dev by (auto simp: bheld_def bdirty_def)
qed (rule finite_busy)

lemma free_buffer:
  assumes v: "binv s" and l: "lru s l" and c: "card (bheld s \<union> bdirty s) < NBUF"
  shows "\<exists>i. find (\<lambda>i. b_refcnt (bufs s i) = 0 \<and> \<not> b_dirty (bufs s i)) (rev l) = Some i \<and>
             i < NBUF \<and> \<not> buf_locked s i \<and> \<not> b_dirty (bufs s i)"
proof -
  let ?P = "\<lambda>i. b_refcnt (bufs s i) = 0 \<and> \<not> b_dirty (bufs s i)"
  have P: "?P i \<longleftrightarrow> \<not> buf_locked s i \<and> \<not> b_dirty (bufs s i)" if "i < NBUF" for i
    using binv_buf_ok [OF v that] by (auto simp: buf_ok_def buf_locked_def)
  have "{i. i < NBUF \<and> (buf_locked s i \<or> b_dirty (bufs s i))} \<noteq> {0..<NBUF}"
    using busy_card [OF v] c by (metis card_atLeastLessThan diff_zero linorder_not_less)
  then obtain k where "k < NBUF" "?P k" using P by (auto simp del: bex_simps) blast+
  then have "find ?P (rev l) \<noteq> None" using l by (auto simp: find_None_iff lru_def)
  then obtain i where i: "find ?P (rev l) = Some i" by blast
  then have "i < NBUF" "?P i" using l find_SomeD [OF i] by (auto simp: lru_def)
  with i P show ?thesis by blast
qed

text \<open>\<open>bread\<close> returns a locked buffer with the newest contents of the block.\<close>

lemma bread_fills:
  assumes r: "runs c p s" and v: "binv s" and d: "b < disksize s" and h: "b \<notin> bheld s"
    and room: "b \<in> bdirty s \<or> card (bheld s \<union> bdirty s) < NBUF"
  shows "\<exists>i r. bread 1 b s = Ok i (take_buf p i r s) \<and> fills s b i r"
proof -
  obtain l where l: "lru s l" using v by (rule binv_lruE)
  let ?M = "\<lambda>i. b_dev (bufs s i) = 1 \<and> b_blockno (bufs s i) = b"
  show ?thesis
  proof (cases "find ?M l")
    case (Some i)
    then have c: "caches s i b" using find_SomeD [OF Some] l by (auto simp: caches_def lru_def)
    then have u: "\<not> buf_locked s i" using h by (auto simp: bheld_def)
    let ?r = "(bufs s i)\<lparr>b_refcnt := b_refcnt (bufs s i) + 1\<rparr>"
    have g: "bget 1 b s = Ok i (take_buf p i ?r s)" by (rule bget_found [OF r l Some u])
    have ok: "b_refcnt (bufs s i) = 0" "b_dirty (bufs s i) \<Longrightarrow> b_valid (bufs s i)"
      using binv_caches_ok [OF v c] u by (auto simp: buf_ok_def buf_locked_def)
    show ?thesis
    proof (cases "b_valid (bufs s i)")
      case True
      then have "fills s b i ?r" using bview_cached [OF v c] ok c u by (simp add: fills_def caches_def)
      then show ?thesis using g True by (auto simp: bread_def)
    next
      case False
      let ?q = "?r\<lparr>b_data := memdisk s b, b_valid := True\<rparr>"
      have "iderw i (take_buf p i ?r s) = Ok () (take_buf p i ?q s)"
        using r c d ok False
        by (subst iderw_read [of c p]) (auto simp: buf_locked_def caches_def take_buf_def upd_buf_def)
      moreover have "bview s b = memdisk s b"
        using bview_uncached [of s b] binv_unique [OF v c] False by metis
      then have "fills s b i ?q" using ok c u False by (auto simp: fills_def caches_def)
      ultimately show ?thesis using g False by (auto simp: bread_def)
    qed
  next
    case None
    then have nc: "\<not> caches s j b" for j using l by (auto simp: caches_def lru_def find_None_iff)
    then have "b \<notin> bdirty s" by (simp add: bdirty_def)
    then obtain i where i: "find (\<lambda>i. b_refcnt (bufs s i) = 0 \<and> \<not> b_dirty (bufs s i)) (rev l) = Some i"
        "i < NBUF" "\<not> buf_locked s i" "\<not> b_dirty (bufs s i)"
      using free_buffer [OF v l] room by blast
    let ?r = "(bufs s i)\<lparr>b_dev := 1, b_blockno := b, b_valid := False, b_dirty := False, b_refcnt := 1\<rparr>"
    let ?q = "?r\<lparr>b_data := memdisk s b, b_valid := True\<rparr>"
    have "bget 1 b s = Ok i (take_buf p i ?r s)" by (rule bget_recycle [OF r l None i(1,3)])
    moreover have "iderw i (take_buf p i ?r s) = Ok () (take_buf p i ?q s)"
      using r d by (subst iderw_read [of c p]) (auto simp: buf_locked_def take_buf_def upd_buf_def)
    moreover have "fills s b i ?q" using i nc bview_uncached [of s b] by (simp add: fills_def)
    ultimately show ?thesis by (auto simp: bread_def)
  qed
qed

section \<open>Changing and writing a held block\<close>

text \<open>
  Replace a held buffer by one with the same links and identity, and the block on the disk
  by \<open>x\<close>: what a modification of the data, \<open>log_write\<close> and \<open>bwrite\<close> do.
\<close>

definition put_buf :: "nat \<Rightarrow> buf \<Rightarrow> u8 list \<Rightarrow> 'z bstate_scheme \<Rightarrow> 'z bstate_scheme" where
  "put_buf i r x s = s\<lparr>bufs := (bufs s)(i := r), memdisk := (memdisk s)(b_blockno r := x)\<rparr>"

definition same_buf :: "buf \<Rightarrow> buf \<Rightarrow> bool" where
  "same_buf q r \<longleftrightarrow>
     b_next r = b_next q \<and> b_prev r = b_prev q \<and> b_dev r = b_dev q \<and> b_blockno r = b_blockno q \<and>
     b_refcnt r = b_refcnt q \<and> b_valid r \<and> length (b_data r) = BSIZE"

lemma caches_put_buf: "same_buf (bufs s i) r \<Longrightarrow> caches (put_buf i r x s) j b = caches s j b"
  by (auto simp: caches_def put_buf_def same_buf_def)

lemma buf_locked_put_buf [simp]: "buf_locked (put_buf i r x s) j = buf_locked s j"
  by (simp add: buf_locked_def put_buf_def)

lemma put_buf_simps [simp]:
  "bufs (put_buf i r x s) = (bufs s)(i := r)" "procs (put_buf i r x s) = procs s"
  "slocks (put_buf i r x s) = slocks s" "disksize (put_buf i r x s) = disksize s"
  "runs c p (put_buf i r x s) = runs c p s"
  "memdisk (put_buf i r x s) = (memdisk s)(b_blockno r := x)"
  by (simp_all add: put_buf_def)

lemma holds_blockno: "holds_buf p i b s \<Longrightarrow> same_buf (bufs s i) r \<Longrightarrow> b_blockno r = b"
  by (simp add: holds_buf_def same_buf_def caches_def)

lemma put_buf_binv:
  assumes v: "binv s" and h: "holds_buf p i b s" and r: "same_buf (bufs s i) r" and x: "length x = BSIZE"
  shows "binv (put_buf i r x s)"
  unfolding binv_def
proof (intro conjI allI impI)
  let ?t = "put_buf i r x s"
  obtain l where "lru s l" using v by (rule binv_lruE)
  then have "lru ?t l" by (rule lru_bufs_cong) (use r in \<open>auto simp: same_buf_def\<close>)
  then show "\<exists>l. lru ?t l" ..
next
  fix j assume j: "j < NBUF"
  have "b_blockno (bufs s j) \<noteq> b" if "j \<noteq> i" "b_dev (bufs s j) = 1"
    using binv_unique [OF v, of i b j] h that j by (auto simp: holds_buf_def caches_def)
  then show "buf_ok (memdisk (put_buf i r x s)) (bufs (put_buf i r x s) j) (slocks (put_buf i r x s) (BufLock j))"
    using binv_buf_ok [OF v j] h r holds_blockno [OF h r]
    by (cases "j = i") (auto simp: buf_ok_def same_buf_def holds_buf_def caches_def buf_locked_def)
next
  fix j d k assume "caches (put_buf i r x s) j d \<and> caches (put_buf i r x s) k d"
  then show "j = k" using binv_unique [OF v] by (simp add: caches_put_buf [OF r]) blast
qed (use binv_disk [OF v] binv_no_waiter [OF v] x in auto)

lemma put_buf_bview:
  assumes v: "binv s" and h: "holds_buf p i b s" and r: "same_buf (bufs s i) r" and x: "length x = BSIZE"
  shows "bview (put_buf i r x s) = (bview s)(b := b_data r)"
proof
  let ?t = "put_buf i r x s"
  fix d
  have vt: "binv ?t" by (rule put_buf_binv [OF assms])
  show "bview ?t d = ((bview s)(b := b_data r)) d"
  proof (cases "d = b")
    case True
    have "caches ?t i b" "b_valid (bufs ?t i)"
      using h r by (simp_all add: caches_put_buf [OF r] holds_buf_def same_buf_def)
    from bview_cached [OF vt this] True show ?thesis by simp
  next
    case False
    then have ni: "caches s j d \<Longrightarrow> j \<noteq> i" for j using h by (auto simp: holds_buf_def caches_def)
    have "find (\<lambda>j. caches ?t j d \<and> b_valid (bufs ?t j)) [0..<NBUF] =
          find (\<lambda>j. caches s j d \<and> b_valid (bufs s j)) [0..<NBUF]"
      using ni by (intro find_cong) (auto simp: caches_put_buf [OF r])
    then show ?thesis
      using False ni holds_blockno [OF h r]
      by (auto simp: bview_def split: option.splits dest: find_SomeD)
  qed
qed

lemma put_buf_bheld: "same_buf (bufs s i) r \<Longrightarrow> bheld (put_buf i r x s) = bheld s"
  by (simp add: bheld_def caches_put_buf)

lemma put_buf_bdirty:
  assumes v: "binv s" and h: "holds_buf p i b s" and r: "same_buf (bufs s i) r"
  shows "bdirty (put_buf i r x s) = (if b_dirty r then insert b (bdirty s) else bdirty s - {b})"
proof -
  have i: "caches s j b \<longleftrightarrow> j = i" for j
    using binv_unique [OF v, of j b i] h by (auto simp: holds_buf_def)
  have "caches s i d \<longleftrightarrow> d = b" for d using h by (auto simp: holds_buf_def caches_def)
  then show ?thesis using i by (auto simp: bdirty_def caches_put_buf [OF r]) metis+
qed

lemma put_buf_holds:
  "holds_buf p i b s \<Longrightarrow> same_buf (bufs s i) r \<Longrightarrow> holds_buf p i b (put_buf i r x s)"
  by (simp add: holds_buf_def caches_put_buf) (simp add: same_buf_def)

lemma put_buf_holds_other:
  "holds_buf p j d s \<Longrightarrow> j \<noteq> i \<Longrightarrow> same_buf (bufs s i) r \<Longrightarrow> holds_buf p j d (put_buf i r x s)"
  by (simp add: holds_buf_def caches_put_buf)

lemma buf_valid_same: "b_valid r \<Longrightarrow> r\<lparr>b_dirty := x, b_valid := True\<rparr> = r\<lparr>b_dirty := x\<rparr>"
  by (cases r) simp

lemma bwrite_ok:
  assumes r: "runs c p s" and h: "holds_buf p i b s" and d: "b < disksize s"
  shows "bwrite i s =
    Ok () ((put_buf i ((bufs s i)\<lparr>b_dirty := False\<rparr>) (b_data (bufs s i)) s)
      \<lparr>disk_log := disk_log s @ [(b, b_data (bufs s i))]\<rparr>)"
proof -
  let ?u = "upd_buf i (\<lambda>r. r\<lparr>b_dirty := True\<rparr>) s"
  have ru: "runs c p ?u" using r by (simp add: upd_buf_def)
  have "b_valid (bufs s i)" "b_dev (bufs s i) = 1" "b_blockno (bufs s i) = b"
    "sl_locked (slocks s (BufLock i))" "sl_pid (slocks s (BufLock i)) = p_pid (procs s p)"
    using h by (simp_all add: holds_buf_def caches_def buf_locked_def)
  then show ?thesis
    using d by (simp add: bwrite_def set_dirty_def holdingsleep_ok [OF r] iderw_def holdingsleep_ok [OF ru])
       (cases s, simp add: upd_buf_def put_buf_def Let_def buf_valid_same)
qed

lemma same_buf_dirty: "binv s \<Longrightarrow> holds_buf p i b s \<Longrightarrow> same_buf (bufs s i) ((bufs s i)\<lparr>b_dirty := x\<rparr>)"
  using binv_caches_ok [of s i b] by (simp add: same_buf_def holds_buf_def buf_ok_def)

section \<open>Releasing a block\<close>

definition relink :: "(nat \<Rightarrow> nat) \<Rightarrow> (nat \<Rightarrow> nat) \<Rightarrow> 'z bstate_scheme \<Rightarrow> 'z bstate_scheme" where
  "relink nx pv s = s\<lparr>bufs := (\<lambda>i. (bufs s i)\<lparr>b_next := nx i, b_prev := pv i\<rparr>)\<rparr>"

lemma list_push_relink:
  "b \<noteq> NBUF \<Longrightarrow> list_push b s =
     relink ((\<lambda>i. b_next (bufs s i))(b := b_next (bufs s NBUF), NBUF := b))
            ((\<lambda>i. b_prev (bufs s i))(b := NBUF, b_next (bufs s NBUF) := b)) s"
  by (cases s) (auto simp: list_push_def relink_def upd_buf_def fun_eq_iff Let_def)

lemma list_unlink_relink:
  "list_unlink b s =
     relink ((\<lambda>i. b_next (bufs s i))(b_prev (bufs s b) := b_next (bufs s b)))
            ((\<lambda>i. b_prev (bufs s i))(b_next (bufs s b) := b_prev (bufs s b))) s"
  by (cases s) (auto simp: list_unlink_def relink_def upd_buf_def fun_eq_iff Let_def)

lemma relink_relink: "relink nx pv (relink nx' pv' s) = relink nx pv s"
  by (simp add: relink_def)

lemma relink_links [simp]:
  "(\<lambda>i. b_next (bufs (relink nx pv s) i)) = nx" "b_next (bufs (relink nx pv s) i) = nx i"
  "(\<lambda>i. b_prev (bufs (relink nx pv s) i)) = pv" "b_prev (bufs (relink nx pv s) i) = pv i"
  by (simp_all add: relink_def)

lemma lru_move_front:
  assumes "lru s l" "b < NBUF"
  shows "\<exists>nx pv. list_push b (list_unlink b s) = relink nx pv s \<and> ring nx pv NBUF (b # remove1 b l)"
proof -
  let ?nx = "\<lambda>i. b_next (bufs s i)" and ?pv = "\<lambda>i. b_prev (bufs s i)"
  let ?n1 = "?nx(?pv b := ?nx b)" and ?p1 = "?pv(?nx b := ?pv b)"
  have l: "ring ?nx ?pv NBUF l" "b \<in> set l" using assms by (auto simp: lru_def)
  have "ring ?n1 ?p1 NBUF (remove1 b l)" by (rule ring_remove [OF l])
  moreover have "b \<notin> set (remove1 b l)" using l(1) by (simp add: ring_def)
  ultimately have "ring (?n1(b := ?n1 NBUF, NBUF := b)) (?p1(b := NBUF, ?n1 NBUF := b)) NBUF (b # remove1 b l)"
    using assms(2) by (intro ring_push) auto
  moreover have "list_push b (list_unlink b s) =
      relink (?n1(b := ?n1 NBUF, NBUF := b)) (?p1(b := NBUF, ?n1 NBUF := b)) s"
    using list_push_relink [of b "list_unlink b s"] assms(2)
    by (simp only: list_unlink_relink relink_links relink_relink)
  ultimately show ?thesis by blast
qed

text \<open>The state after a release: buffer \<open>i\<close> unreferenced and unlocked, the ring relinked.\<close>

definition drop_buf :: "(nat \<Rightarrow> nat) \<Rightarrow> (nat \<Rightarrow> nat) \<Rightarrow> nat \<Rightarrow> 'z bstate_scheme \<Rightarrow> 'z bstate_scheme" where
  "drop_buf nx pv i s = relink nx pv
     (s\<lparr>bufs := (bufs s)(i := (bufs s i)\<lparr>b_refcnt := 0\<rparr>),
        slocks := (slocks s)(BufLock i := (slocks s (BufLock i))\<lparr>sl_locked := False, sl_pid := 0\<rparr>)\<rparr>)"

lemma upd_buf_acq: "upd_buf b f (acq l c s) = acq l c (upd_buf b f s)"
  by (simp add: upd_buf_def acq_bufs)

lemma list_acq:
  "list_push b (acq l c s) = acq l c (list_push b s)"
  "list_unlink b (acq l c s) = acq l c (list_unlink b s)"
  unfolding list_push_def list_unlink_def Let_def by (simp_all only: upd_buf_acq acq_bio)

lemma lru_upd_buf:
  "lru s l \<Longrightarrow> (\<And>r. b_next (f r) = b_next r) \<Longrightarrow> (\<And>r. b_prev (f r) = b_prev r) \<Longrightarrow> lru (upd_buf i f s) l"
  by (erule lru_bufs_cong) (simp_all add: upd_buf_def)

lemma brelse_drop:
  assumes r: "runs c p s" and v: "binv s" and h: "holds_buf p i b s"
  shows "\<exists>nx pv l. brelse i s = Ok () (drop_buf nx pv i s) \<and> ring nx pv NBUF l \<and> set l = {0..<NBUF}"
proof -
  have hl: "sl_locked (slocks s (BufLock i))" "sl_pid (slocks s (BufLock i)) = p_pid (procs s p)"
    and i: "i < NBUF" using h by (simp_all add: holds_buf_def buf_locked_def caches_def)
  have one: "b_refcnt (bufs s i) = 1" using binv_buf_ok [OF v i] hl by (simp add: buf_ok_def)
  let ?u = "s\<lparr>slocks := (slocks s)(BufLock i := (slocks s (BufLock i))\<lparr>sl_locked := False, sl_pid := 0\<rparr>)\<rparr>"
  have rs: "releasesleep (BufLock i) s = Ok () ?u"
    by (simp add: releasesleep_ok [OF r] slock_clear_no_waiter [OF binv_no_waiter [OF v]])
  let ?w = "upd_buf i (\<lambda>r. r\<lparr>b_refcnt := 0\<rparr>) ?u"
  obtain l where l: "lru s l" using v by (rule binv_lruE)
  then have "lru ?u l" by (simp add: lru_def)
  then have lw: "lru ?w l" by (rule lru_upd_buf) simp_all
  obtain nx pv where n: "list_push i (list_unlink i ?w) = relink nx pv ?w" "ring nx pv NBUF (i # remove1 i l)"
    using lru_move_front [OF lw i] by blast
  have "runs c p (relink nx pv ?w)" "runs c p ?u" using r by (simp_all add: relink_def upd_buf_def)
  moreover have "b_refcnt (bufs ?u i) = 1" using one by simp
  ultimately have "brelse i s = Ok () (relink nx pv ?w)"
    using hl by (simp add: brelse_def holdingsleep_ok [OF r] rs acquire_runs [of c p ?u] upd_buf_acq
        Let_def) (simp add: upd_buf_def list_acq n(1) [unfolded upd_buf_def, simplified] release_acq_runs)
  also have "relink nx pv ?w = drop_buf nx pv i s"
    by (cases s) (simp add: drop_buf_def upd_buf_def)
  finally have "brelse i s = Ok () (drop_buf nx pv i s)" .
  moreover have "distinct l" "set l = {0..<NBUF}" using l by (simp_all add: lru_def ring_def)
  then have "set (i # remove1 i l) = {0..<NBUF}" using i by (simp add: set_remove1_eq insert_absorb)
  ultimately show ?thesis using n(2) by blast
qed

lemma drop_buf_simps [simp]:
  "procs (drop_buf nx pv i s) = procs s" "memdisk (drop_buf nx pv i s) = memdisk s"
  "disksize (drop_buf nx pv i s) = disksize s" "disk_log (drop_buf nx pv i s) = disk_log s"
  "runs c p (drop_buf nx pv i s) = runs c p s"
  "caches (drop_buf nx pv i s) j d = caches s j d"
  "buf_locked (drop_buf nx pv i s) j \<longleftrightarrow> j \<noteq> i \<and> buf_locked s j"
  "b_valid (bufs (drop_buf nx pv i s) j) = b_valid (bufs s j)"
  "b_dirty (bufs (drop_buf nx pv i s) j) = b_dirty (bufs s j)"
  "b_dev (bufs (drop_buf nx pv i s) j) = b_dev (bufs s j)"
  "b_blockno (bufs (drop_buf nx pv i s) j) = b_blockno (bufs s j)"
  "b_data (bufs (drop_buf nx pv i s) j) = b_data (bufs s j)"
  by (simp_all add: drop_buf_def relink_def caches_def buf_locked_def)

lemma drop_buf_binv:
  assumes v: "binv s" and h: "holds_buf p i b s" and l: "ring nx pv NBUF l" "set l = {0..<NBUF}"
    and d: "b_dirty (bufs s i) \<or> b_data (bufs s i) = memdisk s b"
  shows "binv (drop_buf nx pv i s)"
  unfolding binv_def
proof (intro conjI allI impI)
  have "lru (drop_buf nx pv i s) l" using l by (simp add: lru_def drop_buf_def)
  then show "\<exists>l. lru (drop_buf nx pv i s) l" ..
next
  fix j assume j: "j < NBUF"
  have ok: "buf_ok (memdisk s) (bufs s j) (slocks s (BufLock j))" by (rule binv_buf_ok [OF v j])
  show "buf_ok (memdisk (drop_buf nx pv i s)) (bufs (drop_buf nx pv i s) j) (slocks (drop_buf nx pv i s) (BufLock j))"
  proof (cases "j = i")
    case True
    then show ?thesis using ok h d by (auto simp: buf_ok_def drop_buf_def relink_def holds_buf_def caches_def)
  next
    case False
    then show ?thesis using ok by (simp add: buf_ok_def drop_buf_def relink_def)
  qed
next
  fix j d k assume "caches (drop_buf nx pv i s) j d \<and> caches (drop_buf nx pv i s) k d"
  then show "j = k" using binv_unique [OF v, of j d k] by simp
qed (use binv_disk [OF v] binv_no_waiter [OF v] in auto)

lemma drop_buf_view: "bview (drop_buf nx pv i s) = bview s"
  by (simp add: bview_def fun_eq_iff split: option.splits)

lemma drop_buf_bdirty: "bdirty (drop_buf nx pv i s) = bdirty s"
  by (simp add: bdirty_def)

lemma drop_buf_bheld:
  assumes v: "binv s" and h: "holds_buf p i b s"
  shows "bheld (drop_buf nx pv i s) = bheld s - {b}"
proof -
  have "caches s j b \<longleftrightarrow> j = i" for j using binv_unique [OF v, of j b i] h by (auto simp: holds_buf_def)
  moreover have "caches s i d \<longleftrightarrow> d = b" for d using h by (auto simp: holds_buf_def caches_def)
  ultimately show ?thesis unfolding bheld_def by auto
qed

lemma drop_buf_holds:
  "holds_buf p j d s \<Longrightarrow> j \<noteq> i \<Longrightarrow> holds_buf p j d (drop_buf nx pv i s)"
  by (simp add: holds_buf_def) (simp add: drop_buf_def relink_def)

text \<open>\<open>brelse\<close> of a held block whose changes, if any, are pinned by the log.\<close>

lemma brelse_ok:
  assumes r: "runs c p s" and v: "binv s" and h: "holds_buf p i b s"
    and d: "b_dirty (bufs s i) \<or> b_data (bufs s i) = memdisk s b"
  obtains nx pv where "brelse i s = Ok () (drop_buf nx pv i s)" "binv (drop_buf nx pv i s)"
  using brelse_drop [OF r v h] drop_buf_binv [OF v h _ _ d] by blast

section \<open>The cache implements its contract\<close>

definition bcache :: "nat \<Rightarrow> 'z bstate_scheme \<Rightarrow> cache" where
  "bcache p s = \<lparr>ca_view = bview s, ca_held = bheld s, ca_mine = {(i, b). holds_buf p i b s},
     ca_dirty = bdirty s, ca_disk = memdisk s, ca_log = disk_log s, ca_size = disksize s\<rparr>"

definition bgood :: "nat \<Rightarrow> nat \<Rightarrow> 'z bstate_scheme \<Rightarrow> bool" where
  "bgood c p s \<longleftrightarrow> runs c p s \<and> binv s"

lemma bcache_sel [simp]:
  "ca_view (bcache p s) = bview s" "ca_held (bcache p s) = bheld s"
  "(i, b) \<in> ca_mine (bcache p s) \<longleftrightarrow> holds_buf p i b s" "ca_dirty (bcache p s) = bdirty s"
  "ca_disk (bcache p s) = memdisk s" "ca_log (bcache p s) = disk_log s" "ca_size (bcache p s) = disksize s"
  by (simp_all add: bcache_def)

text \<open>The part of the state the cache does not touch.\<close>

definition null_buf :: buf where
  "null_buf = \<lparr>b_valid = False, b_dirty = False, b_dev = 0, b_blockno = 0, b_refcnt = 0,
     b_prev = 0, b_next = 0, b_data = []\<rparr>"

definition null_slock :: sleeplock where
  "null_slock = \<lparr>sl_locked = False, sl_name = [], sl_pid = 0\<rparr>"

definition bcore :: "'z bstate_scheme \<Rightarrow> 'z bstate_scheme \<times> (nat \<Rightarrow> sleeplock)" where
  "bcore s = (s\<lparr>bufs := (\<lambda>_. null_buf), slocks := (\<lambda>_. null_slock), memdisk := (\<lambda>_. []),
       disk_log := []\<rparr>, \<lambda>j. slocks s (InodeLock j))"

lemma bcore_take: "bcore (take_buf p i r s) = bcore s"
  by (cases s) (simp add: bcore_def take_buf_def)

lemma bcore_put: "bcore (put_buf i r x s) = bcore s" "bcore (s\<lparr>disk_log := w\<rparr>) = bcore s"
  by (cases s, simp add: bcore_def put_buf_def)+

lemma bcore_drop: "bcore (drop_buf nx pv i s) = bcore s"
  by (cases s) (simp add: bcore_def drop_buf_def relink_def)

lemma disk_log_upd [simp]:
  "binv (s\<lparr>disk_log := w\<rparr>) = binv s" "bview (s\<lparr>disk_log := w\<rparr>) = bview s"
  "bheld (s\<lparr>disk_log := w\<rparr>) = bheld s" "bdirty (s\<lparr>disk_log := w\<rparr>) = bdirty s"
  "holds_buf p i b (s\<lparr>disk_log := w\<rparr>) = holds_buf p i b s"
  by (simp_all add: binv_def lru_def caches_def bview_def bheld_def bdirty_def holds_buf_def buf_locked_def
      fun_eq_iff split: option.splits)

lemma fills_mine:
  "fills s b i r \<Longrightarrow> holds_buf p j d (take_buf p i r s) \<longleftrightarrow> (j, d) = (i, b) \<or> holds_buf p j d s"
  by (auto simp: holds_buf_def caches_take_buf buf_locked_take_buf fills_def)
     (auto simp: take_buf_def caches_def)

lemma put_buf_mine:
  "holds_buf p i b s \<Longrightarrow> same_buf (bufs s i) r \<Longrightarrow> holds_buf p j d (put_buf i r x s) = holds_buf p j d s"
  by (auto simp: holds_buf_def caches_put_buf) (simp_all add: same_buf_def)

lemma drop_buf_mine:
  "holds_buf p i b s \<Longrightarrow> holds_buf p j d (drop_buf nx pv i s) \<longleftrightarrow> holds_buf p j d s \<and> (j, d) \<noteq> (i, b)"
  by (auto simp: holds_buf_def caches_def) (auto simp: drop_buf_def relink_def)

lemma put_buf_abs:
  assumes "bgood c p s" "holds_buf p i b s" "same_buf (bufs s i) r" "length x = BSIZE"
  shows "bgood c p (put_buf i r x s)"
    "bcache p (put_buf i r x s) = (bcache p s)\<lparr>ca_view := (bview s)(b := b_data r),
       ca_dirty := (if b_dirty r then insert b (bdirty s) else bdirty s - {b}),
       ca_disk := (memdisk s)(b := x)\<rparr>"
  using assms put_buf_binv [of s p i b r x] put_buf_bview [of s p i b r x] put_buf_bdirty [of s p i b r x]
  by (simp_all add: bgood_def bcache_def put_buf_bheld put_buf_mine holds_blockno [OF assms(2,3)])
     (simp_all add: put_buf_def)

lemma put_buf_same_disk: "upd_buf i f s = put_buf i (f (bufs s i)) (memdisk s (b_blockno (f (bufs s i)))) s"
  by (cases s) (simp add: put_buf_def upd_buf_def)

lemma bread_abs:
  assumes "bgood c p s" "can_read b (bcache p s)"
  shows "\<exists>i t. bread 1 b s = Ok i t \<and> bgood c p t \<and> bcache p t = a_read i b (bcache p s) \<and> bcore t = bcore s"
proof -
  have s: "runs c p s" "binv s" using assms(1) by (simp_all add: bgood_def)
  obtain i r where f: "bread 1 b s = Ok i (take_buf p i r s)" "fills s b i r"
    using bread_fills [OF s, of b] assms(2) by (auto simp: can_read_def bcache_def)
  have "bcache p (take_buf p i r s) = a_read i b (bcache p s)"
    using fills_facts [OF s(2) f(2), of p] fills_mine [OF f(2), of p]
    by (auto simp: bcache_def a_read_def)
  then show ?thesis
    using f s fills_binv [OF s(2) f(2), of p] by (auto simp: bgood_def bcore_take)
qed

lemma set_data_abs:
  assumes "bgood c p s" "holds_buf p i b s" "length d = BSIZE"
  shows "bgood c p (set_data i d s)" "bcache p (set_data i d s) = a_set b d (bcache p s)"
    "bcore (set_data i d s) = bcore s"
proof -
  let ?r = "(bufs s i)\<lparr>b_data := d\<rparr>"
  have r: "same_buf (bufs s i) ?r" using assms(2,3) by (simp add: same_buf_def holds_buf_def)
  have x: "length (memdisk s b) = BSIZE" using assms(1) by (simp add: bgood_def binv_disk)
  have b: "b_blockno (bufs s i) = b" using assms(2) by (simp add: holds_buf_def caches_def)
  have s: "set_data i d s = put_buf i ?r (memdisk s b) s"
    by (simp add: set_data_def put_buf_same_disk b)
  have bd: "b \<in> bdirty s \<longleftrightarrow> b_dirty (bufs s i)"
    using assms(1,2) binv_unique [of s i b] by (auto simp: bdirty_def holds_buf_def bgood_def)
  show "bgood c p (set_data i d s)" "bcore (set_data i d s) = bcore s"
    using put_buf_abs(1) [OF assms(1,2) r x] by (simp_all add: s bcore_put)
  show "bcache p (set_data i d s) = a_set b d (bcache p s)"
    using put_buf_abs(2) [OF assms(1,2) r x] bd by (auto simp: s a_set_def bcache_def)
qed

lemma set_dirty_abs:
  assumes "bgood c p s" "holds_buf p i b s"
  shows "bgood c p (set_dirty i s)" "bcache p (set_dirty i s) = a_pin b (bcache p s)"
    "bcore (set_dirty i s) = bcore s"
proof -
  let ?r = "(bufs s i)\<lparr>b_dirty := True\<rparr>"
  have g: "binv s" using assms(1) by (simp add: bgood_def)
  have r: "same_buf (bufs s i) ?r" by (rule same_buf_dirty [OF g assms(2)])
  have b: "b_blockno (bufs s i) = b" using assms(2) by (simp add: holds_buf_def caches_def)
  have s: "set_dirty i s = put_buf i ?r (memdisk s b) s"
    by (simp add: set_dirty_def put_buf_same_disk b)
  have "b_data (bufs s i) = bview s b"
    using bview_cached [OF g, of i b] assms(2) by (simp add: holds_buf_def)
  with put_buf_abs [OF assms r binv_disk [OF g, of b]]
  show "bgood c p (set_dirty i s)" "bcore (set_dirty i s) = bcore s"
    "bcache p (set_dirty i s) = a_pin b (bcache p s)"
    by (simp_all add: s bcore_put a_pin_def bcache_def)
qed

lemma bwrite_abs:
  assumes "bgood c p s" "holds_buf p i b s" "b < disksize s"
  shows "\<exists>t. bwrite i s = Ok () t \<and> bgood c p t \<and> bcache p t = a_write b (bcache p s) \<and> bcore t = bcore s"
proof -
  let ?r = "(bufs s i)\<lparr>b_dirty := False\<rparr>"
  have g: "runs c p s" "binv s" using assms(1) by (simp_all add: bgood_def)
  have r: "same_buf (bufs s i) ?r" by (rule same_buf_dirty [OF g(2) assms(2)])
  have d: "b_data (bufs s i) = bview s b"
    using bview_cached [OF g(2), of i b] assms(2) by (simp add: holds_buf_def)
  have x: "length (bview s b) = BSIZE" by (rule length_bview [OF g(2)])
  have "disk_log (put_buf i ?r (bview s b) s) = disk_log s" by (simp add: put_buf_def)
  with put_buf_abs [OF assms(1,2) r x] bwrite_ok [OF g(1) assms(2,3)] show ?thesis
    by (auto simp: bgood_def bcore_put d a_write_def bcache_def)
qed

lemma brelse_abs:
  assumes "bgood c p s" "holds_buf p i b s" "b \<in> bdirty s \<or> bview s b = memdisk s b"
  shows "\<exists>t. brelse i s = Ok () t \<and> bgood c p t \<and> bcache p t = a_release i b (bcache p s) \<and> bcore t = bcore s"
proof -
  have g: "runs c p s" "binv s" using assms(1) by (simp_all add: bgood_def)
  have c: "caches s i b" "b_valid (bufs s i)" using assms(2) by (simp_all add: holds_buf_def)
  have "b_dirty (bufs s i) \<or> b_data (bufs s i) = memdisk s b"
    using assms(3) bview_cached [OF g(2) c] binv_unique [OF g(2) c(1)] by (auto simp: bdirty_def)
  then obtain nx pv where d: "brelse i s = Ok () (drop_buf nx pv i s)" "binv (drop_buf nx pv i s)"
    by (rule brelse_ok [OF g assms(2)])
  have "bcache p (drop_buf nx pv i s) = a_release i b (bcache p s)"
    using drop_buf_bheld [OF g(2) assms(2), of nx pv] drop_buf_mine [OF assms(2), of _ _ nx pv]
    by (auto simp: bcache_def a_release_def drop_buf_view drop_buf_bdirty)
  then show ?thesis using d g by (auto simp: bgood_def bcore_drop)
qed

interpretation bc: block_cache "bread 1" brelse buf_data set_data "bgood c p" "bcache p" bcore
    bwrite set_dirty buf_blockno for c p
proof (unfold_locales, goal_cases)
  case 1 then show ?case by (rule bread_abs)
next
  case 2 then show ?case
    by (auto simp: bgood_def buf_data_def holds_buf_def intro: bview_cached [symmetric])
next
  case 3 then show ?case by (simp add: set_data_abs)
next
  case 4 then show ?case by (intro brelse_abs) simp_all
next
  case 5 then show ?case by (auto simp: holds_buf_def bheld_def)
next
  case 6 then show ?case by (simp add: bgood_def bview_clean)
next
  case 7 then show ?case by (simp add: bgood_def length_bview)
next
  case 8 then show ?case by (simp add: set_dirty_abs)
next
  case 9 then show ?case by (simp add: holds_buf_def caches_def buf_blockno_def)
next
  case 10 then show ?case by (intro bwrite_abs) simp_all
qed

section \<open>Initialisation\<close>

definition same_but_links :: "'z bstate_scheme \<Rightarrow> 'z bstate_scheme \<Rightarrow> bool" where
  "same_but_links s t \<longleftrightarrow> memdisk t = memdisk s \<and> procs t = procs s \<and>
     (\<forall>j. b_valid (bufs t j) = b_valid (bufs s j) \<and> b_dirty (bufs t j) = b_dirty (bufs s j) \<and>
          b_dev (bufs t j) = b_dev (bufs s j) \<and> b_blockno (bufs t j) = b_blockno (bufs s j) \<and>
          b_refcnt (bufs t j) = b_refcnt (bufs s j) \<and> b_data (bufs t j) = b_data (bufs s j))"

lemma initsleeplock_simps [simp]:
  "bufs (initsleeplock sl nm s) = bufs s" "memdisk (initsleeplock sl nm s) = memdisk s"
  "procs (initsleeplock sl nm s) = procs s"
  "slocks (initsleeplock sl nm s) = (slocks s)(sl := (slocks s sl)\<lparr>sl_name := nm, sl_locked := False, sl_pid := 0\<rparr>)"
  by (simp_all add: initsleeplock_def upd_slock_def initlock_def upd_lock_def)

lemma binit_fold:
  assumes "n \<le> NBUF" "ring (\<lambda>i. b_next (bufs s i)) (\<lambda>i. b_prev (bufs s i)) NBUF []"
  defines "t \<equiv> fold (\<lambda>b s. initsleeplock (BufLock b) ''buffer'' (list_push b s)) [0..<n] s"
  shows "ring (\<lambda>i. b_next (bufs t i)) (\<lambda>i. b_prev (bufs t i)) NBUF (rev [0..<n]) \<and> same_but_links s t \<and>
    (\<forall>j<n. \<not> sl_locked (slocks t (BufLock j)) \<and> sl_pid (slocks t (BufLock j)) = 0)"
  using assms(1) unfolding t_def
proof (induction n)
  case 0
  then show ?case using assms(2) by (simp add: same_but_links_def)
next
  case (Suc n)
  let ?t = "fold (\<lambda>b s. initsleeplock (BufLock b) ''buffer'' (list_push b s)) [0..<n] s"
  have IH: "ring (\<lambda>i. b_next (bufs ?t i)) (\<lambda>i. b_prev (bufs ?t i)) NBUF (rev [0..<n])" "same_but_links s ?t"
    "\<forall>j<n. \<not> sl_locked (slocks ?t (BufLock j)) \<and> sl_pid (slocks ?t (BufLock j)) = 0"
    using Suc by simp_all
  have n: "n \<noteq> NBUF" "n \<notin> set (rev [0..<n])" using Suc.prems by simp_all
  let ?u = "list_push n ?t"
  have "ring (\<lambda>i. b_next (bufs ?u i)) (\<lambda>i. b_prev (bufs ?u i)) NBUF (n # rev [0..<n])"
    using ring_push [OF IH(1) n] by (simp only: list_push_relink [OF n(1)] relink_links)
  moreover have "same_but_links s ?u" "slocks ?u = slocks ?t"
    using IH(2) by (simp_all add: list_push_relink [OF n(1)] relink_def same_but_links_def)
  ultimately show ?case using IH(3) by (auto simp: same_but_links_def less_Suc_eq)
qed

text \<open>Memory as the boot loader leaves it: the buffers are zero.\<close>

definition raw_bufs :: "'z bstate_scheme \<Rightarrow> bool" where
  "raw_bufs s \<longleftrightarrow> (\<forall>i<NBUF. b_dev (bufs s i) = 0 \<and> \<not> b_dirty (bufs s i) \<and> b_refcnt (bufs s i) = 0 \<and>
     length (b_data (bufs s i)) = BSIZE)"

text \<open>\<open>binit\<close> links all the buffers into one ring, most recently added first, and
  establishes the invariant of the cache over any disk; no block is held or dirty.\<close>

lemma binit_inv:
  assumes "raw_bufs s" "\<forall>b. length (memdisk s b) = BSIZE" "\<forall>i. no_waiter (BufLock i) (procs s)"
  shows "lru (binit s) (rev [0..<NBUF]) \<and> binv (binit s) \<and> bheld (binit s) = {} \<and> bdirty (binit s) = {}"
proof -
  let ?s = "upd_buf NBUF (\<lambda>r. r\<lparr>b_prev := NBUF, b_next := NBUF\<rparr>) (initlock BcacheLock ''bcache'' s)"
  let ?t = "binit s"
  have "ring (\<lambda>i. b_next (bufs ?s i)) (\<lambda>i. b_prev (bufs ?s i)) NBUF []"
    by (simp add: ring_def upd_buf_def)
  from binit_fold [OF order_refl this]
  have r: "ring (\<lambda>i. b_next (bufs ?t i)) (\<lambda>i. b_prev (bufs ?t i)) NBUF (rev [0..<NBUF])"
    and "same_but_links ?s ?t"
    and k: "\<And>j. j < NBUF \<Longrightarrow> \<not> sl_locked (slocks ?t (BufLock j)) \<and> sl_pid (slocks ?t (BufLock j)) = 0"
    by (simp_all add: binit_def)
  then have f: "memdisk ?t = memdisk s" "procs ?t = procs s"
    "\<And>j. j < NBUF \<Longrightarrow> b_dev (bufs ?t j) = 0 \<and> \<not> b_dirty (bufs ?t j) \<and> b_refcnt (bufs ?t j) = 0 \<and>
       length (b_data (bufs ?t j)) = BSIZE"
    using assms(1) by (auto simp: same_but_links_def upd_buf_def initlock_def upd_lock_def raw_bufs_def)
  have l: "lru ?t (rev [0..<NBUF])" using r by (simp add: lru_def)
  moreover have nc: "\<not> caches ?t i b" for i b using f(3) by (auto simp: caches_def)
  moreover have "binv ?t" unfolding binv_def using l f k assms(2,3) nc by (auto simp: buf_ok_def)
  ultimately show ?thesis by (simp add: bheld_def bdirty_def)
qed

end
