(* ===== verification/Fs_Layout.thy ===== *)
theory Fs_Layout
  imports Bio_Spec
begin

text \<open>
  The on-disk format of \<open>fs.h\<close>: the super block, inodes, the bitmap and directory entries
  as records, with their byte encoding in a block and the proof that decoding an encoded
  record gives it back.
\<close>

section \<open>Constants\<close>

definition ROOTINO :: nat where "ROOTINO = 1"
definition NDIRECT :: nat where "NDIRECT = 12"
definition NINDIRECT :: nat where "NINDIRECT = BSIZE div 4"
definition MAXFILE :: nat where "MAXFILE = NDIRECT + NINDIRECT"
definition IPB :: nat where "IPB = BSIZE div 64"
definition BPB :: nat where "BPB = BSIZE * 8"
definition DIRSIZ :: nat where "DIRSIZ = 14"

lemmas layout_defs = NDIRECT_def NINDIRECT_def MAXFILE_def IPB_def BPB_def DIRSIZ_def BSIZE_def

section \<open>The super block\<close>

record superblock =
  sb_size :: nat
  sb_nblocks :: nat
  sb_ninodes :: nat
  sb_nlog :: nat
  sb_logstart :: nat
  sb_inodestart :: nat
  sb_bmapstart :: nat

definition IBLOCK :: "nat \<Rightarrow> superblock \<Rightarrow> nat" where "IBLOCK i sb = i div IPB + sb_inodestart sb"

definition BBLOCK :: "nat \<Rightarrow> superblock \<Rightarrow> nat" where "BBLOCK b sb = b div BPB + sb_bmapstart sb"

definition dec_sb :: "u8 list \<Rightarrow> superblock" where
  "dec_sb d = \<lparr>sb_size = dec32 d 0, sb_nblocks = dec32 d 4, sb_ninodes = dec32 d 8,
     sb_nlog = dec32 d 12, sb_logstart = dec32 d 16, sb_inodestart = dec32 d 20,
     sb_bmapstart = dec32 d 24\<rparr>"

definition enc_sb :: "superblock \<Rightarrow> u8 list" where
  "enc_sb sb = enc32 (sb_size sb) @ enc32 (sb_nblocks sb) @ enc32 (sb_ninodes sb)
     @ enc32 (sb_nlog sb) @ enc32 (sb_logstart sb) @ enc32 (sb_inodestart sb)
     @ enc32 (sb_bmapstart sb)"

definition readsb :: "nat \<Rightarrow> 'z bstate_scheme \<Rightarrow> (superblock, 'z bstate_scheme) res" where
  "readsb dev s =
     andthen (bread dev 1 s) (\<lambda>bp s.
     let sb = dec_sb (buf_data bp s)
     in andthen (brelse bp s) (\<lambda>_ s. Ok sb s))"

section \<open>Inodes\<close>

record dinode =
  di_type :: u16
  di_major :: u16
  di_minor :: u16
  di_nlink :: u16
  di_size :: nat
  di_addrs :: "nat list"

definition dec_dinode :: "u8 list \<Rightarrow> nat \<Rightarrow> dinode" where
  "dec_dinode d off = \<lparr>di_type = dec16 d off, di_major = dec16 d (off + 2),
     di_minor = dec16 d (off + 4), di_nlink = dec16 d (off + 6), di_size = dec32 d (off + 8),
     di_addrs = map (\<lambda>k. dec32 d (off + 12 + 4 * k)) [0..<NDIRECT + 1]\<rparr>"

definition enc_dinode :: "dinode \<Rightarrow> u8 list" where
  "enc_dinode di = enc16 (di_type di) @ enc16 (di_major di) @ enc16 (di_minor di)
     @ enc16 (di_nlink di) @ enc32 (di_size di) @ concat (map enc32 (di_addrs di))"

section \<open>Directory entries\<close>

record dirent =
  de_inum :: u16
  de_name :: "u8 list"

definition dec_dirent :: "u8 list \<Rightarrow> dirent" where
  "dec_dirent d = \<lparr>de_inum = dec16 d 0, de_name = get_bytes d 2 DIRSIZ\<rparr>"

definition enc_dirent :: "dirent \<Rightarrow> u8 list" where
  "enc_dirent de = enc16 (de_inum de) @ de_name de"

section \<open>Decoding an encoded record\<close>

lemma dec32_append:
  "dec32 (a @ d) (length a + i) = dec32 d i" 
  by (simp add: dec32_def nth_append add.assoc)

lemma dec16_append: "dec16 (a @ d) (length a + i) = dec16 d i"
  by (simp add: dec16_def nth_append add.assoc)

lemma dec32_skip: "length a \<le> i \<Longrightarrow> dec32 (a @ d) i = dec32 d (i - length a)"
  using dec32_append [of a d "i - length a"] by simp

lemma dec16_skip: "length a \<le> i \<Longrightarrow> dec16 (a @ d) i = dec16 d (i - length a)"
  using dec16_append [of a d "i - length a"] by simp

lemma dec32_head: "n < 4294967296 \<Longrightarrow> dec32 (enc32 n @ d) 0 = n"
  by (rule dec32_enc32_at) simp_all

lemma dec16_head: "dec16 (enc16 w @ d) 0 = w"
  by (rule dec16_enc16_at) simp_all

definition dinode_ok :: "dinode \<Rightarrow> bool" where
  "dinode_ok di \<longleftrightarrow> di_size di < 4294967296 \<and> length (di_addrs di) = NDIRECT + 1 \<and>
     (\<forall>a\<in>set (di_addrs di). a < 4294967296)"

lemma dec32_concat:
  "\<forall>a\<in>set as. a < 4294967296 \<Longrightarrow> k < length as \<Longrightarrow> dec32 (concat (map enc32 as) @ d) (4 * k) = as ! k"
proof (induction as arbitrary: k)
  case (Cons a as)
  then show ?case by (cases k) (simp_all add: dec32_head dec32_skip)
qed simp

lemma length_concat_enc32 [simp]: "length (concat (map enc32 as)) = 4 * length as"
  by (induction as) auto

lemma length_enc_dinode: "dinode_ok di \<Longrightarrow> length (enc_dinode di) = 64"
  by (simp add: enc_dinode_def dinode_ok_def NDIRECT_def)

lemma dec_enc_dinode:
  assumes "dinode_ok di" shows "dec_dinode (pre @ enc_dinode di @ d) (length pre) = di"
proof -
  have "map (\<lambda>k. dec32 (concat (map enc32 (di_addrs di)) @ d) (4 * k)) [0..<NDIRECT + 1] = di_addrs di"
    using assms by (intro nth_equalityI) (auto simp: dinode_ok_def dec32_concat simp del: upt_Suc)
  then show ?thesis
    using assms
    by (simp add: dec_dinode_def enc_dinode_def dec16_append dec16_head dec16_skip dec32_skip dec32_head
        dinode_ok_def)
qed

lemma dec_put_dinode:
  assumes "dinode_ok di" "off + 64 \<le> length d"
  shows "dec_dinode (put_bytes d off (enc_dinode di)) off = di"
  using dec_enc_dinode [OF assms(1), of "take off d" "drop (off + 64) d"] assms
  by (simp add: put_bytes_def length_enc_dinode)

lemma dec_put_dinode_other:
  assumes "dinode_ok di" "off + 64 \<le> length d" "i + 64 \<le> length d" "i + 64 \<le> off \<or> off + 64 \<le> i"
  shows "dec_dinode (put_bytes d off (enc_dinode di)) i = dec_dinode d i"
  using assms
  by (auto simp: dec_dinode_def length_enc_dinode dec16_put_other dec32_put_other NDIRECT_def)

lemma dinode_ok_dec: "dinode_ok (dec_dinode d off)"
  by (auto simp: dinode_ok_def dec_dinode_def dec32_bound)

lemma dec_enc_dirent: "length (de_name de) = DIRSIZ \<Longrightarrow> dec_dirent (enc_dirent de) = de"
  by (simp add: dec_dirent_def enc_dirent_def dec16_head get_bytes_def)

lemma dec_enc_sb:
  assumes "sb_size sb < 4294967296" "sb_nblocks sb < 4294967296" "sb_ninodes sb < 4294967296"
    "sb_nlog sb < 4294967296" "sb_logstart sb < 4294967296" "sb_inodestart sb < 4294967296"
    "sb_bmapstart sb < 4294967296"
  shows "dec_sb (enc_sb sb @ d) = sb"
  using assms by (simp add: dec_sb_def enc_sb_def dec32_skip dec32_head)

end
