(* ===== verification/Log.thy ===== *)
theory Log
  imports Fs_Layout
begin

text \<open>
  \<open>log.c\<close>: the redo log that makes the block writes of a file-system call atomic with
  respect to crashes. \<open>lh_n\<close> and \<open>lh_block\<close> are the in-memory header. The array
  \<open>lh.block\<close> has \<open>LOGSIZE\<close> elements; an access beyond it ends in \<open>Panic\<close>.
\<close>

section \<open>State\<close>

record lstate = bstate +
  log_start :: nat
  log_size :: nat
  log_outstanding :: int
  log_committing :: bool
  log_dev :: nat
  lh_n :: int
  lh_block :: "nat \<Rightarrow> nat"

section \<open>The header block\<close>

definition int32 :: "nat \<Rightarrow> int" where
  "int32 n = (if n < 2147483648 then int n else int n - 4294967296)"

definition head_bytes :: "int \<Rightarrow> (nat \<Rightarrow> nat) \<Rightarrow> u8 list \<Rightarrow> u8 list" where
  "head_bytes n bl d =
     fold (\<lambda>i d. put_bytes d (4 + 4 * i) (enc32 (bl i))) [0..<nat n]
       (put_bytes d 0 (enc32 (nat (n mod 4294967296))))"

definition install_one :: "nat \<Rightarrow> 'z lstate_scheme \<Rightarrow> (unit, 'z lstate_scheme) res" where
  "install_one tail s =
     andthen (bread (log_dev s) (log_start s + tail + 1) s) (\<lambda>lbuf s.
     andthen (bread (log_dev s) (lh_block s tail) s) (\<lambda>dbuf s.
     andthen (bwrite dbuf (set_data dbuf (buf_data lbuf s) s)) (\<lambda>_ s.
     andthen (brelse lbuf s) (\<lambda>_ s. brelse dbuf s))))"

definition install_trans :: "'z lstate_scheme \<Rightarrow> (unit, 'z lstate_scheme) res" where
  "install_trans s = foreach install_one [0..<nat (lh_n s)] s"

definition read_head :: "'z lstate_scheme \<Rightarrow> (unit, 'z lstate_scheme) res" where
  "read_head s =
     andthen (bread (log_dev s) (log_start s) s) (\<lambda>buf s.
     let d = buf_data buf s; n = int32 (dec32 d 0)
     in if n > int LOGSIZE then Panic ''lh.block out of bounds''
        else brelse buf (s\<lparr>lh_n := n,
               lh_block := (\<lambda>i. if int i < n then dec32 d (4 + 4 * i) else lh_block s i)\<rparr>))"

definition write_head :: "'z lstate_scheme \<Rightarrow> (unit, 'z lstate_scheme) res" where
  "write_head s =
     andthen (bread (log_dev s) (log_start s) s) (\<lambda>buf s.
     if lh_n s > int LOGSIZE then Panic ''lh.block out of bounds''
     else
       andthen (bwrite buf (set_data buf (head_bytes (lh_n s) (lh_block s) (buf_data buf s)) s)) (\<lambda>_ s.
       brelse buf s))"

definition recover_from_log :: "'z lstate_scheme \<Rightarrow> (unit, 'z lstate_scheme) res" where
  "recover_from_log s =
     andthen (read_head s) (\<lambda>_ s.
     andthen (install_trans s) (\<lambda>_ s.
     write_head (s\<lparr>lh_n := 0\<rparr>)))"

definition initlog :: "nat \<Rightarrow> 'z lstate_scheme \<Rightarrow> (unit, 'z lstate_scheme) res" where
  "initlog dev s =
     (if 4 + 4 * LOGSIZE \<ge> BSIZE then Panic ''initlog: too big logheader''
      else
        andthen (readsb dev (initlock LogLock ''log'' s)) (\<lambda>sb s.
        recover_from_log (s\<lparr>log_start := sb_logstart sb, log_size := sb_nlog sb, log_dev := dev\<rparr>)))"

section \<open>Transactions\<close>

definition begin_op_loop :: "'z lstate_scheme \<Rightarrow> (unit, 'z lstate_scheme) res" where
  "begin_op_loop s =
     (if log_committing s then sleep ChanLog LogLock s
      else if lh_n s + (log_outstanding s + 1) * int MAXOPBLOCKS > int LOGSIZE
      then sleep ChanLog LogLock s
      else release LogLock (s\<lparr>log_outstanding := log_outstanding s + 1\<rparr>))"

definition begin_op :: "'z lstate_scheme \<Rightarrow> (unit, 'z lstate_scheme) res" where
  "begin_op s = andthen (acquire LogLock s) (\<lambda>_ s. begin_op_loop s)"

definition begin_op_resume :: "nat \<Rightarrow> bool \<Rightarrow> 'z lstate_scheme \<Rightarrow> (unit, 'z lstate_scheme) res" where
  "begin_op_resume p intena s =
     andthen (sleep_return p LogLock intena s) (\<lambda>_ s. begin_op_loop s)"

definition write_one :: "nat \<Rightarrow> 'z lstate_scheme \<Rightarrow> (unit, 'z lstate_scheme) res" where
  "write_one tail s =
     andthen (bread (log_dev s) (log_start s + tail + 1) s) (\<lambda>to s.
     andthen (bread (log_dev s) (lh_block s tail) s) (\<lambda>from s.
     andthen (bwrite to (set_data to (buf_data from s) s)) (\<lambda>_ s.
     andthen (brelse from s) (\<lambda>_ s. brelse to s))))"

definition write_log :: "'z lstate_scheme \<Rightarrow> (unit, 'z lstate_scheme) res" where
  "write_log s = foreach write_one [0..<nat (lh_n s)] s"

definition commit :: "'z lstate_scheme \<Rightarrow> (unit, 'z lstate_scheme) res" where
  "commit s =
     (if lh_n s > 0 then
        andthen (write_log s) (\<lambda>_ s.
        andthen (write_head s) (\<lambda>_ s.
        andthen (install_trans s) (\<lambda>_ s.
        write_head (s\<lparr>lh_n := 0\<rparr>))))
      else Ok () s)"

definition end_op :: "'z lstate_scheme \<Rightarrow> (unit, 'z lstate_scheme) res" where
  "end_op s =
     andthen (acquire LogLock s) (\<lambda>_ s.
     let s = s\<lparr>log_outstanding := log_outstanding s - 1\<rparr>
     in if log_committing s then Panic ''log.committing''
        else if log_outstanding s = 0 then
          andthen (release LogLock (s\<lparr>log_committing := True\<rparr>)) (\<lambda>_ s.
          andthen (commit s) (\<lambda>_ s.
          andthen (acquire LogLock s) (\<lambda>_ s.
          andthen (wakeup ChanLog (s\<lparr>log_committing := False\<rparr>)) (\<lambda>_ s.
          release LogLock s))))
        else
          andthen (wakeup ChanLog s) (\<lambda>_ s. release LogLock s))"

text \<open>The search of \<open>log_write\<close> for the block: the first slot that has it, or slot \<open>n\<close>.\<close>

definition log_slot :: "int \<Rightarrow> (nat \<Rightarrow> nat) \<Rightarrow> nat \<Rightarrow> nat" where
  "log_slot n bl b = (case find (\<lambda>i. bl i = b) [0..<nat n] of Some i \<Rightarrow> i | None \<Rightarrow> nat n)"

definition log_write :: "nat \<Rightarrow> 'z lstate_scheme \<Rightarrow> (unit, 'z lstate_scheme) res" where
  "log_write b s =
     (if lh_n s \<ge> int LOGSIZE \<or> lh_n s \<ge> int (log_size s) - 1 then Panic ''too big a transaction''
      else if log_outstanding s < 1 then Panic ''log_write outside of trans''
      else
        andthen (acquire LogLock s) (\<lambda>_ s.
        let i = log_slot (lh_n s) (lh_block s) (buf_blockno b s);
            s = s\<lparr>lh_block := (lh_block s)(i := buf_blockno b s)\<rparr>;
            s = (if int i = lh_n s then s\<lparr>lh_n := lh_n s + 1\<rparr> else s)
        in release LogLock (set_dirty b s)))"

end
