(* ===== verification/Log_Disk.thy ===== *)
theory Log_Disk
  imports Log
begin

text \<open>
  The log seen from the disk: sequences of block writes, what recovery makes of a disk, and
  the effect of a crash between any two writes of a commit or of a recovery.
\<close>

section \<open>Writes and recovery on a disk\<close>

definition apply_writes :: "disk \<Rightarrow> (nat \<times> u8 list) list \<Rightarrow> disk" where
  "apply_writes d ws = fold (\<lambda>(b, x) d. d(b := x)) ws d"

lemma apply_writes_simps [simp]:
  "apply_writes d [] = d" "apply_writes d ((b, x) # ws) = apply_writes (d(b := x)) ws"
  "apply_writes d (ws @ vs) = apply_writes (apply_writes d ws) vs"
  by (simp_all add: apply_writes_def)

lemma apply_writes_other: "b \<notin> fst ` set ws \<Longrightarrow> apply_writes d ws b = d b"
  by (induction ws arbitrary: d) auto

text \<open>What the header block of a disk says, and the home locations after recovery.\<close>

definition hdr_n :: "u8 list \<Rightarrow> nat" where "hdr_n h = dec32 h 0"

definition hdr_block :: "u8 list \<Rightarrow> nat \<Rightarrow> nat" where "hdr_block h i = dec32 h (4 + 4 * i)"

definition installs :: "nat \<Rightarrow> nat \<Rightarrow> (nat \<Rightarrow> nat) \<Rightarrow> disk \<Rightarrow> (nat \<times> u8 list) list" where
  "installs st n bl d = map (\<lambda>t. (bl t, d (st + t + 1))) [0..<n]"

definition recovered :: "nat \<Rightarrow> disk \<Rightarrow> disk" where
  "recovered st d = apply_writes d (installs st (hdr_n (d st)) (hdr_block (d st)) d)"

text \<open>A log of \<open>n\<close> blocks at \<open>st\<close> with the given home blocks, all outside the log.\<close>

definition log_fits :: "nat \<Rightarrow> nat \<Rightarrow> nat \<Rightarrow> nat \<Rightarrow> (nat \<Rightarrow> nat) \<Rightarrow> bool" where
  "log_fits sz st area n bl \<longleftrightarrow>
     n < area \<and> n \<le> LOGSIZE \<and> st + area \<le> sz \<and>
     (\<forall>t<n. bl t < sz \<and> bl t \<notin> {st..<st + area}) \<and>
     inj_on bl {0..<n}"

definition header_ok :: "nat \<Rightarrow> nat \<Rightarrow> nat \<Rightarrow> disk \<Rightarrow> bool" where
  "header_ok sz st area d \<longleftrightarrow> log_fits sz st area (hdr_n (d st)) (hdr_block (d st))"

section \<open>Installing\<close>

lemma installs_Suc: "installs st (Suc n) bl d = installs st n bl d @ [(bl n, d (st + n + 1))]"
  by (simp add: installs_def)

lemma map_writes:
  "inj_on bl {0..<n} \<Longrightarrow> t < n \<Longrightarrow> apply_writes d (map (\<lambda>t. (bl t, x t)) [0..<n]) (bl t) = x t"
proof (induction n)
  case (Suc n)
  show ?case
  proof (cases "t = n")
    case False
    then have "bl n \<noteq> bl t" using Suc.prems by (auto simp: inj_on_def)
    moreover have "inj_on bl {0..<n}" using Suc.prems(1) by (auto simp: inj_on_def)
    ultimately show ?thesis using Suc False by simp
  qed simp
qed simp

lemma installs_home:
  "inj_on bl {0..<n} \<Longrightarrow> t < n \<Longrightarrow> apply_writes d (installs st n bl e) (bl t) = e (st + t + 1)"
  unfolding installs_def by (rule map_writes)

lemma log_fits_home:
  "log_fits sz st area n bl \<Longrightarrow> t < n \<Longrightarrow> x < area \<Longrightarrow> bl t \<noteq> st + x"
  by (force simp: log_fits_def)

lemma installs_other:
  "(\<forall>t<n. bl t \<noteq> b) \<Longrightarrow> apply_writes d (installs st n bl e) b = d b"
  by (rule apply_writes_other) (auto simp: installs_def)

lemma installs_cong:
  "(\<forall>t<n. d (st + t + 1) = e (st + t + 1)) \<Longrightarrow> installs st n bl d = installs st n bl e"
  by (simp add: installs_def)

text \<open>Writing some of the blocks and then installing all of them is installing them.\<close>

lemma installs_again:
  assumes f: "log_fits sz st area n bl" and k: "k \<le> n"
  shows "apply_writes (apply_writes d (installs st k bl d)) (installs st n bl (apply_writes d (installs st k bl d)))
       = apply_writes d (installs st n bl d)"
proof
  fix b
  let ?d = "apply_writes d (installs st k bl d)"
  have "?d (st + t + 1) = d (st + t + 1)" if "t < n" for t
  proof (rule installs_other, intro allI impI)
    fix u assume "u < k"
    then show "bl u \<noteq> st + t + 1"
      using log_fits_home [OF f, of u "t + 1"] k that f by (simp add: log_fits_def)
  qed
  then have e: "installs st n bl ?d = installs st n bl d" by (intro installs_cong) simp
  show "apply_writes ?d (installs st n bl ?d) b = apply_writes d (installs st n bl d) b"
  proof (cases "\<exists>t<n. bl t = b")
    case True
    then show ?thesis using f e by (auto simp: log_fits_def installs_home)
  next
    case False
    then show ?thesis using k e by (simp add: installs_other)
  qed
qed

section \<open>The header\<close>

lemma length_head_fold:
  "n \<le> LOGSIZE \<Longrightarrow> length d = BSIZE \<Longrightarrow>
   length (fold (\<lambda>i d. put_bytes d (4 + 4 * i) (enc32 (bl i))) [0..<n] d) = BSIZE"
  by (induction n) (simp_all add: BSIZE_def LOGSIZE_def MAXOPBLOCKS_def)

lemma head_fold_dec:
  assumes "n \<le> LOGSIZE" "length d = BSIZE" "\<forall>t<n. bl t < 4294967296"
  shows "dec32 (fold (\<lambda>i d. put_bytes d (4 + 4 * i) (enc32 (bl i))) [0..<n] d) 0 = dec32 d 0 \<and>
         (\<forall>t<n. dec32 (fold (\<lambda>i d. put_bytes d (4 + 4 * i) (enc32 (bl i))) [0..<n] d) (4 + 4 * t) = bl t)"
  using assms
proof (induction n)
  case (Suc n)
  let ?d = "fold (\<lambda>i d. put_bytes d (4 + 4 * i) (enc32 (bl i))) [0..<n] d"
  have l: "length ?d = BSIZE" using Suc.prems by (intro length_head_fold) simp_all
  have n: "8 + 4 * n \<le> BSIZE" using Suc.prems(1) by (simp add: BSIZE_def LOGSIZE_def MAXOPBLOCKS_def)
  then show ?case
    using Suc l by (auto simp: dec32_put_same dec32_put_other less_Suc_eq)
qed simp

lemma length_head_bytes: "0 \<le> n \<Longrightarrow> n \<le> int LOGSIZE \<Longrightarrow> length d = BSIZE \<Longrightarrow> length (head_bytes n bl d) = BSIZE"
  unfolding head_bytes_def by (rule length_head_fold) (simp_all add: nat_le_iff BSIZE_def)

lemma hdr_head_bytes:
  assumes "0 \<le> n" "n \<le> int LOGSIZE" "length d = BSIZE" "\<forall>t<nat n. bl t < 4294967296"
  shows "hdr_n (head_bytes n bl d) = nat n" "t < nat n \<Longrightarrow> hdr_block (head_bytes n bl d) t = bl t"
proof -
  let ?d = "put_bytes d 0 (enc32 (nat (n mod 4294967296)))"
  have n: "n < 2147483648" using assms(2) by (simp add: LOGSIZE_def MAXOPBLOCKS_def)
  have l: "length ?d = BSIZE" using assms(3) by (simp add: BSIZE_def)
  have z: "dec32 ?d 0 = nat n" using assms(1,3) n by (simp add: dec32_put_same BSIZE_def)
  note h = head_fold_dec [OF _ l, of "nat n" bl]
  show "hdr_n (head_bytes n bl d) = nat n"
    using h assms n z by (simp add: hdr_n_def head_bytes_def nat_le_iff)
  show "hdr_block (head_bytes n bl d) t = bl t" if "t < nat n"
    using h assms that by (simp add: hdr_block_def head_bytes_def nat_le_iff)
qed

section \<open>A crash between two writes\<close>

text \<open>The writes of a commit: the log, the header, the home locations, an empty header.\<close>

definition log_writes :: "nat \<Rightarrow> nat \<Rightarrow> (nat \<Rightarrow> nat) \<Rightarrow> disk \<Rightarrow> (nat \<times> u8 list) list" where
  "log_writes st n bl v = map (\<lambda>t. (st + t + 1, v (bl t))) [0..<n]"

definition home_writes :: "nat \<Rightarrow> (nat \<Rightarrow> nat) \<Rightarrow> disk \<Rightarrow> (nat \<times> u8 list) list" where
  "home_writes n bl v = map (\<lambda>t. (bl t, v (bl t))) [0..<n]"

definition commit_writes ::
  "nat \<Rightarrow> nat \<Rightarrow> (nat \<Rightarrow> nat) \<Rightarrow> disk \<Rightarrow> u8 list \<Rightarrow> u8 list \<Rightarrow> (nat \<times> u8 list) list" where
  "commit_writes st n bl v h h0 =
     log_writes st n bl v @ [(st, h)] @ home_writes n bl v @ [(st, h0)]"

lemma log_writes_home:
  "t < n \<Longrightarrow> apply_writes d (log_writes st n bl v) (st + t + 1) = v (bl t)"
  unfolding log_writes_def using map_writes [of "\<lambda>t. st + t + 1" n t d "\<lambda>t. v (bl t)"]
  by (simp add: inj_on_def)

lemma take_log_writes: "take k (log_writes st n bl v) = log_writes st (min k n) bl v"
  by (simp add: log_writes_def take_map min_def)

lemma take_home_writes: "take k (home_writes n bl v) = home_writes (min k n) bl v"
  by (simp add: home_writes_def take_map min_def)

lemma log_writes_other: "b \<notin> {st + 1..<st + n + 1} \<Longrightarrow> apply_writes d (log_writes st n bl v) b = d b"
  by (rule apply_writes_other) (auto simp: log_writes_def)

lemma recovered_empty: "hdr_n (d st) = 0 \<Longrightarrow> recovered st d = d"
  by (simp add: recovered_def installs_def)

lemma log_fits_0: "st + area \<le> sz \<Longrightarrow> 0 < area \<Longrightarrow> log_fits sz st area 0 bl"
  by (simp add: log_fits_def)

lemma log_fits_cong:
  "log_fits sz st area n bl \<Longrightarrow> (\<And>t. t < n \<Longrightarrow> bl' t = bl t) \<Longrightarrow> log_fits sz st area n bl'"
  unfolding log_fits_def inj_on_def by auto

text \<open>The disk in the middle of the installation, with the header in place.\<close>

lemma recovered_mid:
  assumes f: "log_fits sz st area n bl" and j: "j \<le> n"
    and h: "hdr_n (d st) = n" "\<And>t. t < n \<Longrightarrow> hdr_block (d st) t = bl t"
    and l: "\<And>t. t < n \<Longrightarrow> d (st + t + 1) = v (bl t)"
  shows "recovered st (apply_writes d (home_writes j bl v)) = apply_writes d (home_writes n bl v)"
    "header_ok sz st area (apply_writes d (home_writes j bl v))"
proof -
  have e: "home_writes i bl v = installs st i bl d" if "i \<le> n" for i
    using l that by (simp add: home_writes_def installs_def)
  let ?d = "apply_writes d (home_writes j bl v)"
  have s: "?d st = d st"
  proof (rule apply_writes_other)
    have "bl u \<noteq> st" if "u < j" for u
      using log_fits_home [OF f, of u 0] f j that by (simp add: log_fits_def)
    then show "st \<notin> fst ` set (home_writes j bl v)" unfolding home_writes_def by fastforce
  qed
  have "installs st n (hdr_block (d st)) ?d = installs st n bl ?d"
    using h(2) by (simp add: installs_def)
  then show "recovered st ?d = apply_writes d (home_writes n bl v)"
    using installs_again [OF f j, of d] by (simp add: recovered_def e [OF j] s [unfolded e [OF j]] h(1) e)
  show "header_ok sz st area ?d"
    using log_fits_cong [OF f h(2)] by (simp add: header_ok_def s h(1))
qed

lemma apply_home_writes:
  assumes "log_fits sz st area n bl" "\<And>b. b \<notin> bl ` {0..<n} \<Longrightarrow> b \<notin> {st..<st + area} \<Longrightarrow> d b = v b"
    and "b \<notin> {st..<st + area}"
  shows "apply_writes d (home_writes n bl v) b = v b"
proof (cases "b \<in> bl ` {0..<n}")
  case True
  then obtain t where "t < n" "b = bl t" by auto
  then show ?thesis
    using assms(1) map_writes [of bl n t d "\<lambda>t. v (bl t)"] by (simp add: home_writes_def log_fits_def)
next
  case False
  then show ?thesis using assms(2,3)
    by (subst apply_writes_other) (auto simp: home_writes_def)
qed

lemma commit_done:
  assumes f: "log_fits sz st area n bl"
    and v: "\<And>b. b \<notin> bl ` {0..<n} \<Longrightarrow> b \<notin> {st..<st + area} \<Longrightarrow> d b = v b"
    and b: "b \<notin> {st..<st + area}"
  shows "apply_writes d (commit_writes st n bl v h h0) b = v b"
proof -
  let ?d1 = "(apply_writes d (log_writes st n bl v))(st := h)"
  have area: "n < area" using f by (simp add: log_fits_def)
  have "?d1 b = v b" if "b \<notin> bl ` {0..<n}" "b \<notin> {st..<st + area}" for b
    using that area v log_writes_other [of b st n] by auto
  then have "apply_writes ?d1 (home_writes n bl v) b = v b" using f b by (intro apply_home_writes)
  moreover have "b \<noteq> st" using b area by auto
  ultimately show ?thesis by (simp add: commit_writes_def)
qed

lemma commit_prefix:
  assumes f: "log_fits sz st area n bl" and "0 < n"
    and d: "hdr_n (d st) = 0"
    and h: "hdr_n h = n" "\<And>t. t < n \<Longrightarrow> hdr_block h t = bl t" and h0: "hdr_n h0 = 0"
    and v: "\<And>b. b \<notin> bl ` {0..<n} \<Longrightarrow> b \<notin> {st..<st + area} \<Longrightarrow> d b = v b"
    and d': "d' = apply_writes d (take k (commit_writes st n bl v h h0))"
  shows "header_ok sz st area d' \<and>
    ((\<forall>b. b \<notin> {st..<st + area} \<longrightarrow> recovered st d' b = d b) \<or>
     (\<forall>b. b \<notin> {st..<st + area} \<longrightarrow> recovered st d' b = v b))"
proof -
  have len: "length (log_writes st n bl v) = n" "length (home_writes n bl v) = n"
    by (simp_all add: log_writes_def home_writes_def)
  have area: "n < area" "st + area \<le> sz" using f by (simp_all add: log_fits_def)
  let ?d1 = "(apply_writes d (log_writes st n bl v))(st := h)"
  have d1: "hdr_n (?d1 st) = n" "hdr_block (?d1 st) t = bl t" "?d1 (st + t + 1) = v (bl t)" if "t < n" for t
    using that h log_writes_home [of t n] by simp_all
  have v1: "?d1 b = v b" if "b \<notin> bl ` {0..<n}" "b \<notin> {st..<st + area}" for b
    using that area v log_writes_other [of b st n] by auto
  have "k \<le> n \<or> (k - (n + 1) \<le> n \<and> k = n + 1 + (k - (n + 1))) \<or> 2 * n + 2 \<le> k" by linarith
  then consider "k \<le> n" | j where "j \<le> n" "k = n + 1 + j" | "2 * n + 2 \<le> k" by blast
  then show ?thesis
  proof cases
    case 1
    then have e: "d' = apply_writes d (log_writes st k bl v)"
      using d' len by (simp add: commit_writes_def take_log_writes)
    then have "d' st = d st" by (simp add: log_writes_other)
    then have "recovered st d' = d'" "header_ok sz st area d'"
      using d area by (simp_all add: recovered_empty header_ok_def log_fits_0)
    moreover have "d' b = d b" if "b \<notin> {st..<st + area}" for b
      using that 1 area log_writes_other [of b st k] by (auto simp: e)
    ultimately show ?thesis by simp
  next
    case (2 j)
    then have e: "d' = apply_writes ?d1 (home_writes j bl v)"
      using d' len by (simp add: commit_writes_def take_home_writes)
    have "recovered st d' b = v b" if "b \<notin> {st..<st + area}" for b
      using recovered_mid(1) [OF f 2(1), of ?d1 v] d1 apply_home_writes [OF f, of ?d1 v b] v1 that e assms(2) by auto
    moreover have "header_ok sz st area d'"
      using recovered_mid(2) [OF f 2(1), of ?d1 v] d1 e assms(2) by auto
    ultimately show ?thesis by simp
  next
    case 3
    then have e: "d' = (apply_writes ?d1 (home_writes n bl v))(st := h0)"
      using d' len by (simp add: commit_writes_def)
    then have "recovered st d' = d'" "header_ok sz st area d'"
      using h0 area by (simp_all add: recovered_empty header_ok_def log_fits_0)
    moreover have "d' b = v b" if "b \<notin> {st..<st + area}" for b
      using commit_done [OF f v that] d' 3 len by (simp add: commit_writes_def)
    ultimately show ?thesis by simp
  qed
qed

text \<open>A recovery that crashes leaves a disk that recovers to the same.\<close>

definition recovery_writes :: "nat \<Rightarrow> disk \<Rightarrow> u8 list \<Rightarrow> (nat \<times> u8 list) list" where
  "recovery_writes st d h0 = installs st (hdr_n (d st)) (hdr_block (d st)) d @ [(st, h0)]"

lemma take_installs: "take k (installs st n bl d) = installs st (min k n) bl d"
  by (simp add: installs_def take_map min_def)

lemma recovery_prefix:
  assumes h: "header_ok sz st area d" and h0: "hdr_n h0 = 0"
    and d': "d' = apply_writes d (take k (recovery_writes st d h0))"
  shows "header_ok sz st area d' \<and>
    (\<forall>b. b \<notin> {st..<st + area} \<longrightarrow> recovered st d' b = recovered st d b)"
proof -
  let ?n = "hdr_n (d st)" and ?bl = "hdr_block (d st)"
  have f: "log_fits sz st area ?n ?bl" using h by (simp add: header_ok_def)
  have len: "length (installs st ?n ?bl d) = ?n" by (simp add: installs_def)
  have area: "?n < area" "st + area \<le> sz" using f by (simp_all add: log_fits_def)
  show ?thesis
  proof (cases "k \<le> ?n")
    case True
    then have e: "d' = apply_writes d (installs st k ?bl d)"
      using d' len by (simp add: recovery_writes_def take_installs)
    have s: "d' st = d st" unfolding e
    proof (rule installs_other, intro allI impI)
      fix t assume "t < k"
      then show "?bl t \<noteq> st" using log_fits_home [OF f, of t 0] area True by simp
    qed
    then have "recovered st d' = recovered st d"
      using installs_again [OF f True, of d] by (simp add: recovered_def e [symmetric])
    then show ?thesis using f s by (simp add: header_ok_def)
  next
    case False
    then have e: "d' = (recovered st d)(st := h0)"
      using d' len by (simp add: recovery_writes_def recovered_def)
    then have "recovered st d' = d'" "header_ok sz st area d'"
      using h0 area by (simp_all add: recovered_empty header_ok_def log_fits_0)
    then show ?thesis using e area by auto
  qed
qed

end
