(* ===== verification/Log_Spec.thy ===== *)
theory Log_Spec
  imports Log_Disk
begin

text \<open>
  The log code against its specification on disks: what \<open>write_log\<close>, \<open>write_head\<close>,
  \<open>install_trans\<close>, \<open>commit\<close> and \<open>recover_from_log\<close> do to the abstract cache, and
  the atomicity of a commit under crashes.
\<close>

section \<open>The log fields and the cache\<close>

lemma bcore_log:
  fixes s :: "'z lstate_scheme"
  assumes "bcore t = bcore s"
  shows "log_start t = log_start s" "log_size t = log_size s" "log_outstanding t = log_outstanding s"
    "log_committing t = log_committing s" "log_dev t = log_dev s" "lh_n t = lh_n s" "lh_block t = lh_block s"
    "procs t = procs s" "disksize t = disksize s"
proof -
  have e: "fst (bcore t) = fst (bcore s)" using assms by simp
  have "log_start (fst (bcore u)) = log_start u" "log_size (fst (bcore u)) = log_size u"
    "log_outstanding (fst (bcore u)) = log_outstanding u" "log_committing (fst (bcore u)) = log_committing u"
    "log_dev (fst (bcore u)) = log_dev u" "lh_n (fst (bcore u)) = lh_n u" "lh_block (fst (bcore u)) = lh_block u"
    "procs (fst (bcore u)) = procs u" "disksize (fst (bcore u)) = disksize u" for u :: "'z lstate_scheme"
    by (simp_all add: bcore_def)
  with e show "log_start t = log_start s" "log_size t = log_size s" "log_outstanding t = log_outstanding s"
    "log_committing t = log_committing s" "log_dev t = log_dev s" "lh_n t = lh_n s" "lh_block t = lh_block s"
    "procs t = procs s" "disksize t = disksize s"
    by metis+
qed

lemma runs_log [simp]:
  "runs c p (s\<lparr>lh_n := n\<rparr>) = runs c p s" "runs c p (s\<lparr>lh_block := bl\<rparr>) = runs c p s"
  "runs c p (s\<lparr>log_outstanding := k\<rparr>) = runs c p s" "runs c p (s\<lparr>log_committing := b\<rparr>) = runs c p s"
  "runs c p (s\<lparr>log_start := st\<rparr>) = runs c p s" "runs c p (s\<lparr>log_size := sz\<rparr>) = runs c p s"
  "runs c p (s\<lparr>log_dev := d\<rparr>) = runs c p s"
  by (simp_all add: runs_def calm_def steady_def lk_free_def)

lemma bcache_cong:
  "bufs t = bufs s \<Longrightarrow> slocks t = slocks s \<Longrightarrow> memdisk t = memdisk s \<Longrightarrow> disk_log t = disk_log s \<Longrightarrow>
   disksize t = disksize s \<Longrightarrow> procs t = procs s \<Longrightarrow> bcache p t = bcache p s"
proof -
  assume e: "bufs t = bufs s" "slocks t = slocks s" "memdisk t = memdisk s" "disk_log t = disk_log s"
    "disksize t = disksize s" "procs t = procs s"
  have "bview t = bview s" by (rule ext) (simp only: bview_def caches_def e)
  with e show ?thesis
    unfolding bcache_def bheld_def bdirty_def holds_buf_def caches_def buf_locked_def by simp
qed

lemma binv_cong:
  "bufs t = bufs s \<Longrightarrow> slocks t = slocks s \<Longrightarrow> memdisk t = memdisk s \<Longrightarrow> procs t = procs s \<Longrightarrow>
   binv t = binv s"
  unfolding binv_def lru_def caches_def by simp

lemma bgood_cong:
  "bufs t = bufs s \<Longrightarrow> slocks t = slocks s \<Longrightarrow> memdisk t = memdisk s \<Longrightarrow> procs t = procs s \<Longrightarrow>
   runs c p t = runs c p s \<Longrightarrow> bgood c p t = bgood c p s"
  unfolding bgood_def using binv_cong [of t s] by simp

lemma bcache_log [simp]:
  "bcache p (s\<lparr>lh_n := n\<rparr>) = bcache p s" "bcache p (s\<lparr>lh_block := bl\<rparr>) = bcache p s"
  "bcache p (s\<lparr>log_outstanding := k\<rparr>) = bcache p s" "bcache p (s\<lparr>log_committing := b\<rparr>) = bcache p s"
  "bcache p (s\<lparr>log_start := st\<rparr>) = bcache p s" "bcache p (s\<lparr>log_size := sz\<rparr>) = bcache p s"
  "bcache p (s\<lparr>log_dev := d\<rparr>) = bcache p s"
  by (rule bcache_cong; simp)+

lemma bcache_eqD: "bcache p t = bcache p s \<Longrightarrow> bview t = bview s \<and> bheld t = bheld s \<and> bdirty t = bdirty s"
  by (simp add: bcache_def)

lemma bview_log [simp]:
  "bview (s\<lparr>lh_n := n\<rparr>) = bview s" "bview (s\<lparr>lh_block := bl\<rparr>) = bview s"
  "bheld (s\<lparr>lh_n := n\<rparr>) = bheld s" "bheld (s\<lparr>lh_block := bl\<rparr>) = bheld s"
  "bdirty (s\<lparr>lh_n := n\<rparr>) = bdirty s" "bdirty (s\<lparr>lh_block := bl\<rparr>) = bdirty s"
  "bview (s\<lparr>log_outstanding := k\<rparr>) = bview s" "bview (s\<lparr>log_committing := b\<rparr>) = bview s"
  "bheld (s\<lparr>log_outstanding := k\<rparr>) = bheld s" "bheld (s\<lparr>log_committing := b\<rparr>) = bheld s"
  "bdirty (s\<lparr>log_outstanding := k\<rparr>) = bdirty s" "bdirty (s\<lparr>log_committing := b\<rparr>) = bdirty s"
  by (simp_all add: bcache_eqD [OF bcache_log(1)] bcache_eqD [OF bcache_log(2)] bcache_eqD [OF bcache_log(3)]
      bcache_eqD [OF bcache_log(4)])

lemma bgood_log [simp]:
  "bgood c p (s\<lparr>lh_n := n\<rparr>) = bgood c p s" "bgood c p (s\<lparr>lh_block := bl\<rparr>) = bgood c p s"
  "bgood c p (s\<lparr>log_outstanding := k\<rparr>) = bgood c p s" "bgood c p (s\<lparr>log_committing := b\<rparr>) = bgood c p s"
  "bgood c p (s\<lparr>log_start := st\<rparr>) = bgood c p s" "bgood c p (s\<lparr>log_size := sz\<rparr>) = bgood c p s"
  "bgood c p (s\<lparr>log_dev := d\<rparr>) = bgood c p s"
  by (rule bgood_cong; simp)+

section \<open>Installing and writing the log\<close>

definition a_copy :: "nat \<Rightarrow> nat \<Rightarrow> cache \<Rightarrow> cache" where
  "a_copy x y a = a_write y (a_set y (ca_view a x) a)"

lemma install_one_ok:
  assumes "bgood c p s" "log_dev s = 1" "can_read (log_start s + k + 1) (bcache p s)"
    "lh_block s k \<noteq> log_start s + k + 1" "lh_block s k < disksize s" "lh_block s k \<notin> bheld s"
    "lh_block s k \<in> bdirty s \<or> card (insert (log_start s + k + 1) (bheld s \<union> bdirty s)) < NBUF"
  shows "\<exists>t. install_one k s = Ok () t \<and> bgood c p t \<and> bcore t = bcore s \<and>
    bcache p t = a_copy (log_start s + k + 1) (lh_block s k) (bcache p s)"
proof -
  let ?x = "log_start s + k + 1" and ?y = "lh_block s k"
  obtain i t j u w w1 w2 where w: "bread 1 ?x s = Ok i t" "bread 1 ?y t = Ok j u"
    "bwrite j (set_data j (buf_data i u) u) = Ok () w" "brelse i w = Ok () w1" "brelse j w1 = Ok () w2"
    "bgood c p w2" "bcore w2 = bcore s" "bcache p w2 = a_write ?y (a_set ?y (bview s ?x) (bcache p s))"
    by (rule bc.copy_src_first [OF assms(1,3), of ?y, unfolded bcache_sel, OF assms(4-7)])
  have "bcore t = bcore s" using bc.rd_ok [OF assms(1,3)] w(1) by auto
  then show ?thesis
    using w assms(2) bcore_log(5,7) [of t s] by (simp add: install_one_def a_copy_def)
qed

lemma write_one_ok:
  assumes "bgood c p s" "log_dev s = 1" "can_read (log_start s + k + 1) (bcache p s)"
    "lh_block s k \<noteq> log_start s + k + 1" "lh_block s k < disksize s" "lh_block s k \<notin> bheld s"
    "lh_block s k \<in> bdirty s \<or> card (insert (log_start s + k + 1) (bheld s \<union> bdirty s)) < NBUF"
  shows "\<exists>t. write_one k s = Ok () t \<and> bgood c p t \<and> bcore t = bcore s \<and>
    bcache p t = a_copy (lh_block s k) (log_start s + k + 1) (bcache p s)"
proof -
  let ?y = "log_start s + k + 1" and ?x = "lh_block s k"
  obtain i t j u w w1 w2 where w: "bread 1 ?y s = Ok j t" "bread 1 ?x t = Ok i u"
    "bwrite j (set_data j (buf_data i u) u) = Ok () w" "brelse i w = Ok () w1" "brelse j w1 = Ok () w2"
    "bgood c p w2" "bcore w2 = bcore s" "bcache p w2 = a_write ?y (a_set ?y (bview s ?x) (bcache p s))"
    by (rule bc.copy_dst_first [OF assms(1,3), of ?x, unfolded bcache_sel, OF assms(4-7)])
  have "bcore t = bcore s" using bc.rd_ok [OF assms(1,3)] w(1) by auto
  then show ?thesis
    using w assms(2) bcore_log(5,7) [of t s] by (simp add: write_one_def a_copy_def)
qed

definition a_installed :: "nat \<Rightarrow> nat \<Rightarrow> (nat \<Rightarrow> nat) \<Rightarrow> cache \<Rightarrow> cache" where
  "a_installed st k bl a = a\<lparr>ca_view := apply_writes (ca_view a) (installs st k bl (ca_view a)),
     ca_dirty := ca_dirty a - bl ` {0..<k},
     ca_disk := apply_writes (ca_disk a) (installs st k bl (ca_view a)),
     ca_log := ca_log a @ installs st k bl (ca_view a)\<rparr>"

definition a_logged :: "nat \<Rightarrow> nat \<Rightarrow> (nat \<Rightarrow> nat) \<Rightarrow> cache \<Rightarrow> cache" where
  "a_logged st k bl a = a\<lparr>ca_view := apply_writes (ca_view a) (log_writes st k bl (ca_view a)),
     ca_dirty := ca_dirty a - {st + 1..<st + k + 1},
     ca_disk := apply_writes (ca_disk a) (log_writes st k bl (ca_view a)),
     ca_log := ca_log a @ log_writes st k bl (ca_view a)\<rparr>"

lemma a_installed_Suc:
  assumes f: "log_fits sz st area n bl" and k: "k < n"
  shows "a_copy (st + k + 1) (bl k) (a_installed st k bl a) = a_installed st (Suc k) bl a"
proof -
  have "apply_writes (ca_view a) (installs st k bl (ca_view a)) (st + k + 1) = ca_view a (st + k + 1)"
  proof (rule installs_other, intro allI impI)
    fix t assume "t < k"
    then show "bl t \<noteq> st + k + 1"
      using log_fits_home [OF f, of t "k + 1"] k f by (simp add: log_fits_def)
  qed
  moreover have "ca_dirty a - bl ` {0..<k} - {bl k} = ca_dirty a - bl ` {0..<Suc k}"
    by (auto simp: less_Suc_eq)
  ultimately show ?thesis
    by (simp add: a_copy_def a_installed_def a_write_def a_set_def installs_Suc)
qed

lemma a_logged_Suc:
  assumes f: "log_fits sz st area n bl" and k: "k < n"
  shows "a_copy (bl k) (st + k + 1) (a_logged st k bl a) = a_logged st (Suc k) bl a"
proof -
  have "bl k \<notin> {st + 1..<st + k + 1}" using f k by (force simp: log_fits_def)
  then have "apply_writes (ca_view a) (log_writes st k bl (ca_view a)) (bl k) = ca_view a (bl k)"
    by (rule log_writes_other)
  moreover have "ca_dirty a - {st + 1..<st + k + 1} - {st + k + 1} = ca_dirty a - {st + 1..<st + Suc k + 1}"
    by auto
  ultimately show ?thesis
    by (simp add: a_copy_def a_logged_def a_write_def a_set_def log_writes_def)
qed

text \<open>When the log may be worked on: nothing is held, and the dirty blocks, if any, are the
  logged ones and leave a buffer free.\<close>

definition log_ready :: "nat \<Rightarrow> nat \<Rightarrow> 'z lstate_scheme \<Rightarrow> bool" where
  "log_ready c p s \<longleftrightarrow> bgood c p s \<and> log_dev s = 1 \<and> bheld s = {} \<and> card (bdirty s) < NBUF \<and>
     0 \<le> lh_n s \<and> log_fits (disksize s) (log_start s) (log_size s) (nat (lh_n s)) (lh_block s) \<and>
     disksize s < 4294967296 \<and>
     (bdirty s = {} \<or> bdirty s = lh_block s ` {0..<nat (lh_n s)})"

lemma log_fits_fresh: "log_fits sz st area n bl \<Longrightarrow> k < n \<Longrightarrow> bl k \<notin> bl ` {0..<k}"
  unfolding log_fits_def inj_on_def by fastforce

lemma log_room:
  assumes r: "log_ready c p s" and k: "k < nat (lh_n s)" and t: "bheld t = {}" "disksize t = disksize s"
    and d: "bdirty t \<subseteq> bdirty s" "lh_block s k \<in> bdirty s \<Longrightarrow> lh_block s k \<in> bdirty t"
  shows "can_read (log_start s + k + 1) (bcache p t)" "lh_block s k \<noteq> log_start s + k + 1"
    "lh_block s k < disksize t" "lh_block s k \<notin> bheld t"
    "lh_block s k \<in> bdirty t \<or> card (insert (log_start s + k + 1) (bheld t \<union> bdirty t)) < NBUF"
proof -
  have f: "log_fits (disksize s) (log_start s) (log_size s) (nat (lh_n s)) (lh_block s)"
    using r by (simp add: log_ready_def)
  then show "lh_block s k \<noteq> log_start s + k + 1"
    using log_fits_home [OF f k, of "k + 1"] k by (simp add: log_fits_def)
  show "lh_block s k < disksize t" "lh_block s k \<notin> bheld t" using f k t by (simp_all add: log_fits_def)
  have c: "card (bdirty t) < NBUF"
    using r d(1) finite_busy [of s] card_mono [of "bdirty s" "bdirty t"] by (auto simp: log_ready_def)
  then show "can_read (log_start s + k + 1) (bcache p t)"
    using f k t by (simp add: can_read_def log_fits_def)
  show "lh_block s k \<in> bdirty t \<or> card (insert (log_start s + k + 1) (bheld t \<union> bdirty t)) < NBUF"
  proof (cases "bdirty s = {}")
    case True
    then have "bheld t \<union> bdirty t = {}" using d(1) t(1) by simp
    then show ?thesis by (simp add: NBUF_def MAXOPBLOCKS_def)
  next
    case False
    then show ?thesis using r d(2) k by (auto simp: log_ready_def)
  qed
qed

lemma log_start_0: "a_installed st 0 bl a = a" "a_logged st 0 bl a = a"
  by (cases a; simp add: a_installed_def a_logged_def installs_def log_writes_def)+

lemma install_trans_ok:
  assumes r: "log_ready c p s"
  shows "\<exists>t. install_trans s = Ok () t \<and> bgood c p t \<and> bcore t = bcore s \<and>
    bcache p t = a_installed (log_start s) (nat (lh_n s)) (lh_block s) (bcache p s)"
proof -
  let ?n = "nat (lh_n s)" and ?st = "log_start s" and ?bl = "lh_block s"
  have f: "log_fits (disksize s) ?st (log_size s) ?n ?bl" and h: "bheld s = {}" and g: "bgood c p s"
    and dev: "log_dev s = 1" using r by (simp_all add: log_ready_def)
  have "\<exists>t. foreach install_one [0..<k] s = Ok () t \<and> bgood c p t \<and> bcore t = bcore s \<and>
      bcache p t = a_installed ?st k ?bl (bcache p s)" if "k \<le> ?n" for k
    using that
  proof (induction k)
    case (Suc k)
    then obtain t where t: "foreach install_one [0..<k] s = Ok () t" "bgood c p t" "bcore t = bcore s"
      "bcache p t = a_installed ?st k ?bl (bcache p s)" by auto
    have e: "bheld t = {}" "bdirty t = bdirty s - ?bl ` {0..<k}" "disksize t = disksize s"
      using t(4) h bcache_sel(2,4,7) [of p t] by (simp_all add: a_installed_def)
    have k: "k < ?n" using Suc.prems by simp
    have "?bl k \<notin> ?bl ` {0..<k}" by (rule log_fits_fresh [OF f k])
    then have d: "bdirty t \<subseteq> bdirty s" "?bl k \<in> bdirty s \<Longrightarrow> ?bl k \<in> bdirty t" using e(2) by auto
    have l: "log_start t = ?st" "lh_block t = ?bl" "log_dev t = 1" using bcore_log [OF t(3)] dev by simp_all
    obtain u where "install_one k t = Ok () u" "bgood c p u" "bcore u = bcore t"
      "bcache p u = a_copy (?st + k + 1) (?bl k) (bcache p t)"
      using install_one_ok [OF t(2) l(3), of k, unfolded l, OF log_room [OF r k e(1,3) d]] by blast
    then show ?case
      using t a_installed_Suc [OF f k] by (simp add: foreach_append)
  qed (simp add: g log_start_0)
  then show ?thesis by (simp add: install_trans_def)
qed

lemma write_log_ok:
  assumes r: "log_ready c p s"
  shows "\<exists>t. write_log s = Ok () t \<and> bgood c p t \<and> bcore t = bcore s \<and>
    bcache p t = a_logged (log_start s) (nat (lh_n s)) (lh_block s) (bcache p s)"
proof -
  let ?n = "nat (lh_n s)" and ?st = "log_start s" and ?bl = "lh_block s"
  have f: "log_fits (disksize s) ?st (log_size s) ?n ?bl" and h: "bheld s = {}" and g: "bgood c p s"
    and dev: "log_dev s = 1" using r by (simp_all add: log_ready_def)
  have "\<exists>t. foreach write_one [0..<k] s = Ok () t \<and> bgood c p t \<and> bcore t = bcore s \<and>
      bcache p t = a_logged ?st k ?bl (bcache p s)" if "k \<le> ?n" for k
    using that
  proof (induction k)
    case (Suc k)
    then obtain t where t: "foreach write_one [0..<k] s = Ok () t" "bgood c p t" "bcore t = bcore s"
      "bcache p t = a_logged ?st k ?bl (bcache p s)" by auto
    have e: "bheld t = {}" "bdirty t = bdirty s - {?st + 1..<?st + k + 1}" "disksize t = disksize s"
      using t(4) h bcache_sel(2,4,7) [of p t] by (simp_all add: a_logged_def)
    have k: "k < ?n" using Suc.prems by simp
    have "?bl k \<notin> {?st + 1..<?st + k + 1}" using f k by (force simp: log_fits_def)
    then have d: "bdirty t \<subseteq> bdirty s" "?bl k \<in> bdirty s \<Longrightarrow> ?bl k \<in> bdirty t" using e(2) by auto
    have l: "log_start t = ?st" "lh_block t = ?bl" "log_dev t = 1" using bcore_log [OF t(3)] dev by simp_all
    obtain u where "write_one k t = Ok () u" "bgood c p u" "bcore u = bcore t"
      "bcache p u = a_copy (?bl k) (?st + k + 1) (bcache p t)"
      using write_one_ok [OF t(2) l(3), of k, unfolded l, OF log_room [OF r k e(1,3) d]] by blast
    then show ?case
      using t a_logged_Suc [OF f k] by (simp add: foreach_append)
  qed (simp add: g log_start_0)
  then show ?thesis by (simp add: write_log_def)
qed

section \<open>The header\<close>

lemma log_ready_step:
  assumes "log_ready c p s" "bgood c p t" "bcore t = bcore s" "bheld t = {}" "bdirty t = bdirty s"
  shows "log_ready c p t"
  using assms bcore_log [OF assms(3)] by (simp add: log_ready_def)

lemma log_ready_len: "log_ready c p s \<Longrightarrow> 0 \<le> lh_n s \<and> lh_n s \<le> int LOGSIZE"
  by (auto simp: log_ready_def log_fits_def nat_le_iff)

lemma log_ready_head:
  "log_ready c p s \<Longrightarrow> can_read (log_start s) (bcache p s) \<and> log_start s \<notin> bdirty s"
proof -
  assume r: "log_ready c p s"
  then have f: "log_fits (disksize s) (log_start s) (log_size s) (nat (lh_n s)) (lh_block s)"
    by (simp add: log_ready_def)
  have "lh_block s k \<noteq> log_start s" if "k < nat (lh_n s)" for k
    using log_fits_home [OF f that, of 0] f by (simp add: log_fits_def)
  then have "log_start s \<notin> lh_block s ` {0..<nat (lh_n s)}" by fastforce
  then have "log_start s \<notin> bdirty s" using r by (auto simp: log_ready_def)
  with r f show ?thesis by (auto simp: log_ready_def can_read_def log_fits_def)
qed

lemma write_head_ok:
  assumes r: "log_ready c p s"
  shows "\<exists>t. write_head s = Ok () t \<and> bgood c p t \<and> bcore t = bcore s \<and>
    bcache p t = a_write (log_start s)
      (a_set (log_start s) (head_bytes (lh_n s) (lh_block s) (bview s (log_start s))) (bcache p s))"
proof -
  have g: "bgood c p s" and dev: "log_dev s = 1" using r by (simp_all add: log_ready_def)
  have cr: "can_read (log_start s) (bcache p s)" using log_ready_head [OF r] by simp
  let ?f = "head_bytes (lh_n s) (lh_block s)"
  have l: "length (?f (ca_view (bcache p s) (log_start s))) = BSIZE"
    using log_ready_len [OF r] bc.view_length [OF g] by (simp add: length_head_bytes)
  obtain i t w u where u: "bread 1 (log_start s) s = Ok i t" "bwrite i (set_data i (?f (buf_data i t)) t) = Ok () w"
    "brelse i w = Ok () u" "bgood c p u" "bcore u = bcore s"
    "bcache p u = a_write (log_start s) (a_set (log_start s) (?f (ca_view (bcache p s) (log_start s))) (bcache p s))"
    by (rule bc.rewrite [OF g cr, of ?f, OF l])
  have "bcore t = bcore s" using bc.rd_ok [OF g cr] u(1) by auto
  then show ?thesis
    using u dev bcore_log(6,7) [of t s] log_ready_len [OF r] by (simp add: write_head_def)
qed

section \<open>Commit\<close>

text \<open>The effect of a commit on the abstract cache.\<close>

definition a_commit :: "(nat \<times> u8 list) list \<Rightarrow> cache \<Rightarrow> cache" where
  "a_commit ws a = a\<lparr>ca_view := apply_writes (ca_view a) ws, ca_dirty := {},
     ca_disk := apply_writes (ca_disk a) ws, ca_log := ca_log a @ ws\<rparr>"

lemma a_commit_eq:
  assumes f: "log_fits sz st area n bl" and d: "ca_dirty a = bl ` {0..<n}"
    and b_def: "b = a_write st (a_set st h (a_logged st n bl a))"
  shows "a_write st (a_set st h0 (a_installed st n bl b)) = a_commit (commit_writes st n bl (ca_view a) h h0) a"
proof -
  let ?v = "(apply_writes (ca_view a) (log_writes st n bl (ca_view a)))(st := h)"
  have v: "ca_view b = ?v" by (simp add: b_def a_logged_def a_write_def a_set_def)
  have i: "installs st n bl ?v = home_writes n bl (ca_view a)"
    by (simp add: installs_def home_writes_def log_writes_home [of _ n, simplified])
  have "bl t \<notin> {st..<st + n + 1}" if "t < n" for t using f that by (force simp: log_fits_def)
  then have "ca_dirty a - {st + 1..<st + n + 1} - {st} - bl ` {0..<n} - {st} = {}" using d by auto
  then show ?thesis
    by (simp add: a_commit_def a_installed_def v i) (simp add: b_def a_logged_def a_write_def a_set_def
        commit_writes_def)
qed

lemma bcore_lh_n: "bcore t = bcore s \<Longrightarrow> bcore (t\<lparr>lh_n := n\<rparr>) = bcore (s\<lparr>lh_n := n\<rparr>)"
proof -
  assume e: "bcore t = bcore s"
  have "bcore (u\<lparr>lh_n := n\<rparr>) = ((fst (bcore u))\<lparr>lh_n := n\<rparr>, snd (bcore u))" for u :: "'a lstate_scheme"
    by (cases u) (simp add: bcore_def)
  with e show ?thesis by simp
qed

lemma commit_ok:
  assumes r: "log_ready c p s" and n: "0 < lh_n s" and d: "bdirty s = lh_block s ` {0..<nat (lh_n s)}"
  defines "st \<equiv> log_start s" and "h \<equiv> head_bytes (lh_n s) (lh_block s) (bview s (log_start s))"
  defines "h0 \<equiv> head_bytes 0 (lh_block s) h"
  shows "\<exists>t. commit s = Ok () t \<and> bgood c p t \<and> bcore t = bcore (s\<lparr>lh_n := 0\<rparr>) \<and>
    bcache p t = a_commit (commit_writes st (nat (lh_n s)) (lh_block s) (bview s) h h0) (bcache p s)"
proof -
  let ?n = "nat (lh_n s)" and ?bl = "lh_block s"
  have f: "log_fits (disksize s) st (log_size s) ?n ?bl" using r by (simp add: log_ready_def st_def)
  have nb: "?bl t \<notin> {st..<st + ?n + 1}" if "t < ?n" for t using f that by (force simp: log_fits_def)
  obtain s1 where 1: "write_log s = Ok () s1" "bgood c p s1" "bcore s1 = bcore s"
    "bcache p s1 = a_logged st ?n ?bl (bcache p s)"
    using write_log_ok [OF r] by (auto simp: st_def)
  have nd: "?bl ` {0..<?n} - {st + 1..<st + ?n + 1} = ?bl ` {0..<?n}" using nb by fastforce
  have e1: "bheld s1 = {}" "bdirty s1 = bdirty s" "bview s1 st = bview s st"
    using bcache_sel(1,2,4) [of p s1, unfolded 1(4), symmetric] r d nd
    by (simp_all add: a_logged_def log_ready_def log_writes_other)
  have r1: "log_ready c p s1" using log_ready_step [OF r 1(2,3) e1(1,2)] .
  obtain s2 where 2: "write_head s1 = Ok () s2" "bgood c p s2" "bcore s2 = bcore s1"
    "bcache p s2 = a_write st (a_set st h (bcache p s1))"
    using write_head_ok [OF r1] bcore_log [OF 1(3)] e1(3) by (auto simp: st_def h_def)
  have e2: "bheld s2 = {}" "bdirty s2 = bdirty s1"
    using 2(4) bcache_sel(2,4) [of p s2] e1(1) log_ready_head [OF r1] bcore_log [OF 1(3)]
    by (auto simp: a_write_def a_set_def st_def)
  have r2: "log_ready c p s2" using log_ready_step [OF r1 2(2,3) e2] .
  have l2: "log_start s2 = st" "lh_n s2 = lh_n s" "lh_block s2 = ?bl"
    using bcore_log [OF 1(3)] bcore_log [OF 2(3)] by (simp_all add: st_def)
  obtain s3 where 3: "install_trans s2 = Ok () s3" "bgood c p s3" "bcore s3 = bcore s2"
    "bcache p s3 = a_installed st ?n ?bl (bcache p s2)"
    using install_trans_ok [OF r2] l2 by auto
  have nst: "\<forall>t<?n. ?bl t \<noteq> st" using nb by fastforce
  have v3: "bview s3 st = h" "bheld s3 = {}" "bdirty s3 = {}"
    using bcache_sel(1,2,4) [of p s3, unfolded 3(4) 2(4), symmetric] e1 d nst
    by (auto simp: a_installed_def a_write_def a_set_def installs_other)
  let ?u = "s3\<lparr>lh_n := 0\<rparr>"
  have l3: "log_start s3 = st" "lh_block s3 = ?bl" using bcore_log [OF 3(3)] l2 by simp_all
  have "log_fits (disksize s3) st (log_size s3) 0 ?bl"
    using f bcore_log [OF 1(3)] bcore_log [OF 2(3)] bcore_log [OF 3(3)] by (simp add: log_fits_def)
  then have r3: "log_ready c p ?u"
    using v3 l3 3(2) r bcore_log [OF 1(3)] bcore_log [OF 2(3)] bcore_log [OF 3(3)]
    by (simp add: log_ready_def)
  obtain s4 where 4: "write_head ?u = Ok () s4" "bgood c p s4" "bcore s4 = bcore ?u"
    "bcache p s4 = a_write st (a_set st h0 (bcache p s3))"
    using write_head_ok [OF r3] l3 v3(1) h0_def by simp blast
  have "bcore s4 = bcore (s\<lparr>lh_n := 0\<rparr>)"
    using 4(3) bcore_lh_n [of s3 s 0] 3(3) 2(3) 1(3) by simp
  moreover have "bcache p s4 = a_commit (commit_writes st ?n ?bl (bview s) h h0) (bcache p s)"
    using a_commit_eq [OF f, of "bcache p s" _ h h0] d 4(4) 3(4) 2(4) 1(4) by simp
  moreover have "commit s = Ok () s4" using 1 2 3 4 n by (simp add: commit_def)
  ultimately show ?thesis using 4(2) by blast
qed

section \<open>Recovery\<close>

text \<open>A freshly started system: an empty cache over a disk with a sound log header.\<close>

definition booted :: "nat \<Rightarrow> nat \<Rightarrow> 'z lstate_scheme \<Rightarrow> bool" where
  "booted c p s \<longleftrightarrow> bgood c p s \<and> log_dev s = 1 \<and> bheld s = {} \<and> bdirty s = {} \<and>
     disksize s < 4294967296 \<and> header_ok (disksize s) (log_start s) (log_size s) (memdisk s)"

definition hdr_blocks :: "u8 list \<Rightarrow> (nat \<Rightarrow> nat) \<Rightarrow> nat \<Rightarrow> nat" where
  "hdr_blocks h bl i = (if i < hdr_n h then hdr_block h i else bl i)"

lemma booted_view: "booted c p s \<Longrightarrow> bview s = memdisk s"
  by (rule ext) (simp add: booted_def bgood_def bview_clean)

lemma bcore_lh:
  "bcore t = bcore s \<Longrightarrow> bcore (t\<lparr>lh_n := n, lh_block := bl\<rparr>) = bcore (s\<lparr>lh_n := n, lh_block := bl\<rparr>)"
proof -
  assume e: "bcore t = bcore s"
  have "bcore (u\<lparr>lh_n := n, lh_block := bl\<rparr>) = ((fst (bcore u))\<lparr>lh_n := n, lh_block := bl\<rparr>, snd (bcore u))"
    for u :: "'a lstate_scheme" by (cases u) (simp add: bcore_def)
  with e show ?thesis by simp
qed

lemma read_head_ok:
  assumes b: "booted c p s"
  defines "h \<equiv> memdisk s (log_start s)"
  shows "\<exists>t. read_head s = Ok () t \<and> bgood c p t \<and> bcache p t = bcache p s \<and>
    bcore t = bcore (s\<lparr>lh_n := int (hdr_n h), lh_block := hdr_blocks h (lh_block s)\<rparr>)"
proof -
  have g: "bgood c p s" and dev: "log_dev s = 1" and e: "bheld s = {}" "bdirty s = {}"
    and f: "log_fits (disksize s) (log_start s) (log_size s) (hdr_n h) (hdr_block h)"
    using b by (simp_all add: booted_def header_ok_def h_def)
  have cr: "can_read (log_start s) (bcache p s)"
    using f e by (simp add: can_read_def log_fits_def NBUF_def MAXOPBLOCKS_def)
  obtain i t where t: "bread 1 (log_start s) s = Ok i t" "bgood c p t" "bcache p t = a_read i (log_start s) (bcache p s)"
    "bcore t = bcore s" using bc.rd_ok [OF g cr] by blast
  have d: "buf_data i t = h"
    using bc.getd_ok [OF t(2), of i "log_start s"] t(3) booted_view [OF b]
    by (auto simp: h_def a_read_def simp del: bcache_sel(3))
  let ?n = "int (hdr_n h)" and ?bl = "hdr_blocks h (lh_block s)"
  let ?u = "t\<lparr>lh_n := ?n, lh_block := ?bl\<rparr>"
  have m: "(i, log_start s) \<in> ca_mine (bcache p ?u)" "bgood c p ?u"
    using t(2,3) by (simp_all add: a_read_def del: bcache_sel(3))
  have v: "log_start s \<in> ca_dirty (bcache p ?u) \<or>
      ca_view (bcache p ?u) (log_start s) = ca_disk (bcache p ?u) (log_start s)"
    using t(3) booted_view [OF b] by (simp add: a_read_def)
  obtain u where u: "brelse i ?u = Ok () u" "bgood c p u" "bcache p u = a_release i (log_start s) (bcache p ?u)"
    "bcore u = bcore ?u" using bc.rel_ok [OF m(2,1) v] by blast
  have "bcache p u = bcache p s"
    using u(3) t(3) e(1) bc.read_release_id [OF g, of "log_start s"] by simp
  moreover have "read_head s = Ok () u"
  proof -
    have n: "hdr_n h \<le> LOGSIZE" using f by (simp add: log_fits_def)
    then have i32: "int32 (dec32 h 0) = ?n"
      by (simp add: int32_def hdr_n_def LOGSIZE_def MAXOPBLOCKS_def)
    have bl: "(\<lambda>j. if j < hdr_n h then dec32 (buf_data i t) (4 + 4 * j) else lh_block t j) = ?bl"
      using bcore_log [OF t(4)] d by (auto simp: hdr_blocks_def hdr_block_def fun_eq_iff)
    show ?thesis
      using t(1) u(1) n by (simp add: read_head_def dev Let_def bl) (simp add: d i32 bl)
  qed
  ultimately show ?thesis using u(2,4) bcore_lh [OF t(4)] by auto
qed

lemma log_fits_hdr:
  "log_fits sz st area (hdr_n h) (hdr_block h) \<Longrightarrow> log_fits sz st area (hdr_n h) (hdr_blocks h bl)"
  by (rule log_fits_cong) (simp_all add: hdr_blocks_def)

lemma recover_ok:
  assumes b: "booted c p s"
  shows "\<exists>t h0. recover_from_log s = Ok () t \<and> bgood c p t \<and> lh_n t = 0 \<and> hdr_n h0 = 0 \<and>
    bcache p t = a_commit (recovery_writes (log_start s) (memdisk s) h0) (bcache p s)"
proof -
  let ?h = "memdisk s (log_start s)" and ?st = "log_start s"
  let ?n = "hdr_n ?h" and ?bl = "hdr_blocks ?h (lh_block s)"
  let ?s1 = "s\<lparr>lh_n := int ?n, lh_block := ?bl\<rparr>"
  have f: "log_fits (disksize s) ?st (log_size s) ?n (hdr_block ?h)"
    and sz: "disksize s < 4294967296" and e0: "bheld s = {}" "bdirty s = {}"
    using b by (simp_all add: booted_def header_ok_def)
  obtain s1 where 1: "read_head s = Ok () s1" "bgood c p s1" "bcache p s1 = bcache p s" "bcore s1 = bcore ?s1"
    using read_head_ok [OF b] by blast
  have l1: "log_start s1 = ?st" "log_size s1 = log_size s" "lh_n s1 = int ?n" "lh_block s1 = ?bl"
    "log_dev s1 = 1" "disksize s1 = disksize s"
    using bcore_log [OF 1(4)] b by (simp_all add: booted_def)
  have e1: "bheld s1 = {}" "bdirty s1 = {}" "bview s1 = memdisk s"
    using bcache_sel(1,2,4) [of p s1, unfolded 1(3), symmetric] e0 booted_view [OF b] by simp_all
  have r1: "log_ready c p s1"
    using 1(2) l1 e1 sz log_fits_hdr [OF f] by (simp add: log_ready_def NBUF_def MAXOPBLOCKS_def)
  obtain s2 where 2: "install_trans s1 = Ok () s2" "bgood c p s2" "bcore s2 = bcore s1"
    "bcache p s2 = a_installed ?st ?n ?bl (bcache p s)"
    using install_trans_ok [OF r1] l1 1(3) by auto
  let ?u = "s2\<lparr>lh_n := 0\<rparr>"
  have e2: "bheld s2 = {}" "bdirty s2 = {}"
    using bcache_sel(1,2,4) [of p s2, unfolded 2(4), symmetric] e0 by (simp_all add: a_installed_def)
  have l2: "log_start s2 = ?st" "log_size s2 = log_size s" "lh_block s2 = ?bl" "log_dev s2 = 1"
    "disksize s2 = disksize s" using bcore_log [OF 2(3)] l1 by simp_all
  have r2: "log_ready c p ?u"
    using 2(2) l2 e2 sz f by (simp add: log_ready_def NBUF_def MAXOPBLOCKS_def log_fits_def)
  let ?z = "head_bytes 0 ?bl (bview s2 ?st)"
  obtain s3 where 3: "write_head ?u = Ok () s3" "bgood c p s3" "bcore s3 = bcore ?u"
    "bcache p s3 = a_write ?st (a_set ?st ?z (bcache p s2))"
    using write_head_ok [OF r2] l2 by auto
  have h0: "hdr_n ?z = 0" using hdr_head_bytes(1) [of 0 "bview s2 ?st" ?bl] 2(2)
    by (simp add: bgood_def length_bview)
  have i: "installs ?st ?n ?bl (memdisk s) = installs ?st ?n (hdr_block ?h) (memdisk s)"
    by (simp add: installs_def hdr_blocks_def)
  have "bcache p s3 = a_commit (recovery_writes ?st (memdisk s) ?z) (bcache p s)"
    using 3(4) 2(4) e0 booted_view [OF b]
    by (simp add: a_commit_def a_installed_def recovery_writes_def a_write_def a_set_def i)
  moreover have "recover_from_log s = Ok () s3" using 1 2 3 by (simp add: recover_from_log_def)
  moreover have "lh_n s3 = 0" using bcore_log [OF 3(3)] by simp
  ultimately show ?thesis using 3(2) h0 by blast
qed

lemma recover_disk:
  assumes b: "booted c p s"
  shows "\<exists>t. recover_from_log s = Ok () t \<and>
    (\<forall>x. x \<notin> {log_start s..<log_start s + log_size s} \<longrightarrow>
      memdisk t x = recovered (log_start s) (memdisk s) x)"
proof -
  obtain t h0 where t: "recover_from_log s = Ok () t"
    "bcache p t = a_commit (recovery_writes (log_start s) (memdisk s) h0) (bcache p s)"
    using recover_ok [OF b] by blast
  have "0 < log_size s" using b by (simp add: booted_def header_ok_def log_fits_def)
  then have "\<forall>x. x \<notin> {log_start s..<log_start s + log_size s} \<longrightarrow>
      memdisk t x = recovered (log_start s) (memdisk s) x"
    using bcache_sel(5) [of p t, unfolded t(2), symmetric]
    by (auto simp: a_commit_def recovery_writes_def recovered_def)
  with t(1) show ?thesis by blast
qed

section \<open>Atomicity\<close>

definition log_area :: "'z lstate_scheme \<Rightarrow> nat set" where
  "log_area s = {log_start s..<log_start s + log_size s}"

text \<open>State \<open>u\<close> is a system started after a crash that left disk \<open>d\<close>.\<close>

definition rebooted :: "nat \<Rightarrow> nat \<Rightarrow> disk \<Rightarrow> 'z lstate_scheme \<Rightarrow> 'z lstate_scheme \<Rightarrow> bool" where
  "rebooted c p d s u \<longleftrightarrow> bgood c p u \<and> bheld u = {} \<and> bdirty u = {} \<and> memdisk u = d \<and>
     log_start u = log_start s \<and> log_size u = log_size s \<and> disksize u = disksize s \<and> log_dev u = 1"

lemma rebooted_recovers:
  assumes "rebooted c p d s u" "header_ok (disksize s) (log_start s) (log_size s) d" "disksize s < 4294967296"
  shows "\<exists>v. recover_from_log u = Ok () v \<and>
    (\<forall>b. b \<notin> log_area s \<longrightarrow> memdisk v b = recovered (log_start s) d b)"
proof -
  have "booted c p u" using assms by (simp add: rebooted_def booted_def)
  from recover_disk [OF this] show ?thesis using assms(1) by (simp add: rebooted_def log_area_def)
qed

lemma commit_header:
  assumes r: "log_ready c p s"
  defines "h \<equiv> head_bytes (lh_n s) (lh_block s) (bview s (log_start s))"
  shows "hdr_n h = nat (lh_n s)" "\<And>t. t < nat (lh_n s) \<Longrightarrow> hdr_block h t = lh_block s t"
    "hdr_n (head_bytes 0 (lh_block s) h) = 0"
proof -
  have l: "length (bview s (log_start s)) = BSIZE" using r by (simp add: log_ready_def bgood_def length_bview)
  note n = log_ready_len [OF r]
  have b: "\<forall>t<nat (lh_n s). lh_block s t < 4294967296" using r by (auto simp: log_ready_def log_fits_def)
  show "hdr_n h = nat (lh_n s)" "\<And>t. t < nat (lh_n s) \<Longrightarrow> hdr_block h t = lh_block s t"
    using hdr_head_bytes [OF _ _ l b] n by (auto simp: h_def)
  have "length h = BSIZE" using n l by (simp add: h_def length_head_bytes)
  then show "hdr_n (head_bytes 0 (lh_block s) h) = 0" using hdr_head_bytes(1) [of 0 h] by simp
qed

text \<open>C1. A commit is atomic under crashes: cut its disk writes after any prefix, restart, and
  recovery succeeds and leaves the home blocks either all as they were before the
  transaction or all as the transaction made them. Uncut, the commit makes the second true.\<close>

theorem commit_crash_atomic:
  assumes "log_ready c p s" "0 < lh_n s" "bdirty s = lh_block s ` {0..<nat (lh_n s)}"
    "hdr_n (memdisk s (log_start s)) = 0"
  shows "\<exists>t ws. commit s = Ok () t \<and> disk_log t = disk_log s @ ws \<and>
    memdisk t = apply_writes (memdisk s) ws \<and>
    (\<forall>b. b \<notin> log_area s \<longrightarrow> memdisk t b = bview s b) \<and>
    (\<forall>k c' p' u. rebooted c' p' (apply_writes (memdisk s) (take k ws)) s u \<longrightarrow>
      (\<exists>v. recover_from_log u = Ok () v \<and>
        ((\<forall>b. b \<notin> log_area s \<longrightarrow> memdisk v b = memdisk s b) \<or>
         (\<forall>b. b \<notin> log_area s \<longrightarrow> memdisk v b = bview s b))))"
proof -
  let ?h = "head_bytes (lh_n s) (lh_block s) (bview s (log_start s))"
  let ?z = "head_bytes 0 (lh_block s) ?h"
  let ?st = "log_start s" and ?n = "nat (lh_n s)" and ?bl = "lh_block s"
  let ?ws = "commit_writes ?st ?n ?bl (bview s) ?h ?z"
  have f: "log_fits (disksize s) ?st (log_size s) ?n ?bl" and sz: "disksize s < 4294967296"
    and g: "bgood c p s" and e: "bheld s = {}"
    using assms(1) by (simp_all add: log_ready_def)
  have n: "0 < ?n" using assms(2) by simp
  have v: "memdisk s b = bview s b" if "b \<notin> ?bl ` {0..<?n}" for b
    using bview_clean [of s b] g e that assms(3) by (simp add: bgood_def)
  have pre: "header_ok (disksize s) ?st (log_size s) d \<and>
      ((\<forall>b. b \<notin> log_area s \<longrightarrow> recovered ?st d b = memdisk s b) \<or>
       (\<forall>b. b \<notin> log_area s \<longrightarrow> recovered ?st d b = bview s b))"
    if "d = apply_writes (memdisk s) (take k ?ws)" for d k
    unfolding log_area_def by (rule commit_prefix [OF f n assms(4) commit_header [OF assms(1)] _ that]) (simp_all add: v)
  obtain t where t: "commit s = Ok () t" "bcache p t = a_commit ?ws (bcache p s)"
    using commit_ok [OF assms(1-3)] by blast
  have d: "disk_log t = disk_log s @ ?ws" "memdisk t = apply_writes (memdisk s) ?ws"
    using bcache_sel(5,6) [of p t, unfolded t(2), symmetric] by (simp_all add: a_commit_def)
  have "\<exists>v. recover_from_log u = Ok () v \<and>
        ((\<forall>b. b \<notin> log_area s \<longrightarrow> memdisk v b = memdisk s b) \<or>
         (\<forall>b. b \<notin> log_area s \<longrightarrow> memdisk v b = bview s b))"
    if u: "rebooted c' p' (apply_writes (memdisk s) (take k ?ws)) s u" for k c' p' u
    using rebooted_recovers [OF u _ sz] pre [OF refl, of k] by auto
  moreover have "memdisk t b = bview s b" if "b \<notin> log_area s" for b
    using commit_done [OF f v] that d(2) by (simp add: log_area_def)
  ultimately show ?thesis using t(1) d by blast
qed

text \<open>C2. Recovery can itself be cut by a crash, after any of its writes: the restarted recovery
  succeeds and leaves every home block as the uncut recovery would have.\<close>

theorem recovery_crash_idempotent:
  assumes b: "booted c p s"
  shows "\<exists>t ws. recover_from_log s = Ok () t \<and> disk_log t = disk_log s @ ws \<and>
    (\<forall>k c' p' u. rebooted c' p' (apply_writes (memdisk s) (take k ws)) s u \<longrightarrow>
      (\<exists>v. recover_from_log u = Ok () v \<and> (\<forall>b. b \<notin> log_area s \<longrightarrow> memdisk v b = memdisk t b)))"
proof -
  have sz: "disksize s < 4294967296" and h: "header_ok (disksize s) (log_start s) (log_size s) (memdisk s)"
    using b by (simp_all add: booted_def)
  obtain t z where t: "recover_from_log s = Ok () t" "hdr_n z = 0"
    "bcache p t = a_commit (recovery_writes (log_start s) (memdisk s) z) (bcache p s)"
    using recover_ok [OF b] by blast
  have d: "disk_log t = disk_log s @ recovery_writes (log_start s) (memdisk s) z"
    using bcache_sel(6) [of p t, unfolded t(3), symmetric] by (simp add: a_commit_def)
  have m: "memdisk t x = recovered (log_start s) (memdisk s) x" if "x \<notin> log_area s" for x
    using recover_disk [OF b] t(1) that by (auto simp: log_area_def)
  note pre = recovery_prefix [OF h t(2) refl]
  have "\<exists>v. recover_from_log u = Ok () v \<and> (\<forall>b. b \<notin> log_area s \<longrightarrow> memdisk v b = memdisk t b)"
    if u: "rebooted c' p' (apply_writes (memdisk s) (take k (recovery_writes (log_start s) (memdisk s) z))) s u"
    for k c' p' u
    using rebooted_recovers [OF u _ sz] pre [of k] m by (auto simp: log_area_def)
  then show ?thesis using t(1) d by blast
qed

end
