(* ===== verification/Sample_State.thy ===== *)
theory Sample_State
  imports Log
begin

text \<open>
  A concrete machine for the examples: one CPU running process 0, all locks free, the
  buffers as \<open>binit\<close> leaves them, over a given disk of 1000 blocks whose log is at
  block 2.
\<close>

definition zero_block :: "u8 list" where "zero_block = replicate 512 0"

definition zero_buf :: buf where
  "zero_buf = \<lparr>b_valid = False, b_dirty = False, b_dev = 0, b_blockno = 0, b_refcnt = 0,
     b_prev = 0, b_next = 0, b_data = zero_block\<rparr>"

definition busy_cpu :: cpu where
  "busy_cpu = \<lparr>c_apicid = 0, c_started = True, c_ncli = 0, c_intena = True, c_proc = Some 0\<rparr>"

definition raw_machine :: "disk \<Rightarrow> 'z \<Rightarrow> 'z lstate_scheme" where
  "raw_machine d z = \<lparr>lapic_id = 0, eflags_if = (\<lambda>_. True), ncpu = 1, cpus = (\<lambda>_. busy_cpu),
     locks = (\<lambda>_. free_spinlock), slocks = (\<lambda>_. free_sleeplock),
     procs = (\<lambda>_. zero_proc)(0 := zero_proc\<lparr>p_state := RUNNING, p_pid := 1\<rparr>),
     initproc = None, nextpid = 2, bufs = (\<lambda>_. zero_buf), memdisk = d, disksize = 1000,
     disk_log = [], log_start = 2, log_size = 30, log_outstanding = 0, log_committing = False,
     log_dev = 1, lh_n = 0, lh_block = (\<lambda>_. 0), \<dots> = z\<rparr>"

definition machine :: "disk \<Rightarrow> 'z \<Rightarrow> 'z lstate_scheme" where
  "machine d z = binit (raw_machine d z)"

definition blocks_ok :: "disk \<Rightarrow> bool" where "blocks_ok d \<longleftrightarrow> (\<forall>b. length (d b) = BSIZE)"

lemma raw_machine_ready:
  "blocks_ok d \<Longrightarrow> raw_bufs (raw_machine d z) \<and> (\<forall>b. length (memdisk (raw_machine d z) b) = BSIZE) \<and>
   (\<forall>i. no_waiter (BufLock i) (procs (raw_machine d z)))"
  by (simp add: raw_bufs_def raw_machine_def zero_buf_def zero_block_def blocks_ok_def no_waiter_def
      zero_proc_def BSIZE_def)

text \<open>\<open>binit\<close> changes the locks and the buffers, nothing else.\<close>

definition cache_mask :: "'z bstate_scheme \<Rightarrow> 'z bstate_scheme" where
  "cache_mask s = s\<lparr>locks := (\<lambda>_. free_spinlock), slocks := (\<lambda>_. free_sleeplock), bufs := (\<lambda>_. null_buf)\<rparr>"

lemma cache_mask_upd:
  "cache_mask (upd_buf i f s) = cache_mask s" "cache_mask (initsleeplock sl nm s) = cache_mask s"
  "cache_mask (initlock l nm s) = cache_mask s"
  by (cases s, simp add: cache_mask_def upd_buf_def initsleeplock_def initlock_def upd_slock_def upd_lock_def)+

lemma binit_mask: "cache_mask (binit s) = cache_mask s"
proof -
  have "cache_mask (fold (\<lambda>b s. initsleeplock (BufLock b) ''buffer'' (list_push b s)) xs s) = cache_mask s"
    for xs and s :: "'a bstate_scheme"
    by (induction xs arbitrary: s) (simp_all add: cache_mask_upd list_push_def Let_def)
  then show ?thesis by (simp add: binit_def cache_mask_upd)
qed

lemma binit_runs: "runs c p s \<Longrightarrow> runs c p (binit s)"
proof -
  have f: "runs c p s \<Longrightarrow> runs c p (initsleeplock (BufLock b) ''buffer'' (list_push b s))"
    for b and s :: "'a bstate_scheme"
    by (simp add: list_push_def upd_buf_def Let_def initsleeplock_def initlock_def upd_slock_def
        upd_lock_def runs_def calm_def steady_def lk_free_def)
  have "runs c p s \<Longrightarrow> runs c p (fold (\<lambda>b s. initsleeplock (BufLock b) ''buffer'' (list_push b s)) xs s)"
    for xs and s :: "'a bstate_scheme"
    by (induction xs arbitrary: s) (simp_all add: f)
  moreover assume "runs c p s"
  then have "runs c p (upd_buf NBUF (\<lambda>r. r\<lparr>b_prev := NBUF, b_next := NBUF\<rparr>) (initlock BcacheLock ''bcache'' s))"
    by (simp add: upd_buf_def initlock_def upd_lock_def runs_def calm_def steady_def lk_free_def)
  ultimately show ?thesis unfolding binit_def by blast
qed

lemma runs_raw_machine: "runs 0 0 (raw_machine d z)"
  by (simp add: runs_def calm_def steady_def lk_free_def raw_machine_def cpu_lookup_def busy_cpu_def
      free_spinlock_def)

lemma machine_fields:
  "memdisk (machine d z) = d" "disksize (machine d z) = 1000" "disk_log (machine d z) = []"
  "log_start (machine d z) = 2" "log_size (machine d z) = 30" "log_outstanding (machine d z) = 0"
  "\<not> log_committing (machine d z)" "log_dev (machine d z) = 1" "lh_n (machine d z) = 0"
  "lstate.more (machine d z) = z"
proof -
  have m: "cache_mask (machine d z) = cache_mask (raw_machine d z)" by (simp add: machine_def binit_mask)
  have f: "memdisk (cache_mask u) = memdisk u" "disksize (cache_mask u) = disksize u"
    "disk_log (cache_mask u) = disk_log u" "log_start (cache_mask u) = log_start u"
    "log_size (cache_mask u) = log_size u" "log_outstanding (cache_mask u) = log_outstanding u"
    "log_committing (cache_mask u) = log_committing u" "log_dev (cache_mask u) = log_dev u"
    "lh_n (cache_mask u) = lh_n u" "lstate.more (cache_mask u) = lstate.more u" for u :: "'a lstate_scheme"
    by (simp_all add: cache_mask_def)
  show "memdisk (machine d z) = d" "disksize (machine d z) = 1000" "disk_log (machine d z) = []"
    "log_start (machine d z) = 2" "log_size (machine d z) = 30" "log_outstanding (machine d z) = 0"
    "\<not> log_committing (machine d z)" "log_dev (machine d z) = 1" "lh_n (machine d z) = 0"
    "lstate.more (machine d z) = z"
    using f [of "machine d z", unfolded m] by (simp_all add: f) (simp_all add: raw_machine_def)
qed

lemma machine_good:
  assumes "blocks_ok d"
  shows "bgood 0 0 (machine d z)" "bheld (machine d z) = {}" "bdirty (machine d z) = {}"
  using binit_inv [of "raw_machine d z"] raw_machine_ready [OF assms, of z]
    binit_runs [OF runs_raw_machine, of d z] by (simp_all add: machine_def bgood_def)

lemma zero_disk_ok: "blocks_ok (\<lambda>_. zero_block)"
  by (simp add: blocks_ok_def zero_block_def BSIZE_def)

end
