(* ===== verification/Log_Txn.thy ===== *)
theory Log_Txn
  imports Log_Spec Sample_State
begin

text \<open>
  The log as the file system sees it: opening and closing transactions, and recording
  changed blocks in the open transaction. \<open>txn\<close> is the state of a process inside a
  transaction; the interpretation \<open>tx\<close> discharges the contract of transactions for
  \<open>log_write\<close>.
\<close>

section \<open>Inside a transaction\<close>

definition logged :: "'z lstate_scheme \<Rightarrow> nat set" where
  "logged s = lh_block s ` {0..<nat (lh_n s)}"

definition log_sound :: "nat \<Rightarrow> nat \<Rightarrow> 'z lstate_scheme \<Rightarrow> bool" where
  "log_sound c p s \<longleftrightarrow> bgood c p s \<and> log_dev s = 1 \<and> 0 \<le> lh_n s \<and>
     log_fits (disksize s) (log_start s) (log_size s) (nat (lh_n s)) (lh_block s) \<and>
     bdirty s = logged s \<and> disksize s < 4294967296 \<and> log_size s \<le> NBUF \<and>
     hdr_n (memdisk s (log_start s)) = 0"

definition txn :: "nat \<Rightarrow> nat \<Rightarrow> 'z lstate_scheme \<Rightarrow> bool" where
  "txn c p s \<longleftrightarrow> log_sound c p s \<and> 1 \<le> log_outstanding s"

definition lcore :: "'z lstate_scheme \<Rightarrow> 'z lstate_scheme \<times> (nat \<Rightarrow> sleeplock)" where
  "lcore s = ((fst (bcore s))\<lparr>lh_n := 0, lh_block := (\<lambda>_. 0)\<rparr>, snd (bcore s))"

definition log_lim :: "'z lstate_scheme \<Rightarrow> nat" where
  "log_lim s = min LOGSIZE (log_size s - 1)"

lemma lcore_bcore: "bcore t = bcore s \<Longrightarrow> lcore t = lcore s"
  by (simp add: lcore_def)

lemma lcore_log:
  fixes s :: "'z lstate_scheme"
  assumes "lcore t = lcore s"
  shows "log_start t = log_start s" "log_size t = log_size s" "log_outstanding t = log_outstanding s"
    "log_committing t = log_committing s" "log_dev t = log_dev s" "procs t = procs s" "disksize t = disksize s"
proof -
  have e: "fst (lcore t) = fst (lcore s)" using assms by simp
  have "log_start (fst (lcore u)) = log_start u" "log_size (fst (lcore u)) = log_size u"
    "log_outstanding (fst (lcore u)) = log_outstanding u" "log_committing (fst (lcore u)) = log_committing u"
    "log_dev (fst (lcore u)) = log_dev u" "procs (fst (lcore u)) = procs u"
    "disksize (fst (lcore u)) = disksize u" for u :: "'z lstate_scheme"
    by (simp_all add: lcore_def bcore_def)
  with e show "log_start t = log_start s" "log_size t = log_size s" "log_outstanding t = log_outstanding s"
    "log_committing t = log_committing s" "log_dev t = log_dev s" "procs t = procs s" "disksize t = disksize s"
    by metis+
qed

lemma txn_step:
  assumes "txn c p s" "bgood c p t" "bcore t = bcore s" "bdirty t = bdirty s" "memdisk t = memdisk s"
  shows "txn c p t"
  using assms bcore_log [OF assms(3)] by (simp add: txn_def log_sound_def logged_def)

lemma txn_bgood: "txn c p s \<Longrightarrow> bgood c p s"
  by (simp add: txn_def log_sound_def)

lemma txn_abs_step:
  assumes "txn c p s" "bgood c p t" "bcore t = bcore s" "bcache p t = a"
    "ca_dirty a = bdirty s" "ca_disk a = memdisk s"
  shows "txn c p t \<and> lcore t = lcore s"
  using txn_step [OF assms(1-3)] bcache_sel(4,5) [of p t] assms(4-6) lcore_bcore [OF assms(3)] by simp

lemma txn_dirty_card: "log_sound c p s \<Longrightarrow> card (bdirty s) = nat (lh_n s)"
  by (simp add: log_sound_def logged_def log_fits_def card_image)

section \<open>Recording a block\<close>

definition log_record :: "nat \<Rightarrow> 'z lstate_scheme \<Rightarrow> 'z lstate_scheme" where
  "log_record b s =
     (let i = log_slot (lh_n s) (lh_block s) b
      in s\<lparr>lh_n := (if int i = lh_n s then lh_n s + 1 else lh_n s), lh_block := (lh_block s)(i := b)\<rparr>)"

lemma log_slot_new: "0 \<le> n \<Longrightarrow> b \<notin> bl ` {0..<nat n} \<Longrightarrow> log_slot n bl b = nat n"
  by (auto simp: log_slot_def find_None_iff split: option.splits dest!: find_SomeD)

lemma log_slot_old: "b \<in> bl ` {0..<nat n} \<Longrightarrow> log_slot n bl b < nat n \<and> bl (log_slot n bl b) = b"
  by (auto simp: log_slot_def find_None_iff split: option.splits dest!: find_SomeD)

lemma log_record_new:
  "0 \<le> lh_n s \<Longrightarrow> b \<notin> logged s \<Longrightarrow>
   log_record b s = s\<lparr>lh_n := lh_n s + 1, lh_block := (lh_block s)(nat (lh_n s) := b)\<rparr>"
  by (simp add: log_record_def log_slot_new logged_def)

lemma log_record_old: "b \<in> logged s \<Longrightarrow> log_record b s = s"
  using log_slot_old [of b "lh_block s" "lh_n s"]
  by (cases s) (auto simp: log_record_def logged_def Let_def)

lemma log_fits_add:
  assumes "log_fits sz st area n bl" "b \<notin> bl ` {0..<n}" "n + 1 < area" "n + 1 \<le> LOGSIZE"
    "b < sz" "b \<notin> {st..<st + area}"
  shows "log_fits sz st area (Suc n) (bl(n := b))"
  using assms unfolding log_fits_def by (auto simp: inj_on_def less_Suc_eq)

lemma acq_log: "acq l c (s\<lparr>lh_n := n\<rparr>) = (acq l c s)\<lparr>lh_n := n\<rparr>"
  "acq l c (s\<lparr>lh_block := bl\<rparr>) = (acq l c s)\<lparr>lh_block := bl\<rparr>"
  "lh_n (acq l c s) = lh_n s" "lh_block (acq l c s) = lh_block s"
  by (simp_all add: acq_def)

lemma log_write_eq:
  assumes r: "runs c p s" and "lh_n s < int LOGSIZE" "lh_n s < int (log_size s) - 1" "1 \<le> log_outstanding s"
  shows "log_write i s = Ok () (set_dirty i (log_record (buf_blockno i s) s))"
proof -
  let ?t = "set_dirty i (log_record (buf_blockno i s) s)"
  have "runs c p ?t" using r by (simp add: set_dirty_def upd_buf_def log_record_def Let_def)
  then have "release LogLock (acq LogLock c ?t) = Ok () ?t" by (rule release_acq_runs)
  moreover have "acq LogLock c ?t =
      (let s = acq LogLock c s; k = log_slot (lh_n s) (lh_block s) (buf_blockno i s);
           s = s\<lparr>lh_block := (lh_block s)(k := buf_blockno i s)\<rparr>;
           s = (if int k = lh_n s then s\<lparr>lh_n := lh_n s + 1\<rparr> else s)
       in set_dirty i s)"
    by (simp add: Let_def log_record_def set_dirty_def upd_buf_def buf_blockno_def)
       (cases s, simp add: acq_def)
  ultimately show ?thesis
    using assms by (simp add: log_write_def acquire_runs [OF r] Let_def)
qed

lemma logged_new:
  "0 \<le> lh_n s \<Longrightarrow> logged (s\<lparr>lh_n := lh_n s + 1, lh_block := (lh_block s)(nat (lh_n s) := b)\<rparr>) = insert b (logged s)"
proof -
  assume "0 \<le> lh_n s"
  then have "{0..<nat (lh_n s + 1)} = insert (nat (lh_n s)) {0..<nat (lh_n s)}" by auto
  then show ?thesis by (auto simp: logged_def)
qed

lemma lcore_record: "lcore (log_record b s) = lcore s"
  by (cases s) (simp add: log_record_def lcore_def bcore_def Let_def)

lemma bcache_record [simp]: "bcache p (log_record b s) = bcache p s" "bgood c p (log_record b s) = bgood c p s"
  by (simp_all add: log_record_def Let_def)

lemma set_dirty_log [simp]:
  "lh_n (set_dirty i s) = lh_n s" "lh_block (set_dirty i s) = lh_block s" "log_start (set_dirty i s) = log_start s"
  "log_size (set_dirty i s) = log_size s" "log_dev (set_dirty i s) = log_dev s"
  "log_outstanding (set_dirty i s) = log_outstanding s" "disksize (set_dirty i s) = disksize s"
  "memdisk (set_dirty i s) = memdisk s"
  by (simp_all add: set_dirty_def upd_buf_def)

lemma log_record_log [simp]:
  "log_start (log_record b s) = log_start s" "log_size (log_record b s) = log_size s"
  "log_dev (log_record b s) = log_dev s" "log_outstanding (log_record b s) = log_outstanding s"
  "disksize (log_record b s) = disksize s" "memdisk (log_record b s) = memdisk s"
  by (simp_all add: log_record_def Let_def)

text \<open>The record and the pinned blocks stay in step.\<close>

lemma log_record_sound:
  assumes "0 \<le> lh_n s" "log_fits (disksize s) (log_start s) (log_size s) (nat (lh_n s)) (lh_block s)"
    and "b < disksize s" "b \<notin> log_area s" "nat (lh_n s) < log_lim s"
  defines "t \<equiv> log_record b s"
  shows "0 \<le> lh_n t" "log_fits (disksize s) (log_start s) (log_size s) (nat (lh_n t)) (lh_block t)"
    "logged t = insert b (logged s)"
proof -
  have "0 \<le> lh_n t \<and> log_fits (disksize s) (log_start s) (log_size s) (nat (lh_n t)) (lh_block t) \<and>
      logged t = insert b (logged s)"
  proof (cases "b \<in> logged s")
    case True
    then show ?thesis using assms(1,2) by (simp add: t_def log_record_old insert_absorb)
  next
    case False
    have "log_fits (disksize s) (log_start s) (log_size s) (Suc (nat (lh_n s))) ((lh_block s)(nat (lh_n s) := b))"
      using log_fits_add [OF assms(2), of b] False assms(3-5) by (auto simp: logged_def log_area_def log_lim_def)
    then show ?thesis
      using False assms(1) logged_new [of s b] by (simp add: t_def log_record_new Suc_nat_eq_nat_zadd1 add.commute)
  qed
  then show "0 \<le> lh_n t" "log_fits (disksize s) (log_start s) (log_size s) (nat (lh_n t)) (lh_block t)"
    "logged t = insert b (logged s)" by simp_all
qed

lemma log_write_txn:
  assumes x: "txn c p s" and m: "holds_buf p i b s" and b: "b < disksize s" "b \<notin> log_area s"
    and n: "card (bdirty s) < log_lim s"
  shows "\<exists>t. log_write i s = Ok () t \<and> txn c p t \<and> bcache p t = a_pin b (bcache p s) \<and> lcore t = lcore s"
proof -
  have s: "log_sound c p s" "bgood c p s" "runs c p s" "0 \<le> lh_n s" "1 \<le> log_outstanding s"
    "log_fits (disksize s) (log_start s) (log_size s) (nat (lh_n s)) (lh_block s)"
    using x by (simp_all add: txn_def log_sound_def bgood_def)
  have k: "nat (lh_n s) < log_lim s" using n txn_dirty_card [OF s(1)] by simp
  let ?t = "set_dirty i (log_record b s)"
  have "buf_blockno i s = b" using m by (simp add: holds_buf_def caches_def buf_blockno_def)
  moreover have "lh_n s < int LOGSIZE" "lh_n s < int (log_size s) - 1"
    using k s(4) unfolding log_lim_def by linarith+
  ultimately have w: "log_write i s = Ok () ?t" using log_write_eq [OF s(3) _ _ s(5), of i] by simp
  have "(i, b) \<in> ca_mine (bcache p (log_record b s))" using m bcache_sel(3) [of i b p s] by simp
  then have g: "bgood c p ?t" "bcache p ?t = a_pin b (bcache p s)" "bcore ?t = bcore (log_record b s)"
    using bc.pin_ok [of c p "log_record b s" i b] s(2) by simp_all
  have "bdirty ?t = insert b (bdirty s)"
    using bcache_sel(4) [of p ?t, unfolded g(2), symmetric] by (simp add: a_pin_def)
  moreover have "logged ?t = logged (log_record b s)" by (simp add: logged_def)
  ultimately have "txn c p ?t"
    using log_record_sound [OF s(4,6) b k] g(1) x by (simp add: txn_def log_sound_def)
  then show ?thesis
    using w g lcore_bcore [OF g(3)] by (auto simp: lcore_record)
qed

interpretation tx: block_txn "bread 1" brelse buf_data set_data "txn c p" "bcache p" lcore
    log_write log_lim log_area for c p
proof (unfold_locales, goal_cases)
  case (1 s b)
  then obtain i t where t: "bread 1 b s = Ok i t" "bgood c p t" "bcache p t = a_read i b (bcache p s)" "bcore t = bcore s"
    using bc.rd_ok [OF txn_bgood] by blast
  then show ?case using txn_abs_step [OF 1(1) t(2,4,3)] by (auto simp: a_read_def)
next
  case (2 s i b)
  then show ?case by (intro bc.getd_ok [OF txn_bgood])
next
  case (3 s i b d)
  note t = bc.setd_ok [OF txn_bgood [OF 3(1)] 3(2,3)]
  then show ?case using txn_abs_step [OF 3(1), of "set_data i d s"] by (simp add: a_set_def)
next
  case (4 s i b)
  then obtain t where t: "brelse i s = Ok () t" "bgood c p t" "bcache p t = a_release i b (bcache p s)" "bcore t = bcore s"
    using bc.rel_ok [OF txn_bgood] by blast
  then show ?case using txn_abs_step [OF 4(1) t(2,4,3)] by (auto simp: a_release_def)
next
  case (5 s i b)
  then show ?case by (intro bc.mine_held [OF txn_bgood])
next
  case (6 s b)
  then show ?case by (intro bc.clean [OF txn_bgood])
next
  case (7 s b)
  then show ?case by (intro bc.view_length [OF txn_bgood])
next
  case (8 s i b)
  then show ?case using log_write_txn [of c p s i b] by simp
next
  case (9 t s)
  then show ?case using lcore_log [OF 9] by (simp add: log_lim_def log_area_def)
qed

section \<open>Opening a transaction\<close>

lemma acq_outstanding:
  "(acq l c s)\<lparr>log_outstanding := k\<rparr> = acq l c (s\<lparr>log_outstanding := k\<rparr>)"
  "(acq l c s)\<lparr>log_committing := b\<rparr> = acq l c (s\<lparr>log_committing := b\<rparr>)"
  "log_outstanding (acq l c s) = log_outstanding s" "log_committing (acq l c s) = log_committing s"
  by (simp_all add: acq_def)

lemma begin_op_go:
  assumes "runs c p s" "\<not> log_committing s"
    "lh_n s + (log_outstanding s + 1) * int MAXOPBLOCKS \<le> int LOGSIZE"
  shows "begin_op s = Ok () (s\<lparr>log_outstanding := log_outstanding s + 1\<rparr>)"
  using assms by (simp add: begin_op_def acquire_runs begin_op_loop_def acq_outstanding acq_log release_acq_runs)

lemma begin_op_wait:
  assumes r: "runs c p s"
    and w: "log_committing s \<or> lh_n s + (log_outstanding s + 1) * int MAXOPBLOCKS > int LOGSIZE"
  shows "begin_op s = Swtch (acq PtableLock c
    (upd_proc p (\<lambda>r. r\<lparr>p_chan := Some ChanLog, p_state := SLEEPING\<rparr>) s))"
proof -
  have "sleep ChanLog LogLock (acq LogLock c s) = Swtch (acq PtableLock c
    (upd_proc p (\<lambda>r. r\<lparr>p_chan := Some ChanLog, p_state := SLEEPING\<rparr>) s))"
    using r runs_steady [OF r] runs_free [OF r] by (intro sleep_switches) (simp_all add: runs_def calm_def)
  then show ?thesis
    using w by (auto simp: begin_op_def acquire_runs [OF r] begin_op_loop_def acq_outstanding acq_log)
qed

section \<open>Closing a transaction\<close>

lemma runs_wakeup [simp]: "runs c p (wakeup1 ch s) = runs c p s"
  by (simp add: wakeup1_eq)

lemma no_waiter_woken: "no_waiter sl ps \<Longrightarrow> no_waiter sl (woken_procs ch n ps)"
  by (simp add: no_waiter_def woken_procs_def woken_def)

lemma bcache_wakeup [simp]: "bcache p (wakeup1 ch s) = bcache p s"
proof -
  have "bview (wakeup1 ch s) = bview s"
    by (rule ext) (simp add: bview_def caches_def wakeup1_eq split: option.splits)
  then show ?thesis
    by (simp add: bcache_def bheld_def bdirty_def holds_buf_def caches_def buf_locked_def) (simp add: wakeup1_eq)
qed

lemma binv_procs:
  assumes v: "binv s" and w: "\<And>i. no_waiter (BufLock i) ps"
  shows "binv (s\<lparr>procs := ps\<rparr>)"
  unfolding binv_def
proof (intro conjI allI impI)
  obtain l where "lru s l" using v by (rule binv_lruE)
  then show "\<exists>l. lru (s\<lparr>procs := ps\<rparr>) l" by (auto simp: lru_def)
next
  fix i b j assume "caches (s\<lparr>procs := ps\<rparr>) i b \<and> caches (s\<lparr>procs := ps\<rparr>) j b"
  then show "i = j" using binv_unique [OF v, of i b j] by (simp add: caches_def)
qed (use binv_buf_ok [OF v] binv_disk [OF v] w in simp_all)

lemma bgood_wakeup: "bgood c p s \<Longrightarrow> bgood c p (wakeup1 ch s)"
  by (simp add: bgood_def) (simp add: wakeup1_eq binv_procs binv_no_waiter no_waiter_woken)

lemma wakeup_in_lock:
  assumes r: "runs c p s" and l: "l \<noteq> PtableLock"
  shows "wakeup ch (acq l c s) = Ok () (acq l c (wakeup1 ch s))"
proof -
  have "wakeup ch (acq l c s) = Ok () (wakeup1 ch (acq l c s))"
    using runs_steady [OF r] runs_free [OF r, of PtableLock] l
    by (intro wakeup_ok [of c]) (simp_all add: steady_acq lk_free_acq)
  then show ?thesis by (simp add: wakeup1_eq acq_procs)
qed

lemma end_op_more:
  assumes r: "runs c p s" and "\<not> log_committing s" "log_outstanding s \<noteq> 1"
  shows "end_op s = Ok () (wakeup1 ChanLog (s\<lparr>log_outstanding := log_outstanding s - 1\<rparr>))"
  using assms
  by (simp add: end_op_def acquire_runs [OF r] acq_outstanding Let_def wakeup_in_lock [of c p] release_acq_runs)

lemma end_op_last:
  assumes r: "runs c p s" and "\<not> log_committing s" "log_outstanding s = 1"
    and t: "commit (s\<lparr>log_outstanding := 0, log_committing := True\<rparr>) = Ok () t" "runs c p t"
  shows "end_op s = Ok () (wakeup1 ChanLog (t\<lparr>log_committing := False\<rparr>))"
  using assms
  by (simp add: end_op_def acquire_runs [OF r] acq_outstanding Let_def release_acq_runs [of c p]
      acquire_runs [OF t(2)] wakeup_in_lock [of c p])

lemma log_sound_ready:
  "log_sound c p s \<Longrightarrow> bheld s = {} \<Longrightarrow> log_ready c p s"
  using txn_dirty_card [of c p s]
  by (auto simp: log_sound_def log_ready_def logged_def log_fits_def)

lemma commit_sound:
  assumes s: "log_sound c p s" and h: "bheld s = {}"
  shows "\<exists>t. commit s = Ok () t \<and> log_sound c p t \<and> lh_n t = 0 \<and> bcore t = bcore (s\<lparr>lh_n := 0\<rparr>) \<and>
    bheld t = {} \<and> (\<forall>b. b \<notin> log_area s \<longrightarrow> memdisk t b = bview s b \<and> bview t b = bview s b)"
proof (cases "lh_n s = 0")
  case True
  then have e: "s\<lparr>lh_n := 0\<rparr> = s" by (cases s) simp
  have "bcore s = bcore (s\<lparr>lh_n := 0\<rparr>)" by (simp only: e)
  moreover have "bview s b = memdisk s b" for b
    using s h True bview_clean [of s b] by (simp add: log_sound_def logged_def bgood_def)
  ultimately show ?thesis using s h True by (simp add: commit_def)
next
  case False
  have r: "log_ready c p s" by (rule log_sound_ready [OF s h])
  have n: "0 < lh_n s" and d: "bdirty s = lh_block s ` {0..<nat (lh_n s)}" and z: "hdr_n (memdisk s (log_start s)) = 0"
    and g: "bgood c p s" using s False by (auto simp: log_sound_def logged_def)
  have f: "log_fits (disksize s) (log_start s) (log_size s) (nat (lh_n s)) (lh_block s)"
    using s by (simp add: log_sound_def)
  let ?h = "head_bytes (lh_n s) (lh_block s) (bview s (log_start s))"
  let ?z = "head_bytes 0 (lh_block s) ?h"
  let ?ws = "commit_writes (log_start s) (nat (lh_n s)) (lh_block s) (bview s) ?h ?z"
  obtain t where t: "commit s = Ok () t" "bgood c p t" "bcore t = bcore (s\<lparr>lh_n := 0\<rparr>)"
    "bcache p t = a_commit ?ws (bcache p s)"
    using commit_ok [OF r n d] by blast
  have e: "bheld t = {}" "bdirty t = {}" "memdisk t = apply_writes (memdisk s) ?ws" "bview t = apply_writes (bview s) ?ws"
    using bcache_sel(1,2,4,5) [of p t, unfolded t(4), symmetric] h by (simp_all add: a_commit_def)
  have v: "memdisk s b = bview s b" if "b \<notin> lh_block s ` {0..<nat (lh_n s)}" for b
    using bview_clean [of s b] g h that d by (simp add: bgood_def)
  have w: "memdisk t b = bview s b \<and> bview t b = bview s b" if "b \<notin> log_area s" for b
    using that commit_done [OF f, of "memdisk s" "bview s" b] commit_done [OF f, of "bview s" "bview s" b] v e(3,4)
    by (simp add: log_area_def)
  have "memdisk t (log_start s) = ?z" by (simp add: e(3) commit_writes_def)
  then have "log_sound c p t"
    using t(2) bcore_log [OF t(3)] s e(2) commit_header(3) [OF r]
    by (simp add: log_sound_def logged_def log_fits_def)
  then show ?thesis using t e(1) w bcore_log [OF t(3)] by auto
qed

lemma log_sound_upd:
  "log_sound c p (s\<lparr>log_outstanding := k\<rparr>) = log_sound c p s"
  "log_sound c p (s\<lparr>log_committing := b\<rparr>) = log_sound c p s"
  by (simp_all add: log_sound_def logged_def)

lemma wakeup1_log [simp]:
  "log_start (wakeup1 ch s) = log_start s" "log_size (wakeup1 ch s) = log_size s"
  "log_outstanding (wakeup1 ch s) = log_outstanding s" "log_committing (wakeup1 ch s) = log_committing s"
  "log_dev (wakeup1 ch s) = log_dev s" "lh_n (wakeup1 ch s) = lh_n s" "lh_block (wakeup1 ch s) = lh_block s"
  "disksize (wakeup1 ch s) = disksize s" "memdisk (wakeup1 ch s) = memdisk s" "bufs (wakeup1 ch s) = bufs s"
  "slocks (wakeup1 ch s) = slocks s" "disk_log (wakeup1 ch s) = disk_log s"
  by (simp_all add: wakeup1_eq)

lemma bview_wakeup [simp]:
  "bview (wakeup1 ch s) = bview s" "bheld (wakeup1 ch s) = bheld s" "bdirty (wakeup1 ch s) = bdirty s"
  by (simp_all add: bcache_eqD [OF bcache_wakeup])

lemma log_sound_wakeup: "log_sound c p s \<Longrightarrow> log_sound c p (wakeup1 ch s)"
  by (simp add: log_sound_def logged_def bgood_wakeup)

text \<open>C11. The \<open>end_op\<close> of the last outstanding operation commits: it returns, every change
  made in the transaction is on the disk at its home location, the log is empty, and no
  operation is outstanding.\<close>

theorem end_op_commits:
  assumes x: "txn c p s" and "\<not> log_committing s" "log_outstanding s = 1" "bheld s = {}"
  shows "\<exists>t. end_op s = Ok () t \<and> log_sound c p t \<and> lh_n t = 0 \<and> log_outstanding t = 0 \<and>
    \<not> log_committing t \<and> (\<forall>b. b \<notin> log_area s \<longrightarrow> memdisk t b = bview s b \<and> bview t b = bview s b)"
proof -
  let ?s = "s\<lparr>log_outstanding := 0, log_committing := True\<rparr>"
  have "log_sound c p ?s" "bheld ?s = {}" using x assms(4) by (simp_all add: txn_def log_sound_upd)
  then obtain t where t: "commit ?s = Ok () t" "log_sound c p t" "lh_n t = 0" "bcore t = bcore (?s\<lparr>lh_n := 0\<rparr>)"
    "\<forall>b. b \<notin> log_area s \<longrightarrow> memdisk t b = bview s b \<and> bview t b = bview s b"
    using commit_sound [of c p ?s] by (auto simp: log_area_def log_sound_upd)
  let ?t = "wakeup1 ChanLog (t\<lparr>log_committing := False\<rparr>)"
  have r: "runs c p s" "runs c p t" using x t(2) by (simp_all add: txn_def log_sound_def bgood_def)
  have "end_op s = Ok () ?t" by (rule end_op_last [OF r(1) assms(2,3) t(1) r(2)])
  moreover have "log_sound c p ?t" using t(2) by (simp add: log_sound_wakeup log_sound_upd)
  ultimately show ?thesis
    using t(3,5) bcore_log(3) [OF t(4)] by simp
qed

section \<open>A transaction on a concrete machine\<close>

definition ones :: "u8 list" where "ones = replicate 512 1"

definition open_machine :: "disk \<Rightarrow> 'z \<Rightarrow> 'z lstate_scheme" where
  "open_machine d z = (machine d z)\<lparr>log_outstanding := 1\<rparr>"

lemma open_machine_fields:
  "memdisk (open_machine d z) = d" "disksize (open_machine d z) = 1000"
  "log_start (open_machine d z) = 2" "log_size (open_machine d z) = 30" "log_outstanding (open_machine d z) = 1"
  "\<not> log_committing (open_machine d z)" "lh_n (open_machine d z) = 0"
  "lstate.more (open_machine d z) = z"
  by (simp_all add: open_machine_def machine_fields)

lemma open_machine_txn:
  assumes "blocks_ok d" "hdr_n (d 2) = 0"
  shows "txn 0 0 (open_machine d z)" "bheld (open_machine d z) = {}" "bdirty (open_machine d z) = {}"
  using machine_good [OF assms(1), of z] assms(2)
  by (simp_all add: txn_def log_sound_def log_fits_def open_machine_def machine_fields logged_def NBUF_def
      MAXOPBLOCKS_def)

lemma hdr_zero_block: "hdr_n zero_block = 0"
  by (simp add: hdr_n_def dec32_def zero_block_def)

text \<open>One block is changed and logged.\<close>

lemma one_change:
  obtains i t w u where "bread 1 50 (open_machine (\<lambda>_. zero_block) ()) = Ok i t"
    "log_write i (set_data i ones t) = Ok () w" "brelse i w = Ok () u" "txn 0 0 u" "log_ready 0 0 u"
    "lh_n u = 1" "\<not> log_committing u" "log_outstanding u = 1" "bheld u = {}" "bdirty u = {50}"
    "bview u 50 = ones" "memdisk u = (\<lambda>_. zero_block)" "log_start u = 2" "log_size u = 30"
proof -
  let ?s = "open_machine (\<lambda>_. zero_block) ()"
  note m = open_machine_txn [OF zero_disk_ok hdr_zero_block, of "()"]
  have cr: "can_read 50 (bcache 0 ?s)" using m by (simp add: can_read_def open_machine_fields NBUF_def MAXOPBLOCKS_def)
  have ar: "(50 :: nat) \<notin> log_area ?s" by (simp add: log_area_def open_machine_fields)
  have cd: "card (ca_dirty (bcache 0 ?s)) < log_lim ?s"
    using m by (simp add: log_lim_def open_machine_fields LOGSIZE_def MAXOPBLOCKS_def)
  have ln: "length ones = BSIZE" by (simp add: ones_def BSIZE_def)
  obtain i t w u where u: "bread 1 50 ?s = Ok i t" "log_write i (set_data i ones t) = Ok () w"
    "brelse i w = Ok () u" "txn 0 0 u" "lcore u = lcore ?s" "bcache 0 u = a_put 50 ones (bcache 0 ?s)"
    by (rule tx.modify [where f = "\<lambda>_. ones", OF m(1) cr ln ar cd])
  have e: "bheld u = {}" "bdirty u = {50}" "bview u 50 = ones" "memdisk u = (\<lambda>_. zero_block)"
    using bcache_sel(1,2,4,5) [of 0 u, unfolded u(6), symmetric] m
    by (simp_all add: a_put_def open_machine_fields)
  have s: "log_sound 0 0 u" using u(4) by (simp add: txn_def)
  have "lh_n u = 1" using txn_dirty_card [OF s] e(2) by simp
  then show ?thesis
    using that [OF u(1-4) log_sound_ready [OF s e(1)]] e lcore_log [OF u(5)] by (simp add: open_machine_fields)
qed

theorem commit_crash_atomic_witness:
  "\<exists>i t w s u. bread 1 50 (open_machine (\<lambda>_. zero_block) ()) = Ok i t \<and>
     log_write i (set_data i ones t) = Ok () w \<and> brelse i w = Ok () s \<and>
     commit s = Ok () u \<and> memdisk s 50 = zero_block \<and> memdisk u 50 = ones"
proof -
  obtain i t w s where s: "bread 1 50 (open_machine (\<lambda>_. zero_block) ()) = Ok i t"
    "log_write i (set_data i ones t) = Ok () w" "brelse i w = Ok () s" "txn 0 0 s" "log_ready 0 0 s"
    "lh_n s = 1" "bdirty s = {50}" "bview s 50 = ones" "memdisk s = (\<lambda>_. zero_block)" "log_start s = 2"
    "log_size s = 30"
    by (rule one_change)
  have "bdirty s = lh_block s ` {0..<nat (lh_n s)}" using s(4) by (simp add: txn_def log_sound_def logged_def)
  moreover have "0 < lh_n s" "hdr_n (memdisk s (log_start s)) = 0" using s by (simp_all add: hdr_zero_block)
  moreover have "(50 :: nat) \<notin> log_area s" using s(10,11) by (simp add: log_area_def)
  ultimately obtain u where "commit s = Ok () u" "memdisk u 50 = ones"
    using commit_crash_atomic [OF s(5)] s(8) by metis
  with s show ?thesis by auto
qed

text \<open>A disk whose log holds a committed change of block 50.\<close>

definition logged_disk :: disk where
  "logged_disk = (\<lambda>_. zero_block)(2 := head_bytes 1 (\<lambda>_. 50) zero_block, 3 := ones)"

lemma logged_disk_booted: "booted 0 0 (machine logged_disk ())"
proof -
  have l: "length zero_block = BSIZE" "length ones = BSIZE" by (simp_all add: zero_block_def ones_def BSIZE_def)
  have n: "(1 :: int) \<le> int LOGSIZE" by (simp add: LOGSIZE_def MAXOPBLOCKS_def)
  have h: "hdr_n (logged_disk 2) = 1" "hdr_block (logged_disk 2) 0 = 50"
    using hdr_head_bytes [of 1 zero_block "\<lambda>_. 50"] l n by (simp_all add: logged_disk_def)
  have "blocks_ok logged_disk"
    using l n length_head_bytes [of 1 zero_block "\<lambda>_. 50"] by (simp add: blocks_ok_def logged_disk_def)
  from machine_good [OF this, of "()"] show ?thesis
    using h by (simp add: booted_def machine_fields header_ok_def log_fits_def LOGSIZE_def MAXOPBLOCKS_def)
qed

theorem recovery_crash_idempotent_witness:
  "\<exists>t ws. recover_from_log (machine logged_disk ()) = Ok () t \<and> disk_log t = ws \<and>
    (\<forall>k c' p' u. rebooted c' p' (apply_writes logged_disk (take k ws)) (machine logged_disk ()) u \<longrightarrow>
      (\<exists>v. recover_from_log u = Ok () v \<and> memdisk v 50 = memdisk t 50))"
proof -
  have "(50 :: nat) \<notin> log_area (machine logged_disk ())" by (simp add: log_area_def machine_fields)
  with recovery_crash_idempotent [OF logged_disk_booted] show ?thesis
    by (simp only: machine_fields append_Nil) meson
qed

theorem end_op_commits_witness:
  "\<exists>i t w s u. bread 1 50 (open_machine (\<lambda>_. zero_block) ()) = Ok i t \<and>
     log_write i (set_data i ones t) = Ok () w \<and> brelse i w = Ok () s \<and>
     end_op s = Ok () u \<and> memdisk u 50 = ones \<and> log_outstanding u = 0"
proof -
  obtain i t w s where s: "bread 1 50 (open_machine (\<lambda>_. zero_block) ()) = Ok i t"
    "log_write i (set_data i ones t) = Ok () w" "brelse i w = Ok () s" "txn 0 0 s"
    "\<not> log_committing s" "log_outstanding s = 1" "bheld s = {}" "bview s 50 = ones" "log_start s = 2" "log_size s = 30"
    by (rule one_change)
  have "(50 :: nat) \<notin> log_area s" using s(9,10) by (simp add: log_area_def)
  with end_op_commits [OF s(4-7)] s(1-3,8) show ?thesis by metis
qed

section \<open>Absorption, and the size of the log\<close>

text \<open>Logging a block that is already in the transaction takes no further space in the
  log; logging another one takes exactly one more slot.\<close>

theorem log_write_absorbs:
  assumes "txn c p s" "holds_buf p i b s" "b < disksize s" "b \<notin> log_area s" "card (bdirty s) < log_lim s"
  shows "\<exists>t. log_write i s = Ok () t \<and> logged t = insert b (logged s) \<and>
    lh_n t = (if b \<in> logged s then lh_n s else lh_n s + 1) \<and> bview t = bview s"
proof -
  obtain t where t: "log_write i s = Ok () t" "txn c p t" "bcache p t = a_pin b (bcache p s)"
    using log_write_txn [OF assms] by blast
  have s: "log_sound c p s" "log_sound c p t" using assms(1) t(2) by (simp_all add: txn_def)
  have e: "bdirty t = insert b (bdirty s)" "bview t = bview s"
    using bcache_sel(1,4) [of p t, unfolded t(3), symmetric] by (simp_all add: a_pin_def)
  have l: "logged t = bdirty t" "logged s = bdirty s" "0 \<le> lh_n s" "0 \<le> lh_n t"
    using s by (simp_all add: log_sound_def)
  have "finite (bdirty s)" using finite_busy [of s] by simp
  then have "card (bdirty t) = (if b \<in> bdirty s then card (bdirty s) else card (bdirty s) + 1)"
    using e(1) by (simp add: insert_absorb)
  then show ?thesis
    using t(1) e l txn_dirty_card [OF s(1)] txn_dirty_card [OF s(2)] by (auto split: if_splits)
qed

theorem log_write_absorbs_witness:
  "\<exists>i t u. bread 1 50 (open_machine (\<lambda>_. zero_block) ()) = Ok i t \<and> log_write i t = Ok () u \<and>
     lh_n u = lh_n t + 1"
proof -
  let ?s = "open_machine (\<lambda>_. zero_block) ()"
  note m = open_machine_txn [OF zero_disk_ok hdr_zero_block, of "()"]
  have "can_read 50 (bcache 0 ?s)" using m by (simp add: can_read_def open_machine_fields NBUF_def MAXOPBLOCKS_def)
  then obtain i t where t: "bread 1 50 ?s = Ok i t" "txn 0 0 t" "bcache 0 t = a_read i 50 (bcache 0 ?s)" "lcore t = lcore ?s"
    using tx.rd_ok [OF m(1)] by blast
  have "holds_buf 0 i 50 t" "bdirty t = {}"
    using bcache_sel(3) [of i 50 0 t] bcache_sel(4) [of 0 t, unfolded t(3), symmetric] t(3) m(3)
    by (simp_all add: a_read_def del: bcache_sel(3))
  moreover have "(50 :: nat) < disksize t" "(50 :: nat) \<notin> log_area t" "card ({} :: nat set) < log_lim t"
    using lcore_log [OF t(4)] by (simp_all add: open_machine_fields log_area_def log_lim_def LOGSIZE_def MAXOPBLOCKS_def)
  moreover have "logged t = {}" using t(2) \<open>bdirty t = {}\<close> by (simp add: txn_def log_sound_def)
  ultimately show ?thesis using log_write_absorbs [OF t(2), of i 50] t(1) by auto
qed

text \<open>A client of the log changes a block: it reads the block, changes it by \<open>f\<close>, logs it and releases it.\<close>

definition change_block :: "(u8 list \<Rightarrow> u8 list) \<Rightarrow> nat \<Rightarrow> 'z lstate_scheme \<Rightarrow> (unit, 'z lstate_scheme) res" where
  "change_block f b s =
     andthen (bread 1 b s) (\<lambda>i s.
     andthen (log_write i (set_data i (f (buf_data i s)) s)) (\<lambda>_ s.
     brelse i s))"

lemma log_lim_NBUF: "log_sound c p s \<Longrightarrow> 1 \<le> log_size s \<Longrightarrow> log_lim s < NBUF"
  by (auto simp: log_sound_def log_lim_def)

lemma changes_ok:
  assumes "txn c p s" "bheld s = {}" "1 \<le> log_size s" "\<And>d. length d = BSIZE \<Longrightarrow> length (f d) = BSIZE"
    "\<forall>b\<in>set bs. b < disksize s \<and> b \<notin> log_area s" "card (bdirty s) + length bs \<le> log_lim s"
  shows "\<exists>t. foreach (change_block f) bs s = Ok () t \<and> txn c p t \<and> lcore t = lcore s \<and> bheld t = {} \<and> bdirty t = bdirty s \<union> set bs"
  using assms(1-3,5,6)
proof (induction bs arbitrary: s)
  case Nil
  then show ?case by simp
next
  case (Cons b bs)
  have "log_lim s < NBUF" using Cons.prems(1,3) log_lim_NBUF by (auto simp: txn_def)
  then have cr: "can_read b (bcache p s)" using Cons.prems(2,4,5) by (simp add: can_read_def)
  have ln: "length (f (ca_view (bcache p s) b)) = BSIZE" using assms(4) tx.view_length [OF Cons.prems(1)] by blast
  have ar: "b \<notin> log_area s" and cd: "card (ca_dirty (bcache p s)) < log_lim s" using Cons.prems(4,5) by simp_all
  obtain i t w u where u: "bread 1 b s = Ok i t" "buf_data i t = ca_view (bcache p s) b"
    "log_write i (set_data i (f (ca_view (bcache p s) b)) t) = Ok () w" "brelse i w = Ok () u"
    "txn c p u" "lcore u = lcore s" "bcache p u = a_put b (f (ca_view (bcache p s) b)) (bcache p s)"
    by (rule tx.modify [where f = f, OF Cons.prems(1) cr ln ar cd])
  have d: "bheld u = {}" "bdirty u = insert b (bdirty s)"
    using bcache_sel(2,4) [of p u, unfolded u(7), symmetric] Cons.prems(2) by (simp_all add: a_put_def)
  have "card (bdirty u) \<le> Suc (card (bdirty s))" unfolding d(2) by (rule card_insert_le_m1) simp_all
  then have k: "card (bdirty u) + length bs \<le> log_lim u"
    using Cons.prems(5) lcore_log(1,2) [OF u(6)] by (simp add: log_lim_def)
  obtain v where v: "foreach (change_block f) bs u = Ok () v" "txn c p v" "lcore v = lcore u" "bheld v = {}" "bdirty v = bdirty u \<union> set bs"
    using Cons.IH [OF u(5) d(1) _ _ k] Cons.prems(3,4) lcore_log [OF u(6)] by (auto simp: log_area_def)
  have "change_block f b s = Ok () u" using u(1-4) by (simp add: change_block_def)
  then show ?case using v u(6) d(2) by simp
qed

lemma changes_full:
  assumes "txn c p s" "bheld s = {}" "lh_n s = int LOGSIZE - 1" "log_size s = LOGSIZE" "b < disksize s"
  shows "change_block f b s = Panic ''too big a transaction''"
proof -
  have "card (bdirty s) = LOGSIZE - 1" using assms(1,3) txn_dirty_card [of c p s] by (simp add: txn_def)
  then have cr: "can_read b (bcache p s)"
    using assms(2,5) by (simp add: can_read_def LOGSIZE_def NBUF_def MAXOPBLOCKS_def)
  obtain i t where t: "bread 1 b s = Ok i t" "txn c p t" "bcache p t = a_read i b (bcache p s)" "lcore t = lcore s"
    using tx.rd_ok [OF assms(1) cr] by blast
  have "card (bdirty t) = card (bdirty s)"
    using bcache_sel(4) [of p t, unfolded t(3), symmetric] by (simp add: a_read_def)
  then have "lh_n t = lh_n s"
    using txn_dirty_card [of c p t] txn_dirty_card [of c p s] t(2) assms(1) unfolding txn_def log_sound_def by linarith
  then show ?thesis
    using t(1) lcore_log(2) [OF t(4)] assms(3,4) by (simp add: change_block_def log_write_def set_data_def upd_buf_def)
qed

text \<open>C39. The reservation does not match the capacity. On a log of \<open>LOGSIZE\<close> blocks, which is what
  \<open>mkfs\<close> builds, with nothing in progress, \<open>begin_op\<close> admits three operations, and a fourth one has
  to wait: the three have reserved \<open>3 * MAXOPBLOCKS\<close> blocks. When together they change that many
  different blocks, as they may, all but the last one are logged, and then \<open>log_write\<close> panics,
  for the last block and also for a block that is in the transaction already.\<close>

theorem log_reservation_gap:
  assumes "log_sound c p s" "\<not> log_committing s" "lh_n s = 0" "log_outstanding s = 0" "log_size s = LOGSIZE"
    "bheld s = {}" "\<And>d. length d = BSIZE \<Longrightarrow> length (f d) = BSIZE"
    "distinct bs" "length bs = 3 * MAXOPBLOCKS" "\<forall>b\<in>set bs. b < disksize s \<and> b \<notin> log_area s"
  shows "\<exists>t u v. foreach (\<lambda>_. begin_op) [0..<3] s = Ok () t \<and> begin_op t = Swtch v \<and>
    foreach (change_block f) (butlast bs) t = Ok () u \<and> logged u = set (butlast bs) \<and> lh_n u = int (length bs) - 1 \<and>
    (\<forall>b\<in>set bs. foreach (change_block f) (butlast bs @ [b]) t = Panic ''too big a transaction'')"
proof -
  let ?t = "s\<lparr>log_outstanding := 3\<rparr>"
  have r: "runs c p s" using assms(1) by (simp add: log_sound_def bgood_def)
  have g: "begin_op (s\<lparr>log_outstanding := k\<rparr>) = Ok () (s\<lparr>log_outstanding := k + 1\<rparr>)" if "k < 3" for k
    using begin_op_go [of c p "s\<lparr>log_outstanding := k\<rparr>"] r assms(2,3) that by (simp add: LOGSIZE_def MAXOPBLOCKS_def)
  have "s = s\<lparr>log_outstanding := 0\<rparr>" using assms(4) by (cases s) simp
  then have "begin_op s = Ok () (s\<lparr>log_outstanding := 0 + 1\<rparr>)" using g [of 0] by simp
  then have b: "foreach (\<lambda>_. begin_op) [0..<3] s = Ok () ?t" using g [of 1] g [of 2] by (simp add: upt_conv_Cons)
  have w: "\<exists>v. begin_op ?t = Swtch v"
    using begin_op_wait [of c p ?t] r assms(3) by (simp add: LOGSIZE_def MAXOPBLOCKS_def)
  have x: "txn c p ?t" using assms(1) by (simp add: txn_def log_sound_upd)
  have d: "bdirty s = {}" using assms(1,3) by (simp add: log_sound_def logged_def)
  have bs: "\<forall>b\<in>set (butlast bs). b < disksize ?t \<and> b \<notin> log_area ?t"
    using assms(10) by (auto simp: log_area_def dest: in_set_butlastD)
  have h: "bheld ?t = {}" and z: "1 \<le> log_size ?t" using assms(5,6) by (simp_all add: LOGSIZE_def MAXOPBLOCKS_def)
  have k: "card (bdirty ?t) + length (butlast bs) \<le> log_lim ?t"
    using assms(5,9) d by (simp add: log_lim_def LOGSIZE_def MAXOPBLOCKS_def)
  obtain u where u: "foreach (change_block f) (butlast bs) ?t = Ok () u" "txn c p u" "lcore u = lcore ?t" "bheld u = {}"
    "bdirty u = set (butlast bs)"
    using changes_ok [where f = f, OF x h z assms(7) bs k] d by auto
  have n: "lh_n u = int (length bs) - 1" "logged u = set (butlast bs)"
    using u(2,5) txn_dirty_card [of c p u] distinct_card [OF distinct_butlast [OF assms(8)]] assms(9)
    by (simp_all add: txn_def log_sound_def MAXOPBLOCKS_def)
  have "foreach (change_block f) (butlast bs @ [b]) ?t = Panic ''too big a transaction''" if "b \<in> set bs" for b
  proof -
    have "change_block f b u = Panic ''too big a transaction''"
      using changes_full [OF u(2,4), of b f] n(1) assms(5,9,10) lcore_log(2,7) [OF u(3)] that
      by (simp add: LOGSIZE_def MAXOPBLOCKS_def)
    then show ?thesis using u(1) by (simp add: foreach_append)
  qed
  then show ?thesis using b w u(1) n by blast
qed

theorem log_reservation_gap_witness:
  "\<exists>t u v. foreach (\<lambda>_. begin_op) [0..<3] (machine (\<lambda>_. zero_block) ()) = Ok () t \<and> begin_op t = Swtch v \<and>
     foreach (change_block (\<lambda>_. ones)) [50..<79] t = Ok () u \<and> lh_n u = 29 \<and>
     foreach (change_block (\<lambda>_. ones)) [50..<80] t = Panic ''too big a transaction''"
proof -
  let ?s = "machine (\<lambda>_. zero_block) ()"
  have m: "log_sound 0 0 ?s" "bheld ?s = {}"
    using open_machine_txn [OF zero_disk_ok hdr_zero_block, of "()"]
    by (simp_all add: txn_def open_machine_def log_sound_upd)
  have e: "butlast [50..<80] = [50..<79]" "[50..<80] = [50..<79] @ [79 :: nat]" using upt_Suc_append [of 50 79] by (simp_all add: butlast_append del: upt_rec_numeral)
  have "\<exists>t u v. foreach (\<lambda>_. begin_op) [0..<3] ?s = Ok () t \<and> begin_op t = Swtch v \<and>
    foreach (change_block (\<lambda>_. ones)) (butlast [50..<80]) t = Ok () u \<and> logged u = set (butlast [50..<80]) \<and>
    lh_n u = int (length [50..<80 :: nat]) - 1 \<and>
    (\<forall>b\<in>set [50..<80]. foreach (change_block (\<lambda>_. ones)) (butlast [50..<80] @ [b]) t = Panic ''too big a transaction'')"
    using m(2) by (intro log_reservation_gap [OF m(1)])
      (auto simp: machine_fields ones_def BSIZE_def LOGSIZE_def MAXOPBLOCKS_def log_area_def)
  then obtain t u v where t: "foreach (\<lambda>_. begin_op) [0..<3] ?s = Ok () t" "begin_op t = Swtch v"
    "foreach (change_block (\<lambda>_. ones)) (butlast [50..<80]) t = Ok () u" "lh_n u = int (length [50..<80 :: nat]) - 1"
    "\<forall>b\<in>set [50..<80]. foreach (change_block (\<lambda>_. ones)) (butlast [50..<80] @ [b]) t = Panic ''too big a transaction''"
    by blast
  have "foreach (change_block (\<lambda>_. ones)) [50..<80] t = Panic ''too big a transaction''"
    unfolding e(2) using t(5) [THEN bspec, of 79] unfolding e(1) by simp
  with t(1-4) show ?thesis unfolding e(1) by auto
qed

end
