(* ===== verification/Cstring.thy ===== *)
theory Cstring
  imports Xv6_Prelude
begin

text \<open>
  \<open>string.c\<close>. The block operations \<open>memset\<close>, \<open>memcmp\<close> and \<open>memmove\<close> work on a memory
  (addresses to bytes), so that overlapping arguments are covered. The string operations
  take the bytes a pointer leads to as a function of the offset; their destination does not
  overlap the source.
\<close>

type_synonym mem = "nat \<Rightarrow> u8"
type_synonym bytes = "nat \<Rightarrow> u8"

section \<open>Block operations\<close>

fun stosb :: "nat \<Rightarrow> u8 \<Rightarrow> nat \<Rightarrow> mem \<Rightarrow> mem" where
  "stosb a c 0 m = m"
| "stosb a c (Suc n) m = stosb (a + 1) c n (m(a := c))"

fun stosl :: "nat \<Rightarrow> u32 \<Rightarrow> nat \<Rightarrow> mem \<Rightarrow> mem" where
  "stosl a w 0 m = m"
| "stosl a w (Suc n) m = stosl (a + 4) w n
     (m(a := ucast w, a + 1 := ucast (drop_bit 8 w), a + 2 := ucast (drop_bit 16 w),
        a + 3 := ucast (drop_bit 24 w)))"

definition memset :: "nat \<Rightarrow> u32 \<Rightarrow> nat \<Rightarrow> mem \<Rightarrow> mem" where
  "memset dst c n m =
     (if dst mod 4 = 0 \<and> n mod 4 = 0
      then let c = c AND 255
           in stosl dst (push_bit 24 c OR push_bit 16 c OR push_bit 8 c OR c) (n div 4) m
      else stosb dst (ucast c) n m)"

fun memcmp :: "bytes \<Rightarrow> bytes \<Rightarrow> nat \<Rightarrow> int" where
  "memcmp s1 s2 0 = 0"
| "memcmp s1 s2 (Suc n) =
     (if s1 0 \<noteq> s2 0 then int (unat (s1 0)) - int (unat (s2 0))
      else memcmp (\<lambda>i. s1 (i + 1)) (\<lambda>i. s2 (i + 1)) n)"

text \<open>The two loops of \<open>memmove\<close>: from the end down, and from the start up.\<close>

fun move_down :: "nat \<Rightarrow> nat \<Rightarrow> nat \<Rightarrow> mem \<Rightarrow> mem" where
  "move_down d s 0 m = m"
| "move_down d s (Suc n) m = move_down d s n (m(d + n := m (s + n)))"

fun move_up :: "nat \<Rightarrow> nat \<Rightarrow> nat \<Rightarrow> mem \<Rightarrow> mem" where
  "move_up d s 0 m = m"
| "move_up d s (Suc n) m = move_up (d + 1) (s + 1) n (m(d := m s))"

definition memmove :: "nat \<Rightarrow> nat \<Rightarrow> nat \<Rightarrow> mem \<Rightarrow> mem" where
  "memmove dst src n m =
     (if src < dst \<and> src + n > dst then move_down dst src n m else move_up dst src n m)"

definition memcpy :: "nat \<Rightarrow> nat \<Rightarrow> nat \<Rightarrow> mem \<Rightarrow> mem" where
  "memcpy dst src n m = memmove dst src n m"

section \<open>String operations\<close>

fun strncmp :: "bytes \<Rightarrow> bytes \<Rightarrow> nat \<Rightarrow> int" where
  "strncmp p q 0 = 0"
| "strncmp p q (Suc n) =
     (if p 0 \<noteq> 0 \<and> p 0 = q 0 then strncmp (\<lambda>i. p (i + 1)) (\<lambda>i. q (i + 1)) n
      else int (unat (p 0)) - int (unat (q 0)))"

fun zero_fill :: "bytes \<Rightarrow> nat \<Rightarrow> nat \<Rightarrow> bytes" where
  "zero_fill s i 0 = s"
| "zero_fill s i (Suc n) = zero_fill (s(i := 0)) (i + 1) n"

fun strncpy_from :: "bytes \<Rightarrow> bytes \<Rightarrow> nat \<Rightarrow> nat \<Rightarrow> bytes" where
  "strncpy_from s t i 0 = s"
| "strncpy_from s t i (Suc n) =
     (let s = s(i := t i)
      in if t i \<noteq> 0 then strncpy_from s t (i + 1) n else zero_fill s (i + 1) n)"

definition strncpy :: "bytes \<Rightarrow> bytes \<Rightarrow> int \<Rightarrow> bytes" where
  "strncpy s t n = strncpy_from s t 0 (nat n)"

fun safestrcpy_from :: "bytes \<Rightarrow> bytes \<Rightarrow> nat \<Rightarrow> nat \<Rightarrow> bytes" where
  "safestrcpy_from s t i 0 = s(i := 0)"
| "safestrcpy_from s t i (Suc n) =
     (let s = s(i := t i)
      in if t i \<noteq> 0 then safestrcpy_from s t (i + 1) n else s(i + 1 := 0))"

definition safestrcpy :: "bytes \<Rightarrow> bytes \<Rightarrow> int \<Rightarrow> bytes" where
  "safestrcpy s t n = (if n \<le> 0 then s else safestrcpy_from s t 0 (nat (n - 1)))"

text \<open>\<open>strlen\<close> looks for the terminator; \<open>None\<close> is a search that never ends.\<close>

partial_function (option) strlen_from :: "bytes \<Rightarrow> nat \<Rightarrow> nat option" where
  "strlen_from s n = (if s n \<noteq> 0 then strlen_from s (n + 1) else Some n)"

definition strlen :: "bytes \<Rightarrow> nat option" where
  "strlen s = strlen_from s 0"

text \<open>A C string whose bytes are a list.\<close>

definition cstr :: "u8 list \<Rightarrow> bytes" where
  "cstr l i = (if i < length l then l ! i else 0)"

section \<open>The block operations are correct\<close>

lemma stosb_at: "stosb d c n m a = (if d \<le> a \<and> a < d + n then c else m a)"
  by (induction n arbitrary: d m) auto

lemma stosl_at:
  assumes "ucast w = c" "ucast (drop_bit 8 w) = c" "ucast (drop_bit 16 w) = c" "ucast (drop_bit 24 w) = c"
  shows "stosl d w n m a = (if d \<le> a \<and> a < d + 4 * n then c else m a)"
proof (induction n arbitrary: d m a)
  case (Suc n)
  consider "a < d" | "a = d" | "a = d + 1" | "a = d + 2" | "a = d + 3" | "d + 4 \<le> a" by linarith
  then show ?case by cases (simp_all add: Suc assms)
qed auto

lemma byte_splat:
  fixes c :: u32
  defines "w \<equiv> push_bit 24 (c AND 255) OR push_bit 16 (c AND 255) OR push_bit 8 (c AND 255) OR (c AND 255)"
  shows "ucast w = (ucast c :: u8)" "ucast (drop_bit 8 w) = (ucast c :: u8)"
    "ucast (drop_bit 16 w) = (ucast c :: u8)" "ucast (drop_bit 24 w) = (ucast c :: u8)"
proof -
  have m: "(255 :: u32) = mask 8" by (simp add: mask_eq_exp_minus_1)
  show "ucast w = (ucast c :: u8)" "ucast (drop_bit 8 w) = (ucast c :: u8)"
    "ucast (drop_bit 16 w) = (ucast c :: u8)" "ucast (drop_bit 24 w) = (ucast c :: u8)"
    unfolding w_def m by (rule bit_word_eqI, force simp: bit_simps)+
qed

lemma memset_at:
  "memset dst c n m a = (if dst \<le> a \<and> a < dst + n then ucast c else m a)"
proof (cases "dst mod 4 = 0 \<and> n mod 4 = 0")
  case True
  then have "4 * (n div 4) = n" by auto
  then show ?thesis
    using True stosl_at [OF byte_splat, of dst c "n div 4" m a] by (simp only: memset_def Let_def if_True simp_thms)
next
  case False
  then show ?thesis by (simp only: memset_def if_False stosb_at)
qed

text \<open>\<open>memset\<close> stores the low byte of \<open>c\<close> in the \<open>n\<close> bytes at \<open>dst\<close> and nowhere
  else, whether it takes the word-wise or the byte-wise path.\<close>

theorem memset_fills:
  "memset dst c n m a = (if dst \<le> a \<and> a < dst + n then ucast c else m a)"
  by (rule memset_at)

lemma move_down_at:
  "s \<le> d \<Longrightarrow> move_down d s n m a = (if d \<le> a \<and> a < d + n then m (s + (a - d)) else m a)"
proof (induction n arbitrary: m a)
  case (Suc n)
  show ?case
  proof (cases "d \<le> a")
    case True
    then obtain k where "a = d + k" using le_Suc_ex by blast
    then show ?thesis using Suc by (auto simp: less_Suc_eq)
  qed (use Suc in auto)
qed auto

lemma move_up_at:
  "d \<le> s \<or> s + n \<le> d \<Longrightarrow> move_up d s n m a = (if d \<le> a \<and> a < d + n then m (s + (a - d)) else m a)"
proof (induction n arbitrary: d s m a)
  case (Suc n)
  then have p: "Suc d \<le> Suc s \<or> Suc s + n \<le> Suc d" by auto
  show ?case
  proof (cases "d < a")
    case True
    then obtain k where "a = Suc d + k" using less_iff_Suc_add by auto
    then show ?thesis using Suc.IH [OF p] Suc.prems by auto
  qed (use Suc.IH [OF p] in auto)
qed auto

lemma memmove_at:
  "memmove dst src n m a = (if dst \<le> a \<and> a < dst + n then m (src + (a - dst)) else m a)"
  unfolding memmove_def using move_down_at [of src dst n m a] move_up_at [of dst src n m a] by auto

text \<open>\<open>memmove\<close> copies the \<open>n\<close> bytes at \<open>src\<close>, as they were before the call, to
  \<open>dst\<close>, however the two ranges overlap, and changes nothing else.\<close>

theorem memmove_copies:
  "memmove dst src n m a = (if dst \<le> a \<and> a < dst + n then m (src + (a - dst)) else m a)"
  by (rule memmove_at)

section \<open>The string operations are correct\<close>

lemma byte_diff_zero: "int (unat (x :: u8)) - int (unat y) = 0 \<longleftrightarrow> x = y"
  by (simp add: word_uint_eq_iff [symmetric])

lemma memcmp_zero: "memcmp p q n = 0 \<longleftrightarrow> (\<forall>i<n. p i = q i)"
proof (induction n arbitrary: p q)
  case (Suc n)
  then show ?case using byte_diff_zero [of "p 0" "q 0"] by (auto simp: less_Suc_eq_0_disj)
qed simp

text \<open>The bytes of \<open>p\<close> before its terminator, at most \<open>n\<close> of them.\<close>

definition str_agree :: "bytes \<Rightarrow> bytes \<Rightarrow> nat \<Rightarrow> bool" where
  "str_agree p q n \<longleftrightarrow> (\<forall>i<n. (\<forall>j<i. p j \<noteq> 0) \<longrightarrow> p i = q i)"

lemma str_agree_Suc:
  "str_agree p q (Suc n) \<longleftrightarrow> p 0 = q 0 \<and> (p 0 \<noteq> 0 \<longrightarrow> str_agree (\<lambda>i. p (i + 1)) (\<lambda>i. q (i + 1)) n)"
proof -
  have "(\<forall>j<Suc i. p j \<noteq> 0) \<longleftrightarrow> p 0 \<noteq> 0 \<and> (\<forall>j<i. p (Suc j) \<noteq> 0)" for i
    by (auto simp: less_Suc_eq_0_disj)
  then show ?thesis unfolding str_agree_def by (auto simp: less_Suc_eq_0_disj)
qed

lemma strncmp_zero: "strncmp p q n = 0 \<longleftrightarrow> str_agree p q n"
proof (induction n arbitrary: p q)
  case (Suc n)
  then show ?case using byte_diff_zero [of "p 0" "q 0"] by (auto simp: str_agree_Suc)
qed (simp add: str_agree_def)

lemma zero_fill_at: "zero_fill s i n k = (if i \<le> k \<and> k < i + n then 0 else s k)"
  by (induction n arbitrary: s i) auto

text \<open>No terminator between two offsets.\<close>

definition live :: "bytes \<Rightarrow> nat \<Rightarrow> nat \<Rightarrow> bool" where
  "live t i k \<longleftrightarrow> (\<forall>j. i \<le> j \<and> j < k \<longrightarrow> t j \<noteq> 0)"

lemma live_simps: "k \<le> i \<Longrightarrow> live t i k" "i < k \<Longrightarrow> live t i k \<longleftrightarrow> t i \<noteq> 0 \<and> live t (Suc i) k"
  unfolding live_def by auto (metis Suc_leI le_neq_implies_less)

lemma strncpy_from_at:
  "strncpy_from s t i n k = (if i \<le> k \<and> k < i + n then (if live t i k then t k else 0) else s k)"
proof (induction n arbitrary: s i)
  case (Suc n)
  show ?case
  proof (cases "i < k")
    case True
    then show ?thesis by (auto simp: Let_def Suc zero_fill_at live_simps)
  next
    case False
    then show ?thesis by (auto simp: Let_def Suc zero_fill_at live_simps)
  qed
qed auto

text \<open>\<open>strncpy\<close> copies the string with its terminator and pads with zeros to \<open>n\<close> bytes;
  the bytes from \<open>n\<close> on keep their values.\<close>

theorem strncpy_copies:
  "strncpy s t n k = (if int k < n then (if \<forall>j<k. t j \<noteq> 0 then t k else 0) else s k)"
  by (auto simp: strncpy_def strncpy_from_at live_def)

theorem strncpy_copies_witness:
  "strncpy (\<lambda>_. 7) (cstr [1, 2]) 4 1 = 2 \<and> strncpy (\<lambda>_. 7) (cstr [1, 2]) 4 3 = 0 \<and>
   strncpy (\<lambda>_. 7) (cstr [1, 2]) 4 4 = 7"
  using strncpy_copies [of "\<lambda>_. 7" "cstr [1, 2]" 4 1] strncpy_copies [of "\<lambda>_. 7" "cstr [1, 2]" 4 3]
    strncpy_copies [of "\<lambda>_. 7" "cstr [1, 2]" 4 4]
  by (auto simp: cstr_def less_Suc_eq numeral_eq_Suc)

lemma safestrcpy_from_outside: "k < i \<or> i + n < k \<Longrightarrow> safestrcpy_from s t i n k = s k"
  by (induction n arbitrary: s i) (auto simp: Let_def)

lemma safestrcpy_from_prefix:
  "i \<le> k \<Longrightarrow> k < i + n \<Longrightarrow> live t i k \<Longrightarrow> safestrcpy_from s t i n k = t k"
proof (induction n arbitrary: s i)
  case (Suc n)
  then show ?case by (cases "k = i") (auto simp: Let_def live_simps safestrcpy_from_outside)
qed simp

lemma safestrcpy_from_ends: "\<exists>k. i \<le> k \<and> k \<le> i + n \<and> safestrcpy_from s t i n k = 0 \<and> live t i k"
proof (induction n arbitrary: s i)
  case (Suc n)
  show ?case
  proof (cases "t i = 0")
    case True
    then show ?thesis by (intro exI [of _ i]) (auto simp: Let_def live_simps)
  next
    case False
    then obtain k where "Suc i \<le> k" "k \<le> Suc i + n" "safestrcpy_from (s(i := t i)) t (Suc i) n k = 0"
      "live t (Suc i) k" using Suc [of "Suc i"] by auto
    then show ?thesis using False by (intro exI [of _ k]) (simp add: Let_def live_simps)
  qed
qed (auto simp: live_simps)

text \<open>\<open>safestrcpy\<close> into a buffer of \<open>n > 0\<close> bytes stays inside it, always leaves a
  terminator there, and what it leaves before the terminator is a prefix of the source.\<close>

theorem safestrcpy_safe:
  assumes "0 < n"
  shows "(\<forall>k. n \<le> int k \<longrightarrow> safestrcpy s t n k = s k) \<and>
    (\<exists>k. int k < n \<and> safestrcpy s t n k = 0 \<and>
      (\<forall>j<k. t j \<noteq> 0 \<and> safestrcpy s t n j = t j))"
proof -
  let ?n = "nat (n - 1)"
  have e: "safestrcpy s t n = safestrcpy_from s t 0 ?n" using assms by (simp add: safestrcpy_def)
  obtain k where k: "k \<le> ?n" "safestrcpy_from s t 0 ?n k = 0" "live t 0 k"
    using safestrcpy_from_ends [of 0 ?n s t] by auto
  have "safestrcpy_from s t 0 ?n j = t j" if "j < k" for j
    using safestrcpy_from_prefix [of 0 j ?n t s] k(1,3) that by (auto simp: live_def)
  moreover have "safestrcpy_from s t 0 ?n j = s j" if "n \<le> int j" for j
    using that assms by (intro safestrcpy_from_outside) linarith
  moreover have "int k < n" using k(1) assms by linarith
  ultimately show ?thesis using k unfolding e by (auto simp: live_def)
qed

theorem safestrcpy_safe_witness:
  "safestrcpy (\<lambda>_. 7) (cstr [1, 2, 3]) 3 3 = 7 \<and> (\<exists>k. int k < 3 \<and> safestrcpy (\<lambda>_. 7) (cstr [1, 2, 3]) 3 k = 0)"
  using safestrcpy_safe [of 3 "\<lambda>_. 7" "cstr [1, 2, 3]"] by auto

lemma strlen_from_stop: "i \<le> k \<Longrightarrow> t k = 0 \<Longrightarrow> live t i k \<Longrightarrow> strlen_from t i = Some k"
proof (induction "k - i" arbitrary: i)
  case 0
  then show ?case by (simp add: strlen_from.simps [of t i])
next
  case (Suc n)
  then have "i < k" by simp
  then show ?case using Suc by (simp add: strlen_from.simps [of t i] live_simps)
qed

lemma strlen_cstr: "(\<forall>x\<in>set l. x \<noteq> 0) \<Longrightarrow> strlen (cstr l) = Some (length l)"
  unfolding strlen_def by (rule strlen_from_stop) (simp_all add: cstr_def live_def)

end
