(* ===== verification/Fs.thy ===== *)
theory Fs
  imports Log_Txn Cstring
begin

text \<open>
  \<open>fs.c\<close>: the block allocator, the inode cache, the contents of inodes, directories and
  path names. An inode pointer is an index of the inode cache; a null pointer is \<open>None\<close>.
  The device table \<open>devsw\<close> is an argument of the functions that call through it: \<open>dr\<close> and
  \<open>dw\<close> give the read and write function of a major number.
\<close>

section \<open>State\<close>

record inode =
  i_dev :: nat
  i_inum :: nat
  i_ref :: int
  i_valid :: bool
  i_type :: u16
  i_major :: u16
  i_minor :: u16
  i_nlink :: u16
  i_size :: nat
  i_addrs :: "nat list"

record stat =
  st_type :: u16
  st_dev :: nat
  st_ino :: nat
  st_nlink :: u16
  st_size :: nat

record fstate = lstate +
  icache :: "nat \<Rightarrow> inode"
  fs_sb :: superblock

type_synonym 's devread = "nat \<Rightarrow> (nat \<Rightarrow> nat \<Rightarrow> 's \<Rightarrow> (int \<times> u8 list, 's) res) option"
type_synonym 's devwrite = "nat \<Rightarrow> (nat \<Rightarrow> u8 list \<Rightarrow> 's \<Rightarrow> (int, 's) res) option"

definition T_DIR :: u16 where "T_DIR = 1"
definition T_FILE :: u16 where "T_FILE = 2"
definition T_DEV :: u16 where "T_DEV = 3"

definition upd_inode :: "nat \<Rightarrow> (inode \<Rightarrow> inode) \<Rightarrow> 'z fstate_scheme \<Rightarrow> 'z fstate_scheme" where
  "upd_inode i f s = s\<lparr>icache := (icache s)(i := f (icache s i))\<rparr>"

section \<open>Blocks\<close>

definition bzero :: "nat \<Rightarrow> nat \<Rightarrow> 'z fstate_scheme \<Rightarrow> (unit, 'z fstate_scheme) res" where
  "bzero dev bno s =
     andthen (bread dev bno s) (\<lambda>bp s.
     andthen (log_write bp (set_data bp (replicate BSIZE 0) s)) (\<lambda>_ s.
     brelse bp s))"

text \<open>The mask of bit \<open>bi\<close> in its byte; the byte before and after the bit is set or cleared.\<close>

definition bit_mask8 :: "nat \<Rightarrow> u8" where "bit_mask8 bi = push_bit (bi mod 8) 1"

definition bit_free :: "u8 list \<Rightarrow> nat \<Rightarrow> bool" where
  "bit_free d bi \<longleftrightarrow> d ! (bi div 8) AND bit_mask8 bi = 0"

definition set_bit8 :: "u8 list \<Rightarrow> nat \<Rightarrow> u8 list" where
  "set_bit8 d bi = d[bi div 8 := d ! (bi div 8) OR bit_mask8 bi]"

definition clear_bit8 :: "u8 list \<Rightarrow> nat \<Rightarrow> u8 list" where
  "clear_bit8 d bi = d[bi div 8 := d ! (bi div 8) AND NOT (bit_mask8 bi)]"

text \<open>The values \<open>0, k, 2k, ...\<close> below \<open>n\<close> that a loop with step \<open>k\<close> runs through.\<close>

definition steps :: "nat \<Rightarrow> nat \<Rightarrow> nat list" where
  "steps n k = map (\<lambda>j. j * k) [0..<(n + k - 1) div k]"

fun balloc_loop :: "nat \<Rightarrow> nat list \<Rightarrow> 'z fstate_scheme \<Rightarrow> (nat, 'z fstate_scheme) res" where
  "balloc_loop dev [] s = Panic ''balloc: out of blocks''"
| "balloc_loop dev (b # bs) s =
     andthen (bread dev (BBLOCK b (fs_sb s)) s) (\<lambda>bp s.
     case find (bit_free (buf_data bp s)) [0..<min BPB (sb_size (fs_sb s) - b)] of
       Some bi \<Rightarrow>
         andthen (log_write bp (set_data bp (set_bit8 (buf_data bp s) bi) s)) (\<lambda>_ s.
         andthen (brelse bp s) (\<lambda>_ s.
         andthen (bzero dev (b + bi) s) (\<lambda>_ s. Ok (b + bi) s)))
     | None \<Rightarrow> andthen (brelse bp s) (\<lambda>_ s. balloc_loop dev bs s))"

definition balloc :: "nat \<Rightarrow> 'z fstate_scheme \<Rightarrow> (nat, 'z fstate_scheme) res" where
  "balloc dev s = balloc_loop dev (steps (sb_size (fs_sb s)) BPB) s"

definition bfree :: "nat \<Rightarrow> nat \<Rightarrow> 'z fstate_scheme \<Rightarrow> (unit, 'z fstate_scheme) res" where
  "bfree dev b s =
     andthen (bread dev (BBLOCK b (fs_sb s)) s) (\<lambda>bp s.
     let bi = b mod BPB
     in if bit_free (buf_data bp s) bi then Panic ''freeing free block''
        else
          andthen (log_write bp (set_data bp (clear_bit8 (buf_data bp s) bi) s)) (\<lambda>_ s.
          brelse bp s))"

section \<open>Inodes\<close>

definition iinit :: "nat \<Rightarrow> 'z fstate_scheme \<Rightarrow> (unit, 'z fstate_scheme) res" where
  "iinit dev s =
     (let s = fold (\<lambda>i s. initsleeplock (InodeLock i) ''inode'' s) [0..<NINODE]
                (initlock IcacheLock ''icache'' s)
      in andthen (readsb dev s) (\<lambda>sb s. Ok () (s\<lparr>fs_sb := sb\<rparr>)))"

definition iget :: "nat \<Rightarrow> nat \<Rightarrow> 'z fstate_scheme \<Rightarrow> (nat, 'z fstate_scheme) res" where
  "iget dev inum s =
     andthen (acquire IcacheLock s) (\<lambda>_ s.
     case find (\<lambda>i. i_ref (icache s i) > 0 \<and> i_dev (icache s i) = dev \<and> i_inum (icache s i) = inum)
            [0..<NINODE] of
       Some ip \<Rightarrow>
         andthen (release IcacheLock (upd_inode ip (\<lambda>r. r\<lparr>i_ref := i_ref r + 1\<rparr>) s)) (\<lambda>_ s. Ok ip s)
     | None \<Rightarrow>
         (case find (\<lambda>i. i_ref (icache s i) = 0) [0..<NINODE] of
            None \<Rightarrow> Panic ''iget: no inodes''
          | Some ip \<Rightarrow>
              andthen (release IcacheLock
                (upd_inode ip (\<lambda>r. r\<lparr>i_dev := dev, i_inum := inum, i_ref := 1, i_valid := False\<rparr>) s)) (\<lambda>_ s.
              Ok ip s)))"

definition dinode_off :: "nat \<Rightarrow> nat" where "dinode_off inum = 64 * (inum mod IPB)"

fun ialloc_loop :: "nat \<Rightarrow> u16 \<Rightarrow> nat list \<Rightarrow> 'z fstate_scheme \<Rightarrow> (nat, 'z fstate_scheme) res" where
  "ialloc_loop dev type [] s = Panic ''ialloc: no inodes''"
| "ialloc_loop dev type (inum # is) s =
     andthen (bread dev (IBLOCK inum (fs_sb s)) s) (\<lambda>bp s.
     let d = buf_data bp s; off = dinode_off inum
     in if dec16 d off = 0 then
          andthen (log_write bp (set_data bp
            (put_bytes (put_bytes d off (replicate 64 0)) off (enc16 type)) s)) (\<lambda>_ s.
          andthen (brelse bp s) (\<lambda>_ s. iget dev inum s))
        else andthen (brelse bp s) (\<lambda>_ s. ialloc_loop dev type is s))"

definition ialloc :: "nat \<Rightarrow> u16 \<Rightarrow> 'z fstate_scheme \<Rightarrow> (nat, 'z fstate_scheme) res" where
  "ialloc dev type s = ialloc_loop dev type [1..<sb_ninodes (fs_sb s)] s"

definition disk_inode :: "inode \<Rightarrow> dinode" where
  "disk_inode r = \<lparr>di_type = i_type r, di_major = i_major r, di_minor = i_minor r,
     di_nlink = i_nlink r, di_size = i_size r, di_addrs = i_addrs r\<rparr>"

definition iupdate :: "nat \<Rightarrow> 'z fstate_scheme \<Rightarrow> (unit, 'z fstate_scheme) res" where
  "iupdate ip s =
     andthen (bread (i_dev (icache s ip)) (IBLOCK (i_inum (icache s ip)) (fs_sb s)) s) (\<lambda>bp s.
     andthen (log_write bp (set_data bp
       (put_bytes (buf_data bp s) (dinode_off (i_inum (icache s ip)))
         (enc_dinode (disk_inode (icache s ip)))) s)) (\<lambda>_ s.
     brelse bp s))"

definition idup :: "nat \<Rightarrow> 'z fstate_scheme \<Rightarrow> (nat, 'z fstate_scheme) res" where
  "idup ip s =
     andthen (acquire IcacheLock s) (\<lambda>_ s.
     andthen (release IcacheLock (upd_inode ip (\<lambda>r. r\<lparr>i_ref := i_ref r + 1\<rparr>) s)) (\<lambda>_ s. Ok ip s))"

definition load_inode :: "dinode \<Rightarrow> inode \<Rightarrow> inode" where
  "load_inode di r = r\<lparr>i_type := di_type di, i_major := di_major di, i_minor := di_minor di,
     i_nlink := di_nlink di, i_size := di_size di, i_addrs := di_addrs di\<rparr>"

definition ilock :: "nat \<Rightarrow> 'z fstate_scheme \<Rightarrow> (unit, 'z fstate_scheme) res" where
  "ilock ip s =
     (if i_ref (icache s ip) < 1 then Panic ''ilock''
      else andthen (acquiresleep (InodeLock ip) s) (\<lambda>_ s.
        if i_valid (icache s ip) then Ok () s
        else
          andthen (bread (i_dev (icache s ip)) (IBLOCK (i_inum (icache s ip)) (fs_sb s)) s) (\<lambda>bp s.
          let di = dec_dinode (buf_data bp s) (dinode_off (i_inum (icache s ip)))
          in andthen (brelse bp (upd_inode ip (load_inode di) s)) (\<lambda>_ s.
             let s = upd_inode ip (\<lambda>r. r\<lparr>i_valid := True\<rparr>) s
             in if i_type (icache s ip) = 0 then Panic ''ilock: no type'' else Ok () s))))"

definition iunlock :: "nat \<Rightarrow> 'z fstate_scheme \<Rightarrow> (unit, 'z fstate_scheme) res" where
  "iunlock ip s =
     andthen (holdingsleep (InodeLock ip) s) (\<lambda>h s.
     if \<not> h \<or> i_ref (icache s ip) < 1 then Panic ''iunlock''
     else releasesleep (InodeLock ip) s)"

section \<open>Inode contents\<close>

definition bmap :: "nat \<Rightarrow> nat \<Rightarrow> 'z fstate_scheme \<Rightarrow> (nat, 'z fstate_scheme) res" where
  "bmap ip bn s =
     (if bn < NDIRECT then
        let addr = i_addrs (icache s ip) ! bn
        in if addr = 0 then
             andthen (balloc (i_dev (icache s ip)) s) (\<lambda>addr s.
             Ok addr (upd_inode ip (\<lambda>r. r\<lparr>i_addrs := (i_addrs r)[bn := addr]\<rparr>) s))
           else Ok addr s
      else if bn - NDIRECT < NINDIRECT then
        let bn = bn - NDIRECT; addr = i_addrs (icache s ip) ! NDIRECT
        in andthen (if addr = 0 then
                      andthen (balloc (i_dev (icache s ip)) s) (\<lambda>addr s.
                      Ok addr (upd_inode ip (\<lambda>r. r\<lparr>i_addrs := (i_addrs r)[NDIRECT := addr]\<rparr>) s))
                    else Ok addr s) (\<lambda>addr s.
           andthen (bread (i_dev (icache s ip)) addr s) (\<lambda>bp s.
           let addr = dec32 (buf_data bp s) (4 * bn)
           in andthen (if addr = 0 then
                         andthen (balloc (i_dev (icache s ip)) s) (\<lambda>addr s.
                         andthen (log_write bp
                           (set_data bp (put_bytes (buf_data bp s) (4 * bn) (enc32 addr)) s)) (\<lambda>_ s.
                         Ok addr s))
                       else Ok addr s) (\<lambda>addr s.
              andthen (brelse bp s) (\<lambda>_ s. Ok addr s))))
      else Panic ''bmap: out of range'')"

definition free_direct :: "nat \<Rightarrow> nat \<Rightarrow> 'z fstate_scheme \<Rightarrow> (unit, 'z fstate_scheme) res" where
  "free_direct ip i s =
     (if i_addrs (icache s ip) ! i \<noteq> 0 then
        andthen (bfree (i_dev (icache s ip)) (i_addrs (icache s ip) ! i) s) (\<lambda>_ s.
        Ok () (upd_inode ip (\<lambda>r. r\<lparr>i_addrs := (i_addrs r)[i := 0]\<rparr>) s))
      else Ok () s)"

definition free_indirect :: "nat \<Rightarrow> nat \<Rightarrow> nat \<Rightarrow> 'z fstate_scheme \<Rightarrow> (unit, 'z fstate_scheme) res" where
  "free_indirect dev bp j s =
     (let a = dec32 (buf_data bp s) (4 * j)
      in if a \<noteq> 0 then bfree dev a s else Ok () s)"

definition itrunc :: "nat \<Rightarrow> 'z fstate_scheme \<Rightarrow> (unit, 'z fstate_scheme) res" where
  "itrunc ip s =
     andthen (foreach (free_direct ip) [0..<NDIRECT] s) (\<lambda>_ s.
     andthen (if i_addrs (icache s ip) ! NDIRECT \<noteq> 0 then
                andthen (bread (i_dev (icache s ip)) (i_addrs (icache s ip) ! NDIRECT) s) (\<lambda>bp s.
                andthen (foreach (free_indirect (i_dev (icache s ip)) bp) [0..<NINDIRECT] s) (\<lambda>_ s.
                andthen (brelse bp s) (\<lambda>_ s.
                andthen (bfree (i_dev (icache s ip)) (i_addrs (icache s ip) ! NDIRECT) s) (\<lambda>_ s.
                Ok () (upd_inode ip (\<lambda>r. r\<lparr>i_addrs := (i_addrs r)[NDIRECT := 0]\<rparr>) s)))))
              else Ok () s) (\<lambda>_ s.
     iupdate ip (upd_inode ip (\<lambda>r. r\<lparr>i_size := 0\<rparr>) s)))"

definition iput :: "nat \<Rightarrow> 'z fstate_scheme \<Rightarrow> (unit, 'z fstate_scheme) res" where
  "iput ip s =
     andthen (acquiresleep (InodeLock ip) s) (\<lambda>_ s.
     andthen (if i_valid (icache s ip) \<and> i_nlink (icache s ip) = 0 then
                andthen (acquire IcacheLock s) (\<lambda>_ s.
                let r = i_ref (icache s ip)
                in andthen (release IcacheLock s) (\<lambda>_ s.
                   if r = 1 then
                     andthen (itrunc ip s) (\<lambda>_ s.
                     andthen (iupdate ip (upd_inode ip (\<lambda>r. r\<lparr>i_type := 0\<rparr>) s)) (\<lambda>_ s.
                     Ok () (upd_inode ip (\<lambda>r. r\<lparr>i_valid := False\<rparr>) s)))
                   else Ok () s))
              else Ok () s) (\<lambda>_ s.
     andthen (releasesleep (InodeLock ip) s) (\<lambda>_ s.
     andthen (acquire IcacheLock s) (\<lambda>_ s.
     release IcacheLock (upd_inode ip (\<lambda>r. r\<lparr>i_ref := i_ref r - 1\<rparr>) s)))))"

definition iunlockput :: "nat \<Rightarrow> 'z fstate_scheme \<Rightarrow> (unit, 'z fstate_scheme) res" where
  "iunlockput ip s = andthen (iunlock ip s) (\<lambda>_ s. iput ip s)"

definition stati :: "nat \<Rightarrow> 'z fstate_scheme \<Rightarrow> stat" where
  "stati ip s = (let r = icache s ip in \<lparr>st_type = i_type r, st_dev = i_dev r, st_ino = i_inum r,
     st_nlink = i_nlink r, st_size = i_size r\<rparr>)"

section \<open>Reading and writing\<close>

definition dev_bad :: "nat \<Rightarrow> 'z fstate_scheme \<Rightarrow> bool" where
  "dev_bad ip s \<longleftrightarrow> sint (i_major (icache s ip)) < 0 \<or> sint (i_major (icache s ip)) \<ge> int NDEV"

text \<open>How many bytes of the block at \<open>off\<close> the next round of the loops handles.\<close>

definition chunk :: "nat \<Rightarrow> nat \<Rightarrow> nat" where
  "chunk off n = min n (BSIZE - off mod BSIZE)"

lemma chunk_pos: "0 < n \<Longrightarrow> 0 < chunk off n"
  by (simp add: chunk_def BSIZE_def)

function readi_loop :: "nat \<Rightarrow> nat \<Rightarrow> nat \<Rightarrow> 'z fstate_scheme \<Rightarrow> (u8 list, 'z fstate_scheme) res" where
  "readi_loop ip off n s =
     (if n = 0 then Ok [] s
      else
        andthen (bmap ip (off div BSIZE) s) (\<lambda>b s.
        andthen (bread (i_dev (icache s ip)) b s) (\<lambda>bp s.
        let m = chunk off n; c = get_bytes (buf_data bp s) (off mod BSIZE) m
        in andthen (brelse bp s) (\<lambda>_ s.
           andthen (readi_loop ip (off + m) (n - m) s) (\<lambda>rest s. Ok (c @ rest) s)))))"
  by auto
termination
  by (relation "measure (\<lambda>(ip, off, n, s). n)") (auto simp: chunk_pos)

definition readi ::
  "'z fstate_scheme devread \<Rightarrow> nat \<Rightarrow> nat \<Rightarrow> nat \<Rightarrow> 'z fstate_scheme \<Rightarrow> (int \<times> u8 list, 'z fstate_scheme) res" where
  "readi dr ip off n s =
     (if i_type (icache s ip) = T_DEV then
        (if dev_bad ip s then Ok (-1, []) s
         else case dr (unat (i_major (icache s ip))) of
                None \<Rightarrow> Ok (-1, []) s
              | Some f \<Rightarrow> f ip n s)
      else if off > i_size (icache s ip) \<or> (off + n) mod 4294967296 < off then Ok (-1, []) s
      else
        let n = (if (off + n) mod 4294967296 > i_size (icache s ip) then i_size (icache s ip) - off else n)
        in andthen (readi_loop ip off n s) (\<lambda>bs s. Ok (int n, bs) s))"

function writei_loop :: "nat \<Rightarrow> u8 list \<Rightarrow> nat \<Rightarrow> 'z fstate_scheme \<Rightarrow> (unit, 'z fstate_scheme) res" where
  "writei_loop ip src off s =
     (if src = [] then Ok () s
      else
        andthen (bmap ip (off div BSIZE) s) (\<lambda>b s.
        andthen (bread (i_dev (icache s ip)) b s) (\<lambda>bp s.
        let m = chunk off (length src)
        in andthen (log_write bp
             (set_data bp (put_bytes (buf_data bp s) (off mod BSIZE) (take m src)) s)) (\<lambda>_ s.
           andthen (brelse bp s) (\<lambda>_ s.
           writei_loop ip (drop m src) (off + m) s)))))"
  by auto
termination
  by (relation "measure (\<lambda>(ip, src, off, s). length src)") (auto simp: chunk_pos)

declare readi_loop.simps [simp del] writei_loop.simps [simp del]

definition writei ::
  "'z fstate_scheme devwrite \<Rightarrow> nat \<Rightarrow> u8 list \<Rightarrow> nat \<Rightarrow> 'z fstate_scheme \<Rightarrow> (int, 'z fstate_scheme) res" where
  "writei dw ip src off s =
     (let n = length src in
      if i_type (icache s ip) = T_DEV then
        (if dev_bad ip s then Ok (-1) s
         else case dw (unat (i_major (icache s ip))) of
                None \<Rightarrow> Ok (-1) s
              | Some f \<Rightarrow> f ip src s)
      else if off > i_size (icache s ip) \<or> (off + n) mod 4294967296 < off then Ok (-1) s
      else if (off + n) mod 4294967296 > MAXFILE * BSIZE then Ok (-1) s
      else
        andthen (writei_loop ip src off s) (\<lambda>_ s.
        if n > 0 \<and> off + n > i_size (icache s ip)
        then andthen (iupdate ip (upd_inode ip (\<lambda>r. r\<lparr>i_size := off + n\<rparr>) s)) (\<lambda>_ s. Ok (int n) s)
        else Ok (int n) s))"

section \<open>Directories\<close>

definition namecmp :: "bytes \<Rightarrow> bytes \<Rightarrow> int" where
  "namecmp s t = strncmp s t DIRSIZ"

definition DIRENT :: nat where "DIRENT = 16"

fun dirlookup_loop ::
  "'z fstate_scheme devread \<Rightarrow> nat \<Rightarrow> u8 list \<Rightarrow> nat list \<Rightarrow> 'z fstate_scheme \<Rightarrow>
   ((nat \<times> nat) option, 'z fstate_scheme) res" where
  "dirlookup_loop dr dp name [] s = Ok None s"
| "dirlookup_loop dr dp name (off # offs) s =
     andthen (readi dr dp off DIRENT s) (\<lambda>(r, bs) s.
     if r \<noteq> int DIRENT then Panic ''dirlookup read''
     else
       let de = dec_dirent bs
       in if de_inum de = 0 then dirlookup_loop dr dp name offs s
          else if namecmp (cstr name) (cstr (de_name de)) = 0 then
            andthen (iget (i_dev (icache s dp)) (unat (de_inum de)) s) (\<lambda>ip s. Ok (Some (ip, off)) s)
          else dirlookup_loop dr dp name offs s)"

definition dirlookup ::
  "'z fstate_scheme devread \<Rightarrow> nat \<Rightarrow> u8 list \<Rightarrow> 'z fstate_scheme \<Rightarrow> ((nat \<times> nat) option, 'z fstate_scheme) res" where
  "dirlookup dr dp name s =
     (if i_type (icache s dp) \<noteq> T_DIR then Panic ''dirlookup not DIR''
      else dirlookup_loop dr dp name (steps (i_size (icache s dp)) DIRENT) s)"

text \<open>The search of \<open>dirlink\<close> for a free entry: the offset where the loop stops.\<close>

fun dirfree_loop ::
  "'z fstate_scheme devread \<Rightarrow> nat \<Rightarrow> nat list \<Rightarrow> nat \<Rightarrow> 'z fstate_scheme \<Rightarrow> (nat, 'z fstate_scheme) res" where
  "dirfree_loop dr dp [] fin s = Ok fin s"
| "dirfree_loop dr dp (off # offs) fin s =
     andthen (readi dr dp off DIRENT s) (\<lambda>(r, bs) s.
     if r \<noteq> int DIRENT then Panic ''dirlink read''
     else if de_inum (dec_dirent bs) = 0 then Ok off s
     else dirfree_loop dr dp offs fin s)"

definition new_dirent :: "u8 list \<Rightarrow> nat \<Rightarrow> dirent" where
  "new_dirent name inum = \<lparr>de_inum = of_nat inum,
     de_name = map (strncpy (\<lambda>_. 0) (cstr name) (int DIRSIZ)) [0..<DIRSIZ]\<rparr>"

definition dirlink ::
  "'z fstate_scheme devread \<Rightarrow> 'z fstate_scheme devwrite \<Rightarrow> nat \<Rightarrow> u8 list \<Rightarrow> nat \<Rightarrow> 'z fstate_scheme \<Rightarrow>
   (int, 'z fstate_scheme) res" where
  "dirlink dr dw dp name inum s =
     andthen (dirlookup dr dp name s) (\<lambda>r s.
     case r of
       Some (ip, _) \<Rightarrow> andthen (iput ip s) (\<lambda>_ s. Ok (-1) s)
     | None \<Rightarrow>
         (let offs = steps (i_size (icache s dp)) DIRENT
          in andthen (dirfree_loop dr dp offs (DIRENT * length offs) s) (\<lambda>off s.
             andthen (writei dw dp (enc_dirent (new_dirent name inum)) off s) (\<lambda>r s.
             if r \<noteq> int DIRENT then Panic ''dirlink'' else Ok 0 s))))"

section \<open>Paths\<close>

definition slash :: u8 where "slash = 47"

text \<open>Paths are C strings; the result is the element, cut to \<open>DIRSIZ\<close> bytes, and the rest.\<close>

definition skipelem :: "u8 list \<Rightarrow> (u8 list \<times> u8 list) option" where
  "skipelem path =
     (let path = dropWhile (\<lambda>c. c = slash) path
      in if path = [] then None
         else
           let elem = takeWhile (\<lambda>c. c \<noteq> slash) path;
               path = drop (length elem) path
           in Some (take DIRSIZ elem, dropWhile (\<lambda>c. c = slash) path))"

lemma skipelem_shorter: "skipelem path = Some (name, rest) \<Longrightarrow> length rest < length path"
proof -
  assume s: "skipelem path = Some (name, rest)"
  let ?p = "dropWhile (\<lambda>c. c = slash) path"
  let ?e = "takeWhile (\<lambda>c. c \<noteq> slash) ?p"
  have ne: "?p \<noteq> []" and r: "rest = dropWhile (\<lambda>c. c = slash) (drop (length ?e) ?p)"
    using s by (auto simp: skipelem_def Let_def split: if_splits)
  then have "hd ?p \<noteq> slash" using hd_dropWhile [of "\<lambda>c. c = slash" path] by simp
  then have "0 < length ?e" using ne by (cases ?p) auto
  moreover have "length rest \<le> length ?p - length ?e" using length_dropWhile_le r by (metis length_drop)
  moreover have "length ?p \<le> length path" by (rule length_dropWhile_le)
  moreover have "0 < length ?p" using ne by simp
  ultimately show ?thesis by linarith
qed

function namex_loop ::
  "'z fstate_scheme devread \<Rightarrow> bool \<Rightarrow> nat \<Rightarrow> u8 list \<Rightarrow> 'z fstate_scheme \<Rightarrow>
   ((nat \<times> u8 list) option, 'z fstate_scheme) res" where
  "namex_loop dr parent ip path s =
     (case skipelem path of
        None \<Rightarrow> if parent then andthen (iput ip s) (\<lambda>_ s. Ok None s) else Ok (Some (ip, [])) s
      | Some (name, rest) \<Rightarrow>
          andthen (ilock ip s) (\<lambda>_ s.
          if i_type (icache s ip) \<noteq> T_DIR then andthen (iunlockput ip s) (\<lambda>_ s. Ok None s)
          else if parent \<and> rest = [] then andthen (iunlock ip s) (\<lambda>_ s. Ok (Some (ip, name)) s)
          else
            andthen (dirlookup dr ip name s) (\<lambda>r s.
            andthen (iunlockput ip s) (\<lambda>_ s.
            case r of
              None \<Rightarrow> Ok None s
            | Some (nxt, _) \<Rightarrow> namex_loop dr parent nxt rest s))))"
  by pat_completeness auto
termination
  by (relation "measure (\<lambda>(dr, parent, ip, path, s). length path)") (auto simp: skipelem_shorter)

declare namex_loop.simps [simp del]

definition namex ::
  "'z fstate_scheme devread \<Rightarrow> u8 list \<Rightarrow> bool \<Rightarrow> 'z fstate_scheme \<Rightarrow>
   ((nat \<times> u8 list) option, 'z fstate_scheme) res" where
  "namex dr path parent s =
     andthen (if path \<noteq> [] \<and> hd path = slash then iget ROOTDEV ROOTINO s
              else
                andthen (myproc s) (\<lambda>p s.
                case p of
                  None \<Rightarrow> Panic ''null proc''
                | Some p \<Rightarrow>
                    (case p_cwd (procs s p) of None \<Rightarrow> Panic ''null cwd'' | Some cwd \<Rightarrow> idup cwd s))) (\<lambda>ip s.
     namex_loop dr parent ip path s)"

definition namei ::
  "'z fstate_scheme devread \<Rightarrow> u8 list \<Rightarrow> 'z fstate_scheme \<Rightarrow> (nat option, 'z fstate_scheme) res" where
  "namei dr path s =
     andthen (namex dr path False s) (\<lambda>r s. Ok (case r of None \<Rightarrow> None | Some (ip, _) \<Rightarrow> Some ip) s)"

definition nameiparent ::
  "'z fstate_scheme devread \<Rightarrow> u8 list \<Rightarrow> 'z fstate_scheme \<Rightarrow> ((nat \<times> u8 list) option, 'z fstate_scheme) res" where
  "nameiparent dr path s = namex dr path True s"

end
