(* ===== verification/Fs_Blocks.thy ===== *)
theory Fs_Blocks
  imports Fs
begin

text \<open>
  The block allocator: bits of the free map, and what \<open>bzero\<close>, \<open>balloc\<close> and \<open>bfree\<close> do to
  the contents of the disk as the cache sees it.
\<close>

section \<open>The file-system state and the cache\<close>

lemma lcore_fs:
  fixes s :: "'z fstate_scheme"
  assumes "lcore t = lcore s"
  shows "icache t = icache s" "fs_sb t = fs_sb s"
proof -
  have e: "fst (lcore t) = fst (lcore s)" using assms by simp
  have "icache (fst (lcore u)) = icache u" "fs_sb (fst (lcore u)) = fs_sb u" for u :: "'z fstate_scheme"
    by (simp_all add: lcore_def bcore_def)
  with e show "icache t = icache s" "fs_sb t = fs_sb s" by metis+
qed

lemma txn_lim: "txn c p s \<Longrightarrow> log_lim s \<le> NBUF"
  by (auto simp: txn_def log_sound_def log_lim_def)

text \<open>A block the file system may read and change: on the disk, not in the log, not held.\<close>

definition blk_ok :: "nat \<Rightarrow> nat \<Rightarrow> 'z fstate_scheme \<Rightarrow> bool" where
  "blk_ok p b s \<longleftrightarrow> b < disksize s \<and> b \<notin> log_area s \<and> b \<notin> bheld s"

definition fsroom :: "nat \<Rightarrow> nat \<Rightarrow> 'z fstate_scheme \<Rightarrow> bool" where
  "fsroom k p s \<longleftrightarrow> fits k (log_lim s) (bcache p s)"

lemma lcore_area:
  assumes "lcore t = lcore s"
  shows "log_area t = log_area s" "log_lim t = log_lim s"
proof -
  have e: "fst (lcore t) = fst (lcore s)" using assms by simp
  have "log_start (fst (lcore u)) = log_start u" "log_size (fst (lcore u)) = log_size u" for u :: "'a lstate_scheme"
    by (simp_all add: lcore_def bcore_def)
  then have "log_start t = log_start s" "log_size t = log_size s" using e by metis+
  then show "log_area t = log_area s" "log_lim t = log_lim s" by (simp_all add: log_area_def log_lim_def)
qed

lemma bcache_size: "bcache p t = bcache p s \<Longrightarrow> disksize t = disksize s"
  by (metis bcache_sel)

lemma fsroom_put:
  "fsroom (Suc k) p s \<Longrightarrow> lcore t = lcore s \<Longrightarrow> bcache p t = a_put b d (bcache p s) \<Longrightarrow> fsroom k p t"
  using lcore_area(2) [of t s] by (simp add: fsroom_def fits_put)

lemma fsroom_same: "lcore t = lcore s \<Longrightarrow> bcache p t = bcache p s \<Longrightarrow> fsroom k p t \<longleftrightarrow> fsroom k p s"
  using lcore_area(2) [of t s] by (simp add: fsroom_def)

lemma blk_ok_put:
  "lcore t = lcore s \<Longrightarrow> bcache p t = a_put b d (bcache p s) \<Longrightarrow> blk_ok p x t \<longleftrightarrow> blk_ok p x s"
  by (metis blk_ok_def lcore_area(1) bcache_sel a_put_sel)

lemma blk_ok_same: "lcore t = lcore s \<Longrightarrow> bcache p t = bcache p s \<Longrightarrow> blk_ok p x t \<longleftrightarrow> blk_ok p x s"
  by (metis blk_ok_def lcore_area(1) bcache_sel)

lemma bview_put: "bcache p t = a_put b d (bcache p s) \<Longrightarrow> bview t = (bview s)(b := d)"
  by (metis bcache_sel(1) a_put_sel(1))

lemma bview_same: "bcache p t = bcache p s \<Longrightarrow> bview t = bview s"
  by (metis bcache_sel(1))

lemma fs_peek:
  assumes "txn c p s" "fsroom (Suc k) p s" "b < disksize s" "b \<notin> bheld s"
  obtains i t u where "bread 1 b s = Ok i t" "buf_data i t = bview s b" "lcore t = lcore s"
    "brelse i t = Ok () u" "txn c p u" "bcache p u = bcache p s" "lcore u = lcore s"
proof -
  have "can_read b (bcache p s)"
    using assms txn_lim by (intro fits_can_read) (auto simp: fsroom_def)
  from assms(1) this that [folded bcache_sel(1) [of p]] show ?thesis by (rule tx.peek)
qed

lemma fs_modify:
  assumes "txn c p s" "fsroom (Suc k) p s" "blk_ok p b s" "length (f (bview s b)) = BSIZE"
  obtains i t w u where "bread 1 b s = Ok i t" "buf_data i t = bview s b" "lcore t = lcore s"
    "log_write i (set_data i (f (bview s b)) t) = Ok () w" "brelse i w = Ok () u"
    "txn c p u" "lcore u = lcore s" "bcache p u = a_put b (f (bview s b)) (bcache p s)"
proof -
  have cr: "can_read b (bcache p s)"
    using assms txn_lim by (intro fits_can_read) (auto simp: fsroom_def blk_ok_def)
  have d: "card (ca_dirty (bcache p s)) < log_lim s" using assms(2) unfolding fsroom_def by (rule fits_dirty)
  have r: "b \<notin> log_area s" using assms(3) by (simp add: blk_ok_def)
  have l: "length (f (ca_view (bcache p s) b)) = BSIZE" using assms(4) by simp
  from assms(1) cr l r d that [folded bcache_sel(1) [of p]] show ?thesis by (rule tx.modify [where f = f])
qed

section \<open>Bits\<close>

lemma bit_mask8_bit: "bit (bit_mask8 bi) n \<longleftrightarrow> n = bi mod 8"
  by (auto simp: bit_mask8_def bit_simps)

lemma and_bit_mask8: "x AND bit_mask8 bi = 0 \<longleftrightarrow> \<not> bit x (bi mod 8)"
  using bit_eq_iff [of "x AND bit_mask8 bi" 0] bit_imp_le_length [of x "bi mod 8"]
  by (auto simp: bit_and_iff bit_mask8_bit dest: spec [of _ "bi mod 8"])

lemma bit_free_bit: "bit_free d bi \<longleftrightarrow> \<not> bit (d ! (bi div 8)) (bi mod 8)"
  by (simp add: bit_free_def and_bit_mask8)

lemma same_bit: "(i :: nat) div 8 = j div 8 \<Longrightarrow> i mod 8 = j mod 8 \<longleftrightarrow> i = j"
  by (metis div_mult_mod_eq)

lemma bit_free_set:
  "bi div 8 < length d \<Longrightarrow> bit_free (set_bit8 d bi) bj \<longleftrightarrow> bj \<noteq> bi \<and> bit_free d bj"
  using same_bit [of bj bi]
  by (auto simp: bit_free_bit set_bit8_def nth_list_update bit_or_iff bit_mask8_bit)

lemma bit_free_clear:
  "bi div 8 < length d \<Longrightarrow> bit_free (clear_bit8 d bi) bj \<longleftrightarrow> bj = bi \<or> bit_free d bj"
  using same_bit [of bj bi]
  by (auto simp: bit_free_bit clear_bit8_def nth_list_update bit_and_iff bit_not_iff bit_mask8_bit)

lemma length_bits [simp]: "length (set_bit8 d bi) = length d" "length (clear_bit8 d bi) = length d"
  by (simp_all add: set_bit8_def clear_bit8_def)

section \<open>Operations\<close>

lemma bzero_ok:
  assumes "txn c p s" "fsroom (Suc k) p s" "blk_ok p b s"
  obtains t where "bzero 1 b s = Ok () t" "txn c p t" "lcore t = lcore s"
    "bcache p t = a_put b (replicate BSIZE 0) (bcache p s)"
proof -
  have "length ((\<lambda>_. replicate BSIZE 0) (bview s b)) = BSIZE" by simp
  from assms this obtain i t w u where *: "bread 1 b s = Ok i t"
    "log_write i (set_data i (replicate BSIZE 0) t) = Ok () w" "brelse i w = Ok () u"
    "txn c p u" "lcore u = lcore s" "bcache p u = a_put b (replicate BSIZE 0) (bcache p s)"
    by (rule fs_modify)
  then have "bzero 1 b s = Ok () u" by (simp add: bzero_def)
  then show ?thesis using * that by blast
qed

text \<open>The free bits the scan of one bitmap block looks at.\<close>

definition first_bit :: "(nat \<Rightarrow> u8 list) \<Rightarrow> superblock \<Rightarrow> nat \<Rightarrow> nat option" where
  "first_bit v sb b = find (bit_free (v (BBLOCK b sb))) [0..<min BPB (sb_size sb - b)]"

lemma balloc_skip:
  assumes "txn c p s" "fsroom (Suc k) p s" "BBLOCK b (fs_sb s) < disksize s" "BBLOCK b (fs_sb s) \<notin> bheld s"
    "first_bit (bview s) (fs_sb s) b = None"
  obtains u where "balloc_loop 1 (b # bs) s = balloc_loop 1 bs u" "txn c p u" "bcache p u = bcache p s"
    "lcore u = lcore s"
proof -
  from assms(1-4) obtain i t u where *: "bread 1 (BBLOCK b (fs_sb s)) s = Ok i t"
    "buf_data i t = bview s (BBLOCK b (fs_sb s))" "lcore t = lcore s" "brelse i t = Ok () u"
    "txn c p u" "bcache p u = bcache p s" "lcore u = lcore s" by (rule fs_peek)
  then have "balloc_loop 1 (b # bs) s = balloc_loop 1 bs u"
    using assms(5) lcore_fs(2) [OF *(3)] by (simp add: first_bit_def)
  then show ?thesis using * that by blast
qed

lemma balloc_take:
  assumes "txn c p s" "fsroom (Suc (Suc k)) p s" "blk_ok p (BBLOCK b (fs_sb s)) s" "blk_ok p (b + bi) s"
    "first_bit (bview s) (fs_sb s) b = Some bi" "length (bview s (BBLOCK b (fs_sb s))) = BSIZE"
  obtains u where "balloc_loop 1 (b # bs) s = Ok (b + bi) u" "txn c p u" "lcore u = lcore s"
    "bcache p u = a_put (b + bi) (replicate BSIZE 0)
      (a_put (BBLOCK b (fs_sb s)) (set_bit8 (bview s (BBLOCK b (fs_sb s))) bi) (bcache p s))"
proof -
  let ?f = "\<lambda>d. set_bit8 d bi"
  have "length (?f (bview s (BBLOCK b (fs_sb s)))) = BSIZE" using assms(6) by simp
  from assms(1-3) this obtain i t w u where *: "bread 1 (BBLOCK b (fs_sb s)) s = Ok i t"
    "buf_data i t = bview s (BBLOCK b (fs_sb s))" "lcore t = lcore s"
    "log_write i (set_data i (set_bit8 (bview s (BBLOCK b (fs_sb s))) bi) t) = Ok () w" "brelse i w = Ok () u"
    "txn c p u" "lcore u = lcore s"
    "bcache p u = a_put (BBLOCK b (fs_sb s)) (set_bit8 (bview s (BBLOCK b (fs_sb s))) bi) (bcache p s)"
    by (rule fs_modify)
  have "fsroom (Suc k) p u" using assms(2) *(7,8) by (rule fsroom_put)
  moreover have "blk_ok p (b + bi) u" using assms(4) blk_ok_put [OF *(7,8)] by simp
  ultimately obtain z where z: "bzero 1 (b + bi) u = Ok () z" "txn c p z" "lcore z = lcore u"
    "bcache p z = a_put (b + bi) (replicate BSIZE 0) (bcache p u)"
    using bzero_ok [OF *(6)] by blast
  have "balloc_loop 1 (b # bs) s = Ok (b + bi) z"
    using assms(5) * z(1) lcore_fs(2) [OF *(3)] by (simp add: first_bit_def)
  then show ?thesis using z(2) z(3,4) *(7,8) by (intro that) simp_all
qed

lemma balloc_search:
  assumes "txn c p s" "fsroom (Suc k) p s"
    "\<forall>b\<in>set as. blk_ok p (BBLOCK b (fs_sb s)) s \<and> first_bit (bview s) (fs_sb s) b = None"
  obtains u where "balloc_loop 1 (as @ bs) s = balloc_loop 1 bs u" "txn c p u" "bcache p u = bcache p s"
    "lcore u = lcore s"
  using assms
proof (induction as arbitrary: s thesis)
  case Nil
  then show ?case by simp
next
  case (Cons a as)
  from Cons.prems(4) have a: "BBLOCK a (fs_sb s) < disksize s" "BBLOCK a (fs_sb s) \<notin> bheld s"
    "first_bit (bview s) (fs_sb s) a = None" by (auto simp: blk_ok_def)
  from Cons.prems(2,3) a obtain t where t: "balloc_loop 1 (a # (as @ bs)) s = balloc_loop 1 (as @ bs) t"
    "txn c p t" "bcache p t = bcache p s" "lcore t = lcore s" by (rule balloc_skip)
  have r: "fsroom (Suc k) p t" using Cons.prems(3) fsroom_same [OF t(4,3)] by simp
  have "\<forall>b\<in>set as. blk_ok p (BBLOCK b (fs_sb t)) t \<and> first_bit (bview t) (fs_sb t) b = None"
    using Cons.prems(4) by (simp add: lcore_fs(2) [OF t(4)] bview_same [OF t(3)] blk_ok_same [OF t(4,3)])
  from Cons.IH [OF _ t(2) r this] obtain u where u: "balloc_loop 1 (as @ bs) t = balloc_loop 1 bs u" "txn c p u"
    "bcache p u = bcache p t" "lcore u = lcore t" by blast
  show ?case
    by (rule Cons.prems(1) [of u]) (simp_all only: append_Cons t(1,3,4) u)
qed

definition block_free :: "'z fstate_scheme \<Rightarrow> nat \<Rightarrow> bool" where
  "block_free s b \<longleftrightarrow> bit_free (bview s (BBLOCK b (fs_sb s))) (b mod BPB)"

lemma BPB_pos: "0 < BPB"
  by (simp add: layout_defs)

lemma steps_split:
  assumes "x < n" "0 < k"
  obtains as bs where "steps n k = as @ (x - x mod k) # bs" "\<forall>a\<in>set as. a + k \<le> x - x mod k \<and> k dvd a"
proof -
  let ?m = "(n + k - 1) div k"
  have "x div k * k < n" using assms by (metis div_mult_mod_eq le_add1 le_less_trans)
  then have "x div k < ?m"
    using assms(2) by (simp add: less_eq_div_iff_mult_less_eq Suc_le_eq [symmetric])
  then have "[0..<?m] = [0..<x div k] @ (x div k) # [Suc (x div k)..<?m]"
    by (metis less_imp_le_nat upt_add_eq_append upt_conv_Cons zero_le le_add_diff_inverse)
  then have "steps n k = map (\<lambda>j. j * k) [0..<x div k] @ (x div k * k) # map (\<lambda>j. j * k) [Suc (x div k)..<?m]"
    by (simp add: steps_def)
  moreover have "x div k * k = x - x mod k" by (simp add: minus_mod_eq_div_mult)
  moreover have "j * k + k \<le> x div k * k" if "j < x div k" for j
    using that by (metis Suc_leI add.commute mult_Suc mult_le_mono1)
  ultimately show ?thesis
    using that [of "map (\<lambda>j. j * k) [0..<x div k]" "map (\<lambda>j. j * k) [Suc (x div k)..<?m]"] by auto
qed

lemma BBLOCK_base:
  assumes "BPB dvd a" "i < BPB"
  shows "BBLOCK (a + i) sb = BBLOCK a sb" "(a + i) mod BPB = i"
  using assms by (auto simp: BBLOCK_def elim!: dvdE)

lemma first_bit_None:
  assumes "BPB dvd a" "\<forall>y<a + BPB. y < sb_size (fs_sb s) \<longrightarrow> \<not> block_free s y"
  shows "first_bit (bview s) (fs_sb s) a = None"
proof -
  have "\<not> bit_free (bview s (BBLOCK a (fs_sb s))) i" if "i < BPB" "a + i < sb_size (fs_sb s)" for i
    using assms(2) [rule_format, of "a + i"] that BBLOCK_base [OF assms(1) that(1)]
    by (simp add: block_free_def)
  then show ?thesis by (auto simp: first_bit_def find_None_iff)
qed

lemma first_bit_Some:
  assumes "x < sb_size (fs_sb s)" "block_free s x" "\<forall>y<x. \<not> block_free s y"
  shows "first_bit (bview s) (fs_sb s) (x - x mod BPB) = Some (x mod BPB)"
proof -
  let ?a = "x - x mod BPB"
  have d: "BPB dvd ?a" by (simp add: minus_mod_eq_div_mult)
  have m: "x mod BPB < BPB" "?a + x mod BPB = x" by (simp_all add: BPB_pos)
  have "\<not> bit_free (bview s (BBLOCK ?a (fs_sb s))) i" if "i < x mod BPB" for i
  proof -
    have "?a + i < x" "i < BPB" using that m by linarith+
    then show ?thesis using assms(3) BBLOCK_base [OF d, of i] by (auto simp: block_free_def)
  qed
  moreover have "bit_free (bview s (BBLOCK ?a (fs_sb s))) (x mod BPB)"
    using assms(2) BBLOCK_base(1) [OF d m(1)] m(2) by (simp add: block_free_def)
  moreover have "x mod BPB < min BPB (sb_size (fs_sb s) - ?a)" using m assms(1) by linarith
  ultimately show ?thesis
    unfolding first_bit_def find_Some_iff by (intro exI [of _ "x mod BPB"]) simp
qed

lemma txn_length: "txn c p s \<Longrightarrow> length (bview s b) = BSIZE"
  by (simp add: txn_def log_sound_def bgood_def length_bview)

text \<open>The bitmap of the disk is where the super block says, outside the log, and unlocked.\<close>

definition bitmap_ok :: "nat \<Rightarrow> 'z fstate_scheme \<Rightarrow> bool" where
  "bitmap_ok p s \<longleftrightarrow> (\<forall>b < sb_size (fs_sb s). blk_ok p (BBLOCK b (fs_sb s)) s)"

lemma bitmap_okD: "bitmap_ok p s \<Longrightarrow> b < sb_size (fs_sb s) \<Longrightarrow> blk_ok p (BBLOCK b (fs_sb s)) s"
  by (simp add: bitmap_ok_def)

lemma balloc_ok:
  assumes "txn c p s" "fsroom (Suc (Suc k)) p s" "bitmap_ok p s"
    "x < sb_size (fs_sb s)" "block_free s x" "\<forall>y<x. \<not> block_free s y" "blk_ok p x s"
  obtains t where "balloc 1 s = Ok x t" "txn c p t" "lcore t = lcore s"
    "bcache p t = a_put x (replicate BSIZE 0)
      (a_put (BBLOCK x (fs_sb s)) (set_bit8 (bview s (BBLOCK x (fs_sb s))) (x mod BPB)) (bcache p s))"
proof -
  let ?a = "x - x mod BPB"
  obtain as bs where l: "steps (sb_size (fs_sb s)) BPB = as @ ?a # bs" "\<forall>a\<in>set as. a + BPB \<le> ?a \<and> BPB dvd a"
    using steps_split [OF assms(4) BPB_pos] by blast
  have "\<forall>a\<in>set as. blk_ok p (BBLOCK a (fs_sb s)) s \<and> first_bit (bview s) (fs_sb s) a = None"
  proof
    fix a assume "a \<in> set as"
    then have a: "a + BPB \<le> ?a" "BPB dvd a" using l(2) by auto
    have "\<forall>y<a + BPB. y < sb_size (fs_sb s) \<longrightarrow> \<not> block_free s y" using a(1) assms(6) by auto
    moreover have "a < sb_size (fs_sb s)" using a(1) assms(4) BPB_pos by linarith
    ultimately show "blk_ok p (BBLOCK a (fs_sb s)) s \<and> first_bit (bview s) (fs_sb s) a = None"
      using first_bit_None [OF a(2)] bitmap_okD [OF assms(3)] by simp
  qed
  from balloc_search [OF assms(1,2) this, of "?a # bs"] obtain u where
    u: "balloc_loop 1 (as @ ?a # bs) s = balloc_loop 1 (?a # bs) u" "txn c p u" "bcache p u = bcache p s"
      "lcore u = lcore s" by blast
  note same = lcore_fs(2) [OF u(4)] bview_same [OF u(3)] blk_ok_same [OF u(4,3)] fsroom_same [OF u(4,3)]
  have b: "BBLOCK ?a (fs_sb s) = BBLOCK x (fs_sb s)" "?a + x mod BPB = x"
    using BBLOCK_base(1) [of ?a "x mod BPB" "fs_sb s"] BPB_pos by (simp_all add: minus_mod_eq_div_mult)
  have r: "fsroom (Suc (Suc k)) p u" using assms(2) same by simp
  have k: "blk_ok p (BBLOCK ?a (fs_sb u)) u" "blk_ok p (?a + x mod BPB) u"
    using assms(7) bitmap_okD [OF assms(3,4)] by (simp_all add: same b)
  have f: "first_bit (bview u) (fs_sb u) ?a = Some (x mod BPB)"
    using first_bit_Some [OF assms(4-6)] by (simp add: same)
  from balloc_take [OF u(2) r k f txn_length [OF u(2)], of bs] obtain t where
    t: "balloc_loop 1 (?a # bs) u = Ok (?a + x mod BPB) t" "txn c p t" "lcore t = lcore u"
      "bcache p t = a_put (?a + x mod BPB) (replicate BSIZE 0) (a_put (BBLOCK ?a (fs_sb u))
        (set_bit8 (bview u (BBLOCK ?a (fs_sb u))) (x mod BPB)) (bcache p u))" by blast
  have "balloc 1 s = Ok x t" using u(1) t(1) b(2) unfolding balloc_def l(1) by metis
  then show ?thesis using t(2) t(3,4) u(3,4) same(1,2) b by (intro that [of t]) simp_all
qed

lemma balloc_full:
  assumes "txn c p s" "fsroom (Suc k) p s" "bitmap_ok p s" "\<forall>y < sb_size (fs_sb s). \<not> block_free s y"
  shows "balloc 1 s = Panic ''balloc: out of blocks''"
proof -
  let ?n = "sb_size (fs_sb s)"
  have "\<forall>a\<in>set (steps ?n BPB). blk_ok p (BBLOCK a (fs_sb s)) s \<and> first_bit (bview s) (fs_sb s) a = None"
  proof
    fix a assume "a \<in> set (steps ?n BPB)"
    then have "a \<in> (\<lambda>j. j * BPB) ` {0..<(?n + BPB - 1) div BPB}" by (simp add: steps_def)
    then obtain j where "a = j * BPB" "j \<in> {0..<(?n + BPB - 1) div BPB}" by blast
    then have j: "a = j * BPB" "j < (?n + BPB - 1) div BPB" by simp_all
    then have "a < ?n" using BPB_pos by (simp add: less_eq_div_iff_mult_less_eq Suc_le_eq [symmetric])
    moreover have "first_bit (bview s) (fs_sb s) a = None"
      using assms(4) by (intro first_bit_None) (simp_all add: j(1))
    ultimately show "blk_ok p (BBLOCK a (fs_sb s)) s \<and> first_bit (bview s) (fs_sb s) a = None"
      using bitmap_okD [OF assms(3)] by simp
  qed
  from balloc_search [OF assms(1,2) this, of "[]"] show ?thesis by (auto simp: balloc_def)
qed

text \<open>The free map after the bit of block \<open>x\<close> has been set and the block cleared.\<close>

lemma free_map_set:
  assumes v: "bview t = (bview s)(BBLOCK x (fs_sb s) := set_bit8 (bview s (BBLOCK x (fs_sb s))) (x mod BPB), x := z)"
    and sb: "fs_sb t = fs_sb s" and len: "length (bview s (BBLOCK x (fs_sb s))) = BSIZE"
    and apart: "\<forall>b < sb_size (fs_sb s). BBLOCK b (fs_sb s) \<noteq> x" and b: "b < sb_size (fs_sb s)"
  shows "block_free t b \<longleftrightarrow> b \<noteq> x \<and> block_free s b"
proof (cases "BBLOCK b (fs_sb s) = BBLOCK x (fs_sb s)")
  case True
  have "x mod BPB div 8 < BSIZE" using mod_less_divisor [OF BPB_pos, of x] by (simp add: BPB_def)
  then have bits: "bit_free (set_bit8 (bview s (BBLOCK x (fs_sb s))) (x mod BPB)) j \<longleftrightarrow>
    j \<noteq> x mod BPB \<and> bit_free (bview s (BBLOCK x (fs_sb s))) j" for j
    using len by (intro bit_free_set) simp
  have "b = x" if "b mod BPB = x mod BPB"
    using that True by (simp add: BBLOCK_def) (metis div_mult_mod_eq)
  then show ?thesis using apart b True bits [of "b mod BPB"] by (auto simp: block_free_def v sb)
next
  case False
  then have "b \<noteq> x" by auto
  with False show ?thesis using apart b by (simp add: block_free_def v sb)
qed

text \<open>
  C24. Inside a transaction with room for two more blocks, \<open>balloc\<close> returns the first block
  whose bit in the free map is clear. Afterwards the bit of that block is set, its contents
  are zero, and every other block of the disk is as before; the other bits of the free map
  are unchanged, and the inode table and the super block are not touched.
\<close>

theorem balloc_first_free:
  assumes "txn c p s" "fsroom 2 p s" "bitmap_ok p s"
    "x < sb_size (fs_sb s)" "block_free s x" "\<forall>y<x. \<not> block_free s y" "blk_ok p x s"
    "\<forall>b < sb_size (fs_sb s). BBLOCK b (fs_sb s) \<noteq> x"
  shows "\<exists>t. balloc 1 s = Ok x t \<and> txn c p t \<and> bview t x = replicate BSIZE 0 \<and>
    (\<forall>b < sb_size (fs_sb s). block_free t b \<longleftrightarrow> b \<noteq> x \<and> block_free s b) \<and>
    (\<forall>b. b \<noteq> x \<and> b \<noteq> BBLOCK x (fs_sb s) \<longrightarrow> bview t b = bview s b) \<and>
    icache t = icache s \<and> fs_sb t = fs_sb s"
proof -
  have "fsroom (Suc (Suc 0)) p s" using assms(2) by (simp add: numeral_2_eq_2)
  from assms(1) this assms(3-7) obtain t where t: "balloc 1 s = Ok x t" "txn c p t" "lcore t = lcore s"
    "bcache p t = a_put x (replicate BSIZE 0)
      (a_put (BBLOCK x (fs_sb s)) (set_bit8 (bview s (BBLOCK x (fs_sb s))) (x mod BPB)) (bcache p s))"
    by (rule balloc_ok)
  have v: "bview t = (bview s)(BBLOCK x (fs_sb s) := set_bit8 (bview s (BBLOCK x (fs_sb s))) (x mod BPB), x := replicate BSIZE 0)"
    using arg_cong [OF t(4), of ca_view] by simp
  then show ?thesis using t(1,2) lcore_fs [OF t(3)] free_map_set [OF v lcore_fs(2) [OF t(3)] txn_length [OF assms(1)] assms(8)]
    by (simp add: v)
qed

lemma bfree_ok:
  assumes "txn c p s" "fsroom (Suc k) p s" "blk_ok p (BBLOCK b (fs_sb s)) s" "\<not> block_free s b"
  obtains t where "bfree 1 b s = Ok () t" "txn c p t" "lcore t = lcore s"
    "bcache p t = a_put (BBLOCK b (fs_sb s)) (clear_bit8 (bview s (BBLOCK b (fs_sb s))) (b mod BPB)) (bcache p s)"
proof -
  let ?f = "\<lambda>d. clear_bit8 d (b mod BPB)"
  have "length (?f (bview s (BBLOCK b (fs_sb s)))) = BSIZE" by (simp add: txn_length [OF assms(1)])
  from assms(1-3) this obtain i t w u where *: "bread 1 (BBLOCK b (fs_sb s)) s = Ok i t"
    "buf_data i t = bview s (BBLOCK b (fs_sb s))" "lcore t = lcore s"
    "log_write i (set_data i (clear_bit8 (bview s (BBLOCK b (fs_sb s))) (b mod BPB)) t) = Ok () w"
    "brelse i w = Ok () u" "txn c p u" "lcore u = lcore s"
    "bcache p u = a_put (BBLOCK b (fs_sb s)) (clear_bit8 (bview s (BBLOCK b (fs_sb s))) (b mod BPB)) (bcache p s)"
    by (rule fs_modify)
  have "bfree 1 b s = Ok () u"
    using assms(4) *(1,2,4,5) by (simp add: bfree_def block_free_def Let_def)
  then show ?thesis using * that by blast
qed

lemma clear_set_bit8: "bi div 8 < length d \<Longrightarrow> bit_free d bi \<Longrightarrow> clear_bit8 (set_bit8 d bi) bi = d"
proof -
  assume l: "bi div 8 < length d" and f: "bit_free d bi"
  let ?x = "d ! (bi div 8)"
  have "(?x OR bit_mask8 bi) AND NOT (bit_mask8 bi) = ?x"
    using f by (intro bit_word_eqI) (auto simp: bit_and_iff bit_or_iff bit_not_iff bit_mask8_bit bit_free_bit)
  then show ?thesis using l by (simp add: clear_bit8_def set_bit8_def)
qed

text \<open>
  \<open>bfree\<close> undoes the allocation: releasing the block \<open>balloc\<close> just returned restores the
  free map bit for bit, and every other block of the disk is as before the allocation.
\<close>

theorem balloc_bfree_roundtrip:
  assumes "txn c p s" "fsroom 3 p s" "bitmap_ok p s"
    "x < sb_size (fs_sb s)" "block_free s x" "\<forall>y<x. \<not> block_free s y" "blk_ok p x s"
    "\<forall>b < sb_size (fs_sb s). BBLOCK b (fs_sb s) \<noteq> x"
  shows "\<exists>t u. balloc 1 s = Ok x t \<and> bfree 1 x t = Ok () u \<and> txn c p u \<and>
    bview u = (bview s)(x := replicate BSIZE 0) \<and> icache u = icache s"
proof -
  let ?B = "BBLOCK x (fs_sb s)"
  have "fsroom (Suc (Suc 1)) p s" using assms(2) by (simp add: numeral_3_eq_3)
  from assms(1) this assms(3-7) obtain t where t: "balloc 1 s = Ok x t" "txn c p t" "lcore t = lcore s"
    "bcache p t = a_put x (replicate BSIZE 0) (a_put ?B (set_bit8 (bview s ?B) (x mod BPB)) (bcache p s))"
    by (rule balloc_ok)
  have v: "bview t = (bview s)(?B := set_bit8 (bview s ?B) (x mod BPB), x := replicate BSIZE 0)"
    using arg_cong [OF t(4), of ca_view] by simp
  have ne: "?B \<noteq> x" using assms(4,8) by auto
  have l: "x mod BPB div 8 < length (bview s ?B)"
    using mod_less_divisor [OF BPB_pos, of x] txn_length [OF assms(1)] by (simp add: BPB_def)
  have sb: "fs_sb t = fs_sb s" using t(3) by (rule lcore_fs)
  have "fsroom (Suc 0) p t"
    using assms(2) t(4) lcore_area(2) [OF t(3)] by (auto simp: fsroom_def numeral_3_eq_3 intro!: fits_put)
  moreover have "blk_ok p (BBLOCK x (fs_sb t)) t"
    using bitmap_okD [OF assms(3,4)] t(4) lcore_area(1) [OF t(3)] unfolding sb blk_ok_def
    by (metis bcache_sel a_put_sel)
  moreover have "\<not> block_free t x" using l ne by (simp add: block_free_def sb v bit_free_set)
  ultimately obtain u where u: "bfree 1 x t = Ok () u" "txn c p u" "lcore u = lcore t"
    "bcache p u = a_put (BBLOCK x (fs_sb t)) (clear_bit8 (bview t (BBLOCK x (fs_sb t))) (x mod BPB)) (bcache p t)"
    using bfree_ok [OF t(2)] by blast
  have "bview u = (bview t)(?B := clear_bit8 (bview t ?B) (x mod BPB))"
    using bview_put [OF u(4)] sb by simp
  moreover have "clear_bit8 (bview t ?B) (x mod BPB) = bview s ?B"
    using l ne assms(5) by (simp add: v clear_set_bit8 block_free_def)
  ultimately have "bview u = (bview s)(x := replicate BSIZE 0)" using ne by (auto simp: v)
  then show ?thesis using t(1) u(1,2) lcore_fs(1) [OF t(3)] lcore_fs(1) [OF u(3)] by auto
qed

text \<open>Freeing a block whose bit is already clear panics.\<close>

theorem bfree_free_panics:
  assumes "txn c p s" "fsroom 1 p s" "blk_ok p (BBLOCK b (fs_sb s)) s" "block_free s b"
  shows "bfree 1 b s = Panic ''freeing free block''"
proof -
  have "fsroom (Suc 0) p s" using assms(2) by simp
  from assms(1) this obtain i t u where *: "bread 1 (BBLOCK b (fs_sb s)) s = Ok i t"
    "buf_data i t = bview s (BBLOCK b (fs_sb s))"
    using assms(3) by (elim fs_peek [of c p s 0 "BBLOCK b (fs_sb s)"]) (auto simp: blk_ok_def)
  then show ?thesis using assms(4) by (simp add: bfree_def block_free_def Let_def)
qed

section \<open>A file system\<close>

text \<open>
  The super block of the disk the build makes: 1000 blocks, of which 2 to 31 are the log, 32 to
  57 the inodes, 58 the free map and 59 onwards data; and a disk whose free map marks the blocks
  before 59 used.
\<close>

definition sample_sb :: superblock where
  "sample_sb = \<lparr>sb_size = 1000, sb_nblocks = 941, sb_ninodes = 200, sb_nlog = 30, sb_logstart = 2,
     sb_inodestart = 32, sb_bmapstart = 58\<rparr>"

definition sample_map :: "u8 list" where "sample_map = replicate 7 255 @ [7] @ replicate 504 0"

definition no_inode :: inode where
  "no_inode = \<lparr>i_dev = 0, i_inum = 0, i_ref = 0, i_valid = False, i_type = 0, i_major = 0, i_minor = 0,
     i_nlink = 0, i_size = 0, i_addrs = replicate 13 0\<rparr>"

definition fs_machine :: "disk \<Rightarrow> (nat \<Rightarrow> inode) \<Rightarrow> fstate" where
  "fs_machine d t = open_machine d (fstate.fields t sample_sb)"

definition sample_disk :: disk where "sample_disk = (\<lambda>_. zero_block)(58 := sample_map)"

lemma more_fields:
  fixes s :: "fstate"
  assumes "lstate.more s = fstate.fields t sb"
  shows "icache s = t" "fs_sb s = sb"
  using assms by (cases s; simp add: fstate.defs)+

lemma fs_machine_fields [simp]:
  "icache (fs_machine d t) = t" "fs_sb (fs_machine d t) = sample_sb"
  "memdisk (fs_machine d t) = d" "disksize (fs_machine d t) = 1000"
  "log_start (fs_machine d t) = 2" "log_size (fs_machine d t) = 30"
  using more_fields [of "fs_machine d t" t sample_sb] by (simp_all add: fs_machine_def open_machine_fields)

lemma fs_machine_txn:
  assumes "blocks_ok d" "hdr_n (d 2) = 0"
  shows "txn 0 0 (fs_machine d t)" "bheld (fs_machine d t) = {}" "bdirty (fs_machine d t) = {}"
  using open_machine_txn [OF assms] by (simp_all add: fs_machine_def)

lemma fs_machine_view:
  assumes "blocks_ok d" "hdr_n (d 2) = 0"
  shows "bview (fs_machine d t) = d"
  using fs_machine_txn [OF assms, of t] fs_machine_fields(3) [of d t]
  by (simp add: txn_def log_sound_def bgood_def bview_clean fun_eq_iff)

lemma fs_machine_room:
  "blocks_ok d \<Longrightarrow> hdr_n (d 2) = 0 \<Longrightarrow> k \<le> 29 \<Longrightarrow> fsroom k 0 (fs_machine d t)"
  using fs_machine_txn [of d t] by (simp add: fsroom_def fits_def log_lim_def LOGSIZE_def MAXOPBLOCKS_def)

lemma fs_machine_blk:
  "blocks_ok d \<Longrightarrow> hdr_n (d 2) = 0 \<Longrightarrow> blk_ok p b (fs_machine d t) \<longleftrightarrow> b < 1000 \<and> (b < 2 \<or> 32 \<le> b)"
  using fs_machine_txn(2) [of d t] by (auto simp: blk_ok_def log_area_def)

lemma sample_disk_ok: "blocks_ok sample_disk" "hdr_n (sample_disk 2) = 0"
  by (simp_all add: blocks_ok_def sample_disk_def zero_block_def sample_map_def BSIZE_def hdr_n_def dec32_def)

lemmas sample_machine = fs_machine_txn [OF sample_disk_ok] fs_machine_view [OF sample_disk_ok]
  fs_machine_blk [OF sample_disk_ok] fs_machine_room [OF sample_disk_ok]

abbreviation sample_fs :: fstate where "sample_fs \<equiv> fs_machine sample_disk (\<lambda>_. no_inode)"

lemma sample_BBLOCK: "b < 1000 \<Longrightarrow> BBLOCK b sample_sb = 58"
  by (simp add: BBLOCK_def sample_sb_def layout_defs)

lemma sample_free: "b < 1000 \<Longrightarrow> block_free sample_fs b \<longleftrightarrow> bit_free sample_map b"
  by (simp add: block_free_def sample_BBLOCK sample_machine layout_defs) (simp add: sample_disk_def)

lemma bit_255: "n < 8 \<Longrightarrow> bit (255 :: u8) n"
proof -
  have e: "(255 :: u8) = mask 8" by (simp add: mask_eq_exp_minus_1)
  show "n < 8 \<Longrightarrow> bit (255 :: u8) n" unfolding e by (simp add: bit_mask_iff)
qed

lemma bit_7: "n < 3 \<Longrightarrow> bit (7 :: u8) n" "\<not> bit (7 :: u8) 3"
proof -
  have e: "(7 :: u8) = mask 3" by (simp add: mask_eq_exp_minus_1)
  show "n < 3 \<Longrightarrow> bit (7 :: u8) n" "\<not> bit (7 :: u8) 3" unfolding e by (simp_all add: bit_mask_iff)
qed

lemma sample_first_free:
  "block_free sample_fs 59" "\<forall>y<59. \<not> block_free sample_fs y"
proof -
  show "block_free sample_fs 59"
    using bit_7(2) by (simp add: sample_free bit_free_bit sample_map_def nth_append)
  have "bit (sample_map ! (y div 8)) (y mod 8)" if "y < 59" for y
  proof (cases "y < 56")
    case True
    then have "y div 8 < 7" by simp
    then have e: "sample_map ! (y div 8) = 255" by (simp add: sample_map_def nth_append)
    show ?thesis unfolding e by (rule bit_255) simp
  next
    case False
    then have "y div 8 = 7" "y mod 8 < 3" using that by (auto simp: div_nat_eqI mod_nat_eqI) presburger
    moreover from this have e: "sample_map ! (y div 8) = 7" by (simp add: sample_map_def nth_append)
    ultimately show ?thesis unfolding e by (intro bit_7)
  qed
  then show "\<forall>y<59. \<not> block_free sample_fs y" by (simp add: sample_free bit_free_bit)
qed

lemma sample_bitmap: "bitmap_ok 0 sample_fs"
  by (simp add: bitmap_ok_def sample_machine) (auto simp: sample_sb_def BBLOCK_def layout_defs)

lemma sample_ready:
  "txn 0 0 sample_fs" "fsroom 2 0 sample_fs" "fsroom 3 0 sample_fs" "fsroom 1 0 sample_fs"
  "59 < sb_size (fs_sb sample_fs)" "blk_ok 0 59 sample_fs"
  "\<forall>b < sb_size (fs_sb sample_fs). BBLOCK b (fs_sb sample_fs) \<noteq> 59"
  by (simp_all add: sample_machine sample_sb_def BBLOCK_def layout_defs)

theorem balloc_first_free_witness:
  "\<exists>t. balloc 1 sample_fs = Ok 59 t \<and> bview t 59 = replicate BSIZE 0 \<and> \<not> block_free t 59"
  using balloc_first_free [OF sample_ready(1,2) sample_bitmap sample_ready(5) sample_first_free sample_ready(6,7)]
    sample_ready(5) by blast

theorem balloc_bfree_roundtrip_witness:
  "\<exists>t u. balloc 1 sample_fs = Ok 59 t \<and> bfree 1 59 t = Ok () u \<and> bview u = sample_disk"
proof -
  have "sample_disk(59 := replicate BSIZE 0) = sample_disk"
    by (rule ext) (simp add: sample_disk_def zero_block_def BSIZE_def)
  then show ?thesis
    using balloc_bfree_roundtrip [OF sample_ready(1,3) sample_bitmap sample_ready(5) sample_first_free sample_ready(6,7)]
    by (auto simp: sample_machine)
qed

theorem bfree_free_panics_witness: "bfree 1 59 sample_fs = Panic ''freeing free block''"
  by (rule bfree_free_panics [OF sample_ready(1,4) _ sample_first_free(1)])
    (simp add: sample_machine sample_BBLOCK)

end
