(* ===== verification/Kalloc.thy ===== *)
theory Kalloc
  imports Fs_Blocks "HOL-Library.Multiset"
begin

text \<open>
  \<open>kalloc.c\<close> with the address macros of \<open>memlayout.h\<close> and \<open>mmu.h\<close>: the page allocator
  and its free list, which is threaded through the free pages themselves. Memory is what the
  kernel sees in its direct mapping, bytes at kernel virtual addresses; addresses are 32-bit
  words. The symbols \<open>end\<close> and \<open>data\<close>, which the linker script places, are fields of the state.
\<close>

section \<open>Addresses\<close>

definition EXTMEM :: u32 where "EXTMEM = 0x100000"
definition PHYSTOP :: u32 where "PHYSTOP = 0xE000000"
definition DEVSPACE :: u32 where "DEVSPACE = 0xFE000000"
definition KERNBASE :: u32 where "KERNBASE = 0x80000000"
definition KERNLINK :: u32 where "KERNLINK = KERNBASE + EXTMEM"

definition V2P :: "u32 \<Rightarrow> u32" where "V2P a = a - KERNBASE"
definition P2V :: "u32 \<Rightarrow> u32" where "P2V a = a + KERNBASE"

definition PGSIZE :: u32 where "PGSIZE = 4096"
definition PGROUNDUP :: "u32 \<Rightarrow> u32" where "PGROUNDUP sz = (sz + PGSIZE - 1) AND NOT (PGSIZE - 1)"
definition PGROUNDDOWN :: "u32 \<Rightarrow> u32" where "PGROUNDDOWN a = a AND NOT (PGSIZE - 1)"

lemmas addr_defs = EXTMEM_def PHYSTOP_def DEVSPACE_def KERNBASE_def KERNLINK_def V2P_def P2V_def PGSIZE_def

section \<open>Words in memory\<close>

definition ld32 :: "mem \<Rightarrow> u32 \<Rightarrow> u32" where
  "ld32 m a = (let a = unat a
     in ucast (m a) OR push_bit 8 (ucast (m (a + 1))) OR push_bit 16 (ucast (m (a + 2)))
        OR push_bit 24 (ucast (m (a + 3))))"

definition st32 :: "u32 \<Rightarrow> u32 \<Rightarrow> mem \<Rightarrow> mem" where
  "st32 a w m = (let a = unat a
     in m(a := ucast w, a + 1 := ucast (drop_bit 8 w), a + 2 := ucast (drop_bit 16 w),
          a + 3 := ucast (drop_bit 24 w)))"

section \<open>The allocator\<close>

record mstate = fstate +
  kram :: mem
  sym_end :: u32
  sym_data :: u32
  kmem_use_lock :: bool
  kmem_freelist :: u32

text \<open>Taking the lock of the allocator, once it is in use.\<close>

definition kmem_acquire :: "'z mstate_scheme \<Rightarrow> (unit, 'z mstate_scheme) res" where
  "kmem_acquire s = (if kmem_use_lock s then acquire KmemLock s else Ok () s)"

definition kmem_release :: "'z mstate_scheme \<Rightarrow> (unit, 'z mstate_scheme) res" where
  "kmem_release s = (if kmem_use_lock s then release KmemLock s else Ok () s)"

definition kfree :: "u32 \<Rightarrow> 'z mstate_scheme \<Rightarrow> (unit, 'z mstate_scheme) res" where
  "kfree v s =
     (if v mod PGSIZE \<noteq> 0 \<or> v < sym_end s \<or> V2P v \<ge> PHYSTOP then Panic ''kfree''
      else
        let s = s\<lparr>kram := memset (unat v) 1 (unat PGSIZE) (kram s)\<rparr>
        in andthen (kmem_acquire s) (\<lambda>_ s.
           let s = s\<lparr>kram := st32 v (kmem_freelist s) (kram s)\<rparr>;
               s = s\<lparr>kmem_freelist := v\<rparr>
           in kmem_release s))"

definition kalloc :: "'z mstate_scheme \<Rightarrow> (u32, 'z mstate_scheme) res" where
  "kalloc s =
     andthen (kmem_acquire s) (\<lambda>_ s.
     let r = kmem_freelist s;
         s = (if r \<noteq> 0 then s\<lparr>kmem_freelist := ld32 (kram s) r\<rparr> else s)
     in andthen (kmem_release s) (\<lambda>_ s. Ok r s))"

text \<open>The pages from \<open>p\<close> that end at or before \<open>vend\<close>.\<close>

definition page_range :: "u32 \<Rightarrow> u32 \<Rightarrow> u32 list" where
  "page_range p vend = map (\<lambda>i. p + of_nat i * PGSIZE) [0..<(unat vend - unat p) div unat PGSIZE]"

definition freerange :: "u32 \<Rightarrow> u32 \<Rightarrow> 'z mstate_scheme \<Rightarrow> (unit, 'z mstate_scheme) res" where
  "freerange vstart vend s = foreach kfree (page_range (PGROUNDUP vstart) vend) s"

definition kinit1 :: "u32 \<Rightarrow> u32 \<Rightarrow> 'z mstate_scheme \<Rightarrow> (unit, 'z mstate_scheme) res" where
  "kinit1 vstart vend s = freerange vstart vend ((initlock KmemLock ''kmem'' s)\<lparr>kmem_use_lock := False\<rparr>)"

definition kinit2 :: "u32 \<Rightarrow> u32 \<Rightarrow> 'z mstate_scheme \<Rightarrow> (unit, 'z mstate_scheme) res" where
  "kinit2 vstart vend s =
     andthen (freerange vstart vend s) (\<lambda>_ s. Ok () (s\<lparr>kmem_use_lock := True\<rparr>))"

section \<open>Loads and stores\<close>

lemma unat32_less: "unat (x :: u32) < 4294967296"
proof -
  have "unat x < 2 ^ LENGTH(32)" by (rule unsigned_less)
  then show ?thesis by simp
qed

lemma ld32_st32: "ld32 (st32 a w m) a = w"
proof (rule bit_word_eqI)
  fix n assume "n < LENGTH(32)"
  then show "bit (ld32 (st32 a w m) a) n = bit w n"
    unfolding ld32_def st32_def Let_def
    by (cases "n < 24"; cases "n < 16"; cases "n < 8") (auto simp: bit_simps)
qed

lemma ld32_cong: "(\<forall>i<4. m (unat a + i) = m' (unat a + i)) \<Longrightarrow> ld32 m a = ld32 m' a"
  by (simp add: ld32_def Let_def numeral_eq_Suc All_less_Suc)

lemma st32_other: "x < unat a \<or> unat a + 4 \<le> x \<Longrightarrow> st32 a w m x = m x"
  by (auto simp: st32_def Let_def)

lemma ld32_st32_other: "unat b + 4 \<le> unat a \<or> unat a + 4 \<le> unat b \<Longrightarrow> ld32 (st32 a w m) b = ld32 m b"
  by (rule ld32_cong) (auto intro!: st32_other)

section \<open>The free list\<close>

text \<open>\<open>chain m a xs\<close>: from \<open>a\<close> the links in memory \<open>m\<close> lead through the pages \<open>xs\<close> to a null pointer.\<close>

primrec chain :: "mem \<Rightarrow> u32 \<Rightarrow> u32 list \<Rightarrow> bool" where
  "chain m a [] \<longleftrightarrow> a = 0"
| "chain m a (x # xs) \<longleftrightarrow> a = x \<and> chain m (ld32 m x) xs"

definition page_ok :: "'z mstate_scheme \<Rightarrow> u32 \<Rightarrow> bool" where
  "page_ok s v \<longleftrightarrow> v mod PGSIZE = 0 \<and> sym_end s \<le> v \<and> V2P v < PHYSTOP"

definition in_page :: "u32 \<Rightarrow> nat \<Rightarrow> bool" where
  "in_page v a \<longleftrightarrow> unat v \<le> a \<and> a < unat v + 4096"

lemma page_ok_nonzero: "page_ok s v \<Longrightarrow> v \<noteq> 0"
  by (auto simp: page_ok_def addr_defs)

lemma page_aligned: "v mod PGSIZE = 0 \<Longrightarrow> \<exists>k. unat v = 4096 * k"
proof -
  assume "v mod PGSIZE = 0"
  then have "unat (v mod PGSIZE) = 0" by simp
  then have "unat v mod 4096 = 0" by (simp add: unat_mod PGSIZE_def)
  then show ?thesis by (metis mod_eq_0_iff_dvd dvdE)
qed

lemma pages_apart:
  assumes "x mod PGSIZE = 0" "y mod PGSIZE = 0" "x \<noteq> y"
  shows "unat x + 4096 \<le> unat y \<or> unat y + 4096 \<le> unat x"
proof -
  obtain j k where jk: "unat x = 4096 * j" "unat y = 4096 * k" using assms(1,2) page_aligned by metis
  have "j \<noteq> k" using assms(3) jk by (metis word_unat_eq_iff)
  then have "j < k \<or> k < j" by linarith
  then show ?thesis using jk by auto
qed

lemma chain_cong:
  "(\<forall>x\<in>set xs. ld32 m x = ld32 m' x) \<Longrightarrow> chain m a xs = chain m' a xs"
  by (induction xs arbitrary: a) auto

text \<open>A change inside one page leaves the chain through the other pages alone.\<close>

lemma chain_outside:
  assumes "\<forall>a. \<not> in_page v a \<longrightarrow> m a = m' a" "v mod PGSIZE = 0"
    "\<forall>x\<in>set xs. x mod PGSIZE = 0 \<and> x \<noteq> v"
  shows "chain m a xs = chain m' a xs"
proof (rule chain_cong, rule ballI, rule ld32_cong, intro allI impI)
  fix x i assume "x \<in> set xs" "i < (4 :: nat)"
  then have "unat x + 4096 \<le> unat v \<or> unat v + 4096 \<le> unat x" using assms(2,3) by (intro pages_apart) auto
  then have "\<not> in_page v (unat x + i)" using \<open>i < 4\<close> by (auto simp: in_page_def)
  then show "m (unat x + i) = m' (unat x + i)" using assms(1) by blast
qed

definition free_list :: "'z mstate_scheme \<Rightarrow> u32 list \<Rightarrow> bool" where
  "free_list s xs \<longleftrightarrow> chain (kram s) (kmem_freelist s) xs \<and> distinct xs \<and> (\<forall>x\<in>set xs. page_ok s x)"

text \<open>The calling CPU can take the lock of the allocator at once.\<close>

definition kmem_quiet :: "nat \<Rightarrow> 'z mstate_scheme \<Rightarrow> bool" where
  "kmem_quiet c s \<longleftrightarrow> (kmem_use_lock s \<longrightarrow> steady c s \<and> lk_free KmemLock s)"

definition kpool :: "nat \<Rightarrow> 'z mstate_scheme \<Rightarrow> u32 list \<Rightarrow> bool" where
  "kpool c s xs \<longleftrightarrow> kmem_quiet c s \<and> free_list s xs"

text \<open>An update of the allocator's own fields between taking and giving back the lock.\<close>

lemma kmem_locked:
  assumes "kmem_quiet c s"
    and "acq KmemLock c (g s) = g (acq KmemLock c s)" "steady c (g s) = steady c s"
    and "lk_free KmemLock (g s) = lk_free KmemLock s" "\<And>s. kmem_use_lock (g s) = kmem_use_lock s"
  shows "andthen (kmem_acquire s) (\<lambda>_ s. kmem_release (g s)) = Ok () (g s)"
proof (cases "kmem_use_lock s")
  case True
  then have q: "steady c s" "lk_free KmemLock s" using assms(1) by (simp_all add: kmem_quiet_def)
  then have "release KmemLock (acq KmemLock c (g s)) = Ok () (g s)" using assms(3,4) by (intro release_acq) simp_all
  then have "release KmemLock (g (acq KmemLock c s)) = Ok () (g s)" by (simp only: assms(2))
  moreover have "kmem_use_lock (acq KmemLock c s)" using True by (simp add: acq_def)
  ultimately show ?thesis
    using True q assms(5) by (simp add: kmem_acquire_def kmem_release_def acquire_free)
next
  case False
  then show ?thesis using assms(5) by (simp add: kmem_acquire_def kmem_release_def)
qed

lemma kpool_acq_simps [simp]:
  "kram (acq l c s) = kram s" "kmem_freelist (acq l c s) = kmem_freelist s"
  "kmem_use_lock (acq l c s) = kmem_use_lock s" "sym_end (acq l c s) = sym_end s"
  for s :: "'z mstate_scheme"
  by (simp_all add: acq_def)

lemma kmem_quiet_upd [simp]:
  "kmem_quiet c (s\<lparr>kram := m\<rparr>) = kmem_quiet c s" "kmem_quiet c (s\<lparr>kmem_freelist := a\<rparr>) = kmem_quiet c s"
  by (simp_all add: kmem_quiet_def steady_def lk_free_def)

lemma page_ok_upd [simp]:
  "page_ok (s\<lparr>kram := m\<rparr>) v = page_ok s v" "page_ok (s\<lparr>kmem_freelist := a\<rparr>) v = page_ok s v"
  by (simp_all add: page_ok_def)

lemma kalloc_state:
  assumes "kmem_quiet c s"
  shows "kalloc s = Ok (kmem_freelist s)
    (if kmem_freelist s \<noteq> 0 then s\<lparr>kmem_freelist := ld32 (kram s) (kmem_freelist s)\<rparr> else s)"
proof -
  let ?g = "\<lambda>s. if kmem_freelist s \<noteq> 0 then s\<lparr>kmem_freelist := ld32 (kram s) (kmem_freelist s)\<rparr> else s"
  have "andthen (kmem_acquire s) (\<lambda>_ s. kmem_release (?g s)) = Ok () (?g s)"
    using assms by (rule kmem_locked) (simp_all add: acq_def steady_def lk_free_def)
  moreover have "kmem_freelist t = kmem_freelist s" if "kmem_acquire s = Ok () t" for t
    using that assms by (auto simp: kmem_acquire_def kmem_quiet_def acquire_free split: if_splits)
  ultimately show ?thesis
    by (cases "kmem_acquire s") (simp_all add: kalloc_def Let_def)
qed

lemma kalloc_take:
  assumes "kpool c s (x # xs)"
  shows "kalloc s = Ok x (s\<lparr>kmem_freelist := ld32 (kram s) x\<rparr>)" "kpool c (s\<lparr>kmem_freelist := ld32 (kram s) x\<rparr>) xs"
proof -
  have "kmem_freelist s = x" "x \<noteq> 0" using assms page_ok_nonzero by (auto simp: kpool_def free_list_def)
  then show "kalloc s = Ok x (s\<lparr>kmem_freelist := ld32 (kram s) x\<rparr>)"
    using assms by (simp add: kpool_def kalloc_state [of c])
  show "kpool c (s\<lparr>kmem_freelist := ld32 (kram s) x\<rparr>) xs" using assms by (simp add: kpool_def free_list_def)
qed

lemma kalloc_empty: "kpool c s [] \<Longrightarrow> kalloc s = Ok 0 s"
  by (simp add: kpool_def free_list_def kalloc_state [of c])

text \<open>The memory after the page \<open>v\<close> is filled with ones and linked to the list.\<close>

definition junk_page :: "u32 \<Rightarrow> u32 \<Rightarrow> mem \<Rightarrow> mem" where
  "junk_page v a m = st32 v a (memset (unat v) 1 (unat PGSIZE) m)"

lemma junk_page_outside: "\<not> in_page v a \<Longrightarrow> junk_page v b m a = m a"
  by (auto simp: junk_page_def in_page_def st32_def Let_def memset_at PGSIZE_def)

lemma kfree_state:
  assumes "kmem_quiet c s" "page_ok s v"
  shows "kfree v s = Ok () (s\<lparr>kram := junk_page v (kmem_freelist s) (kram s), kmem_freelist := v\<rparr>)"
proof -
  let ?s = "s\<lparr>kram := memset (unat v) 1 (unat PGSIZE) (kram s)\<rparr>"
  let ?g = "\<lambda>s. s\<lparr>kram := st32 v (kmem_freelist s) (kram s), kmem_freelist := v\<rparr>"
  have "kmem_quiet c ?s" using assms(1) by simp
  then have "andthen (kmem_acquire ?s) (\<lambda>_ s. kmem_release (?g s)) = Ok () (?g ?s)"
    by (rule kmem_locked) (simp_all add: acq_def steady_def lk_free_def)
  then show ?thesis
    using assms(2) by (auto simp: kfree_def page_ok_def Let_def junk_page_def not_le not_less)
qed

lemma kfree_give:
  assumes "kpool c s xs" "page_ok s v" "v \<notin> set xs"
  shows "kpool c (s\<lparr>kram := junk_page v (kmem_freelist s) (kram s), kmem_freelist := v\<rparr>) (v # xs)"
proof -
  have p: "\<forall>x\<in>set xs. x mod PGSIZE = 0 \<and> x \<noteq> v" using assms by (auto simp: kpool_def free_list_def page_ok_def)
  have "chain (junk_page v (kmem_freelist s) (kram s)) (kmem_freelist s) xs = chain (kram s) (kmem_freelist s) xs"
    using junk_page_outside [of v] assms(2) p by (intro chain_outside [of v]) (simp_all add: page_ok_def)
  moreover have "ld32 (junk_page v (kmem_freelist s) (kram s)) v = kmem_freelist s"
    by (simp add: junk_page_def ld32_st32)
  ultimately show ?thesis using assms by (simp add: kpool_def free_list_def)
qed

lemma kfree_bad:
  "\<not> page_ok s v \<Longrightarrow> kfree v s = Panic ''kfree''"
  by (auto simp: kfree_def page_ok_def not_le)

section \<open>A pool of pages\<close>

text \<open>
  What the rest of the kernel relies on: pages handed out come from the pool, pages given back
  return to it, and no memory changes outside a page that is being freed.
\<close>

locale page_pool =
  fixes alloc :: "'s \<Rightarrow> (u32, 's) res"
    and free :: "u32 \<Rightarrow> 's \<Rightarrow> (unit, 's) res"
    and pool :: "'s \<Rightarrow> u32 list \<Rightarrow> bool"
    and good :: "'s \<Rightarrow> u32 \<Rightarrow> bool"
    and ram :: "'s \<Rightarrow> mem"
    and set_ram :: "mem \<Rightarrow> 's \<Rightarrow> 's"
  assumes alloc_take: "pool s (x # xs) \<Longrightarrow> \<exists>t. alloc s = Ok x t \<and> pool t xs \<and> ram t = ram s \<and> good t = good s"
    and alloc_empty: "pool s [] \<Longrightarrow> alloc s = Ok 0 s"
    and free_give: "pool s xs \<Longrightarrow> good s v \<Longrightarrow> v \<notin> set xs \<Longrightarrow>
      \<exists>t. free v s = Ok () t \<and> pool t (v # xs) \<and> good t = good s \<and> (\<forall>a. \<not> in_page v a \<longrightarrow> ram t a = ram s a)"
    and fill: "pool s xs \<Longrightarrow> good s v \<Longrightarrow> v \<notin> set xs \<Longrightarrow> (\<forall>a. \<not> in_page v a \<longrightarrow> m a = ram s a) \<Longrightarrow>
      pool (set_ram m s) xs \<and> good (set_ram m s) = good s"
    and pool_good: "pool s xs \<Longrightarrow> x \<in> set xs \<Longrightarrow> good s x \<and> x \<noteq> 0"
    and pool_distinct: "pool s xs \<Longrightarrow> distinct xs"
begin

lemma free_all:
  assumes "pool s xs" "\<forall>v\<in>set vs. good s v" "distinct vs" "set vs \<inter> set xs = {}"
  shows "\<exists>t. foreach free vs s = Ok () t \<and> pool t (rev vs @ xs)"
  using assms
proof (induction vs arbitrary: s xs)
  case (Cons v vs)
  obtain t where t: "free v s = Ok () t" "pool t (v # xs)" "good t = good s"
    using free_give [OF Cons.prems(1), of v] Cons.prems(2,4) by auto
  have "\<exists>u. foreach free vs t = Ok () u \<and> pool u (rev vs @ v # xs)"
    using Cons.prems t by (intro Cons.IH) auto
  then show ?case using t(1) by auto
qed auto

end

text \<open>A user of the allocator: it allocates, frees pages it owns and writes to pages it owns.\<close>

datatype pool_op = PAlloc | PFree u32 | PWrite u32 mem

definition page_write :: "u32 \<Rightarrow> mem \<Rightarrow> mem \<Rightarrow> mem" where
  "page_write v f m = (\<lambda>a. if in_page v a then f a else m a)"

fun pool_step :: "('s \<Rightarrow> (u32, 's) res) \<Rightarrow> (u32 \<Rightarrow> 's \<Rightarrow> (unit, 's) res) \<Rightarrow> ('s \<Rightarrow> mem) \<Rightarrow> (mem \<Rightarrow> 's \<Rightarrow> 's) \<Rightarrow>
    pool_op \<Rightarrow> 's \<times> u32 list \<Rightarrow> ('s \<times> u32 list) option" where
  "pool_step alloc free ram set_ram PAlloc (s, own) =
     (case alloc s of Ok r t \<Rightarrow> Some (t, if r = 0 then own else r # own) | _ \<Rightarrow> None)"
| "pool_step alloc free ram set_ram (PFree v) (s, own) =
     (if v \<in> set own then case free v s of Ok _ t \<Rightarrow> Some (t, remove1 v own) | _ \<Rightarrow> None else Some (s, own))"
| "pool_step alloc free ram set_ram (PWrite v f) (s, own) =
     (if v \<in> set own then Some (set_ram (page_write v f (ram s)) s, own) else Some (s, own))"

fun pool_run :: "('s \<Rightarrow> (u32, 's) res) \<Rightarrow> (u32 \<Rightarrow> 's \<Rightarrow> (unit, 's) res) \<Rightarrow> ('s \<Rightarrow> mem) \<Rightarrow> (mem \<Rightarrow> 's \<Rightarrow> 's) \<Rightarrow>
    pool_op list \<Rightarrow> 's \<times> u32 list \<Rightarrow> ('s \<times> u32 list) option" where
  "pool_run alloc free ram set_ram [] z = Some z"
| "pool_run alloc free ram set_ram (e # es) z =
     (case pool_step alloc free ram set_ram e z of Some y \<Rightarrow> pool_run alloc free ram set_ram es y | None \<Rightarrow> None)"

text \<open>The pages of \<open>M\<close> are shared out between the owner and the pool.\<close>

definition shares :: "('s \<Rightarrow> u32 list \<Rightarrow> bool) \<Rightarrow> ('s \<Rightarrow> u32 \<Rightarrow> bool) \<Rightarrow> 's \<times> u32 list \<Rightarrow> u32 list \<Rightarrow> u32 multiset \<Rightarrow> bool" where
  "shares pool good z xs M \<longleftrightarrow> pool (fst z) xs \<and> (\<forall>v\<in>set (snd z). good (fst z) v) \<and> distinct (snd z @ xs) \<and>
     mset (snd z @ xs) = M"

context page_pool begin

abbreviation "step \<equiv> pool_step alloc free ram set_ram"
abbreviation "share \<equiv> shares pool good"

lemma step_shares:
  assumes "share z xs M"
  shows "\<exists>y ys. step e z = Some y \<and> share y ys M"
proof -
  obtain s own where z: "z = (s, own)" by (cases z)
  have p: "pool s xs" "\<forall>v\<in>set own. good s v" "distinct own" "distinct xs" "set own \<inter> set xs = {}"
    "mset own + mset xs = M" using assms by (auto simp: shares_def z)
  show ?thesis
  proof (cases e)
    case PAlloc
    show ?thesis
    proof (cases xs)
      case Nil
      then show ?thesis using alloc_empty [of s] assms p(1) by (auto simp: PAlloc z)
    next
      case (Cons x ys)
      obtain t where "alloc s = Ok x t" "pool t ys" "good t = good s" using alloc_take p(1) Cons by blast
      moreover have "x \<noteq> 0" "good s x" using pool_good [OF p(1), of x] Cons by auto
      ultimately have "step e z = Some (t, x # own)" "share (t, x # own) ys M"
        using p Cons by (auto simp: PAlloc z shares_def)
      then show ?thesis by blast
    qed
  next
    case (PFree v)
    show ?thesis
    proof (cases "v \<in> set own")
      case True
      then have v: "good s v" "v \<notin> set xs" using p by auto
      obtain t where t: "free v s = Ok () t" "pool t (v # xs)" "good t = good s" using free_give [OF p(1) v] by blast
      have "share (t, remove1 v own) (v # xs) M"
        using p t True by (auto simp: shares_def set_remove1_eq)
      then show ?thesis using t(1) True by (auto simp: PFree z)
    qed (use assms in \<open>auto simp: PFree z\<close>)
  next
    case (PWrite v f)
    show ?thesis
    proof (cases "v \<in> set own")
      case True
      then have "pool (set_ram (page_write v f (ram s)) s) xs \<and> good (set_ram (page_write v f (ram s)) s) = good s"
        using p by (intro fill [of s xs v]) (auto simp: page_write_def)
      then have "share (set_ram (page_write v f (ram s)) s, own) xs M" using p by (auto simp: shares_def)
      then show ?thesis using True by (auto simp: PWrite z)
    qed (use assms in \<open>auto simp: PWrite z\<close>)
  qed
qed

lemma run_shares: "share z xs M \<Longrightarrow> \<exists>y ys. pool_run alloc free ram set_ram es z = Some y \<and> share y ys M"
proof (induction es arbitrary: z xs)
  case (Cons e es)
  obtain y ys where "step e z = Some y" "share y ys M" using step_shares [OF Cons.prems] by blast
  then show ?case using Cons.IH by auto
qed auto

end

lemma kalloc_pool:
  "page_pool kalloc kfree (kpool c) page_ok kram (\<lambda>m. kram_update (\<lambda>_. m))"
proof
  fix s :: "'z mstate_scheme" and x v m and xs
  show "kpool c s (x # xs) \<Longrightarrow> \<exists>t. kalloc s = Ok x t \<and> kpool c t xs \<and> kram t = kram s \<and> page_ok t = page_ok s"
    using kalloc_take [of c s x xs] by (auto simp: fun_eq_iff)
  show "kpool c s [] \<Longrightarrow> kalloc s = Ok 0 s" by (rule kalloc_empty)
  show "kpool c s xs \<Longrightarrow> page_ok s v \<Longrightarrow> v \<notin> set xs \<Longrightarrow> \<exists>t. kfree v s = Ok () t \<and> kpool c t (v # xs) \<and>
      page_ok t = page_ok s \<and> (\<forall>a. \<not> in_page v a \<longrightarrow> kram t a = kram s a)"
    using kfree_state [of c s v] kfree_give [of c s xs v] junk_page_outside
    by (auto simp: kpool_def fun_eq_iff)
  show "kpool c s xs \<Longrightarrow> x \<in> set xs \<Longrightarrow> page_ok s x \<and> x \<noteq> 0"
    using page_ok_nonzero by (auto simp: kpool_def free_list_def)
  show "kpool c s xs \<Longrightarrow> distinct xs" by (simp add: kpool_def free_list_def)
  assume p: "kpool c s xs" and v: "page_ok s v" "v \<notin> set xs" and m: "\<forall>a. \<not> in_page v a \<longrightarrow> m a = kram s a"
  have "chain m (kmem_freelist s) xs = chain (kram s) (kmem_freelist s) xs"
    using p v m by (intro chain_outside [of v]) (auto simp: kpool_def free_list_def page_ok_def)
  then show "kpool c (s\<lparr>kram := m\<rparr>) xs \<and> page_ok (s\<lparr>kram := m\<rparr>) = page_ok s"
    using p by (auto simp: kpool_def free_list_def fun_eq_iff)
qed

interpretation km: page_pool kalloc kfree "kpool c" page_ok kram "\<lambda>m. kram_update (\<lambda>_. m)" for c
  by (rule kalloc_pool)

text \<open>
  C12. Whatever sequence of allocations, frees of owned pages and writes to owned pages a user of
  \<open>kalloc\<close> and \<open>kfree\<close> performs, no call panics, the pages it owns and the pages on the free list
  are pairwise different, and together they are the pages the pool had at the start: no page is
  handed out twice and none is lost.
\<close>

theorem kalloc_conserves_pages:
  assumes "kpool c s xs"
  shows "\<exists>t own ys. pool_run kalloc kfree kram (\<lambda>m. kram_update (\<lambda>_. m)) es (s, []) = Some (t, own) \<and>
    kpool c t ys \<and> distinct (own @ ys) \<and> mset own + mset ys = mset xs"
proof -
  have "shares (kpool c) page_ok (s, []) xs (mset xs)"
    using assms km.pool_distinct [OF assms] by (simp add: shares_def)
  from km.run_shares [OF this, of es] show ?thesis by (auto simp: shares_def)
qed

section \<open>Start-up\<close>

lemma unat_and_not_mask12: "unat (a AND NOT (PGSIZE - 1)) = unat a div 4096 * 4096"
proof -
  have m: "PGSIZE - 1 = (mask 12 :: u32)" by (simp add: PGSIZE_def mask_eq_exp_minus_1)
  have e: "a AND NOT (PGSIZE - 1) = push_bit 12 (drop_bit 12 a)"
    unfolding m by (auto simp: bit_simps intro!: bit_word_eqI)
  have "unat (drop_bit 12 a) = unat a div 4096" by (simp add: unsigned_drop_bit_eq drop_bit_eq_div unat_div)
  moreover have "unat a div 4096 * 4096 < 4294967296" using unat32_less [of a] by linarith
  ultimately show ?thesis unfolding e push_bit_eq_mult by (simp add: unat_word_ariths)
qed

lemma unat_round_down: "unat (PGROUNDDOWN a) = unat a div 4096 * 4096"
  by (simp only: PGROUNDDOWN_def unat_and_not_mask12)

lemma unat_round_up:
  assumes "unat a + 4095 < 4294967296"
  shows "unat (PGROUNDUP a) = (unat a + 4095) div 4096 * 4096"
proof -
  have u: "unat (a + PGSIZE - 1) = unat a + 4095"
    using assms by (simp add: PGSIZE_def unat_word_ariths)
  show ?thesis by (simp only: PGROUNDUP_def unat_and_not_mask12 u)
qed

lemma page_range_at:
  fixes vend :: u32
  assumes "unat p mod 4096 = 0" "i < (unat vend - unat p) div 4096"
  shows "unat (p + of_nat i * PGSIZE) = unat p + i * 4096" "unat p + i * 4096 + 4096 \<le> unat vend"
proof -
  have "Suc i * 4096 \<le> unat vend - unat p" using assms(2) by (simp add: less_eq_div_iff_mult_less_eq Suc_le_eq [symmetric])
  then show b: "unat p + i * 4096 + 4096 \<le> unat vend" by simp
  have l: "unat vend < 4294967296" by (rule unat32_less)
  have "i < 4294967296" using b l by linarith
  then have "unat (of_nat i * PGSIZE :: u32) = i * 4096"
    using b l by (simp add: PGSIZE_def unat_word_ariths unat_of_nat)
  then show "unat (p + of_nat i * PGSIZE) = unat p + i * 4096"
    using b l by (simp add: unat_word_ariths)
qed

lemma page_range_distinct:
  assumes "unat p mod 4096 = 0"
  shows "distinct (page_range p vend)"
proof -
  have "inj_on (\<lambda>i. p + of_nat i * PGSIZE) {0..<(unat vend - unat p) div unat PGSIZE}"
  proof
    fix i j assume "i \<in> {0..<(unat vend - unat p) div unat PGSIZE}" "j \<in> {0..<(unat vend - unat p) div unat PGSIZE}"
    then have "i < (unat vend - unat p) div 4096" "j < (unat vend - unat p) div 4096" by (simp_all add: PGSIZE_def)
    then have "unat (p + of_nat i * PGSIZE) = unat p + i * 4096" "unat (p + of_nat j * PGSIZE) = unat p + j * 4096"
      using page_range_at(1) [OF assms] by blast+
    moreover assume "p + of_nat i * PGSIZE = p + of_nat j * PGSIZE"
    ultimately have "unat p + i * 4096 = unat p + j * 4096" by (simp only:)
    then show "i = j" by simp
  qed
  then show ?thesis unfolding page_range_def distinct_map by (simp only: distinct_upt set_upt simp_thms)
qed

lemma page_range_ok:
  assumes "unat p mod 4096 = 0" "sym_end s \<le> p" "KERNBASE \<le> p" "vend \<le> P2V PHYSTOP" "v \<in> set (page_range p vend)"
  shows "page_ok s v"
proof -
  obtain i where i: "v = p + of_nat i * PGSIZE" "i < (unat vend - unat p) div 4096"
    using assms(5) by (auto simp: page_range_def PGSIZE_def)
  have v: "unat v = unat p + i * 4096" "unat v + 4096 \<le> unat vend"
    using page_range_at [OF assms(1) i(2)] by (simp_all add: i(1))
  have e: "unat vend \<le> 0x8E000000" using assms(4) by (simp add: addr_defs word_le_nat_alt)
  have b: "0x80000000 \<le> unat p" using assms(3) by (simp add: addr_defs word_le_nat_alt)
  have "unat (v mod PGSIZE) = 0" using assms(1) v(1) by (simp add: unat_mod PGSIZE_def mod_add_eq)
  then have "v mod PGSIZE = 0" by (simp add: unat_eq_0)
  moreover have "sym_end s \<le> v" using assms(2) v(1) by (simp add: word_le_nat_alt)
  moreover have "unat (V2P v) = unat v - 0x80000000"
    using b v by (simp add: V2P_def KERNBASE_def unat_sub word_le_nat_alt)
  then have "V2P v < PHYSTOP" using b v e by (simp add: PHYSTOP_def word_less_nat_alt)
  ultimately show ?thesis by (simp add: page_ok_def)
qed

text \<open>
  \<open>kinit1\<close> on an empty allocator puts exactly the whole pages between \<open>vstart\<close> and \<open>vend\<close> on
  the free list, provided the range lies between the end of the kernel and the top of
  physical memory, and leaves the allocator ready for use.
\<close>

theorem kinit1_frees_range:
  assumes "kmem_freelist s = 0" "sym_end s \<le> vstart" "KERNBASE \<le> vstart" "vstart \<le> vend" "vend \<le> P2V PHYSTOP"
  shows "\<exists>t. kinit1 vstart vend s = Ok () t \<and> kpool c t (rev (page_range (PGROUNDUP vstart) vend)) \<and>
    length (page_range (PGROUNDUP vstart) vend) = (unat vend - (unat vstart + 4095) div 4096 * 4096) div 4096"
proof -
  let ?s = "(initlock KmemLock ''kmem'' s)\<lparr>kmem_use_lock := False\<rparr>" and ?r = "page_range (PGROUNDUP vstart) vend"
  have e: "unat vend \<le> 0x8E000000" using assms(5) by (simp add: addr_defs word_le_nat_alt)
  have se: "unat vstart \<le> unat vend" using assms(4) by (simp add: word_le_nat_alt)
  have u: "unat (PGROUNDUP vstart) = (unat vstart + 4095) div 4096 * 4096"
    using e se by (intro unat_round_up) simp
  have ge: "vstart \<le> PGROUNDUP vstart" by (simp add: word_le_nat_alt u)
  have a: "unat (PGROUNDUP vstart) mod 4096 = 0" by (simp add: u)
  have i: "kmem_freelist ?s = 0" "sym_end ?s = sym_end s" using assms(1) by (simp_all add: initlock_def upd_lock_def)
  have "kpool c ?s []" using i by (simp add: kpool_def kmem_quiet_def free_list_def)
  moreover have "page_ok ?s v" if "v \<in> set ?r" for v
    using assms(2,3) ge i(2) by (intro page_range_ok [OF a _ _ assms(5) that]) simp_all
  ultimately have "\<exists>t. foreach kfree ?r ?s = Ok () t \<and> kpool c t (rev ?r @ [])"
    using page_range_distinct [OF a] by (intro km.free_all) auto
  then show ?thesis by (simp add: kinit1_def freerange_def) (simp add: page_range_def PGSIZE_def u)
qed

section \<open>A machine with memory\<close>

definition mem_machine :: "mem \<Rightarrow> u32 \<Rightarrow> mstate" where
  "mem_machine m a = fstate.extend sample_fs (mstate.fields m 0x80110000 0x80108000 False a)"

lemma mem_machine_fields [simp]:
  "kram (mem_machine m a) = m" "sym_end (mem_machine m a) = 0x80110000"
  "kmem_use_lock (mem_machine m a) = False" "kmem_freelist (mem_machine m a) = a"
  by (simp_all add: mem_machine_def fstate.defs mstate.defs)

lemma mem_machine_pool: "kpool c (mem_machine (\<lambda>_. 0) 0x80110000) [0x80110000]"
  by (simp add: kpool_def kmem_quiet_def free_list_def page_ok_def addr_defs ld32_def)

theorem kalloc_conserves_pages_witness:
  "\<exists>t own ys. pool_run kalloc kfree kram (\<lambda>m. kram_update (\<lambda>_. m))
     [PAlloc, PWrite 0x80110000 (\<lambda>_. 7), PFree 0x80110000, PAlloc, PAlloc]
     (mem_machine (\<lambda>_. 0) 0x80110000, []) = Some (t, own) \<and> mset own + mset ys = {#0x80110000#}"
  using kalloc_conserves_pages [OF mem_machine_pool [of 0],
      of "[PAlloc, PWrite 0x80110000 (\<lambda>_. 7), PFree 0x80110000, PAlloc, PAlloc]"] by auto

theorem kinit1_frees_range_witness:
  "\<exists>t. kinit1 0x80110001 0x80114000 (mem_machine (\<lambda>_. 0) 0) = Ok () t \<and>
     kpool 0 t (rev (page_range (PGROUNDUP 0x80110001) 0x80114000)) \<and>
     length (page_range (PGROUNDUP 0x80110001) 0x80114000) = 3"
  using kinit1_frees_range [of "mem_machine (\<lambda>_. 0) 0" "0x80110001" "0x80114000" 0]
  by (simp add: addr_defs)

end
