(* ===== verification/Vm.thy ===== *)
theory Vm
  imports Kalloc
begin

text \<open>
  \<open>vm.c\<close> and the paging and segment definitions of \<open>mmu.h\<close>. Page directories and page tables are
  words in kernel memory; a page-table pointer is its kernel address and a null pointer is 0.
  Where the code would follow a null pointer the model panics. The loops that step through pages
  run over the list of the addresses they visit; \<open>deallocuvm\<close>, whose loop also skips ahead, is a
  recursion that may not end, and \<open>Spin\<close> stands for that. Messages to the console are left out.
\<close>

section \<open>Segments\<close>

record segdesc =
  sd_lim_15_0 :: u32
  sd_base_15_0 :: u32
  sd_base_23_16 :: u32
  sd_type :: u32
  sd_s :: u32
  sd_dpl :: u32
  sd_p :: u32
  sd_lim_19_16 :: u32
  sd_avl :: u32
  sd_rsv1 :: u32
  sd_db :: u32
  sd_g :: u32
  sd_base_31_24 :: u32

definition SEG :: "u32 \<Rightarrow> u32 \<Rightarrow> u32 \<Rightarrow> u32 \<Rightarrow> segdesc" where
  "SEG type base lim dpl =
     \<lparr>sd_lim_15_0 = drop_bit 12 lim AND 0xffff, sd_base_15_0 = base AND 0xffff,
      sd_base_23_16 = drop_bit 16 base AND 0xff, sd_type = type, sd_s = 1, sd_dpl = dpl, sd_p = 1,
      sd_lim_19_16 = drop_bit 28 lim, sd_avl = 0, sd_rsv1 = 0, sd_db = 1, sd_g = 1,
      sd_base_31_24 = drop_bit 24 base\<rparr>"

definition SEG16 :: "u32 \<Rightarrow> u32 \<Rightarrow> u32 \<Rightarrow> u32 \<Rightarrow> segdesc" where
  "SEG16 type base lim dpl =
     \<lparr>sd_lim_15_0 = lim AND 0xffff, sd_base_15_0 = base AND 0xffff,
      sd_base_23_16 = drop_bit 16 base AND 0xff, sd_type = type, sd_s = 1, sd_dpl = dpl, sd_p = 1,
      sd_lim_19_16 = drop_bit 16 lim, sd_avl = 0, sd_rsv1 = 0, sd_db = 1, sd_g = 0,
      sd_base_31_24 = drop_bit 24 base\<rparr>"

definition SEG_KCODE :: nat where "SEG_KCODE = 1"
definition SEG_KDATA :: nat where "SEG_KDATA = 2"
definition SEG_UCODE :: nat where "SEG_UCODE = 3"
definition SEG_UDATA :: nat where "SEG_UDATA = 4"
definition SEG_TSS :: nat where "SEG_TSS = 5"
definition DPL_USER :: u32 where "DPL_USER = 3"
definition STA_X :: u32 where "STA_X = 8"
definition STA_W :: u32 where "STA_W = 2"
definition STA_R :: u32 where "STA_R = 2"
definition STS_T32A :: u32 where "STS_T32A = 9"

lemmas seg_defs = SEG_KCODE_def SEG_KDATA_def SEG_UCODE_def SEG_UDATA_def SEG_TSS_def

text \<open>The fields of the task state that the kernel sets.\<close>

record taskstate =
  ts_esp0 :: u32
  ts_ss0 :: u16
  ts_iomb :: u16

section \<open>Page tables\<close>

definition PDX :: "u32 \<Rightarrow> u32" where "PDX va = drop_bit 22 va AND 0x3FF"
definition PTX :: "u32 \<Rightarrow> u32" where "PTX va = drop_bit 12 va AND 0x3FF"
definition PGADDR :: "u32 \<Rightarrow> u32 \<Rightarrow> u32 \<Rightarrow> u32" where
  "PGADDR d t k = push_bit 22 d OR push_bit 12 t OR k"
definition NPDENTRIES :: nat where "NPDENTRIES = 1024"
definition PTE_P :: u32 where "PTE_P = 1"
definition PTE_W :: u32 where "PTE_W = 2"
definition PTE_U :: u32 where "PTE_U = 4"
definition PTE_ADDR :: "u32 \<Rightarrow> u32" where "PTE_ADDR pte = pte AND NOT 0xFFF"
definition PTE_FLAGS :: "u32 \<Rightarrow> u32" where "PTE_FLAGS pte = pte AND 0xFFF"

definition present :: "u32 \<Rightarrow> bool" where "present pte \<longleftrightarrow> pte AND PTE_P \<noteq> 0"

text \<open>
  \<open>cr3\<close> and \<open>task_reg\<close> are the hardware registers of the CPU with the given APIC identifier,
  \<open>gdtr\<close> says whose descriptor table it uses; \<open>ts_addr c\<close> is the address of the task state of
  \<open>cpus[c]\<close>.
\<close>

record vstate = mstate +
  kpgdir :: u32
  cr3 :: "nat \<Rightarrow> u32"
  task_reg :: "nat \<Rightarrow> u32"
  gdtr :: "nat \<Rightarrow> nat"
  gdt :: "nat \<Rightarrow> nat \<Rightarrow> segdesc"
  tss :: "nat \<Rightarrow> taskstate"
  ts_addr :: "nat \<Rightarrow> u32"

definition lcr3 :: "u32 \<Rightarrow> 'z vstate_scheme \<Rightarrow> 'z vstate_scheme" where
  "lcr3 v s = s\<lparr>cr3 := (cr3 s)(lapic_id s := v)\<rparr>"

definition ltr :: "u32 \<Rightarrow> 'z vstate_scheme \<Rightarrow> 'z vstate_scheme" where
  "ltr v s = s\<lparr>task_reg := (task_reg s)(lapic_id s := v)\<rparr>"

definition lgdt :: "nat \<Rightarrow> 'z vstate_scheme \<Rightarrow> 'z vstate_scheme" where
  "lgdt c s = s\<lparr>gdtr := (gdtr s)(lapic_id s := c)\<rparr>"

definition seginit :: "'z vstate_scheme \<Rightarrow> (unit, 'z vstate_scheme) res" where
  "seginit s =
     andthen (cpuid s) (\<lambda>c s.
     let g = (gdt s c)(SEG_KCODE := SEG (STA_X OR STA_R) 0 0xffffffff 0,
                       SEG_KDATA := SEG STA_W 0 0xffffffff 0,
                       SEG_UCODE := SEG (STA_X OR STA_R) 0 0xffffffff DPL_USER,
                       SEG_UDATA := SEG STA_W 0 0xffffffff DPL_USER)
     in Ok () (lgdt c (s\<lparr>gdt := (gdt s)(c := g)\<rparr>)))"

definition store :: "u32 \<Rightarrow> u32 \<Rightarrow> 'z mstate_scheme \<Rightarrow> 'z mstate_scheme" where
  "store a w s = s\<lparr>kram := st32 a w (kram s)\<rparr>"

definition zero_page :: "u32 \<Rightarrow> 'z mstate_scheme \<Rightarrow> 'z mstate_scheme" where
  "zero_page a s = s\<lparr>kram := memset (unat a) 0 (unat PGSIZE) (kram s)\<rparr>"

definition walkpgdir :: "u32 \<Rightarrow> u32 \<Rightarrow> bool \<Rightarrow> 'z mstate_scheme \<Rightarrow> (u32, 'z mstate_scheme) res" where
  "walkpgdir pgdir va alloc s =
     (let pde = pgdir + 4 * PDX va
      in if present (ld32 (kram s) pde)
         then Ok (P2V (PTE_ADDR (ld32 (kram s) pde)) + 4 * PTX va) s
         else if \<not> alloc then Ok 0 s
         else andthen (kalloc s) (\<lambda>pgtab s.
           if pgtab = 0 then Ok 0 s
           else Ok (pgtab + 4 * PTX va)
             (store pde (V2P pgtab OR PTE_P OR PTE_W OR PTE_U) (zero_page pgtab s))))"

text \<open>The addresses \<open>a, a + PGSIZE, ..., end\<close> the loop of \<open>mappages\<close> visits.\<close>

definition pages_upto :: "u32 \<Rightarrow> u32 \<Rightarrow> u32 list" where
  "pages_upto a fin = map (\<lambda>i. a + of_nat i * PGSIZE) [0..<Suc (unat ((fin - a) div PGSIZE))]"

fun mappages_loop :: "u32 \<Rightarrow> u32 list \<Rightarrow> u32 \<Rightarrow> u32 \<Rightarrow> 'z mstate_scheme \<Rightarrow> (int, 'z mstate_scheme) res" where
  "mappages_loop pgdir [] pa perm s = Ok 0 s"
| "mappages_loop pgdir (a # as) pa perm s =
     andthen (walkpgdir pgdir a True s) (\<lambda>pte s.
     if pte = 0 then Ok (- 1) s
     else if present (ld32 (kram s) pte) then Panic ''remap''
     else mappages_loop pgdir as (pa + PGSIZE) perm (store pte (pa OR perm OR PTE_P) s))"

definition mappages :: "u32 \<Rightarrow> u32 \<Rightarrow> u32 \<Rightarrow> u32 \<Rightarrow> u32 \<Rightarrow> 'z mstate_scheme \<Rightarrow> (int, 'z mstate_scheme) res" where
  "mappages pgdir va sz pa perm s =
     mappages_loop pgdir (pages_upto (PGROUNDDOWN va) (PGROUNDDOWN (va + sz - 1))) pa perm s"

text \<open>The addresses \<open>a, a + PGSIZE, ...\<close> below \<open>b\<close>.\<close>

definition pages_below :: "u32 \<Rightarrow> u32 \<Rightarrow> u32 list" where
  "pages_below a b = map (\<lambda>i. a + of_nat i * PGSIZE) [0..<(unat b - unat a + 4095) div 4096]"

section \<open>User memory\<close>

partial_function (option) dealloc_loop ::
  "u32 \<Rightarrow> u32 \<Rightarrow> u32 \<Rightarrow> 'z mstate_scheme \<Rightarrow> (unit, 'z mstate_scheme) res option" where
  "dealloc_loop pgdir a oldsz s =
     (if \<not> a < oldsz then Some (Ok () s)
      else case walkpgdir pgdir a False s of
        Ok pte s \<Rightarrow>
          if pte = 0 then dealloc_loop pgdir (PGADDR (PDX a + 1) 0 0 - PGSIZE + PGSIZE) oldsz s
          else if present (ld32 (kram s) pte) then
            let pa = PTE_ADDR (ld32 (kram s) pte)
            in if pa = 0 then Some (Panic ''kfree'')
               else case kfree (P2V pa) s of
                 Ok _ s \<Rightarrow> dealloc_loop pgdir (a + PGSIZE) oldsz (store pte 0 s)
               | Panic m \<Rightarrow> Some (Panic m)
               | Swtch t \<Rightarrow> Some (Swtch t)
               | Spin \<Rightarrow> Some Spin
          else dealloc_loop pgdir (a + PGSIZE) oldsz s
      | Panic m \<Rightarrow> Some (Panic m)
      | Swtch t \<Rightarrow> Some (Swtch t)
      | Spin \<Rightarrow> Some Spin)"

definition deallocuvm :: "u32 \<Rightarrow> u32 \<Rightarrow> u32 \<Rightarrow> 'z mstate_scheme \<Rightarrow> (u32, 'z mstate_scheme) res" where
  "deallocuvm pgdir oldsz newsz s =
     (if newsz \<ge> oldsz then Ok oldsz s
      else case dealloc_loop pgdir (PGROUNDUP newsz) oldsz s of
        Some r \<Rightarrow> andthen r (\<lambda>_ s. Ok newsz s)
      | None \<Rightarrow> Spin)"

fun allocuvm_loop :: "u32 \<Rightarrow> u32 \<Rightarrow> u32 \<Rightarrow> u32 list \<Rightarrow> 'z mstate_scheme \<Rightarrow> (u32, 'z mstate_scheme) res" where
  "allocuvm_loop pgdir oldsz newsz [] s = Ok newsz s"
| "allocuvm_loop pgdir oldsz newsz (a # as) s =
     andthen (kalloc s) (\<lambda>mem s.
     if mem = 0 then andthen (deallocuvm pgdir newsz oldsz s) (\<lambda>_ s. Ok 0 s)
     else
       andthen (mappages pgdir a PGSIZE (V2P mem) (PTE_W OR PTE_U) (zero_page mem s)) (\<lambda>r s.
       if r < 0 then
         andthen (deallocuvm pgdir newsz oldsz s) (\<lambda>_ s.
         andthen (kfree mem s) (\<lambda>_ s. Ok 0 s))
       else allocuvm_loop pgdir oldsz newsz as s))"

definition allocuvm :: "u32 \<Rightarrow> u32 \<Rightarrow> u32 \<Rightarrow> 'z mstate_scheme \<Rightarrow> (u32, 'z mstate_scheme) res" where
  "allocuvm pgdir oldsz newsz s =
     (if newsz \<ge> KERNBASE then Ok 0 s
      else if newsz < oldsz then Ok oldsz s
      else allocuvm_loop pgdir oldsz newsz (pages_below (PGROUNDUP oldsz) newsz) s)"

definition free_pgtab :: "u32 \<Rightarrow> nat \<Rightarrow> 'z mstate_scheme \<Rightarrow> (unit, 'z mstate_scheme) res" where
  "free_pgtab pgdir i s =
     (let pde = ld32 (kram s) (pgdir + 4 * of_nat i)
      in if present pde then kfree (P2V (PTE_ADDR pde)) s else Ok () s)"

definition freevm :: "u32 \<Rightarrow> 'z mstate_scheme \<Rightarrow> (unit, 'z mstate_scheme) res" where
  "freevm pgdir s =
     (if pgdir = 0 then Panic ''freevm: no pgdir''
      else
        andthen (deallocuvm pgdir KERNBASE 0 s) (\<lambda>_ s.
        andthen (foreach (free_pgtab pgdir) [0..<NPDENTRIES] s) (\<lambda>_ s.
        kfree pgdir s)))"

section \<open>Address spaces\<close>

text \<open>The table \<open>kmap\<close>: virtual start, physical start and end, permissions.\<close>

definition kmap :: "'z mstate_scheme \<Rightarrow> (u32 \<times> u32 \<times> u32 \<times> u32) list" where
  "kmap s =
     [(KERNBASE, 0, EXTMEM, PTE_W),
      (KERNLINK, V2P KERNLINK, V2P (sym_data s), 0),
      (sym_data s, V2P (sym_data s), PHYSTOP, PTE_W),
      (DEVSPACE, DEVSPACE, 0, PTE_W)]"

fun map_kernel :: "u32 \<Rightarrow> (u32 \<times> u32 \<times> u32 \<times> u32) list \<Rightarrow> 'z mstate_scheme \<Rightarrow> (u32, 'z mstate_scheme) res" where
  "map_kernel pgdir [] s = Ok pgdir s"
| "map_kernel pgdir ((virt, start, fin, perm) # ks) s =
     andthen (mappages pgdir virt (fin - start) start perm s) (\<lambda>r s.
     if r < 0 then andthen (freevm pgdir s) (\<lambda>_ s. Ok 0 s) else map_kernel pgdir ks s)"

definition setupkvm :: "'z mstate_scheme \<Rightarrow> (u32, 'z mstate_scheme) res" where
  "setupkvm s =
     andthen (kalloc s) (\<lambda>pgdir s.
     if pgdir = 0 then Ok 0 s
     else
       let s = zero_page pgdir s
       in if P2V PHYSTOP > DEVSPACE then Panic ''PHYSTOP too high''
          else map_kernel pgdir (kmap s) s)"

definition switchkvm :: "'z vstate_scheme \<Rightarrow> 'z vstate_scheme" where
  "switchkvm s = lcr3 (V2P (kpgdir s)) s"

definition kvmalloc :: "'z vstate_scheme \<Rightarrow> (unit, 'z vstate_scheme) res" where
  "kvmalloc s = andthen (setupkvm s) (\<lambda>d s. Ok () (switchkvm (s\<lparr>kpgdir := d\<rparr>)))"

definition switchuvm :: "nat option \<Rightarrow> 'z vstate_scheme \<Rightarrow> (unit, 'z vstate_scheme) res" where
  "switchuvm p s =
     (case p of
        None \<Rightarrow> Panic ''switchuvm: no process''
      | Some p \<Rightarrow>
          if p_kstack (procs s p) = 0 then Panic ''switchuvm: no kstack''
          else if p_pgdir (procs s p) = 0 then Panic ''switchuvm: no pgdir''
          else
            andthen (pushcli s) (\<lambda>_ s.
            andthen (mycpu s) (\<lambda>c s.
            let s = s\<lparr>gdt := (gdt s)(c := (gdt s c)(SEG_TSS :=
                       (SEG16 STS_T32A (ts_addr s c) 103 0)\<lparr>sd_s := 0\<rparr>))\<rparr>;
                s = s\<lparr>tss := (tss s)(c := (tss s c)\<lparr>ts_ss0 := of_nat (SEG_KDATA * 8),
                       ts_esp0 := p_kstack (procs s p) + of_nat KSTACKSIZE, ts_iomb := 0xFFFF\<rparr>)\<rparr>;
                s = ltr (of_nat (SEG_TSS * 8)) s;
                s = lcr3 (V2P (p_pgdir (procs s p))) s
            in popcli s)))"

definition ram_write :: "u32 \<Rightarrow> u8 list \<Rightarrow> 'z mstate_scheme \<Rightarrow> 'z mstate_scheme" where
  "ram_write a d s = s\<lparr>kram := (\<lambda>x. if unat a \<le> x \<and> x < unat a + length d then d ! (x - unat a) else kram s x)\<rparr>"

definition inituvm :: "u32 \<Rightarrow> u8 list \<Rightarrow> 'z mstate_scheme \<Rightarrow> (unit, 'z mstate_scheme) res" where
  "inituvm pgdir init s =
     (if length init \<ge> unat PGSIZE then Panic ''inituvm: more than a page''
      else
        andthen (kalloc s) (\<lambda>mem s.
        if mem = 0 then Panic ''inituvm: null page''
        else
          andthen (mappages pgdir 0 PGSIZE (V2P mem) (PTE_W OR PTE_U) (zero_page mem s)) (\<lambda>_ s.
          Ok () (ram_write mem init s))))"

fun loaduvm_loop :: "'z mstate_scheme devread \<Rightarrow> u32 \<Rightarrow> u32 \<Rightarrow> nat \<Rightarrow> u32 \<Rightarrow> u32 \<Rightarrow> u32 list \<Rightarrow>
    'z mstate_scheme \<Rightarrow> (int, 'z mstate_scheme) res" where
  "loaduvm_loop dr pgdir addr ip offset sz [] s = Ok 0 s"
| "loaduvm_loop dr pgdir addr ip offset sz (i # is) s =
     andthen (walkpgdir pgdir (addr + i) False s) (\<lambda>pte s.
     if pte = 0 then Panic ''loaduvm: address should exist''
     else
       let pa = PTE_ADDR (ld32 (kram s) pte);
           n = (if sz - i < PGSIZE then sz - i else PGSIZE)
       in andthen (readi dr ip (unat (offset + i)) (unat n) s) (\<lambda>(r, d) s.
          let s = ram_write (P2V pa) d s
          in if r \<noteq> int (unat n) then Ok (- 1) s else loaduvm_loop dr pgdir addr ip offset sz is s))"

definition loaduvm :: "'z mstate_scheme devread \<Rightarrow> u32 \<Rightarrow> u32 \<Rightarrow> nat \<Rightarrow> u32 \<Rightarrow> u32 \<Rightarrow>
    'z mstate_scheme \<Rightarrow> (int, 'z mstate_scheme) res" where
  "loaduvm dr pgdir addr ip offset sz s =
     (if addr mod PGSIZE \<noteq> 0 then Panic ''loaduvm: addr must be page aligned''
      else loaduvm_loop dr pgdir addr ip offset sz (pages_below 0 sz) s)"

definition clearpteu :: "u32 \<Rightarrow> u32 \<Rightarrow> 'z mstate_scheme \<Rightarrow> (unit, 'z mstate_scheme) res" where
  "clearpteu pgdir uva s =
     andthen (walkpgdir pgdir uva False s) (\<lambda>pte s.
     if pte = 0 then Panic ''clearpteu''
     else Ok () (store pte (ld32 (kram s) pte AND NOT PTE_U) s))"

fun copyuvm_loop :: "u32 \<Rightarrow> u32 \<Rightarrow> u32 list \<Rightarrow> 'z mstate_scheme \<Rightarrow> (u32, 'z mstate_scheme) res" where
  "copyuvm_loop pgdir d [] s = Ok d s"
| "copyuvm_loop pgdir d (i # is) s =
     andthen (walkpgdir pgdir i False s) (\<lambda>pte s.
     if pte = 0 then Panic ''copyuvm: pte should exist''
     else if \<not> present (ld32 (kram s) pte) then Panic ''copyuvm: page not present''
     else
       let pa = PTE_ADDR (ld32 (kram s) pte); flags = PTE_FLAGS (ld32 (kram s) pte)
       in andthen (kalloc s) (\<lambda>mem s.
          if mem = 0 then andthen (freevm d s) (\<lambda>_ s. Ok 0 s)
          else
            let s = s\<lparr>kram := memmove (unat mem) (unat (P2V pa)) (unat PGSIZE) (kram s)\<rparr>
            in andthen (mappages d i PGSIZE (V2P mem) flags s) (\<lambda>r s.
               if r < 0 then
                 andthen (kfree mem s) (\<lambda>_ s.
                 andthen (freevm d s) (\<lambda>_ s. Ok 0 s))
               else copyuvm_loop pgdir d is s)))"

definition copyuvm :: "u32 \<Rightarrow> u32 \<Rightarrow> 'z mstate_scheme \<Rightarrow> (u32, 'z mstate_scheme) res" where
  "copyuvm pgdir sz s =
     andthen (setupkvm s) (\<lambda>d s.
     if d = 0 then Ok 0 s else copyuvm_loop pgdir d (pages_below 0 sz) s)"

definition uva2ka :: "u32 \<Rightarrow> u32 \<Rightarrow> 'z mstate_scheme \<Rightarrow> (u32, 'z mstate_scheme) res" where
  "uva2ka pgdir uva s =
     andthen (walkpgdir pgdir uva False s) (\<lambda>pte s.
     if pte = 0 then Panic ''uva2ka: null pte''
     else
       let e = ld32 (kram s) pte
       in if e AND PTE_P = 0 then Ok 0 s
          else if e AND PTE_U = 0 then Ok 0 s
          else Ok (P2V (PTE_ADDR e)) s)"

lemma round_down_offset: "unat (va - PGROUNDDOWN va) = unat va mod 4096"
proof -
  have "PGROUNDDOWN va \<le> va" by (simp add: word_le_nat_alt unat_round_down)
  then show ?thesis by (simp add: unat_sub unat_round_down modulo_nat_def)
qed

text \<open>\<open>copyout\<close> copies a page, or what is left, at a time.\<close>

function copyout :: "u32 \<Rightarrow> u32 \<Rightarrow> u8 list \<Rightarrow> 'z mstate_scheme \<Rightarrow> (int, 'z mstate_scheme) res" where
  "copyout pgdir va buf s =
     (if buf = [] then Ok 0 s
      else
        let va0 = PGROUNDDOWN va
        in andthen (uva2ka pgdir va0 s) (\<lambda>pa0 s.
           if pa0 = 0 then Ok (- 1) s
           else
             let n = min (4096 - unat (va - va0)) (length buf)
             in copyout pgdir (va0 + PGSIZE) (drop n buf) (ram_write (pa0 + (va - va0)) (take n buf) s)))"
  by pat_completeness auto

termination
proof (relation "measure (\<lambda>(pgdir, va, buf, s). length buf)", simp)
  fix pgdir va :: u32 and buf :: "u8 list" and s t :: "'z mstate_scheme" and va0 pa0 :: u32 and n :: nat
  assume "buf \<noteq> []" "va0 = PGROUNDDOWN va" "n = min (4096 - unat (va - va0)) (length buf)"
  then have "0 < n" using round_down_offset [of va] by simp
  then show "((pgdir, va0 + PGSIZE, drop n buf, ram_write (pa0 + (va - va0)) (take n buf) t), pgdir, va, buf, s)
    \<in> measure (\<lambda>(pgdir, va, buf, s). length buf)" using \<open>buf \<noteq> []\<close> by simp
qed

declare copyout.simps [simp del]

end
