(* ===== verification/Pipe.thy ===== *)
theory Pipe
  imports Vm
begin

text \<open>
  \<open>pipe.c\<close> without \<open>pipealloc\<close>, which needs the file table. A pipe is known by the address of the
  page it lives in. The counters \<open>nread\<close> and \<open>nwrite\<close> are 32-bit words and wrap around.
  A writer to a full pipe and a reader of an empty one give up the CPU (\<open>Swtch\<close>);
  \<open>pipewrite_resume\<close> and \<open>piperead_resume\<close> are what they run when they are scheduled again.
\<close>

definition PIPESIZE :: u32 where "PIPESIZE = 512"

record pipe =
  pi_data :: "nat \<Rightarrow> u8"
  pi_nread :: u32
  pi_nwrite :: u32
  pi_readopen :: bool
  pi_writeopen :: bool

record pstate = vstate +
  pipes :: "u32 \<Rightarrow> pipe"

definition upd_pipe :: "u32 \<Rightarrow> (pipe \<Rightarrow> pipe) \<Rightarrow> 'z pstate_scheme \<Rightarrow> 'z pstate_scheme" where
  "upd_pipe p f s = s\<lparr>pipes := (pipes s)(p := f (pipes s p))\<rparr>"

abbreviation pipe_lock :: "u32 \<Rightarrow> lockid" where "pipe_lock p \<equiv> PipeLock (unat p)"
abbreviation chan_nread :: "u32 \<Rightarrow> chan" where "chan_nread p \<equiv> ChanPipeRead (unat p)"
abbreviation chan_nwrite :: "u32 \<Rightarrow> chan" where "chan_nwrite p \<equiv> ChanPipeWrite (unat p)"

definition pipeclose :: "u32 \<Rightarrow> bool \<Rightarrow> 'z pstate_scheme \<Rightarrow> (unit, 'z pstate_scheme) res" where
  "pipeclose p writable s =
     andthen (acquire (pipe_lock p) s) (\<lambda>_ s.
     andthen (if writable
              then wakeup (chan_nread p) (upd_pipe p (\<lambda>r. r\<lparr>pi_writeopen := False\<rparr>) s)
              else wakeup (chan_nwrite p) (upd_pipe p (\<lambda>r. r\<lparr>pi_readopen := False\<rparr>) s)) (\<lambda>_ s.
     if \<not> pi_readopen (pipes s p) \<and> \<not> pi_writeopen (pipes s p)
     then andthen (release (pipe_lock p) s) (\<lambda>_ s. kfree p s)
     else release (pipe_lock p) s))"

definition pipe_put :: "u8 \<Rightarrow> pipe \<Rightarrow> pipe" where
  "pipe_put x r = r\<lparr>pi_data := (pi_data r)(unat (pi_nwrite r mod PIPESIZE) := x), pi_nwrite := pi_nwrite r + 1\<rparr>"

definition pipe_full :: "pipe \<Rightarrow> bool" where
  "pipe_full r \<longleftrightarrow> pi_nwrite r = pi_nread r + PIPESIZE"

definition pipe_empty :: "pipe \<Rightarrow> bool" where
  "pipe_empty r \<longleftrightarrow> pi_nread r = pi_nwrite r"

text \<open>The loop of \<open>pipewrite\<close> with the bytes it has still to write.\<close>

fun pipewrite_loop :: "u32 \<Rightarrow> u8 list \<Rightarrow> int \<Rightarrow> 'z pstate_scheme \<Rightarrow> (int, 'z pstate_scheme) res" where
  "pipewrite_loop p [] n s =
     andthen (wakeup (chan_nread p) s) (\<lambda>_ s.
     andthen (release (pipe_lock p) s) (\<lambda>_ s. Ok n s))"
| "pipewrite_loop p (x # xs) n s =
     (if pipe_full (pipes s p) then
        andthen (myproc s) (\<lambda>q s.
        case q of None \<Rightarrow> Panic ''null proc''
        | Some q \<Rightarrow>
          if \<not> pi_readopen (pipes s p) \<or> p_killed (procs s q)
          then andthen (release (pipe_lock p) s) (\<lambda>_ s. Ok (- 1) s)
          else
            andthen (wakeup (chan_nread p) s) (\<lambda>_ s.
            andthen (sleep (chan_nwrite p) (pipe_lock p) s) (\<lambda>_ s. Panic ''sleep returned'')))
      else pipewrite_loop p xs n (upd_pipe p (pipe_put x) s))"

definition pipewrite :: "u32 \<Rightarrow> bytes \<Rightarrow> int \<Rightarrow> 'z pstate_scheme \<Rightarrow> (int, 'z pstate_scheme) res" where
  "pipewrite p addr n s =
     andthen (acquire (pipe_lock p) s) (\<lambda>_ s. pipewrite_loop p (map addr [0..<nat n]) n s)"

text \<open>The process \<open>q\<close> continues after the sleep, with the bytes \<open>xs\<close> still to write.\<close>

definition pipewrite_resume ::
  "nat \<Rightarrow> bool \<Rightarrow> u32 \<Rightarrow> u8 list \<Rightarrow> int \<Rightarrow> 'z pstate_scheme \<Rightarrow> (int, 'z pstate_scheme) res" where
  "pipewrite_resume q intena p xs n s =
     andthen (sleep_return q (pipe_lock p) intena s) (\<lambda>_ s. pipewrite_loop p xs n s)"

text \<open>The copy loop of \<open>piperead\<close>: at most \<open>k\<close> bytes, until the pipe is empty.\<close>

fun pipe_get :: "nat \<Rightarrow> pipe \<Rightarrow> u8 list \<times> pipe" where
  "pipe_get 0 r = ([], r)"
| "pipe_get (Suc k) r =
     (if pipe_empty r then ([], r)
      else
        let x = pi_data r (unat (pi_nread r mod PIPESIZE));
            (xs, r) = pipe_get k (r\<lparr>pi_nread := pi_nread r + 1\<rparr>)
        in (x # xs, r))"

definition piperead_loop :: "u32 \<Rightarrow> int \<Rightarrow> 'z pstate_scheme \<Rightarrow> (int \<times> u8 list, 'z pstate_scheme) res" where
  "piperead_loop p n s =
     (if pipe_empty (pipes s p) \<and> pi_writeopen (pipes s p) then
        andthen (myproc s) (\<lambda>q s.
        case q of None \<Rightarrow> Panic ''null proc''
        | Some q \<Rightarrow>
          if p_killed (procs s q) then andthen (release (pipe_lock p) s) (\<lambda>_ s. Ok (- 1, []) s)
          else andthen (sleep (chan_nread p) (pipe_lock p) s) (\<lambda>_ s. Panic ''sleep returned''))
      else
        let (xs, r) = pipe_get (nat n) (pipes s p)
        in andthen (wakeup (chan_nwrite p) (upd_pipe p (\<lambda>_. r) s)) (\<lambda>_ s.
           andthen (release (pipe_lock p) s) (\<lambda>_ s. Ok (int (length xs), xs) s)))"

definition piperead :: "u32 \<Rightarrow> int \<Rightarrow> 'z pstate_scheme \<Rightarrow> (int \<times> u8 list, 'z pstate_scheme) res" where
  "piperead p n s = andthen (acquire (pipe_lock p) s) (\<lambda>_ s. piperead_loop p n s)"

definition piperead_resume ::
  "nat \<Rightarrow> bool \<Rightarrow> u32 \<Rightarrow> int \<Rightarrow> 'z pstate_scheme \<Rightarrow> (int \<times> u8 list, 'z pstate_scheme) res" where
  "piperead_resume q intena p n s =
     andthen (sleep_return q (pipe_lock p) intena s) (\<lambda>_ s. piperead_loop p n s)"

section \<open>The contents of a pipe\<close>

text \<open>The bytes written and not yet read, oldest first.\<close>

definition pending :: "pipe \<Rightarrow> u8 list" where
  "pending r = map (\<lambda>i. pi_data r (unat ((pi_nread r + of_nat i) mod PIPESIZE))) [0..<unat (pi_nwrite r - pi_nread r)]"

definition pipe_ok :: "pipe \<Rightarrow> bool" where
  "pipe_ok r \<longleftrightarrow> unat (pi_nwrite r - pi_nread r) \<le> 512"

lemma pipe_slot: "unat ((a + of_nat i) mod PIPESIZE) = (unat a + i) mod 512"
proof -
  have "unat (a + of_nat i) = (unat a + i) mod 4294967296" by (simp add: unat_word_ariths unat_of_nat mod_add_right_eq)
  then show ?thesis by (simp add: PIPESIZE_def unat_mod mod_mod_cancel)
qed

lemma pipe_write_slot: "unat (pi_nwrite r mod PIPESIZE) = (unat (pi_nread r) + unat (pi_nwrite r - pi_nread r)) mod 512"
  using pipe_slot [of "pi_nread r" "unat (pi_nwrite r - pi_nread r)"] by simp

lemma pending_eq:
  "pending r = map (\<lambda>i. pi_data r ((unat (pi_nread r) + i) mod 512)) [0..<unat (pi_nwrite r - pi_nread r)]"
  by (simp add: pending_def pipe_slot)

lemma length_pending [simp]: "length (pending r) = unat (pi_nwrite r - pi_nread r)"
  by (simp add: pending_def)

lemma pipe_full_iff: "pipe_full r \<longleftrightarrow> length (pending r) = 512"
proof -
  have "pipe_full r \<longleftrightarrow> pi_nwrite r - pi_nread r = 512" by (auto simp: pipe_full_def PIPESIZE_def algebra_simps)
  then show ?thesis by (simp add: word_unat_eq_iff)
qed

lemma pipe_empty_iff: "pipe_empty r \<longleftrightarrow> pending r = []"
  by (auto simp: pipe_empty_def length_0_conv [symmetric] unat_eq_0 simp del: length_0_conv)

lemma slots_apart: "i < d \<Longrightarrow> d < 512 \<Longrightarrow> (a + i) mod 512 \<noteq> (a + d) mod (512 :: nat)"
proof
  assume "i < d" "d < 512" "(a + i) mod 512 = (a + d) mod 512"
  then have "512 dvd (a + d) - (a + i)" by (metis mod_eq_dvd_iff_nat less_imp_le nat_add_left_cancel_le)
  then have "512 dvd d - i" by simp
  then show False using \<open>i < d\<close> \<open>d < 512\<close> by (auto dest: dvd_imp_le)
qed

lemma pending_put:
  assumes "pipe_ok r" "\<not> pipe_full r"
  shows "pending (pipe_put x r) = pending r @ [x]" "pipe_ok (pipe_put x r)"
proof -
  let ?d = "unat (pi_nwrite r - pi_nread r)"
  have d: "?d < 512" using assms by (auto simp: pipe_ok_def pipe_full_iff)
  have "pi_nwrite r + 1 - pi_nread r = (pi_nwrite r - pi_nread r) + 1" by simp
  then have e: "unat (pi_nwrite r + 1 - pi_nread r) = Suc ?d"
    using d by (simp only:) (simp add: unat_word_ariths)
  show "pipe_ok (pipe_put x r)" using e d by (simp add: pipe_ok_def pipe_put_def)
  have "(unat (pi_nread r) + i) mod 512 \<noteq> (unat (pi_nread r) + ?d) mod 512" if "i < ?d" for i
    using slots_apart [OF that d] .
  then show "pending (pipe_put x r) = pending r @ [x]"
    by (simp add: pending_eq pipe_put_def e pipe_write_slot)
qed

lemma pending_next:
  assumes "\<not> pipe_empty r" "pipe_ok r"
  shows "pending r = pi_data r (unat (pi_nread r mod PIPESIZE)) # pending (r\<lparr>pi_nread := pi_nread r + 1\<rparr>)"
    "pipe_ok (r\<lparr>pi_nread := pi_nread r + 1\<rparr>)"
proof -
  let ?d = "unat (pi_nwrite r - pi_nread r)"
  have "pi_nwrite r - pi_nread r \<noteq> 0" using assms by (simp add: pipe_empty_def)
  then have "0 < ?d" by (simp add: unat_gt_0)
  moreover have "pi_nwrite r - (pi_nread r + 1) = (pi_nwrite r - pi_nread r) - 1" by simp
  ultimately have e: "unat (pi_nwrite r - (pi_nread r + 1)) = ?d - 1"
    by (simp only:) (simp add: unat_sub word_le_nat_alt)
  have s: "(unat (pi_nread r + 1) + i) mod 512 = (unat (pi_nread r) + Suc i) mod 512" for i
    using pipe_slot [of "pi_nread r + 1" i] pipe_slot [of "pi_nread r" "Suc i"] by (simp add: add.commute add.left_commute)
  obtain k where k: "?d = Suc k" using \<open>0 < ?d\<close> gr0_conv_Suc by blast
  have h: "unat (pi_nread r mod PIPESIZE) = (unat (pi_nread r) + 0) mod 512" using pipe_slot [of "pi_nread r" 0] by simp
  show "pending r = pi_data r (unat (pi_nread r mod PIPESIZE)) # pending (r\<lparr>pi_nread := pi_nread r + 1\<rparr>)"
    unfolding h by (simp add: pending_eq e s k map_upt_Suc del: upt_Suc)
  show "pipe_ok (r\<lparr>pi_nread := pi_nread r + 1\<rparr>)" using assms(2) e by (simp add: pipe_ok_def)
qed

lemma pipe_get_take:
  assumes "pipe_ok r"
  shows "\<exists>r'. pipe_get k r = (take k (pending r), r') \<and> pending r' = drop k (pending r) \<and> pipe_ok r' \<and>
    pi_readopen r' = pi_readopen r \<and> pi_writeopen r' = pi_writeopen r"
  using assms
proof (induction k arbitrary: r)
  case (Suc k)
  show ?case
  proof (cases "pipe_empty r")
    case True
    then show ?thesis using Suc.prems by (simp add: pipe_empty_iff)
  next
    case False
    then show ?thesis using Suc.IH [OF pending_next(2) [OF False Suc.prems]] pending_next(1) [OF False Suc.prems]
      by (auto simp: Let_def)
  qed
qed simp

section \<open>Calls\<close>

lemma acq_pipes [simp]: "pipes (acq l c s) = pipes s" for s :: "'z pstate_scheme"
  by (simp add: acq_def)

lemma upd_pipe_acq: "upd_pipe p f (acq l c s) = acq l c (upd_pipe p f s)"
  by (cases s) (simp add: upd_pipe_def acq_def)

lemma upd_pipe_simps [simp]:
  "pipes (upd_pipe p f s) = (pipes s)(p := f (pipes s p))" "procs (upd_pipe p f s) = procs s"
  "runs c q (upd_pipe p f s) = runs c q s"
  by (simp_all add: upd_pipe_def runs_def calm_def steady_def lk_free_def)

lemma upd_pipe_twice: "upd_pipe p g (upd_pipe p f s) = upd_pipe p (g \<circ> f) s"
  by (simp add: upd_pipe_def)

lemma upd_pipe_id: "upd_pipe p id s = s"
  by (simp add: upd_pipe_def)

lemma wakeup1_pipes [simp]: "pipes (wakeup1 ch s) = pipes s" for s :: "'z pstate_scheme"
  by (simp add: wakeup1_eq)

lemma pending_puts:
  "pipe_ok r \<Longrightarrow> length (pending r) + length xs \<le> 512 \<Longrightarrow>
   pending (fold pipe_put xs r) = pending r @ xs \<and> pipe_ok (fold pipe_put xs r)"
proof (induction xs arbitrary: r)
  case (Cons x xs)
  have n: "\<not> pipe_full r" using Cons.prems by (auto simp: pipe_full_iff)
  note p = pending_put [OF Cons.prems(1) n, of x]
  have "length (pending (pipe_put x r)) + length xs \<le> 512" using Cons.prems(2) p(1) by (simp del: length_pending)
  then show ?case using Cons.IH [OF p(2)] p(1) by simp
qed simp

lemma pipewrite_loop_fits:
  assumes "runs c q s" "pipe_ok (pipes s p)" "length (pending (pipes s p)) + length xs \<le> 512"
  shows "pipewrite_loop p xs n (acq (pipe_lock p) c s) = Ok n (wakeup1 (chan_nread p) (upd_pipe p (fold pipe_put xs) s))"
  using assms
proof (induction xs arbitrary: s)
  case Nil
  then show ?case by (simp add: wakeup_in_lock [OF Nil(1)] release_acq_runs [of c q] upd_pipe_id [unfolded id_def] id_def)
next
  case (Cons x xs)
  have n: "\<not> pipe_full (pipes s p)" using Cons.prems by (auto simp: pipe_full_iff)
  note g = pending_put [OF Cons.prems(2) n, of x]
  have "length (pending (pipe_put x (pipes s p))) + length xs \<le> 512" using Cons.prems(3) g(1) by (simp del: length_pending)
  then show ?case
    using Cons.IH [of "upd_pipe p (pipe_put x) s"] Cons.prems(1) g(2) n by (simp add: upd_pipe_acq upd_pipe_twice comp_def)
qed

text \<open>A write of more bytes than fit: the first ones go in, then the writer has to wait.\<close>

lemma pipewrite_loop_fills:
  assumes "runs c q s" "pipe_ok (pipes s p)" "512 < length (pending (pipes s p)) + length xs"
  shows "pipewrite_loop p xs n (acq (pipe_lock p) c s) =
    pipewrite_loop p (drop (512 - length (pending (pipes s p))) xs) n
      (acq (pipe_lock p) c (upd_pipe p (fold pipe_put (take (512 - length (pending (pipes s p))) xs)) s))"
  using assms
proof (induction xs arbitrary: s)
  case (Cons x xs)
  show ?case
  proof (cases "pipe_full (pipes s p)")
    case True
    then have "length (pending (pipes s p)) = 512" by (simp only: pipe_full_iff)
    then show ?thesis by (simp del: length_pending pipewrite_loop.simps) (simp add: upd_pipe_id [unfolded id_def] id_def)
  next
    case False
    note g = pending_put [OF Cons.prems(2) False, of x]
    have l: "length (pending (pipe_put x (pipes s p))) = Suc (length (pending (pipes s p)))" by (simp only: g(1)) simp
    have b: "length (pending (pipes s p)) < 512"
      using False Cons.prems(2) by (simp only: pipe_full_iff) (simp add: pipe_ok_def)
    then obtain k where k: "512 - length (pending (pipes s p)) = Suc k" by (metis Suc_diff_Suc)
    then have k': "512 - length (pending (pipe_put x (pipes s p))) = k" using l by simp
    have "512 < length (pending (pipes (upd_pipe p (pipe_put x) s) p)) + length xs" using Cons.prems(3) l by (simp del: length_pending)
    from Cons.IH [OF _ _ this] show ?thesis
      using Cons.prems(1) g(2) False k k' by (simp add: upd_pipe_acq upd_pipe_twice comp_def del: length_pending)
  qed
qed (simp add: pipe_ok_def)

lemma pipe_put_open [simp]:
  "pi_readopen (fold pipe_put xs r) = pi_readopen r" "pi_writeopen (fold pipe_put xs r) = pi_writeopen r"
  by (induction xs arbitrary: r) (simp_all add: pipe_put_def)

lemma pipewrite_full:
  assumes r: "runs c q s" and f: "pipe_full (pipes s p)"
  shows "pipewrite_loop p (x # xs) n (acq (pipe_lock p) c s) =
    (if \<not> pi_readopen (pipes s p) \<or> p_killed (procs s q) then Ok (- 1) s
     else Swtch (acq PtableLock c (upd_proc q (\<lambda>r. r\<lparr>p_chan := Some (chan_nwrite p), p_state := SLEEPING\<rparr>)
       (wakeup1 (chan_nread p) s))))"
proof -
  have m: "myproc (acq (pipe_lock p) c s) = Ok (Some q) (acq (pipe_lock p) c s)"
    using myproc_steady [OF steady_acq [OF runs_steady [OF r]], of "pipe_lock p"] r by (simp add: acq_def runs_def)
  have k: "p_killed (procs (acq (pipe_lock p) c s) q) = p_killed (procs s q)" by (simp add: acq_def)
  have w: "runs c q (wakeup1 (chan_nread p) s)" using r by simp
  have "sleep (chan_nwrite p) (pipe_lock p) (acq (pipe_lock p) c (wakeup1 (chan_nread p) s)) =
    Swtch (acq PtableLock c (upd_proc q (\<lambda>r. r\<lparr>p_chan := Some (chan_nwrite p), p_state := SLEEPING\<rparr>)
       (wakeup1 (chan_nread p) s)))"
    using w runs_steady [OF w] runs_free [OF w] by (intro sleep_switches) (simp_all add: runs_def calm_def)
  then show ?thesis
    using f by (simp add: m k wakeup_in_lock [OF r] release_acq_runs [OF r])
qed

text \<open>
  C25. A \<open>pipewrite\<close> whose bytes fit returns the count and appends them to the pending bytes. When
  they do not fit, the bytes that fit are appended; then the writer sleeps on \<open>nwrite\<close> with
  the readers woken and the pipe's lock released, or, if the read end is closed or the process
  has been killed, returns -1. Wrap-around of the counters makes no difference.
\<close>

theorem pipewrite_appends:
  assumes "runs c q s" "pipe_ok (pipes s p)" "xs = map addr [0..<nat n]" "k = 512 - length (pending (pipes s p))"
  shows "\<exists>t. pending (pipes t p) = pending (pipes s p) @ take k xs \<and> pipe_ok (pipes t p) \<and>
    pipewrite p addr n s =
      (if length xs \<le> k then Ok n t
       else if \<not> pi_readopen (pipes s p) \<or> p_killed (procs s q) then Ok (- 1) t
       else Swtch (acq PtableLock c (upd_proc q (\<lambda>r. r\<lparr>p_chan := Some (chan_nwrite p), p_state := SLEEPING\<rparr>) t)))"
proof -
  have a: "pipewrite p addr n s = pipewrite_loop p xs n (acq (pipe_lock p) c s)"
    by (simp add: pipewrite_def acquire_runs [OF assms(1)] assms(3))
  have b: "length (pending (pipes s p)) \<le> 512" using assms(2) by (simp add: pipe_ok_def)
  let ?u = "upd_pipe p (fold pipe_put (take k xs)) s"
  have "length (pending (pipes s p)) + length (take k xs) \<le> 512" using b assms(4) by simp
  from pending_puts [OF assms(2) this]
  have u: "pending (pipes ?u p) = pending (pipes s p) @ take k xs" "pipe_ok (pipes ?u p)" by simp_all
  let ?t = "wakeup1 (chan_nread p) ?u"
  show ?thesis
  proof (cases "length xs \<le> k")
    case True
    then have "length (pending (pipes s p)) + length xs \<le> 512" using b assms(4) by linarith
    from pipewrite_loop_fits [OF assms(1,2) this] show ?thesis using True u by (intro exI [of _ ?t]) (simp add: a)
  next
    case False
    then have l: "512 < length (pending (pipes s p)) + length xs" using b assms(4) by linarith
    obtain y ys where y: "drop k xs = y # ys" using False by (cases "drop k xs") auto
    have "length (pending (pipes ?u p)) = 512" using u(1) False b assms(4) by simp
    then have "pipe_full (pipes ?u p)" by (simp only: pipe_full_iff)
    from pipewrite_full [OF _ this, of c q y ys n] assms(1)
    have f: "pipewrite_loop p (y # ys) n (acq (pipe_lock p) c ?u) =
      (if \<not> pi_readopen (pipes s p) \<or> p_killed (procs s q) then Ok (- 1) ?u
        else Swtch (acq PtableLock c (upd_proc q (\<lambda>r. r\<lparr>p_chan := Some (chan_nwrite p), p_state := SLEEPING\<rparr>) ?t)))"
      by (simp del: pipewrite_loop.simps)
    have w: "pipewrite p addr n s = (if \<not> pi_readopen (pipes s p) \<or> p_killed (procs s q) then Ok (- 1) ?u
        else Swtch (acq PtableLock c (upd_proc q (\<lambda>r. r\<lparr>p_chan := Some (chan_nwrite p), p_state := SLEEPING\<rparr>) ?t)))"
      unfolding a pipewrite_loop_fills [OF assms(1,2) l, folded assms(4)] y by (rule f)
    show ?thesis
      using False u w by (cases "\<not> pi_readopen (pipes s p) \<or> p_killed (procs s q)")
        (auto intro: exI [of _ ?u] exI [of _ ?t])
  qed
qed

text \<open>
  C26. \<open>piperead\<close> returns the oldest pending bytes, at most \<open>n\<close> of them, and removes them. On an
  empty pipe it returns 0 bytes when the write end is closed, -1 when the process has been
  killed, and otherwise sleeps on \<open>nread\<close>.
\<close>

theorem piperead_takes:
  assumes r: "runs c q s" and ok: "pipe_ok (pipes s p)"
  shows "if pending (pipes s p) = [] \<and> pi_writeopen (pipes s p)
    then piperead p n s =
      (if p_killed (procs s q) then Ok (- 1, []) s
       else Swtch (acq PtableLock c (upd_proc q (\<lambda>r. r\<lparr>p_chan := Some (chan_nread p), p_state := SLEEPING\<rparr>) s)))
    else \<exists>t. piperead p n s = Ok (int (min (nat n) (length (pending (pipes s p)))), take (nat n) (pending (pipes s p))) t \<and>
      pending (pipes t p) = drop (nat n) (pending (pipes s p)) \<and> pipe_ok (pipes t p)"
proof -
  have a: "piperead p n s = piperead_loop p n (acq (pipe_lock p) c s)" by (simp add: piperead_def acquire_runs [OF r])
  have m: "myproc (acq (pipe_lock p) c s) = Ok (Some q) (acq (pipe_lock p) c s)"
    using myproc_steady [OF steady_acq [OF runs_steady [OF r]], of "pipe_lock p"] r by (simp add: acq_def runs_def)
  have k: "p_killed (procs (acq (pipe_lock p) c s) q) = p_killed (procs s q)" by (simp add: acq_def)
  show ?thesis
  proof (cases "pending (pipes s p) = [] \<and> pi_writeopen (pipes s p)")
    case True
    have "sleep (chan_nread p) (pipe_lock p) (acq (pipe_lock p) c s) =
      Swtch (acq PtableLock c (upd_proc q (\<lambda>r. r\<lparr>p_chan := Some (chan_nread p), p_state := SLEEPING\<rparr>) s))"
      using r runs_steady [OF r] runs_free [OF r] by (intro sleep_switches) (simp_all add: runs_def calm_def)
    then show ?thesis using True by (simp add: a piperead_loop_def pipe_empty_iff m k release_acq_runs [OF r])
  next
    case False
    obtain z where z: "pipe_get (nat n) (pipes s p) = (take (nat n) (pending (pipes s p)), z)"
      "pending z = drop (nat n) (pending (pipes s p))" "pipe_ok z" using pipe_get_take [OF ok] by blast
    have f: "\<not> (pipe_empty (pipes s p) \<and> pi_writeopen (pipes s p))" using False by (simp add: pipe_empty_iff)
    let ?t = "wakeup1 (chan_nwrite p) (upd_pipe p (\<lambda>_. z) s)"
    have "piperead p n s = Ok (int (length (take (nat n) (pending (pipes s p)))), take (nat n) (pending (pipes s p))) ?t"
      using r unfolding a
      by (simp add: piperead_loop_def f z(1) upd_pipe_acq wakeup_in_lock [of c q] release_acq_runs [of c q] del: length_pending length_take)
    then have "\<exists>t. piperead p n s = Ok (int (min (nat n) (length (pending (pipes s p)))), take (nat n) (pending (pipes s p))) t \<and>
      pending (pipes t p) = drop (nat n) (pending (pipes s p)) \<and> pipe_ok (pipes t p)"
      using z(2,3) by (intro exI [of _ ?t]) (simp add: min.commute)
    then show ?thesis using False by argo
  qed
qed

section \<open>A machine with pipes\<close>

definition vm_machine :: "mem \<Rightarrow> u32 \<Rightarrow> vstate" where
  "vm_machine m a = mstate.extend (mem_machine m a)
     (vstate.fields 0 (\<lambda>_. 0) (\<lambda>_. 0) (\<lambda>_. 0) (\<lambda>_ _. SEG 0 0 0 0) (\<lambda>_. \<lparr>ts_esp0 = 0, ts_ss0 = 0, ts_iomb = 0\<rparr>) (\<lambda>_. 0))"

definition pipe_machine :: "(u32 \<Rightarrow> pipe) \<Rightarrow> pstate" where
  "pipe_machine f = vstate.extend (vm_machine (\<lambda>_. 0) 0) (pstate.fields f)"

lemma mem_machine_runs: "runs 0 0 (mem_machine m a)"
proof -
  have "runs 0 0 sample_fs" using sample_machine(1) by (simp add: txn_def log_sound_def bgood_def)
  then show ?thesis by (simp add: mem_machine_def runs_def calm_def steady_def lk_free_def fstate.defs)
qed

lemma vm_machine_runs: "runs 0 0 (vm_machine m a)"
  using mem_machine_runs [of m a] by (simp add: vm_machine_def runs_def calm_def steady_def lk_free_def mstate.defs)

lemma pipe_machine_runs: "runs 0 0 (pipe_machine f)"
  using vm_machine_runs [of "\<lambda>_. 0" 0] by (simp add: pipe_machine_def runs_def calm_def steady_def lk_free_def vstate.defs)

lemma pipe_machine_pipes [simp]: "pipes (pipe_machine f) = f"
  by (simp add: pipe_machine_def vstate.defs pstate.defs)

text \<open>A pipe whose counters are about to wrap around, with two bytes pending.\<close>

definition old_pipe :: pipe where
  "old_pipe = \<lparr>pi_data = (\<lambda>_. 0)(510 := 1, 511 := 2), pi_nread = 0xFFFFFFFE, pi_nwrite = 0, pi_readopen = True, pi_writeopen = True\<rparr>"

lemma old_pipe_pending: "pending old_pipe = [1, 2]" "pipe_ok old_pipe"
  by (simp_all add: pending_eq old_pipe_def pipe_ok_def upt_rec)

theorem pipewrite_appends_witness:
  "\<exists>t. pipewrite 0 (\<lambda>_. 9) 3 (pipe_machine (\<lambda>_. old_pipe)) = Ok 3 t \<and> pending (pipes t 0) = [1, 2, 9, 9, 9]"
proof -
  let ?s = "pipe_machine (\<lambda>_. old_pipe)"
  have o: "pipe_ok (pipes ?s 0)" by (simp add: old_pipe_pending)
  have x: "[9, 9, 9] = map (\<lambda>_. 9 :: u8) [0..<nat 3]" by (simp add: upt_rec)
  have k: "510 = 512 - length (pending (pipes ?s 0))" by (simp add: old_pipe_pending del: length_pending)
  from pipewrite_appends [OF pipe_machine_runs o x k] show ?thesis
    by (auto simp: old_pipe_pending simp del: length_pending)
qed

theorem piperead_takes_witness:
  "\<exists>t. piperead 0 1 (pipe_machine (\<lambda>_. old_pipe)) = Ok (1, [1]) t \<and> pending (pipes t 0) = [2]"
  using piperead_takes [OF pipe_machine_runs, of "\<lambda>_. old_pipe" 0 1] old_pipe_pending by (auto simp del: length_pending)

end
