(* ===== verification/Vm_Spec.thy ===== *)
theory Vm_Spec
  imports Vm
begin

text \<open>
  Page tables as a map from virtual pages to entries: what \<open>walkpgdir\<close> and \<open>mappages\<close> do to that
  map, and that they keep the page tables of an address space apart from each other and from the
  free pages.
\<close>

section \<open>Slots of a page\<close>

definition aligned :: "u32 \<Rightarrow> bool" where "aligned p \<longleftrightarrow> unat p mod 4096 = 0"

lemma aligned_mod: "aligned p \<longleftrightarrow> p mod PGSIZE = 0"
  by (simp add: aligned_def word_unat_eq_iff unat_mod PGSIZE_def)

lemma unat_slot:
  assumes "aligned p" "unat i < 1024"
  shows "unat (p + 4 * i) = unat p + 4 * unat i"
proof -
  have "unat p + 4096 \<le> 4294967296"
    using assms(1) unat32_less [of p] by (auto simp: aligned_def elim!: dvdE simp: mod_eq_0_iff_dvd)
  then show ?thesis using assms(2) by (simp add: unat_word_ariths)
qed

lemma slot_in_page: "aligned p \<Longrightarrow> unat i < 1024 \<Longrightarrow> k < 4 \<Longrightarrow> in_page p (unat (p + 4 * i) + k)"
  by (simp add: in_page_def unat_slot)

lemma aligned_apart:
  "aligned p \<Longrightarrow> aligned q \<Longrightarrow> p \<noteq> q \<Longrightarrow> unat p + 4096 \<le> unat q \<or> unat q + 4096 \<le> unat p"
  using pages_apart by (simp add: aligned_mod)

lemma in_page_apart: "aligned p \<Longrightarrow> aligned q \<Longrightarrow> p \<noteq> q \<Longrightarrow> in_page p a \<Longrightarrow> \<not> in_page q a"
  using aligned_apart [of p q] by (auto simp: in_page_def)

lemma ld32_slot:
  assumes "aligned p" "aligned q" "unat i < 1024" "unat j < 1024"
  shows "ld32 (st32 (p + 4 * i) w m) (q + 4 * j) = (if p = q \<and> i = j then w else ld32 m (q + 4 * j))"
proof (cases "p = q \<and> i = j")
  case True
  then show ?thesis by (simp add: ld32_st32)
next
  case False
  have "unat (q + 4 * j) + 4 \<le> unat (p + 4 * i) \<or> unat (p + 4 * i) + 4 \<le> unat (q + 4 * j)"
  proof (cases "p = q")
    case True
    then have "unat i \<noteq> unat j" using False by (simp add: word_unat_eq_iff)
    then show ?thesis using True assms by (simp add: unat_slot) linarith
  next
    case False
    then show ?thesis using aligned_apart [OF assms(1,2)] assms by (simp add: unat_slot) linarith
  qed
  then show ?thesis using False by (auto simp: ld32_st32_other)
qed

lemma ld32_same:
  assumes "\<forall>a. in_page q a \<longrightarrow> m a = m' a" "aligned q" "unat j < 1024"
  shows "ld32 m (q + 4 * j) = ld32 m' (q + 4 * j)"
  using assms by (intro ld32_cong) (auto intro: slot_in_page)

lemma ld32_zero_page:
  assumes "aligned q" "unat j < 1024"
  shows "ld32 (memset (unat q) 0 (unat PGSIZE) m) (q + 4 * j) = 0"
proof -
  have "ld32 (memset (unat q) 0 (unat PGSIZE) m) (q + 4 * j) = ld32 (\<lambda>_. 0) (q + 4 * j)"
    using assms by (intro ld32_same) (auto simp: memset_at in_page_def PGSIZE_def)
  then show ?thesis by (simp add: ld32_def)
qed

lemma st32_page:
  "aligned p \<Longrightarrow> unat i < 1024 \<Longrightarrow> \<not> in_page p a \<Longrightarrow> st32 (p + 4 * i) w m a = m a"
  by (rule st32_other) (auto simp: in_page_def unat_slot)

lemma zero_page_outside: "\<not> in_page p a \<Longrightarrow> memset (unat p) 0 (unat PGSIZE) m a = m a"
  by (auto simp: memset_at in_page_def PGSIZE_def)

section \<open>Indices\<close>

lemma unat_and_3FF: "unat (x AND 0x3FF :: u32) = unat x mod 1024"
proof -
  have "(0x3FF :: u32) = mask 10" by (simp add: mask_eq_exp_minus_1)
  then have "x AND 0x3FF = take_bit 10 x" by (simp only: take_bit_eq_mask)
  then show ?thesis by (simp add: unsigned_take_bit_eq take_bit_eq_mod unat_mod)
qed

lemma unat_PDX: "unat (PDX va) = unat va div 4194304"
proof -
  have "unat va div 4194304 < 1024" using unat32_less [of va] by simp
  then show ?thesis by (simp add: PDX_def unat_and_3FF unsigned_drop_bit_eq drop_bit_eq_div unat_div)
qed

lemma unat_PTX: "unat (PTX va) = unat va div 4096 mod 1024"
  by (simp add: PTX_def unat_and_3FF unsigned_drop_bit_eq drop_bit_eq_div unat_div)

lemma index_less [simp]: "unat (PDX va) < 1024" "unat (PTX va) < 1024"
  using unat32_less [of va] by (simp_all add: unat_PDX unat_PTX)

lemma same_page:
  "PDX a = PDX b \<and> PTX a = PTX b \<longleftrightarrow> unat a div 4096 = unat b div 4096"
proof -
  have "unat x div 4194304 = unat x div 4096 div 1024" for x :: u32 by (simp add: div_mult2_eq [symmetric])
  then show ?thesis
    by (simp add: word_unat_eq_iff unat_PDX unat_PTX) (metis div_mult_mod_eq)
qed

section \<open>Entries\<close>

lemma aligned_bit: "aligned x \<longleftrightarrow> (\<forall>n<12. \<not> bit x n)"
proof -
  have "unat (x AND mask 12) = unat x mod 4096"
    by (simp add: take_bit_eq_mask [symmetric] unsigned_take_bit_eq take_bit_eq_mod unat_mod)
  then have "aligned x \<longleftrightarrow> x AND mask 12 = 0" by (simp add: aligned_def unat_eq_0 [symmetric])
  also have "\<dots> \<longleftrightarrow> (\<forall>n<12. \<not> bit x n)"
    using bit_eq_iff [of "x AND mask 12" 0] bit_imp_le_length [of x] by (auto simp: bit_simps)
  finally show ?thesis .
qed

lemma PTE_ADDR_bit: "bit (PTE_ADDR e) n \<longleftrightarrow> 12 \<le> n \<and> bit e n"
proof -
  have m: "(0xFFF :: u32) = mask 12" by (simp add: mask_eq_exp_minus_1)
  show ?thesis unfolding PTE_ADDR_def m by (auto simp: bit_simps dest: bit_imp_le_length)
qed

lemma PTE_ADDR_or:
  assumes "aligned y" "\<forall>n\<ge>12. \<not> bit f n"
  shows "PTE_ADDR (y OR f) = y"
  using assms by (intro bit_word_eqI) (auto simp: PTE_ADDR_bit bit_or_iff aligned_bit not_less [symmetric])

lemma aligned_mult: "aligned x \<longleftrightarrow> (\<exists>k. x = 4096 * k)"
proof
  assume "aligned x"
  then have "unat x = 4096 * (unat x div 4096)" by (auto simp: aligned_def)
  then have "x = of_nat (4096 * (unat x div 4096))" by (metis of_nat_unat ucast_id)
  then show "\<exists>k. x = 4096 * k" by (metis of_nat_mult of_nat_numeral)
next
  assume "\<exists>k. x = 4096 * k"
  then show "aligned x" by (auto simp: aligned_def unat_word_ariths mod_mod_cancel)
qed

lemma aligned_add: "aligned x \<Longrightarrow> aligned y \<Longrightarrow> aligned (x + y)"
  unfolding aligned_mult by (metis distrib_left)

lemma aligned_diff: "aligned x \<Longrightarrow> aligned y \<Longrightarrow> aligned (x - y)"
  unfolding aligned_mult by (metis right_diff_distrib)

lemma aligned_base: "aligned KERNBASE"
  by (simp add: aligned_def KERNBASE_def)

lemma aligned_V2P: "aligned x \<Longrightarrow> aligned (V2P x)"
  by (simp add: V2P_def aligned_diff aligned_base)

lemma aligned_table: "aligned (P2V (PTE_ADDR e))"
  unfolding P2V_def by (rule aligned_add) (simp_all add: aligned_bit PTE_ADDR_bit aligned_base [unfolded aligned_bit])

lemma new_entry:
  assumes "aligned x" "\<forall>n\<ge>12. \<not> bit f n"
  shows "P2V (PTE_ADDR (V2P x OR f)) = x"
  unfolding PTE_ADDR_or [OF aligned_V2P [OF assms(1)] assms(2)] by (simp add: P2V_def V2P_def)

section \<open>Walking and mapping\<close>

text \<open>The entry of the page of \<open>va\<close>, 0 where there is no page table; the hardware's translation.\<close>

definition pte_of :: "mem \<Rightarrow> u32 \<Rightarrow> u32 \<Rightarrow> u32" where
  "pte_of m d va =
     (let e = ld32 m (d + 4 * PDX va)
      in if present e then ld32 m (P2V (PTE_ADDR e) + 4 * PTX va) else 0)"

definition translate :: "mem \<Rightarrow> u32 \<Rightarrow> u32 \<Rightarrow> u32 option" where
  "translate m d va =
     (let e = pte_of m d va in if present e then Some (PTE_ADDR e OR (va AND 0xFFF)) else None)"

abbreviation pde_at :: "mem \<Rightarrow> u32 \<Rightarrow> u32 \<Rightarrow> u32" where "pde_at m d i \<equiv> ld32 m (d + 4 * i)"

abbreviation pgtab :: "mem \<Rightarrow> u32 \<Rightarrow> u32 \<Rightarrow> u32" where "pgtab m d i \<equiv> P2V (PTE_ADDR (pde_at m d i))"

text \<open>The directory and its page tables are different pages and none of them is free.\<close>

definition dir_ok :: "'z mstate_scheme \<Rightarrow> u32 \<Rightarrow> u32 list \<Rightarrow> bool" where
  "dir_ok s d xs \<longleftrightarrow> page_ok s d \<and> d \<notin> set xs \<and>
     (\<forall>i. unat i < 1024 \<and> present (pde_at (kram s) d i) \<longrightarrow>
        page_ok s (pgtab (kram s) d i) \<and> pgtab (kram s) d i \<noteq> d \<and> pgtab (kram s) d i \<notin> set xs \<and>
        (\<forall>j. unat j < 1024 \<and> present (pde_at (kram s) d j) \<and> pgtab (kram s) d i = pgtab (kram s) d j \<longrightarrow> i = j))"

lemma dir_okD:
  assumes "dir_ok s d xs"
  shows "page_ok s d" "aligned d" "d \<notin> set xs"
  using assms by (simp_all add: dir_ok_def page_ok_def aligned_mod)

lemma dir_ok_tab:
  assumes "dir_ok s d xs" "unat i < 1024" "present (pde_at (kram s) d i)"
  shows "page_ok s (pgtab (kram s) d i)" "pgtab (kram s) d i \<noteq> d" "pgtab (kram s) d i \<notin> set xs"
  using assms by (simp_all add: dir_ok_def)

lemma dir_ok_inj:
  "dir_ok s d xs \<Longrightarrow> unat i < 1024 \<Longrightarrow> present (pde_at (kram s) d i) \<Longrightarrow> unat j < 1024 \<Longrightarrow>
   present (pde_at (kram s) d j) \<Longrightarrow> pgtab (kram s) d i = pgtab (kram s) d j \<Longrightarrow> i = j"
  unfolding dir_ok_def by blast

lemma dir_okI:
  assumes "page_ok s d" "d \<notin> set xs"
    and "\<And>i. unat i < 1024 \<Longrightarrow> present (pde_at (kram s) d i) \<Longrightarrow>
      page_ok s (pgtab (kram s) d i) \<and> pgtab (kram s) d i \<noteq> d \<and> pgtab (kram s) d i \<notin> set xs"
    and "\<And>i j. unat i < 1024 \<Longrightarrow> present (pde_at (kram s) d i) \<Longrightarrow> unat j < 1024 \<Longrightarrow>
      present (pde_at (kram s) d j) \<Longrightarrow> pgtab (kram s) d i = pgtab (kram s) d j \<Longrightarrow> i = j"
  shows "dir_ok s d xs"
  unfolding dir_ok_def using assms by blast

lemma present_0 [simp]: "\<not> present 0"
  by (simp add: present_def)

lemma present_bit: "present e \<longleftrightarrow> bit e 0"
proof -
  have "(PTE_P :: u32) = 2 ^ 0" by (simp add: PTE_P_def)
  then show ?thesis
    unfolding present_def by (metis and_exp_eq_0_iff_not_bit)
qed

text \<open>Walking to a table that is there.\<close>

lemma walk_present:
  "present (pde_at (kram s) d (PDX va)) \<Longrightarrow> walkpgdir d va al s = Ok (pgtab (kram s) d (PDX va) + 4 * PTX va) s"
  by (simp add: walkpgdir_def Let_def)

lemma walk_absent: "\<not> present (pde_at (kram s) d (PDX va)) \<Longrightarrow> walkpgdir d va False s = Ok 0 s"
  by (simp add: walkpgdir_def Let_def)

text \<open>The memory after a new page table \<open>x\<close> is entered at index \<open>i\<close> of the directory.\<close>

definition add_table :: "u32 \<Rightarrow> u32 \<Rightarrow> u32 \<Rightarrow> mem \<Rightarrow> mem" where
  "add_table d i x m = st32 (d + 4 * i) (V2P x OR PTE_P OR PTE_W OR PTE_U) (memset (unat x) 0 (unat PGSIZE) m)"

lemma walk_new:
  assumes "kpool c s (x # xs)" "\<not> present (pde_at (kram s) d (PDX va))"
  shows "walkpgdir d va True s = Ok (x + 4 * PTX va)
    (s\<lparr>kmem_freelist := ld32 (kram s) x, kram := add_table d (PDX va) x (kram s)\<rparr>)"
proof -
  have "x \<noteq> 0" using km.pool_good [OF assms(1), of x] by simp
  then show ?thesis using assms(2) kalloc_take(1) [OF assms(1)]
    by (simp add: walkpgdir_def Let_def store_def zero_page_def add_table_def)
qed

lemma add_table_pde:
  assumes "aligned d" "aligned x" "x \<noteq> d" "unat i < 1024" "unat j < 1024"
  shows "pde_at (add_table d i x m) d j = (if j = i then V2P x OR PTE_P OR PTE_W OR PTE_U else pde_at m d j)"
proof -
  have "pde_at (memset (unat x) 0 (unat PGSIZE) m) d j = pde_at m d j"
    using assms zero_page_outside in_page_apart [of d x] by (intro ld32_same) blast+
  then show ?thesis using assms ld32_slot [of d d i j] by (auto simp: add_table_def)
qed

lemma flag_bits: "n \<ge> 12 \<Longrightarrow> \<not> bit (PTE_P OR PTE_W OR PTE_U) n"
proof -
  assume n: "n \<ge> 12"
  have "PTE_P OR PTE_W OR PTE_U = (mask 3 :: u32)" by (simp add: PTE_P_def PTE_W_def PTE_U_def mask_eq_exp_minus_1)
  then show ?thesis using n by (simp add: bit_mask_iff)
qed

lemma add_table_new:
  assumes "aligned d" "aligned x" "x \<noteq> d" "unat i < 1024" "unat k < 1024"
  shows "present (pde_at (add_table d i x m) d i)" "pgtab (add_table d i x m) d i = x"
    "ld32 (add_table d i x m) (x + 4 * k) = 0"
proof -
  have e: "pde_at (add_table d i x m) d i = V2P x OR PTE_P OR PTE_W OR PTE_U"
    using assms by (simp add: add_table_pde)
  show "present (pde_at (add_table d i x m) d i)"
    unfolding e present_bit by (simp add: bit_or_iff PTE_P_def)
  show "pgtab (add_table d i x m) d i = x"
    unfolding e by (rule new_entry [OF assms(2)]) (use flag_bits in blast)
  show "ld32 (add_table d i x m) (x + 4 * k) = 0"
    unfolding add_table_def using assms ld32_slot [of d x i k] ld32_zero_page [of x k] by auto
qed

lemma add_table_outside:
  "aligned d \<Longrightarrow> unat i < 1024 \<Longrightarrow> \<not> in_page d a \<Longrightarrow> \<not> in_page x a \<Longrightarrow> add_table d i x m a = m a"
  by (simp add: add_table_def st32_page zero_page_outside)

lemma walk_full: "kpool c s [] \<Longrightarrow> \<not> present (pde_at (kram s) d (PDX va)) \<Longrightarrow> walkpgdir d va True s = Ok 0 s"
  using kalloc_empty [of c s] by (simp add: walkpgdir_def Let_def)

lemma kpool_write:
  "kpool c s xs \<Longrightarrow> page_ok s v \<Longrightarrow> v \<notin> set xs \<Longrightarrow> (\<forall>a. \<not> in_page v a \<longrightarrow> m a = kram s a) \<Longrightarrow> kpool c (s\<lparr>kram := m\<rparr>) xs"
  using km.fill by blast

lemma add_table_pool:
  assumes "kpool c s (x # xs)" "dir_ok s d (x # xs)" "unat i < 1024"
  shows "kpool c (s\<lparr>kmem_freelist := ld32 (kram s) x, kram := add_table d i x (kram s)\<rparr>) xs"
proof -
  let ?s = "s\<lparr>kmem_freelist := ld32 (kram s) x\<rparr>" and ?m = "memset (unat x) 0 (unat PGSIZE) (kram s)"
  have x: "page_ok s x" "x \<notin> set xs" using km.pool_good [OF assms(1)] km.pool_distinct [OF assms(1)] by auto
  note d = dir_okD [OF assms(2)]
  have "kpool c (?s\<lparr>kram := ?m\<rparr>) xs"
    using kalloc_take(2) [OF assms(1)] x by (intro kpool_write [of c ?s xs x]) (auto simp: zero_page_outside)
  then have "kpool c (?s\<lparr>kram := ?m, kram := add_table d i x (kram s)\<rparr>) xs"
    using d assms(3) by (intro kpool_write [of c "?s\<lparr>kram := ?m\<rparr>" xs d]) (auto simp: add_table_def st32_page)
  then show ?thesis by simp
qed

lemma add_table_dir:
  assumes "kpool c s (x # xs)" "dir_ok s d (x # xs)" "unat i < 1024" "\<not> present (pde_at (kram s) d i)"
  shows "dir_ok (s\<lparr>kmem_freelist := a, kram := add_table d i x (kram s)\<rparr>) d xs"
proof -
  let ?m = "add_table d i x (kram s)"
  have x: "page_ok s x" "x \<notin> set xs" using km.pool_good [OF assms(1)] km.pool_distinct [OF assms(1)] by auto
  note d = dir_okD [OF assms(2)]
  have ax: "aligned x" "x \<noteq> d" using x(1) d(3) by (auto simp: page_ok_def aligned_mod)
  note old = add_table_pde [OF d(2) ax assms(3)] and new = add_table_new [OF d(2) ax assms(3)]
  show ?thesis
  proof (rule dir_okI, goal_cases)
    case (3 j)
    show ?case
    proof (cases "j = i")
      case True
      then show ?thesis using new(2) [of 0 "kram s"] x ax by simp
    next
      case False
      then have "present (pde_at (kram s) d j)" "pde_at ?m d j = pde_at (kram s) d j" using 3 old [of j "kram s"] by auto
      then show ?thesis using dir_ok_tab [OF assms(2) 3(1)] by auto
    qed
  next
    case (4 j k)
    have e: "pde_at ?m d l = pde_at (kram s) d l" if "unat l < 1024" "l \<noteq> i" for l using old [OF that(1)] that(2) by simp
    have n: "pgtab ?m d i = x" using new(2) [of 0 "kram s"] by simp
    have f: "pgtab ?m d l \<noteq> x" if "unat l < 1024" "l \<noteq> i" "present (pde_at ?m d l)" for l
      using dir_ok_tab(3) [OF assms(2) that(1)] that e [OF that(1,2)] by auto
    show ?case
    proof (cases "j = i \<or> k = i")
      case True
      then show ?thesis using 4 n f by auto metis+
    next
      case False
      then show ?thesis using 4 e [of j] e [of k] dir_ok_inj [OF assms(2) 4(1) _ 4(3)] by auto
    qed
  qed (use d in simp_all)
qed

lemma add_table_pte:
  assumes "kpool c s (x # xs)" "dir_ok s d (x # xs)" "unat i < 1024" "\<not> present (pde_at (kram s) d i)"
  shows "pte_of (add_table d i x (kram s)) d = pte_of (kram s) d"
proof
  fix va
  let ?m = "add_table d i x (kram s)"
  have x: "page_ok s x" using km.pool_good [OF assms(1)] by auto
  note d = dir_okD [OF assms(2)]
  have ax: "aligned x" "x \<noteq> d" using x d(3) by (auto simp: page_ok_def aligned_mod)
  note old = add_table_pde [OF d(2) ax assms(3)] and new = add_table_new [OF d(2) ax assms(3)]
  show "pte_of ?m d va = pte_of (kram s) d va"
  proof (cases "PDX va = i")
    case True
    then show ?thesis using new [of "PTX va" "kram s"] assms(4) by (simp add: pte_of_def Let_def)
  next
    case False
    then have e: "pde_at ?m d (PDX va) = pde_at (kram s) d (PDX va)" using old [of "PDX va"] by simp
    show ?thesis
    proof (cases "present (pde_at (kram s) d (PDX va))")
      case True
      let ?t = "pgtab (kram s) d (PDX va)"
      have t: "?t \<noteq> d" "?t \<noteq> x" using dir_ok_tab [OF assms(2) _ True] by auto
      have "\<not> in_page d a \<and> \<not> in_page x a" if "in_page ?t a" for a
        using in_page_apart [OF aligned_table d(2) t(1) that] in_page_apart [OF aligned_table ax(1) t(2) that] by simp
      then have "ld32 ?m (?t + 4 * PTX va) = ld32 (kram s) (?t + 4 * PTX va)"
        using add_table_outside [OF d(2) assms(3)] by (intro ld32_same) (auto simp: aligned_table)
      then show ?thesis using e by (simp add: pte_of_def Let_def)
    qed (use e in \<open>simp add: pte_of_def Let_def\<close>)
  qed
qed

text \<open>A page that belongs neither to the address space's tables nor to the free list.\<close>

definition foreign :: "'z mstate_scheme \<Rightarrow> u32 \<Rightarrow> u32 list \<Rightarrow> u32 \<Rightarrow> bool" where
  "foreign s d xs p \<longleftrightarrow> aligned p \<and> p \<noteq> d \<and> p \<notin> set xs \<and>
     (\<forall>i. unat i < 1024 \<and> present (pde_at (kram s) d i) \<longrightarrow> pgtab (kram s) d i \<noteq> p)"

definition same_at :: "u32 \<Rightarrow> mem \<Rightarrow> mem \<Rightarrow> bool" where
  "same_at p m m' \<longleftrightarrow> (\<forall>a. in_page p a \<longrightarrow> m a = m' a)"

lemma same_at_trans: "same_at p m m' \<Longrightarrow> same_at p m' m'' \<Longrightarrow> same_at p m m''"
  by (simp add: same_at_def)

lemma walk_alloc:
  assumes "kpool c s xs" "dir_ok s d xs"
  obtains (full) "xs = []" "walkpgdir d va True s = Ok 0 s"
  | (there) t ys where "walkpgdir d va True s = Ok (pgtab (kram t) d (PDX va) + 4 * PTX va) t"
      "kpool c t ys" "dir_ok t d ys" "present (pde_at (kram t) d (PDX va))"
      "pte_of (kram t) d = pte_of (kram s) d" "length xs \<le> Suc (length ys)"
      "\<And>p. foreign s d xs p \<Longrightarrow> foreign t d ys p \<and> same_at p (kram t) (kram s)"
proof (cases "present (pde_at (kram s) d (PDX va))")
  case True
  show ?thesis using there [OF walk_present [OF True] assms True] by (simp add: same_at_def)
next
  case absent: False
  show ?thesis
  proof (cases xs)
    case Nil
    then show ?thesis using full walk_full [of c s d va] assms(1) absent by simp
  next
    case (Cons x ys)
    let ?t = "s\<lparr>kmem_freelist := ld32 (kram s) x, kram := add_table d (PDX va) x (kram s)\<rparr>"
    have a: "kpool c s (x # ys)" "dir_ok s d (x # ys)" using assms Cons by simp_all
    note d = dir_okD [OF a(2)]
    have x: "aligned x" "x \<noteq> d" using km.pool_good [OF a(1), of x] d(3) by (auto simp: page_ok_def aligned_mod)
    note new = add_table_new [OF d(2) x index_less(1)] and old = add_table_pde [OF d(2) x index_less(1)]
    show ?thesis
    proof (rule there)
      show "walkpgdir d va True s = Ok (pgtab (kram ?t) d (PDX va) + 4 * PTX va) ?t"
        using walk_new [OF a(1) absent] new(2) [of 0] by simp
      show "kpool c ?t ys" by (rule add_table_pool [OF a]) simp
      show "dir_ok ?t d ys" by (rule add_table_dir [OF a _ absent]) simp
      show "present (pde_at (kram ?t) d (PDX va))" using new(1) [of 0] by simp
      show "pte_of (kram ?t) d = pte_of (kram s) d" using add_table_pte [OF a _ absent] by simp
      show "length xs \<le> Suc (length ys)" using Cons by simp
      fix p assume p: "foreign s d xs p"
      have "pgtab (kram ?t) d i \<noteq> p" if "unat i < 1024" "present (pde_at (kram ?t) d i)" for i
      proof (cases "i = PDX va")
        case True
        then show ?thesis using p Cons new(2) [of 0] by (auto simp: foreign_def)
      next
        case False
        then have "pde_at (kram ?t) d i = pde_at (kram s) d i" using old [OF that(1)] by simp
        then show ?thesis using p that by (simp add: foreign_def)
      qed
      moreover have "same_at p (kram ?t) (kram s)"
        using p Cons in_page_apart [of p d] in_page_apart [of p x] d(2) x(1) add_table_outside [OF d(2) index_less(1)]
        by (simp add: same_at_def foreign_def)
      ultimately show "foreign ?t d ys p \<and> same_at p (kram ?t) (kram s)" using p Cons by (simp add: foreign_def)
    qed
  qed
qed

lemma store_pte:
  assumes "kpool c s xs" "dir_ok s d xs" "present (pde_at (kram s) d (PDX va))"
    and t_def: "t = store (pgtab (kram s) d (PDX va) + 4 * PTX va) w s"
  shows "kpool c t xs" "dir_ok t d xs"
    "pte_of (kram t) d v = (if unat v div 4096 = unat va div 4096 then w else pte_of (kram s) d v)"
    "foreign s d xs p \<Longrightarrow> foreign t d xs p \<and> same_at p (kram t) (kram s)"
proof -
  let ?T = "pgtab (kram s) d (PDX va)"
  note d = dir_okD [OF assms(2)] and T = dir_ok_tab [OF assms(2) index_less(1) assms(3)]
  have k: "kram t = st32 (?T + 4 * PTX va) w (kram s)" by (simp add: t_def store_def)
  have out: "kram t a = kram s a" if "\<not> in_page ?T a" for a
    unfolding k using that by (intro st32_page) (simp_all add: aligned_table)
  show "kpool c t xs"
    unfolding t_def store_def using T out [unfolded t_def store_def] by (intro kpool_write [OF assms(1), of ?T]) simp_all
  have e: "pde_at (kram t) d i = pde_at (kram s) d i" if "unat i < 1024" for i
    unfolding k using ld32_slot [OF aligned_table d(2) index_less(2) that] T(2) by simp
  have g: "page_ok t = page_ok s" by (simp add: t_def store_def fun_eq_iff)
  show "dir_ok t d xs"
    using assms(2) unfolding dir_ok_def g by (simp add: e cong: conj_cong)
  show "pte_of (kram t) d v = (if unat v div 4096 = unat va div 4096 then w else pte_of (kram s) d v)"
  proof (cases "present (pde_at (kram s) d (PDX v))")
    case True
    have "?T = pgtab (kram s) d (PDX v) \<longleftrightarrow> PDX v = PDX va"
      using dir_ok_inj [OF assms(2) index_less(1) True index_less(1) assms(3)] by auto
    then have q: "?T = pgtab (kram s) d (PDX v) \<and> PTX va = PTX v \<longleftrightarrow> unat v div 4096 = unat va div 4096"
      unfolding same_page [of v va, symmetric] by (metis (no_types))
    have "pte_of (kram t) d v = ld32 (kram t) (pgtab (kram s) d (PDX v) + 4 * PTX v)"
      using True e [of "PDX v"] by (simp add: pte_of_def Let_def)
    also have "\<dots> = (if unat v div 4096 = unat va div 4096 then w
        else ld32 (kram s) (pgtab (kram s) d (PDX v) + 4 * PTX v))"
      unfolding k q [symmetric] by (rule ld32_slot) (simp_all add: aligned_table)
    finally show ?thesis using True by (simp add: pte_of_def Let_def)
  next
    case False
    then have "unat v div 4096 \<noteq> unat va div 4096" using assms(3) same_page [of v va] by metis
    then show ?thesis using False e [of "PDX v"] by (simp add: pte_of_def Let_def)
  qed
  show "foreign t d xs p \<and> same_at p (kram t) (kram s)" if p: "foreign s d xs p"
  proof -
    have "?T \<noteq> p" "aligned p" using p assms(3) by (simp_all add: foreign_def)
    then have "same_at p (kram t) (kram s)"
      using in_page_apart [OF \<open>aligned p\<close> aligned_table] out by (auto simp: same_at_def)
    then show ?thesis using p e by (simp add: foreign_def cong: conj_cong)
  qed
qed

abbreviation page_no :: "u32 \<Rightarrow> nat" where "page_no v \<equiv> unat v div 4096"

lemma mappages_loop_ok:
  assumes "kpool c s xs" "dir_ok s d xs" "distinct (map page_no as)" "\<forall>a\<in>set as. \<not> present (pte_of (kram s) d a)"
  shows "\<exists>r t ys. mappages_loop d as pa perm s = Ok r t \<and> kpool c t ys \<and> dir_ok t d ys \<and>
    (r = 0 \<or> r = - 1 \<and> ys = [] \<and> length xs < length as) \<and>
    (r = 0 \<longrightarrow> (\<forall>i<length as. pte_of (kram t) d (as ! i) = (pa + of_nat i * PGSIZE) OR perm OR PTE_P)) \<and>
    (\<forall>v. page_no v \<notin> page_no ` set as \<longrightarrow> pte_of (kram t) d v = pte_of (kram s) d v) \<and>
    (\<forall>p. foreign s d xs p \<longrightarrow> foreign t d ys p \<and> same_at p (kram t) (kram s))"
  using assms
proof (induction as arbitrary: s xs pa)
  case Nil
  then show ?case by (auto simp: same_at_def)
next
  case (Cons a as)
  from Cons.prems(1,2) show ?case
  proof (cases rule: walk_alloc [where va = a])
    case full
    then show ?thesis using Cons.prems(1,2) by (auto simp: same_at_def intro!: exI [of _ "[]"])
  next
    case (there t ys)
    let ?w = "pa OR perm OR PTE_P" and ?p = "pgtab (kram t) d (PDX a) + 4 * PTX a"
    have np: "\<not> present (pte_of (kram t) d a)" using Cons.prems(4) there(5) by simp
    then have np': "\<not> present (ld32 (kram t) ?p)" using there(4) by (simp add: pte_of_def Let_def)
    have nz: "?p \<noteq> 0"
      using unat_slot [OF aligned_table index_less(2), of "pde_at (kram t) d (PDX a)" a]
        page_ok_nonzero [OF dir_ok_tab(1) [OF there(3) index_less(1) there(4)]]
      by (metis add_is_0 unat_eq_0)
    let ?u = "store ?p ?w t"
    note st = store_pte [OF there(2-4) refl, where w = ?w]
    have un: "\<forall>b\<in>set as. \<not> present (pte_of (kram ?u) d b)"
      using Cons.prems(3,4) st(3) there(5) by (auto simp: image_iff)
    obtain r z zs where z: "mappages_loop d as (pa + PGSIZE) perm ?u = Ok r z" "kpool c z zs" "dir_ok z d zs"
      "r = 0 \<or> r = - 1 \<and> zs = [] \<and> length ys < length as"
      "r = 0 \<Longrightarrow> \<forall>i<length as. pte_of (kram z) d (as ! i) = (pa + PGSIZE + of_nat i * PGSIZE) OR perm OR PTE_P"
      "\<forall>v. page_no v \<notin> page_no ` set as \<longrightarrow> pte_of (kram z) d v = pte_of (kram ?u) d v"
      "\<forall>p. foreign ?u d ys p \<longrightarrow> foreign z d zs p \<and> same_at p (kram z) (kram ?u)"
      using Cons.IH [OF st(1,2) _ un, of "pa + PGSIZE"] Cons.prems(3) by (auto; fail)
    have "mappages_loop d (a # as) pa perm s = Ok r z" using there(1) nz np' z(1) by simp
    moreover have "pte_of (kram z) d ((a # as) ! i) = (pa + of_nat i * PGSIZE) OR perm OR PTE_P"
      if "r = 0" "i < length (a # as)" for i
    proof (cases i)
      case 0
      then show ?thesis using z(6) Cons.prems(3) st(3) by simp
    next
      case (Suc j)
      then show ?thesis using z(5) [OF that(1)] that(2) by (simp add: algebra_simps)
    qed
    moreover have "\<forall>v. page_no v \<notin> page_no ` set (a # as) \<longrightarrow> pte_of (kram z) d v = pte_of (kram s) d v"
      using z(6) st(3) there(5) by simp
    moreover have "foreign z d zs p \<and> same_at p (kram z) (kram s)" if "foreign s d xs p" for p
    proof -
      have f: "foreign t d ys p" "same_at p (kram t) (kram s)" using there(7) [OF that] by simp_all
      have g: "foreign ?u d ys p" "same_at p (kram ?u) (kram t)" using st(4) [OF f(1)] by simp_all
      have "foreign z d zs p" "same_at p (kram z) (kram ?u)" using z(7) g(1) by simp_all
      then show ?thesis using same_at_trans [OF same_at_trans [OF _ g(2)] f(2)] by simp
    qed
    moreover have "r = 0 \<or> r = - 1 \<and> zs = [] \<and> length xs < length (a # as)" using z(4) there(6) by auto
    ultimately show ?thesis using z(2,3) by blast
  qed
qed

section \<open>Mapping a range\<close>

lemma pages_upto_at:
  fixes b :: u32
  assumes "aligned a" "unat a \<le> unat b" "i \<le> (unat b - unat a) div 4096"
  shows "unat (a + of_nat i * PGSIZE) = unat a + i * 4096"
proof -
  have b: "unat a + i * 4096 \<le> unat b" using assms(2,3) by (simp add: less_eq_div_iff_mult_less_eq)
  have l: "unat b < 4294967296" by (rule unat32_less)
  then have "i < 4294967296" using b by linarith
  then have "unat (of_nat i * PGSIZE :: u32) = i * 4096"
    using b l by (simp add: PGSIZE_def unat_word_ariths unat_of_nat)
  then show ?thesis using b l by (simp add: unat_word_ariths)
qed

lemma length_pages_upto:
  "aligned a \<Longrightarrow> unat a \<le> unat b \<Longrightarrow> length (pages_upto a b) = Suc ((unat b - unat a) div 4096)"
  by (simp add: pages_upto_def unat_div PGSIZE_def unat_sub word_le_nat_alt)

lemma pages_upto_nth:
  assumes "aligned a" "unat a \<le> unat b" "i < length (pages_upto a b)"
  shows "pages_upto a b ! i = a + of_nat i * PGSIZE" "page_no (pages_upto a b ! i) = page_no a + i"
proof -
  show e: "pages_upto a b ! i = a + of_nat i * PGSIZE"
    using assms(3) nth_upt [of 0 i] unfolding pages_upto_def by (simp del: upt_Suc)
  have "i \<le> (unat b - unat a) div 4096" using assms by (simp add: length_pages_upto)
  then show "page_no (pages_upto a b ! i) = page_no a + i"
    unfolding e using pages_upto_at [OF assms(1,2), of i] by simp
qed

lemma page_no_pages_upto:
  assumes "aligned a" "unat a \<le> unat b"
  shows "map page_no (pages_upto a b) = [page_no a..<Suc (page_no b)]"
proof (rule nth_equalityI)
  have "page_no b - page_no a = (unat b - unat a) div 4096"
    using assms by (auto simp: aligned_def mod_eq_0_iff_dvd elim!: dvdE)
  moreover have "page_no a \<le> page_no b" using assms(2) by (rule div_le_mono)
  ultimately show "length (map page_no (pages_upto a b)) = length [page_no a..<Suc (page_no b)]"
    using length_pages_upto [OF assms] by simp
  then show "map page_no (pages_upto a b) ! i = [page_no a..<Suc (page_no b)] ! i"
    if "i < length (map page_no (pages_upto a b))" for i
  proof -
    have l: "length (pages_upto a b) = Suc (page_no b) - page_no a" "i < length (pages_upto a b)"
      using \<open>length (map page_no (pages_upto a b)) = length [page_no a..<Suc (page_no b)]\<close> that
      by (simp_all del: upt_Suc)
    then have "[page_no a..<Suc (page_no b)] ! i = page_no a + i" by (intro nth_upt) linarith
    then show ?thesis using l(2) pages_upto_nth(2) [OF assms l(2)] by (simp del: upt_Suc)
  qed
qed

lemma translate_entry:
  assumes "aligned pa" "\<forall>n\<ge>12. \<not> bit perm n" "pte_of m d va = pa OR perm OR PTE_P"
  shows "translate m d va = Some (pa + (va AND 0xFFF))"
proof -
  have f: "\<forall>n\<ge>12. \<not> bit (perm OR PTE_P) n" using assms(2) by (auto simp: bit_or_iff PTE_P_def bit_1_iff)
  have p: "present (pte_of m d va)" unfolding assms(3) present_bit by (simp add: bit_or_iff PTE_P_def)
  have m: "(0xFFF :: u32) = mask 12" by (simp add: mask_eq_exp_minus_1)
  have "pa AND (va AND 0xFFF) = 0"
    using assms(1) unfolding m by (intro bit_word_eqI) (auto simp: bit_simps aligned_bit)
  then have "pa OR (va AND 0xFFF) = pa + (va AND 0xFFF)" by (simp add: disjunctive_add_eq_or)
  moreover have "PTE_ADDR (pte_of m d va) = pa" unfolding assms(3) using PTE_ADDR_or [OF assms(1) f] by simp
  ultimately show ?thesis using p by (simp add: translate_def Let_def)
qed

lemma aligned_pages: "aligned (of_nat i * PGSIZE)"
  unfolding aligned_mult PGSIZE_def by (metis mult.commute)

lemma pte_of_page: "page_no v = page_no w \<Longrightarrow> pte_of m d v = pte_of m d w"
  using same_page [of v w] by (simp add: pte_of_def Let_def)

lemma unat_and_FFF: "unat (v AND 0xFFF :: u32) = unat v mod 4096"
proof -
  have m: "(0xFFF :: u32) = mask 12" by (simp add: mask_eq_exp_minus_1)
  show ?thesis unfolding m by (simp add: take_bit_eq_mask [symmetric] unsigned_take_bit_eq take_bit_eq_mod unat_mod)
qed

lemma page_offset:
  assumes "page_no va \<le> page_no v"
  shows "of_nat (page_no v - page_no va) * PGSIZE + (v AND 0xFFF) = v - PGROUNDDOWN va"
proof -
  have r: "unat (PGROUNDDOWN va) = page_no va * 4096" by (rule unat_round_down)
  have v: "v = of_nat (page_no v) * PGSIZE + (v AND 0xFFF)"
    using unat32_less [of v] by (simp add: word_unat_eq_iff unat_word_ariths unat_and_FFF PGSIZE_def unat_of_nat)
  have "PGROUNDDOWN va = of_nat (unat (PGROUNDDOWN va))" by simp
  also have "\<dots> = of_nat (page_no va) * PGSIZE" unfolding r by (simp add: PGSIZE_def)
  finally show ?thesis using v assms by (simp add: of_nat_diff left_diff_distrib)
qed

lemma unat_range_end: "0 < unat (sz :: u32) \<Longrightarrow> unat va + unat sz \<le> 4294967296 \<Longrightarrow> unat (va + sz - 1) = unat va + unat sz - 1"
proof -
  assume a: "0 < unat sz" "unat va + unat sz \<le> 4294967296"
  have s: "unat (sz - 1) = unat sz - 1" using a(1) by (simp add: unat_sub word_le_nat_alt)
  have "va + sz - 1 = va + (sz - 1)" by simp
  then show "unat (va + sz - 1) = unat va + unat sz - 1" using a s unfolding \<open>va + sz - 1 = va + (sz - 1)\<close>
    by (simp add: unat_word_ariths)
qed

text \<open>
  C13. \<open>mappages\<close> maps a range of virtual addresses that was unmapped. It returns 0 or, only when
  there were fewer free pages than pages to map and every one of them is used up, -1. On success the
  entry of every page of the range holds its physical page with exactly the permission bits \<open>perm\<close>
  and the present bit, so that every address of the range translates to the physical address at the
  same distance from \<open>pa\<close>. In either case the entries of all other pages are as before, the
  page tables stay separate from each other and from the free list, and no page that belongs
  neither to the tables nor to the free list is written.
\<close>

theorem mappages_maps_range:
  assumes "kpool c s xs" "dir_ok s d xs" "0 < sz" "unat va + unat sz \<le> 4294967296"
    "aligned pa" "\<forall>n\<ge>12. \<not> bit perm n"
    "\<forall>v. page_no va \<le> page_no v \<and> page_no v \<le> page_no (va + sz - 1) \<longrightarrow> \<not> present (pte_of (kram s) d v)"
  shows "\<exists>r t ys. mappages d va sz pa perm s = Ok r t \<and> kpool c t ys \<and> dir_ok t d ys \<and>
    (r = 0 \<or> r = - 1 \<and> ys = [] \<and> length xs \<le> page_no (va + sz - 1) - page_no va) \<and>
    (r = 0 \<longrightarrow> (\<forall>v. page_no va \<le> page_no v \<and> page_no v \<le> page_no (va + sz - 1) \<longrightarrow>
       pte_of (kram t) d v = (pa + of_nat (page_no v - page_no va) * PGSIZE) OR perm OR PTE_P \<and>
       translate (kram t) d v = Some (pa + (v - PGROUNDDOWN va)))) \<and>
    (\<forall>v. page_no v < page_no va \<or> page_no (va + sz - 1) < page_no v \<longrightarrow> pte_of (kram t) d v = pte_of (kram s) d v) \<and>
    (\<forall>p. foreign s d xs p \<longrightarrow> foreign t d ys p \<and> same_at p (kram t) (kram s))"
proof -
  let ?a = "PGROUNDDOWN va" and ?b = "PGROUNDDOWN (va + sz - 1)"
  let ?as = "pages_upto ?a ?b"
  have sz: "0 < unat sz" using assms(3) by (simp add: word_less_nat_alt)
  have e: "unat (va + sz - 1) = unat va + unat sz - 1" by (rule unat_range_end [OF sz assms(4)])
  have al: "aligned ?a" by (simp add: aligned_def unat_round_down)
  have le: "unat ?a \<le> unat ?b" unfolding unat_round_down e using sz by (intro mult_le_mono1 div_le_mono) simp
  have pn: "page_no ?a = page_no va" "page_no ?b = page_no (va + sz - 1)" by (simp_all add: unat_round_down)
  have nos: "map page_no ?as = [page_no va..<Suc (page_no (va + sz - 1))]" using page_no_pages_upto [OF al le] by (simp only: pn)
  have st: "page_no ` set ?as = {page_no va..page_no (va + sz - 1)}"
    unfolding set_map [symmetric] nos by (simp add: atLeastLessThanSuc_atLeastAtMost del: upt_Suc)
  have un: "\<forall>a\<in>set ?as. \<not> present (pte_of (kram s) d a)" 
  proof
    fix a assume "a \<in> set ?as"
    then have "page_no a \<in> {page_no va..page_no (va + sz - 1)}" unfolding st [symmetric] by (rule imageI)
    then show "\<not> present (pte_of (kram s) d a)" using assms(7) by simp
  qed
  have dist: "distinct (map page_no ?as)" unfolding nos by (rule distinct_upt)
  obtain r t ys where t: "mappages_loop d ?as pa perm s = Ok r t" "kpool c t ys" "dir_ok t d ys"
    "r = 0 \<or> r = - 1 \<and> ys = [] \<and> length xs < length ?as"
    "r = 0 \<Longrightarrow> \<forall>i<length ?as. pte_of (kram t) d (?as ! i) = (pa + of_nat i * PGSIZE) OR perm OR PTE_P"
    "\<forall>v. page_no v \<notin> page_no ` set ?as \<longrightarrow> pte_of (kram t) d v = pte_of (kram s) d v"
    "\<forall>p. foreign s d xs p \<longrightarrow> foreign t d ys p \<and> same_at p (kram t) (kram s)"
    using mappages_loop_ok [OF assms(1,2) dist un, of pa perm] by (auto; fail)
  have len: "length ?as = Suc (page_no (va + sz - 1)) - page_no va" using arg_cong [OF nos, of length] by (simp del: upt_Suc)
  have "pte_of (kram t) d v = (pa + of_nat (page_no v - page_no va) * PGSIZE) OR perm OR PTE_P \<and>
      translate (kram t) d v = Some (pa + (v - ?a))"
    if r: "r = 0" and v: "page_no va \<le> page_no v" "page_no v \<le> page_no (va + sz - 1)" for v
  proof -
    let ?i = "page_no v - page_no va"
    have i: "?i < length ?as" unfolding len using v by linarith
    have "page_no (?as ! ?i) = page_no v" using pages_upto_nth(2) [OF al le i] v(1) pn(1) by simp
    then have "pte_of (kram t) d v = (pa + of_nat ?i * PGSIZE) OR perm OR PTE_P"
      using t(5) [OF r] i by (metis pte_of_page)
    moreover have "aligned (pa + of_nat ?i * PGSIZE)"
      using assms(5) aligned_pages by (rule aligned_add)
    ultimately show ?thesis
      using translate_entry [OF _ assms(6)] page_offset [OF v(1)] by (simp add: add.assoc)
  qed
  moreover have "r = 0 \<or> r = - 1 \<and> ys = [] \<and> length xs \<le> page_no (va + sz - 1) - page_no va"
    using t(4) unfolding len by linarith
  ultimately show ?thesis using t(1-3,6,7) unfolding mappages_def st by (intro exI [of _ r] exI [of _ t] exI [of _ ys]) auto
qed

lemma zero_mem: "ld32 (\<lambda>_. 0) a = 0"
  by (simp add: ld32_def)

lemma zero_dir_ok: "dir_ok (mem_machine (\<lambda>_. 0) a) 0x80110000 [0x80111000]"
  by (simp add: dir_ok_def zero_mem page_ok_def addr_defs)

lemma zero_pool: "kpool 0 (mem_machine (\<lambda>_. 0) 0x80111000) [0x80111000]"
  by (simp add: kpool_def kmem_quiet_def free_list_def page_ok_def addr_defs zero_mem)

lemma user_flags: "n \<ge> 12 \<Longrightarrow> \<not> bit (6 :: u32) n"
proof -
  have m: "(6 :: u32) = mask 3 AND NOT (mask 1)" by (simp add: mask_eq_exp_minus_1)
  show "n \<ge> 12 \<Longrightarrow> \<not> bit (6 :: u32) n" unfolding m by (simp add: bit_simps)
qed

theorem mappages_maps_range_witness:
  "\<exists>t. mappages 0x80110000 0x1000 4096 0x200000 6 (mem_machine (\<lambda>_. 0) 0x80111000) = Ok 0 t \<and>
     pte_of (kram t) 0x80110000 0x1234 = 0x200007 \<and> translate (kram t) 0x80110000 0x1234 = Some 0x200234 \<and>
     \<not> present (pte_of (kram t) 0x80110000 0x2000)"
proof -
  have a: "aligned 0x200000" by (simp add: aligned_def)
  have u: "\<not> present (pte_of (kram (mem_machine (\<lambda>_. 0) b)) d v)" for b d v by (simp add: pte_of_def zero_mem)
  have r: "PGROUNDDOWN 0x1000 = 0x1000" by (simp add: PGROUNDDOWN_def PGSIZE_def)
  obtain r t ys where t: "mappages 0x80110000 0x1000 4096 0x200000 6 (mem_machine (\<lambda>_. 0) 0x80111000) = Ok r t"
    "r = 0 \<or> r = - 1 \<and> ys = [] \<and> length [0x80111000 :: u32] \<le> page_no (0x1000 + 4096 - 1) - page_no 0x1000"
    "r = 0 \<longrightarrow> (\<forall>v. page_no 0x1000 \<le> page_no v \<and> page_no v \<le> page_no (0x1000 + 4096 - 1) \<longrightarrow>
       pte_of (kram t) 0x80110000 v = (0x200000 + of_nat (page_no v - page_no 0x1000) * PGSIZE) OR 6 OR PTE_P \<and>
       translate (kram t) 0x80110000 v = Some (0x200000 + (v - PGROUNDDOWN 0x1000)))"
    "\<forall>v. page_no v < page_no 0x1000 \<or> page_no (0x1000 + 4096 - 1) < page_no v \<longrightarrow>
       pte_of (kram t) 0x80110000 v = pte_of (kram (mem_machine (\<lambda>_. 0) 0x80111000)) 0x80110000 v"
    using mappages_maps_range [OF zero_pool zero_dir_ok, of 4096 "0x1000" "0x200000" 6] a u user_flags by (simp (no_asm_use)) blast
  have r0: "r = 0" using t(2) by simp
  have "pte_of (kram t) 0x80110000 0x2000 = pte_of (kram (mem_machine (\<lambda>_. 0) 0x80111000)) 0x80110000 0x2000"
    by (rule t(4) [THEN spec, THEN mp]) simp
  then have "\<not> present (pte_of (kram t) 0x80110000 0x2000)" using u by simp
  moreover have "pte_of (kram t) 0x80110000 0x1234 = 0x200007"
    using t(3) [rule_format, OF r0, of "0x1234"] by (simp add: PTE_P_def)
  moreover have "translate (kram t) 0x80110000 0x1234 = Some 0x200234"
    using t(3) [rule_format, OF r0, of "0x1234"] by (simp add: r)
  ultimately show ?thesis using t(1) r0 by blast
qed

section \<open>Shrinking ends\<close>

lemma unat_PGADDR: "unat (PGADDR x 0 0) = unat x * 4194304 mod 4294967296"
  unfolding PGADDR_def push_bit_eq_mult by (simp add: unat_word_ariths)

lemma skip_table:
  assumes "unat a < 0x80000000"
  shows "unat (PGADDR (PDX a + 1) 0 0 - PGSIZE + PGSIZE) = (unat a div 4194304 + 1) * 4194304"
proof -
  have "unat a div 4194304 < 512" using assms by simp
  then have "unat (PDX a + 1) = unat a div 4194304 + 1" "(unat a div 4194304 + 1) * 4194304 < 4294967296"
    by (simp_all add: unat_word_ariths unat_PDX)
  then show ?thesis by (simp only: unat_PGADDR diff_add_cancel mod_less)
qed

lemma next_page: "unat (a :: u32) < 0x80000000 \<Longrightarrow> unat (a + PGSIZE) = unat a + 4096"
  by (simp add: PGSIZE_def unat_word_ariths)

lemma walk_no_alloc:
  obtains "walkpgdir d va False s = Ok 0 s"
  | p where "walkpgdir d va False s = Ok p s" "p \<noteq> 0"
  by (cases "present (pde_at (kram s) d (PDX va))") (auto simp: walkpgdir_def Let_def)

text \<open>
  C37. The loop of \<open>deallocuvm\<close>, which frees page by page and skips whole page tables that are not
  there, ends for every size up to \<open>KERNBASE\<close>, whatever the page tables contain.
\<close>

theorem dealloc_loop_ends:
  fixes s :: "'z mstate_scheme"
  assumes "oldsz \<le> KERNBASE"
  shows "\<exists>r. dealloc_loop d a oldsz s = Some r"
proof (induction "unat oldsz - unat a" arbitrary: a s rule: less_induct)
  case less
  show ?case
  proof (cases "a < oldsz")
    case True
    then have lt: "unat a < unat oldsz" by (simp add: word_less_nat_alt)
    moreover have "unat oldsz \<le> 0x80000000" using assms by (simp add: KERNBASE_def word_le_nat_alt)
    ultimately have b: "unat a < 0x80000000" by simp
    have skip: "\<exists>r. dealloc_loop d (PGADDR (PDX a + 1) 0 0 - PGSIZE + PGSIZE) oldsz t = Some r" for t :: "'z mstate_scheme"
      using lt skip_table [OF b] dividend_less_times_div [of 4194304 "unat a"] by (intro less.hyps) simp
    have nxt: "\<exists>r. dealloc_loop d (a + PGSIZE) oldsz t = Some r" for t :: "'z mstate_scheme"
      using lt next_page [OF b] by (intro less.hyps) simp
    show ?thesis
    proof (cases rule: walk_no_alloc [of d a s])
      case 1
      then show ?thesis using True skip by (subst dealloc_loop.simps) simp
    next
      case (2 p)
      show ?thesis using True 2
        by (subst dealloc_loop.simps)
          (cases "kfree (P2V (PTE_ADDR (ld32 (kram s) p))) s"; auto simp: Let_def intro: nxt)
    qed
  qed (subst dealloc_loop.simps, simp)
qed

theorem dealloc_loop_ends_witness:
  "(0x5000 :: u32) \<le> KERNBASE \<and> (\<exists>r. dealloc_loop 0x80110000 0 0x5000 (mem_machine (\<lambda>_. 0) 0) = Some r)"
  using dealloc_loop_ends [of "0x5000" "0x80110000" 0 "mem_machine (\<lambda>_. 0) 0"] by (simp add: KERNBASE_def)

section \<open>Copying out\<close>

text \<open>
  \<open>uva2ka\<close> gives the kernel address of a user page only when the page is mapped and user
  accessible, and then the address is that of the frame the hardware would use.
\<close>

theorem uva2ka_user_only:
  assumes "uva2ka d va s = Ok k t" "k \<noteq> 0"
  shows "t = s \<and> bit (pte_of (kram s) d va) 0 \<and> bit (pte_of (kram s) d va) 2 \<and>
    (aligned va \<longrightarrow> translate (kram s) d va = Some (V2P k))"
proof -
  let ?e = "pte_of (kram s) d va"
  have u: "?e AND PTE_U = 0 \<longleftrightarrow> \<not> bit ?e 2"
  proof -
    have "(PTE_U :: u32) = 2 ^ 2" by (simp add: PTE_U_def)
    then show ?thesis by (metis and_exp_eq_0_iff_not_bit)
  qed
  have pd: "present (pde_at (kram s) d (PDX va))"
  proof (rule ccontr)
    assume "\<not> present (pde_at (kram s) d (PDX va))"
    then show False using assms(1) by (simp add: uva2ka_def walk_absent)
  qed
  then have e: "?e = ld32 (kram s) (pgtab (kram s) d (PDX va) + 4 * PTX va)" by (simp add: pte_of_def)
  have w: "t = s \<and> present ?e \<and> bit ?e 2 \<and> k = P2V (PTE_ADDR ?e)"
    using assms walk_present [OF pd, of False] u
    by (auto simp: uva2ka_def Let_def e [symmetric] present_def split: if_splits)
  have "va AND 0xFFF = 0" if "aligned va"
    using that unat_and_FFF [of va] by (simp add: aligned_def word_unat_eq_iff)
  then show ?thesis using w by (auto simp: translate_def Let_def present_bit V2P_def P2V_def)
qed

text \<open>A directory whose first table maps page 0 for the user.\<close>

definition user_mem :: mem where
  "user_mem = st32 0x80111000 (0x200000 OR 7) (st32 0x80110000 (0x111000 OR 7) (\<lambda>_. 0))"

lemma user_mem_walk: "ld32 user_mem 0x80110000 = 0x111007" "ld32 user_mem 0x80111000 = 0x200007"
proof -
  show "ld32 user_mem 0x80111000 = 0x200007" by (simp add: user_mem_def ld32_st32)
  show "ld32 user_mem 0x80110000 = 0x111007"
    unfolding user_mem_def by (subst ld32_st32_other) (simp_all add: ld32_st32)
qed

theorem uva2ka_user_only_witness:
  "uva2ka 0x80110000 0 (mem_machine user_mem 0) = Ok 0x80200000 (mem_machine user_mem 0) \<and>
   translate user_mem 0x80110000 0 = Some 0x200000"
proof -
  have "uva2ka 0x80110000 0 (mem_machine user_mem 0) = Ok 0x80200000 (mem_machine user_mem 0)"
    by (simp add: uva2ka_def walkpgdir_def user_mem_walk PDX_def PTX_def PTE_ADDR_def present_def PTE_P_def PTE_U_def addr_defs)
  then show ?thesis
    using uva2ka_user_only [of "0x80110000" 0 "mem_machine user_mem 0" "0x80200000" "mem_machine user_mem 0"]
    by (simp add: aligned_def V2P_def KERNBASE_def)
qed

end
