(* ===== verification/File.thy ===== *)
theory File
  imports Pipe Vm_Spec
begin

text \<open>
  \<open>file.c\<close> and \<open>pipealloc\<close> of \<open>pipe.c\<close>: the table of open files and the operations that go to a
  pipe or to an inode. A file pointer is an index of the table, a null pointer is \<open>None\<close>. Data
  read is returned as a list of bytes, data to write is given as one.
\<close>

datatype fdtype = FD_NONE | FD_PIPE | FD_INODE

record kfile =
  f_type :: fdtype
  f_ref :: int
  f_readable :: bool
  f_writable :: bool
  f_pipe :: u32
  f_ip :: nat
  f_off :: u32

record fdstate = pstate +
  ftable :: "nat \<Rightarrow> kfile"

definition upd_file :: "nat \<Rightarrow> (kfile \<Rightarrow> kfile) \<Rightarrow> 'z fdstate_scheme \<Rightarrow> 'z fdstate_scheme" where
  "upd_file i f s = s\<lparr>ftable := (ftable s)(i := f (ftable s i))\<rparr>"

definition fileinit :: "'z fdstate_scheme \<Rightarrow> 'z fdstate_scheme" where
  "fileinit s = initlock FtableLock ''ftable'' s"

definition filealloc :: "'z fdstate_scheme \<Rightarrow> (nat option, 'z fdstate_scheme) res" where
  "filealloc s =
     andthen (acquire FtableLock s) (\<lambda>_ s.
     case find (\<lambda>i. f_ref (ftable s i) = 0) [0..<NFILE] of
       Some f \<Rightarrow> andthen (release FtableLock (upd_file f (\<lambda>r. r\<lparr>f_ref := 1\<rparr>) s)) (\<lambda>_ s. Ok (Some f) s)
     | None \<Rightarrow> andthen (release FtableLock s) (\<lambda>_ s. Ok None s))"

definition filedup :: "nat \<Rightarrow> 'z fdstate_scheme \<Rightarrow> (nat, 'z fdstate_scheme) res" where
  "filedup f s =
     andthen (acquire FtableLock s) (\<lambda>_ s.
     if f_ref (ftable s f) < 1 then Panic ''filedup''
     else andthen (release FtableLock (upd_file f (\<lambda>r. r\<lparr>f_ref := f_ref r + 1\<rparr>) s)) (\<lambda>_ s. Ok f s))"

definition fileclose :: "nat \<Rightarrow> 'z fdstate_scheme \<Rightarrow> (unit, 'z fdstate_scheme) res" where
  "fileclose f s =
     andthen (acquire FtableLock s) (\<lambda>_ s.
     if f_ref (ftable s f) < 1 then Panic ''fileclose''
     else
       let s = upd_file f (\<lambda>r. r\<lparr>f_ref := f_ref r - 1\<rparr>) s
       in if f_ref (ftable s f) > 0 then release FtableLock s
          else
            let ff = ftable s f
            in andthen (release FtableLock (upd_file f (\<lambda>r. r\<lparr>f_ref := 0, f_type := FD_NONE\<rparr>) s)) (\<lambda>_ s.
               case f_type ff of
                 FD_PIPE \<Rightarrow> pipeclose (f_pipe ff) (f_writable ff) s
               | FD_INODE \<Rightarrow>
                   andthen (begin_op s) (\<lambda>_ s.
                   andthen (iput (f_ip ff) s) (\<lambda>_ s.
                   end_op s))
               | FD_NONE \<Rightarrow> Ok () s))"

definition filestat :: "nat \<Rightarrow> 'z fdstate_scheme \<Rightarrow> (stat option, 'z fdstate_scheme) res" where
  "filestat f s =
     (if f_type (ftable s f) = FD_INODE then
        let ip = f_ip (ftable s f)
        in andthen (ilock ip s) (\<lambda>_ s.
           let st = stati ip s
           in andthen (iunlock ip s) (\<lambda>_ s. Ok (Some st) s))
      else Ok None s)"

definition fileread ::
  "'z fdstate_scheme devread \<Rightarrow> nat \<Rightarrow> int \<Rightarrow> 'z fdstate_scheme \<Rightarrow> (int \<times> u8 list, 'z fdstate_scheme) res" where
  "fileread dr f n s =
     (if \<not> f_readable (ftable s f) then Ok (- 1, []) s
      else case f_type (ftable s f) of
        FD_PIPE \<Rightarrow> piperead (f_pipe (ftable s f)) n s
      | FD_INODE \<Rightarrow>
          (let ip = f_ip (ftable s f)
           in andthen (ilock ip s) (\<lambda>_ s.
              andthen (readi dr ip (unat (f_off (ftable s f))) (unat (of_int n :: u32)) s) (\<lambda>(r, d) s.
              let s = (if r > 0 then upd_file f (\<lambda>x. x\<lparr>f_off := f_off x + of_int r\<rparr>) s else s)
              in andthen (iunlock ip s) (\<lambda>_ s. Ok (r, d) s))))
      | FD_NONE \<Rightarrow> Panic ''fileread'')"

text \<open>Up to three blocks of data fit in one transaction.\<close>

definition write_max :: nat where "write_max = ((MAXOPBLOCKS - 1 - 1 - 2) div 2) * 512"

lemma write_max_val: "write_max = 1536"
  by (simp add: write_max_def MAXOPBLOCKS_def)

text \<open>The loop of \<open>filewrite\<close>: \<open>True\<close> when all the bytes were written.\<close>

function filewrite_loop ::
  "'z fdstate_scheme devwrite \<Rightarrow> nat \<Rightarrow> u8 list \<Rightarrow> 'z fdstate_scheme \<Rightarrow> (bool, 'z fdstate_scheme) res" where
  "filewrite_loop dw f src s =
     (if src = [] then Ok True s
      else
        let n1 = min (length src) write_max; ip = f_ip (ftable s f)
        in andthen (begin_op s) (\<lambda>_ s.
           andthen (ilock ip s) (\<lambda>_ s.
           andthen (writei dw ip (take n1 src) (unat (f_off (ftable s f))) s) (\<lambda>r s.
           let s = (if r > 0 then upd_file f (\<lambda>x. x\<lparr>f_off := f_off x + of_int r\<rparr>) s else s)
           in andthen (iunlock ip s) (\<lambda>_ s.
              andthen (end_op s) (\<lambda>_ s.
              if r < 0 then Ok False s
              else if r \<noteq> int n1 then Panic ''short filewrite''
              else filewrite_loop dw f (drop n1 src) s))))))"
  by pat_completeness auto
termination
  by (relation "measure (\<lambda>(dw, f, src, s). length src)") (auto simp: write_max_val)

declare filewrite_loop.simps [simp del]

definition filewrite ::
  "'z fdstate_scheme devwrite \<Rightarrow> nat \<Rightarrow> bytes \<Rightarrow> int \<Rightarrow> 'z fdstate_scheme \<Rightarrow> (int, 'z fdstate_scheme) res" where
  "filewrite dw f addr n s =
     (if \<not> f_writable (ftable s f) then Ok (- 1) s
      else case f_type (ftable s f) of
        FD_PIPE \<Rightarrow> pipewrite (f_pipe (ftable s f)) addr n s
      | FD_INODE \<Rightarrow>
          andthen (filewrite_loop dw f (map addr [0..<nat n]) s) (\<lambda>ok s.
          Ok (if ok \<and> 0 \<le> n then n else - 1) s)
      | FD_NONE \<Rightarrow> Panic ''filewrite'')"

section \<open>Making a pipe\<close>

definition close_opt :: "nat option \<Rightarrow> 'z fdstate_scheme \<Rightarrow> (unit, 'z fdstate_scheme) res" where
  "close_opt f s = (case f of None \<Rightarrow> Ok () s | Some f \<Rightarrow> fileclose f s)"

text \<open>The two files, or \<open>None\<close> for the failure return.\<close>

definition pipealloc :: "'z fdstate_scheme \<Rightarrow> ((nat \<times> nat) option, 'z fdstate_scheme) res" where
  "pipealloc s =
     (let bad = (\<lambda>f0 f1 s. andthen (close_opt f0 s) (\<lambda>_ s. andthen (close_opt f1 s) (\<lambda>_ s. Ok None s)))
      in andthen (filealloc s) (\<lambda>f0 s.
         case f0 of None \<Rightarrow> bad None None s
         | Some a \<Rightarrow>
           andthen (filealloc s) (\<lambda>f1 s.
           case f1 of None \<Rightarrow> bad (Some a) None s
           | Some b \<Rightarrow>
             andthen (kalloc s) (\<lambda>p s.
             if p = 0 then bad (Some a) (Some b) s
             else
               let s = upd_pipe p (\<lambda>r. r\<lparr>pi_readopen := True, pi_writeopen := True, pi_nwrite := 0, pi_nread := 0\<rparr>) s;
                   s = initlock (pipe_lock p) ''pipe'' s;
                   s = upd_file a (\<lambda>r. r\<lparr>f_type := FD_PIPE, f_readable := True, f_writable := False, f_pipe := p\<rparr>) s;
                   s = upd_file b (\<lambda>r. r\<lparr>f_type := FD_PIPE, f_readable := False, f_writable := True, f_pipe := p\<rparr>) s
               in Ok (Some (a, b)) s))))"

end
