(* ===== verification/Uarg.thy ===== *)
theory Uarg
  imports File
begin

text \<open>
  The argument functions of \<open>syscall.c\<close>. The kernel follows user pointers directly, through the
  page table the CPU has loaded; \<open>uload\<close> and \<open>ustore\<close> are such accesses, and an access the
  hardware refuses is a fault in the kernel, which panics. A failing function returns \<open>None\<close>
  where the code returns -1. A string argument is returned as its bytes instead of as a pointer:
  nothing else writes to the memory of the process while the kernel works for it.
\<close>

section \<open>Access to user memory\<close>

definition cur_dir :: "'z vstate_scheme \<Rightarrow> u32" where "cur_dir s = P2V (cr3 s (lapic_id s))"

definition uload8 :: "'z vstate_scheme \<Rightarrow> u32 \<Rightarrow> u8 option" where
  "uload8 s va =
     (case translate (kram s) (cur_dir s) va of
        None \<Rightarrow> None
      | Some pa \<Rightarrow> Some (kram s (unat (P2V pa))))"

definition ustore8 :: "u32 \<Rightarrow> u8 \<Rightarrow> 'z vstate_scheme \<Rightarrow> 'z vstate_scheme option" where
  "ustore8 va x s =
     (case translate (kram s) (cur_dir s) va of
        None \<Rightarrow> None
      | Some pa \<Rightarrow>
          if pte_of (kram s) (cur_dir s) va AND PTE_W = 0 then None
          else Some (s\<lparr>kram := (kram s)(unat (P2V pa) := x)\<rparr>))"

fun uload :: "nat \<Rightarrow> u32 \<Rightarrow> 'z vstate_scheme \<Rightarrow> u8 list option" where
  "uload 0 va s = Some []"
| "uload (Suc n) va s =
     (case uload8 s va of
        None \<Rightarrow> None
      | Some x \<Rightarrow> (case uload n (va + 1) s of None \<Rightarrow> None | Some xs \<Rightarrow> Some (x # xs)))"

fun ustore :: "u32 \<Rightarrow> u8 list \<Rightarrow> 'z vstate_scheme \<Rightarrow> (unit, 'z vstate_scheme) res" where
  "ustore va [] s = Ok () s"
| "ustore va (x # xs) s =
     (case ustore8 va x s of None \<Rightarrow> Panic ''trap'' | Some s \<Rightarrow> ustore (va + 1) xs s)"

definition word_le :: "u8 list \<Rightarrow> u32" where "word_le bs = of_nat (dec32 bs 0)"

definition the_proc :: "'z kstate_scheme \<Rightarrow> (nat, 'z kstate_scheme) res" where
  "the_proc s = andthen (myproc s) (\<lambda>p s. case p of None \<Rightarrow> Panic ''null proc'' | Some p \<Rightarrow> Ok p s)"

section \<open>Arguments\<close>

definition fetchint :: "u32 \<Rightarrow> 'z vstate_scheme \<Rightarrow> (u32 option, 'z vstate_scheme) res" where
  "fetchint addr s =
     andthen (the_proc s) (\<lambda>p s.
     if addr \<ge> p_sz (procs s p) \<or> addr + 4 > p_sz (procs s p) then Ok None s
     else case uload 4 addr s of
       None \<Rightarrow> Panic ''trap''
     | Some bs \<Rightarrow> Ok (Some (word_le bs)) s)"

text \<open>The loop of \<open>fetchstr\<close>: \<open>n\<close> bytes are left before the end of the process.\<close>

fun fetchstr_loop :: "nat \<Rightarrow> u32 \<Rightarrow> u8 list \<Rightarrow> 'z vstate_scheme \<Rightarrow> (u8 list option, 'z vstate_scheme) res" where
  "fetchstr_loop 0 va acc s = Ok None s"
| "fetchstr_loop (Suc n) va acc s =
     (case uload8 s va of
        None \<Rightarrow> Panic ''trap''
      | Some x \<Rightarrow> if x = 0 then Ok (Some (rev acc)) s else fetchstr_loop n (va + 1) (x # acc) s)"

definition fetchstr :: "u32 \<Rightarrow> 'z vstate_scheme \<Rightarrow> (u8 list option, 'z vstate_scheme) res" where
  "fetchstr addr s =
     andthen (the_proc s) (\<lambda>p s.
     if addr \<ge> p_sz (procs s p) then Ok None s
     else fetchstr_loop (unat (p_sz (procs s p)) - unat addr) addr [] s)"

definition argint :: "nat \<Rightarrow> 'z vstate_scheme \<Rightarrow> (u32 option, 'z vstate_scheme) res" where
  "argint n s = andthen (the_proc s) (\<lambda>p s. fetchint (tf_esp (p_tf (procs s p)) + 4 + 4 * of_nat n) s)"

definition argptr :: "nat \<Rightarrow> int \<Rightarrow> 'z vstate_scheme \<Rightarrow> (u32 option, 'z vstate_scheme) res" where
  "argptr n sz s =
     andthen (the_proc s) (\<lambda>p s.
     andthen (argint n s) (\<lambda>i s.
     case i of
       None \<Rightarrow> Ok None s
     | Some i \<Rightarrow>
         if sz < 0 \<or> i \<ge> p_sz (procs s p) \<or> i + of_int sz > p_sz (procs s p) then Ok None s
         else Ok (Some i) s))"

definition argstr :: "nat \<Rightarrow> 'z vstate_scheme \<Rightarrow> (u8 list option, 'z vstate_scheme) res" where
  "argstr n s =
     andthen (argint n s) (\<lambda>addr s.
     case addr of None \<Rightarrow> Ok None s | Some addr \<Rightarrow> fetchstr addr s)"

section \<open>Arguments stay inside the process\<close>

lemma the_proc_runs: "runs c p s \<Longrightarrow> the_proc s = Ok p s"
  using myproc_steady [OF runs_steady, of c p s] by (simp add: the_proc_def runs_def)

lemma fetchint_bounds:
  assumes "runs c p s" "fetchint addr s = Ok (Some v) t"
  shows "t = s \<and> addr < p_sz (procs s p) \<and> addr + 4 \<le> p_sz (procs s p) \<and> (\<exists>bs. uload 4 addr s = Some bs \<and> v = word_le bs)"
  using assms(2) unfolding fetchint_def the_proc_runs [OF assms(1)]
  by (auto simp: not_le not_less split: if_splits option.splits)

lemma argint_same: "runs c p s \<Longrightarrow> argint n s = Ok (Some v) t \<Longrightarrow> t = s"
  by (auto simp: argint_def the_proc_runs dest!: fetchint_bounds)

text \<open>
  C36. A pointer that \<open>argptr\<close> accepts for a block of \<open>sz\<close> bytes leaves the whole block inside the
  memory of the process, with no wrap-around, as long as the process is not larger than the
  user half of the address space; negative sizes are refused.
\<close>

theorem argptr_in_bounds:
  assumes "runs c p s" "p_sz (procs s p) \<le> KERNBASE" "sz < 2147483648" "argptr n sz s = Ok (Some i) t"
  shows "t = s \<and> 0 \<le> sz \<and> unat i < unat (p_sz (procs s p)) \<and> unat i + nat sz \<le> unat (p_sz (procs s p))"
proof -
  obtain u where u: "argint n s = Ok (Some i) u" "t = u" "0 \<le> sz" "i < p_sz (procs u p)" "i + of_int sz \<le> p_sz (procs u p)"
    using assms(4) unfolding argptr_def the_proc_runs [OF assms(1)]
    by (auto simp: res_simps not_le not_less split: if_splits option.splits)
  have s: "u = s" using argint_same [OF assms(1) u(1)] .
  have l: "unat (p_sz (procs s p)) \<le> 2147483648" using assms(2) by (simp add: KERNBASE_def word_le_nat_alt)
  have i: "unat i < unat (p_sz (procs s p))" using u(4) s by (simp add: word_less_nat_alt)
  have "of_int sz = (of_nat (nat sz) :: u32)" using u(3) by simp
  moreover have "nat sz < 2147483648" using u(3) assms(3) by simp
  ultimately have "unat (i + of_int sz) = unat i + nat sz" using i l by (simp add: unat_word_ariths unat_of_nat)
  then show ?thesis using u(2,3,5) s i by (simp add: word_le_nat_alt)
qed

lemma fetchstr_loop_ok:
  "fetchstr_loop n va acc s = Ok (Some str) t \<Longrightarrow> 0 \<notin> set acc \<Longrightarrow>
   \<exists>xs. str = rev acc @ xs \<and> t = s \<and> 0 \<notin> set xs \<and> length xs < n \<and> uload (Suc (length xs)) va s = Some (xs @ [0])"
proof (induction n arbitrary: va acc)
  case (Suc n)
  obtain x where x: "uload8 s va = Some x" using Suc.prems(1) by (cases "uload8 s va") simp_all
  show ?case
  proof (cases "x = 0")
    case True
    then show ?thesis using Suc.prems x by (intro exI [of _ "[]"]) auto
  next
    case False
    then have "fetchstr_loop n (va + 1) (x # acc) s = Ok (Some str) t" "0 \<notin> set (x # acc)" using Suc.prems x by auto
    from Suc.IH [OF this] obtain xs where "str = rev (x # acc) @ xs" "t = s" "0 \<notin> set xs" "length xs < n"
      "uload (Suc (length xs)) (va + 1) s = Some (xs @ [0])" by blast
    then show ?thesis using False x by (intro exI [of _ "x # xs"]) auto
  qed
qed simp

text \<open>
  A string that \<open>fetchstr\<close> accepts has no zero byte inside, is followed by one, and lies with
  its terminator inside the memory of the process.
\<close>

theorem fetchstr_terminated:
  assumes "runs c p s" "fetchstr addr s = Ok (Some str) t"
  shows "t = s \<and> 0 \<notin> set str \<and> unat addr + length str < unat (p_sz (procs s p)) \<and>
    uload (Suc (length str)) addr s = Some (str @ [0])"
proof -
  have a: "fetchstr_loop (unat (p_sz (procs s p)) - unat addr) addr [] s = Ok (Some str) t" "addr < p_sz (procs s p)"
    using assms(2) unfolding fetchstr_def the_proc_runs [OF assms(1)] by (auto simp: not_le split: if_splits)
  from fetchstr_loop_ok [OF a(1)] a(2) show ?thesis by (auto simp: word_less_nat_alt)
qed

section \<open>A process with memory\<close>

text \<open>Process 0 has one page, at physical address 2 MB, that starts with the string \<open>a\<close>.\<close>

definition user_ram :: mem where "user_ram = user_mem(0x80200000 := 97)"

definition user_machine :: vstate where
  "user_machine = (vm_machine user_ram 0)\<lparr>cr3 := (\<lambda>_. 0x110000),
     procs := (\<lambda>p. zero_proc\<lparr>p_sz := 4096, p_tf := zero_tf\<lparr>tf_esp := 8\<rparr>\<rparr>)\<rparr>"

lemma user_machine_runs: "runs 0 0 user_machine"
  using vm_machine_runs [of user_ram 0] by (simp add: user_machine_def runs_def calm_def steady_def lk_free_def)

lemma user_machine_simps [simp]:
  "kram user_machine = user_ram" "cur_dir user_machine = 0x80110000" "p_sz (procs user_machine p) = 4096"
  "tf_esp (p_tf (procs user_machine p)) = 8"
  by (simp_all add: user_machine_def cur_dir_def vm_machine_def mstate.defs P2V_def KERNBASE_def)

lemma user_ram_pte: "unat va < 4096 \<Longrightarrow> pte_of user_ram 0x80110000 va = 0x200000 OR 6 OR PTE_P"
proof -
  assume "unat va < 4096"
  then have "page_no va = page_no 0" by simp
  then have "pte_of user_ram 0x80110000 va = pte_of user_ram 0x80110000 0" by (rule pte_of_page)
  moreover have "ld32 user_ram 0x80110000 = 0x111007" "ld32 user_ram 0x80111000 = 0x200007"
    using user_mem_walk by (simp_all add: user_ram_def ld32_def)
  ultimately show ?thesis
    by (simp add: pte_of_def PDX_def PTX_def PTE_ADDR_def present_def PTE_P_def addr_defs)
qed

lemma user_machine_load: "unat va < 4096 \<Longrightarrow> uload8 user_machine va = Some (user_ram (0x80200000 + unat va))"
proof -
  assume v: "unat va < 4096"
  have a: "aligned 0x200000" by (simp add: aligned_def)
  have "translate user_ram 0x80110000 va = Some (0x200000 + (va AND 0xFFF))"
    using translate_entry [OF a _ user_ram_pte [OF v]] user_flags by blast
  moreover have "va AND 0xFFF = va" using v unat_and_FFF [of va] by (simp add: word_unat_eq_iff)
  moreover have "unat (P2V (0x200000 + va)) = 0x80200000 + unat va"
    using v by (simp add: P2V_def KERNBASE_def unat_word_ariths)
  ultimately show ?thesis by (simp add: uload8_def)
qed

lemma user_ram_at: "user_ram (0x80200000 + k) = (if k = 0 then 97 else 0)" if "k < 4096"
  using that by (auto simp: user_ram_def user_mem_def st32_def Let_def)

theorem argptr_in_bounds_witness:
  "argptr 0 100 user_machine = Ok (Some 0) user_machine \<and> unat 0 + nat 100 \<le> unat (p_sz (procs user_machine 0))"
proof -
  have b: "uload8 user_machine 12 = Some 0" "uload8 user_machine 13 = Some 0" "uload8 user_machine 14 = Some 0"
    "uload8 user_machine 15 = Some 0"
    using user_machine_load [of 12] user_machine_load [of 13] user_machine_load [of 14] user_machine_load [of 15]
      user_ram_at [of 12] user_ram_at [of 13] user_ram_at [of 14] user_ram_at [of 15] by simp_all
  have four: "(4 :: nat) = Suc (Suc (Suc (Suc 0)))" by simp
  have "uload 4 12 user_machine = Some [0, 0, 0, 0]" unfolding four by (simp add: b)
  then have "argptr 0 100 user_machine = Ok (Some 0) user_machine"
    by (simp add: argptr_def argint_def fetchint_def the_proc_runs [OF user_machine_runs] word_le_def dec32_def)
  then show ?thesis
    using argptr_in_bounds [OF user_machine_runs, of 100 0 0 user_machine] by (simp add: KERNBASE_def)
qed

theorem fetchstr_terminated_witness:
  "fetchstr 0 user_machine = Ok (Some [97]) user_machine \<and> uload 2 0 user_machine = Some [97, 0]"
proof -
  have "uload8 user_machine 0 = Some 97" "uload8 user_machine 1 = Some 0"
    using user_machine_load [of 0] user_machine_load [of 1] user_ram_at [of 0] user_ram_at [of 1] by simp_all
  then have "fetchstr_loop (Suc (Suc n)) 0 [] user_machine = Ok (Some [97]) user_machine" for n by simp
  from this [of 4094] have "fetchstr 0 user_machine = Ok (Some [97]) user_machine"
    by (simp add: fetchstr_def the_proc_runs [OF user_machine_runs])
  then show ?thesis using fetchstr_terminated [OF user_machine_runs, of 0 "[97]" user_machine] by (simp add: numeral_2_eq_2)
qed

end
