(* ===== verification/Exec.thy ===== *)
theory Exec
  imports Uarg
begin

text \<open>
  \<open>exec.c\<close> and the ELF structures of \<open>elf.h\<close>. The argument strings are given as lists of bytes
  without their terminators. The jump to \<open>bad\<close> is \<open>exec_bad\<close>, with a null inode once the
  transaction is over.
\<close>

definition ELF_MAGIC :: nat where "ELF_MAGIC = 0x464C457F"
definition ELF_PROG_LOAD :: nat where "ELF_PROG_LOAD = 1"

record elfhdr =
  elf_magic :: nat
  elf_entry :: u32
  elf_phoff :: u32
  elf_phnum :: nat

record proghdr =
  ph_type :: nat
  ph_off :: u32
  ph_vaddr :: u32
  ph_paddr :: u32
  ph_filesz :: u32
  ph_memsz :: u32

definition ELFHDR_SIZE :: nat where "ELFHDR_SIZE = 52"
definition PROGHDR_SIZE :: nat where "PROGHDR_SIZE = 32"

text \<open>The fields \<open>exec\<close> and the boot loader use, at their offsets in the structures.\<close>

definition dec_elfhdr :: "u8 list \<Rightarrow> elfhdr" where
  "dec_elfhdr d = \<lparr>elf_magic = dec32 d 0, elf_entry = of_nat (dec32 d 24), elf_phoff = of_nat (dec32 d 28),
     elf_phnum = unat (dec16 d 44)\<rparr>"

definition dec_proghdr :: "u8 list \<Rightarrow> proghdr" where
  "dec_proghdr d = \<lparr>ph_type = dec32 d 0, ph_off = of_nat (dec32 d 4), ph_vaddr = of_nat (dec32 d 8),
     ph_paddr = of_nat (dec32 d 12), ph_filesz = of_nat (dec32 d 16), ph_memsz = of_nat (dec32 d 20)\<rparr>"

text \<open>The loop over the program headers: the new size, or \<open>None\<close> for a jump to \<open>bad\<close>.\<close>

fun load_segs :: "'z vstate_scheme devread \<Rightarrow> u32 \<Rightarrow> nat \<Rightarrow> nat \<Rightarrow> u32 \<Rightarrow> u32 \<Rightarrow> 'z vstate_scheme \<Rightarrow>
    (u32 option, 'z vstate_scheme) res" where
  "load_segs dr pgdir ip 0 off sz s = Ok (Some sz) s"
| "load_segs dr pgdir ip (Suc n) off sz s =
     andthen (readi dr ip (unat off) PROGHDR_SIZE s) (\<lambda>(r, d) s.
     if r \<noteq> int PROGHDR_SIZE then Ok None s
     else
       let ph = dec_proghdr d; off' = off + of_nat PROGHDR_SIZE
       in if ph_type ph \<noteq> ELF_PROG_LOAD then load_segs dr pgdir ip n off' sz s
          else if ph_memsz ph < ph_filesz ph then Ok None s
          else if ph_vaddr ph + ph_memsz ph < ph_vaddr ph then Ok None s
          else
            andthen (allocuvm pgdir sz (ph_vaddr ph + ph_memsz ph) s) (\<lambda>sz s.
            if sz = 0 then Ok None s
            else if ph_vaddr ph mod PGSIZE \<noteq> 0 then Ok None s
            else
              andthen (loaduvm dr pgdir (ph_vaddr ph) ip (ph_off ph) (ph_filesz ph) s) (\<lambda>r s.
              if r < 0 then Ok None s else load_segs dr pgdir ip n off' sz s)))"

text \<open>Pushing the argument strings: the stack pointer and the addresses of the strings.\<close>

fun push_args :: "u32 \<Rightarrow> u8 list list \<Rightarrow> u32 \<Rightarrow> u32 list \<Rightarrow> 'z mstate_scheme \<Rightarrow>
    ((u32 \<times> u32 list) option, 'z mstate_scheme) res" where
  "push_args pgdir [] sp ustack s = Ok (Some (sp, ustack)) s"
| "push_args pgdir (a # argv) sp ustack s =
     (if length ustack \<ge> MAXARG then Ok None s
      else
        let sp = (sp - (of_nat (length a) + 1)) AND NOT 3
        in andthen (copyout pgdir sp (a @ [0]) s) (\<lambda>r s.
           if r < 0 then Ok None s else push_args pgdir argv sp (ustack @ [sp]) s))"

definition word_bytes :: "u32 \<Rightarrow> u8 list" where "word_bytes w = enc32 (unat w)"

text \<open>The part of the path after its last slash, cut to the size of \<open>p->name\<close>.\<close>

definition last_elem :: "u8 list \<Rightarrow> u8 list" where
  "last_elem path = rev (takeWhile (\<lambda>c. c \<noteq> slash) (rev path))"

definition proc_name :: "u8 list \<Rightarrow> string" where
  "proc_name l = map (\<lambda>x. char_of (unat x))
     (takeWhile (\<lambda>x. x \<noteq> 0) (map (safestrcpy (\<lambda>_. 0) (cstr l) 16) [0..<16]))"

definition exec_bad :: "u32 \<Rightarrow> nat option \<Rightarrow> 'z vstate_scheme \<Rightarrow> (int, 'z vstate_scheme) res" where
  "exec_bad pgdir ip s =
     andthen (if pgdir \<noteq> 0 then freevm pgdir s else Ok () s) (\<lambda>_ s.
     andthen (case ip of
                None \<Rightarrow> Ok () s
              | Some ip \<Rightarrow> andthen (iunlockput ip s) (\<lambda>_ s. end_op s)) (\<lambda>_ s.
     Ok (- 1) s))"

text \<open>From the stack on, when the program is loaded and the transaction is over.\<close>

definition exec_stack :: "nat \<Rightarrow> u8 list \<Rightarrow> u8 list list \<Rightarrow> elfhdr \<Rightarrow> u32 \<Rightarrow> u32 \<Rightarrow> 'z vstate_scheme \<Rightarrow>
    (int, 'z vstate_scheme) res" where
  "exec_stack curproc path argv elf pgdir sz s =
     (let sz = PGROUNDUP sz
      in andthen (allocuvm pgdir sz (sz + 2 * PGSIZE) s) (\<lambda>sz s.
         if sz = 0 then exec_bad pgdir None s
         else
           andthen (clearpteu pgdir (sz - 2 * PGSIZE) s) (\<lambda>_ s.
           andthen (push_args pgdir argv sz [] s) (\<lambda>r s.
           case r of
             None \<Rightarrow> exec_bad pgdir None s
           | Some (sp, ustack) \<Rightarrow>
               let argc = of_nat (length ustack);
                   words = [0xffffffff, argc, sp - (argc + 1) * 4] @ ustack @ [0];
                   sp = sp - (3 + argc + 1) * 4
               in andthen (copyout pgdir sp (concat (map word_bytes words)) s) (\<lambda>r s.
                  if r < 0 then exec_bad pgdir None s
                  else
                    let oldpgdir = p_pgdir (procs s curproc);
                        s = upd_proc curproc (\<lambda>p. p\<lparr>p_name := proc_name (last_elem path), p_pgdir := pgdir, p_sz := sz,
                              p_tf := (p_tf p)\<lparr>tf_eip := elf_entry elf, tf_esp := sp\<rparr>\<rparr>) s
                    in andthen (switchuvm (Some curproc) s) (\<lambda>_ s.
                       andthen (freevm oldpgdir s) (\<lambda>_ s. Ok 0 s)))))))"

text \<open>The console comes later, so the message for a path that does not exist is an argument \<open>fail\<close>.\<close>

definition exec :: "'z vstate_scheme devread \<Rightarrow> ('z vstate_scheme \<Rightarrow> (unit, 'z vstate_scheme) res) \<Rightarrow> u8 list \<Rightarrow>
    u8 list list \<Rightarrow> 'z vstate_scheme \<Rightarrow> (int, 'z vstate_scheme) res" where
  "exec dr fail path argv s =
     andthen (the_proc s) (\<lambda>curproc s.
     andthen (begin_op s) (\<lambda>_ s.
     andthen (namei dr path s) (\<lambda>ip s.
     case ip of
       None \<Rightarrow> andthen (end_op s) (\<lambda>_ s. andthen (fail s) (\<lambda>_ s. Ok (- 1) s))
     | Some ip \<Rightarrow>
         andthen (ilock ip s) (\<lambda>_ s.
         andthen (readi dr ip 0 ELFHDR_SIZE s) (\<lambda>(r, d) s.
         if r \<noteq> int ELFHDR_SIZE then exec_bad 0 (Some ip) s
         else
           let elf = dec_elfhdr d
           in if elf_magic elf \<noteq> ELF_MAGIC then exec_bad 0 (Some ip) s
              else
                andthen (setupkvm s) (\<lambda>pgdir s.
                if pgdir = 0 then exec_bad 0 (Some ip) s
                else
                  andthen (load_segs dr pgdir ip (elf_phnum elf) (elf_phoff elf) 0 s) (\<lambda>sz s.
                  case sz of
                    None \<Rightarrow> exec_bad pgdir (Some ip) s
                  | Some sz \<Rightarrow>
                      andthen (iunlockput ip s) (\<lambda>_ s.
                      andthen (end_op s) (\<lambda>_ s.
                      exec_stack curproc path argv elf pgdir sz s)))))))))"

end
