(* ===== verification/Sysfile.thy ===== *)
theory Sysfile
  imports Exec
begin

text \<open>
  \<open>sysfile.c\<close>: the system calls on files. Each is the whole call, from fetching its arguments to the
  value returned in \<open>eax\<close>; the device functions are the arguments \<open>dr\<close> and \<open>dw\<close>.
\<close>

definition O_WRONLY :: u32 where "O_WRONLY = 0x001"
definition O_RDWR :: u32 where "O_RDWR = 0x002"
definition O_CREATE :: u32 where "O_CREATE = 0x200"

section \<open>Descriptors\<close>

definition argfd :: "nat \<Rightarrow> 'z fdstate_scheme \<Rightarrow> ((nat \<times> nat) option, 'z fdstate_scheme) res" where
  "argfd n s =
     andthen (argint n s) (\<lambda>fd s.
     case fd of
       None \<Rightarrow> Ok None s
     | Some fd \<Rightarrow>
         let fd = sint fd
         in if fd < 0 \<or> fd \<ge> int NOFILE then Ok None s
            else
              andthen (the_proc s) (\<lambda>p s.
              case p_ofile (procs s p) (nat fd) of
                None \<Rightarrow> Ok None s
              | Some f \<Rightarrow> Ok (Some (nat fd, f)) s))"

definition fdalloc :: "nat \<Rightarrow> 'z fdstate_scheme \<Rightarrow> (nat option, 'z fdstate_scheme) res" where
  "fdalloc f s =
     andthen (the_proc s) (\<lambda>p s.
     case find (\<lambda>fd. p_ofile (procs s p) fd = None) [0..<NOFILE] of
       None \<Rightarrow> Ok None s
     | Some fd \<Rightarrow> Ok (Some fd) (upd_proc p (\<lambda>r. r\<lparr>p_ofile := (p_ofile r)(fd := Some f)\<rparr>) s))"

definition sys_dup :: "'z fdstate_scheme \<Rightarrow> (int, 'z fdstate_scheme) res" where
  "sys_dup s =
     andthen (argfd 0 s) (\<lambda>r s.
     case r of
       None \<Rightarrow> Ok (- 1) s
     | Some (_, f) \<Rightarrow>
         andthen (fdalloc f s) (\<lambda>fd s.
         case fd of
           None \<Rightarrow> Ok (- 1) s
         | Some fd \<Rightarrow> andthen (filedup f s) (\<lambda>_ s. Ok (int fd) s)))"

text \<open>The arguments of \<open>read\<close> and \<open>write\<close>: the file, the count and the buffer.\<close>

definition rw_args :: "'z fdstate_scheme \<Rightarrow> ((nat \<times> int \<times> u32) option, 'z fdstate_scheme) res" where
  "rw_args s =
     andthen (argfd 0 s) (\<lambda>r s.
     case r of
       None \<Rightarrow> Ok None s
     | Some (_, f) \<Rightarrow>
         andthen (argint 2 s) (\<lambda>n s.
         case n of
           None \<Rightarrow> Ok None s
         | Some n \<Rightarrow>
             andthen (argptr 1 (sint n) s) (\<lambda>p s.
             case p of None \<Rightarrow> Ok None s | Some p \<Rightarrow> Ok (Some (f, sint n, p)) s)))"

definition sys_read :: "'z fdstate_scheme devread \<Rightarrow> 'z fdstate_scheme \<Rightarrow> (int, 'z fdstate_scheme) res" where
  "sys_read dr s =
     andthen (rw_args s) (\<lambda>a s.
     case a of
       None \<Rightarrow> Ok (- 1) s
     | Some (f, n, p) \<Rightarrow>
         andthen (fileread dr f n s) (\<lambda>(r, d) s.
         andthen (ustore p d s) (\<lambda>_ s. Ok r s)))"

definition sys_write :: "'z fdstate_scheme devwrite \<Rightarrow> 'z fdstate_scheme \<Rightarrow> (int, 'z fdstate_scheme) res" where
  "sys_write dw s =
     andthen (rw_args s) (\<lambda>a s.
     case a of
       None \<Rightarrow> Ok (- 1) s
     | Some (f, n, p) \<Rightarrow>
         (case uload (nat n) p s of
            None \<Rightarrow> Panic ''trap''
          | Some d \<Rightarrow> filewrite dw f (cstr d) n s))"

definition sys_close :: "'z fdstate_scheme \<Rightarrow> (int, 'z fdstate_scheme) res" where
  "sys_close s =
     andthen (argfd 0 s) (\<lambda>r s.
     case r of
       None \<Rightarrow> Ok (- 1) s
     | Some (fd, f) \<Rightarrow>
         andthen (the_proc s) (\<lambda>p s.
         andthen (fileclose f (upd_proc p (\<lambda>r. r\<lparr>p_ofile := (p_ofile r)(fd := None)\<rparr>) s)) (\<lambda>_ s. Ok 0 s)))"

text \<open>\<open>struct stat\<close> is 20 bytes long; two of its fields are followed by padding.\<close>

definition store_stat :: "u32 \<Rightarrow> stat \<Rightarrow> 'z vstate_scheme \<Rightarrow> (unit, 'z vstate_scheme) res" where
  "store_stat a st s =
     andthen (ustore a (enc16 (st_type st)) s) (\<lambda>_ s.
     andthen (ustore (a + 4) (enc32 (st_dev st)) s) (\<lambda>_ s.
     andthen (ustore (a + 8) (enc32 (st_ino st)) s) (\<lambda>_ s.
     andthen (ustore (a + 12) (enc16 (st_nlink st)) s) (\<lambda>_ s.
     ustore (a + 16) (enc32 (st_size st)) s))))"

definition sys_fstat :: "'z fdstate_scheme \<Rightarrow> (int, 'z fdstate_scheme) res" where
  "sys_fstat s =
     andthen (argfd 0 s) (\<lambda>r s.
     case r of
       None \<Rightarrow> Ok (- 1) s
     | Some (_, f) \<Rightarrow>
         andthen (argptr 1 20 s) (\<lambda>a s.
         case a of
           None \<Rightarrow> Ok (- 1) s
         | Some a \<Rightarrow>
             andthen (filestat f s) (\<lambda>st s.
             case st of
               None \<Rightarrow> Ok (- 1) s
             | Some st \<Rightarrow> andthen (store_stat a st s) (\<lambda>_ s. Ok 0 s))))"

section \<open>Names\<close>

definition fail_op :: "'z lstate_scheme \<Rightarrow> (int, 'z lstate_scheme) res" where
  "fail_op s = andthen (end_op s) (\<lambda>_ s. Ok (- 1) s)"

definition upd_nlink :: "nat \<Rightarrow> u16 \<Rightarrow> 'z fstate_scheme \<Rightarrow> 'z fstate_scheme" where
  "upd_nlink ip k s = upd_inode ip (\<lambda>r. r\<lparr>i_nlink := i_nlink r + k\<rparr>) s"

definition link_bad :: "nat \<Rightarrow> 'z fstate_scheme \<Rightarrow> (int, 'z fstate_scheme) res" where
  "link_bad ip s =
     andthen (ilock ip s) (\<lambda>_ s.
     andthen (iupdate ip (upd_nlink ip (- 1) s)) (\<lambda>_ s.
     andthen (iunlockput ip s) (\<lambda>_ s.
     fail_op s)))"

definition sys_link ::
  "'z fdstate_scheme devread \<Rightarrow> 'z fdstate_scheme devwrite \<Rightarrow> 'z fdstate_scheme \<Rightarrow> (int, 'z fdstate_scheme) res" where
  "sys_link dr dw s =
     andthen (argstr 0 s) (\<lambda>old s. case old of None \<Rightarrow> Ok (- 1) s | Some old \<Rightarrow>
     andthen (argstr 1 s) (\<lambda>new s. case new of None \<Rightarrow> Ok (- 1) s | Some new \<Rightarrow>
     andthen (begin_op s) (\<lambda>_ s.
     andthen (namei dr old s) (\<lambda>ip s. case ip of None \<Rightarrow> fail_op s | Some ip \<Rightarrow>
     andthen (ilock ip s) (\<lambda>_ s.
     if i_type (icache s ip) = T_DIR then andthen (iunlockput ip s) (\<lambda>_ s. fail_op s)
     else
       andthen (iupdate ip (upd_nlink ip 1 s)) (\<lambda>_ s.
       andthen (iunlock ip s) (\<lambda>_ s.
       andthen (nameiparent dr new s) (\<lambda>r s. case r of None \<Rightarrow> link_bad ip s | Some (dp, name) \<Rightarrow>
       andthen (ilock dp s) (\<lambda>_ s.
       andthen (if i_dev (icache s dp) \<noteq> i_dev (icache s ip) then Ok (- 1) s
                else dirlink dr dw dp name (i_inum (icache s ip)) s) (\<lambda>r s.
       andthen (iunlockput dp s) (\<lambda>_ s.
       if r < 0 then link_bad ip s
       else
         andthen (iput ip s) (\<lambda>_ s.
         andthen (end_op s) (\<lambda>_ s. Ok 0 s)))))))))))))"

text \<open>The loop of \<open>isdirempty\<close> over the entries after the first two.\<close>

fun isdirempty_loop :: "'z fstate_scheme devread \<Rightarrow> nat \<Rightarrow> nat list \<Rightarrow> 'z fstate_scheme \<Rightarrow> (bool, 'z fstate_scheme) res" where
  "isdirempty_loop dr dp [] s = Ok True s"
| "isdirempty_loop dr dp (off # offs) s =
     andthen (readi dr dp off DIRENT s) (\<lambda>(r, d) s.
     if r \<noteq> int DIRENT then Panic ''isdirempty: readi''
     else if de_inum (dec_dirent d) \<noteq> 0 then Ok False s
     else isdirempty_loop dr dp offs s)"

definition isdirempty :: "'z fstate_scheme devread \<Rightarrow> nat \<Rightarrow> 'z fstate_scheme \<Rightarrow> (bool, 'z fstate_scheme) res" where
  "isdirempty dr dp s = isdirempty_loop dr dp (drop 2 (steps (i_size (icache s dp)) DIRENT)) s"

definition dot :: "u8 list" where "dot = [46]"
definition dotdot :: "u8 list" where "dotdot = [46, 46]"

definition unlink_bad :: "nat \<Rightarrow> 'z fstate_scheme \<Rightarrow> (int, 'z fstate_scheme) res" where
  "unlink_bad dp s = andthen (iunlockput dp s) (\<lambda>_ s. fail_op s)"

definition sys_unlink ::
  "'z fdstate_scheme devread \<Rightarrow> 'z fdstate_scheme devwrite \<Rightarrow> 'z fdstate_scheme \<Rightarrow> (int, 'z fdstate_scheme) res" where
  "sys_unlink dr dw s =
     andthen (argstr 0 s) (\<lambda>path s. case path of None \<Rightarrow> Ok (- 1) s | Some path \<Rightarrow>
     andthen (begin_op s) (\<lambda>_ s.
     andthen (nameiparent dr path s) (\<lambda>r s. case r of None \<Rightarrow> fail_op s | Some (dp, name) \<Rightarrow>
     andthen (ilock dp s) (\<lambda>_ s.
     if namecmp (cstr name) (cstr dot) = 0 \<or> namecmp (cstr name) (cstr dotdot) = 0 then unlink_bad dp s
     else
       andthen (dirlookup dr dp name s) (\<lambda>r s. case r of None \<Rightarrow> unlink_bad dp s | Some (ip, off) \<Rightarrow>
       andthen (ilock ip s) (\<lambda>_ s.
       if sint (i_nlink (icache s ip)) < 1 then Panic ''unlink: nlink < 1''
       else
         andthen (if i_type (icache s ip) = T_DIR then isdirempty dr ip s else Ok True s) (\<lambda>e s.
         if \<not> e then andthen (iunlockput ip s) (\<lambda>_ s. unlink_bad dp s)
         else
           andthen (writei dw dp (replicate DIRENT 0) off s) (\<lambda>r s.
           if r \<noteq> int DIRENT then Panic ''unlink: writei''
           else
             andthen (if i_type (icache s ip) = T_DIR then iupdate dp (upd_nlink dp (- 1) s) else Ok () s) (\<lambda>_ s.
             andthen (iunlockput dp s) (\<lambda>_ s.
             andthen (iupdate ip (upd_nlink ip (- 1) s)) (\<lambda>_ s.
             andthen (iunlockput ip s) (\<lambda>_ s.
             andthen (end_op s) (\<lambda>_ s. Ok 0 s)))))))))))))"

definition create ::
  "'z fdstate_scheme devread \<Rightarrow> 'z fdstate_scheme devwrite \<Rightarrow> u8 list \<Rightarrow> u16 \<Rightarrow> u16 \<Rightarrow> u16 \<Rightarrow> 'z fdstate_scheme \<Rightarrow>
   (nat option, 'z fdstate_scheme) res" where
  "create dr dw path type major minor s =
     andthen (nameiparent dr path s) (\<lambda>r s. case r of None \<Rightarrow> Ok None s | Some (dp, name) \<Rightarrow>
     andthen (ilock dp s) (\<lambda>_ s.
     andthen (dirlookup dr dp name s) (\<lambda>r s. case r of
       Some (ip, _) \<Rightarrow>
         andthen (iunlockput dp s) (\<lambda>_ s.
         andthen (ilock ip s) (\<lambda>_ s.
         if type = T_FILE \<and> i_type (icache s ip) = T_FILE then Ok (Some ip) s
         else andthen (iunlockput ip s) (\<lambda>_ s. Ok None s)))
     | None \<Rightarrow>
         andthen (ialloc (i_dev (icache s dp)) type s) (\<lambda>ip s.
         andthen (ilock ip s) (\<lambda>_ s.
         andthen (iupdate ip (upd_inode ip (\<lambda>r. r\<lparr>i_major := major, i_minor := minor, i_nlink := 1\<rparr>) s)) (\<lambda>_ s.
         andthen (if type = T_DIR then
                    andthen (iupdate dp (upd_nlink dp 1 s)) (\<lambda>_ s.
                    andthen (dirlink dr dw ip dot (i_inum (icache s ip)) s) (\<lambda>r s.
                    if r < 0 then Panic ''create dots''
                    else
                      andthen (dirlink dr dw ip dotdot (i_inum (icache s dp)) s) (\<lambda>r s.
                      if r < 0 then Panic ''create dots'' else Ok () s)))
                  else Ok () s) (\<lambda>_ s.
         andthen (dirlink dr dw dp name (i_inum (icache s ip)) s) (\<lambda>r s.
         if r < 0 then Panic ''create: dirlink''
         else andthen (iunlockput dp s) (\<lambda>_ s. Ok (Some ip) s)))))))))"

text \<open>The first half of \<open>open\<close>: the locked inode, or \<open>None\<close> when it fails.\<close>

definition open_inode ::
  "'z fdstate_scheme devread \<Rightarrow> 'z fdstate_scheme devwrite \<Rightarrow> u8 list \<Rightarrow> u32 \<Rightarrow> 'z fdstate_scheme \<Rightarrow>
   (nat option, 'z fdstate_scheme) res" where
  "open_inode dr dw path omode s =
     (if omode AND O_CREATE \<noteq> 0 then create dr dw path T_FILE 0 0 s
      else
        andthen (namei dr path s) (\<lambda>ip s. case ip of None \<Rightarrow> Ok None s | Some ip \<Rightarrow>
        andthen (ilock ip s) (\<lambda>_ s.
        if i_type (icache s ip) = T_DIR \<and> omode \<noteq> 0 then andthen (iunlockput ip s) (\<lambda>_ s. Ok None s)
        else Ok (Some ip) s)))"

definition sys_open ::
  "'z fdstate_scheme devread \<Rightarrow> 'z fdstate_scheme devwrite \<Rightarrow> 'z fdstate_scheme \<Rightarrow> (int, 'z fdstate_scheme) res" where
  "sys_open dr dw s =
     andthen (argstr 0 s) (\<lambda>path s. case path of None \<Rightarrow> Ok (- 1) s | Some path \<Rightarrow>
     andthen (argint 1 s) (\<lambda>omode s. case omode of None \<Rightarrow> Ok (- 1) s | Some omode \<Rightarrow>
     andthen (begin_op s) (\<lambda>_ s.
     andthen (open_inode dr dw path omode s) (\<lambda>ip s. case ip of None \<Rightarrow> fail_op s | Some ip \<Rightarrow>
     andthen (filealloc s) (\<lambda>f s. case f of
       None \<Rightarrow> andthen (iunlockput ip s) (\<lambda>_ s. fail_op s)
     | Some f \<Rightarrow>
         andthen (fdalloc f s) (\<lambda>fd s. case fd of
           None \<Rightarrow> andthen (fileclose f s) (\<lambda>_ s. andthen (iunlockput ip s) (\<lambda>_ s. fail_op s))
         | Some fd \<Rightarrow>
             andthen (iunlock ip s) (\<lambda>_ s.
             andthen (end_op s) (\<lambda>_ s.
             Ok (int fd) (upd_file f (\<lambda>r. r\<lparr>f_type := FD_INODE, f_ip := ip, f_off := 0,
               f_readable := (omode AND O_WRONLY = 0),
               f_writable := (omode AND O_WRONLY \<noteq> 0 \<or> omode AND O_RDWR \<noteq> 0)\<rparr>) s)))))))))"

definition sys_mkdir ::
  "'z fdstate_scheme devread \<Rightarrow> 'z fdstate_scheme devwrite \<Rightarrow> 'z fdstate_scheme \<Rightarrow> (int, 'z fdstate_scheme) res" where
  "sys_mkdir dr dw s =
     andthen (begin_op s) (\<lambda>_ s.
     andthen (argstr 0 s) (\<lambda>path s. case path of None \<Rightarrow> fail_op s | Some path \<Rightarrow>
     andthen (create dr dw path T_DIR 0 0 s) (\<lambda>ip s. case ip of None \<Rightarrow> fail_op s | Some ip \<Rightarrow>
     andthen (iunlockput ip s) (\<lambda>_ s.
     andthen (end_op s) (\<lambda>_ s. Ok 0 s)))))"

definition sys_mknod ::
  "'z fdstate_scheme devread \<Rightarrow> 'z fdstate_scheme devwrite \<Rightarrow> 'z fdstate_scheme \<Rightarrow> (int, 'z fdstate_scheme) res" where
  "sys_mknod dr dw s =
     andthen (begin_op s) (\<lambda>_ s.
     andthen (argstr 0 s) (\<lambda>path s. case path of None \<Rightarrow> fail_op s | Some path \<Rightarrow>
     andthen (argint 1 s) (\<lambda>major s. case major of None \<Rightarrow> fail_op s | Some major \<Rightarrow>
     andthen (argint 2 s) (\<lambda>minor s. case minor of None \<Rightarrow> fail_op s | Some minor \<Rightarrow>
     andthen (create dr dw path T_DEV (ucast major) (ucast minor) s) (\<lambda>ip s. case ip of None \<Rightarrow> fail_op s | Some ip \<Rightarrow>
     andthen (iunlockput ip s) (\<lambda>_ s.
     andthen (end_op s) (\<lambda>_ s. Ok 0 s)))))))"

definition sys_chdir :: "'z fdstate_scheme devread \<Rightarrow> 'z fdstate_scheme \<Rightarrow> (int, 'z fdstate_scheme) res" where
  "sys_chdir dr s =
     andthen (the_proc s) (\<lambda>p s.
     andthen (begin_op s) (\<lambda>_ s.
     andthen (argstr 0 s) (\<lambda>path s. case path of None \<Rightarrow> fail_op s | Some path \<Rightarrow>
     andthen (namei dr path s) (\<lambda>ip s. case ip of None \<Rightarrow> fail_op s | Some ip \<Rightarrow>
     andthen (ilock ip s) (\<lambda>_ s.
     if i_type (icache s ip) \<noteq> T_DIR then andthen (iunlockput ip s) (\<lambda>_ s. fail_op s)
     else
       andthen (iunlock ip s) (\<lambda>_ s.
       case p_cwd (procs s p) of
         None \<Rightarrow> Panic ''null cwd''
       | Some cwd \<Rightarrow>
           andthen (iput cwd s) (\<lambda>_ s.
           andthen (end_op s) (\<lambda>_ s.
           Ok 0 (upd_proc p (\<lambda>r. r\<lparr>p_cwd := Some ip\<rparr>) s)))))))))"

text \<open>The loop of \<open>exec\<close>'s wrapper: \<open>k\<close> more entries of \<open>argv\<close> may be filled.\<close>

fun fetch_argv :: "nat \<Rightarrow> u32 \<Rightarrow> u8 list list \<Rightarrow> 'z vstate_scheme \<Rightarrow> (u8 list list option, 'z vstate_scheme) res" where
  "fetch_argv 0 uargv argv s = Ok None s"
| "fetch_argv (Suc k) uargv argv s =
     andthen (fetchint uargv s) (\<lambda>uarg s. case uarg of None \<Rightarrow> Ok None s | Some uarg \<Rightarrow>
     if uarg = 0 then Ok (Some argv) s
     else
       andthen (fetchstr uarg s) (\<lambda>a s. case a of None \<Rightarrow> Ok None s | Some a \<Rightarrow>
       fetch_argv k (uargv + 4) (argv @ [a]) s))"

definition sys_exec :: "'z fdstate_scheme devread \<Rightarrow> ('z fdstate_scheme \<Rightarrow> (unit, 'z fdstate_scheme) res) \<Rightarrow>
    'z fdstate_scheme \<Rightarrow> (int, 'z fdstate_scheme) res" where
  "sys_exec dr fail s =
     andthen (argstr 0 s) (\<lambda>path s. case path of None \<Rightarrow> Ok (- 1) s | Some path \<Rightarrow>
     andthen (argint 1 s) (\<lambda>uargv s. case uargv of None \<Rightarrow> Ok (- 1) s | Some uargv \<Rightarrow>
     andthen (fetch_argv MAXARG uargv [] s) (\<lambda>argv s. case argv of None \<Rightarrow> Ok (- 1) s | Some argv \<Rightarrow>
     exec dr fail path argv s)))"

definition sys_pipe :: "'z fdstate_scheme \<Rightarrow> (int, 'z fdstate_scheme) res" where
  "sys_pipe s =
     andthen (argptr 0 8 s) (\<lambda>fd s. case fd of None \<Rightarrow> Ok (- 1) s | Some fd \<Rightarrow>
     andthen (pipealloc s) (\<lambda>r s. case r of None \<Rightarrow> Ok (- 1) s | Some (rf, wrf) \<Rightarrow>
     let bad = (\<lambda>s. andthen (fileclose rf s) (\<lambda>_ s. andthen (fileclose wrf s) (\<lambda>_ s. Ok (- 1) s)))
     in andthen (fdalloc rf s) (\<lambda>fd0 s. case fd0 of None \<Rightarrow> bad s | Some fd0 \<Rightarrow>
        andthen (fdalloc wrf s) (\<lambda>fd1 s. case fd1 of
          None \<Rightarrow>
            andthen (the_proc s) (\<lambda>p s. bad (upd_proc p (\<lambda>r. r\<lparr>p_ofile := (p_ofile r)(fd0 := None)\<rparr>) s))
        | Some fd1 \<Rightarrow>
            andthen (ustore fd (enc32 fd0) s) (\<lambda>_ s.
            andthen (ustore (fd + 4) (enc32 fd1) s) (\<lambda>_ s. Ok 0 s))))))"

end
