(* ===== verification/Proc.thy ===== *)
theory Proc
  imports Sysfile
begin

text \<open>
  The rest of \<open>proc.c\<close>: creating, growing, ending and waiting for processes, \<open>kill\<close> and the scheduler.
  The trap frame and the saved context of a process, which the code keeps on its kernel stack, are
  fields of its record; the return address \<open>trapret\<close> is stored on the stack itself. The addresses
  of \<open>forkret\<close> and \<open>trapret\<close> are fields of the state. One pass of the scheduler's loop over the
  process table ends with a switch to a process (\<open>Swtch\<close>) or with the lock released.
\<close>

record prstate = fdstate +
  sym_forkret :: u32
  sym_trapret :: u32
  forkret_first :: bool

definition FL_IF :: u32 where "FL_IF = 0x200"

text \<open>The size of \<open>struct trapframe\<close> and of \<open>struct context\<close>.\<close>

definition TF_SIZE :: u32 where "TF_SIZE = 76"
definition CONTEXT_SIZE :: u32 where "CONTEXT_SIZE = 20"

definition pinit :: "'z kstate_scheme \<Rightarrow> 'z kstate_scheme" where
  "pinit s = initlock PtableLock ''ptable'' s"

section \<open>Creating processes\<close>

text \<open>The increment of the counter \<open>nextpid\<close>, an \<open>int\<close> of 32 bits, with the wrap-around of the machine.\<close>

definition pid_inc :: "int \<Rightarrow> int" where
  "pid_inc n = sint (word_of_int (n + 1) :: u32)"

definition allocproc :: "'z prstate_scheme \<Rightarrow> (nat option, 'z prstate_scheme) res" where
  "allocproc s =
     andthen (acquire PtableLock s) (\<lambda>_ s.
     case find (\<lambda>p. p_state (procs s p) = UNUSED) [0..<NPROC] of
       None \<Rightarrow> andthen (release PtableLock s) (\<lambda>_ s. Ok None s)
     | Some p \<Rightarrow>
         let s = upd_proc p (\<lambda>r. r\<lparr>p_state := EMBRYO, p_pid := nextpid s\<rparr>) s;
             s = s\<lparr>nextpid := pid_inc (nextpid s)\<rparr>
         in andthen (release PtableLock s) (\<lambda>_ s.
            andthen (kalloc s) (\<lambda>k s.
            let s = upd_proc p (\<lambda>r. r\<lparr>p_kstack := k\<rparr>) s
            in if k = 0 then Ok None (upd_proc p (\<lambda>r. r\<lparr>p_state := UNUSED\<rparr>) s)
               else
                 let sp = k + of_nat KSTACKSIZE - TF_SIZE - 4;
                     s = store sp (sym_trapret s) s;
                     s = upd_proc p (\<lambda>r. r\<lparr>p_context := zero_context\<lparr>cx_eip := sym_forkret s\<rparr>\<rparr>) s
                 in Ok (Some p) s)))"

definition user_tf :: trapframe where
  "user_tf = zero_tf\<lparr>tf_cs := of_nat (SEG_UCODE * 8) OR ucast DPL_USER, tf_ds := of_nat (SEG_UDATA * 8) OR ucast DPL_USER,
     tf_es := of_nat (SEG_UDATA * 8) OR ucast DPL_USER, tf_ss := of_nat (SEG_UDATA * 8) OR ucast DPL_USER,
     tf_eflags := FL_IF, tf_esp := PGSIZE, tf_eip := 0\<rparr>"

definition set_runnable :: "nat \<Rightarrow> 'z kstate_scheme \<Rightarrow> (unit, 'z kstate_scheme) res" where
  "set_runnable p s =
     andthen (acquire PtableLock s) (\<lambda>_ s. release PtableLock (upd_proc p (\<lambda>r. r\<lparr>p_state := RUNNABLE\<rparr>) s))"

definition userinit :: "'z prstate_scheme devread \<Rightarrow> u8 list \<Rightarrow> 'z prstate_scheme \<Rightarrow> (unit, 'z prstate_scheme) res" where
  "userinit dr initcode s =
     andthen (allocproc s) (\<lambda>p s.
     let s = s\<lparr>initproc := p\<rparr>
     in case p of
       None \<Rightarrow> Panic ''null proc''
     | Some p \<Rightarrow>
         andthen (setupkvm s) (\<lambda>d s.
         if d = 0 then Panic ''userinit: out of memory?''
         else
           andthen (inituvm d initcode (upd_proc p (\<lambda>r. r\<lparr>p_pgdir := d\<rparr>) s)) (\<lambda>_ s.
           let s = upd_proc p (\<lambda>r. r\<lparr>p_sz := PGSIZE, p_tf := user_tf, p_name := ''initcode''\<rparr>) s
           in andthen (namei dr [slash] s) (\<lambda>cwd s.
              set_runnable p (upd_proc p (\<lambda>r. r\<lparr>p_cwd := cwd\<rparr>) s)))))"

definition growproc :: "int \<Rightarrow> 'z vstate_scheme \<Rightarrow> (int, 'z vstate_scheme) res" where
  "growproc n s =
     andthen (the_proc s) (\<lambda>p s.
     let sz = p_sz (procs s p); pgdir = p_pgdir (procs s p)
     in andthen (if n > 0 then allocuvm pgdir sz (sz + of_int n) s
                 else if n < 0 then deallocuvm pgdir sz (sz + of_int n) s
                 else Ok sz s) (\<lambda>sz s.
        if n \<noteq> 0 \<and> sz = 0 then Ok (- 1) s
        else
          andthen (switchuvm (Some p) (upd_proc p (\<lambda>r. r\<lparr>p_sz := sz\<rparr>) s)) (\<lambda>_ s. Ok 0 s)))"

text \<open>Duplicating the open files \<open>fds\<close> of \<open>p\<close> for \<open>np\<close>.\<close>

definition dup_fd :: "nat \<Rightarrow> nat \<Rightarrow> nat \<Rightarrow> 'z fdstate_scheme \<Rightarrow> (unit, 'z fdstate_scheme) res" where
  "dup_fd p np i s =
     (case p_ofile (procs s p) i of
        None \<Rightarrow> Ok () s
      | Some f \<Rightarrow>
          andthen (filedup f s) (\<lambda>f s. Ok () (upd_proc np (\<lambda>r. r\<lparr>p_ofile := (p_ofile r)(i := Some f)\<rparr>) s)))"

definition fork :: "'z prstate_scheme \<Rightarrow> (int, 'z prstate_scheme) res" where
  "fork s =
     andthen (the_proc s) (\<lambda>p s.
     andthen (allocproc s) (\<lambda>np s.
     case np of
       None \<Rightarrow> Ok (- 1) s
     | Some np \<Rightarrow>
         andthen (copyuvm (p_pgdir (procs s p)) (p_sz (procs s p)) s) (\<lambda>d s.
         let s = upd_proc np (\<lambda>r. r\<lparr>p_pgdir := d\<rparr>) s
         in if d = 0 then
              andthen (kfree (p_kstack (procs s np)) s) (\<lambda>_ s.
              Ok (- 1) (upd_proc np (\<lambda>r. r\<lparr>p_kstack := 0, p_state := UNUSED\<rparr>) s))
            else
              let s = upd_proc np (\<lambda>r. r\<lparr>p_sz := p_sz (procs s p), p_parent := Some p,
                        p_tf := (p_tf (procs s p))\<lparr>tf_eax := 0\<rparr>\<rparr>) s
              in andthen (foreach (dup_fd p np) [0..<NOFILE] s) (\<lambda>_ s.
                 case p_cwd (procs s p) of
                   None \<Rightarrow> Panic ''null cwd''
                 | Some cwd \<Rightarrow>
                     andthen (idup cwd s) (\<lambda>cwd s.
                     let s = upd_proc np (\<lambda>r. r\<lparr>p_cwd := Some cwd, p_name := p_name (procs s p)\<rparr>) s;
                         pid = p_pid (procs s np)
                     in andthen (set_runnable np s) (\<lambda>_ s. Ok pid s))))))"

section \<open>Ending processes\<close>

definition close_fd :: "nat \<Rightarrow> nat \<Rightarrow> 'z fdstate_scheme \<Rightarrow> (unit, 'z fdstate_scheme) res" where
  "close_fd p fd s =
     (case p_ofile (procs s p) fd of
        None \<Rightarrow> Ok () s
      | Some f \<Rightarrow>
          andthen (fileclose f s) (\<lambda>_ s. Ok () (upd_proc p (\<lambda>r. r\<lparr>p_ofile := (p_ofile r)(fd := None)\<rparr>) s)))"

definition wakeup_proc :: "nat option \<Rightarrow> 'z kstate_scheme \<Rightarrow> 'z kstate_scheme" where
  "wakeup_proc p s = (case p of None \<Rightarrow> s | Some p \<Rightarrow> wakeup1 (ChanProc p) s)"

text \<open>Passing a child \<open>q\<close> of \<open>p\<close> on to the init process.\<close>

definition reparent :: "nat \<Rightarrow> nat \<Rightarrow> 'z kstate_scheme \<Rightarrow> 'z kstate_scheme" where
  "reparent p q s =
     (if p_parent (procs s q) = Some p then
        let s = upd_proc q (\<lambda>r. r\<lparr>p_parent := initproc s\<rparr>) s
        in if p_state (procs s q) = ZOMBIE then wakeup_proc (initproc s) s else s
      else s)"

text \<open>The part of \<open>exit\<close> under the lock of the process table, up to the switch.\<close>

definition exit_locked :: "nat \<Rightarrow> 'z kstate_scheme \<Rightarrow> (unit, 'z kstate_scheme) res" where
  "exit_locked p s =
     (let s = wakeup_proc (p_parent (procs s p)) s;
          s = fold (reparent p) [0..<NPROC] s;
          s = upd_proc p (\<lambda>r. r\<lparr>p_state := ZOMBIE\<rparr>) s
      in andthen (sched s) (\<lambda>_ s. Panic ''zombie exit''))"

definition exit :: "'z fdstate_scheme \<Rightarrow> (unit, 'z fdstate_scheme) res" where
  "exit s =
     andthen (the_proc s) (\<lambda>p s.
     if initproc s = Some p then Panic ''init exiting''
     else
       andthen (foreach (close_fd p) [0..<NOFILE] s) (\<lambda>_ s.
       andthen (begin_op s) (\<lambda>_ s.
       case p_cwd (procs s p) of
         None \<Rightarrow> Panic ''null cwd''
       | Some cwd \<Rightarrow>
           andthen (iput cwd s) (\<lambda>_ s.
           andthen (end_op s) (\<lambda>_ s.
           andthen (acquire PtableLock (upd_proc p (\<lambda>r. r\<lparr>p_cwd := None\<rparr>) s)) (\<lambda>_ s.
           exit_locked p s))))))"

definition wait_loop :: "nat \<Rightarrow> 'z mstate_scheme \<Rightarrow> (int, 'z mstate_scheme) res" where
  "wait_loop p s =
     (case find (\<lambda>q. p_parent (procs s q) = Some p \<and> p_state (procs s q) = ZOMBIE) [0..<NPROC] of
        Some q \<Rightarrow>
          let pid = p_pid (procs s q)
          in andthen (kfree (p_kstack (procs s q)) s) (\<lambda>_ s.
             andthen (freevm (p_pgdir (procs s q)) (upd_proc q (\<lambda>r. r\<lparr>p_kstack := 0\<rparr>) s)) (\<lambda>_ s.
             let s = upd_proc q (\<lambda>r. r\<lparr>p_pid := 0, p_parent := None, p_name := [], p_killed := False, p_state := UNUSED\<rparr>) s
             in andthen (release PtableLock s) (\<lambda>_ s. Ok pid s)))
      | None \<Rightarrow>
          if \<not> (\<exists>q\<in>set [0..<NPROC]. p_parent (procs s q) = Some p) \<or> p_killed (procs s p)
          then andthen (release PtableLock s) (\<lambda>_ s. Ok (- 1) s)
          else andthen (sleep (ChanProc p) PtableLock s) (\<lambda>_ s. Panic ''sleep returned''))"

definition wait :: "'z mstate_scheme \<Rightarrow> (int, 'z mstate_scheme) res" where
  "wait s = andthen (the_proc s) (\<lambda>p s. andthen (acquire PtableLock s) (\<lambda>_ s. wait_loop p s))"

definition wait_resume :: "nat \<Rightarrow> bool \<Rightarrow> 'z mstate_scheme \<Rightarrow> (int, 'z mstate_scheme) res" where
  "wait_resume p intena s = andthen (sleep_return p PtableLock intena s) (\<lambda>_ s. wait_loop p s)"

definition kill :: "int \<Rightarrow> 'z kstate_scheme \<Rightarrow> (int, 'z kstate_scheme) res" where
  "kill pid s =
     andthen (acquire PtableLock s) (\<lambda>_ s.
     case find (\<lambda>p. p_pid (procs s p) = pid) [0..<NPROC] of
       None \<Rightarrow> andthen (release PtableLock s) (\<lambda>_ s. Ok (- 1) s)
     | Some p \<Rightarrow>
         let s = upd_proc p (\<lambda>r. r\<lparr>p_killed := True\<rparr>) s;
             s = (if p_state (procs s p) = SLEEPING then upd_proc p (\<lambda>r. r\<lparr>p_state := RUNNABLE\<rparr>) s else s)
         in andthen (release PtableLock s) (\<lambda>_ s. Ok 0 s))"

section \<open>Scheduling\<close>

text \<open>The loop over the process table from entry \<open>i\<close>, on CPU \<open>c\<close>.\<close>

definition scheduler_scan :: "nat \<Rightarrow> nat \<Rightarrow> 'z vstate_scheme \<Rightarrow> (unit, 'z vstate_scheme) res" where
  "scheduler_scan c i s =
     (case find (\<lambda>p. p_state (procs s p) = RUNNABLE) [i..<NPROC] of
        None \<Rightarrow> release PtableLock s
      | Some p \<Rightarrow>
          andthen (switchuvm (Some p) (upd_cpu c (\<lambda>r. r\<lparr>c_proc := Some p\<rparr>) s)) (\<lambda>_ s.
          Swtch (upd_proc p (\<lambda>r. r\<lparr>p_state := RUNNING\<rparr>) s)))"

text \<open>The endless loop: enabling interrupts, taking the lock and scanning from the start.\<close>

definition scheduler_pass :: "nat \<Rightarrow> 'z vstate_scheme \<Rightarrow> (unit, 'z vstate_scheme) res" where
  "scheduler_pass c s = andthen (acquire PtableLock (set_if True s)) (\<lambda>_ s. scheduler_scan c 0 s)"

definition scheduler :: "'z vstate_scheme \<Rightarrow> (unit, 'z vstate_scheme) res" where
  "scheduler s =
     andthen (mycpu s) (\<lambda>c s. scheduler_pass c (upd_cpu c (\<lambda>r. r\<lparr>c_proc := None\<rparr>) s))"

text \<open>What the scheduler does when process \<open>p\<close> switches back to it.\<close>

definition scheduler_resume :: "nat \<Rightarrow> nat \<Rightarrow> 'z vstate_scheme \<Rightarrow> (unit, 'z vstate_scheme) res" where
  "scheduler_resume c p s =
     scheduler_scan c (Suc p) (upd_cpu c (\<lambda>r. r\<lparr>c_proc := None\<rparr>) (switchkvm s))"

text \<open>The first code of a new process: it gives back the lock, and the first one starts the file system.\<close>

definition forkret :: "'z prstate_scheme \<Rightarrow> (unit, 'z prstate_scheme) res" where
  "forkret s =
     andthen (release PtableLock s) (\<lambda>_ s.
     if forkret_first s then
       andthen (iinit ROOTDEV (s\<lparr>forkret_first := False\<rparr>)) (\<lambda>_ s. initlog ROOTDEV s)
     else Ok () s)"

end
