(* ===== verification/Devices.thy ===== *)
theory Devices
  imports Proc
begin

text \<open>
  The devices of the console: the I/O interrupt controller (\<open>ioapic.c\<close>), the serial port
  (\<open>uart.c\<close>) and the keyboard (\<open>kbd.c\<close>, \<open>kbd.h\<close>). A device is what the code can see of it:
  the registers of the interrupt controller, the bytes sent to the serial port and the bytes the
  serial port and the keyboard have to deliver, oldest first. The delay loop of \<open>uartputc\<close>, which
  waits for the transmitter at most 128 times, changes nothing else.
\<close>

section \<open>State\<close>

record dstate = prstate +
  ioapic_regs :: "nat \<Rightarrow> u32"
  uart :: bool
  uart_out :: "u8 list"
  uart_in :: "u8 list"
  kbd_in :: "u8 list"
  kbd_shift :: u32

section \<open>I/O interrupt controller\<close>

definition REG_ID :: nat where "REG_ID = 0"
definition REG_VER :: nat where "REG_VER = 1"
definition REG_TABLE :: nat where "REG_TABLE = 0x10"
definition INT_DISABLED :: u32 where "INT_DISABLED = 0x00010000"

definition T_SYSCALL :: u32 where "T_SYSCALL = 64"
definition T_IRQ0 :: u32 where "T_IRQ0 = 32"
definition IRQ_TIMER :: u32 where "IRQ_TIMER = 0"
definition IRQ_KBD :: u32 where "IRQ_KBD = 1"
definition IRQ_COM1 :: u32 where "IRQ_COM1 = 4"
definition IRQ_IDE :: u32 where "IRQ_IDE = 14"
definition IRQ_ERROR :: u32 where "IRQ_ERROR = 19"
definition IRQ_SPURIOUS :: u32 where "IRQ_SPURIOUS = 31"

lemmas irq_defs = T_SYSCALL_def T_IRQ0_def IRQ_TIMER_def IRQ_KBD_def IRQ_COM1_def IRQ_IDE_def
  IRQ_ERROR_def IRQ_SPURIOUS_def

definition ioapicread :: "nat \<Rightarrow> 'z dstate_scheme \<Rightarrow> u32" where
  "ioapicread reg s = ioapic_regs s reg"

definition ioapicwrite :: "nat \<Rightarrow> u32 \<Rightarrow> 'z dstate_scheme \<Rightarrow> 'z dstate_scheme" where
  "ioapicwrite reg data s = s\<lparr>ioapic_regs := (ioapic_regs s)(reg := data)\<rparr>"

definition ioapicenable :: "u32 \<Rightarrow> u32 \<Rightarrow> 'z dstate_scheme \<Rightarrow> 'z dstate_scheme" where
  "ioapicenable irq cpunum s =
     ioapicwrite (REG_TABLE + 2 * unat irq + 1) (push_bit 24 cpunum)
       (ioapicwrite (REG_TABLE + 2 * unat irq) (T_IRQ0 + irq) s)"

section \<open>Serial port\<close>

definition uartputc :: "int \<Rightarrow> 'z dstate_scheme \<Rightarrow> 'z dstate_scheme" where
  "uartputc c s = (if \<not> uart s then s else s\<lparr>uart_out := uart_out s @ [word_of_int c]\<rparr>)"

text \<open>
  \<open>status\<close> is the byte the line status register gives. The writes that set the line up have no
  effect the kernel can see. Reading the receive register drops a byte that was waiting.
\<close>

definition xv6_banner :: string where "xv6_banner = ''xv6...'' @ [CHR 0x0A]"

definition uartinit :: "u8 \<Rightarrow> 'z dstate_scheme \<Rightarrow> 'z dstate_scheme" where
  "uartinit status s =
     (if status = 0xFF then s
      else fold (\<lambda>c. uartputc (of_char c)) xv6_banner
             (ioapicenable IRQ_COM1 0 (s\<lparr>uart := True, uart_in := drop 1 (uart_in s)\<rparr>)))"

definition uartgetc :: "'z dstate_scheme \<Rightarrow> int \<times> 'z dstate_scheme" where
  "uartgetc s =
     (if \<not> uart s then (-1, s)
      else case uart_in s of [] \<Rightarrow> (-1, s) | b # bs \<Rightarrow> (uint b, s\<lparr>uart_in := bs\<rparr>))"

section \<open>Keyboard\<close>

definition SHIFT :: u32 where "SHIFT = 1"
definition CTL :: u32 where "CTL = 2"
definition ALT :: u32 where "ALT = 4"
definition CAPSLOCK :: u32 where "CAPSLOCK = 8"
definition NUMLOCK :: u32 where "NUMLOCK = 16"
definition SCROLLLOCK :: u32 where "SCROLLLOCK = 32"
definition E0ESC :: u32 where "E0ESC = 64"

lemmas kbd_defs = SHIFT_def CTL_def ALT_def CAPSLOCK_def NUMLOCK_def SCROLLLOCK_def E0ESC_def

text \<open>A table with designated initialisers: a prefix, then single entries, zero elsewhere.\<close>

definition table :: "u32 list \<Rightarrow> (nat \<times> u32) list \<Rightarrow> nat \<Rightarrow> u32" where
  "table pre ents i =
     (case map_of ents i of Some v \<Rightarrow> v | None \<Rightarrow> if i < length pre then pre ! i else 0)"

definition shiftcode :: "nat \<Rightarrow> u32" where
  "shiftcode = table [] [(0x1D, CTL), (0x2A, SHIFT), (0x36, SHIFT), (0x38, ALT), (0x9D, CTL), (0xB8, ALT)]"

definition togglecode :: "nat \<Rightarrow> u32" where
  "togglecode = table [] [(0x3A, CAPSLOCK), (0x45, NUMLOCK), (0x46, SCROLLLOCK)]"

definition chars :: "string \<Rightarrow> u32 list" where "chars = map of_char"

text \<open>The keys the three maps share: the cursor keys.\<close>

definition cursor_keys :: "(nat \<times> u32) list" where
  "cursor_keys = [(0xC8, 0xE2), (0xD0, 0xE3), (0xC9, 0xE6), (0xD1, 0xE7), (0xCB, 0xE4), (0xCD, 0xE5),
     (0x97, 0xE0), (0xCF, 0xE1), (0xD2, 0xE8), (0xD3, 0xE9)]"

definition normalmap :: "nat \<Rightarrow> u32" where
  "normalmap = table
     ([0, 0x1B] @ chars ''123456'' @
      chars ''7890-='' @ [8, 9] @
      chars ''qwertyui'' @
      chars ''op[]'' @ [10, 0] @ chars ''as'' @
      chars ''dfghjkl;'' @
      [39, 96, 0, 92] @ chars ''zxcv'' @
      chars ''bnm,./'' @ [0] @ chars ''*'' @
      [0, 32, 0, 0, 0, 0, 0, 0] @
      [0, 0, 0, 0, 0, 0, 0] @ chars ''7'' @
      chars ''89-456+1'' @
      chars ''230.'' @ [0, 0, 0, 0])
     ([(0x9C, 10), (0xB5, 47)] @ cursor_keys)"

definition shiftmap :: "nat \<Rightarrow> u32" where
  "shiftmap = table
     ([0, 27] @ chars ''!@#$%^'' @
      chars ''&*()_+'' @ [8, 9] @
      chars ''QWERTYUI'' @
      chars ''OP{}'' @ [10, 0] @ chars ''AS'' @
      chars ''DFGHJKL:'' @
      [34, 126, 0, 124] @ chars ''ZXCV'' @
      chars ''BNM<>?'' @ [0] @ chars ''*'' @
      [0, 32, 0, 0, 0, 0, 0, 0] @
      [0, 0, 0, 0, 0, 0, 0] @ chars ''7'' @
      chars ''89-456+1'' @
      chars ''230.'' @ [0, 0, 0, 0])
     ([(0x9C, 10), (0xB5, 47)] @ cursor_keys)"

text \<open>The macro \<open>C\<close> for a control character, kept in an unsigned byte.\<close>

definition ctl_byte :: "char \<Rightarrow> u32" where "ctl_byte c = (of_char c - 64) AND 0xff"

definition ctls :: "string \<Rightarrow> u32 list" where "ctls = map ctl_byte"

definition ctlmap :: "nat \<Rightarrow> u32" where
  "ctlmap = table
     (replicate 16 0 @
      ctls ''QWERTYUI'' @
      ctls ''OP'' @ [0, 0, 13, 0] @ ctls ''AS'' @
      ctls ''DFGHJKL'' @ [0] @
      [0, 0, 0, ctl_byte CHR 0x5C] @ ctls ''ZXCV'' @
      ctls ''BNM'' @ [0, 0, ctl_byte CHR 0x2F, 0, 0])
     ([(0x9C, 13), (0xB5, ctl_byte CHR 0x2F)] @ cursor_keys)"

definition charcode :: "nat \<Rightarrow> nat \<Rightarrow> u32" where
  "charcode k = (if k = 0 then normalmap else if k = 1 then shiftmap else ctlmap)"

definition caps :: "u32 \<Rightarrow> u32" where
  "caps c = (if 97 \<le> c \<and> c \<le> 122 then c + (65 - 97) else if 65 \<le> c \<and> c \<le> 90 then c + (97 - 65) else c)"

text \<open>
  One scan code: the character (0 for none) and the new shift state.
\<close>

definition kbd_code :: "u32 \<Rightarrow> u32 \<Rightarrow> u32 \<times> u32" where
  "kbd_code shift data =
     (if data = 0xE0 then (0, shift OR E0ESC)
      else if data AND 0x80 \<noteq> 0 then
        let data = (if shift AND E0ESC \<noteq> 0 then data else data AND 0x7F)
        in (0, shift AND NOT (shiftcode (unat data) OR E0ESC))
      else
        let esc = (shift AND E0ESC \<noteq> 0);
            data = (if esc then data OR 0x80 else data);
            shift = (if esc then shift AND NOT E0ESC else shift);
            shift = shift OR shiftcode (unat data);
            shift = shift XOR togglecode (unat data);
            c = charcode (unat (shift AND (CTL OR SHIFT))) (unat data)
        in (if shift AND CAPSLOCK \<noteq> 0 then caps c else c, shift))"

definition kbdgetc :: "'z dstate_scheme \<Rightarrow> int \<times> 'z dstate_scheme" where
  "kbdgetc s =
     (case kbd_in s of [] \<Rightarrow> (-1, s)
      | b # bs \<Rightarrow>
          let (c, shift) = kbd_code (kbd_shift s) (ucast b)
          in (sint c, s\<lparr>kbd_in := bs, kbd_shift := shift\<rparr>))"

end
