(* ===== verification/Console.thy ===== *)
theory Console
  imports Devices
begin

text \<open>
  The console (\<open>console.c\<close>): formatted output to the screen and the serial port, the line
  editing of typed input and the read and write functions of the console device; with
  \<open>ioapicinit\<close>, \<open>procdump\<close> and \<open>getcallerpcs\<close>, which print or serve printing. The screen memory
  \<open>crt\<close> and the cursor registers are fields of the state, since the region at physical address
  \<open>0xb8000\<close> holds no page of the allocator. An argument of \<open>cprintf\<close> is a number or a string; an
  argument of the wrong kind, or one that is missing, has no meaning in C and is
  \<open>Panic ''bad argument''\<close>.
\<close>

section \<open>State\<close>

record cstate = dstate +
  cons_locking :: bool
  panicked :: bool
  crt :: "nat \<Rightarrow> u16"
  crt_pos :: u16
  input_buf :: "nat \<Rightarrow> u8"
  input_r :: u32
  input_w :: u32
  input_e :: u32

section \<open>Output\<close>

definition BACKSPACE :: int where "BACKSPACE = 0x100"

text \<open>The new position and screen after writing \<open>c\<close> and before scrolling.\<close>

definition cga_write :: "int \<Rightarrow> nat \<Rightarrow> (nat \<Rightarrow> u16) \<Rightarrow> nat \<times> (nat \<Rightarrow> u16)" where
  "cga_write c pos scr =
     (if c = 10 then (pos + (80 - pos mod 80), scr)
      else if c = BACKSPACE then (if pos > 0 then pos - 1 else pos, scr)
      else (pos + 1, scr(pos := (word_of_int c AND 0xff) OR 0x0700)))"

definition cga_scroll :: "nat \<Rightarrow> (nat \<Rightarrow> u16) \<Rightarrow> nat \<times> (nat \<Rightarrow> u16)" where
  "cga_scroll pos scr =
     (if pos div 80 \<ge> 24 then
        let scr = (\<lambda>i. if i < 23 * 80 then scr (i + 80) else scr i);
            pos = pos - 80
        in (pos, \<lambda>i. if pos \<le> i \<and> i < 24 * 80 then 0 else scr i)
      else (pos, scr))"

definition cgaputc :: "int \<Rightarrow> 'z cstate_scheme \<Rightarrow> (unit, 'z cstate_scheme) res" where
  "cgaputc c s =
     (let (pos, scr) = cga_write c (unat (crt_pos s)) (crt s)
      in if pos > 25 * 80 then Panic ''pos under/overflow''
         else
           let (pos, scr) = cga_scroll pos scr
           in Ok () (s\<lparr>crt_pos := of_nat pos, crt := scr(pos := 32 OR 0x0700)\<rparr>))"

definition consputc :: "int \<Rightarrow> 'z cstate_scheme \<Rightarrow> (unit, 'z cstate_scheme) res" where
  "consputc c s =
     (if panicked s then Spin
      else if c = BACKSPACE then cgaputc c (uartputc 8 (uartputc 32 (uartputc 8 s)))
      else cgaputc c (uartputc c s))"

text \<open>The digits of \<open>x\<close>, the least significant first.\<close>

definition digits :: string where "digits = ''0123456789abcdef''"

function print_digits :: "nat \<Rightarrow> nat \<Rightarrow> string" where
  "print_digits base x =
     (if base < 2 then []
      else digits ! (x mod base) # (if x div base = 0 then [] else print_digits base (x div base)))"
  by auto
termination
  by (relation "measure snd") (auto intro!: div_less_dividend gr0I)

declare print_digits.simps [simp del]

text \<open>
  The characters \<open>printint\<close> puts out: the digits of \<open>xx\<close>, or of \<open>-xx\<close> in 32 bits after a sign.
\<close>

definition int_chars :: "u32 \<Rightarrow> nat \<Rightarrow> bool \<Rightarrow> string" where
  "int_chars xx base sign =
     (let neg = (sign \<and> sint xx < 0);
          x = (if neg then - xx else xx)
      in rev (print_digits base (unat x) @ (if neg then ''-'' else [])))"

definition printint :: "u32 \<Rightarrow> nat \<Rightarrow> bool \<Rightarrow> 'z cstate_scheme \<Rightarrow> (unit, 'z cstate_scheme) res" where
  "printint xx base sign = foreach (\<lambda>c. consputc (of_char c)) (int_chars xx base sign)"

datatype carg = CNum u32 | CStr "string option"

definition char_int :: "char \<Rightarrow> int" where "char_int c = sint (of_char c :: u8)"

definition puts :: "string \<Rightarrow> 'z cstate_scheme \<Rightarrow> (unit, 'z cstate_scheme) res" where
  "puts str = foreach (\<lambda>c. consputc (char_int c)) str"

text \<open>The conversion for the character \<open>d\<close> after a percent sign; it returns the arguments left.\<close>

definition cprintf_conv :: "char \<Rightarrow> carg list \<Rightarrow> 'z cstate_scheme \<Rightarrow> (carg list, 'z cstate_scheme) res" where
  "cprintf_conv d args s =
     (if d = CHR ''d'' then
        (case args of CNum w # args \<Rightarrow> andthen (printint w 10 True s) (\<lambda>_ s. Ok args s) | _ \<Rightarrow> Panic ''bad argument'')
      else if d = CHR ''x'' \<or> d = CHR ''p'' then
        (case args of CNum w # args \<Rightarrow> andthen (printint w 16 False s) (\<lambda>_ s. Ok args s) | _ \<Rightarrow> Panic ''bad argument'')
      else if d = CHR ''s'' then
        (case args of
           CStr str # args \<Rightarrow> andthen (puts (case str of None \<Rightarrow> ''(null)'' | Some str \<Rightarrow> str) s) (\<lambda>_ s. Ok args s)
         | _ \<Rightarrow> Panic ''bad argument'')
      else if d = CHR ''%'' then andthen (consputc (of_char CHR ''%'') s) (\<lambda>_ s. Ok args s)
      else
        andthen (consputc (of_char CHR ''%'') s) (\<lambda>_ s.
        andthen (consputc (of_char d) s) (\<lambda>_ s. Ok args s)))"

text \<open>The loop of \<open>cprintf\<close> over the rest of the format.\<close>

fun cprintf_loop :: "string \<Rightarrow> carg list \<Rightarrow> 'z cstate_scheme \<Rightarrow> (unit, 'z cstate_scheme) res" where
  "cprintf_loop [] args s = Ok () s"
| "cprintf_loop (c # fmt) args s =
     (if c \<noteq> CHR ''%'' then andthen (consputc (of_char c) s) (\<lambda>_ s. cprintf_loop fmt args s)
      else case fmt of [] \<Rightarrow> Ok () s
      | d # fmt \<Rightarrow> andthen (cprintf_conv d args s) (\<lambda>args s. cprintf_loop fmt args s))"

definition cprintf :: "string option \<Rightarrow> carg list \<Rightarrow> 'z cstate_scheme \<Rightarrow> (unit, 'z cstate_scheme) res" where
  "cprintf fmt args s =
     (let locking = cons_locking s
      in andthen (if locking then acquire ConsLock s else Ok () s) (\<lambda>_ s.
         case fmt of None \<Rightarrow> Panic ''null fmt''
         | Some fmt \<Rightarrow>
           andthen (cprintf_loop fmt args s) (\<lambda>_ s.
           if locking then release ConsLock s else Ok () s)))"

definition newline :: string where "newline = [CHR 0x0A]"

text \<open>The walk over the saved frame pointers, ten program counters with zeros at the end.\<close>

fun caller_pcs :: "mem \<Rightarrow> nat \<Rightarrow> u32 \<Rightarrow> u32 list" where
  "caller_pcs m 0 ebp = []"
| "caller_pcs m (Suc n) ebp =
     (if ebp = 0 \<or> ebp < KERNBASE \<or> ebp = 0xffffffff then replicate (Suc n) 0
      else ld32 m (ebp + 4) # caller_pcs m n (ld32 m ebp))"

definition getcallerpcs :: "u32 \<Rightarrow> 'z mstate_scheme \<Rightarrow> u32 list" where
  "getcallerpcs v s = caller_pcs (kram s) 10 (v - 8)"

text \<open>
  \<open>panic\<close> up to its endless loop: the state the CPU stays in. \<open>v\<close> is the address of its argument
  on the stack.
\<close>

definition panic :: "string \<Rightarrow> u32 \<Rightarrow> 'z cstate_scheme \<Rightarrow> (unit, 'z cstate_scheme) res" where
  "panic msg v s =
     andthen (cprintf (Some ''lapicid %d: panic: '') [CNum (of_nat (lapic_id s))]
        (set_if False s\<lparr>cons_locking := False\<rparr>)) (\<lambda>_ s.
     andthen (cprintf (Some msg) [] s) (\<lambda>_ s.
     andthen (cprintf (Some newline) [] s) (\<lambda>_ s.
     andthen (foreach (\<lambda>pc. cprintf (Some '' %p'') [CNum pc]) (getcallerpcs v s) s) (\<lambda>_ s.
     Ok () (s\<lparr>panicked := True\<rparr>)))))"

text \<open>\<open>ioapicid\<close> is what \<open>mpinit\<close> found.\<close>

definition ioapicinit :: "u32 \<Rightarrow> 'z cstate_scheme \<Rightarrow> (unit, 'z cstate_scheme) res" where
  "ioapicinit ioapicid s =
     (let maxintr = unat (drop_bit 16 (ioapicread REG_VER s) AND 0xFF);
          id = drop_bit 24 (ioapicread REG_ID s)
      in andthen (if id \<noteq> ioapicid
                  then cprintf (Some (''ioapicinit: id isn'' @ [CHR 0x27] @ ''t equal to ioapicid; not a MP'' @ newline)) [] s
                  else Ok () s) (\<lambda>_ s.
         Ok () (fold (\<lambda>i s. ioapicwrite (REG_TABLE + 2 * i + 1) 0
                       (ioapicwrite (REG_TABLE + 2 * i) (INT_DISABLED OR (T_IRQ0 + of_nat i)) s))
                [0..<Suc maxintr] s)))"

section \<open>Process listing\<close>

definition state_name :: "procstate \<Rightarrow> string" where
  "state_name st =
     (case st of UNUSED \<Rightarrow> ''unused'' | EMBRYO \<Rightarrow> ''embryo'' | SLEEPING \<Rightarrow> ''sleep ''
      | RUNNABLE \<Rightarrow> ''runble'' | RUNNING \<Rightarrow> ''run   '' | ZOMBIE \<Rightarrow> ''zombie'')"

definition dump_proc :: "nat \<Rightarrow> 'z cstate_scheme \<Rightarrow> (unit, 'z cstate_scheme) res" where
  "dump_proc p s =
     (let r = procs s p
      in if p_state r = UNUSED then Ok () s
         else
           andthen (cprintf (Some ''%d %s %s'')
              [CNum (word_of_int (p_pid r)), CStr (Some (state_name (p_state r))), CStr (Some (p_name r))] s) (\<lambda>_ s.
           andthen (if p_state r = SLEEPING
                    then foreach (\<lambda>pc. cprintf (Some '' %p'') [CNum pc])
                           (takeWhile (\<lambda>pc. pc \<noteq> 0) (getcallerpcs (cx_ebp (p_context r) + 8) s)) s
                    else Ok () s) (\<lambda>_ s.
           cprintf (Some newline) [] s)))"

definition procdump :: "'z cstate_scheme \<Rightarrow> (unit, 'z cstate_scheme) res" where
  "procdump = foreach dump_proc [0..<NPROC]"

section \<open>Input\<close>

definition INPUT_BUF :: u32 where "INPUT_BUF = 128"

text \<open>The macro \<open>C\<close> for a control character.\<close>

definition C_of :: "char \<Rightarrow> int" where "C_of x = of_char x - of_char CHR ''@''"

text \<open>
  The loop of the kill-line key, which takes back the characters of the line one by one. It turns
  at most \<open>e - w\<close> times, the first argument.
\<close>

fun kill_line :: "nat \<Rightarrow> 'z cstate_scheme \<Rightarrow> (unit, 'z cstate_scheme) res" where
  "kill_line 0 s = Ok () s"
| "kill_line (Suc n) s =
     (if input_e s \<noteq> input_w s \<and> input_buf s (unat ((input_e s - 1) mod INPUT_BUF)) \<noteq> 10
      then andthen (consputc BACKSPACE (s\<lparr>input_e := input_e s - 1\<rparr>)) (\<lambda>_ s. kill_line n s)
      else Ok () s)"

definition cons_char :: "int \<Rightarrow> 'z cstate_scheme \<Rightarrow> (unit, 'z cstate_scheme) res" where
  "cons_char c s =
     (if c = C_of CHR ''U'' then kill_line (unat (input_e s - input_w s)) s
      else if c = C_of CHR ''H'' \<or> c = 0x7f then
        (if input_e s \<noteq> input_w s then consputc BACKSPACE (s\<lparr>input_e := input_e s - 1\<rparr>) else Ok () s)
      else if c \<noteq> 0 \<and> input_e s - input_r s < INPUT_BUF then
        let c = (if c = 13 then 10 else c);
            s = s\<lparr>input_buf := (input_buf s)(unat (input_e s mod INPUT_BUF) := word_of_int c), input_e := input_e s + 1\<rparr>
        in andthen (consputc c s) (\<lambda>_ s.
           if c = 10 \<or> c = C_of CHR ''D'' \<or> input_e s = input_r s + INPUT_BUF
           then wakeup ChanInput (s\<lparr>input_w := input_e s\<rparr>)
           else Ok () s)
      else Ok () s)"

text \<open>
  The loop over the characters \<open>getc\<close> delivers. It says whether the process listing was asked for;
  \<open>None\<close> is a loop that does not end.
\<close>

partial_function (option) consoleintr_loop ::
  "('z cstate_scheme \<Rightarrow> int \<times> 'z cstate_scheme) \<Rightarrow> bool \<Rightarrow> 'z cstate_scheme \<Rightarrow> (bool, 'z cstate_scheme) res option"
  where
  "consoleintr_loop getc dump s =
     (let (c, s) = getc s
      in if c < 0 then Some (Ok dump s)
         else if c = C_of CHR ''P'' then consoleintr_loop getc True s
         else case cons_char c s of
                Ok _ s \<Rightarrow> consoleintr_loop getc dump s
              | Panic m \<Rightarrow> Some (Panic m)
              | Swtch s \<Rightarrow> Some (Swtch s)
              | Spin \<Rightarrow> Some Spin)"

definition consoleintr ::
  "('z cstate_scheme \<Rightarrow> int \<times> 'z cstate_scheme) \<Rightarrow> 'z cstate_scheme \<Rightarrow> (unit, 'z cstate_scheme) res" where
  "consoleintr getc s =
     andthen (acquire ConsLock s) (\<lambda>_ s.
     andthen (case consoleintr_loop getc False s of None \<Rightarrow> Spin | Some r \<Rightarrow> r) (\<lambda>dump s.
     andthen (release ConsLock s) (\<lambda>_ s.
     if dump then procdump s else Ok () s)))"

definition kbdintr :: "'z cstate_scheme \<Rightarrow> (unit, 'z cstate_scheme) res" where
  "kbdintr = consoleintr kbdgetc"

definition uartintr :: "'z cstate_scheme \<Rightarrow> (unit, 'z cstate_scheme) res" where
  "uartintr = consoleintr uartgetc"

section \<open>The console device\<close>

definition consoleread_end ::
  "nat \<Rightarrow> int \<Rightarrow> u8 list \<Rightarrow> 'z cstate_scheme \<Rightarrow> (int \<times> u8 list, 'z cstate_scheme) res" where
  "consoleread_end ip r acc s =
     andthen (release ConsLock s) (\<lambda>_ s.
     andthen (ilock ip s) (\<lambda>_ s. Ok (r, acc) s))"

text \<open>The loop, with \<open>n\<close> bytes left of \<open>target\<close> and the bytes stored so far.\<close>

fun consoleread_loop ::
  "nat \<Rightarrow> nat \<Rightarrow> nat \<Rightarrow> u8 list \<Rightarrow> 'z cstate_scheme \<Rightarrow> (int \<times> u8 list, 'z cstate_scheme) res" where
  "consoleread_loop ip target 0 acc s = consoleread_end ip (int target) acc s"
| "consoleread_loop ip target (Suc n) acc s =
     (if input_r s = input_w s then
        andthen (myproc s) (\<lambda>q s.
        case q of None \<Rightarrow> Panic ''null proc''
        | Some q \<Rightarrow>
          if p_killed (procs s q) then consoleread_end ip (-1) acc s
          else andthen (sleep ChanInput ConsLock s) (\<lambda>_ s. Panic ''sleep returned''))
      else
        let c = input_buf s (unat (input_r s mod INPUT_BUF));
            s = s\<lparr>input_r := input_r s + 1\<rparr>
        in if uint c = C_of CHR ''D'' then
             consoleread_end ip (int target - int (Suc n)) acc
               (if Suc n < target then s\<lparr>input_r := input_r s - 1\<rparr> else s)
           else if c = 10 then consoleread_end ip (int target - int n) (acc @ [c]) s
           else consoleread_loop ip target n (acc @ [c]) s)"

definition consoleread :: "nat \<Rightarrow> nat \<Rightarrow> 'z cstate_scheme \<Rightarrow> (int \<times> u8 list, 'z cstate_scheme) res" where
  "consoleread ip n s =
     andthen (iunlock ip s) (\<lambda>_ s.
     andthen (acquire ConsLock s) (\<lambda>_ s.
     consoleread_loop ip (nat (int32 n)) (nat (int32 n)) [] s))"

text \<open>The process \<open>q\<close> continues after the sleep with \<open>n\<close> bytes left.\<close>

definition consoleread_resume ::
  "nat \<Rightarrow> bool \<Rightarrow> nat \<Rightarrow> nat \<Rightarrow> nat \<Rightarrow> u8 list \<Rightarrow> 'z cstate_scheme \<Rightarrow> (int \<times> u8 list, 'z cstate_scheme) res" where
  "consoleread_resume q intena ip target n acc s =
     andthen (sleep_return q ConsLock intena s) (\<lambda>_ s. consoleread_loop ip target n acc s)"

definition consolewrite :: "nat \<Rightarrow> u8 list \<Rightarrow> 'z cstate_scheme \<Rightarrow> (int, 'z cstate_scheme) res" where
  "consolewrite ip buf s =
     andthen (iunlock ip s) (\<lambda>_ s.
     andthen (acquire ConsLock s) (\<lambda>_ s.
     andthen (foreach (\<lambda>b. consputc (uint b)) buf s) (\<lambda>_ s.
     andthen (release ConsLock s) (\<lambda>_ s.
     andthen (ilock ip s) (\<lambda>_ s. Ok (int (length buf)) s)))))"

definition CONSOLE :: nat where "CONSOLE = 1"

text \<open>The table \<open>devsw\<close> after \<open>consoleinit\<close>, the only device.\<close>

definition devsw_read :: "'z cstate_scheme devread" where
  "devsw_read m = (if m = CONSOLE then Some consoleread else None)"

definition devsw_write :: "'z cstate_scheme devwrite" where
  "devsw_write m = (if m = CONSOLE then Some consolewrite else None)"

definition consoleinit :: "'z cstate_scheme \<Rightarrow> 'z cstate_scheme" where
  "consoleinit s = ioapicenable IRQ_KBD 0 ((initlock ConsLock ''console'' s)\<lparr>cons_locking := True\<rparr>)"

end
