(* ===== verification/Trap.thy ===== *)
theory Trap
  imports Console
begin

text \<open>
  Interrupts and system calls: the local interrupt controller (\<open>lapic.c\<close>), the process system
  calls (\<open>sysproc.c\<close>), the dispatch of system calls (\<open>syscall.c\<close>) and of traps (\<open>trap.c\<close>). A handler
  that gives up the CPU ends in \<open>Swtch\<close>; \<open>sys_sleep_resume\<close> and \<open>trap_resume\<close> are the code run when
  the process is scheduled again. The disk is the memory disk of \<open>memide.c\<close>, whose interrupt handler
  is empty.
\<close>

section \<open>State\<close>

record gatedesc =
  gd_off_15_0 :: u32
  gd_cs :: u32
  gd_args :: u32
  gd_rsv1 :: u32
  gd_type :: u32
  gd_s :: u32
  gd_dpl :: u32
  gd_p :: u32
  gd_off_31_16 :: u32

text \<open>
  \<open>lapic_regs a\<close> are the registers of the controller of the CPU with identifier \<open>a\<close>, and \<open>lapic_found\<close>
  says that \<open>mpinit\<close> has set the pointer to them. \<open>idtr a\<close> says that CPU \<open>a\<close> has loaded \<open>idt\<close>;
  \<open>sym_vectors\<close> are the entry points of \<open>vectors.S\<close> and \<open>cr2 a\<close> the faulting address.
\<close>

record tstate = cstate +
  lapic_found :: bool
  lapic_regs :: "nat \<Rightarrow> nat \<Rightarrow> u32"
  idt :: "nat \<Rightarrow> gatedesc"
  idtr :: "nat \<Rightarrow> bool"
  sym_vectors :: "nat \<Rightarrow> u32"
  cr2 :: "nat \<Rightarrow> u32"
  ticks :: u32

section \<open>Local interrupt controller\<close>

definition LAPIC_VER :: nat where "LAPIC_VER = 0x0030 div 4"
definition TPR :: nat where "TPR = 0x0080 div 4"
definition EOI :: nat where "EOI = 0x00B0 div 4"
definition SVR :: nat where "SVR = 0x00F0 div 4"
definition ENABLE :: u32 where "ENABLE = 0x00000100"
definition ESR :: nat where "ESR = 0x0280 div 4"
definition ICRLO :: nat where "ICRLO = 0x0300 div 4"
definition INIT :: u32 where "INIT = 0x00000500"
definition STARTUP :: u32 where "STARTUP = 0x00000600"
definition DELIVS :: u32 where "DELIVS = 0x00001000"
definition ASSERT :: u32 where "ASSERT = 0x00004000"
definition LEVEL :: u32 where "LEVEL = 0x00008000"
definition BCAST :: u32 where "BCAST = 0x00080000"
definition ICRHI :: nat where "ICRHI = 0x0310 div 4"
definition TIMER :: nat where "TIMER = 0x0320 div 4"
definition X1 :: u32 where "X1 = 0x0000000B"
definition PERIODIC :: u32 where "PERIODIC = 0x00020000"
definition PCINT :: nat where "PCINT = 0x0340 div 4"
definition LINT0 :: nat where "LINT0 = 0x0350 div 4"
definition LINT1 :: nat where "LINT1 = 0x0360 div 4"
definition ERROR :: nat where "ERROR = 0x0370 div 4"
definition MASKED :: u32 where "MASKED = 0x00010000"
definition TICR :: nat where "TICR = 0x0380 div 4"
definition TDCR :: nat where "TDCR = 0x03E0 div 4"

definition lapicw :: "nat \<Rightarrow> u32 \<Rightarrow> 'z tstate_scheme \<Rightarrow> 'z tstate_scheme" where
  "lapicw index v s =
     s\<lparr>lapic_regs := (lapic_regs s)(lapic_id s := (lapic_regs s (lapic_id s))(index := v))\<rparr>"

definition lapicinit :: "'z tstate_scheme \<Rightarrow> (unit, 'z tstate_scheme) res" where
  "lapicinit s =
     (if \<not> lapic_found s then Ok () s
      else
        let s = lapicw SVR (ENABLE OR (T_IRQ0 + IRQ_SPURIOUS)) s;
            s = lapicw TDCR X1 s;
            s = lapicw TIMER (PERIODIC OR (T_IRQ0 + IRQ_TIMER)) s;
            s = lapicw TICR 10000000 s;
            s = lapicw LINT0 MASKED s;
            s = lapicw LINT1 MASKED s;
            s = (if drop_bit 16 (lapic_regs s (lapic_id s) LAPIC_VER) AND 0xFF \<ge> 4 then lapicw PCINT MASKED s else s);
            s = lapicw ERROR (T_IRQ0 + IRQ_ERROR) s;
            s = lapicw ESR 0 s;
            s = lapicw ESR 0 s;
            s = lapicw EOI 0 s;
            s = lapicw ICRHI 0 s;
            s = lapicw ICRLO (BCAST OR INIT OR LEVEL) s
        in if lapic_regs s (lapic_id s) ICRLO AND DELIVS \<noteq> 0 then Spin
           else Ok () (lapicw TPR 0 s))"

definition lapiceoi :: "'z tstate_scheme \<Rightarrow> 'z tstate_scheme" where
  "lapiceoi s = (if lapic_found s then lapicw EOI 0 s else s)"

section \<open>System calls on processes\<close>

definition sys_fork :: "'z prstate_scheme \<Rightarrow> (int, 'z prstate_scheme) res" where
  "sys_fork s = fork s"

definition sys_exit :: "'z fdstate_scheme \<Rightarrow> (int, 'z fdstate_scheme) res" where
  "sys_exit s = andthen (exit s) (\<lambda>_ s. Ok 0 s)"

definition sys_wait :: "'z mstate_scheme \<Rightarrow> (int, 'z mstate_scheme) res" where
  "sys_wait s = wait s"

definition sys_kill :: "'z vstate_scheme \<Rightarrow> (int, 'z vstate_scheme) res" where
  "sys_kill s =
     andthen (argint 0 s) (\<lambda>pid s.
     case pid of None \<Rightarrow> Ok (- 1) s | Some pid \<Rightarrow> kill (sint pid) s)"

definition sys_getpid :: "'z kstate_scheme \<Rightarrow> (int, 'z kstate_scheme) res" where
  "sys_getpid s = andthen (the_proc s) (\<lambda>p s. Ok (p_pid (procs s p)) s)"

definition sys_sbrk :: "'z vstate_scheme \<Rightarrow> (int, 'z vstate_scheme) res" where
  "sys_sbrk s =
     andthen (argint 0 s) (\<lambda>n s.
     case n of
       None \<Rightarrow> Ok (- 1) s
     | Some n \<Rightarrow>
         andthen (the_proc s) (\<lambda>p s.
         let addr = sint (p_sz (procs s p))
         in andthen (growproc (sint n) s) (\<lambda>r s. if r < 0 then Ok (- 1) s else Ok addr s)))"

text \<open>The comparison of the loop is unsigned, since \<open>ticks - ticks0\<close> is.\<close>

definition sys_sleep_loop :: "u32 \<Rightarrow> u32 \<Rightarrow> 'z tstate_scheme \<Rightarrow> (int, 'z tstate_scheme) res" where
  "sys_sleep_loop ticks0 n s =
     (if ticks s - ticks0 < n then
        andthen (the_proc s) (\<lambda>p s.
        if p_killed (procs s p) then andthen (release TicksLock s) (\<lambda>_ s. Ok (- 1) s)
        else andthen (sleep ChanTicks TicksLock s) (\<lambda>_ s. Panic ''sleep returned''))
      else andthen (release TicksLock s) (\<lambda>_ s. Ok 0 s))"

definition sys_sleep :: "'z tstate_scheme \<Rightarrow> (int, 'z tstate_scheme) res" where
  "sys_sleep s =
     andthen (argint 0 s) (\<lambda>n s.
     case n of
       None \<Rightarrow> Ok (- 1) s
     | Some n \<Rightarrow> andthen (acquire TicksLock s) (\<lambda>_ s. sys_sleep_loop (ticks s) n s))"

definition sys_sleep_resume :: "nat \<Rightarrow> bool \<Rightarrow> u32 \<Rightarrow> u32 \<Rightarrow> 'z tstate_scheme \<Rightarrow> (int, 'z tstate_scheme) res" where
  "sys_sleep_resume q intena ticks0 n s =
     andthen (sleep_return q TicksLock intena s) (\<lambda>_ s. sys_sleep_loop ticks0 n s)"

definition sys_uptime :: "'z tstate_scheme \<Rightarrow> (int, 'z tstate_scheme) res" where
  "sys_uptime s =
     andthen (acquire TicksLock s) (\<lambda>_ s.
     let xticks = ticks s
     in andthen (release TicksLock s) (\<lambda>_ s. Ok (sint xticks) s))"

section \<open>Dispatch\<close>

text \<open>The numbers of \<open>syscall.h\<close> with the table \<open>syscalls\<close>.\<close>

definition syscalls :: "int \<Rightarrow> ('z tstate_scheme \<Rightarrow> (int, 'z tstate_scheme) res) option" where
  "syscalls num = map_of
     [(1, sys_fork), (2, sys_exit), (3, sys_wait), (4, sys_pipe), (5, sys_read devsw_read), (6, sys_kill),
      (7, sys_exec devsw_read (cprintf (Some (''exec: fail'' @ newline)) [])), (8, sys_fstat), (9, sys_chdir devsw_read), (10, sys_dup), (11, sys_getpid),
      (12, sys_sbrk), (13, sys_sleep), (14, sys_uptime), (15, sys_open devsw_read devsw_write),
      (16, sys_write devsw_write), (17, sys_mknod devsw_read devsw_write),
      (18, sys_unlink devsw_read devsw_write), (19, sys_link devsw_read devsw_write),
      (20, sys_mkdir devsw_read devsw_write), (21, sys_close)] num"

definition set_eax :: "nat \<Rightarrow> int \<Rightarrow> 'z kstate_scheme \<Rightarrow> 'z kstate_scheme" where
  "set_eax p v = upd_proc p (\<lambda>r. r\<lparr>p_tf := (p_tf r)\<lparr>tf_eax := word_of_int v\<rparr>\<rparr>)"

definition syscall :: "'z tstate_scheme \<Rightarrow> (unit, 'z tstate_scheme) res" where
  "syscall s =
     andthen (the_proc s) (\<lambda>p s.
     let num = sint (tf_eax (p_tf (procs s p)))
     in case syscalls num of
          Some f \<Rightarrow> andthen (f s) (\<lambda>v s. Ok () (set_eax p v s))
        | None \<Rightarrow>
            andthen (cprintf (Some (''%d %s: unknown sys call %d'' @ newline))
               [CNum (word_of_int (p_pid (procs s p))), CStr (Some (p_name (procs s p))), CNum (word_of_int num)] s) (\<lambda>_ s.
            Ok () (set_eax p (- 1) s)))"

section \<open>Traps\<close>

definition STS_IG32 :: u32 where "STS_IG32 = 0xE"
definition STS_TG32 :: u32 where "STS_TG32 = 0xF"

definition SETGATE :: "bool \<Rightarrow> u32 \<Rightarrow> u32 \<Rightarrow> u32 \<Rightarrow> gatedesc" where
  "SETGATE istrap sel off d =
     \<lparr>gd_off_15_0 = off AND 0xffff, gd_cs = sel, gd_args = 0, gd_rsv1 = 0,
      gd_type = (if istrap then STS_TG32 else STS_IG32), gd_s = 0, gd_dpl = d, gd_p = 1,
      gd_off_31_16 = drop_bit 16 off\<rparr>"

definition tvinit :: "'z tstate_scheme \<Rightarrow> 'z tstate_scheme" where
  "tvinit s =
     (let kcode = of_nat (SEG_KCODE * 8);
          s = fold (\<lambda>i s. s\<lparr>idt := (idt s)(i := SETGATE False kcode (sym_vectors s i) 0)\<rparr>) [0..<256] s;
          s = s\<lparr>idt := (idt s)(unat T_SYSCALL := SETGATE True kcode (sym_vectors s (unat T_SYSCALL)) DPL_USER)\<rparr>
      in initlock TicksLock ''time'' s)"

definition idtinit :: "'z tstate_scheme \<Rightarrow> 'z tstate_scheme" where
  "idtinit s = s\<lparr>idtr := (idtr s)(lapic_id s := True)\<rparr>"

text \<open>The handler of the disk interrupt in \<open>memide.c\<close>.\<close>

definition ideintr :: "'z kstate_scheme \<Rightarrow> 'z kstate_scheme" where "ideintr s = s"

definition timer_tick :: "'z tstate_scheme \<Rightarrow> (unit, 'z tstate_scheme) res" where
  "timer_tick s =
     andthen (cpuid s) (\<lambda>c s.
     if c = 0 then
       andthen (acquire TicksLock s) (\<lambda>_ s.
       andthen (wakeup ChanTicks (s\<lparr>ticks := ticks s + 1\<rparr>)) (\<lambda>_ s.
       release TicksLock s))
     else Ok () s)"

definition spurious :: "trapframe \<Rightarrow> 'z tstate_scheme \<Rightarrow> (unit, 'z tstate_scheme) res" where
  "spurious tf s =
     andthen (cpuid s) (\<lambda>c s.
     cprintf (Some (''cpu%d: spurious interrupt at %x:%x'' @ newline))
       [CNum (of_nat c), CNum (ucast (tf_cs tf)), CNum (tf_eip tf)] s)"

definition user_mode :: "trapframe \<Rightarrow> bool" where
  "user_mode tf \<longleftrightarrow> ucast (tf_cs tf) AND 3 = DPL_USER"

text \<open>A trap nobody expects: the kernel stops, a process is marked killed.\<close>

definition unexpected :: "trapframe \<Rightarrow> 'z tstate_scheme \<Rightarrow> (unit, 'z tstate_scheme) res" where
  "unexpected tf s =
     andthen (myproc s) (\<lambda>q s.
     andthen (cpuid s) (\<lambda>c s.
     let addr = CNum (cr2 s (lapic_id s))
     in case (if tf_cs tf AND 3 = 0 then None else q) of
          None \<Rightarrow>
            andthen (cprintf (Some (''unexpected trap %d from cpu %d eip %x (cr2=0x%x)'' @ newline))
               [CNum (tf_trapno tf), CNum (of_nat c), CNum (tf_eip tf), addr] s) (\<lambda>_ s.
            Panic ''trap'')
        | Some p \<Rightarrow>
            andthen (cprintf (Some (''pid %d %s: trap %d err %d on cpu %d '' @ ''eip 0x%x addr 0x%x--kill proc'' @ newline))
               [CNum (word_of_int (p_pid (procs s p))), CStr (Some (p_name (procs s p))), CNum (tf_trapno tf),
                CNum (tf_err tf), CNum (of_nat c), CNum (tf_eip tf), addr] s) (\<lambda>_ s.
            Ok () (upd_proc p (\<lambda>r. r\<lparr>p_killed := True\<rparr>) s))))"

definition irq :: "trapframe \<Rightarrow> 'z tstate_scheme \<Rightarrow> (unit, 'z tstate_scheme) res" where
  "irq tf s =
     (let no = tf_trapno tf
      in if no = T_IRQ0 + IRQ_TIMER then andthen (timer_tick s) (\<lambda>_ s. Ok () (lapiceoi s))
         else if no = T_IRQ0 + IRQ_IDE then Ok () (lapiceoi (ideintr s))
         else if no = T_IRQ0 + IRQ_IDE + 1 then Ok () s
         else if no = T_IRQ0 + IRQ_KBD then andthen (kbdintr s) (\<lambda>_ s. Ok () (lapiceoi s))
         else if no = T_IRQ0 + IRQ_COM1 then andthen (uartintr s) (\<lambda>_ s. Ok () (lapiceoi s))
         else if no = T_IRQ0 + 7 \<or> no = T_IRQ0 + IRQ_SPURIOUS
         then andthen (spurious tf s) (\<lambda>_ s. Ok () (lapiceoi s))
         else unexpected tf s)"

text \<open>Leaving the kernel: a killed process exits if it would return to user mode.\<close>

definition exit_killed :: "trapframe \<Rightarrow> 'z tstate_scheme \<Rightarrow> (unit, 'z tstate_scheme) res" where
  "exit_killed tf s =
     andthen (myproc s) (\<lambda>q s.
     case q of
       None \<Rightarrow> Ok () s
     | Some p \<Rightarrow> if p_killed (procs s p) \<and> user_mode tf then exit s else Ok () s)"

text \<open>The test of \<open>killed\<close> before and after a system call of process \<open>p\<close>.\<close>

definition syscall_killed :: "nat \<Rightarrow> 'z tstate_scheme \<Rightarrow> (unit, 'z tstate_scheme) res" where
  "syscall_killed p s = (if p_killed (procs s p) then exit s else Ok () s)"

text \<open>What follows the \<open>yield\<close> on a clock tick, run at once or, after a switch, when the process is resumed.\<close>

definition trap_end :: "trapframe \<Rightarrow> 'z tstate_scheme \<Rightarrow> (unit, 'z tstate_scheme) res" where
  "trap_end tf s = exit_killed tf s"

definition trap :: "trapframe \<Rightarrow> 'z tstate_scheme \<Rightarrow> (unit, 'z tstate_scheme) res" where
  "trap tf s =
     (if tf_trapno tf = T_SYSCALL then
        andthen (the_proc s) (\<lambda>p s.
        andthen (syscall_killed p s) (\<lambda>_ s.
        andthen (syscall (upd_proc p (\<lambda>r. r\<lparr>p_tf := tf\<rparr>) s)) (\<lambda>_ s.
        syscall_killed p s)))
      else
        andthen (irq tf s) (\<lambda>_ s.
        andthen (exit_killed tf s) (\<lambda>_ s.
        andthen (myproc s) (\<lambda>q s.
        andthen (case q of
                   None \<Rightarrow> Ok () s
                 | Some p \<Rightarrow>
                     if p_state (procs s p) = RUNNING \<and> tf_trapno tf = T_IRQ0 + IRQ_TIMER then yield s else Ok () s) (\<lambda>_ s.
        trap_end tf s)))))"

text \<open>The end of a trap that gave up the CPU on a clock tick.\<close>

definition trap_resume :: "trapframe \<Rightarrow> bool \<Rightarrow> 'z tstate_scheme \<Rightarrow> (unit, 'z tstate_scheme) res" where
  "trap_resume tf intena s = andthen (yield_return intena s) (\<lambda>_ s. trap_end tf s)"

text \<open>The end of a trap for a system call of process \<open>p\<close> that gave up the CPU in between: \<open>f\<close> is the rest
  of the system call, from where it goes on (such as \<open>sys_sleep_resume\<close>).\<close>

definition syscall_resume ::
  "nat \<Rightarrow> ('z tstate_scheme \<Rightarrow> (int, 'z tstate_scheme) res) \<Rightarrow> 'z tstate_scheme \<Rightarrow> (unit, 'z tstate_scheme) res" where
  "syscall_resume p f s = andthen (f s) (\<lambda>v s. syscall_killed p (set_eax p v s))"

end
