(* ===== verification/Frame.thy ===== *)
theory Frame
  imports Sleep_Wakeup
begin

text \<open>
  What a piece of kernel code leaves alone. \<open>kept R s r\<close> says that the code, run from \<open>s\<close> with outcome
  \<open>r\<close>, ends in a state related to \<open>s\<close> by \<open>R\<close> when it returns or gives up the CPU. The locale \<open>frame\<close>
  has the rules to prove this along the structure of the code, for every relation that can be
  chained. The relation \<open>only_locks\<close> is what the locking functions keep. The relation \<open>undead\<close> is used for the life of a process: the CPU goes on running the same
  process, and a process that has been killed stays killed.
\<close>

definition kept :: "('s \<Rightarrow> 's \<Rightarrow> bool) \<Rightarrow> 's \<Rightarrow> ('a, 's) res \<Rightarrow> bool" where
  "kept R s r \<longleftrightarrow> (case r of Ok x t \<Rightarrow> R s t | Swtch t \<Rightarrow> R s t | Panic m \<Rightarrow> True | Spin \<Rightarrow> True)"

lemma kept_simps [simp]:
  "kept R s (Ok x t) = R s t" "kept R s (Swtch t) = R s t" "kept R s (Panic m)" "kept R s Spin"
  by (simp_all add: kept_def)

lemma kept_OkD: "kept R s r \<Longrightarrow> r = Ok x t \<Longrightarrow> R s t"
  by simp

locale frame =
  fixes R :: "'s \<Rightarrow> 's \<Rightarrow> bool"
  assumes self: "R s s"
    and chain: "R s t \<Longrightarrow> R t u \<Longrightarrow> R s u"
begin

lemma kept_from: "kept R t r \<Longrightarrow> R s t \<Longrightarrow> kept R s r"
  by (cases r) (auto intro: chain)

lemma kept_andthen: "kept R s r \<Longrightarrow> (\<And>x t. kept R t (f x t)) \<Longrightarrow> kept R s (andthen r f)"
  by (cases r) (auto intro: kept_from)

lemma kept_then: "kept R s r \<Longrightarrow> (\<And>x t. r = Ok x t \<Longrightarrow> R s t \<Longrightarrow> kept R t (f x t)) \<Longrightarrow> kept R s (andthen r f)"
  by (cases r) (auto intro: kept_from)

lemma kept_foreach: "(\<And>x s. kept R s (f x s)) \<Longrightarrow> kept R s (foreach f xs s)"
  by (induction xs arbitrary: s) (auto simp: self intro: kept_andthen)

lemma chain_fold: "(\<And>x s. R s (f x s)) \<Longrightarrow> R s (fold f xs s)"
proof (induction xs arbitrary: s)
  case (Cons x xs)
  then have "R (f x s) (fold f xs (f x s))" by simp
  then show ?case using chain [OF Cons(2)] by simp
qed (simp add: self)

end

lemma kept_mono: "kept R s r \<Longrightarrow> (\<And>t. R s t \<Longrightarrow> Q s t) \<Longrightarrow> kept Q s r"
  by (cases r) auto

section \<open>What the locking functions change\<close>

definition only_locks :: "'z kstate_scheme \<Rightarrow> 'z kstate_scheme \<Rightarrow> bool" where
  "only_locks s t \<longleftrightarrow> (\<exists>e k l. t = s\<lparr>eflags_if := e, cpus := k, locks := l\<rparr>) \<and>
     (\<forall>c. c_apicid (cpus t c) = c_apicid (cpus s c) \<and> c_proc (cpus t c) = c_proc (cpus s c))"

interpretation ol: frame only_locks
proof
  fix s t u :: "'a kstate_scheme"
  show "only_locks s s" by (cases s) (auto simp: only_locks_def)
  assume "only_locks s t" "only_locks t u"
  then show "only_locks s u" by (cases s) (auto simp: only_locks_def)
qed

lemma only_locksD:
  assumes "only_locks s t"
  shows "lapic_id t = lapic_id s" "ncpu t = ncpu s" "procs t = procs s" "nextpid t = nextpid s"
    "c_apicid (cpus t c) = c_apicid (cpus s c)" "c_proc (cpus t c) = c_proc (cpus s c)"
    "kstate.more t = kstate.more s"
  using assms by (auto simp: only_locks_def)

lemma only_locks_upd [simp]:
  "only_locks s (upd_lock l f t) = only_locks s t" "only_locks s (set_if b t) = only_locks s t"
  "only_locks s (upd_cpu c (c_intena_update i) t) = only_locks s t" "only_locks s (upd_cpu c (c_ncli_update k) t) = only_locks s t"
  "only_locks s (upd_cpu c (\<lambda>r. r\<lparr>c_ncli := h r\<rparr>) t) = only_locks s t"
proof -
  have *: "only_locks s (t\<lparr>eflags_if := e, cpus := k, locks := l\<rparr>) = only_locks s t"
    if "\<And>c. c_apicid (k c) = c_apicid (cpus t c) \<and> c_proc (k c) = c_proc (cpus t c)" for e k l
    using that by (cases s; cases t) (auto simp: only_locks_def)
  have l: "upd_lock l f t = t\<lparr>eflags_if := eflags_if t, cpus := cpus t, locks := (locks t)(l := f (locks t l))\<rparr>"
    and e: "set_if b t = t\<lparr>eflags_if := (eflags_if t)(lapic_id t := b), cpus := cpus t, locks := locks t\<rparr>"
    and c: "upd_cpu c g t = t\<lparr>eflags_if := eflags_if t, cpus := (cpus t)(c := g (cpus t c)), locks := locks t\<rparr>" for g
    by (cases t; simp add: upd_lock_def set_if_def upd_cpu_def)+
  show "only_locks s (upd_lock l f t) = only_locks s t" unfolding l by (rule *) simp
  show "only_locks s (set_if b t) = only_locks s t" unfolding e by (rule *) simp
  show "only_locks s (upd_cpu c (c_intena_update i) t) = only_locks s t" unfolding c by (rule *) simp
  show "only_locks s (upd_cpu c (c_ncli_update k) t) = only_locks s t" unfolding c by (rule *) simp
  show "only_locks s (upd_cpu c (\<lambda>r. r\<lparr>c_ncli := h r\<rparr>) t) = only_locks s t" unfolding c by (rule *) simp
qed

lemma only_locks_self [simp]: "only_locks s s"
  by (rule ol.self)

lemma locks_mycpu: "kept only_locks s (mycpu s)"
  by (auto simp: mycpu_def split: option.split)

lemma locks_pushcli: "kept only_locks s (pushcli s)"
proof -
  have "kept only_locks s (mycpu (set_if False s))" by (rule ol.kept_from [OF locks_mycpu]) simp
  then show ?thesis unfolding pushcli_def Let_def by (rule ol.kept_andthen) simp
qed

lemma locks_popcli: "kept only_locks s (popcli s)"
  unfolding popcli_def Let_def by (auto intro!: ol.kept_andthen locks_mycpu)

lemma locks_holding: "kept only_locks s (holding l s)"
  unfolding holding_def Let_def by (intro ol.kept_andthen locks_pushcli locks_mycpu locks_popcli) simp

lemma locks_acquire: "kept only_locks s (acquire l s)"
  unfolding acquire_def Let_def
  by (auto intro!: ol.kept_andthen locks_pushcli locks_holding ol.kept_from [OF locks_mycpu])

lemma locks_release: "kept only_locks s (release l s)"
  unfolding release_def Let_def
  by (auto intro!: ol.kept_andthen locks_holding ol.kept_from [OF locks_popcli])

lemma locks_myproc: "kept only_locks s (myproc s)"
  unfolding myproc_def Let_def by (intro ol.kept_andthen locks_pushcli locks_mycpu locks_popcli) simp

lemma locks_cpuid: "kept only_locks s (cpuid s)"
  by (simp add: cpuid_def locks_mycpu)

section \<open>Killed processes stay killed\<close>

definition undead :: "'z kstate_scheme \<Rightarrow> 'z kstate_scheme \<Rightarrow> bool" where
  "undead s t \<longleftrightarrow> lapic_id t = lapic_id s \<and> ncpu t = ncpu s \<and>
     (\<forall>c. c_apicid (cpus t c) = c_apicid (cpus s c) \<and> c_proc (cpus t c) = c_proc (cpus s c)) \<and>
     (\<forall>p. p_killed (procs s p) \<longrightarrow> p_killed (procs t p))"

interpretation ud: frame undead
  by unfold_locales (auto simp: undead_def)

lemma undead_self [simp]: "undead s s"
  by (rule ud.self)

lemma undead_locks: "only_locks s t \<Longrightarrow> undead s t"
  by (simp add: undead_def only_locksD)

lemma undead_woken [simp]: "undead s (wakeup1 ch t) = undead s t"
  by (simp add: undead_def wakeup1_eq)

lemma kept_mycpu: "kept undead s (mycpu s)"
  by (rule kept_mono [OF locks_mycpu undead_locks])

lemma kept_pushcli: "kept undead s (pushcli s)"
  by (rule kept_mono [OF locks_pushcli undead_locks])

lemma kept_acquire: "kept undead s (acquire l s)"
  by (rule kept_mono [OF locks_acquire undead_locks])

lemma kept_release: "kept undead s (release l s)"
  by (rule kept_mono [OF locks_release undead_locks])

lemma kept_myproc: "kept undead s (myproc s)"
  by (rule kept_mono [OF locks_myproc undead_locks])

lemma kept_cpuid: "kept undead s (cpuid s)"
  by (rule kept_mono [OF locks_cpuid undead_locks])


lemma kept_wakeup: "kept undead s (wakeup ch s)"
  unfolding wakeup_eq by (intro ud.kept_andthen kept_acquire ud.kept_from [OF kept_release]) simp_all

lemmas kept_intros = ud.kept_andthen kept_acquire kept_release kept_wakeup kept_cpuid kept_myproc kept_mycpu

end
