(* ===== verification/Sleep_Spec.thy ===== *)
theory Sleep_Spec
  imports Sleep_Wakeup
begin

text \<open>
  Sleeping and waking on two CPUs. The statements of \<open>sleep\<close> on one CPU and of a waker on the other
  are interleaved in every possible way; the lock that protects the condition and \<open>ptable.lock\<close>
  together leave no order in which the wakeup is lost.
\<close>

section \<open>Interleaving\<close>

text \<open>One statement on the CPU with identifier \<open>a\<close>. A switch to the scheduler lets the CPU go on; a
  panic does not, and an \<open>acquire\<close> that spins is tried again later.\<close>

definition does :: "nat \<Rightarrow> ('z kstate_scheme \<Rightarrow> (unit, 'z kstate_scheme) res) \<Rightarrow> 'z kstate_scheme \<Rightarrow> 'z kstate_scheme \<Rightarrow> bool" where
  "does a x s t \<longleftrightarrow> x (s\<lparr>lapic_id := a\<rparr>) = Ok () t \<or> x (s\<lparr>lapic_id := a\<rparr>) = Swtch t"

inductive weave :: "nat \<Rightarrow> nat \<Rightarrow> 'z kstate_scheme \<times> 'z kstate_scheme code \<times> 'z kstate_scheme code \<Rightarrow>
    'z kstate_scheme \<times> 'z kstate_scheme code \<times> 'z kstate_scheme code \<Rightarrow> bool" for a b where
  left: "does a x s t \<Longrightarrow> weave a b (s, x # xs, ys) (t, xs, ys)"
| right: "does b y s t \<Longrightarrow> weave a b (s, xs, y # ys) (t, xs, ys)"

inductive_cases weave_E: "weave a b (s, xs, ys) z"

text \<open>The sleeper, up to the point where the scheduler releases \<open>ptable.lock\<close>, and a waker that takes the
  lock of the condition first.\<close>

definition sleeper :: "chan \<Rightarrow> lockid \<Rightarrow> nat \<Rightarrow> 'z kstate_scheme code" where
  "sleeper ch lk p = sleep_code ch lk p @ [release PtableLock]"

definition waker :: "chan \<Rightarrow> lockid \<Rightarrow> 'z kstate_scheme code" where
  "waker ch lk = acquire lk # wakeup_code ch @ [release lk]"

section \<open>Locks of several CPUs\<close>

text \<open>\<open>W\<close> gives the CPU that holds each lock.\<close>

definition cpu_locks :: "(lockid \<Rightarrow> nat option) \<Rightarrow> 'z kstate_scheme \<Rightarrow> bool" where
  "cpu_locks W s \<longleftrightarrow> (\<exists>H. lock_inv H s) \<and> (\<forall>l. lk_cpu (locks s l) = W l)"

lemma cpu_locksD:
  assumes "cpu_locks W s" "cpu_lookup (cpus s) (ncpu s) a = Some c"
  shows "steady c (s\<lparr>lapic_id := a\<rparr>)" "lk_cpu (locks s l) = W l" "lk_locked (locks s l) \<longleftrightarrow> W l \<noteq> None"
    "c_ncli (cpus s c) = int (card {l. W l = Some c})" "finite {l. W l = Some c}"
proof -
  obtain H where H: "lock_inv H s" and W: "\<And>l. lk_cpu (locks s l) = W l" using assms(1) by (auto simp: cpu_locks_def)
  show "steady c (s\<lparr>lapic_id := a\<rparr>)" by (rule lock_inv_steady [OF H assms(2)])
  show "lk_cpu (locks s l) = W l" by (rule W)
  show "lk_locked (locks s l) \<longleftrightarrow> W l \<noteq> None" using lock_inv_locked [OF H, of l] W by simp
  show "c_ncli (cpus s c) = int (card {l. W l = Some c})" "finite {l. W l = Some c}"
    using lock_inv_count [OF H assms(2)] W by (simp_all add: held_def)
qed

lemma cpu_locks_acquire:
  assumes s: "cpu_locks W s" and c: "cpu_lookup (cpus s) (ncpu s) a = Some c" and l: "W l = None"
  shows "acquire l (s\<lparr>lapic_id := a\<rparr>) = Ok () (acq l c (s\<lparr>lapic_id := a\<rparr>))"
    "cpu_locks (W(l := Some c)) (acq l c (s\<lparr>lapic_id := a\<rparr>))"
proof -
  note d = cpu_locksD [OF s c]
  show "acquire l (s\<lparr>lapic_id := a\<rparr>) = Ok () (acq l c (s\<lparr>lapic_id := a\<rparr>))"
    using acquire_unfold [OF d(1), of l] d(3) [of l] l by simp
  obtain H where H: "lock_inv H s" using s by (auto simp: cpu_locks_def)
  show "cpu_locks (W(l := Some c)) (acq l c (s\<lparr>lapic_id := a\<rparr>))"
    using lock_inv_acq [OF H c, of l] d(2) l by (auto simp: cpu_locks_def acq_def)
qed

lemma cpu_locks_spin:
  assumes s: "cpu_locks W s" and c: "cpu_lookup (cpus s) (ncpu s) a = Some c" and l: "W l = Some d" "d \<noteq> c"
  shows "acquire l (s\<lparr>lapic_id := a\<rparr>) = Spin"
  using acquire_unfold [OF cpu_locksD(1) [OF s c], of l] cpu_locksD(2,3) [OF s c, of l] l by simp

lemma cpu_locks_release:
  assumes s: "cpu_locks W s" and c: "cpu_lookup (cpus s) (ncpu s) a = Some c" and l: "W l = Some c"
  shows "release l (s\<lparr>lapic_id := a\<rparr>) = Ok () (rel l c (s\<lparr>lapic_id := a\<rparr>))"
    "cpu_locks (W(l := None)) (rel l c (s\<lparr>lapic_id := a\<rparr>))"
proof -
  note d = cpu_locksD [OF s c]
  have "{l. W l = Some c} \<noteq> {}" using l by auto
  then have "1 \<le> c_ncli (cpus s c)" using d(4,5) by (simp add: Suc_le_eq card_gt_0_iff)
  then show "release l (s\<lparr>lapic_id := a\<rparr>) = Ok () (rel l c (s\<lparr>lapic_id := a\<rparr>))"
    using d(2,3) [of l] l by (intro release_held d(1)) simp_all
  obtain H where H: "lock_inv H s" using s by (auto simp: cpu_locks_def)
  show "cpu_locks (W(l := None)) (rel l c (s\<lparr>lapic_id := a\<rparr>))"
    using lock_inv_rel [OF H c, of l] d(2) l by (auto simp: cpu_locks_def rel_def)
qed

lemma cpu_locks_sched:
  assumes s: "cpu_locks W s" and c: "cpu_lookup (cpus s) (ncpu s) a = Some c" and W: "{l. W l = Some c} = {PtableLock}"
    and p: "c_proc (cpus s c) = Some p" "p_state (procs s p) \<noteq> RUNNING"
  shows "sched (s\<lparr>lapic_id := a\<rparr>) = Swtch (s\<lparr>lapic_id := a\<rparr>)"
proof -
  note d = cpu_locksD [OF s c]
  have n: "c_ncli (cpus s c) = 1" using d(4) W by simp
  then have e: "\<not> eflags_if s a" using d(1) by (simp add: steady_def)
  have l: "W PtableLock = Some c" using W by auto
  show ?thesis
    using p n e l d(2,3) [of PtableLock]
    by (simp add: sched_def myproc_steady [OF d(1)] holding_steady [OF d(1)] mycpu_steady [OF d(1)])
qed

lemma lock_inv_upd [simp]: "lock_inv H (s\<lparr>procs := f\<rparr>) = lock_inv H s" "lock_inv H (s\<lparr>lapic_id := a\<rparr>) = lock_inv H s"
  by (simp_all add: lock_inv_def all_steady_def held_def steady_def)

lemma cpu_locks_upd [simp]: "cpu_locks W (s\<lparr>procs := f\<rparr>) = cpu_locks W s" "cpu_locks W (s\<lparr>lapic_id := a\<rparr>) = cpu_locks W s"
  by (simp_all add: cpu_locks_def)

lemma rel_simps [simp]:
  "procs (rel l c s) = procs s" "ncpu (rel l c s) = ncpu s" "c_proc (cpus (rel l c s) d) = c_proc (cpus s d)"
  by (simp_all add: rel_def)

lemma lookup_acq [simp]:
  "cpu_lookup (cpus (acq l c s)) n x = cpu_lookup (cpus s) n x" "cpu_lookup (cpus (rel l c s)) n x = cpu_lookup (cpus s) n x"
  by (simp_all add: acq_def rel_def)

section \<open>The invariant of the interleaving\<close>

text \<open>
  After \<open>i\<close> of the six statements of the sleeper on CPU \<open>c\<close> and \<open>j\<close> of the five of the waker on CPU \<open>d\<close>:
  who holds the two locks, and what has become of the sleeper.
\<close>

definition turn :: "nat \<Rightarrow> nat \<Rightarrow> bool" where
  "turn i j \<longleftrightarrow> i \<le> 6 \<and> j \<le> 5 \<and> (i < 2 \<longrightarrow> j = 0) \<and> (2 \<le> j \<longrightarrow> i = 6)"

definition owner :: "nat \<Rightarrow> nat \<Rightarrow> lockid \<Rightarrow> nat \<Rightarrow> nat \<Rightarrow> lockid \<Rightarrow> nat option" where
  "owner c d lk i j l =
     (if l = lk then (if i < 2 then Some c else if 1 \<le> j \<and> j < 5 then Some d else None)
      else if l = PtableLock then (if 1 \<le> i \<and> i < 6 then Some c else if 2 \<le> j \<and> j < 4 then Some d else None)
      else None)"

definition meets :: "nat \<Rightarrow> nat \<Rightarrow> nat \<Rightarrow> nat \<Rightarrow> nat \<Rightarrow> chan \<Rightarrow> lockid \<Rightarrow> nat \<Rightarrow> nat \<Rightarrow> 'z kstate_scheme \<Rightarrow> bool" where
  "meets a b c d p ch lk i j t \<longleftrightarrow> cpu_locks (owner c d lk i j) t \<and>
     cpu_lookup (cpus t) (ncpu t) a = Some c \<and> cpu_lookup (cpus t) (ncpu t) b = Some d \<and> c_proc (cpus t c) = Some p \<and>
     (3 \<le> i \<longrightarrow> p_chan (procs t p) = Some ch) \<and> (4 \<le> i \<and> j < 3 \<longrightarrow> p_state (procs t p) = SLEEPING) \<and>
     (3 \<le> j \<longrightarrow> p_state (procs t p) = RUNNABLE)"

lemma below6: "(i :: nat) < 6 \<Longrightarrow> i = 0 \<or> i = 1 \<or> i = 2 \<or> i = 3 \<or> i = 4 \<or> i = 5"
  by auto

lemma below5: "(i :: nat) < 5 \<Longrightarrow> i = 0 \<or> i = 1 \<or> i = 2 \<or> i = 3 \<or> i = 4"
  by auto

lemma sleeper_nth:
  assumes "lk \<noteq> PtableLock"
  shows "sleeper ch lk p ! 0 = acquire PtableLock" "sleeper ch lk p ! Suc 0 = release lk"
    "sleeper ch lk p ! 2 = (\<lambda>s. Ok () (upd_proc p (\<lambda>r. r\<lparr>p_chan := Some ch\<rparr>) s))"
    "sleeper ch lk p ! 3 = (\<lambda>s. Ok () (upd_proc p (\<lambda>r. r\<lparr>p_state := SLEEPING\<rparr>) s))"
    "sleeper ch lk p ! 4 = sched" "sleeper ch lk p ! 5 = release PtableLock"
  using assms by (simp_all add: sleeper_def sleep_code_def numeral_2_eq_2 numeral_3_eq_3 eval_nat_numeral)

lemma waker_nth:
  "waker ch lk ! 0 = acquire lk" "waker ch lk ! Suc 0 = acquire PtableLock" "waker ch lk ! 2 = (\<lambda>s. Ok () (wakeup1 ch s))"
  "waker ch lk ! 3 = release PtableLock" "waker ch lk ! 4 = release lk"
  by (simp_all add: waker_def wakeup_code_def eval_nat_numeral)

lemma length_code [simp]: "lk \<noteq> PtableLock \<Longrightarrow> length (sleeper ch lk p) = 6" "length (waker ch lk) = 5"
  by (simp_all add: sleeper_def sleep_code_def waker_def wakeup_code_def)

lemma drop_code:
  "i < length xs \<Longrightarrow> drop i xs = xs ! i # drop (Suc i) xs" "drop i xs = y # ys \<Longrightarrow> i < length xs \<and> y = xs ! i \<and> ys = drop (Suc i) xs"
proof -
  show e: "i < length xs \<Longrightarrow> drop i xs = xs ! i # drop (Suc i) xs" by (rule Cons_nth_drop_Suc [symmetric])
  assume d: "drop i xs = y # ys"
  then have "i < length xs" by (metis drop_all linorder_not_less list.distinct(1))
  then show "i < length xs \<and> y = xs ! i \<and> ys = drop (Suc i) xs" using e d by simp
qed

text \<open>A statement that takes or releases a lock, or changes only the process table, moves the configuration.\<close>

lemma moves_acquire:
  assumes "cpu_locks (owner c d lk i j) t" "cpu_lookup (cpus t) (ncpu t) x = Some e" "owner c d lk i j l = None"
    and "(owner c d lk i j)(l := Some e) = owner c d lk i' j'"
  shows "\<forall>v. does x (acquire l) t v \<longleftrightarrow> v = acq l e (t\<lparr>lapic_id := x\<rparr>)"
    "cpu_locks (owner c d lk i' j') (acq l e (t\<lparr>lapic_id := x\<rparr>))"
  using cpu_locks_acquire [OF assms(1-3)] assms(4) by (auto simp: does_def)

lemma moves_release:
  assumes "cpu_locks (owner c d lk i j) t" "cpu_lookup (cpus t) (ncpu t) x = Some e" "owner c d lk i j l = Some e"
    and "(owner c d lk i j)(l := None) = owner c d lk i' j'"
  shows "\<forall>v. does x (release l) t v \<longleftrightarrow> v = rel l e (t\<lparr>lapic_id := x\<rparr>)"
    "cpu_locks (owner c d lk i' j') (rel l e (t\<lparr>lapic_id := x\<rparr>))"
  using cpu_locks_release [OF assms(1-3)] assms(4) by (auto simp: does_def)

text \<open>The sleeper is never held up.\<close>

lemma sleeper_step:
  assumes m: "meets a b c d p ch lk i j t" and k: "turn i j" "i < 6" and n: "c \<noteq> d" "lk \<noteq> PtableLock"
  shows "\<exists>u. (\<forall>v. does a (sleeper ch lk p ! i) t v \<longleftrightarrow> v = u) \<and> meets a b c d p ch lk (Suc i) j u"
proof -
  let ?W = "owner c d lk i j" and ?t = "t\<lparr>lapic_id := a\<rparr>"
  have W: "cpu_locks ?W t" and c: "cpu_lookup (cpus t) (ncpu t) a = Some c" using m by (simp_all add: meets_def)
  have j: "j \<le> 1" "i < 2 \<Longrightarrow> j = 0" using k by (auto simp: turn_def)
  note nth = sleeper_nth [OF n(2), of ch p] and o = owner_def fun_eq_iff
  have same: "owner c d lk (Suc i) j = ?W" if "2 \<le> i" "i < 5" using that by (auto simp: o)
  from below6 [OF k(2)] consider "i = 0" | "i = 1" | "i = 2" | "i = 3" | "i = 4" | "i = 5" by blast
  then show ?thesis
  proof cases
    case 1
    note q = moves_acquire [OF W c, of PtableLock "Suc i" j]
    show ?thesis using q m 1 n j by (intro exI [of _ "acq PtableLock c ?t"]) (auto simp: nth meets_def o)
  next
    case 2
    note q = moves_release [OF W c, of lk "Suc i" j]
    show ?thesis using q m 2 n j by (intro exI [of _ "rel lk c ?t"]) (auto simp: nth meets_def o)
  next
    case 3
    then show ?thesis
      using m same j by (intro exI [of _ "upd_proc p (\<lambda>r. r\<lparr>p_chan := Some ch\<rparr>) ?t"]) (auto simp: nth meets_def does_def upd_proc_def)
  next
    case 4
    then show ?thesis
      using m same j by (intro exI [of _ "upd_proc p (\<lambda>r. r\<lparr>p_state := SLEEPING\<rparr>) ?t"]) (auto simp: nth meets_def does_def upd_proc_def)
  next
    case 5
    have "{l. ?W l = Some c} = {PtableLock}" using 5 n j by (auto simp: o)
    then have "sched ?t = Swtch ?t" using m 5 j by (intro cpu_locks_sched [OF W c, of p]) (simp_all add: meets_def)
    then show ?thesis using m same 5 j by (intro exI [of _ ?t]) (auto simp: nth meets_def does_def)
  next
    case 6
    note q = moves_release [OF W c, of PtableLock "Suc i" j]
    show ?thesis using q m 6 n j by (intro exI [of _ "rel PtableLock c ?t"]) (auto simp: nth meets_def o)
  qed
qed

text \<open>The waker waits for the lock of the condition, then for \<open>ptable.lock\<close>, and is never held up after that.\<close>

lemma waker_step:
  assumes m: "meets a b c d p ch lk i j t" and k: "turn i j" "j < 5" and n: "c \<noteq> d" "lk \<noteq> PtableLock" "p < NPROC"
  shows "if (j = 0 \<and> i < 2) \<or> (j = 1 \<and> i < 6) then \<forall>v. \<not> does b (waker ch lk ! j) t v
    else \<exists>u. (\<forall>v. does b (waker ch lk ! j) t v \<longleftrightarrow> v = u) \<and> meets a b c d p ch lk i (Suc j) u"
proof -
  let ?W = "owner c d lk i j" and ?t = "t\<lparr>lapic_id := b\<rparr>"
  have W: "cpu_locks ?W t" and d: "cpu_lookup (cpus t) (ncpu t) b = Some d" using m by (simp_all add: meets_def)
  have i: "2 \<le> j \<Longrightarrow> i = 6" "i \<le> 6" using k by (auto simp: turn_def)
  note nth = waker_nth [of ch lk] and o = owner_def fun_eq_iff
  from below5 [OF k(2)] consider "j = 0" | "j = 1" | "j = 2" | "j = 3" | "j = 4" by blast
  then show ?thesis
  proof cases
    case 1
    have "\<not> does b (acquire lk) t v" if "i < 2" for v
      using cpu_locks_spin [OF W d, of lk c] that n by (simp add: does_def owner_def)
    then show ?thesis
      using moves_acquire [OF W d, of lk i "Suc j"] m 1 n i by (auto simp: nth meets_def o intro!: exI [of _ "acq lk d ?t"])
  next
    case 2
    have "\<not> does b (acquire PtableLock) t v" if "i < 6" for v
      using cpu_locks_spin [OF W d, of PtableLock c] that n k 2 by (simp add: does_def owner_def turn_def)
    then show ?thesis
      using moves_acquire [OF W d, of PtableLock i "Suc j"] m 2 n i
      by (auto simp: nth meets_def o intro!: exI [of _ "acq PtableLock d ?t"])
  next
    case 3
    have "owner c d lk i (Suc j) = ?W" using 3 i by (auto simp: o)
    then have "meets a b c d p ch lk i (Suc j) (wakeup1 ch ?t)"
      using m 3 i n by (simp add: meets_def wakeup1_eq woken_procs_def woken_def)
    then show ?thesis using 3 by (auto simp: nth does_def)
  next
    case 4
    note q = moves_release [OF W d, of PtableLock i "Suc j"]
    show ?thesis using q m 4 n i by (auto simp: nth meets_def o intro!: exI [of _ "rel PtableLock d ?t"])
  next
    case 5
    note q = moves_release [OF W d, of lk i "Suc j"]
    show ?thesis using q m 5 n i by (auto simp: nth meets_def o intro!: exI [of _ "rel lk d ?t"])
  qed
qed

section \<open>No order loses the wakeup\<close>

lemma weave_step:
  assumes w: "weave a b (t, drop i (sleeper ch lk p), drop j (waker ch lk)) (u, xs, ys)"
    and m: "meets a b c d p ch lk i j t" "turn i j" and n: "c \<noteq> d" "lk \<noteq> PtableLock" "p < NPROC"
  shows "\<exists>i' j'. i' + j' = Suc (i + j) \<and> turn i' j' \<and> meets a b c d p ch lk i' j' u \<and>
    xs = drop i' (sleeper ch lk p) \<and> ys = drop j' (waker ch lk)"
proof -
  from w consider (l) x where "drop i (sleeper ch lk p) = x # xs" "ys = drop j (waker ch lk)" "does a x t u"
    | (r) y where "drop j (waker ch lk) = y # ys" "xs = drop i (sleeper ch lk p)" "does b y t u"
    by (auto elim: weave_E)
  then show ?thesis
  proof cases
    case 1: l
    have i: "i < 6" "x = sleeper ch lk p ! i" "xs = drop (Suc i) (sleeper ch lk p)" using drop_code(2) [OF 1(1)] n(2) by simp_all
    have "turn (Suc i) j" using m(2) i(1) by (auto simp: turn_def)
    moreover have "meets a b c d p ch lk (Suc i) j u" using sleeper_step [OF m i(1) n(1,2)] 1(3) i(2) by auto
    ultimately show ?thesis using i(3) 1(2) by (intro exI [of _ "Suc i"] exI [of _ j]) simp
  next
    case 2: r
    have j: "j < 5" "y = waker ch lk ! j" "ys = drop (Suc j) (waker ch lk)" using drop_code(2) [OF 2(1)] by simp_all
    note q = waker_step [OF m j(1) n]
    have g: "\<not> (j = 0 \<and> i < 2 \<or> j = 1 \<and> i < 6)" using q 2(3) j(2) by (auto split: if_splits)
    then have "meets a b c d p ch lk i (Suc j) u" using q 2(3) j(2) by auto
    moreover have "turn i (Suc j)" using m(2) g j(1) by (auto simp: turn_def)
    ultimately show ?thesis using j(3) 2(2) by (intro exI [of _ i] exI [of _ "Suc j"]) simp
  qed
qed

lemma weave_run:
  assumes "(weave a b ^^ k) (u, sleeper ch lk p, waker ch lk) (t, xs, ys)" "meets a b c d p ch lk 0 0 u"
    and n: "c \<noteq> d" "lk \<noteq> PtableLock" "p < NPROC"
  shows "\<exists>i j. i + j = k \<and> turn i j \<and> meets a b c d p ch lk i j t \<and> xs = drop i (sleeper ch lk p) \<and> ys = drop j (waker ch lk)"
  using assms(1)
proof (induction k arbitrary: t xs ys)
  case 0
  then show ?case using assms(2) by (simp add: turn_def)
next
  case (Suc k)
  then obtain v xs' ys' where v: "(weave a b ^^ k) (u, sleeper ch lk p, waker ch lk) (v, xs', ys')" "weave a b (v, xs', ys') (t, xs, ys)"
    by (auto elim: relpowp_Suc_E)
  then obtain i j where "i + j = k" "turn i j" "meets a b c d p ch lk i j v" "xs' = drop i (sleeper ch lk p)" "ys' = drop j (waker ch lk)"
    using Suc.IH by blast
  then show ?case using weave_step [OF _ _ _ n, of a b v i ch j t xs ys] v(2) by auto
qed

text \<open>
  C14. A wakeup is never lost. A process that holds the lock \<open>lk\<close> calls \<open>sleep\<close> on a channel, and on another
  CPU somebody takes \<open>lk\<close>, calls \<open>wakeup\<close> on the channel and releases \<open>lk\<close>. However the statements of the
  two are interleaved, nothing panics and there is no deadlock: until all statements of both, eleven
  with the release of \<open>ptable.lock\<close> by the scheduler, have been executed, one of the CPUs can go on.
  In the end the sleeper is runnable. In particular there is no point between the release of \<open>lk\<close> and
  the switch at which the wakeup goes by.
\<close>

theorem no_lost_wakeup:
  assumes "all_steady s" "\<forall>l. lk_free l s" "\<forall>c < ncpu s. c_ncli (cpus s c) = 0"
    and "cpu_lookup (cpus s) (ncpu s) a = Some c" "cpu_lookup (cpus s) (ncpu s) b = Some d" "a \<noteq> b"
    and "c_proc (cpus s c) = Some p" "p < NPROC" "lk \<noteq> PtableLock" "acquire lk (s\<lparr>lapic_id := a\<rparr>) = Ok () u"
    and "(weave a b ^^ n) (u, sleep_code ch lk p @ [release PtableLock], acquire lk # wakeup_code ch @ [release lk]) (t, xs, ys)"
  shows "n < 11 \<and> (\<exists>z. weave a b (t, xs, ys) z) \<or> n = 11 \<and> xs = [] \<and> ys = [] \<and> p_state (procs t p) = RUNNABLE"
proof -
  have cd: "c \<noteq> d" using cpu_lookup_inj [OF assms(4)] assms(5,6) by auto
  have W: "cpu_locks (\<lambda>_. None) s" using lock_inv_start [OF assms(1-3)] assms(2) by (auto simp: cpu_locks_def lk_free_def)
  note q = cpu_locks_acquire [OF W assms(4) refl, of lk]
  have "(\<lambda>_. None)(lk := Some c) = owner c d lk 0 0" by (auto simp: owner_def)
  then have "meets a b c d p ch lk 0 0 u" using q assms(4,5,7,10) by (simp add: meets_def)
  from weave_run [OF _ this cd assms(9,8), of n t xs ys] assms(11) obtain i j where
    i: "i + j = n" "turn i j" and m: "meets a b c d p ch lk i j t" and l: "xs = drop i (sleeper ch lk p)" "ys = drop j (waker ch lk)"
    unfolding sleeper_def waker_def by blast
  consider "i < 6" | "i = 6" "j < 5" | "i = 6" "j = 5" using i(2) unfolding turn_def by linarith
  then show ?thesis
  proof cases
    case 1
    obtain v where "does a (sleeper ch lk p ! i) t v" using sleeper_step [OF m i(2) 1 cd assms(9)] by auto
    then have "weave a b (t, xs, ys) (v, drop (Suc i) (sleeper ch lk p), ys)"
      unfolding l(1) by (subst drop_code(1)) (use 1 assms(9) in \<open>simp_all add: weave.left\<close>)
    then show ?thesis using 1 i by (auto simp: turn_def)
  next
    case 2
    obtain v where "does b (waker ch lk ! j) t v" using waker_step [OF m i(2) 2(2) cd assms(9,8)] 2(1) by auto
    then have "weave a b (t, xs, ys) (v, xs, drop (Suc j) (waker ch lk))"
      unfolding l(2) by (subst drop_code(1)) (use 2 in \<open>simp_all add: weave.right\<close>)
    then show ?thesis using 2 i by auto
  next
    case 3
    then show ?thesis using i(1) l m assms(9) by (simp add: meets_def)
  qed
qed

text \<open>CPU 0 runs process 3, and CPU 1 nothing.\<close>

definition two_busy :: kstate where
  "two_busy = two_cpus\<lparr>cpus := idle_cpu(0 := (idle_cpu 0)\<lparr>c_proc := Some 3\<rparr>)\<rparr>"

lemma two_busy_ready:
  "all_steady two_busy" "\<forall>l. lk_free l two_busy" "\<forall>c < ncpu two_busy. c_ncli (cpus two_busy c) = 0"
  "cpu_lookup (cpus two_busy) (ncpu two_busy) 0 = Some 0" "cpu_lookup (cpus two_busy) (ncpu two_busy) 1 = Some 1"
  "c_proc (cpus two_busy 0) = Some 3"
proof -
  have l: "cpu_lookup (cpus two_busy) (ncpu two_busy) x = cpu_lookup idle_cpu 2 x" for x
    by (simp add: two_busy_def two_cpus_def cpu_lookup_upd)
  show "cpu_lookup (cpus two_busy) (ncpu two_busy) 0 = Some 0" "cpu_lookup (cpus two_busy) (ncpu two_busy) 1 = Some 1"
    by (simp_all add: l idle_lookup)
  show "all_steady two_busy" unfolding all_steady_def l
    by (auto simp: idle_lookup steady_def two_busy_def two_cpus_def idle_cpu_def split: if_splits)
qed (simp_all add: two_busy_def two_cpus_def lk_free_def free_spinlock_def idle_cpu_def)

theorem no_lost_wakeup_witness:
  "\<exists>u t. acquire TicksLock (two_busy\<lparr>lapic_id := 0\<rparr>) = Ok () u \<and>
     (weave 0 1 ^^ 11) (u, sleep_code ChanTicks TicksLock 3 @ [release PtableLock],
       acquire TicksLock # wakeup_code ChanTicks @ [release TicksLock]) (t, [], []) \<and>
     p_state (procs t 3) = RUNNABLE"
proof -
  have "cpu_locks (\<lambda>_. None) two_busy"
    using lock_inv_start [OF two_busy_ready(1-3)] two_busy_ready(2) by (auto simp: cpu_locks_def lk_free_def)
  from cpu_locks_acquire(1) [OF this two_busy_ready(4) refl] obtain u where
    u: "acquire TicksLock (two_busy\<lparr>lapic_id := 0\<rparr>) = Ok () u" by blast
  let ?z = "(u, sleep_code ChanTicks TicksLock 3 @ [release PtableLock], acquire TicksLock # wakeup_code ChanTicks @ [release TicksLock])"
  have st: "n < 11 \<and> (\<exists>z. weave 0 1 (t, xs, ys) z) \<or> n = 11 \<and> xs = [] \<and> ys = [] \<and> p_state (procs t 3) = RUNNABLE"
    if "(weave 0 1 ^^ n) ?z (t, xs, ys)" for n t xs ys
    using no_lost_wakeup [OF two_busy_ready(1-5) _ two_busy_ready(6) _ _ u that] by (simp add: NPROC_def)
  have "\<exists>z. (weave 0 1 ^^ n) ?z z" if "n \<le> 11" for n
    using that
  proof (induction n)
    case (Suc n)
    then obtain t xs ys where z: "(weave 0 1 ^^ n) ?z (t, xs, ys)" by auto
    then obtain z where "weave 0 1 (t, xs, ys) z" using st [OF z] Suc.prems by auto
    then show ?case using relpowp_Suc_I [OF z] by blast
  qed auto
  from this [OF order_refl] obtain t xs ys where z: "(weave 0 1 ^^ 11) ?z (t, xs, ys)" by (metis prod_cases3)
  then show ?thesis using st [OF z] u by auto
qed

end
