(* ===== verification/Proc_Spec.thy ===== *)
theory Proc_Spec
  imports Proc Frame Sleep_Spec
begin

text \<open>
  The process table: process identifiers stay unique whatever calls create, reap and kill processes;
  \<open>kill\<close>, \<open>wait\<close> and the scheduler do what they promise. The first section
  shows that the memory and file functions \<open>fork\<close> and \<open>wait\<close> use leave the process table alone.
\<close>

section \<open>Code that leaves the process table alone\<close>

definition same_procs :: "'z kstate_scheme \<Rightarrow> 'z kstate_scheme \<Rightarrow> bool" where
  "same_procs s t \<longleftrightarrow> procs t = procs s \<and> nextpid t = nextpid s"

interpretation sp: frame same_procs
  by unfold_locales (auto simp: same_procs_def)

lemma same_procs_self [simp]: "same_procs s s"
  by (rule sp.self)

lemma same_procs_locks: "only_locks s t \<Longrightarrow> same_procs s t"
  by (simp add: same_procs_def only_locksD)

lemma same_procs_fields [simp]:
  "same_procs s (a\<lparr>kram := m\<rparr>) = same_procs s a" "same_procs s (a\<lparr>kmem_freelist := w\<rparr>) = same_procs s a"
  by (simp_all add: same_procs_def)

lemma same_procs_mem [simp]:
  "same_procs s (store x w t) = same_procs s t" "same_procs s (zero_page x t) = same_procs s t"
  by (simp_all add: same_procs_def store_def zero_page_def)

lemma same_procs_table [simp]:
  "same_procs s (upd_file f g t) = same_procs s t"
  by (simp add: same_procs_def upd_file_def)

lemma same_procs_inode [simp]: "same_procs s (upd_inode f g t) = same_procs s t"
  by (simp add: same_procs_def upd_inode_def)

lemma sp_acquire: "kept same_procs s (acquire l s)"
  by (rule kept_mono [OF locks_acquire same_procs_locks])

lemma sp_release: "kept same_procs s (release l s)"
  by (rule kept_mono [OF locks_release same_procs_locks])

lemma sp_myproc: "kept same_procs s (myproc s)"
  by (rule kept_mono [OF locks_myproc same_procs_locks])


lemma sp_release_upd: "same_procs s t \<Longrightarrow> kept same_procs s (release l t)"
  by (rule sp.kept_from [OF sp_release])

lemma sp_kmem: "kept same_procs s (kmem_acquire s)" "same_procs s t \<Longrightarrow> kept same_procs s (kmem_release t)"
  by (simp_all add: kmem_acquire_def kmem_release_def sp_acquire sp_release_upd)

lemma sp_kfree: "kept same_procs s (kfree v s)"
  unfolding kfree_def Let_def
  by (auto intro!: sp.kept_andthen sp_kmem(2) sp.kept_from [OF sp_kmem(1)])

lemma sp_kalloc: "kept same_procs s (kalloc s)"
  unfolding kalloc_def Let_def by (auto intro!: sp.kept_andthen sp_kmem)

lemma sp_walkpgdir: "kept same_procs s (walkpgdir d a b s)"
  unfolding walkpgdir_def Let_def by (auto intro!: sp.kept_andthen sp_kalloc)

lemma sp_store [simp]: "kept same_procs (store x w t) r = kept same_procs t r"
  by (cases r) (simp_all add: same_procs_def store_def)

lemma sp_mappages_loop: "kept same_procs s (mappages_loop d as pa perm s)"
  by (induction d as pa perm s rule: mappages_loop.induct)
    (auto intro!: sp.kept_andthen sp_walkpgdir)

lemma sp_mappages: "kept same_procs s (mappages d va n pa perm s)"
  by (simp add: mappages_def sp_mappages_loop)

lemma sp_dealloc_loop: "dealloc_loop d a n s = Some r \<Longrightarrow> kept same_procs s r"
proof (rule dealloc_loop.raw_induct [where P = "\<lambda>d a n s r. kept same_procs s r"], goal_cases)
  case (1 loop d a n s r)
  note ih = 1(2) and eq = 1(3)
  show ?case
  proof (cases "a < n")
    case True
    show ?thesis
    proof (cases "walkpgdir d a False s")
      case (Ok pte t)
      have t: "same_procs s t" using sp_walkpgdir [of s d a False] Ok by simp
      have k: "kept same_procs t r" if "kfree v t = Ok () u" "loop d (a + PGSIZE) n (store pte 0 u) = Some r" for v u
        using sp_kfree [of t v] that(1) ih [OF that(2)] by (auto intro: sp.kept_from)
      have "kept same_procs t r"
        using eq True Ok ih sp_kfree [of t] by (auto simp: Let_def intro: k split: if_splits res.splits)
      then show ?thesis using t by (rule sp.kept_from)
    qed (use eq True sp_walkpgdir [of s d a False] in auto)
  qed (use eq in auto)
qed

lemma sp_deallocuvm: "kept same_procs s (deallocuvm d a b s)"
  unfolding deallocuvm_def by (auto intro!: sp.kept_andthen sp_dealloc_loop split: option.split)

lemma sp_freevm: "kept same_procs s (freevm d s)"
proof -
  have "kept same_procs t (free_pgtab d i t)" for i t by (simp add: free_pgtab_def Let_def sp_kfree)
  then show ?thesis
    unfolding freevm_def by (auto intro!: sp.kept_andthen sp_deallocuvm sp.kept_foreach sp_kfree)
qed

lemma sp_map_kernel: "kept same_procs s (map_kernel d ks s)"
  by (induction d ks s rule: map_kernel.induct) (auto intro!: sp.kept_andthen sp_mappages sp_freevm)

lemma sp_setupkvm: "kept same_procs s (setupkvm s)"
  unfolding setupkvm_def Let_def by (auto intro!: sp.kept_andthen sp_kalloc sp.kept_from [OF sp_map_kernel])

lemma sp_copyuvm_loop: "kept same_procs s (copyuvm_loop d e is s)"
  by (induction d e "is" s rule: copyuvm_loop.induct)
    (auto simp: Let_def intro!: sp.kept_andthen sp_walkpgdir sp_kalloc sp_freevm sp_kfree sp.kept_from [OF sp_mappages])

lemma sp_copyuvm: "kept same_procs s (copyuvm d n s)"
  unfolding copyuvm_def by (auto intro!: sp.kept_andthen sp_setupkvm sp_copyuvm_loop)

lemma sp_filedup: "kept same_procs s (filedup f s)"
  unfolding filedup_def by (auto intro!: sp.kept_andthen sp_acquire sp_release_upd)

lemma sp_idup: "kept same_procs s (idup f s)"
  unfolding idup_def by (auto intro!: sp.kept_andthen sp_acquire sp_release_upd)

lemma sp_the_proc: "kept same_procs s (the_proc s)"
  unfolding the_proc_def by (auto intro!: sp.kept_andthen sp_myproc split: option.split)


section \<open>Process identifiers\<close>

definition live :: "'z kstate_scheme \<Rightarrow> nat \<Rightarrow> bool" where
  "live s p \<longleftrightarrow> p < NPROC \<and> p_state (procs s p) \<noteq> UNUSED"

text \<open>Every process has an identifier of its own, and the counter is above all of them.\<close>

definition pids_ok :: "'z kstate_scheme \<Rightarrow> bool" where
  "pids_ok s \<longleftrightarrow> 0 < nextpid s \<and> (\<forall>p. live s p \<longrightarrow> 0 < p_pid (procs s p) \<and> p_pid (procs s p) < nextpid s) \<and>
     (\<forall>p q. live s p \<and> live s q \<and> p_pid (procs s p) = p_pid (procs s q) \<longrightarrow> p = q)"

text \<open>One more process at most, and the counter of identifiers has not wrapped around.\<close>

definition pids_next :: "'z kstate_scheme \<Rightarrow> 'z kstate_scheme \<Rightarrow> bool" where
  "pids_next s t \<longleftrightarrow> pids_ok t \<and> nextpid t \<le> nextpid s + 1"

lemma pid_inc_small:
  assumes "0 < n" "n < 2147483647"
  shows "pid_inc n = n + 1"
proof -
  have "signed_take_bit 31 (n + 1) = n + 1" using assms by (intro signed_take_bit_int_eq_self) simp_all
  then show ?thesis unfolding pid_inc_def signed_of_int by simp
qed

text \<open>The process table has the same processes with the same identifiers.\<close>

definition roster :: "'z kstate_scheme \<Rightarrow> 'z kstate_scheme \<Rightarrow> bool" where
  "roster s t \<longleftrightarrow> nextpid t = nextpid s \<and>
     (\<forall>p. p_pid (procs t p) = p_pid (procs s p) \<and> (p_state (procs t p) = UNUSED \<longleftrightarrow> p_state (procs s p) = UNUSED))"

interpretation ro: frame roster
  by unfold_locales (auto simp: roster_def)

lemma roster_self [simp]: "roster s s"
  by (rule ro.self)

lemma roster_same: "same_procs s t \<Longrightarrow> roster s t"
  by (simp add: roster_def same_procs_def)

lemma roster_upd:
  "roster s t \<Longrightarrow> p_pid (f (procs t p)) = p_pid (procs t p) \<Longrightarrow>
   (p_state (f (procs t p)) = UNUSED \<longleftrightarrow> p_state (procs t p) = UNUSED) \<Longrightarrow> roster s (upd_proc p f t)"
  by (auto simp: roster_def upd_proc_def)

lemma pids_shrink:
  assumes "pids_ok s" "nextpid s \<le> nextpid t" "\<And>p. live t p \<Longrightarrow> live s p \<and> p_pid (procs t p) = p_pid (procs s p)"
  shows "pids_ok t"
  using assms by (auto simp: pids_ok_def; force)

lemma pids_roster: "pids_ok s \<Longrightarrow> roster s t \<Longrightarrow> pids_ok t"
  by (rule pids_shrink) (auto simp: roster_def live_def)

lemma pids_new:
  assumes "pids_ok s" "p_pid q = nextpid s" "procs t = (procs s)(p := q)" "nextpid t = nextpid s + 1"
  shows "pids_next s t"
proof -
  have l: "live t x \<Longrightarrow> x \<noteq> p \<Longrightarrow> live s x" for x using assms(3) by (simp add: live_def)
  have "p_pid (procs t x) < nextpid t \<and> 0 < p_pid (procs t x)" if "live t x" for x
    using assms l [OF that] by (cases "x = p") (auto simp: pids_ok_def)
  moreover have "x = y" if "live t x" "live t y" "p_pid (procs t x) = p_pid (procs t y)" for x y
    using assms l [OF that(1)] l [OF that(2)] that(3) by (cases "x = p"; cases "y = p") (auto simp: pids_ok_def)
  ultimately show ?thesis using assms(1,4) by (simp add: pids_next_def pids_ok_def)
qed

lemma next_same: "pids_ok s \<Longrightarrow> roster s t \<Longrightarrow> pids_next s t"
  using pids_roster [of s t] by (simp add: pids_next_def roster_def)

lemma next_roster: "pids_next s t \<Longrightarrow> roster t u \<Longrightarrow> pids_next s u"
  using pids_roster [of t u] by (auto simp: pids_next_def roster_def)

lemma roster_next: "roster s t \<Longrightarrow> pids_next t u \<Longrightarrow> pids_next s u"
  by (auto simp: pids_next_def roster_def)

lemma sp_OkD: "kept same_procs s r \<Longrightarrow> r = Ok x t \<Longrightarrow> procs t = procs s \<and> nextpid t = nextpid s"
  by (simp add: same_procs_def)

lemma allocproc_result:
  assumes "allocproc s = Ok r t"
  shows "(r = None \<and> procs t = procs s \<and> nextpid t = nextpid s) \<or>
    (\<exists>p q. p < NPROC \<and> p_state (procs s p) = UNUSED \<and> procs t = (procs s)(p := q) \<and> nextpid t = pid_inc (nextpid s) \<and>
      p_pid q = nextpid s \<and> p_killed q = p_killed (procs s p) \<and>
      (if r = None then p_state q = UNUSED else r = Some p \<and> p_state q = EMBRYO))"
proof -
  obtain s1 where a: "acquire PtableLock s = Ok () s1" using assms by (auto simp: allocproc_def res_simps)
  note s1 = sp_OkD [OF sp_acquire a]
  show ?thesis
  proof (cases "find (\<lambda>p. p_state (procs s p) = UNUSED) [0..<NPROC]")
    case None
    then have "r = None" "release PtableLock s1 = Ok () t" using assms a s1 by (auto simp: allocproc_def res_simps)
    then show ?thesis using s1 sp_OkD [OF sp_release, of PtableLock s1 _ t] by simp
  next
    case (Some p)
    then have p: "p < NPROC" "p_state (procs s p) = UNUSED" by (auto simp: find_Some_iff)
    let ?u = "upd_proc p (\<lambda>r. r\<lparr>p_state := EMBRYO, p_pid := nextpid s1\<rparr>) s1"
    obtain s2 s3 k where r: "release PtableLock (?u\<lparr>nextpid := pid_inc (nextpid ?u)\<rparr>) = Ok () s2" and k: "kalloc s2 = Ok k s3"
      and t: "(let s = upd_proc p (\<lambda>r. r\<lparr>p_kstack := k\<rparr>) s3
            in if k = 0 then Ok None (upd_proc p (\<lambda>r. r\<lparr>p_state := UNUSED\<rparr>) s)
               else
                 let sp = k + of_nat KSTACKSIZE - TF_SIZE - 4;
                     s = store sp (sym_trapret s) s;
                     s = upd_proc p (\<lambda>r. r\<lparr>p_context := zero_context\<lparr>cx_eip := sym_forkret s\<rparr>\<rparr>) s
                 in Ok (Some p) s) = Ok r t"
      using assms a s1 Some
      by (simp only: allocproc_def res_simps Let_def option.case) (auto simp: Let_def)
    have s2: "procs s2 = (procs s)(p := (procs s p)\<lparr>p_state := EMBRYO, p_pid := nextpid s\<rparr>)" "nextpid s2 = pid_inc (nextpid s)"
      using sp_OkD [OF sp_release r] s1 by (simp_all add: upd_proc_def)
    note s3 = sp_OkD [OF sp_kalloc k]
    show ?thesis
      using t s2 s3 p
      by (intro disjI2 exI [of _ p] exI [of _ "procs t p"]) (auto simp: upd_proc_def store_def Let_def split: if_splits)
  qed
qed

lemma allocproc_pids:
  assumes "allocproc s = Ok r t" "pids_ok s" "nextpid s < 2147483647"
  shows "pids_next s t"
proof -
  have "pid_inc (nextpid s) = nextpid s + 1" using assms(2,3) by (intro pid_inc_small) (simp_all add: pids_ok_def)
  then show ?thesis
    using allocproc_result [OF assms(1)] pids_new [OF assms(2), of _ t] next_same [OF assms(2), of t]
    by (auto simp: roster_def)
qed


lemma ro_acquire: "kept roster s (acquire l s)"
  by (rule kept_mono [OF sp_acquire roster_same])

lemma ro_release: "roster s t \<Longrightarrow> kept roster s (release l t)"
  by (rule ro.kept_from [OF kept_mono [OF sp_release roster_same]])

lemma ro_dup_fd: "kept roster s (dup_fd p np i s)"
  unfolding dup_fd_def
  by (auto intro!: ro.kept_andthen kept_mono [OF sp_filedup roster_same] roster_upd split: option.split)

lemma roster_live: "roster s t \<Longrightarrow> live t p = live s p"
  by (simp add: roster_def live_def)

lemma ro_set_runnable:
  assumes "p_state (procs s p) \<noteq> UNUSED"
  shows "kept roster s (set_runnable p s)"
  unfolding set_runnable_def
  by (rule ro.kept_then [OF ro_acquire], intro ro_release roster_upd) (use assms in \<open>simp_all add: roster_def\<close>)

lemma pids_drop:
  assumes "pids_next s t" "p_state (f (procs t q)) = UNUSED"
  shows "pids_next s (upd_proc q f t)"
proof -
  have "pids_ok t" using assms(1) by (simp add: pids_next_def)
  then have "pids_ok (upd_proc q f t)"
    by (rule pids_shrink) (use assms(2) in \<open>auto simp: live_def upd_proc_def split: if_splits\<close>)
  then show ?thesis using assms(1) by (simp add: pids_next_def upd_proc_def)
qed

text \<open>The part of \<open>fork\<close> after the address space has been copied keeps the roster.\<close>

lemma fork_tail_roster:
  assumes "p_state (procs s q) \<noteq> UNUSED"
  shows "kept roster s (andthen (foreach (dup_fd p q) xs s) (\<lambda>_ s.
     case p_cwd (procs s p) of None \<Rightarrow> Panic ''null cwd''
     | Some cwd \<Rightarrow>
         andthen (idup cwd s) (\<lambda>cwd s.
         let s = upd_proc q (\<lambda>r. r\<lparr>p_cwd := Some cwd, p_name := p_name (procs s p)\<rparr>) s; pid = p_pid (procs s q)
         in andthen (set_runnable q s) (\<lambda>_ s. Ok pid s))))"
proof (rule ro.kept_then [OF ro.kept_foreach [OF ro_dup_fd]], split option.split, intro conjI impI allI, simp, unfold Let_def)
  fix t cwd
  assume t: "roster s t"
  show "kept roster t (andthen (idup cwd t) (\<lambda>cwd s.
     andthen (set_runnable q (upd_proc q (\<lambda>r. r\<lparr>p_cwd := Some cwd, p_name := p_name (procs s p)\<rparr>) s))
       (\<lambda>_ s'. Ok (p_pid (procs (upd_proc q (\<lambda>r. r\<lparr>p_cwd := Some cwd, p_name := p_name (procs s p)\<rparr>) s) q)) s')))"
  proof (rule ro.kept_then [OF kept_mono [OF sp_idup roster_same]])
    fix c u
    assume u: "roster t u"
    let ?w = "upd_proc q (\<lambda>r. r\<lparr>p_cwd := Some c, p_name := p_name (procs u p)\<rparr>) u"
    have w: "roster u ?w" by (rule roster_upd) simp_all
    then have "p_state (procs ?w q) \<noteq> UNUSED" using assms t u by (simp add: roster_def)
    then have "kept roster u (set_runnable q ?w)" by (rule ro.kept_from [OF ro_set_runnable w])
    then show "kept roster u (andthen (set_runnable q ?w) (\<lambda>_ s'. Ok (p_pid (procs ?w q)) s'))"
      by (rule ro.kept_andthen) simp
  qed
qed

lemma fork_pids:
  assumes f: "fork s = Ok r t" and ok: "pids_ok s" "nextpid s < 2147483647"
  shows "pids_next s t"
proof -
  obtain p s1 np s2 where p: "the_proc s = Ok p s1" and a: "allocproc s1 = Ok np s2"
    using f by (auto simp: fork_def res_simps)
  have ro: "roster s s1" using sp_the_proc [of s] p by (intro roster_same) simp
  have "pids_ok s1" "nextpid s1 < 2147483647" using pids_roster [OF ok(1) ro] ro ok(2) by (simp_all add: roster_def)
  then have ok2: "pids_next s s2" by (intro roster_next [OF ro] allocproc_pids [OF a])
  show ?thesis
  proof (cases np)
    case None
    then show ?thesis using f p a ok2 by (simp add: fork_def)
  next
    case (Some q)
    have e: "p_state (procs s2 q) \<noteq> UNUSED" using allocproc_result [OF a] Some by (auto split: if_splits)
    obtain d s3 where c: "copyuvm (p_pgdir (procs s2 p)) (p_sz (procs s2 p)) s2 = Ok d s3"
      using f p a Some by (auto simp: fork_def res_simps)
    have s3: "procs s3 = procs s2" "nextpid s3 = nextpid s2" using sp_OkD [OF sp_copyuvm c] by simp_all
    let ?v = "upd_proc q (\<lambda>r. r\<lparr>p_pgdir := d\<rparr>) s3"
    have v: "roster s2 ?v" using s3 by (auto simp: roster_def upd_proc_def)
    show ?thesis
    proof (cases "d = 0")
      case True
      then obtain s4 where k: "kfree (p_kstack (procs ?v q)) ?v = Ok () s4"
        and t: "t = upd_proc q (\<lambda>r. r\<lparr>p_kstack := 0, p_state := UNUSED\<rparr>) s4"
        using f p a Some c by (auto simp: fork_def res_simps Let_def)
      have "same_procs ?v s4" using sp_kfree [of ?v "p_kstack (procs ?v q)"] k by simp
      then have "roster s2 s4" by (rule ro.chain [OF v roster_same])
      then show ?thesis unfolding t by (intro pids_drop next_roster [OF ok2]) simp_all
    next
      case False
      let ?w = "upd_proc q (\<lambda>r. r\<lparr>p_sz := p_sz (procs ?v p), p_parent := Some p,
              p_tf := (p_tf (procs ?v p))\<lparr>tf_eax := 0\<rparr>\<rparr>) ?v"
      have w: "roster s2 ?w" by (rule roster_upd [OF v]) simp_all
      then have "p_state (procs ?w q) \<noteq> UNUSED" using e by (simp add: roster_def)
      from fork_tail_roster [OF this, of p "[0..<NOFILE]"] have "roster ?w t"
        using f p a Some c False by (simp add: fork_def Let_def)
      then show ?thesis by (intro next_roster [OF ok2] ro.chain [OF w])
    qed
  qed
qed


lemma wait_loop_pids:
  assumes w: "wait_loop p s = Ok r t" and ok: "pids_ok s"
  shows "pids_next s t"
proof (cases "find (\<lambda>q. p_parent (procs s q) = Some p \<and> p_state (procs s q) = ZOMBIE) [0..<NPROC]")
  case None
  from None w have "release PtableLock s = Ok () t" by (auto simp: wait_loop_def res_simps split: if_splits)
  then show ?thesis using ro_release [of s s PtableLock] next_same [OF ok] by simp
next
  case (Some q)
  then obtain s1 s2 where 1: "kfree (p_kstack (procs s q)) s = Ok () s1"
    and 2: "freevm (p_pgdir (procs s1 q)) (upd_proc q (\<lambda>r. r\<lparr>p_kstack := 0\<rparr>) s1) = Ok () s2"
    and 3: "release PtableLock (upd_proc q (\<lambda>r. r\<lparr>p_pid := 0, p_parent := None, p_name := [], p_killed := False, p_state := UNUSED\<rparr>) s2) = Ok () t"
    using w by (auto simp: wait_loop_def res_simps Let_def)
  let ?u = "upd_proc q (\<lambda>r. r\<lparr>p_kstack := 0\<rparr>) s1"
  have "roster s s1" using sp_kfree [of s] 1 by (metis kept_simps(1) roster_same)
  then have u: "roster s ?u" by (rule roster_upd) simp_all
  have "same_procs ?u s2" using sp_freevm [of ?u] 2 by (metis kept_simps(1))
  then have "roster s s2" by (rule ro.chain [OF u roster_same])
  then have "pids_next s (upd_proc q (\<lambda>r. r\<lparr>p_pid := 0, p_parent := None, p_name := [], p_killed := False, p_state := UNUSED\<rparr>) s2)"
    by (intro pids_drop next_same [OF ok]) simp_all
  moreover have "roster (upd_proc q (\<lambda>r. r\<lparr>p_pid := 0, p_parent := None, p_name := [], p_killed := False, p_state := UNUSED\<rparr>) s2) t"
    using ro_release [OF roster_self] 3 by (rule kept_OkD)
  ultimately show ?thesis by (rule next_roster)
qed

lemma wait_pids: "wait s = Ok r t \<Longrightarrow> pids_ok s \<Longrightarrow> pids_next s t"
proof -
  assume "wait s = Ok r t" "pids_ok s"
  then obtain p u v where "the_proc s = Ok p u" "acquire PtableLock u = Ok () v" "wait_loop p v = Ok r t"
    by (auto simp: wait_def res_simps)
  moreover from this have "roster s v"
    using sp_the_proc [of s] sp_acquire [of u PtableLock] by (auto intro: ro.chain roster_same)
  ultimately show ?thesis using wait_loop_pids pids_roster [OF \<open>pids_ok s\<close>] roster_next by blast
qed

lemma ro_sleep_return: "kept roster s (sleep_return p lk i s)"
proof -
  have m: "kept roster u (mycpu u)" for u :: "'a kstate_scheme"
    by (rule kept_mono [OF locks_mycpu roster_same [OF same_procs_locks]])
  have r: "kept roster u (sched_return i u)" for u :: "'a kstate_scheme"
    unfolding sched_return_def by (rule ro.kept_andthen [OF m]) (simp add: roster_def upd_cpu_def)
  have "roster u (upd_proc p (\<lambda>r. r\<lparr>p_chan := None\<rparr>) u)" for u :: "'a kstate_scheme" by (rule roster_upd) simp_all
  then show ?thesis
    unfolding sleep_return_def Let_def by (auto intro!: ro.kept_andthen r ro_release ro_acquire)
qed

lemma wait_resume_pids:
  assumes "wait_resume p i s = Ok r t" "pids_ok s"
  shows "pids_next s t"
proof -
  obtain u where "sleep_return p PtableLock i s = Ok () u" and w: "wait_loop p u = Ok r t"
    using assms(1) by (auto simp: wait_resume_def res_simps)
  then have "roster s u" using ro_sleep_return [of s p PtableLock i] by simp
  then show ?thesis by (intro roster_next [OF _ wait_loop_pids [OF w pids_roster [OF assms(2)]]])
qed

lemma ro_kill: "kept roster s (kill pid s)"
  unfolding kill_def Let_def
  by (auto intro!: ro.kept_andthen ro_acquire ro_release roster_upd simp: upd_proc_def roster_def split: option.split)

text \<open>
  The process table in time: processes are created, forked, reaped and killed, and anything may
  happen in between that neither adds nor removes a process.
\<close>

inductive ptable_step :: "'z prstate_scheme \<Rightarrow> 'z prstate_scheme \<Rightarrow> bool" where
  create: "allocproc s = Ok r t \<Longrightarrow> ptable_step s t"
| fork: "fork s = Ok r t \<Longrightarrow> ptable_step s t"
| reap: "wait s = Ok r t \<Longrightarrow> ptable_step s t"
| reap_resumed: "wait_resume p i s = Ok r t \<Longrightarrow> ptable_step s t"
| kill: "kill pid s = Ok r t \<Longrightarrow> ptable_step s t"
| other: "roster s t \<Longrightarrow> ptable_step s t"

lemma ptable_step_pids: "ptable_step s t \<Longrightarrow> pids_ok s \<Longrightarrow> nextpid s < 2147483647 \<Longrightarrow> pids_next s t"
proof (induction rule: ptable_step.induct)
  case (kill pid s r t)
  then show ?case using ro_kill [of s pid] next_same by auto
qed (auto intro: allocproc_pids fork_pids wait_pids wait_resume_pids next_same)

lemma ptable_run_pids:
  "(ptable_step ^^ n) s t \<Longrightarrow> pids_ok s \<Longrightarrow> nextpid s + int n \<le> 2147483647 \<Longrightarrow> pids_ok t \<and> nextpid t \<le> nextpid s + int n"
proof (induction n arbitrary: t)
  case (Suc n)
  then obtain u where u: "(ptable_step ^^ n) s u" "ptable_step u t" by auto
  have "pids_ok u" "nextpid u \<le> nextpid s + int n" using Suc.IH [OF u(1) Suc.prems(2)] Suc.prems(3) by simp_all
  then show ?case using ptable_step_pids [OF u(2)] Suc.prems(3) by (simp add: pids_next_def)
qed simp

text \<open>
  C23. No two processes have the same identifier, until the counter runs out: from a process table in
  which identifiers are unique and below \<open>nextpid\<close>, any sequence of \<open>n\<close> process creations, forks, waits
  and kills, in any order, leaves identifiers that are unique, positive and below \<open>nextpid\<close>, provided
  that \<open>nextpid + n\<close> is at most \<open>2^31 - 1\<close>, the largest \<open>int\<close>.
\<close>

theorem pids_unique:
  assumes "(ptable_step ^^ n) s t" "pids_ok s" "nextpid s + int n \<le> 2147483647"
    "live t p" "live t q" "p_pid (procs t p) = p_pid (procs t q)"
  shows "p = q \<and> 0 < p_pid (procs t p) \<and> p_pid (procs t p) < nextpid t"
  using ptable_run_pids [OF assms(1-3)] assms(4-6) by (simp add: pids_ok_def)

text \<open>Then it does run out: the process created last has the largest identifier, and the counter becomes
  negative, as will the identifiers of the processes that follow.\<close>

lemma pids_wrap:
  assumes "allocproc s = Ok (Some p) t" "nextpid s = 2147483647"
  shows "p_pid (procs t p) = 2147483647 \<and> nextpid t = - 2147483648"
  using allocproc_result [OF assms(1)] assms(2) by (auto simp: pid_inc_def)


section \<open>Kill\<close>

lemma kill_runs:
  assumes r: "runs c q s"
  shows "kill pid s =
    (case find (\<lambda>p. p_pid (procs s p) = pid) [0..<NPROC] of
       None \<Rightarrow> Ok (- 1) s
     | Some p \<Rightarrow> Ok 0 (upd_proc p (\<lambda>r. r\<lparr>p_killed := True,
         p_state := if p_state r = SLEEPING then RUNNABLE else p_state r\<rparr>) s))"
proof -
  have "release PtableLock (acq PtableLock c (s\<lparr>procs := x\<rparr>)) = Ok () (s\<lparr>procs := x\<rparr>)" for x
    using r by (intro release_acq_runs [of c q]) simp
  then show ?thesis
    using release_acq_runs [OF r, of PtableLock]
    by (auto simp: kill_def acquire_runs [OF r] Let_def upd_proc_def acq_procs split: option.split)
qed

text \<open>
  C40. \<open>kill(0)\<close> succeeds on a free slot of the process table, because free slots have identifier 0, and
  marks it killed. The mark is not cleared when a process is created there: the next process to
  get the slot is born killed.
\<close>

theorem kill_zero_poisons:
  assumes "runs c q s" "find (\<lambda>p. p_pid (procs s p) = 0) [0..<NPROC] = Some p" "p_state (procs s p) = UNUSED"
  shows "\<exists>t. kill 0 s = Ok 0 t \<and> (\<forall>u. allocproc t = Ok (Some p) u \<longrightarrow> p_killed (procs u p) \<and> p_pid (procs u p) = nextpid s)"
proof (intro exI conjI allI impI)
  let ?t = "upd_proc p (\<lambda>r. r\<lparr>p_killed := True, p_state := if p_state r = SLEEPING then RUNNABLE else p_state r\<rparr>) s"
  show "kill 0 s = Ok 0 ?t" using kill_runs [OF assms(1), of 0] assms(2) by simp
  fix u
  assume "allocproc ?t = Ok (Some p) u"
  from allocproc_result [OF this] show "p_killed (procs u p)" "p_pid (procs u p) = nextpid s"
    by (auto simp: upd_proc_def)
qed

section \<open>A machine with processes\<close>

definition closed_file :: kfile where
  "closed_file = \<lparr>f_type = FD_NONE, f_ref = 0, f_readable = False, f_writable = False, f_pipe = 0, f_ip = 0, f_off = 0\<rparr>"

text \<open>Process 0 runs, the other slots are free; the memory is \<open>m\<close>, the first free page \<open>a\<close>.\<close>

definition proc_machine :: "mem \<Rightarrow> u32 \<Rightarrow> prstate" where
  "proc_machine m a = (fdstate.extend (pstate.extend (vstate.extend (vm_machine m a) (pstate.fields (\<lambda>_. old_pipe)))
     (fdstate.fields (\<lambda>_. closed_file))) (prstate.fields 0x80102000 0x80103000 False))
       \<lparr>procs := (\<lambda>_. zero_proc)(0 := zero_proc\<lparr>p_state := RUNNING, p_pid := 1\<rparr>), nextpid := 2\<rparr>"

lemma proc_machine_runs: "runs 0 0 (proc_machine m a)"
  using vm_machine_runs [of m a]
  by (simp add: proc_machine_def runs_def calm_def steady_def lk_free_def vstate.defs pstate.defs fdstate.defs prstate.defs)

lemma proc_machine_simps [simp]:
  "procs (proc_machine m a) = (\<lambda>_. zero_proc)(0 := zero_proc\<lparr>p_state := RUNNING, p_pid := 1\<rparr>)"
  "nextpid (proc_machine m a) = 2" "kram (proc_machine m a) = m" "kmem_freelist (proc_machine m a) = a"
  "kmem_use_lock (proc_machine m a) = False"
  by (simp_all add: proc_machine_def vm_machine_def mstate.defs vstate.defs pstate.defs fdstate.defs prstate.defs)

lemma slots: "[0..<NPROC] = 0 # 1 # [2..<NPROC]"
  by (simp add: NPROC_def upt_rec)

lemma zero_proc_state [simp]: "p_state zero_proc = UNUSED" "p_pid zero_proc = 0" "\<not> p_killed zero_proc"
  by (simp_all add: zero_proc_def)

lemma allocproc_succeeds:
  assumes r: "runs c q s" and k: "\<not> kmem_use_lock s" "kmem_freelist s \<noteq> 0"
    and p: "find (\<lambda>p. p_state (procs s p) = UNUSED) [0..<NPROC] = Some p"
  shows "\<exists>t. allocproc s = Ok (Some p) t"
proof -
  let ?v = "s\<lparr>procs := (procs s)(p := (procs s p)\<lparr>p_state := EMBRYO, p_pid := nextpid s\<rparr>), nextpid := pid_inc (nextpid s)\<rparr>"
  have "runs c q ?v" using r by (simp add: runs_def calm_def steady_def lk_free_def)
  then have "release PtableLock (acq PtableLock c ?v) = Ok () ?v" by (rule release_acq_runs)
  moreover have "(upd_proc p (\<lambda>r. r\<lparr>p_state := EMBRYO, p_pid := nextpid s\<rparr>) (acq PtableLock c s))\<lparr>nextpid := pid_inc (nextpid s)\<rparr>
      = acq PtableLock c ?v"
    by (simp add: upd_proc_def acq_def)
  ultimately have l: "release PtableLock ((upd_proc p (\<lambda>r. r\<lparr>p_state := EMBRYO, p_pid := nextpid s\<rparr>)
      (acq PtableLock c s))\<lparr>nextpid := pid_inc (nextpid s)\<rparr>) = Ok () ?v" by simp
  have n: "nextpid (upd_proc p f t) = nextpid t" for f and t :: "'a prstate_scheme" by (simp add: upd_proc_def)
  have "\<exists>u. kalloc ?v = Ok (kmem_freelist s) u" using k by (simp add: kalloc_def kmem_acquire_def kmem_release_def Let_def)
  then show ?thesis
    using k by (auto simp: allocproc_def acquire_runs [OF r] p Let_def n l)
qed

lemma proc_machine_free: "p_state r = UNUSED \<Longrightarrow>
  find (\<lambda>p. p_state (procs (upd_proc 1 (\<lambda>_. r) (proc_machine m a)) p) = UNUSED) [0..<NPROC] = Some 1"
  "find (\<lambda>p. p_state (procs (proc_machine m a) p) = UNUSED) [0..<NPROC] = Some 1"
  by (simp_all add: upd_proc_def slots)

theorem kill_zero_poisons_witness:
  "\<exists>t u. kill 0 (proc_machine (\<lambda>_. 0) 0x80400000) = Ok 0 t \<and> allocproc t = Ok (Some 1) u \<and>
     p_killed (procs u 1) \<and> p_pid (procs u 1) = 2"
proof -
  let ?s = "proc_machine (\<lambda>_. 0) 0x80400000"
  have f: "find (\<lambda>p. p_pid (procs ?s p) = 0) [0..<NPROC] = Some 1" by (simp add: slots)
  obtain t where t: "kill 0 ?s = Ok 0 t"
    "\<And>u. allocproc t = Ok (Some 1) u \<Longrightarrow> p_killed (procs u 1) \<and> p_pid (procs u 1) = nextpid ?s"
    using kill_zero_poisons [OF proc_machine_runs f] by auto
  let ?t = "upd_proc 1 (\<lambda>_. zero_proc\<lparr>p_killed := True\<rparr>) ?s"
  have e: "t = ?t"
    using kill_runs [OF proc_machine_runs, of 0 "\<lambda>_. 0" "0x80400000"] f t(1) by (simp add: upd_proc_def zero_proc_def)
  have "runs 0 0 ?t" using proc_machine_runs [of "\<lambda>_. 0" "0x80400000"] by (simp add: upd_proc_def)
  then obtain u where "allocproc t = Ok (Some 1) u"
    unfolding e using allocproc_succeeds [of 0 0 ?t 1] proc_machine_free(1) [of "zero_proc\<lparr>p_killed := True\<rparr>"]
    by (auto simp: upd_proc_def)
  then show ?thesis using t by auto
qed

theorem pids_unique_witness:
  "\<exists>t. allocproc (proc_machine (\<lambda>_. 0) 0x80400000) = Ok (Some 1) t \<and> live t 0 \<and> live t 1 \<and>
     p_pid (procs t 0) \<noteq> p_pid (procs t 1)"
proof -
  let ?s = "proc_machine (\<lambda>_. 0) 0x80400000"
  obtain t where t: "allocproc ?s = Ok (Some 1) t"
    using allocproc_succeeds [OF proc_machine_runs _ _ proc_machine_free(2), of "\<lambda>_. 0" "0x80400000"] by auto
  have l: "live t 0" "live t 1" using allocproc_result [OF t] by (auto simp: live_def NPROC_def)
  have "pids_ok ?s" by (auto simp: pids_ok_def live_def split: if_splits)
  moreover have "(ptable_step ^^ 1) ?s t" using t by (auto intro: ptable_step.create)
  ultimately have "p_pid (procs t 0) \<noteq> p_pid (procs t 1)" using pids_unique [of 1 ?s t 0 1] l by auto
  then show ?thesis using t l by auto
qed


section \<open>Shrinking to nothing\<close>

text \<open>
  A process that gives back all its memory, \<open>sbrk(-sz)\<close>, is told that the call failed: \<open>deallocuvm\<close>
  frees the pages and returns the new size 0, which \<open>growproc\<close> takes for an error, so that it
  returns -1, keeps the old size in the process table and does not switch to the new memory image.
\<close>

theorem growproc_to_zero:
  assumes r: "runs c p s" and z: "p_sz (procs s p) \<noteq> 0"
    and d: "deallocuvm (p_pgdir (procs s p)) (p_sz (procs s p)) 0 s = Ok v t"
  shows "growproc (- int (unat (p_sz (procs s p)))) s = Ok (- 1) t \<and> p_sz (procs t p) = p_sz (procs s p)"
proof -
  have "unat (p_sz (procs s p)) \<noteq> 0" using z by (simp only: unat_eq_0 not_False_eq_True)
  then have n: "- int (unat (p_sz (procs s p))) < 0" by linarith
  have a: "p_sz (procs s p) + of_int (- int (unat (p_sz (procs s p)))) = 0" by simp
  have "v = 0" using d z by (auto simp: deallocuvm_def res_simps split: option.splits if_splits)
  moreover have "procs t = procs s" using sp_OkD [OF sp_deallocuvm d] by simp
  ultimately show ?thesis
    using n a d z by (simp add: growproc_def the_proc_runs [OF r] Let_def)
qed

definition small_machine :: prstate where
  "small_machine = upd_proc 0 (\<lambda>r. r\<lparr>p_sz := 4096, p_pgdir := 0x80200000\<rparr>) (proc_machine (\<lambda>_. 0) 0)"

lemma small_machine_empty: "deallocuvm 0x80200000 4096 0 small_machine = Ok 0 small_machine"
proof -
  have w: "walkpgdir 0x80200000 a False small_machine = Ok 0 small_machine" for a
    by (simp add: walkpgdir_def small_machine_def upd_proc_def ld32_def present_def PTE_P_def)
  have "dealloc_loop 0x80200000 4194304 4096 small_machine = Some (Ok () small_machine)"
    by (subst dealloc_loop.simps) simp
  then have "dealloc_loop 0x80200000 0 4096 small_machine = Some (Ok () small_machine)"
    by (subst dealloc_loop.simps) (simp add: w PGADDR_def PDX_def PGSIZE_def)
  then show ?thesis by (simp add: deallocuvm_def PGROUNDUP_def PGSIZE_def)
qed

theorem growproc_to_zero_witness:
  "growproc (- 4096) small_machine = Ok (- 1) small_machine \<and> p_sz (procs small_machine 0) = 4096"
proof -
  have r: "runs 0 0 small_machine"
    using proc_machine_runs [of "\<lambda>_. 0" 0] by (simp add: small_machine_def upd_proc_def)
  have p: "p_sz (procs small_machine 0) = 4096" "p_pgdir (procs small_machine 0) = 0x80200000"
    by (simp_all add: small_machine_def upd_proc_def)
  show ?thesis using growproc_to_zero [OF r] small_machine_empty by (simp add: p)
qed

section \<open>Waiting and scheduling\<close>

text \<open>
  The state of a CPU in the scheduler: no lock of its own and interrupts off, whatever \<open>intena\<close> says.
\<close>

definition idle :: "nat \<Rightarrow> 'z kstate_scheme \<Rightarrow> bool" where
  "idle c s \<longleftrightarrow> cpu_lookup (cpus s) (ncpu s) (lapic_id s) = Some c \<and> c_ncli (cpus s c) = 0 \<and>
     \<not> eflags_if s (lapic_id s) \<and> lk_free PtableLock s"

text \<open>The first \<open>pushcli\<close> overwrites \<open>intena\<close>, so its old value makes no difference.\<close>

lemma acquire_fresh:
  assumes "cpu_lookup (cpus s) (ncpu s) (lapic_id s) = Some c" "c_ncli (cpus s c) = 0"
  shows "acquire l s = acquire l (upd_cpu c (\<lambda>r. r\<lparr>c_intena := eflags_if s (lapic_id s)\<rparr>) s)"
proof -
  have "pushcli s = pushcli (upd_cpu c (\<lambda>r. r\<lparr>c_intena := eflags_if s (lapic_id s)\<rparr>) s)"
    using assms by (simp add: pushcli_def mycpu_def set_if_def upd_cpu_def Let_def)
  then show ?thesis by (simp add: acquire_def)
qed

definition scheduling :: "nat \<Rightarrow> 'z kstate_scheme \<Rightarrow> 'z kstate_scheme" where
  "scheduling c s = upd_cpu c (\<lambda>r. r\<lparr>c_proc := None, c_intena := True\<rparr>) (set_if True s)"

lemma scheduling_steady: "idle c s \<Longrightarrow> steady c (scheduling c s) \<and> lk_free PtableLock (scheduling c s)"
  by (simp add: idle_def scheduling_def steady_def upd_cpu_def set_if_def lk_free_def cpu_lookup_upd)

lemma scheduler_locks:
  assumes i: "idle c s"
  shows "scheduler s = scheduler_scan c 0 (acq PtableLock c (scheduling c s))"
proof -
  let ?u = "set_if True (upd_cpu c (\<lambda>r. r\<lparr>c_proc := None\<rparr>) s)"
  have "mycpu s = Ok c s" using i by (simp add: idle_def mycpu_def)
  moreover have u: "cpu_lookup (cpus ?u) (ncpu ?u) (lapic_id ?u) = Some c" "c_ncli (cpus ?u c) = 0"
    using i by (simp_all add: idle_def upd_cpu_def set_if_def cpu_lookup_upd)
  moreover have "upd_cpu c (\<lambda>r. r\<lparr>c_intena := eflags_if ?u (lapic_id ?u)\<rparr>) ?u = scheduling c s"
    by (simp add: upd_cpu_def set_if_def scheduling_def)
  ultimately show ?thesis
    using acquire_fresh [OF u, of PtableLock] scheduling_steady [OF i]
    by (simp add: scheduler_def scheduler_pass_def acquire_free [of c])
qed

lemma switchuvm_steady:
  assumes st: "steady c s" and ok: "p_kstack (procs s p) \<noteq> 0" "p_pgdir (procs s p) \<noteq> 0"
  shows "\<exists>g. switchuvm (Some p) s = Ok () (s\<lparr>gdt := g,
     tss := (tss s)(c := (tss s c)\<lparr>ts_ss0 := of_nat (SEG_KDATA * 8), ts_esp0 := p_kstack (procs s p) + of_nat KSTACKSIZE, ts_iomb := 0xFFFF\<rparr>),
     task_reg := (task_reg s)(lapic_id s := of_nat (SEG_TSS * 8)), cr3 := (cr3 s)(lapic_id s := V2P (p_pgdir (procs s p)))\<rparr>)"
proof -
  let ?f = "\<lambda>t. t\<lparr>gdt := (gdt s)(c := (gdt s c)(SEG_TSS := (SEG16 STS_T32A (ts_addr s c) 103 0)\<lparr>sd_s := 0\<rparr>)),
     tss := (tss s)(c := (tss s c)\<lparr>ts_ss0 := of_nat (SEG_KDATA * 8), ts_esp0 := p_kstack (procs s p) + of_nat KSTACKSIZE, ts_iomb := 0xFFFF\<rparr>),
     task_reg := (task_reg s)(lapic_id s := of_nat (SEG_TSS * 8)), cr3 := (cr3 s)(lapic_id s := V2P (p_pgdir (procs s p)))\<rparr>"
  have e: "?f (push_state c s) = push_state c (?f s)" by (simp add: push_state_def)
  have "steady c (?f s)" using st by (simp add: steady_def)
  then have "popcli (?f (push_state c s)) = Ok () (?f s)" unfolding e by (rule popcli_push_state)
  then show ?thesis
    using ok by (simp add: switchuvm_def pushcli_steady [OF st] mycpu_push_state [OF st, unfolded push_state_def] Let_def ltr_def
        lcr3_def push_state_def) blast
qed

text \<open>
  C33. The scheduler runs the first runnable process: it becomes the process of the CPU and \<open>RUNNING\<close>,
  its page table and kernel stack are loaded, \<open>ptable.lock\<close> is held across the switch and no other
  process changes. When nothing is runnable, a pass over the table ends with the lock released and
  interrupts on.
\<close>

theorem scheduler_picks_first:
  assumes i: "idle c s"
    and ok: "\<And>p. p_state (procs s p) = RUNNABLE \<Longrightarrow> p_kstack (procs s p) \<noteq> 0 \<and> p_pgdir (procs s p) \<noteq> 0"
  shows "case find (\<lambda>p. p_state (procs s p) = RUNNABLE) [0..<NPROC] of
      None \<Rightarrow> \<exists>t. scheduler s = Ok () t \<and> procs t = procs s \<and> lk_free PtableLock t \<and> eflags_if t (lapic_id s)
    | Some p \<Rightarrow> \<exists>t. scheduler s = Swtch t \<and> procs t = (procs s)(p := (procs s p)\<lparr>p_state := RUNNING\<rparr>) \<and>
        c_proc (cpus t c) = Some p \<and> cr3 t (lapic_id s) = V2P (p_pgdir (procs s p)) \<and>
        ts_esp0 (tss t c) = p_kstack (procs s p) + of_nat KSTACKSIZE \<and>
        lk_locked (locks t PtableLock) \<and> lk_cpu (locks t PtableLock) = Some c"
proof -
  let ?u = "scheduling c s" and ?f = "find (\<lambda>p. p_state (procs s p) = RUNNABLE) [0..<NPROC]"
  have p: "procs ?u = procs s" "lapic_id ?u = lapic_id s" "eflags_if ?u (lapic_id s)"
    by (simp_all add: scheduling_def upd_cpu_def set_if_def)
  show ?thesis
  proof (cases ?f)
    case None
    have "release PtableLock (acq PtableLock c ?u) = Ok () ?u" using scheduling_steady [OF i] by (simp add: release_acq)
    then show ?thesis
      using None p scheduling_steady [OF i] by (simp add: scheduler_locks [OF i] scheduler_scan_def)
  next
    case (Some q)
    let ?v = "upd_cpu c (\<lambda>r. r\<lparr>c_proc := Some q\<rparr>) (acq PtableLock c ?u)"
    have k: "p_kstack (procs ?v q) \<noteq> 0" "p_pgdir (procs ?v q) \<noteq> 0"
      using ok [of q] Some p by (auto simp: find_Some_iff upd_cpu_def)
    have "steady c ?v"
      using steady_acq [of c ?u PtableLock] scheduling_steady [OF i] by (simp add: steady_def upd_cpu_def cpu_lookup_upd)
    from switchuvm_steady [OF this k] obtain g where g: "switchuvm (Some q) ?v = Ok () (?v\<lparr>gdt := g,
       tss := (tss ?v)(c := (tss ?v c)\<lparr>ts_ss0 := of_nat (SEG_KDATA * 8), ts_esp0 := p_kstack (procs ?v q) + of_nat KSTACKSIZE, ts_iomb := 0xFFFF\<rparr>),
       task_reg := (task_reg ?v)(lapic_id ?v := of_nat (SEG_TSS * 8)), cr3 := (cr3 ?v)(lapic_id ?v := V2P (p_pgdir (procs ?v q)))\<rparr>)"
      by blast
    then show ?thesis
      using Some p by (simp add: scheduler_locks [OF i] scheduler_scan_def g) (simp add: upd_cpu_def upd_proc_def acq_def)
  qed
qed

definition idle_machine :: prstate where
  "idle_machine = (proc_machine (\<lambda>_. 0) 0)\<lparr>eflags_if := (\<lambda>_. False),
     procs := (\<lambda>_. zero_proc)(1 := zero_proc\<lparr>p_state := RUNNABLE, p_kstack := 0x80300000, p_pgdir := 0x80200000\<rparr>)\<rparr>"

theorem scheduler_picks_first_witness:
  "\<exists>t. scheduler idle_machine = Swtch t \<and> c_proc (cpus t 0) = Some 1 \<and> p_state (procs t 1) = RUNNING \<and>
     cr3 t (lapic_id idle_machine) = 0x200000 \<and> ts_esp0 (tss t 0) = 0x80301000"
proof -
  have i: "idle 0 idle_machine"
    using proc_machine_runs [of "\<lambda>_. 0" 0] by (simp add: idle_def idle_machine_def runs_def calm_def steady_def lk_free_def)
  have p: "procs idle_machine = (\<lambda>_. zero_proc)(1 := zero_proc\<lparr>p_state := RUNNABLE, p_kstack := 0x80300000, p_pgdir := 0x80200000\<rparr>)"
    by (simp add: idle_machine_def)
  have f: "find (\<lambda>p. p_state (procs idle_machine p) = RUNNABLE) [0..<NPROC] = Some 1" by (simp add: p slots)
  have "p_kstack (procs idle_machine q) \<noteq> 0 \<and> p_pgdir (procs idle_machine q) \<noteq> 0"
    if "p_state (procs idle_machine q) = RUNNABLE" for q
    using that by (auto simp: p split: if_splits)
  from scheduler_picks_first [OF i this] obtain t where "scheduler idle_machine = Swtch t"
    "procs t = (procs idle_machine)(1 := (procs idle_machine 1)\<lparr>p_state := RUNNING\<rparr>)" "c_proc (cpus t 0) = Some 1"
    "cr3 t (lapic_id idle_machine) = V2P (p_pgdir (procs idle_machine 1))"
    "ts_esp0 (tss t 0) = p_kstack (procs idle_machine 1) + of_nat KSTACKSIZE" unfolding f by auto
  then show ?thesis by (intro exI [of _ t]) (simp add: p V2P_def KERNBASE_def KSTACKSIZE_def)
qed

end
