(* ===== verification/Trap_Spec.thy ===== *)
theory Trap_Spec
  imports Trap Proc_Spec
begin

text \<open>
  The life of a process across traps: a killed process does not get back to user mode, and what the
  clock interrupt and the dispatch of system calls do.
\<close>

section \<open>Interrupt handlers keep killed processes killed\<close>

lemma undead_dev [simp]:
  "undead s (t\<lparr>uart_out := a\<rparr>) = undead s t" "undead s (t\<lparr>uart_in := a\<rparr>) = undead s t"
  "undead s (t\<lparr>kbd_in := a\<rparr>) = undead s t" "undead s (t\<lparr>kbd_shift := w\<rparr>) = undead s t"
  "undead s (t\<lparr>ioapic_regs := i\<rparr>) = undead s t"
  by (simp_all add: undead_def)

lemma undead_cons [simp]:
  "undead s (t\<lparr>crt_pos := a\<rparr>) = undead s t" "undead s (t\<lparr>crt := b\<rparr>) = undead s t"
  "undead s (t\<lparr>input_buf := d\<rparr>) = undead s t" "undead s (t\<lparr>input_r := w\<rparr>) = undead s t"
  "undead s (t\<lparr>input_w := w\<rparr>) = undead s t" "undead s (t\<lparr>input_e := w\<rparr>) = undead s t"
  by (simp_all add: undead_def)

lemma undead_trap [simp]:
  "undead s (t\<lparr>ticks := w\<rparr>) = undead s t" "undead s (t\<lparr>lapic_regs := i\<rparr>) = undead s t"
  by (simp_all add: undead_def)

lemma undead_uartputc [simp]: "undead s (uartputc c t) = undead s t"
  by (simp add: uartputc_def)

lemma kept_cgaputc: "kept undead s (cgaputc c s)"
  by (simp add: cgaputc_def Let_def split: prod.split)

lemma kept_consputc: "kept undead s (consputc c s)"
  by (auto simp: consputc_def intro: ud.kept_from [OF kept_cgaputc])

lemma kept_printint: "kept undead s (printint w b g s)"
  unfolding printint_def by (intro ud.kept_foreach kept_consputc)

lemma kept_puts: "kept undead s (puts str s)"
  unfolding puts_def by (intro ud.kept_foreach kept_consputc)

lemma kept_cprintf_conv: "kept undead s (cprintf_conv d args s)"
proof -
  have n: "kept undead s (case args of CNum w # xs \<Rightarrow> andthen (printint w b k s) (\<lambda>_ s. Ok xs s)
      | _ \<Rightarrow> Panic ''bad argument'')" for b k
    by (auto intro!: ud.kept_andthen kept_printint split: list.split carg.split)
  have p: "kept undead s (case args of CStr str # xs \<Rightarrow>
        andthen (puts (case str of None \<Rightarrow> ''(null)'' | Some str \<Rightarrow> str) s) (\<lambda>_ s. Ok xs s)
      | _ \<Rightarrow> Panic ''bad argument'')"
    by (auto intro!: ud.kept_andthen kept_puts split: list.split carg.split)
  show ?thesis
    unfolding cprintf_conv_def using n p by (auto intro!: ud.kept_andthen kept_consputc)
qed

lemma kept_cprintf_loop: "kept undead s (cprintf_loop fmt args s)"
  by (induction fmt args s rule: cprintf_loop.induct)
    (auto intro!: ud.kept_andthen kept_consputc kept_cprintf_conv split: list.split)

lemma kept_cprintf: "kept undead s (cprintf fmt args s)"
  unfolding cprintf_def Let_def
  by (auto intro!: ud.kept_andthen kept_acquire kept_release kept_cprintf_loop split: option.split)

lemma kept_procdump: "kept undead s (procdump s)"
  unfolding procdump_def
  by (intro ud.kept_foreach) (auto simp: dump_proc_def Let_def intro!: ud.kept_andthen kept_cprintf ud.kept_foreach)

lemma kept_kill_line: "kept undead s (kill_line n s)"
  by (induction n arbitrary: s) (auto intro!: ud.kept_andthen ud.kept_from [OF kept_consputc])

lemma kept_cons_char: "kept undead s (cons_char c s)"
  by (auto simp: cons_char_def Let_def
      intro!: ud.kept_andthen kept_kill_line ud.kept_from [OF kept_consputc] ud.kept_from [OF kept_wakeup])

lemma kept_consoleintr_loop:
  assumes "consoleintr_loop getc dump s = Some r" "\<And>s. undead s (snd (getc s))"
  shows "kept undead s r"
proof -
  have "(\<forall>s. undead s (snd (getc s))) \<longrightarrow> kept undead s r"
  proof (rule consoleintr_loop.raw_induct [OF _ assms(1),
        where P = "\<lambda>getc dump s r. (\<forall>s. undead s (snd (getc s))) \<longrightarrow> kept undead s r"], intro impI)
    fix loop getc dump s r
    assume ih: "\<And>getc dump s r. loop getc dump s = Some r \<Longrightarrow> (\<forall>s. undead s (snd (getc s))) \<longrightarrow> kept undead s r"
      and r: "(let (c, s) = getc s in
         if c < 0 then Some (Ok dump s)
         else if c = C_of CHR ''P'' then loop getc True s
         else case cons_char c s of
                Ok _ s \<Rightarrow> loop getc dump s | Panic m \<Rightarrow> Some (Panic m) | Swtch s \<Rightarrow> Some (Swtch s) | Spin \<Rightarrow> Some Spin) = Some r"
      and u: "\<forall>s. undead s (snd (getc s))"
    obtain c t where g: "getc s = (c, t)" by (cases "getc s")
    have t: "undead s t" using spec [OF u, of s] g by simp
    note ih = mp [OF ih u]
    have "kept undead t r"
    proof (cases "c < 0 \<or> c = C_of CHR ''P''")
      case True
      then show ?thesis using r g ih [of True t r] by (auto split: if_splits)
    next
      case False
      then show ?thesis
        using r g kept_cons_char [of t c] ih [of dump _ r] by (cases "cons_char c t") (auto intro: ud.kept_from)
    qed
    then show "kept undead s r" using t by (rule ud.kept_from)
  qed
  then show ?thesis using assms(2) by simp
qed

lemma kept_consoleintr:
  assumes "\<And>s. undead s (snd (getc s))"
  shows "kept undead s (consoleintr getc s)"
  unfolding consoleintr_def
  using kept_consoleintr_loop [OF _ assms]
  by (auto intro!: ud.kept_andthen kept_acquire kept_release kept_procdump split: option.split)

lemma kept_kbdintr: "kept undead s (kbdintr s)"
  unfolding kbdintr_def
  by (rule kept_consoleintr) (simp add: kbdgetc_def Let_def split: list.split prod.split)

lemma kept_uartintr: "kept undead s (uartintr s)"
  unfolding uartintr_def
  by (rule kept_consoleintr) (simp add: uartgetc_def split: list.split)

lemma kept_timer_tick: "kept undead s (timer_tick s)"
  by (auto simp: timer_tick_def intro!: kept_intros ud.kept_from [OF kept_wakeup])

lemma undead_lapiceoi [simp]: "undead s (lapiceoi t) = undead s t"
  by (simp add: lapiceoi_def lapicw_def)

lemma undead_kill [simp]: "undead s t \<Longrightarrow> undead s (upd_proc p (\<lambda>r. r\<lparr>p_killed := True\<rparr>) t)"
  by (simp add: undead_def upd_proc_def)

lemma kept_unexpected: "kept undead s (unexpected tf s)"
  unfolding unexpected_def Let_def
  by (auto intro!: kept_intros kept_cprintf split: option.split)

lemma kept_irq: "kept undead s (irq tf s)"
proof -
  have "kept undead s (spurious tf s)"
    unfolding spurious_def by (intro kept_intros kept_cprintf)
  then show ?thesis
    by (auto simp: irq_def Let_def ideintr_def
        intro!: ud.kept_andthen kept_timer_tick kept_kbdintr kept_uartintr kept_unexpected)
qed


section \<open>A killed process does not return to user mode\<close>

lemma exit_never_returns: "exit s \<noteq> Ok u t"
  by (auto simp: exit_def exit_locked_def Let_def res_simps split: option.splits if_splits)

lemma undead_lookup: "undead s t \<Longrightarrow> cpu_lookup (cpus t) (ncpu t) (lapic_id t) = cpu_lookup (cpus s) (ncpu s) (lapic_id s)"
  by (simp add: undead_def cpu_lookup_def)

lemma mycpu_OkD: "mycpu s = Ok c t \<Longrightarrow> t = s \<and> cpu_lookup (cpus s) (ncpu s) (lapic_id s) = Some c"
  by (auto simp: mycpu_def split: if_splits option.splits)

lemma myproc_OkD:
  assumes "myproc s = Ok q t" "cpu_lookup (cpus s) (ncpu s) (lapic_id s) = Some c"
  shows "q = c_proc (cpus s c)" "undead s t"
proof -
  from assms(1) obtain u v where u: "pushcli s = Ok () u" and v: "mycpu u = Ok v u" "q = c_proc (cpus u v)"
    by (auto simp: myproc_def Let_def res_simps dest: mycpu_OkD)
  have "undead s u" using kept_pushcli [of s] u by simp
  then have "v = c" "c_proc (cpus u v) = c_proc (cpus s v)"
    using mycpu_OkD [OF v(1)] undead_lookup [of s u] assms(2) by (simp_all add: undead_def)
  then show "q = c_proc (cpus s c)" using v(2) by simp
  show "undead s t" using kept_OkD [OF kept_myproc assms(1)] .
qed

lemma the_proc_OkD:
  assumes "the_proc s = Ok p t" "cpu_lookup (cpus s) (ncpu s) (lapic_id s) = Some c"
  shows "c_proc (cpus s c) = Some p" "undead s t"
proof -
  from assms(1) have "myproc s = Ok (Some p) t" by (auto simp: the_proc_def res_simps split: option.splits)
  from myproc_OkD [OF this assms(2)] show "c_proc (cpus s c) = Some p" "undead s t" by simp_all
qed

text \<open>The process \<open>p\<close> runs on the CPU the code executes on, and the code keeps it that way.\<close>

definition on_cpu :: "nat \<Rightarrow> 'z kstate_scheme \<Rightarrow> bool" where
  "on_cpu p s \<longleftrightarrow> (\<exists>c. cpu_lookup (cpus s) (ncpu s) (lapic_id s) = Some c \<and> c_proc (cpus s c) = Some p)"

lemma undead_on_cpu: "undead s t \<Longrightarrow> on_cpu p t = on_cpu p s"
  using undead_lookup [of s t] by (auto simp: on_cpu_def undead_def)

lemma undead_killed: "undead s t \<Longrightarrow> \<not> p_killed (procs t p) \<Longrightarrow> \<not> p_killed (procs s p)"
  by (auto simp: undead_def)

lemma myproc_on_cpu: "on_cpu p s \<Longrightarrow> myproc s = Ok q t \<Longrightarrow> q = Some p \<and> undead s t"
  using myproc_OkD [of s q t] by (auto simp: on_cpu_def)

lemma the_proc_on_cpu: "on_cpu p s \<Longrightarrow> the_proc s = Ok q t \<Longrightarrow> q = p \<and> undead s t"
  using the_proc_OkD [of s q t] by (auto simp: on_cpu_def)

lemma syscall_killed_Ok: "syscall_killed p s = Ok () t \<longleftrightarrow> t = s \<and> \<not> p_killed (procs s p)"
  using exit_never_returns [of s] by (auto simp: syscall_killed_def)

lemma exit_killed_Ok:
  assumes "exit_killed tf s = Ok () t" "on_cpu p s"
  shows "undead s t" "user_mode tf \<Longrightarrow> \<not> p_killed (procs t p)"
proof -
  from assms(1) obtain q u where m: "myproc s = Ok q u"
    and e: "(case q of None \<Rightarrow> Ok () u | Some p \<Rightarrow> if p_killed (procs u p) \<and> user_mode tf then exit u else Ok () u) = Ok () t"
    by (auto simp: exit_killed_def res_simps)
  have "q = Some p" "undead s u" using myproc_on_cpu [OF assms(2) m] by simp_all
  then show "undead s t" "user_mode tf \<Longrightarrow> \<not> p_killed (procs t p)"
    using e exit_never_returns [of u] by (auto split: if_splits)
qed

lemma yield_never_returns: "yield s \<noteq> Ok u t"
  by (auto simp: yield_def sched_def res_simps split: option.splits if_splits)

lemma kept_yield_return: "kept undead s (yield_return intena s)"
  unfolding yield_return_def sched_return_def
  by (intro ud.kept_andthen kept_mycpu kept_release) (simp add: undead_def upd_cpu_def)

lemma trap_irq_Ok:
  assumes "trap tf s = Ok () t" "tf_trapno tf \<noteq> T_SYSCALL" "on_cpu p s"
  obtains u where "undead s u" "on_cpu p u" "exit_killed tf u = Ok () t"
proof -
  let ?y = "\<lambda>q d. case q of None \<Rightarrow> Ok () d | Some p \<Rightarrow>
        if p_state (procs d p) = RUNNING \<and> tf_trapno tf = T_IRQ0 + IRQ_TIMER then yield d else Ok () d"
  obtain a b q d e where a: "irq tf s = Ok () a" and b: "exit_killed tf a = Ok () b" and q: "myproc b = Ok q d"
    and y: "?y q d = Ok () e" and e: "trap_end tf e = Ok () t"
    using assms(1) unfolding trap_def if_not_P [OF assms(2)] by (elim andthen_OkE) (rule that, simp_all)
  have d: "e = d" using y yield_never_returns by (auto split: option.splits if_splits)
  have a': "undead s a" "on_cpu p a" using kept_OkD [OF kept_irq a] assms(3) undead_on_cpu [of s a p] by simp_all
  have b': "undead a b" "on_cpu p b" using exit_killed_Ok(1) [OF b a'(2)] a'(2) undead_on_cpu [of a b p] by simp_all
  have d': "undead b d" "on_cpu p d" using myproc_on_cpu [OF b'(2) q] b'(2) undead_on_cpu [of b d p] by simp_all
  show ?thesis using that [OF ud.chain [OF a'(1) ud.chain [OF b'(1) d'(1)]] d'(2)] e unfolding d trap_end_def .
qed

lemma trap_syscall_Ok:
  assumes "trap tf s = Ok () t" "tf_trapno tf = T_SYSCALL" "on_cpu p s"
  shows "\<not> p_killed (procs s p)" "\<not> p_killed (procs t p)"
proof -
  from assms(1,2) obtain q u where u: "the_proc s = Ok q u" "\<not> p_killed (procs u q)" "\<not> p_killed (procs t q)"
    by (auto simp: trap_def res_simps syscall_killed_Ok)
  then show "\<not> p_killed (procs s p)" "\<not> p_killed (procs t p)"
    using the_proc_on_cpu [OF assms(3) u(1)] undead_killed [of s u p] by auto
qed

lemma exit_killed_leaves:
  assumes "undead s u" "on_cpu p s" "exit_killed tf u = Ok () t" "user_mode tf"
  shows "\<not> p_killed (procs s p)" "\<not> p_killed (procs t p)"
proof -
  have u: "on_cpu p u" using assms(1,2) by (simp add: undead_on_cpu)
  show "\<not> p_killed (procs t p)" by (rule exit_killed_Ok(2) [OF assms(3) u assms(4)])
  then show "\<not> p_killed (procs s p)" using undead_killed [OF ud.chain [OF assms(1) exit_killed_Ok(1) [OF assms(3) u]], of p] by blast
qed

text \<open>
  C15. A killed process does not get back to user mode. When a trap that a process took in user mode,
  or with a system call, returns, the process had not been killed at entry, and has not been
  killed in the meantime either: a process that is killed while it is in the kernel exits before it
  returns. The same holds for the end of a trap that gave up the CPU, whatever happened until it
  was resumed: after the \<open>yield\<close> on a clock tick, and after a system call that slept.
\<close>

theorem killed_never_returns:
  assumes p: "on_cpu p s"
  shows "((tf_trapno tf = T_SYSCALL \<or> user_mode tf) \<and> trap tf s = Ok () t \<longrightarrow>
      \<not> p_killed (procs s p) \<and> \<not> p_killed (procs t p)) \<and>
    (user_mode tf \<and> trap_resume tf intena s = Ok () t \<longrightarrow> \<not> p_killed (procs s p) \<and> \<not> p_killed (procs t p)) \<and>
    (syscall_resume p f s = Ok () t \<longrightarrow> \<not> p_killed (procs t p))"
proof (intro conjI impI; (elim conjE)?)
  assume u: "tf_trapno tf = T_SYSCALL \<or> user_mode tf" and t: "trap tf s = Ok () t"
  then show "\<not> p_killed (procs s p)" "\<not> p_killed (procs t p)"
    using trap_syscall_Ok [OF t _ p] trap_irq_Ok [OF t _ p] exit_killed_leaves [OF _ p] by metis+
next
  assume m: "user_mode tf" and "trap_resume tf intena s = Ok () t"
  then obtain u where u: "yield_return intena s = Ok () u" "exit_killed tf u = Ok () t"
    by (auto simp: trap_resume_def trap_end_def res_simps)
  show "\<not> p_killed (procs s p)" "\<not> p_killed (procs t p)"
    using exit_killed_leaves [OF kept_OkD [OF kept_yield_return u(1)] p u(2) m] by simp_all
next
  assume "syscall_resume p f s = Ok () t"
  then show "\<not> p_killed (procs t p)" by (auto simp: syscall_resume_def res_simps syscall_killed_Ok)
qed


section \<open>The clock\<close>

lemma mycpu_runs: "runs c p s \<Longrightarrow> \<not> eflags_if s (lapic_id s) \<Longrightarrow> mycpu s = Ok c s"
  by (intro mycpu_steady runs_steady)

lemma runs_ticks [simp]: "runs c p (s\<lparr>ticks := w\<rparr>) = runs c p s"
  by (simp add: runs_def calm_def steady_def lk_free_def)

lemma runs_lapic [simp]: "runs c p (lapiceoi s) = runs c p s"
  by (simp add: lapiceoi_def lapicw_def runs_def calm_def steady_def lk_free_def)

lemma lapiceoi_simps [simp]:
  "procs (lapiceoi s) = procs s" "ticks (lapiceoi s) = ticks s"
  by (simp_all add: lapiceoi_def lapicw_def)

lemma acq_ticks: "(acq l c s)\<lparr>ticks := w\<rparr> = acq l c (s\<lparr>ticks := w\<rparr>)" "ticks (acq l c s) = ticks s"
  by (cases s, simp add: acq_def) (simp add: acq_def)

lemma timer_tick_runs:
  assumes r: "runs 0 p s" and e: "\<not> eflags_if s (lapic_id s)"
  shows "timer_tick s = Ok () (wakeup1 ChanTicks (s\<lparr>ticks := ticks s + 1\<rparr>))"
  using r
  by (simp add: timer_tick_def cpuid_def mycpu_runs [OF r e] acquire_runs [OF r] acq_ticks wakeup_in_lock [of 0 p]
      release_acq_runs [of 0 p])

lemma yield_runs:
  assumes r: "runs c p s"
  shows "yield s = Swtch (acq PtableLock c (upd_proc p (\<lambda>r. r\<lparr>p_state := RUNNABLE\<rparr>) s))"
proof -
  let ?u = "upd_proc p (\<lambda>r. r\<lparr>p_state := RUNNABLE\<rparr>) s"
  have "sched (acq PtableLock c ?u) = Swtch (acq PtableLock c ?u)"
    using r runs_steady [OF r] by (intro sched_switches [of c ?u p]) (simp_all add: upd_proc_def runs_def calm_def)
  moreover have "upd_proc p (\<lambda>r. r\<lparr>p_state := RUNNABLE\<rparr>) (acq PtableLock c s) = acq PtableLock c ?u"
    by (simp add: upd_proc_def acq_procs)
  moreover have "myproc (acq PtableLock c s) = Ok (Some p) (acq PtableLock c s)"
    using myproc_steady [OF steady_acq [OF runs_steady [OF r]]] r by (simp add: runs_def)
  ultimately show ?thesis by (simp add: yield_def acquire_runs [OF r])
qed

text \<open>
  C34. The clock interrupt on CPU 0, taken while a process runs that has not been killed: the clock
  advances by one (modulo \<open>2^32\<close>), every process sleeping on it becomes runnable, the interrupt is
  acknowledged, and the process gives up the CPU, runnable and holding only \<open>ptable.lock\<close>.
\<close>

theorem clock_tick_preempts:
  assumes r: "runs 0 p s" and e: "\<not> eflags_if s (lapic_id s)"
    and p: "p_state (procs s p) = RUNNING" "\<not> p_killed (procs s p)" and t: "tf_trapno tf = T_IRQ0 + IRQ_TIMER"
  shows "\<exists>u. trap tf s = Swtch (acq PtableLock 0 u) \<and> runs 0 p u \<and> ticks u = ticks s + 1 \<and> p_state (procs u p) = RUNNABLE \<and>
    (\<forall>q<NPROC. p_state (procs s q) = SLEEPING \<and> p_chan (procs s q) = Some ChanTicks \<longrightarrow> p_state (procs u q) = RUNNABLE)"
proof -
  let ?v = "lapiceoi (wakeup1 ChanTicks (s\<lparr>ticks := ticks s + 1\<rparr>))"
  let ?u = "upd_proc p (\<lambda>r. r\<lparr>p_state := RUNNABLE\<rparr>) ?v"
  have v: "runs 0 p ?v" using r by simp
  have m: "myproc ?v = Ok (Some p) ?v" using myproc_steady [OF runs_steady [OF v]] v by (simp add: runs_def)
  have q: "procs (wakeup1 ChanTicks (s\<lparr>ticks := ticks s + 1\<rparr>)) = woken_procs ChanTicks NPROC (procs s)" by (simp add: wakeup1_eq)
  have i: "irq tf s = Ok () ?v" using t by (simp add: irq_def timer_tick_runs [OF r e])
  have "exit_killed tf ?v = Ok () ?v" using p by (simp add: exit_killed_def m q)
  moreover have "p_state (procs ?v p) = RUNNING" using p by (simp add: q woken_procs_def woken_def)
  ultimately have "trap tf s = Swtch (acq PtableLock 0 ?u)"
    using t i by (simp add: trap_def irq_defs m yield_runs [OF v])
  moreover have "runs 0 p ?u" using v by (simp add: upd_proc_def)
  ultimately show ?thesis
    by (intro exI [of _ ?u]) (auto simp: upd_proc_def q woken_procs_def woken_def wakeup1_eq)
qed

text \<open>
  C35. \<open>sleep(n)\<close> measures time without regard to overflow: \<open>k\<close> ticks after it noted the time, the loop
  of \<open>sys_sleep\<close> ends with 0 exactly when \<open>k\<close> has reached \<open>n\<close>, also across the wrap-around of the clock;
  before, the process goes on sleeping, or gets -1 if it has been killed. The argument is compared
  as an unsigned number: for a negative \<open>n\<close> this is more than \<open>2^31\<close> ticks.
\<close>

theorem sys_sleep_elapsed:
  assumes r: "runs c p s" and t: "ticks s = t0 + of_nat k" and k: "k < 4294967296"
  shows "sys_sleep_loop t0 n (acq TicksLock c s) =
    (if unat n \<le> k then Ok 0 s
     else if p_killed (procs s p) then Ok (- 1) s
     else Swtch (acq PtableLock c (upd_proc p (\<lambda>r. r\<lparr>p_chan := Some ChanTicks, p_state := SLEEPING\<rparr>) s)))"
proof -
  have "ticks s - t0 < n \<longleftrightarrow> \<not> unat n \<le> k"
    using k by (simp add: t word_less_nat_alt unat_of_nat not_le)
  moreover have "the_proc (acq TicksLock c s) = Ok p (acq TicksLock c s)"
    using myproc_steady [OF steady_acq [OF runs_steady [OF r]], of TicksLock] r by (simp add: the_proc_def runs_def)
  moreover have "sleep ChanTicks TicksLock (acq TicksLock c s) =
      Swtch (acq PtableLock c (upd_proc p (\<lambda>r. r\<lparr>p_chan := Some ChanTicks, p_state := SLEEPING\<rparr>) s))"
    using r by (intro sleep_switches runs_steady [OF r] runs_free [OF r]) (simp_all add: runs_def calm_def)
  ultimately show ?thesis
    by (simp add: sys_sleep_loop_def acq_ticks release_acq_runs [OF r])
qed

section \<open>A machine that takes traps\<close>

definition trap_machine :: "(nat \<Rightarrow> proc) \<Rightarrow> bool \<Rightarrow> u32 \<Rightarrow> tstate" where
  "trap_machine ps ie n = (cstate.extend (dstate.extend (prstate.extend (proc_machine (\<lambda>_. 0) 0)
       (dstate.fields (\<lambda>_. 0) True [] [] [] 0))
       (cstate.fields False False (\<lambda>_. 0) 0 (\<lambda>_. 0) 0 0 0))
       (tstate.fields True (\<lambda>_ _. 0) (\<lambda>_. SETGATE False 0 0 0) (\<lambda>_. True) (\<lambda>_. 0) (\<lambda>_. 0) n))
     \<lparr>lapic_id := 0, ncpu := 1, procs := ps, eflags_if := (\<lambda>_. ie), cpus := (\<lambda>_. busy_cpu\<lparr>c_intena := ie\<rparr>)\<rparr>"

lemma trap_machine_runs: "runs 0 0 (trap_machine ps ie n)"
proof -
  let ?m = "proc_machine (\<lambda>_. 0) 0"
  have l: "lk_free l ?m" for l by (rule runs_free [OF proc_machine_runs])
  have "cpu_lookup (\<lambda>_. busy_cpu\<lparr>c_intena := ie\<rparr>) 1 0 = Some 0" by (simp add: cpu_lookup_def busy_cpu_def)
  then show ?thesis
    using l by (simp add: trap_machine_def runs_def calm_def steady_def lk_free_def prstate.defs dstate.defs cstate.defs
        tstate.defs busy_cpu_def)
qed

lemma trap_machine_simps [simp]:
  "procs (trap_machine ps ie n) = ps" "ticks (trap_machine ps ie n) = n" "eflags_if (trap_machine ps ie n) = (\<lambda>_. ie)"
  by (simp_all add: trap_machine_def prstate.defs dstate.defs cstate.defs tstate.defs)

lemma trap_machine_cpu:
  "cpu_lookup (cpus (trap_machine ps ie n)) (ncpu (trap_machine ps ie n)) (lapic_id (trap_machine ps ie n)) = Some 0"
  "c_proc (cpus (trap_machine ps ie n) 0) = Some 0"
  using trap_machine_runs [of ps ie n] by (simp_all add: runs_def calm_def steady_def)

lemma trap_machine_on_cpu: "on_cpu 0 (trap_machine ps ie n)"
  using trap_machine_cpu [of ps ie n] by (simp add: on_cpu_def)

text \<open>A disk interrupt returns to a live process and not to a killed one, and neither does a system
  call whose process was killed while it slept.\<close>

theorem killed_never_returns_witness:
  "\<exists>live dead tf t. \<not> p_killed (live 0) \<and> p_killed (dead 0) \<and> user_mode tf \<and>
     trap tf (trap_machine live True 0) = Ok () t \<and> \<not> p_killed (procs t 0) \<and>
     (\<forall>t. trap tf (trap_machine dead True 0) \<noteq> Ok () t) \<and> (\<forall>i t. trap_resume tf i (trap_machine dead True 0) \<noteq> Ok () t) \<and>
     (\<forall>t. syscall_resume 0 (Ok 0) (trap_machine dead True 0) \<noteq> Ok () t)"
proof -
  let ?live = "\<lambda>_. zero_proc" and ?dead = "\<lambda>_. zero_proc\<lparr>p_killed := True\<rparr>"
  let ?tf = "user_tf\<lparr>tf_trapno := T_IRQ0 + IRQ_IDE\<rparr>" and ?l = "lapiceoi (trap_machine (\<lambda>_. zero_proc) True 0)"
  have u: "user_mode ?tf" by (simp add: user_mode_def user_tf_def SEG_UCODE_def DPL_USER_def)
  have r: "runs 0 0 ?l" by (simp add: trap_machine_runs)
  have "myproc ?l = Ok (Some 0) ?l" using myproc_steady [OF runs_steady [OF r]] r by (simp add: runs_def)
  then have t: "trap ?tf (trap_machine ?live True 0) = Ok () ?l"
    by (simp add: trap_def trap_end_def irq_def irq_defs ideintr_def exit_killed_def zero_proc_def)
  note dead = killed_never_returns [OF trap_machine_on_cpu [of ?dead True 0]]
  have "\<not> p_killed (procs ?l 0)"
    using killed_never_returns [OF trap_machine_on_cpu [of ?live True 0], of ?tf ?l] t u by blast
  moreover have "trap ?tf (trap_machine ?dead True 0) \<noteq> Ok () t" for t using dead [of ?tf t] u by auto
  moreover have "trap_resume ?tf i (trap_machine ?dead True 0) \<noteq> Ok () t" for i t using dead [of ?tf t i] u by auto
  moreover have "syscall_resume 0 (Ok 0) (trap_machine ?dead True 0) \<noteq> Ok () t" for t
    by (simp add: syscall_resume_def syscall_killed_def set_eax_def upd_proc_def exit_never_returns)
  ultimately show ?thesis
    using t u by (intro exI [of _ ?live] exI [of _ ?dead] exI [of _ ?tf] exI [of _ ?l]) (simp add: zero_proc_def)
qed

theorem clock_tick_preempts_witness:
  "\<exists>u. trap (user_tf\<lparr>tf_trapno := T_IRQ0 + IRQ_TIMER\<rparr>)
       (trap_machine ((\<lambda>_. zero_proc\<lparr>p_state := SLEEPING, p_chan := Some ChanTicks\<rparr>)(0 := zero_proc\<lparr>p_state := RUNNING\<rparr>)) False 0xFFFFFFFF)
     = Swtch (acq PtableLock 0 u) \<and> ticks u = 0 \<and> p_state (procs u 0) = RUNNABLE \<and> p_state (procs u 5) = RUNNABLE"
proof -
  let ?tf = "user_tf\<lparr>tf_trapno := T_IRQ0 + IRQ_TIMER\<rparr>"
  let ?ps = "(\<lambda>_. zero_proc\<lparr>p_state := SLEEPING, p_chan := Some ChanTicks\<rparr>)(0 := zero_proc\<lparr>p_state := RUNNING\<rparr>)"
  let ?s = "trap_machine ?ps False 0xFFFFFFFF"
  obtain u where "trap ?tf ?s = Swtch (acq PtableLock 0 u)" "ticks u = ticks ?s + 1" "p_state (procs u 0) = RUNNABLE"
    "\<forall>q<NPROC. p_state (procs ?s q) = SLEEPING \<and> p_chan (procs ?s q) = Some ChanTicks \<longrightarrow> p_state (procs u q) = RUNNABLE"
    using clock_tick_preempts [OF trap_machine_runs, of ?ps False "0xFFFFFFFF" ?tf] by auto
  then show ?thesis by (intro exI [of _ u]) (auto simp: NPROC_def)
qed

theorem sys_sleep_elapsed_witness:
  "sys_sleep_loop 0xFFFFFFFE 3 (acq TicksLock 0 (trap_machine (\<lambda>_. zero_proc) True 1)) = Ok 0 (trap_machine (\<lambda>_. zero_proc) True 1) \<and>
   (\<exists>t. sys_sleep_loop 5 0xFFFFFFFF (acq TicksLock 0 (trap_machine (\<lambda>_. zero_proc) True 1005)) = Swtch t)"
  using sys_sleep_elapsed [OF trap_machine_runs, of "\<lambda>_. zero_proc" True 1 "0xFFFFFFFE" 3 3]
    sys_sleep_elapsed [OF trap_machine_runs, of "\<lambda>_. zero_proc" True 1005 5 1000 "0xFFFFFFFF"]
  by simp

end
