(* ===== verification/Console_Spec.thy ===== *)
theory Console_Spec
  imports Console Trap_Spec
begin

text \<open>
  What the console promises: its output stays on the screen, and its input is a line editor. The
  editor is specified on a pair of lists, the characters handed to readers and the line being
  edited; \<open>lines\<close> reads the pair off the ring buffer.
\<close>

section \<open>Output\<close>

definition cons_ready :: "'z cstate_scheme \<Rightarrow> bool" where
  "cons_ready s \<longleftrightarrow> \<not> panicked s \<and> unat (crt_pos s) < 24 * 80"

lemma unat16_of_nat: "n < 65536 \<Longrightarrow> unat (of_nat n :: u16) = n"
  by (simp add: unat_of_nat)

lemma cga_write_pos: "pos < 1920 \<Longrightarrow> cga_write c pos scr = (pos', scr') \<Longrightarrow> pos' \<le> 1920"
proof -
  assume a: "pos < 1920" "cga_write c pos scr = (pos', scr')"
  obtain q r where q: "pos = 80 * q + r" "r < 80" using mult_div_mod_eq [of 80 pos] mod_less_divisor [of 80 pos] by (metis zero_less_numeral)
  then have "pos + (80 - pos mod 80) = 80 * q + 80" "q < 24" using a(1) by auto
  then show ?thesis using a by (auto simp: cga_write_def split: if_splits)
qed

lemma cgaputc_ready:
  assumes "cons_ready s"
  shows "\<exists>b d. cgaputc c s = Ok () (s\<lparr>crt_pos := b, crt := d\<rparr>) \<and> unat b < 1920 \<and> d (unat b) = 0x0720"
proof -
  obtain pos scr where w: "cga_write c (unat (crt_pos s)) (crt s) = (pos, scr)" by (cases "cga_write c (unat (crt_pos s)) (crt s)")
  have p: "pos \<le> 1920" using assms cga_write_pos [OF _ w] by (simp add: cons_ready_def)
  obtain q scr' where q: "cga_scroll pos scr = (q, scr')" by (cases "cga_scroll pos scr")
  have "q < 1920" using q p by (auto simp: cga_scroll_def Let_def split: if_splits)
  then have "unat (of_nat q :: u16) = q" by (intro unat16_of_nat) simp
  then show ?thesis
    using w p q \<open>q < 1920\<close>
    by (intro exI [of _ "of_nat q"] exI [of _ "scr'(q := 32 OR 0x0700)"]) (simp add: cgaputc_def)
qed

lemma consputc_ready:
  assumes "cons_ready s"
  shows "\<exists>a b d. consputc c s = Ok () (s\<lparr>uart_out := a, crt_pos := b, crt := d\<rparr>) \<and> unat b < 1920 \<and> d (unat b) = 0x0720"
proof -
  have u: "\<exists>a. uartputc x t = t\<lparr>uart_out := a\<rparr>" for x and t :: "'a cstate_scheme"
    by (cases t) (auto simp: uartputc_def)
  let ?t = "if c = BACKSPACE then uartputc 8 (uartputc 32 (uartputc 8 s)) else uartputc c s"
  have "\<exists>a. ?t = s\<lparr>uart_out := a\<rparr>"
    using u [of 8 s] u [of 32 "uartputc 8 s"] u [of 8 "uartputc 32 (uartputc 8 s)"] u [of c s] by auto
  then obtain a where a: "?t = s\<lparr>uart_out := a\<rparr>" by blast
  have "cons_ready (s\<lparr>uart_out := a\<rparr>)" using assms by (simp add: cons_ready_def)
  from cgaputc_ready [OF this, of c] obtain b d where "cgaputc c ?t = Ok () (s\<lparr>uart_out := a, crt_pos := b, crt := d\<rparr>)"
    "unat b < 1920" "d (unat b) = 0x0720" unfolding a by auto
  moreover have "consputc c s = cgaputc c ?t" using assms by (simp add: consputc_def cons_ready_def)
  ultimately show ?thesis by auto
qed

section \<open>The ring buffer\<close>

definition circ :: "(nat \<Rightarrow> u8) \<Rightarrow> u32 \<Rightarrow> nat \<Rightarrow> u8 list" where
  "circ b i n = map (\<lambda>k. b ((unat i + k) mod 128)) [0..<n]"

lemma length_circ [simp]: "length (circ b i n) = n"
  by (simp add: circ_def)

lemma take_circ: "m \<le> n \<Longrightarrow> take m (circ b i n) = circ b i m"
  by (simp add: circ_def take_map)

lemma circ_snoc:
  assumes "n < 128"
  shows "circ (b((unat i + n) mod 128 := x)) i (Suc n) = circ b i n @ [x]"
proof -
  have "(unat i + k) mod 128 \<noteq> (unat i + n) mod 128" if "k < n" for k
  proof
    assume "(unat i + k) mod 128 = (unat i + n) mod 128"
    then have "128 dvd (unat i + n) - (unat i + k)"
      using mod_eq_dvd_iff_nat [of "unat i + k" "unat i + n" 128] that by simp
    then show False using that assms by (auto dest: dvd_imp_le)
  qed
  then show ?thesis by (simp add: circ_def)
qed

lemma circ_slot: "unat ((i + of_nat n :: u32) mod 128) = (unat i + n) mod 128"
proof -
  have "unat (i + of_nat n) = (unat i + n) mod 4294967296"
    by (simp add: unat_word_ariths unat_of_nat mod_add_right_eq)
  then show ?thesis by (simp add: unat_mod mod_mod_cancel)
qed

lemma circ_drop: "m \<le> n \<Longrightarrow> drop m (circ b i n) = circ b (i + of_nat m) (n - m)"
proof -
  assume "m \<le> n"
  have "(unat i + (m + k)) mod 128 = (unat (i + of_nat m) + k) mod 128" for k
  proof -
    have "unat (i + of_nat m) mod 128 = (unat i + m) mod 128"
      using circ_slot [of i m] by (simp add: unat_mod)
    then show ?thesis by (metis add.assoc mod_add_left_eq)
  qed
  moreover have "[0..<n] ! (m + k) = m + k" if "k < n - m" for k using that by (subst nth_upt) auto
  ultimately show ?thesis by (intro nth_equalityI) (simp_all add: circ_def)
qed

text \<open>The characters in the buffer, of which the first \<open>w - r\<close> have been handed to readers.\<close>

definition typed :: "'z cstate_scheme \<Rightarrow> u8 list" where
  "typed s = circ (input_buf s) (input_r s) (unat (input_e s - input_r s))"

definition lines :: "'z cstate_scheme \<Rightarrow> u8 list \<times> u8 list" where
  "lines s = (let k = unat (input_w s - input_r s) in (take k (typed s), drop k (typed s)))"

definition input_ok :: "'z cstate_scheme \<Rightarrow> bool" where
  "input_ok s \<longleftrightarrow> unat (input_w s - input_r s) \<le> unat (input_e s - input_r s) \<and> unat (input_e s - input_r s) \<le> 128"

text \<open>The line editor: the text handed to readers and the line being edited.\<close>

definition edit_key :: "int \<Rightarrow> u8 list \<times> u8 list \<Rightarrow> u8 list \<times> u8 list" where
  "edit_key c l =
     (let (com, line) = l
      in if c = C_of CHR ''P'' \<or> c = 0 then l
         else if c = C_of CHR ''U'' then (com, rev (dropWhile (\<lambda>x. x \<noteq> 10) (rev line)))
         else if c = C_of CHR ''H'' \<or> c = 0x7f then (com, butlast line)
         else if length com + length line < 128 then
           let c = (if c = 13 then 10 else c); line = line @ [word_of_int c]
           in if c = 10 \<or> c = C_of CHR ''D'' \<or> length com + length line = 128 then (com @ line, []) else (com, line)
         else l)"

section \<open>The handlers are the line editor\<close>

definition same_input :: "'z cstate_scheme \<Rightarrow> 'z cstate_scheme \<Rightarrow> bool" where
  "same_input s t \<longleftrightarrow> input_buf t = input_buf s \<and> input_r t = input_r s \<and> input_w t = input_w s \<and> input_e t = input_e s"

text \<open>The state between two characters: the console works, and the process goes on running.\<close>

definition cons_runs :: "nat \<Rightarrow> nat \<Rightarrow> 'z cstate_scheme \<Rightarrow> bool" where
  "cons_runs c p s \<longleftrightarrow> runs c p s \<and> cons_ready s \<and> input_ok s"

text \<open>What the devices have still to deliver does not change while a character is handled, nor do
  the inodes and their locks.\<close>

definition same_dev :: "'z dstate_scheme \<Rightarrow> 'z dstate_scheme \<Rightarrow> bool" where
  "same_dev s t \<longleftrightarrow> uart t = uart s \<and> uart_in t = uart_in s \<and> kbd_in t = kbd_in s \<and> kbd_shift t = kbd_shift s \<and>
     icache t = icache s \<and> slocks t = slocks s \<and> (\<forall>q. p_pid (procs t q) = p_pid (procs s q))"

definition same_inodes :: "'z dstate_scheme \<Rightarrow> 'z dstate_scheme \<Rightarrow> bool" where
  "same_inodes s t \<longleftrightarrow> icache t = icache s \<and> slocks t = slocks s \<and> (\<forall>q. p_pid (procs t q) = p_pid (procs s q))"

lemma same_inodes_chain: "same_inodes s t \<Longrightarrow> same_inodes t u \<Longrightarrow> same_inodes s u"
  by (simp add: same_inodes_def)

lemma same_dev_inodes: "same_dev s t \<Longrightarrow> same_inodes s t"
  by (simp add: same_dev_def same_inodes_def)

lemma runs_cons [simp]:
  "runs c p (s\<lparr>crt_pos := x\<rparr>) = runs c p s" "runs c p (s\<lparr>crt := y\<rparr>) = runs c p s"
  "runs c p (s\<lparr>input_buf := b\<rparr>) = runs c p s" "runs c p (s\<lparr>input_r := w\<rparr>) = runs c p s"
  "runs c p (s\<lparr>input_w := w\<rparr>) = runs c p s" "runs c p (s\<lparr>input_e := w\<rparr>) = runs c p s"
  by (simp_all add: runs_def calm_def steady_def lk_free_def)

lemma runs_dev [simp]:
  "runs c p (s\<lparr>uart_out := z\<rparr>) = runs c p s" "runs c p (s\<lparr>uart_in := z\<rparr>) = runs c p s"
  "runs c p (s\<lparr>kbd_in := z\<rparr>) = runs c p s" "runs c p (s\<lparr>kbd_shift := w\<rparr>) = runs c p s"
  by (simp_all add: runs_def calm_def steady_def lk_free_def)

lemma acq_cons [simp]:
  "panicked (acq l c s) = panicked s" "crt_pos (acq l c s) = crt_pos s" "crt (acq l c s) = crt s"
  "input_buf (acq l c s) = input_buf s" "input_r (acq l c s) = input_r s" "input_w (acq l c s) = input_w s"
  "input_e (acq l c s) = input_e s"
  by (simp_all add: acq_def)

lemma acq_dev [simp]: "uart_out (acq l c s) = uart_out s" "uart (acq l c s) = uart s"
  by (simp_all add: acq_def)

lemma consputc_acq:
  assumes "cons_ready s"
  shows "\<exists>a b d. consputc x (acq l c s) = Ok () (acq l c (s\<lparr>uart_out := a, crt_pos := b, crt := d\<rparr>)) \<and> unat b < 1920"
proof -
  have "cons_ready (acq l c s)" using assms by (simp add: cons_ready_def)
  moreover have "(acq l c s)\<lparr>uart_out := a, crt_pos := b, crt := d\<rparr> = acq l c (s\<lparr>uart_out := a, crt_pos := b, crt := d\<rparr>)" for a b d
    by (cases s) (simp add: acq_def)
  ultimately show ?thesis using consputc_ready [of "acq l c s" x] by metis
qed

text \<open>Taking back the last character.\<close>

lemma input_back:
  assumes "input_ok s" "input_e s \<noteq> input_w s"
  defines "t \<equiv> s\<lparr>input_e := input_e s - 1\<rparr>"
  shows "input_ok t" "lines t = (fst (lines s), butlast (snd (lines s)))"
    "snd (lines s) \<noteq> []" "last (snd (lines s)) = input_buf s (unat ((input_e s - 1) mod INPUT_BUF))"
proof -
  obtain n k where n: "n = unat (input_e s - input_r s)" and k: "k = unat (input_w s - input_r s)" by simp
  have "input_e s - input_r s \<noteq> input_w s - input_r s" using assms(2) by simp
  then have "k \<noteq> n" unfolding n k by (simp add: word_unat_eq_iff)
  then have kn: "k < n" "n \<le> 128" using assms(1) unfolding input_ok_def n [symmetric] k [symmetric] by auto
  have "unat (input_e s - 1 - input_r s) = n - 1"
  proof -
    have "input_e s - 1 - input_r s = (input_e s - input_r s) - 1" by simp
    moreover have "(1 :: u32) \<le> input_e s - input_r s" using kn by (simp add: word_le_nat_alt n)
    ultimately show ?thesis unfolding n using unat_sub [of 1 "input_e s - input_r s"] by (simp only: unat_1)
  qed
  then have e: "unat (input_e t - input_r t) = n - 1" and w: "unat (input_w t - input_r t) = k" by (simp_all add: t_def k)
  show "input_ok t" using kn unfolding input_ok_def e w by linarith
  have ty: "typed t = take (n - 1) (typed s)" by (simp add: typed_def e n [symmetric] take_circ) (simp add: t_def)
  have len: "length (typed s) = n" by (simp add: typed_def n)
  have ls: "lines s = (take k (typed s), drop k (typed s))" by (simp add: lines_def Let_def k)
  have "k \<le> n - 1" using kn by linarith
  then have "take k (take (n - 1) (typed s)) = take k (typed s)" by (simp add: min_absorb1)
  moreover have "drop k (take (n - 1) (typed s)) = butlast (drop k (typed s))"
    using kn len by (simp add: butlast_conv_take drop_take)
  ultimately show "lines t = (fst (lines s), butlast (snd (lines s)))" unfolding ls by (simp add: lines_def Let_def w ty)
  show ne: "snd (lines s) \<noteq> []" using kn len by (simp add: ls)
  have "of_nat n = input_e s - input_r s" by (simp add: n)
  then have "input_e s - 1 = input_r s + of_nat (n - 1)" using kn by (simp add: of_nat_diff)
  then have "unat ((input_e s - 1) mod 128) = (unat (input_r s) + (n - 1)) mod 128" by (simp only: circ_slot)
  moreover have "last (snd (lines s)) = typed s ! (n - 1)"
    using kn len by (simp add: ls last_drop) (subst last_conv_nth, auto)
  ultimately show "last (snd (lines s)) = input_buf s (unat ((input_e s - 1) mod INPUT_BUF))"
    using kn by (simp add: typed_def circ_def INPUT_BUF_def n [symmetric])
qed

text \<open>Adding a character.\<close>

lemma input_add:
  fixes s :: "'z cstate_scheme" and x :: u8
  assumes "input_ok s" "input_e s - input_r s < INPUT_BUF"
  defines "t \<equiv> s\<lparr>input_buf := (input_buf s)(unat (input_e s mod INPUT_BUF) := x), input_e := input_e s + 1\<rparr>"
  shows "input_ok t" "lines t = (fst (lines s), snd (lines s) @ [x])"
    "length (fst (lines s)) + length (snd (lines s)) < 128"
    "input_e t = input_r t + INPUT_BUF \<longleftrightarrow> length (fst (lines t)) + length (snd (lines t)) = 128"
proof -
  obtain n k where n: "n = unat (input_e s - input_r s)" and k: "k = unat (input_w s - input_r s)" by simp
  have kn: "k \<le> n" "n < 128"
    using assms(1,2) unfolding input_ok_def n [symmetric] k [symmetric] by (simp_all add: INPUT_BUF_def word_less_nat_alt n)
  have e: "input_e s = input_r s + of_nat n" by (simp add: n)
  have "unat (input_e s + 1 - input_r s) = unat (of_nat (Suc n) :: u32)" by (simp add: e add.commute)
  also have "\<dots> = Suc n" using kn by (simp only: unat_of_nat) simp
  finally have u: "unat (input_e t - input_r t) = Suc n" and w: "unat (input_w t - input_r t) = k" by (simp_all add: t_def k)
  show "input_ok t" using kn by (simp add: input_ok_def u w)
  have ty: "typed t = typed s @ [x]"
    using circ_snoc [of n "input_buf s" "input_r s" x] kn
    by (simp add: typed_def u n [symmetric]) (simp add: t_def INPUT_BUF_def e circ_slot)
  have len: "length (typed s) = n" by (simp add: typed_def n)
  have ls: "lines s = (take k (typed s), drop k (typed s))" by (simp add: lines_def Let_def k)
  show lt: "lines t = (fst (lines s), snd (lines s) @ [x])" using kn len by (simp add: lines_def Let_def w ty k [symmetric])
  show "length (fst (lines s)) + length (snd (lines s)) < 128" using kn len by (simp add: ls)
  have "input_e t = input_r t + INPUT_BUF \<longleftrightarrow> of_nat (Suc n) = (of_nat 128 :: u32)"
    by (simp add: t_def e INPUT_BUF_def)
  also have "\<dots> \<longleftrightarrow> Suc n = 128" using kn by (simp only: word_unat_eq_iff unat_of_nat) simp
  finally show "input_e t = input_r t + INPUT_BUF \<longleftrightarrow> length (fst (lines t)) + length (snd (lines t)) = 128"
    using kn len by (simp add: lt ls)
qed

lemma input_commit:
  assumes "input_ok s"
  shows "input_ok (s\<lparr>input_w := input_e s\<rparr>)" "lines (s\<lparr>input_w := input_e s\<rparr>) = (fst (lines s) @ snd (lines s), [])"
  using assms by (simp_all add: input_ok_def lines_def Let_def typed_def)

lemma cons_runsD: "cons_runs c p s \<Longrightarrow> runs c p s" "cons_runs c p s \<Longrightarrow> cons_ready s" "cons_runs c p s \<Longrightarrow> input_ok s"
  by (simp_all add: cons_runs_def)

lemma acq_input:
  "(acq l c s)\<lparr>input_e := w\<rparr> = acq l c (s\<lparr>input_e := w\<rparr>)" "(acq l c s)\<lparr>input_w := w\<rparr> = acq l c (s\<lparr>input_w := w\<rparr>)"
  "(acq l c s)\<lparr>input_r := w\<rparr> = acq l c (s\<lparr>input_r := w\<rparr>)"
  "(acq l c s)\<lparr>input_buf := b, input_e := w\<rparr> = acq l c (s\<lparr>input_buf := b, input_e := w\<rparr>)"
  by (cases s, simp add: acq_def)+

text \<open>Echoing a character changes nothing of the input.\<close>

lemma echo:
  assumes "cons_runs c p s"
  shows "\<exists>t. consputc x (acq ConsLock c s) = Ok () (acq ConsLock c t) \<and> cons_runs c p t \<and> lines t = lines s \<and>
    same_input s t \<and> same_dev s t"
proof -
  obtain a b d where e: "consputc x (acq ConsLock c s) = Ok () (acq ConsLock c (s\<lparr>uart_out := a, crt_pos := b, crt := d\<rparr>))"
    "unat b < 1920" using consputc_acq [OF cons_runsD(2) [OF assms]] by blast
  let ?t = "s\<lparr>uart_out := a, crt_pos := b, crt := d\<rparr>"
  have "lines ?t = lines s" "input_ok ?t = input_ok s" by (simp_all add: lines_def typed_def input_ok_def)
  then show ?thesis
    using e assms by (intro exI [of _ ?t]) (simp add: cons_runs_def cons_ready_def same_input_def same_dev_def)
qed

lemma same_input_lines: "same_input s t \<Longrightarrow> lines t = lines s"
  by (simp add: same_input_def lines_def typed_def)

lemma same_dev_chain: "same_dev s t \<Longrightarrow> same_dev t u \<Longrightarrow> same_dev s u"
  by (simp add: same_dev_def)

lemma cons_runs_upd: "cons_runs c p s \<Longrightarrow> input_ok (s\<lparr>input_e := w\<rparr>) \<Longrightarrow> cons_runs c p (s\<lparr>input_e := w\<rparr>)"
  by (simp add: cons_runs_def cons_ready_def)

lemma kill_line_edits:
  assumes "cons_runs c p s" "n = length (snd (lines s))"
  shows "\<exists>t. kill_line n (acq ConsLock c s) = Ok () (acq ConsLock c t) \<and> cons_runs c p t \<and> same_dev s t \<and>
    lines t = (fst (lines s), rev (dropWhile (\<lambda>x. x \<noteq> 10) (rev (snd (lines s)))))"
  using assms
proof (induction n arbitrary: s)
  case 0
  then show ?case by (intro exI [of _ s]) (simp add: same_dev_def prod_eq_iff)
next
  case (Suc n)
  let ?u = "s\<lparr>input_e := input_e s - 1\<rparr>" and ?x = "input_buf s (unat ((input_e s - 1) mod INPUT_BUF))"
  have ne: "input_e s \<noteq> input_w s" using Suc.prems(2) by (auto simp: lines_def Let_def typed_def)
  note b = input_back [OF cons_runsD(3) [OF Suc.prems(1)] ne]
  obtain ys where ys: "snd (lines s) = ys @ [?x]" using b(3,4) by (metis append_butlast_last_id)
  show ?case
  proof (cases "?x = 10")
    case True
    then show ?thesis using Suc.prems(1) ne ys by (intro exI [of _ s]) (simp add: same_dev_def prod_eq_iff)
  next
    case False
    have "cons_runs c p ?u" by (rule cons_runs_upd [OF Suc.prems(1) b(1)])
    from echo [OF this, of BACKSPACE] obtain v where v: "consputc BACKSPACE (acq ConsLock c ?u) = Ok () (acq ConsLock c v)"
      "cons_runs c p v" "lines v = lines ?u" "same_dev ?u v" by blast
    have "n = length (snd (lines v))" using Suc.prems(2) ys by (simp add: v(3) b(2))
    from Suc.IH [OF v(2) this] obtain t where "kill_line n (acq ConsLock c v) = Ok () (acq ConsLock c t)" "cons_runs c p t"
      "same_dev v t" "lines t = (fst (lines v), rev (dropWhile (\<lambda>x. x \<noteq> 10) (rev (snd (lines v)))))" by blast
    then show ?thesis
      using False ne v ys by (intro exI [of _ t]) (simp add: acq_input b(2) same_dev_def)
  qed
qed

lemma length_lines:
  assumes "input_ok s"
  shows "length (snd (lines s)) = unat (input_e s - input_w s)"
    "length (fst (lines s)) + length (snd (lines s)) = unat (input_e s - input_r s)"
proof -
  have k: "input_w s - input_r s \<le> input_e s - input_r s" using assms by (simp add: input_ok_def word_le_nat_alt)
  have "input_e s - input_w s = (input_e s - input_r s) - (input_w s - input_r s)" by simp
  then have "unat (input_e s - input_w s) = unat (input_e s - input_r s) - unat (input_w s - input_r s)"
    using unat_sub [OF k] by (simp only:)
  then show "length (snd (lines s)) = unat (input_e s - input_w s)" by (simp add: lines_def Let_def typed_def)
  show "length (fst (lines s)) + length (snd (lines s)) = unat (input_e s - input_r s)"
    using k by (simp add: lines_def Let_def typed_def word_le_nat_alt)
qed

lemma cons_runs_woken: "cons_runs c p s \<Longrightarrow> cons_runs c p (wakeup1 ch s) \<and> lines (wakeup1 ch s) = lines s \<and> same_dev s (wakeup1 ch s)"
  by (simp add: cons_runs_def cons_ready_def input_ok_def lines_def typed_def same_dev_def wakeup1_eq)

lemma C_of_simps [simp]: "C_of CHR ''U'' = 21" "C_of CHR ''P'' = 16" "C_of CHR ''H'' = 8" "C_of CHR ''D'' = 4"
  by (simp_all add: C_of_def)

text \<open>An ordinary character is added to the line, and ends it if it is a newline or fills the buffer.\<close>

lemma cons_add:
  fixes s :: "'z cstate_scheme" and x :: int
  assumes r: "cons_runs c p s" and f: "input_e s - input_r s < INPUT_BUF"
  defines "u \<equiv> s\<lparr>input_buf := (input_buf s)(unat (input_e s mod INPUT_BUF) := word_of_int x), input_e := input_e s + 1\<rparr>"
  shows "\<exists>t. andthen (consputc x (acq ConsLock c u)) (\<lambda>_ s.
       if x = 10 \<or> x = 4 \<or> input_e s = input_r s + INPUT_BUF then wakeup ChanInput (s\<lparr>input_w := input_e s\<rparr>) else Ok () s)
     = Ok () (acq ConsLock c t) \<and> cons_runs c p t \<and> same_dev s t \<and>
     lines t = (let line = snd (lines s) @ [word_of_int x]
       in if x = 10 \<or> x = 4 \<or> length (fst (lines s)) + length line = 128 then (fst (lines s) @ line, []) else (fst (lines s), line))"
proof -
  note a = input_add(1,2,4) [OF cons_runsD(3) [OF r] f, where x = "word_of_int x", folded u_def]
  have "cons_runs c p u" using r a(1) by (simp add: cons_runs_def cons_ready_def u_def)
  from echo [OF this, of x] obtain v where v: "consputc x (acq ConsLock c u) = Ok () (acq ConsLock c v)"
    "cons_runs c p v" "lines v = lines u" "same_input u v" "same_dev u v" by blast
  have d: "same_dev s v" using v(5) by (simp add: same_dev_def u_def)
  have e: "input_e v = input_r v + INPUT_BUF \<longleftrightarrow> length (fst (lines s)) + length (snd (lines s) @ [word_of_int x]) = 128"
    using a(3) v(4) by (simp add: same_input_def a(2))
  let ?P = "x = 10 \<or> x = 4 \<or> length (fst (lines s)) + length (snd (lines s) @ [word_of_int x]) = 128"
  let ?w = "v\<lparr>input_w := input_e v\<rparr>"
  have w: "cons_runs c p ?w" "lines ?w = (fst (lines v) @ snd (lines v), [])" "same_dev s ?w"
    using v(2) input_commit [OF cons_runsD(3) [OF v(2)]] d by (simp_all add: cons_runs_def cons_ready_def same_dev_def)
  show ?thesis
  proof (cases ?P)
    case True
    then show ?thesis
      using cons_runs_woken [OF w(1), of ChanInput] w v d
      by (intro exI [of _ "wakeup1 ChanInput ?w"])
        (simp add: e acq_input wakeup_in_lock [OF cons_runsD(1) [OF w(1)]] a(2) Let_def same_dev_def)
  next
    case False
    then show ?thesis using v d by (intro exI [of _ v]) (simp add: e a(2) Let_def)
  qed
qed

text \<open>One character, handled under the console's lock.\<close>

lemma cons_char_edits:
  assumes r: "cons_runs c p s" and x: "x \<noteq> C_of CHR ''P''"
  shows "\<exists>t. cons_char x (acq ConsLock c s) = Ok () (acq ConsLock c t) \<and> cons_runs c p t \<and> same_dev s t \<and>
    lines t = edit_key x (lines s)"
proof -
  obtain com line where l: "lines s = (com, line)" by (cases "lines s")
  note len = length_lines [OF cons_runsD(3) [OF r]]
  consider "x = 21" | "x = 8 \<or> x = 0x7f" | "x = 0" | "x \<noteq> 21" "x \<noteq> 8" "x \<noteq> 0x7f" "x \<noteq> 0" by blast
  then show ?thesis
  proof cases
    case 1
    then show ?thesis
      using kill_line_edits [OF r refl] by (simp add: cons_char_def l edit_key_def len(1) [symmetric])
  next
    case 2
    show ?thesis
    proof (cases "input_e s = input_w s")
      case True
      then have "line = []" using len(1) l by simp
      then show ?thesis using 2 True r by (intro exI [of _ s]) (auto simp: cons_char_def edit_key_def l same_dev_def)
    next
      case False
      note b = input_back [OF cons_runsD(3) [OF r] False]
      from echo [OF cons_runs_upd [OF r b(1)], of BACKSPACE] show ?thesis
        using 2 False b(2) l by (auto simp: cons_char_def acq_input edit_key_def same_dev_def)
    qed
  next
    case 3
    then show ?thesis using r by (intro exI [of _ s]) (simp add: cons_char_def edit_key_def l same_dev_def)
  next
    case 4
    let ?y = "if x = 13 then 10 else x"
    show ?thesis
    proof (cases "input_e s - input_r s < INPUT_BUF")
      case True
      have "length com + length line < 128" using input_add(3) [OF cons_runsD(3) [OF r] True] l by simp
      then have "edit_key x (lines s) = (let line = snd (lines s) @ [word_of_int ?y]
          in if ?y = 10 \<or> ?y = 4 \<or> length (fst (lines s)) + length line = 128 then (fst (lines s) @ line, []) else (fst (lines s), line))"
        using 4 x by (simp add: edit_key_def l Let_def)
      moreover have "cons_char x (acq ConsLock c s) = andthen (consputc ?y (acq ConsLock c
          (s\<lparr>input_buf := (input_buf s)(unat (input_e s mod INPUT_BUF) := word_of_int ?y), input_e := input_e s + 1\<rparr>)))
          (\<lambda>_ s. if ?y = 10 \<or> ?y = 4 \<or> input_e s = input_r s + INPUT_BUF then wakeup ChanInput (s\<lparr>input_w := input_e s\<rparr>) else Ok () s)"
        using 4 True by (simp add: cons_char_def acq_input Let_def)
      ultimately show ?thesis using cons_add [OF r True, of ?y] by simp
    next
      case False
      then have "\<not> length com + length line < 128" using len(2) l by (simp add: INPUT_BUF_def word_less_nat_alt)
      then show ?thesis using r 4 x False by (intro exI [of _ s]) (simp add: cons_char_def edit_key_def l same_dev_def)
    qed
  qed
qed


section \<open>Sources of characters\<close>

text \<open>
  The contract between \<open>consoleintr\<close> and the function it gets characters from: \<open>src s\<close> are the
  characters the device has to deliver. \<open>getc\<close> delivers them one at a time, then -1, and changes
  nothing but the device.
\<close>

locale char_source =
  fixes getc :: "'z cstate_scheme \<Rightarrow> int \<times> 'z cstate_scheme" and src :: "'z cstate_scheme \<Rightarrow> int list"
  assumes src_end: "src s = [] \<Longrightarrow> getc s = (- 1, s)"
    and src_next: "src s = x # xs \<Longrightarrow> 0 \<le> x \<and> (\<exists>a b d. getc s = (x, s\<lparr>uart_in := a, kbd_in := b, kbd_shift := d\<rparr>) \<and>
      src (s\<lparr>uart_in := a, kbd_in := b, kbd_shift := d\<rparr>) = xs)"
    and src_same: "same_dev s t \<Longrightarrow> src t = src s"
begin

lemma src_acq: "src (acq l c s) = src s"
  by (rule src_same) (simp add: same_dev_def acq_def)

lemma getc_acq:
  assumes "src s = x # xs" "cons_runs c p s"
  shows "\<exists>t. getc (acq ConsLock c s) = (x, acq ConsLock c t) \<and> src t = xs \<and> cons_runs c p t \<and> lines t = lines s \<and>
    same_inodes s t"
proof -
  from src_next [of "acq ConsLock c s"] assms(1) src_acq obtain a b d where
    g: "getc (acq ConsLock c s) = (x, (acq ConsLock c s)\<lparr>uart_in := a, kbd_in := b, kbd_shift := d\<rparr>)"
    "src ((acq ConsLock c s)\<lparr>uart_in := a, kbd_in := b, kbd_shift := d\<rparr>) = xs" by metis
  let ?t = "s\<lparr>uart_in := a, kbd_in := b, kbd_shift := d\<rparr>"
  have e: "(acq ConsLock c s)\<lparr>uart_in := a, kbd_in := b, kbd_shift := d\<rparr> = acq ConsLock c ?t" by (cases s) (simp add: acq_def)
  have "src ?t = xs" using g(2) unfolding e src_acq .
  moreover have "cons_runs c p ?t" "lines ?t = lines s" "same_inodes s ?t"
    using assms(2) by (simp_all add: cons_runs_def cons_ready_def input_ok_def lines_def typed_def same_inodes_def)
  ultimately show ?thesis using g(1) unfolding e by blast
qed

lemma loop_edits:
  assumes "cons_runs c p s" "src s = xs"
  shows "\<exists>t. consoleintr_loop getc dump (acq ConsLock c s) = Some (Ok (dump \<or> C_of CHR ''P'' \<in> set xs) (acq ConsLock c t)) \<and>
    cons_runs c p t \<and> src t = [] \<and> lines t = fold edit_key xs (lines s) \<and> same_inodes s t"
  using assms
proof (induction xs arbitrary: s dump)
  case Nil
  then have "getc (acq ConsLock c s) = (- 1, acq ConsLock c s)" by (intro src_end) (simp add: src_acq)
  then show ?case using Nil by (intro exI [of _ s]) (simp add: consoleintr_loop.simps [of getc] same_inodes_def)
next
  case (Cons x xs)
  obtain t where t: "getc (acq ConsLock c s) = (x, acq ConsLock c t)" "src t = xs" "cons_runs c p t" "lines t = lines s"
    "same_inodes s t" using getc_acq [OF Cons.prems(2,1)] by blast
  have x: "\<not> x < 0" using src_next [OF Cons.prems(2)] by simp
  show ?case
  proof (cases "x = C_of CHR ''P''")
    case True
    from Cons.IH [OF t(3,2), of True] obtain u where
      "consoleintr_loop getc True (acq ConsLock c t) = Some (Ok True (acq ConsLock c u))"
      "cons_runs c p u" "src u = []" "lines u = fold edit_key xs (lines t)" "same_inodes t u" by auto
    moreover have "edit_key x (lines s) = lines s" using True by (simp add: edit_key_def split: prod.split)
    ultimately show ?thesis
      using True t(1,4) same_inodes_chain [OF t(5)] x
      by (intro exI [of _ u]) (simp add: consoleintr_loop.simps [of getc dump "acq ConsLock c s"])
  next
    case False
    obtain u where u: "cons_char x (acq ConsLock c t) = Ok () (acq ConsLock c u)" "cons_runs c p u" "same_dev t u"
      "lines u = edit_key x (lines t)" using cons_char_edits [OF t(3) False] by blast
    have "src u = xs" using src_same [OF u(3)] t(2) by simp
    from Cons.IH [OF u(2) this, of dump] obtain v where
      "consoleintr_loop getc dump (acq ConsLock c u) = Some (Ok (dump \<or> C_of CHR ''P'' \<in> set xs) (acq ConsLock c v))"
      "cons_runs c p v" "src v = []" "lines v = fold edit_key xs (lines u)" "same_inodes u v" by blast
    then show ?thesis
      using t(1,4) u(1,4) same_inodes_chain [OF t(5) same_inodes_chain [OF same_dev_inodes [OF u(3)]]] x False
      by (intro exI [of _ v]) (auto simp: consoleintr_loop.simps [of getc dump "acq ConsLock c s"])
  qed
qed

lemma intr_edits:
  assumes "cons_runs c p s" "C_of CHR ''P'' \<notin> set (src s)"
  shows "\<exists>t. consoleintr getc s = Ok () t \<and> cons_runs c p t \<and> src t = [] \<and>
    lines t = fold edit_key (src s) (lines s) \<and> same_inodes s t"
proof -
  note r = cons_runsD(1) [OF assms(1)]
  obtain t where t: "consoleintr_loop getc False (acq ConsLock c s) = Some (Ok False (acq ConsLock c t))" "cons_runs c p t"
    "src t = []" "lines t = fold edit_key (src s) (lines s)" "same_inodes s t"
    using loop_edits [OF assms(1) refl, of False] assms(2) by auto
  then show ?thesis
    by (simp add: consoleintr_def acquire_runs [OF r] release_acq_runs [OF cons_runsD(1) [OF t(2)]])
qed

end

text \<open>The serial port delivers the bytes it has received.\<close>

definition uart_chars :: "'z cstate_scheme \<Rightarrow> int list" where
  "uart_chars s = (if uart s then map uint (uart_in s) else [])"

interpretation us: char_source uartgetc uart_chars
proof
  fix s :: "'a cstate_scheme" and x xs
  assume x: "uart_chars s = x # xs"
  then obtain b bs where b: "uart s" "uart_in s = b # bs" "x = uint b" "xs = map uint bs"
    by (cases "uart_in s") (auto simp: uart_chars_def split: if_splits)
  then show "0 \<le> x \<and> (\<exists>a b d. uartgetc s = (x, s\<lparr>uart_in := a, kbd_in := b, kbd_shift := d\<rparr>) \<and>
      uart_chars (s\<lparr>uart_in := a, kbd_in := b, kbd_shift := d\<rparr>) = xs)"
    by (intro conjI exI [of _ bs] exI [of _ "kbd_in s"] exI [of _ "kbd_shift s"])
      (simp_all add: uartgetc_def uart_chars_def)
qed (auto simp: uart_chars_def uartgetc_def same_dev_def split: if_splits)

text \<open>The keyboard delivers the characters its scan codes stand for.\<close>

fun scan_chars :: "u32 \<Rightarrow> u8 list \<Rightarrow> int list" where
  "scan_chars shift [] = []"
| "scan_chars shift (b # bs) = sint (fst (kbd_code shift (ucast b))) # scan_chars (snd (kbd_code shift (ucast b))) bs"

definition kbd_chars :: "'z cstate_scheme \<Rightarrow> int list" where
  "kbd_chars s = scan_chars (kbd_shift s) (kbd_in s)"


lemma table_bound:
  assumes "\<forall>x\<in>set pre. x < 256" "\<forall>e\<in>set ents. snd e < 256"
  shows "table pre ents i < 256"
proof -
  have "v < 256" if "map_of ents i = Some v" for v using assms(2) map_of_SomeD [OF that] by force
  then show ?thesis using assms(1) by (auto simp: table_def split: option.split)
qed

lemma charcode_bound: "charcode k d < 256"
proof -
  have "normalmap d < 256" unfolding normalmap_def by (rule table_bound) (simp_all add: chars_def cursor_keys_def)
  moreover have "shiftmap d < 256" unfolding shiftmap_def by (rule table_bound) (simp_all add: chars_def cursor_keys_def)
  moreover have "ctlmap d < 256" unfolding ctlmap_def by (rule table_bound) (simp_all add: ctls_def ctl_byte_def cursor_keys_def)
  ultimately show ?thesis by (simp add: charcode_def)
qed

lemma caps_bound: "c < 256 \<Longrightarrow> caps c < 256"
proof -
  assume c: "c < 256"
  have "c + (65 - 97) < 256" if "97 \<le> c"
  proof -
    have "unat (c - 32) = unat c - 32" using that by (subst unat_sub) (simp_all add: word_le_nat_alt)
    then show ?thesis using c by (simp add: word_less_nat_alt)
  qed
  moreover have "c + (97 - 65) < 256" if "c \<le> 90"
    using that by (simp add: word_less_nat_alt word_le_nat_alt unat_word_ariths)
  ultimately show ?thesis using c by (auto simp: caps_def)
qed

lemma kbd_code_nonneg: "0 \<le> sint (fst (kbd_code shift data))"
proof -
  have "fst (kbd_code shift data) < 256"
    using charcode_bound caps_bound by (auto simp: kbd_code_def Let_def)
  then have "uint (fst (kbd_code shift data)) < 256" by (simp add: word_less_def)
  then have "sint (fst (kbd_code shift data)) = uint (fst (kbd_code shift data))"
    unfolding sint_uint by (intro signed_take_bit_int_eq_self order_trans [OF _ uint_ge_0]) simp_all
  then show ?thesis by simp
qed

interpretation ks: char_source kbdgetc kbd_chars
proof
  fix s :: "'a cstate_scheme" and x xs
  assume x: "kbd_chars s = x # xs"
  then obtain b bs where b: "kbd_in s = b # bs" "x = sint (fst (kbd_code (kbd_shift s) (ucast b)))"
    "xs = scan_chars (snd (kbd_code (kbd_shift s) (ucast b))) bs"
    by (cases "kbd_in s") (auto simp: kbd_chars_def)
  then show "0 \<le> x \<and> (\<exists>a b d. kbdgetc s = (x, s\<lparr>uart_in := a, kbd_in := b, kbd_shift := d\<rparr>) \<and>
      kbd_chars (s\<lparr>uart_in := a, kbd_in := b, kbd_shift := d\<rparr>) = xs)"
    using kbd_code_nonneg
    by (intro conjI exI [of _ "uart_in s"] exI [of _ bs] exI [of _ "snd (kbd_code (kbd_shift s) (ucast b))"])
      (simp_all add: kbdgetc_def kbd_chars_def split: prod.split)
qed (auto simp: kbd_chars_def kbdgetc_def same_dev_def split: list.splits)

text \<open>
  C21. The keyboard interrupt is a line editor. Its loop ends, and the ring buffer afterwards holds
  what the editor specified by \<open>edit_key\<close> makes of the characters the waiting scan codes stand for:
  ordinary keys extend the line, backspace takes a character back, control-U the whole line, and
  newline, control-D or a full buffer hand the line to the readers. Control-P, which also prints
  the processes, is left out.
\<close>

theorem kbdintr_edits:
  assumes "cons_runs c p s" "C_of CHR ''P'' \<notin> set (scan_chars (kbd_shift s) (kbd_in s))"
  shows "\<exists>t. kbdintr s = Ok () t \<and> cons_runs c p t \<and> kbd_in t = [] \<and>
    lines t = fold edit_key (scan_chars (kbd_shift s) (kbd_in s)) (lines s)"
proof -
  have "kbd_in t = []" if "kbd_chars t = []" for t :: "'a cstate_scheme"
    using that by (cases "kbd_in t") (simp_all add: kbd_chars_def)
  moreover have "C_of CHR ''P'' \<notin> set (kbd_chars s)" unfolding kbd_chars_def by (rule assms(2))
  from ks.intr_edits [OF assms(1) this] obtain t where "consoleintr kbdgetc s = Ok () t" "cons_runs c p t" "kbd_chars t = []"
    "lines t = fold edit_key (kbd_chars s) (lines s)" by blast
  ultimately show ?thesis by (auto simp: kbdintr_def kbd_chars_def [of s])
qed

lemma uartintr_edits:
  assumes "cons_runs c p s" "uart s" "C_of CHR ''P'' \<notin> set (map uint (uart_in s))"
  shows "\<exists>t. uartintr s = Ok () t \<and> cons_runs c p t \<and>
    lines t = fold edit_key (map uint (uart_in s)) (lines s) \<and> same_inodes s t"
  using us.intr_edits [OF assms(1)] assms(2,3) unfolding uartintr_def uart_chars_def by auto


section \<open>Reading\<close>

text \<open>What a read of at most \<open>n\<close> bytes gets: up to and including a newline, up to but not including control-D.\<close>

fun take_line :: "nat \<Rightarrow> u8 list \<Rightarrow> u8 list" where
  "take_line 0 l = []"
| "take_line (Suc n) [] = []"
| "take_line (Suc n) (x # xs) = (if x = 4 then [] else if x = 10 then [x] else x # take_line n xs)"

text \<open>The text is enough for the read not to wait.\<close>

definition enough :: "nat \<Rightarrow> u8 list \<Rightarrow> bool" where
  "enough n l \<longleftrightarrow> n \<le> length l \<or> 10 \<in> set l \<or> 4 \<in> set l"

lemma input_advance:
  assumes "input_ok s" "lines s = (com, line)" "m \<le> length com"
  shows "input_ok (s\<lparr>input_r := input_r s + of_nat m\<rparr>)" "lines (s\<lparr>input_r := input_r s + of_nat m\<rparr>) = (drop m com, line)"
proof -
  obtain n k where n: "n = unat (input_e s - input_r s)" and k: "k = unat (input_w s - input_r s)" by simp
  have kn: "k \<le> n" "n \<le> 128" using assms(1) unfolding input_ok_def n k by auto
  have len: "length (typed s) = n" by (simp add: typed_def n)
  have ls: "com = take k (typed s)" "line = drop k (typed s)" using assms(2) by (simp_all add: lines_def Let_def k)
  have m: "m \<le> k" using assms(3) ls len kn by simp
  have sub: "unat (x - (input_r s + of_nat m)) = unat (x - input_r s) - m" if "m \<le> unat (x - input_r s)" for x
  proof -
    have "unat (of_nat m :: u32) = m" using m kn by (simp add: unat_of_nat)
    then have "(of_nat m :: u32) \<le> x - input_r s" using that by (simp add: word_le_nat_alt)
    moreover have "x - (input_r s + of_nat m) = (x - input_r s) - of_nat m" by simp
    ultimately show ?thesis using \<open>unat (of_nat m :: u32) = m\<close> by (simp only: unat_sub)
  qed
  let ?t = "s\<lparr>input_r := input_r s + of_nat m\<rparr>"
  have e: "unat (input_e ?t - input_r ?t) = n - m" "unat (input_w ?t - input_r ?t) = k - m"
    using sub [of "input_e s"] sub [of "input_w s"] m kn by (simp_all add: n k)
  show "input_ok ?t" using kn m by (simp only: input_ok_def e) linarith
  have "typed ?t = drop m (typed s)"
    using circ_drop [of m n "input_buf s" "input_r s"] m kn by (simp add: typed_def e [simplified] n [symmetric])
  then show "lines ?t = (drop m com, line)" using m kn by (simp only: lines_def Let_def e ls) (simp add: drop_take)
qed

lemma next_char:
  assumes "input_ok s" "lines s = (x # com, line)"
  shows "input_r s \<noteq> input_w s" "input_buf s (unat (input_r s mod INPUT_BUF)) = x"
proof -
  have k: "0 < unat (input_w s - input_r s)" using assms(2) by (auto simp: lines_def Let_def intro: gr0I)
  then show "input_r s \<noteq> input_w s" by auto
  have n: "0 < unat (input_e s - input_r s)" using k assms(1) by (simp add: input_ok_def)
  have "x = typed s ! 0" using assms(2) k by (cases "typed s") (auto simp: lines_def Let_def take_Cons split: nat.splits)
  then show "input_buf s (unat (input_r s mod INPUT_BUF)) = x"
    using n circ_slot [of "input_r s" 0] by (simp add: typed_def circ_def INPUT_BUF_def)
qed

text \<open>How far the read index moves: control-D is consumed only by a read that has got nothing else.\<close>

definition consumed :: "nat \<Rightarrow> nat \<Rightarrow> u8 list \<Rightarrow> nat" where
  "consumed target n l =
     (let k = length (take_line n l)
      in if k < n \<and> k < length l \<and> l ! k = 4 \<and> (\<forall>x\<in>set (take k l). x \<noteq> 10) \<and> \<not> n - k < target then Suc k else k)"

lemma consumed_Cons:
  "x \<noteq> 4 \<Longrightarrow> x \<noteq> 10 \<Longrightarrow> n \<le> target \<Longrightarrow> consumed target (Suc n) (x # l) = Suc (consumed target n l)"
  by (auto simp: consumed_def Let_def)

lemma consoleread_loop_line:
  assumes "input_ok s" "lines s = (com, line)" "enough n com" "n \<le> target"
  shows "consoleread_loop ip target n acc s =
    consoleread_end ip (int target - int n + int (length (take_line n com))) (acc @ take_line n com)
      (s\<lparr>input_r := input_r s + of_nat (consumed target n com)\<rparr>)"
  using assms
proof (induction n arbitrary: s com acc)
  case 0
  then show ?case by (cases s) (simp add: consumed_def)
next
  case (Suc n)
  obtain x xs where c: "com = x # xs" using Suc.prems(3) by (cases com) (auto simp: enough_def)
  note nx = next_char [OF Suc.prems(1) Suc.prems(2) [unfolded c]]
  have adv: "input_ok (s\<lparr>input_r := input_r s + 1\<rparr>)" "lines (s\<lparr>input_r := input_r s + 1\<rparr>) = (xs, line)"
    using input_advance [OF Suc.prems(1,2), of 1] c by simp_all
  have u: "uint x = 4 \<longleftrightarrow> x = 4" by (simp add: word_uint_eq_iff)
  consider "x = 4" | "x = 10" | "x \<noteq> 4" "x \<noteq> 10" by blast
  then show ?case
  proof cases
    case 1
    then show ?thesis
      using nx Suc.prems(4) c by (cases s) (auto simp: consumed_def Let_def)
  next
    case 2
    then show ?thesis using nx c by (simp add: consumed_def Let_def)
  next
    case 3
    have "enough n xs" using Suc.prems(3) 3 c by (auto simp: enough_def)
    from Suc.IH [OF adv this, of "acc @ [x]"] show ?thesis
      using nx 3 c u Suc.prems(4) by (simp add: Let_def consumed_Cons algebra_simps)
  qed
qed


text \<open>Characters that neither edit nor end the line.\<close>

definition plain :: "u8 \<Rightarrow> bool" where
  "plain x \<longleftrightarrow> x \<notin> {0, 4, 8, 10, 13, 16, 21, 127}"

lemma plain_uint: "plain x \<Longrightarrow> uint x \<notin> {0, 4, 8, 10, 13, 16, 21, 127}"
  by (auto simp: plain_def word_uint_eq_iff)

lemma edit_plain:
  assumes "plain x" "Suc (length com + length line) < 128"
  shows "edit_key (uint x) (com, line) = (com, line @ [x])"
  using plain_uint [OF assms(1)] assms(2) by (simp add: edit_key_def Let_def)

lemma edit_plains:
  assumes "\<forall>x\<in>set bs. plain x" "length com + length line + length bs < 128"
  shows "fold edit_key (map uint bs) (com, line) = (com, line @ bs)"
  using assms
proof (induction bs arbitrary: line)
  case (Cons x bs)
  then show ?case using edit_plain [of x com line] by simp
qed simp

lemma take_line_plain:
  assumes "\<forall>x\<in>set bs. plain x" "length bs < n"
  shows "take_line n (bs @ 10 # xs) = bs @ [10]"
  using assms
proof (induction bs arbitrary: n)
  case Nil
  then show ?case by (cases n) simp_all
next
  case (Cons x bs)
  then show ?case by (cases n) (simp_all add: plain_def)
qed

lemma cons_runs_slock:
  assumes "cons_runs c p s"
  shows "cons_runs c p (slock_clear sl s)" "lines (slock_clear sl s) = lines s" "icache (slock_clear sl s) = icache s"
    "slocks (slock_clear sl s) = (slocks s)(sl := (slocks s sl)\<lparr>sl_locked := False, sl_pid := 0\<rparr>)"
  using assms by (simp_all add: slock_clear_def wakeup1_eq cons_runs_def cons_ready_def input_ok_def lines_def typed_def)

text \<open>A read on a console with enough text, by the process that holds the console's inode.\<close>

definition holds_ip :: "nat \<Rightarrow> nat \<Rightarrow> 'z fstate_scheme \<Rightarrow> bool" where
  "holds_ip p ip s \<longleftrightarrow> sl_locked (slocks s (InodeLock ip)) \<and> sl_pid (slocks s (InodeLock ip)) = p_pid (procs s p) \<and>
     1 \<le> i_ref (icache s ip) \<and> i_valid (icache s ip)"

lemma consoleread_line:
  assumes r: "cons_runs c p s" and h: "holds_ip p ip s" and l: "lines s = (com, line)" "enough n com" and n: "n < 2 ^ 31"
  shows "\<exists>t. consoleread ip n s = Ok (int (length (take_line n com)), take_line n com) t \<and> cons_runs c p t \<and>
    lines t = (drop (consumed n n com) com, line) \<and> holds_ip p ip t"
proof -
  let ?u = "slock_clear (InodeLock ip) s" and ?k = "consumed n n com"
  let ?v = "?u\<lparr>input_r := input_r ?u + of_nat ?k\<rparr>"
  note u = cons_runs_slock [OF r, of "InodeLock ip"]
  note ru = cons_runsD(1) [OF r] and ruu = cons_runsD(1) [OF u(1)]
  have un: "iunlock ip s = Ok () ?u"
    using h by (simp add: iunlock_def holdingsleep_ok [OF ru] releasesleep_ok [OF ru] holds_ip_def)
  have tl: "length (take_line n com) \<le> length com" for n com by (induction n com rule: take_line.induct) simp_all
  have k: "?k \<le> length com" using tl [of n com] by (auto simp: consumed_def Let_def)
  note adv = input_advance [OF cons_runsD(3) [OF u(1)] u(2) [unfolded l(1)] k]
  have rv: "cons_runs c p ?v" using u(1) adv(1) by (simp add: cons_runs_def cons_ready_def)
  have nn: "nat (int32 n) = n" using n by (simp add: int32_def)
  have "input_ok (acq ConsLock c ?u)" "lines (acq ConsLock c ?u) = (com, line)"
    using cons_runsD(3) [OF u(1)] u(2) l(1) by (simp_all add: input_ok_def lines_def typed_def)
  from consoleread_loop_line [OF this l(2) order_refl, of ip "[]"]
  have "consoleread ip n s = consoleread_end ip (int (length (take_line n com))) (take_line n com) (acq ConsLock c ?v)"
    by (simp add: consoleread_def un acquire_runs [OF ruu] nn acq_input)
  moreover have "ilock ip ?v = Ok () (slock_set (InodeLock ip) p ?v)"
    using h u(3,4) by (simp add: ilock_def acquiresleep_free [OF cons_runsD(1) [OF rv]] holds_ip_def slock_set_def)
  moreover have "cons_runs c p (slock_set (InodeLock ip) p ?v)" "lines (slock_set (InodeLock ip) p ?v) = lines ?v"
    "holds_ip p ip (slock_set (InodeLock ip) p ?v)"
    using rv h u(3) by (simp_all add: slock_set_def cons_runs_def cons_ready_def input_ok_def lines_def typed_def holds_ip_def)
  ultimately show ?thesis using adv(2) by (simp add: consoleread_end_def release_acq_runs [OF cons_runsD(1) [OF rv]])
qed

text \<open>
  C22. What is typed is what is read. A line of plain characters ended by carriage return arrives at the
  serial port while the input buffer is empty, and the interrupt is handled. Then the whole of
  \<open>consoleread\<close>, called by a process that holds the console's inode and asks for \<open>n\<close> bytes, more than
  the line has, returns: it gives the line and a newline, no byte more and none twice. The buffer
  is empty again, every spin lock is free, and the process holds the inode as before.
\<close>

theorem typed_line_is_read:
  assumes r: "cons_runs c p s" and u: "uart s" "uart_in s = bs @ [13]"
    and e: "lines s = ([], [])" and b: "\<forall>x\<in>set bs. plain x" "length bs < n" "length bs < 127"
    and h: "holds_ip p ip s" and n: "n < 2 ^ 31"
  shows "\<exists>t v. uartintr s = Ok () t \<and> consoleread ip n t = Ok (int (length bs) + 1, bs @ [10]) v \<and>
    lines v = ([], []) \<and> cons_runs c p v \<and> holds_ip p ip v"
proof -
  have "C_of CHR ''P'' \<notin> set (map uint (uart_in s))" using u b(1) plain_uint by fastforce
  from uartintr_edits [OF r u(1) this] obtain t where t: "uartintr s = Ok () t" "cons_runs c p t"
    "lines t = fold edit_key (map uint (uart_in s)) (lines s)" "same_inodes s t" by blast
  have l: "lines t = (bs @ [10], [])"
    using edit_plains [OF b(1), of "[]" "[]"] b(3) by (simp add: t(3) u(2) e edit_key_def Let_def)
  have tl: "take_line n (bs @ [10]) = bs @ [10]" using take_line_plain [OF b(1,2), of "[]"] by simp
  have k: "consumed n n (bs @ [10]) = length bs + 1" by (simp add: consumed_def tl)
  have ht: "holds_ip p ip t" using h t(4) by (simp add: holds_ip_def same_inodes_def)
  have "enough n (bs @ [10])" by (simp add: enough_def)
  from consoleread_line [OF t(2) ht l this n] show ?thesis using t(1) by (auto simp: tl k add.commute)
qed

text \<open>
  C38. Output stays on the screen. With the cursor in the first 24 rows, writing any character to the
  console succeeds, and the cursor is again there, on a blank cell; when the text reaches the last
  row, all rows move up by one and the last is cleared.
\<close>

theorem consputc_on_screen:
  assumes "\<not> panicked s" "unat (crt_pos s) < 1920"
  shows "\<exists>t. consputc x s = Ok () t \<and> unat (crt_pos t) < 1920 \<and> crt t (unat (crt_pos t)) = 0x0720 \<and>
    (let (pos, scr) = cga_write x (unat (crt_pos s)) (crt s)
     in if pos < 1920 then unat (crt_pos t) = pos \<and> (\<forall>i. i \<noteq> pos \<longrightarrow> crt t i = scr i)
        else unat (crt_pos t) = 1840 \<and> (\<forall>i<1840. crt t i = scr (i + 80)) \<and> (\<forall>i. 1840 < i \<and> i < 1920 \<longrightarrow> crt t i = 0))"
proof -
  obtain pos scr where w: "cga_write x (unat (crt_pos s)) (crt s) = (pos, scr)" by (cases "cga_write x (unat (crt_pos s)) (crt s)")
  have p: "pos \<le> 1920" by (rule cga_write_pos [OF assms(2) w])
  let ?t = "if x = BACKSPACE then uartputc 8 (uartputc 32 (uartputc 8 s)) else uartputc x s"
  have f: "crt_pos ?t = crt_pos s" "crt ?t = crt s" by (simp_all add: uartputc_def)
  have e: "consputc x s = cgaputc x ?t" using assms(1) by (simp add: consputc_def)
  show ?thesis
  proof (cases "pos < 1920")
    case True
    then have u: "unat (of_nat pos :: u16) = pos" by (intro unat16_of_nat) simp
    have "pos div 80 < 24" using True by simp
    then have "cgaputc x ?t = Ok () (?t\<lparr>crt_pos := of_nat pos, crt := scr(pos := 0x0720)\<rparr>)"
      using w True by (simp only: cgaputc_def f) (simp add: cga_scroll_def Let_def)
    then show ?thesis unfolding e w using True u by auto
  next
    case False
    then have q: "pos = 1920" using p by simp
    let ?scr = "\<lambda>i. if 1840 \<le> i \<and> i < 1920 then 0 else if i < 1840 then scr (i + 80) else scr i"
    have "cgaputc x ?t = Ok () (?t\<lparr>crt_pos := 1840, crt := ?scr(1840 := 0x0720)\<rparr>)"
      using w by (simp only: cgaputc_def f) (simp add: q cga_scroll_def Let_def)
    then show ?thesis unfolding e w using q by auto
  qed
qed


section \<open>A console in use\<close>

definition cons_machine :: "u8 list \<Rightarrow> u8 list \<Rightarrow> tstate" where
  "cons_machine ks us = (trap_machine (\<lambda>_. zero_proc) True 0)\<lparr>kbd_in := ks, uart_in := us\<rparr>"

lemma cons_machine_simps [simp]:
  "kbd_in (cons_machine ks us) = ks" "uart_in (cons_machine ks us) = us" "kbd_shift (cons_machine ks us) = 0"
  "uart (cons_machine ks us)" "\<not> panicked (cons_machine ks us)" "crt_pos (cons_machine ks us) = 0"
  "input_r (cons_machine ks us) = 0" "input_w (cons_machine ks us) = 0" "input_e (cons_machine ks us) = 0"
  by (simp_all add: cons_machine_def trap_machine_def prstate.defs dstate.defs cstate.defs tstate.defs)

lemma cons_machine_runs: "cons_runs 0 0 (cons_machine ks us)"
proof -
  have "runs 0 0 (cons_machine ks us)" using trap_machine_runs [of "\<lambda>_. zero_proc" True 0] by (simp add: cons_machine_def)
  then show ?thesis by (simp add: cons_runs_def cons_ready_def input_ok_def)
qed

lemma cons_machine_lines: "lines (cons_machine ks us) = ([], [])"
  by (simp add: lines_def typed_def circ_def)

lemma scan_abc: "scan_chars 0 [0x1E, 0x30, 0x0E, 0x1C] = [97, 98, 8, 10]"
  by code_simp

theorem kbdintr_edits_witness:
  "\<exists>t. kbdintr (cons_machine [0x1E, 0x30, 0x0E, 0x1C] []) = Ok () t \<and> lines t = ([97, 10], [])"
proof -
  let ?s = "cons_machine [0x1E, 0x30, 0x0E, 0x1C] []"
  have k: "scan_chars (kbd_shift ?s) (kbd_in ?s) = [97, 98, 8, 10]" by (simp only: cons_machine_simps scan_abc)
  have "fold edit_key [97, 98, 8, 10] ([], []) = ([97, 10], [])" by (simp add: edit_key_def Let_def)
  then show ?thesis using kbdintr_edits [OF cons_machine_runs, of "[0x1E, 0x30, 0x0E, 0x1C]" "[]", unfolded k cons_machine_lines]
    by (auto simp del: scan_chars.simps)
qed

text \<open>The same machine inside a read of the console: process 0 holds the inode 0.\<close>

definition read_machine :: "u8 list \<Rightarrow> tstate" where
  "read_machine us = (cons_machine [] us)\<lparr>icache := (icache (cons_machine [] us))(0 := no_inode\<lparr>i_ref := 1, i_valid := True\<rparr>),
     slocks := (slocks (cons_machine [] us))(InodeLock 0 :=
       free_sleeplock\<lparr>sl_locked := True, sl_pid := p_pid (procs (cons_machine [] us) 0)\<rparr>)\<rparr>"

lemma read_machine_runs: "cons_runs 0 0 (read_machine us)" "uart (read_machine us)" "uart_in (read_machine us) = us"
  "lines (read_machine us) = ([], [])" "holds_ip 0 0 (read_machine us)"
  using cons_machine_runs [of "[]" us]
  by (simp_all add: runs_def calm_def steady_def lk_free_def read_machine_def cons_runs_def cons_ready_def input_ok_def holds_ip_def lines_def typed_def circ_def)

theorem typed_line_is_read_witness:
  "\<exists>t v. uartintr (read_machine [108, 115, 13]) = Ok () t \<and> consoleread 0 100 t = Ok (3, [108, 115, 10]) v \<and>
     lines v = ([], [])"
proof -
  note m = read_machine_runs [of "[108, 115, 13]"]
  have b: "\<forall>x\<in>set [108, 115]. plain x" by (simp add: plain_def)
  have "uart_in (read_machine [108, 115, 13]) = [108, 115] @ [13]" using m(3) by simp
  from typed_line_is_read [OF m(1,2) this m(4) b _ _ m(5), of 100] show ?thesis by auto
qed

theorem consputc_on_screen_witness:
  "\<exists>t. consputc 97 (cons_machine [] []) = Ok () t \<and> unat (crt_pos t) = 1 \<and> crt t 0 = 0x0761"
  using consputc_on_screen [of "cons_machine [] []" 97] by (auto simp: cga_write_def BACKSPACE_def Let_def)

end
