(* ===== verification/Ide.thy ===== *)
theory Ide
  imports Trap
begin

text \<open>
  The driver of the IDE disk (\<open>ide.c\<close>), used by the ordinary build in place of the memory disk of
  \<open>memide.c\<close>; its functions carry the suffix \<open>_pio\<close>. The pending requests form a list linked by
  \<open>qnext\<close>. Of the controller the model has what the driver can see: the last byte written to each
  port, the bytes sent to the data port, the status byte and the bytes the data port delivers.
  \<open>idewait\<close> returns once the controller says it is ready; while it never does, the driver hangs
  (\<open>Spin\<close>).
\<close>

section \<open>State\<close>

record istate = tstate +
  idequeue :: "nat option"
  b_qnext :: "nat \<Rightarrow> nat option"
  havedisk1 :: bool
  ide_port :: "nat \<Rightarrow> u8"
  ide_sent :: "u8 list"
  ide_status :: u8
  ide_status1 :: u8
  ide_data :: "u8 list"

definition SECTOR_SIZE :: nat where "SECTOR_SIZE = 512"
definition IDE_BSY :: u8 where "IDE_BSY = 0x80"
definition IDE_DRDY :: u8 where "IDE_DRDY = 0x40"
definition IDE_DF :: u8 where "IDE_DF = 0x20"
definition IDE_ERR :: u8 where "IDE_ERR = 0x01"
definition IDE_CMD_READ :: u8 where "IDE_CMD_READ = 0x20"
definition IDE_CMD_WRITE :: u8 where "IDE_CMD_WRITE = 0x30"
definition IDE_CMD_RDMUL :: u8 where "IDE_CMD_RDMUL = 0xc4"
definition IDE_CMD_WRMUL :: u8 where "IDE_CMD_WRMUL = 0xc5"

section \<open>The driver\<close>

definition outb :: "nat \<Rightarrow> u8 \<Rightarrow> 'z istate_scheme \<Rightarrow> 'z istate_scheme" where
  "outb port data s = s\<lparr>ide_port := (ide_port s)(port := data)\<rparr>"

definition outsl :: "u8 list \<Rightarrow> 'z istate_scheme \<Rightarrow> 'z istate_scheme" where
  "outsl bs s = s\<lparr>ide_sent := bs\<rparr>"

text \<open>The polling loop of \<open>idewait\<close> either sees a ready controller or goes on for ever.\<close>

definition idewait :: "bool \<Rightarrow> 'z istate_scheme \<Rightarrow> (int, 'z istate_scheme) res" where
  "idewait checkerr s =
     (let r = ide_status s
      in if r AND (IDE_BSY OR IDE_DRDY) \<noteq> IDE_DRDY then Spin
         else if checkerr \<and> r AND (IDE_DF OR IDE_ERR) \<noteq> 0 then Ok (- 1) s
         else Ok 0 s)"

text \<open>\<open>ide_status1\<close> is the status byte while disk 1 is selected.\<close>

definition ideinit_pio :: "'z istate_scheme \<Rightarrow> (unit, 'z istate_scheme) res" where
  "ideinit_pio s =
     andthen (idewait False (ioapicenable IRQ_IDE (of_nat (ncpu s) - 1) (initlock IdeLock ''ide'' s))) (\<lambda>_ s.
     let s = outb 0x1f6 (0xe0 OR push_bit 4 1) s;
         s = (if ide_status1 s \<noteq> 0 then s\<lparr>havedisk1 := True\<rparr> else s)
     in Ok () (outb 0x1f6 (0xe0 OR push_bit 4 0) s))"

definition idestart :: "nat option \<Rightarrow> 'z istate_scheme \<Rightarrow> (unit, 'z istate_scheme) res" where
  "idestart b s =
     (case b of None \<Rightarrow> Panic ''idestart''
      | Some b \<Rightarrow>
        if b_blockno (bufs s b) \<ge> FSSIZE then Panic ''incorrect blockno''
        else
          let sector_per_block = BSIZE div SECTOR_SIZE;
              sector = (of_nat (b_blockno (bufs s b) * sector_per_block) :: u32);
              read_cmd = (if sector_per_block = 1 then IDE_CMD_READ else IDE_CMD_RDMUL);
              write_cmd = (if sector_per_block = 1 then IDE_CMD_WRITE else IDE_CMD_WRMUL)
          in if sector_per_block > 7 then Panic ''idestart''
             else
               andthen (idewait False s) (\<lambda>_ s.
               let s = outb 0x3f6 0 s;
                   s = outb 0x1f2 (of_nat sector_per_block) s;
                   s = outb 0x1f3 (ucast (sector AND 0xff)) s;
                   s = outb 0x1f4 (ucast (drop_bit 8 sector AND 0xff)) s;
                   s = outb 0x1f5 (ucast (drop_bit 16 sector AND 0xff)) s;
                   s = outb 0x1f6 (ucast (0xe0 OR push_bit 4 ((of_nat (b_dev (bufs s b)) :: u32) AND 1)
                          OR (drop_bit 24 sector AND 0x0f))) s
               in Ok () (if b_dirty (bufs s b)
                         then outsl (b_data (bufs s b)) (outb 0x1f7 write_cmd s)
                         else outb 0x1f7 read_cmd s)))"

definition ideintr_pio :: "'z istate_scheme \<Rightarrow> (unit, 'z istate_scheme) res" where
  "ideintr_pio s =
     andthen (acquire IdeLock s) (\<lambda>_ s.
     case idequeue s of
       None \<Rightarrow> release IdeLock s
     | Some b \<Rightarrow>
         let s = s\<lparr>idequeue := b_qnext s b\<rparr>
         in andthen (if b_dirty (bufs s b) then Ok () s
                     else andthen (idewait True s) (\<lambda>r s.
                       Ok () (if r \<ge> 0 then upd_buf b (\<lambda>r. r\<lparr>b_data := ide_data s\<rparr>) s else s))) (\<lambda>_ s.
            andthen (wakeup (ChanBuf b) (upd_buf b (\<lambda>r. r\<lparr>b_valid := True, b_dirty := False\<rparr>) s)) (\<lambda>_ s.
            andthen (if idequeue s \<noteq> None then idestart (idequeue s) s else Ok () s) (\<lambda>_ s.
            release IdeLock s))))"

text \<open>
  The append loop follows \<open>qnext\<close> to the end of the queue; it goes on for ever if the links form a
  cycle.
\<close>

partial_function (option) queue_end :: "(nat \<Rightarrow> nat option) \<Rightarrow> nat \<Rightarrow> nat option" where
  "queue_end f b = (case f b of None \<Rightarrow> Some b | Some c \<Rightarrow> queue_end f c)"

definition queue_append :: "nat \<Rightarrow> 'z istate_scheme \<Rightarrow> (unit, 'z istate_scheme) res" where
  "queue_append b s =
     (let s = s\<lparr>b_qnext := (b_qnext s)(b := None)\<rparr>
      in case idequeue s of
           None \<Rightarrow> Ok () (s\<lparr>idequeue := Some b\<rparr>)
         | Some h \<Rightarrow>
             (case queue_end (b_qnext s) h of
                None \<Rightarrow> Spin
              | Some e \<Rightarrow> Ok () (s\<lparr>b_qnext := (b_qnext s)(e := Some b)\<rparr>)))"

text \<open>The wait for the request, which sleeps until the buffer is valid and clean.\<close>

definition iderw_wait :: "nat \<Rightarrow> 'z istate_scheme \<Rightarrow> (unit, 'z istate_scheme) res" where
  "iderw_wait b s =
     (if b_valid (bufs s b) \<and> \<not> b_dirty (bufs s b) then release IdeLock s
      else andthen (sleep (ChanBuf b) IdeLock s) (\<lambda>_ s. Panic ''sleep returned''))"

definition iderw_pio :: "nat \<Rightarrow> 'z istate_scheme \<Rightarrow> (unit, 'z istate_scheme) res" where
  "iderw_pio b s =
     andthen (holdingsleep (BufLock b) s) (\<lambda>h s.
     if \<not> h then Panic ''iderw: buf not locked''
     else if b_valid (bufs s b) \<and> \<not> b_dirty (bufs s b) then Panic ''iderw: nothing to do''
     else if b_dev (bufs s b) \<noteq> 0 \<and> \<not> havedisk1 s then Panic ''iderw: ide disk 1 not present''
     else
       andthen (acquire IdeLock s) (\<lambda>_ s.
       andthen (queue_append b s) (\<lambda>_ s.
       andthen (if idequeue s = Some b then idestart (Some b) s else Ok () s) (\<lambda>_ s.
       iderw_wait b s))))"

definition iderw_resume :: "nat \<Rightarrow> bool \<Rightarrow> nat \<Rightarrow> 'z istate_scheme \<Rightarrow> (unit, 'z istate_scheme) res" where
  "iderw_resume q intena b s =
     andthen (sleep_return q IdeLock intena s) (\<lambda>_ s. iderw_wait b s)"

end
