(* ===== verification/Usys.thy ===== *)
theory Usys
  imports Sysfile "HOL-Library.Char_ord"
begin

text \<open>
  What a user program can do: compute, and make system calls (\<open>user.h\<close>, \<open>syscall.h\<close>). A program
  runs against an environment that answers each call from the calls made so far; \<open>fork\<close> answers
  with the child's identifier in the parent and with 0 in the child, so one run follows one process.
  A run ends by returning a value, or it is over: the process has called \<open>exit\<close>, or \<open>exec\<close> has
  replaced its program. \<open>None\<close> is a run without end, or one with no defined behaviour. Strings are
  the bytes before the terminating zero.
\<close>

section \<open>System calls\<close>

text \<open>
  The requests after \<open>SYS_close\<close> are made by the test program only: a system call with an address
  of its own making in the place of an argument, and instructions whose outcome the kernel decides,
  which are accesses to memory at an address and to a port. \<open>RFault\<close> says that the instruction
  faulted, and the kernel has ended the process.
\<close>

datatype sysreq =
    SYS_fork | SYS_exit | SYS_wait | SYS_pipe | SYS_read int nat | SYS_kill int
  | SYS_exec string "string list" | SYS_fstat int | SYS_chdir string | SYS_dup int | SYS_getpid
  | SYS_sbrk int | SYS_sleep int | SYS_uptime | SYS_open string u32 | SYS_write int string
  | SYS_mknod string int int | SYS_unlink string | SYS_link string string | SYS_mkdir string
  | SYS_close int
  | Sleep_at u32 | Link_at string u32 | Read_at int u32 int
  | Load u32 | Store u32 int | Inb u16 | Outb u16 u8

datatype sysret = RInt int | RBytes string | RPipe int int | RStat stat | RFault

type_synonym hist = "sysreq list"
type_synonym os = "hist \<Rightarrow> sysret"

datatype 'a uout = Ret 'a hist | Gone hist

type_synonym 'a uprog = "hist \<Rightarrow> 'a uout option"

definition ubind :: "'a uprog \<Rightarrow> ('a \<Rightarrow> 'b uprog) \<Rightarrow> 'b uprog" where
  "ubind m f h =
     Option.bind (m h) (\<lambda>r. case r of Ret a h \<Rightarrow> f a h | Gone h \<Rightarrow> Some (Gone h))"

definition ret :: "'a \<Rightarrow> 'a uprog" where "ret a h = Some (Ret a h)"

definition call :: "os \<Rightarrow> sysreq \<Rightarrow> sysret uprog" where
  "call os c h = Some (Ret (os (h @ [c])) (h @ [c]))"

fun rval :: "sysret \<Rightarrow> int" where
  "rval (RInt i) = i"
| "rval (RBytes bs) = int (length bs)"
| "rval _ = 0"

definition call_int :: "os \<Rightarrow> sysreq \<Rightarrow> int uprog" where
  "call_int os c = ubind (call os c) (\<lambda>r. ret (rval r))"

text \<open>A read never returns more bytes than it was asked for.\<close>

definition read :: "os \<Rightarrow> int \<Rightarrow> nat \<Rightarrow> (int \<times> string) uprog" where
  "read os fd n = ubind (call os (SYS_read fd n)) (\<lambda>r.
     case r of
       RBytes bs \<Rightarrow> ret (int (length (take n bs)), take n bs)
     | r \<Rightarrow> ret (min 0 (rval r), []))"

definition fstat :: "os \<Rightarrow> int \<Rightarrow> (int \<times> stat option) uprog" where
  "fstat os fd = ubind (call os (SYS_fstat fd)) (\<lambda>r.
     case r of RStat st \<Rightarrow> ret (0, Some st) | _ \<Rightarrow> ret (- 1, None))"

definition pipe_u :: "os \<Rightarrow> (int \<times> int \<times> int) uprog" where
  "pipe_u os = ubind (call os SYS_pipe) (\<lambda>r.
     case r of RPipe p q \<Rightarrow> ret (0, p, q) | _ \<Rightarrow> ret (- 1, 0, 0))"

definition exit_u :: "os \<Rightarrow> 'a uprog" where
  "exit_u os h = Some (Gone (h @ [SYS_exit]))"

definition exec_u :: "os \<Rightarrow> string \<Rightarrow> string list \<Rightarrow> int uprog" where
  "exec_u os path argv h =
     (let h = h @ [SYS_exec path argv]
      in if rval (os h) < 0 then Some (Ret (rval (os h)) h) else Some (Gone h))"

section \<open>Sequencing\<close>

named_theorems user_simps

lemma ubind_mono [partial_function_mono]:
  assumes "\<And>h. mono_option (\<lambda>F. B F h)" "\<And>a h. mono_option (\<lambda>F. C F a h)"
  shows "mono_option (\<lambda>F. ubind (B F) (C F) h)"
  unfolding ubind_def
proof (rule bind_mono)
  show "mono_option (\<lambda>F. B F h)" by (rule assms)
  show "\<And>r. mono_option (\<lambda>F. case r of Ret a h \<Rightarrow> C F a h | Gone h \<Rightarrow> Some (Gone h))"
  proof -
    fix r
    show "mono_option (\<lambda>F. case r of Ret a h \<Rightarrow> C F a h | Gone h \<Rightarrow> Some (Gone h))"
      by (cases r) (simp_all add: assms option.const_mono)
  qed
qed

lemma if_apply_mono [partial_function_mono]:
  "mono_option (\<lambda>F. A F h) \<Longrightarrow> mono_option (\<lambda>F. B F h) \<Longrightarrow> mono_option (\<lambda>F. (if b then A F else B F) h)"
  by (cases b) simp_all

lemma ubind_simps [user_simps, simp]:
  "m h = Some (Ret a h') \<Longrightarrow> ubind m f h = f a h'"
  "m h = Some (Gone h') \<Longrightarrow> ubind m f h = Some (Gone h')"
  "m h = None \<Longrightarrow> ubind m f h = None"
  by (simp_all add: ubind_def)

end
