(* ===== verification/Ulib.thy ===== *)
theory Ulib
  imports Usys
begin

text \<open>
  The C library of the user programs (\<open>ulib.c\<close>, \<open>printf.c\<close>). The functions that copy or compare
  take the bytes a pointer leads to as a function of the offset, as in the kernel's \<open>string.c\<close>; a
  search for a terminator that is not there never ends (\<open>None\<close>).
\<close>

section \<open>Strings and memory\<close>

partial_function (option) strcpy_from :: "bytes \<Rightarrow> bytes \<Rightarrow> nat \<Rightarrow> bytes option" where
  "strcpy_from s t i =
     (let s = s(i := t i) in if t i \<noteq> 0 then strcpy_from s t (i + 1) else Some s)"

definition strcpy :: "bytes \<Rightarrow> bytes \<Rightarrow> bytes option" where "strcpy s t = strcpy_from s t 0"

partial_function (option) strcmp_from :: "bytes \<Rightarrow> bytes \<Rightarrow> nat \<Rightarrow> int option" where
  "strcmp_from p q i =
     (if p i \<noteq> 0 \<and> p i = q i then strcmp_from p q (i + 1)
      else Some (int (unat (p i)) - int (unat (q i))))"

definition strcmp :: "bytes \<Rightarrow> bytes \<Rightarrow> int option" where "strcmp p q = strcmp_from p q 0"

definition strlen_u :: "bytes \<Rightarrow> nat option" where "strlen_u s = strlen_from s 0"

definition memset_u :: "nat \<Rightarrow> u32 \<Rightarrow> nat \<Rightarrow> mem \<Rightarrow> mem" where
  "memset_u dst c n m = stosb dst (ucast c) n m"

text \<open>The user version of \<open>memmove\<close> always copies upwards.\<close>

definition memmove_u :: "nat \<Rightarrow> nat \<Rightarrow> int \<Rightarrow> mem \<Rightarrow> mem" where
  "memmove_u vdst vsrc n m = move_up vdst vsrc (nat n) m"

text \<open>The part of a string from the first \<open>c\<close> on.\<close>

fun strchr :: "string \<Rightarrow> char \<Rightarrow> string option" where
  "strchr [] c = None"
| "strchr (x # s) c = (if x = c then Some (x # s) else strchr s c)"

fun atoi_loop :: "string \<Rightarrow> u32 \<Rightarrow> u32" where
  "atoi_loop [] n = n"
| "atoi_loop (c # s) n =
     (if CHR ''0'' \<le> c \<and> c \<le> CHR ''9'' then atoi_loop s (n * 10 + of_char c - of_char CHR ''0'') else n)"

definition atoi :: "string \<Rightarrow> int" where "atoi s = sint (atoi_loop s 0)"

section \<open>Input\<close>

text \<open>\<open>k\<close> is the room left in the buffer, apart from the terminator.\<close>

fun gets_loop :: "os \<Rightarrow> nat \<Rightarrow> string \<Rightarrow> string uprog" where
  "gets_loop os 0 buf = ret buf"
| "gets_loop os (Suc k) buf =
     ubind (read os 0 1) (\<lambda>(cc, bs).
     if cc < 1 then ret buf
     else
       let c = hd bs; buf = buf @ [c]
       in if c = CHR 0x0A \<or> c = CHR 0x0D then ret buf else gets_loop os k buf)"

definition gets :: "os \<Rightarrow> nat \<Rightarrow> string uprog" where "gets os mx = gets_loop os (mx - 1) []"

definition stat_u :: "os \<Rightarrow> string \<Rightarrow> (int \<times> stat option) uprog" where
  "stat_u os n =
     ubind (call_int os (SYS_open n 0)) (\<lambda>fd.
     if fd < 0 then ret (- 1, None)
     else
       ubind (fstat os fd) (\<lambda>r.
       ubind (call_int os (SYS_close fd)) (\<lambda>_. ret r)))"

section \<open>Formatted output\<close>

definition putc :: "os \<Rightarrow> int \<Rightarrow> char \<Rightarrow> unit uprog" where
  "putc os fd c = ubind (call os (SYS_write fd [c])) (\<lambda>_. ret ())"

fun uputs :: "os \<Rightarrow> int \<Rightarrow> string \<Rightarrow> unit uprog" where
  "uputs os fd [] = ret ()"
| "uputs os fd (c # s) = ubind (putc os fd c) (\<lambda>_. uputs os fd s)"

definition udigits :: string where "udigits = ''0123456789ABCDEF''"

function uprint_digits :: "nat \<Rightarrow> nat \<Rightarrow> string" where
  "uprint_digits base x =
     (if base < 2 then []
      else udigits ! (x mod base) # (if x div base = 0 then [] else uprint_digits base (x div base)))"
  by auto
termination
  by (relation "measure snd") (auto intro!: div_less_dividend gr0I)

declare uprint_digits.simps [simp del]

definition uint_chars :: "u32 \<Rightarrow> nat \<Rightarrow> bool \<Rightarrow> string" where
  "uint_chars xx base sgned =
     (let neg = (sgned \<and> sint xx < 0);
          x = (if neg then - xx else xx)
      in rev (uprint_digits base (unat x) @ (if neg then ''-'' else [])))"

definition printint_u :: "os \<Rightarrow> int \<Rightarrow> u32 \<Rightarrow> nat \<Rightarrow> bool \<Rightarrow> unit uprog" where
  "printint_u os fd xx base sgned = uputs os fd (uint_chars xx base sgned)"

text \<open>
  An argument of \<open>printf\<close> is a number or a string, possibly the null pointer. An argument that is
  missing or of the other kind has no defined behaviour.
\<close>

datatype parg = PNum u32 | PStr "string option"

definition print_conv :: "os \<Rightarrow> int \<Rightarrow> char \<Rightarrow> parg list \<Rightarrow> parg list uprog" where
  "print_conv os fd c ap =
     (if c = CHR ''d'' then
        (case ap of PNum x # ap \<Rightarrow> ubind (printint_u os fd x 10 True) (\<lambda>_. ret ap) | _ \<Rightarrow> (\<lambda>_. None))
      else if c = CHR ''x'' \<or> c = CHR ''p'' then
        (case ap of PNum x # ap \<Rightarrow> ubind (printint_u os fd x 16 False) (\<lambda>_. ret ap) | _ \<Rightarrow> (\<lambda>_. None))
      else if c = CHR ''s'' then
        (case ap of
           PStr s # ap \<Rightarrow>
             ubind (uputs os fd (case s of None \<Rightarrow> ''(null)'' | Some s \<Rightarrow> s)) (\<lambda>_. ret ap)
         | _ \<Rightarrow> (\<lambda>_. None))
      else if c = CHR ''c'' then
        (case ap of PNum x # ap \<Rightarrow> ubind (putc os fd (char_of (unat x))) (\<lambda>_. ret ap) | _ \<Rightarrow> (\<lambda>_. None))
      else if c = CHR ''%'' then ubind (putc os fd c) (\<lambda>_. ret ap)
      else
        ubind (putc os fd CHR ''%'') (\<lambda>_.
        ubind (putc os fd c) (\<lambda>_. ret ap)))"

text \<open>The flag says that the previous character was a percent sign.\<close>

fun printf_loop :: "os \<Rightarrow> int \<Rightarrow> bool \<Rightarrow> string \<Rightarrow> parg list \<Rightarrow> unit uprog" where
  "printf_loop os fd state [] ap = ret ()"
| "printf_loop os fd False (c # fmt) ap =
     (if c = CHR ''%'' then printf_loop os fd True fmt ap
      else ubind (putc os fd c) (\<lambda>_. printf_loop os fd False fmt ap))"
| "printf_loop os fd True (c # fmt) ap =
     ubind (print_conv os fd c ap) (\<lambda>ap. printf_loop os fd False fmt ap)"

definition printf :: "os \<Rightarrow> int \<Rightarrow> string \<Rightarrow> parg list \<Rightarrow> unit uprog" where
  "printf os fd fmt ap = printf_loop os fd False fmt ap"

section \<open>What is printed\<close>

lemma ret_simp [simp]: "ret a h = Some (Ret a h)"
  by (simp add: ret_def)

lemma ubind_ret [simp]: "ubind (ret a) f h = f a h"
  by simp

lemma call_simp: "call os c h = Some (Ret (os (h @ [c])) (h @ [c]))"
  by (simp add: call_def)

lemma ubind_call: "ubind (call os c) f h = f (os (h @ [c])) (h @ [c])"
  by (simp add: call_def)

lemma call_int_simp: "call_int os c h = Some (Ret (rval (os (h @ [c]))) (h @ [c]))"
  by (simp add: call_int_def ubind_call)

lemma ubind_call_int: "ubind (call_int os c) f h = f (rval (os (h @ [c]))) (h @ [c])"
  by (simp add: call_int_simp)

lemma ubind_assoc: "ubind (ubind m f) g h = ubind m (\<lambda>a. ubind (f a) g) h"
  by (cases "m h") (auto simp: ubind_def split: uout.splits)

declare call_simp [user_simps] ubind_call [user_simps] call_int_simp [user_simps] ubind_call_int [user_simps]

text \<open>Output is written one byte at a time.\<close>

definition writes :: "int \<Rightarrow> string \<Rightarrow> hist" where "writes fd s = map (\<lambda>c. SYS_write fd [c]) s"

lemma writes_simps [simp]:
  "writes fd [] = []" "writes fd (c # s) = SYS_write fd [c] # writes fd s"
  "writes fd (s @ t) = writes fd s @ writes fd t"
  by (simp_all add: writes_def)

lemma putc_simp [user_simps, simp]: "putc os fd c h = Some (Ret () (h @ writes fd [c]))"
  by (simp add: putc_def ubind_call)

lemma uputs_simp [user_simps, simp]: "uputs os fd s h = Some (Ret () (h @ writes fd s))"
  by (induction s arbitrary: h) auto

lemma printint_u_simp [user_simps, simp]:
  "printint_u os fd xx base sgned h = Some (Ret () (h @ writes fd (uint_chars xx base sgned)))"
  by (simp add: printint_u_def)

text \<open>The text a format stands for; \<open>None\<close> if the arguments do not fit it.\<close>

definition conv_text :: "char \<Rightarrow> parg list \<Rightarrow> (string \<times> parg list) option" where
  "conv_text c ap =
     (if c = CHR ''d'' then (case ap of PNum x # ap \<Rightarrow> Some (uint_chars x 10 True, ap) | _ \<Rightarrow> None)
      else if c \<in> {CHR ''x'', CHR ''p''} then
        (case ap of PNum x # ap \<Rightarrow> Some (uint_chars x 16 False, ap) | _ \<Rightarrow> None)
      else if c = CHR ''s'' then
        (case ap of PStr s # ap \<Rightarrow> Some (case s of None \<Rightarrow> ''(null)'' | Some s \<Rightarrow> s, ap) | _ \<Rightarrow> None)
      else if c = CHR ''c'' then (case ap of PNum x # ap \<Rightarrow> Some ([char_of (unat x)], ap) | _ \<Rightarrow> None)
      else if c = CHR ''%'' then Some (''%'', ap)
      else Some ([CHR ''%'', c], ap))"

fun format_text :: "string \<Rightarrow> parg list \<Rightarrow> string option" where
  "format_text [] ap = Some []"
| "format_text [c] ap = Some (if c = CHR ''%'' then [] else [c])"
| "format_text (c # d # fmt) ap =
     (if c = CHR ''%'' then
        Option.bind (conv_text d ap) (\<lambda>(s, ap). map_option ((@) s) (format_text fmt ap))
      else map_option ((#) c) (format_text (d # fmt) ap))"

lemma print_conv_text:
  "print_conv os fd c ap h = map_option (\<lambda>(s, ap). Ret ap (h @ writes fd s)) (conv_text c ap)"
  by (auto simp: print_conv_def conv_text_def split: list.splits parg.splits option.splits)

lemma printf_loop_text:
  "printf_loop os fd False fmt ap h = map_option (\<lambda>s. Ret () (h @ writes fd s)) (format_text fmt ap)"
proof (induction "length fmt" arbitrary: fmt ap h rule: less_induct)
  case less
  note IH = less
  consider "fmt = []" | c where "fmt = [c]" | c d r where "fmt = c # d # r"
    by (cases fmt rule: remdups_adj.cases) auto
  then show ?case
  proof cases
    case (3 c d r)
    show ?thesis
    proof (cases "c = CHR ''%''")
      case True
      have "printf_loop os fd False r ap' h' = map_option (\<lambda>s. Ret () (h' @ writes fd s)) (format_text r ap')"
        for ap' h' using IH [of r] 3 by simp
      with True 3 show ?thesis
        by (cases "conv_text d ap") (auto simp: print_conv_text option.map_comp comp_def)
    next
      case False
      have "printf_loop os fd False (d # r) ap h' = map_option (\<lambda>s. Ret () (h' @ writes fd s)) (format_text (d # r) ap)"
        for h' using IH [of "d # r"] 3 by simp
      with False 3 show ?thesis
        by (simp del: format_text.simps(2) printf_loop.simps(3) add: option.map_comp comp_def)
    qed
  qed auto
qed

lemma printf_text [user_simps]:
  "printf os fd fmt ap h = map_option (\<lambda>s. Ret () (h @ writes fd s)) (format_text fmt ap)"
  by (simp add: printf_def printf_loop_text)

section \<open>Numbers\<close>

lemma udigit:
  assumes "d < 10"
  shows "CHR ''0'' \<le> udigits ! d \<and> udigits ! d \<le> CHR ''9'' \<and> (of_char (udigits ! d) :: u32) = 48 + of_nat d"
proof -
  have "d = 0 \<or> d = 1 \<or> d = 2 \<or> d = 3 \<or> d = 4 \<or> d = 5 \<or> d = 6 \<or> d = 7 \<or> d = 8 \<or> d = 9"
    using assms by presburger
  then show ?thesis by (elim disjE) (simp_all add: udigits_def less_eq_char_def)
qed

lemma atoi_loop_append:
  "\<forall>c\<in>set s. CHR ''0'' \<le> c \<and> c \<le> CHR ''9'' \<Longrightarrow> atoi_loop (s @ t) n = atoi_loop t (atoi_loop s n)"
  by (induction s arbitrary: n) auto

lemma atoi_digits:
  "(\<forall>c\<in>set (uprint_digits 10 x). CHR ''0'' \<le> c \<and> c \<le> CHR ''9'') \<and>
   atoi_loop (rev (uprint_digits 10 x)) 0 = of_nat x"
proof (induction "x" rule: less_induct)
  case (less x)
  note u = udigit [of "x mod 10"]
  show ?case
  proof (cases "x div 10 = 0")
    case True
    then have "x mod 10 = x" by (simp add: div_eq_0_iff)
    with True u show ?thesis by (simp add: uprint_digits.simps [of 10 x])
  next
    case False
    then have IH: "\<forall>c\<in>set (uprint_digits 10 (x div 10)). CHR ''0'' \<le> c \<and> c \<le> CHR ''9''"
      "atoi_loop (rev (uprint_digits 10 (x div 10))) 0 = of_nat (x div 10)"
      using less [of "x div 10"] by auto
    have "(of_nat (x div 10) :: u32) * 10 + of_nat (x mod 10) = of_nat (x div 10 * 10 + x mod 10)"
      by (simp only: of_nat_add of_nat_mult of_nat_numeral)
    with False IH u show ?thesis
      by (simp add: uprint_digits.simps [of 10 x] atoi_loop_append)
  qed
qed

text \<open>Reading back a printed number; the sign is not read.\<close>

lemma atoi_printed: "atoi (uint_chars x 10 True) = (if sint x < 0 then 0 else sint x)"
proof (cases "sint x < 0")
  case True
  then show ?thesis by (simp add: uint_chars_def atoi_def less_eq_char_def)
next
  case False
  then show ?thesis using atoi_digits [of "unat x"] by (simp add: uint_chars_def atoi_def)
qed

section \<open>Copying\<close>

lemma memmove_u_at:
  assumes "dst \<le> src \<or> src + nat n \<le> dst"
  shows "memmove_u dst src n = memmove dst src (nat n)"
  using assms by (auto simp: memmove_u_def memmove_def fun_eq_iff)

text \<open>Where the destination starts inside the source, the user version repeats the first bytes.\<close>

lemma memmove_u_overlap:
  "memmove_u 1 0 3 (cstr [1, 2, 3, 4]) 3 = 1" "memmove 1 0 3 (cstr [1, 2, 3, 4]) 3 = 3"
  by (simp_all add: memmove_u_def memmove_def cstr_def numeral_3_eq_3)

lemma strcpy_cstr:
  assumes "\<forall>x\<in>set l. x \<noteq> 0"
  shows "\<exists>r. strcpy s (cstr l) = Some r \<and> (\<forall>i\<le>length l. r i = cstr l i) \<and> (\<forall>i>length l. r i = s i)"
proof -
  have "\<exists>r. strcpy_from s (cstr l) i = Some r \<and> (\<forall>k. r k = (if i \<le> k \<and> k \<le> length l then cstr l k else s k))"
    if "i \<le> length l" for i s
    using that
  proof (induction "length l - i" arbitrary: i s)
    case 0
    then show ?case by (subst strcpy_from.simps) (auto simp: cstr_def)
  next
    case (Suc n)
    then have "cstr l i \<noteq> 0" using assms by (simp add: cstr_def)
    moreover have "n = length l - (i + 1)" "i + 1 \<le> length l" using Suc(2,3) by auto
    from Suc(1) [OF this] obtain r where "strcpy_from (s(i := cstr l i)) (cstr l) (i + 1) = Some r"
        "\<forall>k. r k = (if i + 1 \<le> k \<and> k \<le> length l then cstr l k else (s(i := cstr l i)) k)"
      by blast
    ultimately show ?case using Suc(2) by (subst strcpy_from.simps) (auto simp: Let_def)
  qed
  from this [of 0 s] show ?thesis by (auto simp: strcpy_def)
qed

end
