(* ===== verification/Shell.thy ===== *)
theory Shell
  imports Ulib
begin

text \<open>
  The shell (\<open>sh.c\<close>). A pointer into the command line is the part of the line from there on, so the
  end of the line is the empty list. A token is a pair of such pointers, its start and its end.
  A syntax error is a message; \<open>parsecmd\<close> prints it and ends the process.
  The command structures come from \<open>malloc\<close>, whose failure the code does not check; the model has
  no such failure. The recursive descent is given a bound on its depth.
\<close>

section \<open>Commands\<close>

datatype 'a cmd =
    EXEC "'a list"
  | REDIR "'a cmd" 'a u32 int
  | PIPE "'a cmd" "'a cmd"
  | LIST "'a cmd" "'a cmd"
  | BACK "'a cmd"

type_synonym token = "string \<times> string"

definition MAXARGS :: nat where "MAXARGS = 10"

text \<open>The functions that build a command.\<close>

abbreviation execcmd :: "'a cmd" where "execcmd \<equiv> EXEC []"

abbreviation redircmd :: "'a cmd \<Rightarrow> 'a \<Rightarrow> u32 \<Rightarrow> int \<Rightarrow> 'a cmd" where
  "redircmd subcmd file mode fd \<equiv> REDIR subcmd file mode fd"

abbreviation pipecmd :: "'a cmd \<Rightarrow> 'a cmd \<Rightarrow> 'a cmd" where "pipecmd left right \<equiv> PIPE left right"

abbreviation listcmd :: "'a cmd \<Rightarrow> 'a cmd \<Rightarrow> 'a cmd" where "listcmd left right \<equiv> LIST left right"

abbreviation backcmd :: "'a cmd \<Rightarrow> 'a cmd" where "backcmd subcmd \<equiv> BACK subcmd"

section \<open>Tokens\<close>

definition whitespace :: string where
  "whitespace = [CHR '' '', CHR 0x09, CHR 0x0D, CHR 0x0A, CHR 0x0B]"

definition symbols :: string where "symbols = ''<|>&;()''"

definition skipws :: "string \<Rightarrow> string" where
  "skipws s = dropWhile (\<lambda>c. c \<in> set whitespace) s"

definition word_char :: "char \<Rightarrow> bool" where
  "word_char c \<longleftrightarrow> c \<notin> set whitespace \<and> c \<notin> set symbols"

text \<open>The kind of the token at \<open>q\<close> and its end.\<close>

definition token_at :: "string \<Rightarrow> char \<times> string" where
  "token_at q =
     (case q of
        [] \<Rightarrow> (CHR 0x00, [])
      | c # r \<Rightarrow>
          if c \<in> set ''|();&<'' then (c, r)
          else if c = CHR ''>'' then
            (if r \<noteq> [] \<and> hd r = CHR ''>'' then (CHR ''+'', tl r) else (c, r))
          else (CHR ''a'', dropWhile word_char q))"

text \<open>The kind of the next token, its start, its end, and the start of the one after it.\<close>

definition gettoken :: "string \<Rightarrow> char \<times> string \<times> string \<times> string" where
  "gettoken s =
     (let q = skipws s; (tok, eq) = token_at q in (tok, q, eq, skipws eq))"

definition skip_token :: "string \<Rightarrow> string" where
  "skip_token s = (case gettoken s of (_, _, _, s) \<Rightarrow> s)"

definition peek :: "string \<Rightarrow> string \<Rightarrow> bool" where
  "peek s toks = (case skipws s of [] \<Rightarrow> False | c # _ \<Rightarrow> c \<in> set toks)"

section \<open>The parser\<close>

datatype 'a pres = POk 'a string | PErr string | PFuel

fun pbind :: "'a pres \<Rightarrow> ('a \<Rightarrow> string \<Rightarrow> 'b pres) \<Rightarrow> 'b pres" where
  "pbind (POk a s) f = f a s"
| "pbind (PErr m) f = PErr m"
| "pbind PFuel f = PFuel"

lemma skipws_le: "length (skipws s) \<le> length s"
  by (simp add: skipws_def length_dropWhile_le)

lemma skipws_first: "skipws s \<noteq> [] \<Longrightarrow> hd (skipws s) \<notin> set whitespace"
  unfolding skipws_def by (rule hd_dropWhile)

lemma token_at_less:
  assumes "q \<noteq> []" "hd q \<notin> set whitespace"
  shows "length (snd (token_at q)) < length q"
proof -
  obtain c r where q: "q = c # r" using assms(1) by (cases q) auto
  have "length (tl r) \<le> length r" "length (dropWhile word_char r) \<le> length r"
    by (simp_all add: length_dropWhile_le)
  moreover have "word_char c" if "c \<notin> set ''|();&<''" "c \<noteq> CHR ''>''"
    using that assms(2) q by (auto simp: word_char_def symbols_def)
  ultimately show ?thesis by (auto simp: token_at_def q less_Suc_eq_le)
qed

lemma skip_token_eq: "skip_token s = skipws (snd (token_at (skipws s)))"
  by (simp add: skip_token_def gettoken_def split_def Let_def)

lemma skip_token_less: "skipws s \<noteq> [] \<Longrightarrow> length (skip_token s) < length s"
  using token_at_less [OF _ skipws_first, of s] skipws_le [of s] skipws_le [of "snd (token_at (skipws s))"]
  by (simp add: skip_token_eq)

lemma peek_less: "peek s toks \<Longrightarrow> length (skip_token s) < length s"
  by (rule skip_token_less) (auto simp: peek_def)

lemma skip_token_le: "length (skip_token s) \<le> length s"
proof (cases "skipws s = []")
  case True
  then have "skip_token s = skipws []" by (simp add: skip_token_eq token_at_def)
  then show ?thesis by (simp add: skipws_def)
next
  case False
  then show ?thesis using skip_token_less [of s] by simp
qed

lemma gettoken_rest: "(tok, q, eq, s') = gettoken s \<Longrightarrow> s' = skip_token s"
  by (metis case_prod_conv skip_token_def)

text \<open>
  The redirections at \<open>s\<close>, as they are wrapped around a command; and the arguments of a command
  with the redirections between them.
\<close>

function parseredirs :: "token cmd \<Rightarrow> string \<Rightarrow> token cmd pres" where
  "parseredirs c s =
     (if peek s ''<>'' then
        (case gettoken s of (tok, _, _, s1) \<Rightarrow>
         case gettoken s1 of (kind, q, eq, s2) \<Rightarrow>
           if kind \<noteq> CHR ''a'' then PErr ''missing file for redirection''
           else parseredirs
             (if tok = CHR ''<'' then redircmd c (q, eq) 0 0
              else redircmd c (q, eq) (O_WRONLY OR O_CREATE) 1) s2)
      else POk c (skipws s))"
  by auto
termination
  by (relation "measure (\<lambda>(c, s). length s)")
    (use skip_token_le in \<open>fastforce dest!: gettoken_rest peek_less intro: le_less_trans\<close>)+

declare parseredirs.simps [simp del]

lemma parseredirs_le: "parseredirs c s = POk r s' \<Longrightarrow> length s' \<le> length s"
proof (induction c s rule: parseredirs.induct)
  case (1 c s)
  show ?case
  proof (cases "peek s ''<>''")
    case True
    obtain tok x y s1 where g1: "gettoken s = (tok, x, y, s1)" by (cases "gettoken s")
    obtain kind q eq s2 where g2: "gettoken s1 = (kind, q, eq, s2)" by (cases "gettoken s1")
    have "length s1 \<le> length s" "length s2 \<le> length s1"
      using gettoken_rest [OF g1 [symmetric]] gettoken_rest [OF g2 [symmetric]] skip_token_le by auto
    moreover have "length s' \<le> length s2"
      using 1(1) [OF True g1 [symmetric] refl refl g2 [symmetric] refl refl] 1(2) True g1 g2
      by (simp add: parseredirs.simps [of c s] split: if_splits)
    ultimately show ?thesis by simp
  next
    case False
    with 1(2) skipws_le [of s] show ?thesis by (auto simp: parseredirs.simps [of c s])
  qed
qed

text \<open>Store an argument in the command that the redirections are wrapped around.\<close>

fun add_arg :: "token \<Rightarrow> token cmd \<Rightarrow> token cmd" where
  "add_arg t (EXEC argv) = EXEC (argv @ [t])"
| "add_arg t (REDIR c f mode fd) = REDIR (add_arg t c) f mode fd"
| "add_arg t c = c"

function parse_args :: "nat \<Rightarrow> token cmd \<Rightarrow> string \<Rightarrow> token cmd pres" where
  "parse_args argc rt s =
     (if peek s ''|)&;'' then POk rt (skipws s)
      else
        case gettoken s of (tok, q, eq, s1) \<Rightarrow>
          if tok = CHR 0x00 then POk rt s1
          else if tok \<noteq> CHR ''a'' then PErr ''syntax''
          else if argc + 1 \<ge> MAXARGS then PErr ''too many args''
          else
            (case parseredirs (add_arg (q, eq) rt) s1 of
               POk rt s2 \<Rightarrow> parse_args (argc + 1) rt s2
             | PErr m \<Rightarrow> PErr m
             | PFuel \<Rightarrow> PFuel))"
  by auto
termination
proof (relation "measure (\<lambda>(argc, rt, s). length s)", goal_cases)
  case (2 argc rt s tok y q z eq s1 r s2)
  then have "(tok, q, eq, s1) = gettoken s" "tok = CHR ''a''" by simp_all
  moreover from this have "skipws s \<noteq> []" by (auto simp: gettoken_def token_at_def)
  ultimately have "length s1 < length s" using gettoken_rest skip_token_less by metis
  with 2 parseredirs_le show ?case by fastforce
qed simp

declare parse_args.simps [simp del]

function back_loop :: "token cmd \<Rightarrow> string \<Rightarrow> token cmd \<times> string" where
  "back_loop c s = (if peek s ''&'' then back_loop (backcmd c) (skip_token s) else (c, skipws s))"
  by auto
termination
  by (relation "measure (\<lambda>(c, s). length s)") (auto dest: peek_less)

declare back_loop.simps [simp del]

fun parseline :: "nat \<Rightarrow> string \<Rightarrow> token cmd pres"
  and parsepipe :: "nat \<Rightarrow> string \<Rightarrow> token cmd pres"
  and parseexec :: "nat \<Rightarrow> string \<Rightarrow> token cmd pres"
  and parseblock :: "nat \<Rightarrow> string \<Rightarrow> token cmd pres" where
  "parseline 0 s = PFuel"
| "parseline (Suc n) s =
     pbind (parsepipe n s) (\<lambda>c s.
     case back_loop c s of (c, s) \<Rightarrow>
       if peek s '';'' then pbind (parseline n (skip_token s)) (\<lambda>r s. POk (listcmd c r) s)
       else POk c (skipws s))"
| "parsepipe 0 s = PFuel"
| "parsepipe (Suc n) s =
     pbind (parseexec n s) (\<lambda>c s.
     if peek s ''|'' then pbind (parsepipe n (skip_token s)) (\<lambda>r s. POk (pipecmd c r) s)
     else POk c (skipws s))"
| "parseexec 0 s = PFuel"
| "parseexec (Suc n) s =
     (if peek s ''('' then parseblock n (skipws s)
      else pbind (parseredirs execcmd s) (parse_args 0))"
| "parseblock 0 s = PFuel"
| "parseblock (Suc n) s =
     (if \<not> peek s ''('' then PErr ''parseblock''
      else
        pbind (parseline n (skip_token s)) (\<lambda>c s.
        if \<not> peek s '')'' then PErr ''syntax - missing )''
        else parseredirs c (skip_token s)))"

definition depth :: "string \<Rightarrow> nat" where "depth s = 4 * length s + 4"

text \<open>The whole line; \<open>Inl\<close> is a syntax error with the text left over, if it is printed.\<close>

definition parse_line :: "string \<Rightarrow> (string option \<times> string) + token cmd" where
  "parse_line s =
     (case parseline (depth s) s of
        POk c s \<Rightarrow> if skipws s \<noteq> [] then Inl (Some (skipws s), ''syntax'') else Inr c
      | PErr m \<Rightarrow> Inl (None, m)
      | PFuel \<Rightarrow> Inl (None, ''''))"

section \<open>Terminating the strings\<close>

text \<open>The line of length \<open>n\<close> is overwritten with zeros at the ends of the tokens.\<close>

definition put_nul :: "nat \<Rightarrow> token \<Rightarrow> string \<Rightarrow> string" where
  "put_nul n t buf = buf[n - length (snd t) := CHR 0x00]"

fun nulterminate :: "nat \<Rightarrow> token cmd \<Rightarrow> string \<Rightarrow> string" where
  "nulterminate n (EXEC argv) buf = fold (put_nul n) argv buf"
| "nulterminate n (REDIR c f mode fd) buf = put_nul n f (nulterminate n c buf)"
| "nulterminate n (PIPE l r) buf = nulterminate n r (nulterminate n l buf)"
| "nulterminate n (LIST l r) buf = nulterminate n r (nulterminate n l buf)"
| "nulterminate n (BACK c) buf = nulterminate n c buf"

text \<open>The string a token's start now points to.\<close>

definition str_at :: "nat \<Rightarrow> string \<Rightarrow> token \<Rightarrow> string" where
  "str_at n buf t = takeWhile (\<lambda>c. c \<noteq> CHR 0x00) (drop (n - length (fst t)) buf)"

definition strings_of :: "string \<Rightarrow> token cmd \<Rightarrow> string cmd" where
  "strings_of s c = map_cmd (str_at (length s) (nulterminate (length s) c s)) c"

section \<open>Running commands\<close>

definition panic_u :: "os \<Rightarrow> string \<Rightarrow> 'a uprog" where
  "panic_u os s = ubind (printf os 2 ''%s\<newline>'' [PStr (Some s)]) (\<lambda>_. exit_u os)"

definition fork1 :: "os \<Rightarrow> int uprog" where
  "fork1 os = ubind (call_int os SYS_fork) (\<lambda>pid. if pid = - 1 then panic_u os ''fork'' else ret pid)"

definition parsecmd :: "os \<Rightarrow> string \<Rightarrow> string cmd uprog" where
  "parsecmd os s =
     (case parse_line s of
        Inr c \<Rightarrow> ret (strings_of s c)
      | Inl (None, m) \<Rightarrow> panic_u os m
      | Inl (Some r, m) \<Rightarrow>
          ubind (printf os 2 ''leftovers: %s\<newline>'' [PStr (Some r)]) (\<lambda>_. panic_u os m))"

definition do_call :: "os \<Rightarrow> sysreq \<Rightarrow> unit uprog" where
  "do_call os c = ubind (call os c) (\<lambda>_. ret ())"

text \<open>The calls of one end of a pipe before its command runs.\<close>

definition pipe_end :: "os \<Rightarrow> int \<Rightarrow> int \<Rightarrow> int \<Rightarrow> int \<Rightarrow> unit uprog" where
  "pipe_end os fd p p0 p1 =
     ubind (do_call os (SYS_close fd)) (\<lambda>_.
     ubind (do_call os (SYS_dup p)) (\<lambda>_.
     ubind (do_call os (SYS_close p0)) (\<lambda>_. do_call os (SYS_close p1))))"

fun runcmd :: "os \<Rightarrow> string cmd \<Rightarrow> unit uprog" where
  "runcmd os (EXEC argv) =
     (case argv of
        [] \<Rightarrow> exit_u os
      | a # _ \<Rightarrow>
          ubind (exec_u os a argv) (\<lambda>_.
          ubind (printf os 2 ''exec %s failed\<newline>'' [PStr (Some a)]) (\<lambda>_. exit_u os)))"
| "runcmd os (REDIR c f mode fd) =
     ubind (do_call os (SYS_close fd)) (\<lambda>_.
     ubind (call_int os (SYS_open f mode)) (\<lambda>r.
     if r < 0 then ubind (printf os 2 ''open %s failed\<newline>'' [PStr (Some f)]) (\<lambda>_. exit_u os)
     else ubind (runcmd os c) (\<lambda>_. exit_u os)))"
| "runcmd os (LIST l r) =
     ubind (fork1 os) (\<lambda>pid.
     ubind (if pid = 0 then runcmd os l else ret ()) (\<lambda>_.
     ubind (do_call os SYS_wait) (\<lambda>_.
     ubind (runcmd os r) (\<lambda>_. exit_u os))))"
| "runcmd os (PIPE l r) =
     ubind (pipe_u os) (\<lambda>(st, p0, p1).
     if st < 0 then panic_u os ''pipe''
     else
       ubind (fork1 os) (\<lambda>pid.
       ubind (if pid = 0 then ubind (pipe_end os 1 p1 p0 p1) (\<lambda>_. runcmd os l) else ret ()) (\<lambda>_.
       ubind (fork1 os) (\<lambda>pid.
       ubind (if pid = 0 then ubind (pipe_end os 0 p0 p0 p1) (\<lambda>_. runcmd os r) else ret ()) (\<lambda>_.
       ubind (do_call os (SYS_close p0)) (\<lambda>_.
       ubind (do_call os (SYS_close p1)) (\<lambda>_.
       ubind (do_call os SYS_wait) (\<lambda>_.
       ubind (do_call os SYS_wait) (\<lambda>_. exit_u os)))))))))"
| "runcmd os (BACK c) =
     ubind (fork1 os) (\<lambda>pid.
     ubind (if pid = 0 then runcmd os c else ret ()) (\<lambda>_. exit_u os))"

definition getcmd :: "os \<Rightarrow> nat \<Rightarrow> (int \<times> string) uprog" where
  "getcmd os nbuf =
     ubind (printf os 2 ''$ '' []) (\<lambda>_.
     ubind (gets os nbuf) (\<lambda>buf.
     let s = takeWhile (\<lambda>c. c \<noteq> CHR 0x00) buf
     in ret (if s = [] then - 1 else 0, s)))"

partial_function (option) open_console :: "os \<Rightarrow> hist \<Rightarrow> unit uout option" where
  "open_console os h =
     ubind (call_int os (SYS_open ''console'' O_RDWR)) (\<lambda>fd.
     if fd \<ge> 0 then if fd \<ge> 3 then do_call os (SYS_close fd) else open_console os
     else ret ()) h"

partial_function (option) sh_loop :: "os \<Rightarrow> hist \<Rightarrow> unit uout option" where
  "sh_loop os h =
     ubind (getcmd os 100) (\<lambda>r.
     if fst r < 0 then exit_u os
     else if take 3 (snd r) = ''cd '' then
       ubind (call_int os (SYS_chdir (drop 3 (butlast (snd r))))) (\<lambda>st.
       ubind (if st < 0 then printf os 2 ''cannot cd %s\<newline>'' [PStr (Some (drop 3 (butlast (snd r))))]
              else ret ()) (\<lambda>_. sh_loop os))
     else
       ubind (fork1 os) (\<lambda>pid.
       ubind (if pid = 0 then ubind (parsecmd os (snd r)) (runcmd os) else ret ()) (\<lambda>_.
       ubind (do_call os SYS_wait) (\<lambda>_. sh_loop os)))) h"

definition main_sh :: "os \<Rightarrow> unit uprog" where
  "main_sh os = ubind (open_console os) (\<lambda>_. sh_loop os)"

end
