(* ===== verification/Shell_Spec.thy ===== *)
theory Shell_Spec
  imports Shell
begin

text \<open>
  The shell's parser and interpreter. The parser always has enough depth; it reads back every
  command from its printed form, redirections, parentheses and all, after the strings have been
  terminated in place; and running a command never returns.
\<close>

section \<open>Printed commands\<close>

fun cmd_level :: "'a cmd \<Rightarrow> nat" where
  "cmd_level (EXEC _) = 0"
| "cmd_level (REDIR _ _ _ _) = 0"
| "cmd_level (PIPE _ _) = 1"
| "cmd_level (BACK _) = 2"
| "cmd_level (LIST _ _) = 3"

definition paren :: "bool \<Rightarrow> string \<Rightarrow> string" where
  "paren b s = (if b then ''('' @ s @ '')'' else s)"

definition words :: "string list \<Rightarrow> string" where
  "words ws = concat (map (\<lambda>w. w @ '' '') ws)"

definition redir_op :: "int \<Rightarrow> string" where "redir_op fd = (if fd = 0 then ''<'' else ''>'')"

fun show_cmd :: "string cmd \<Rightarrow> string" where
  "show_cmd (EXEC argv) = words argv"
| "show_cmd (REDIR c f mode fd) = paren (cmd_level c > 0) (show_cmd c) @ redir_op fd @ f @ '' ''"
| "show_cmd (PIPE l r) =
     paren (cmd_level l > 0) (show_cmd l) @ ''|'' @ paren (cmd_level r > 1) (show_cmd r)"
| "show_cmd (LIST l r) = paren (cmd_level l > 2) (show_cmd l) @ '';'' @ show_cmd r"
| "show_cmd (BACK c) = paren (cmd_level c > 2) (show_cmd c) @ ''&''"

definition word :: "string \<Rightarrow> bool" where
  "word w \<longleftrightarrow> w \<noteq> [] \<and> list_all word_char w \<and> CHR 0x00 \<notin> set w"

definition redir_ok :: "u32 \<Rightarrow> int \<Rightarrow> bool" where
  "redir_ok mode fd \<longleftrightarrow> mode = 0 \<and> fd = 0 \<or> mode = O_WRONLY OR O_CREATE \<and> fd = 1"

fun wf_cmd :: "string cmd \<Rightarrow> bool" where
  "wf_cmd (EXEC argv) \<longleftrightarrow> length argv < MAXARGS \<and> list_all word argv"
| "wf_cmd (REDIR c f mode fd) \<longleftrightarrow> wf_cmd c \<and> word f \<and> redir_ok mode fd"
| "wf_cmd (PIPE l r) \<longleftrightarrow> wf_cmd l \<and> wf_cmd r"
| "wf_cmd (LIST l r) \<longleftrightarrow> wf_cmd l \<and> wf_cmd r"
| "wf_cmd (BACK c) \<longleftrightarrow> wf_cmd c"

section \<open>Reading tokens\<close>

definition follow :: "string \<Rightarrow> string \<Rightarrow> bool" where
  "follow F rest \<longleftrightarrow> rest = [] \<or> hd rest \<in> set F"

lemma not_ws: "c \<in> set symbols \<Longrightarrow> c \<notin> set whitespace"
  by (auto simp: symbols_def whitespace_def)

lemma word_not_ws: "word_char c \<Longrightarrow> c \<notin> set whitespace"
  by (simp add: word_char_def)

lemma skipws_simps [simp]:
  "skipws [] = []" "c \<notin> set whitespace \<Longrightarrow> skipws (c # s) = c # s" "skipws (CHR '' '' # s) = skipws s"
  by (simp_all add: skipws_def whitespace_def)

lemma skipws_idem [simp]: "skipws (skipws s) = skipws s"
  by (simp add: skipws_def)

lemma skipws_word: "word w \<Longrightarrow> skipws (w @ s) = w @ s"
  by (cases w) (auto simp: word_def word_not_ws)

lemma skipws_follow: "follow F rest \<Longrightarrow> set F \<subseteq> set symbols \<Longrightarrow> skipws rest = rest"
  by (cases rest) (auto simp: follow_def not_ws)

lemma peek_skipws [simp]: "peek (skipws s) toks = peek s toks"
  by (simp add: peek_def)

lemma peek_symbol: "c \<notin> set whitespace \<Longrightarrow> peek (c # s) toks \<longleftrightarrow> c \<in> set toks"
  by (simp add: peek_def)

lemma peek_word: "word w \<Longrightarrow> set toks \<subseteq> set symbols \<Longrightarrow> \<not> peek (w @ s) toks"
  by (cases w) (auto simp: word_def peek_symbol word_char_def)

lemma peek_follow:
  "follow F rest \<Longrightarrow> set F \<subseteq> set symbols \<Longrightarrow> set toks \<inter> set F = {} \<Longrightarrow> \<not> peek rest toks"
  using skipws_follow [of F rest] by (cases rest) (auto simp: follow_def peek_def)

lemma skip_symbol:
  "c \<in> set ''|();&<'' \<Longrightarrow> skip_token (c # s) = skipws s"
  using not_ws [of c] by (auto simp: skip_token_eq token_at_def symbols_def)

lemma gettoken_word:
  assumes "word w"
  shows "gettoken (w @ '' '' @ r) = (CHR ''a'', w @ '' '' @ r, '' '' @ r, skipws r)"
proof -
  obtain c w' where w: "w = c # w'" and c: "word_char c" and all: "\<forall>x\<in>set w'. word_char x"
    using assms by (cases w) (auto simp: word_def list_all_iff)
  have "\<not> word_char CHR '' ''" by (simp add: word_char_def whitespace_def)
  then have "dropWhile word_char (w @ '' '' @ r) = '' '' @ r"
    using c all by (simp add: w dropWhile_append)
  moreover have "c \<notin> set ''|();&<''" "c \<noteq> CHR ''>''" using c by (auto simp: word_char_def symbols_def)
  ultimately have "token_at (w @ '' '' @ r) = (CHR ''a'', '' '' @ r)" by (auto simp: token_at_def w)
  then show ?thesis using skipws_word [OF assms, of "'' '' @ r"] by (simp add: gettoken_def)
qed

lemma gettoken_redir:
  assumes "word w"
  shows "gettoken (redir_op fd @ w @ r) =
     (if fd = 0 then CHR ''<'' else CHR ''>'', redir_op fd @ w @ r, w @ r, w @ r)"
proof -
  obtain c w' where w: "w = c # w'" "c \<noteq> CHR ''>''"
    using assms by (cases w) (auto simp: word_def word_char_def symbols_def)
  have "CHR ''<'' \<notin> set whitespace" "CHR ''>'' \<notin> set whitespace" by (simp_all add: whitespace_def)
  then show ?thesis
    using w(2) skipws_word [OF assms, of r]
    by (simp add: gettoken_def redir_op_def token_at_def w(1))
qed

section \<open>Simple commands\<close>

definition text_of :: "token \<Rightarrow> string" where
  "text_of t = take (length (fst t) - length (snd t)) (fst t)"

abbreviation texts :: "token cmd \<Rightarrow> string cmd" where "texts \<equiv> map_cmd text_of"

lemma text_of_word [simp]: "text_of (w @ r, r) = w"
  by (simp add: text_of_def)

type_synonym redir = "string \<times> u32 \<times> int"

definition redir_text :: "redir list \<Rightarrow> string" where
  "redir_text rs = concat (map (\<lambda>(f, mode, fd). redir_op fd @ f @ '' '') rs)"

definition wrap :: "redir list \<Rightarrow> string cmd \<Rightarrow> string cmd" where
  "wrap rs c = fold (\<lambda>(f, mode, fd) c. REDIR c f mode fd) rs c"

definition redirs_ok :: "redir list \<Rightarrow> bool" where
  "redirs_ok rs \<longleftrightarrow> list_all (\<lambda>(f, mode, fd). word f \<and> redir_ok mode fd) rs"

definition reads_as :: "token cmd pres \<Rightarrow> string cmd \<Rightarrow> string \<Rightarrow> bool" where
  "reads_as p c rest \<longleftrightarrow> (\<exists>tc. p = POk tc rest \<and> texts tc = c)"

lemma redir_text_follow:
  "follow F rest \<Longrightarrow> set F \<subseteq> set symbols \<Longrightarrow> skipws (redir_text rs @ rest) = redir_text rs @ rest"
  using skipws_follow [of F rest]
  by (cases rs) (auto simp: redir_text_def redir_op_def whitespace_def)

lemma parseredirs_text:
  assumes "redirs_ok rs" "follow ''|&;)'' rest"
  shows "reads_as (parseredirs tc (redir_text rs @ rest)) (wrap rs (texts tc)) rest"
  using assms(1)
proof (induction rs arbitrary: tc)
  case Nil
  then show ?case
    using peek_follow [OF assms(2), of "''<>''"] skipws_follow [OF assms(2)]
    by (simp add: parseredirs.simps [of tc rest] redir_text_def wrap_def reads_as_def symbols_def)
next
  case (Cons r rs)
  obtain f mode fd where r: "r = (f, mode, fd)" by (cases r)
  let ?s = "redir_text rs @ rest"
  from Cons.prems r have f: "word f" and ok: "redir_ok mode fd" and rs: "redirs_ok rs"
    by (auto simp: redirs_ok_def)
  have s: "redir_text (r # rs) @ rest = redir_op fd @ f @ '' '' @ ?s" by (simp add: redir_text_def r)
  have "peek (redir_op fd @ f @ '' '' @ ?s) ''<>''" by (simp add: redir_op_def peek_def whitespace_def)
  moreover have "skipws ?s = ?s" by (rule redir_text_follow [OF assms(2)]) (simp add: symbols_def)
  ultimately have "parseredirs tc (redir_text (r # rs) @ rest) =
      parseredirs (REDIR tc (f @ '' '' @ ?s, '' '' @ ?s) mode fd) ?s"
    using ok gettoken_redir [OF f, of fd "'' '' @ ?s"] gettoken_word [OF f, of ?s]
    unfolding s by (subst parseredirs.simps) (auto simp: redir_ok_def)
  then show ?case
    using Cons.IH [OF rs, of "REDIR tc (f @ '' '' @ ?s, '' '' @ ?s) mode fd"]
    by (simp add: wrap_def r text_of_def)
qed

lemma parse_args_stop:
  assumes "follow ''|&;)'' rest"
  shows "parse_args argc tc rest = POk tc rest"
proof (cases rest)
  case Nil
  then show ?thesis
    by (subst parse_args.simps) (simp add: peek_def gettoken_def token_at_def)
next
  case (Cons c r)
  then have "peek rest ''|)&;''" "skipws rest = rest"
    using assms skipws_follow [OF assms] by (auto simp: follow_def peek_def symbols_def)
  then show ?thesis by (subst parse_args.simps) simp
qed

lemma parse_args_text:
  assumes "redirs_ok rs" "follow ''|&;)'' rest"
  shows "ws \<noteq> [] \<Longrightarrow> list_all word ws \<Longrightarrow> argc + length ws < MAXARGS \<Longrightarrow>
    reads_as (parse_args argc (EXEC ts) (words ws @ redir_text rs @ rest)) (wrap rs (EXEC (map text_of ts @ ws))) rest"
proof (induction ws arbitrary: argc ts)
  case (Cons w ws)
  let ?s = "words ws @ redir_text rs @ rest"
  let ?t = "(w @ '' '' @ ?s, '' '' @ ?s)"
  have w: "word w" using Cons.prems by simp
  have s: "words (w # ws) @ redir_text rs @ rest = w @ '' '' @ ?s" by (simp add: words_def)
  have sk: "skipws ?s = ?s"
  proof (cases ws)
    case Nil
    then show ?thesis using redir_text_follow [OF assms(2)] by (simp add: words_def symbols_def)
  next
    case (Cons v vs)
    with Cons.prems skipws_word [of v] show ?thesis by (simp add: words_def)
  qed
  have "\<not> peek (w @ '' '' @ ?s) ''|)&;''" by (rule peek_word [OF w]) (simp add: symbols_def)
  then have step: "parse_args argc (EXEC ts) (w @ '' '' @ ?s) =
      (case parseredirs (EXEC (ts @ [?t])) ?s of
         POk rt s2 \<Rightarrow> parse_args (argc + 1) rt s2 | PErr m \<Rightarrow> PErr m | PFuel \<Rightarrow> PFuel)"
    using Cons.prems gettoken_word [OF w, of ?s] sk by (subst parse_args.simps) simp
  show ?case
  proof (cases ws)
    case Nil
    then obtain tc where "parseredirs (EXEC (ts @ [?t])) ?s = POk tc rest"
        "texts tc = wrap rs (EXEC (map text_of ts @ [w]))"
      using parseredirs_text [OF assms, of "EXEC (ts @ [?t])"] by (auto simp: reads_as_def words_def text_of_def)
    with Nil show ?thesis unfolding s step by (simp add: parse_args_stop [OF assms(2)] reads_as_def)
  next
    case (Cons v vs)
    then have "\<not> peek ?s ''<>''" using Cons.prems peek_word [of v "''<>''"] by (simp add: words_def symbols_def)
    then have "parseredirs (EXEC (ts @ [?t])) ?s = POk (EXEC (ts @ [?t])) ?s"
      using sk by (subst parseredirs.simps) simp
    with Cons.IH [of "argc + 1" "ts @ [?t]"] Cons Cons.prems show ?thesis
      unfolding s step by (simp add: text_of_def)
  qed
qed simp

section \<open>The levels of the grammar\<close>

definition ex_ok :: "string cmd \<Rightarrow> bool" where
  "ex_ok c \<longleftrightarrow> (\<forall>n rs rest. redirs_ok rs \<longrightarrow> follow ''|&;)'' rest \<longrightarrow>
     4 * length (paren (cmd_level c > 0) (show_cmd c) @ redir_text rs @ rest) + 2 \<le> n \<longrightarrow>
     reads_as (parseexec n (paren (cmd_level c > 0) (show_cmd c) @ redir_text rs @ rest)) (wrap rs c) rest)"

definition pipe_ok :: "string cmd \<Rightarrow> bool" where
  "pipe_ok c \<longleftrightarrow> (\<forall>n rest. follow ''&;)'' rest \<longrightarrow>
     4 * length (paren (cmd_level c > 1) (show_cmd c) @ rest) + 3 \<le> n \<longrightarrow>
     reads_as (parsepipe n (paren (cmd_level c > 1) (show_cmd c) @ rest)) c rest)"

definition back_ok :: "string cmd \<Rightarrow> bool" where
  "back_ok c \<longleftrightarrow> (\<forall>n rest. follow ''&;)'' rest \<longrightarrow>
     4 * length (paren (cmd_level c > 2) (show_cmd c) @ rest) + 3 \<le> n \<longrightarrow>
     (\<exists>tc s tc'. parsepipe n (paren (cmd_level c > 2) (show_cmd c) @ rest) = POk tc s \<and>
        back_loop tc s = back_loop tc' rest \<and> texts tc' = c))"

definition line_ok :: "string cmd \<Rightarrow> bool" where
  "line_ok c \<longleftrightarrow> (\<forall>n rest. follow '')'' rest \<longrightarrow> 4 * length (show_cmd c @ rest) + 4 \<le> n \<longrightarrow>
     reads_as (parseline n (show_cmd c @ rest)) c rest)"

lemma follow_mono: "follow F rest \<Longrightarrow> set F \<subseteq> set G \<Longrightarrow> follow G rest"
  by (auto simp: follow_def)

lemma ex_ok_exec:
  assumes "wf_cmd (EXEC ws)"
  shows "ex_ok (EXEC ws)"
  unfolding ex_ok_def
proof (intro allI impI)
  fix n rs rest
  let ?s = "words ws @ redir_text rs @ rest"
  assume rs: "redirs_ok rs" and rest: "follow ''|&;)'' rest"
    and n: "4 * length (paren (cmd_level (EXEC ws) > 0) (show_cmd (EXEC ws)) @ redir_text rs @ rest) + 2 \<le> n"
  obtain m where m: "n = Suc m" using n by (cases n) auto
  have "reads_as (parseexec (Suc m) ?s) (wrap rs (EXEC ws)) rest"
  proof (cases ws)
    case Nil
    have "\<not> peek ?s ''(''"
      using peek_follow [OF rest, of "''(''"]
      by (cases rs) (auto simp: Nil words_def redir_text_def redir_op_def peek_def whitespace_def symbols_def split: if_splits)
    then show ?thesis
      using parseredirs_text [OF rs rest, of "EXEC []"]
      by (auto simp: reads_as_def Nil words_def parse_args_stop [OF rest])
  next
    case (Cons w ws')
    have np: "\<not> peek ?s toks" if "set toks \<subseteq> set symbols" for toks
      using peek_word [of w toks] that assms Cons by (simp add: words_def)
    have "skipws ?s = ?s" using skipws_word [of w] assms Cons by (simp add: words_def)
    then have "parseredirs (EXEC []) ?s = POk (EXEC []) ?s"
      using np [of "''<>''"] by (subst parseredirs.simps) (simp add: symbols_def)
    then show ?thesis
      using np [of "''(''"] parse_args_text [OF rs rest, of ws 0 "[]"] assms Cons by (simp add: symbols_def)
  qed
  then show "reads_as (parseexec n (paren (cmd_level (EXEC ws) > 0) (show_cmd (EXEC ws)) @ redir_text rs @ rest))
      (wrap rs (EXEC ws)) rest" by (simp add: m paren_def)
qed

lemma ex_ok_redir:
  assumes "ex_ok c" "wf_cmd (REDIR c f mode fd)"
  shows "ex_ok (REDIR c f mode fd)"
  unfolding ex_ok_def
proof (intro allI impI)
  fix n rs rest
  assume *: "redirs_ok rs" "follow ''|&;)'' rest"
    "4 * length (paren (cmd_level (REDIR c f mode fd) > 0) (show_cmd (REDIR c f mode fd)) @ redir_text rs @ rest) + 2 \<le> n"
  let ?rs = "(f, mode, fd) # rs"
  have t: "paren (cmd_level (REDIR c f mode fd) > 0) (show_cmd (REDIR c f mode fd)) @ redir_text rs @ rest =
      paren (cmd_level c > 0) (show_cmd c) @ redir_text ?rs @ rest"
    by (simp add: paren_def redir_text_def)
  have "redirs_ok ?rs" using * assms(2) by (simp add: redirs_ok_def)
  moreover have "wrap ?rs c = wrap rs (REDIR c f mode fd)" by (simp add: wrap_def)
  ultimately show "reads_as (parseexec n (paren (cmd_level (REDIR c f mode fd) > 0)
      (show_cmd (REDIR c f mode fd)) @ redir_text rs @ rest)) (wrap rs (REDIR c f mode fd)) rest"
    using assms(1) *(2,3) unfolding t ex_ok_def by metis
qed

lemma show_no_ws: "wf_cmd c \<Longrightarrow> skipws rest = rest \<Longrightarrow> skipws (show_cmd c @ rest) = show_cmd c @ rest"
proof (induction c arbitrary: rest)
  case (EXEC ws)
  then show ?case using skipws_word [of "hd ws"] by (cases ws) (auto simp: words_def)
next
  case (REDIR c f mode fd)
  have "skipws (redir_op fd @ f @ '' '' @ rest) = redir_op fd @ f @ '' '' @ rest"
    by (simp add: redir_op_def whitespace_def)
  with REDIR show ?case by (simp add: paren_def whitespace_def)
qed (simp_all add: paren_def whitespace_def)

lemma ex_ok_block:
  assumes "line_ok c" "cmd_level c > 0" "wf_cmd c"
  shows "ex_ok c"
  unfolding ex_ok_def
proof (intro allI impI)
  fix n rs rest
  let ?r = "redir_text rs @ rest"
  assume *: "redirs_ok rs" "follow ''|&;)'' rest"
    "4 * length (paren (cmd_level c > 0) (show_cmd c) @ ?r) + 2 \<le> n"
  obtain k where n: "n = Suc (Suc k)" using *(3) by (cases n; cases "n - 1") auto
  let ?s = "show_cmd c @ '')'' @ ?r"
  have s: "paren (cmd_level c > 0) (show_cmd c) @ ?r = CHR ''('' # ?s" using assms(2) by (simp add: paren_def)
  have ws: "CHR ''('' \<notin> set whitespace" "CHR '')'' \<notin> set whitespace" by (simp_all add: whitespace_def)
  have "skipws ?s = ?s" using show_no_ws [OF assms(3)] ws by simp
  then have sk: "skip_token (CHR ''('' # ?s) = ?s" using skip_symbol [of "CHR ''(''" ?s] by simp
  have "4 * length ?s + 4 \<le> k" using *(3) unfolding s n by simp
  moreover have "follow '')'' ('')'' @ ?r)" by (simp add: follow_def)
  ultimately obtain tc where tc: "parseline k ?s = POk tc ('')'' @ ?r)" "texts tc = c"
    using assms(1) unfolding line_ok_def reads_as_def by blast
  have "skipws ?r = ?r" by (rule redir_text_follow [OF *(2)]) (simp add: symbols_def)
  then have "skip_token ('')'' @ ?r) = ?r" using skip_symbol [of "CHR '')''" ?r] by simp
  with tc sk have "parseexec n (CHR ''('' # ?s) = parseredirs tc ?r"
    by (simp add: n peek_symbol ws)
  then show "reads_as (parseexec n (paren (cmd_level c > 0) (show_cmd c) @ ?r)) (wrap rs c) rest"
    unfolding s using parseredirs_text [OF *(1,2), of tc] tc(2) by simp
qed

lemma symbols_ws [simp]:
  "CHR ''|'' \<notin> set whitespace" "CHR ''&'' \<notin> set whitespace" "CHR '';'' \<notin> set whitespace"
  "CHR ''('' \<notin> set whitespace" "CHR '')'' \<notin> set whitespace"
  by (simp_all add: whitespace_def)

lemma follow_skipws: "follow ''|&;)'' rest \<Longrightarrow> skipws rest = rest"
  by (rule skipws_follow) (auto simp: symbols_def)

lemma follow_cases:
  "follow ''&;)'' rest \<Longrightarrow> follow ''|&;)'' rest \<and> \<not> peek rest ''|''"
  "follow '')'' rest \<Longrightarrow> follow ''&;)'' rest \<and> follow ''|&;)'' rest \<and> \<not> peek rest '';'' \<and> \<not> peek rest ''&''"
  by (cases rest; auto simp: follow_def peek_def)+

lemma paren_no_ws:
  "wf_cmd c \<Longrightarrow> skipws rest = rest \<Longrightarrow> skipws (paren b (show_cmd c) @ rest) = paren b (show_cmd c) @ rest"
  by (simp add: paren_def show_no_ws)

lemma pipe_ok_exec:
  assumes "ex_ok c" "cmd_level c \<noteq> 1"
  shows "pipe_ok c"
  unfolding pipe_ok_def
proof (intro allI impI)
  fix n rest
  let ?s = "paren (cmd_level c > 1) (show_cmd c) @ rest"
  assume f: "follow ''&;)'' rest" and n: "4 * length ?s + 3 \<le> n"
  obtain m where m: "n = Suc m" "4 * length ?s + 2 \<le> m" using n by (cases n) auto
  have p: "(cmd_level c > 1) = (cmd_level c > 0)" using assms(2) by auto
  obtain tc where "parseexec m ?s = POk tc rest" "texts tc = c"
    using assms(1) [unfolded ex_ok_def, rule_format, of "[]" rest m] follow_cases(1) [OF f] m(2)
    unfolding p by (auto simp: redirs_ok_def redir_text_def reads_as_def wrap_def)
  then show "reads_as (parsepipe n ?s) c rest"
    using follow_cases(1) [OF f] follow_skipws [of rest] by (simp add: m reads_as_def)
qed

lemma pipe_ok_pipe:
  assumes "ex_ok l" "pipe_ok r" "wf_cmd r"
  shows "pipe_ok (PIPE l r)"
  unfolding pipe_ok_def
proof (intro allI impI)
  fix n rest
  let ?t = "paren (cmd_level r > 1) (show_cmd r) @ rest"
  let ?a = "paren (cmd_level l > 0) (show_cmd l)"
  let ?s = "?a @ CHR ''|'' # ?t"
  assume f: "follow ''&;)'' rest"
    and n: "4 * length (paren (cmd_level (PIPE l r) > 1) (show_cmd (PIPE l r)) @ rest) + 3 \<le> n"
  obtain m where m: "n = Suc m" "4 * length ?s + 2 \<le> m" using n by (cases n) (auto simp: paren_def)
  obtain tc where tc: "parseexec m ?s = POk tc (CHR ''|'' # ?t)" "texts tc = l"
    using assms(1) [unfolded ex_ok_def, rule_format, of "[]" "CHR ''|'' # ?t" m] m(2)
    by (auto simp: redirs_ok_def redir_text_def reads_as_def wrap_def follow_def)
  have "skip_token (CHR ''|'' # ?t) = ?t"
    using skip_symbol [of "CHR ''|''" ?t] paren_no_ws [OF assms(3)] follow_skipws follow_cases(1) [OF f] by simp
  moreover obtain tr where "parsepipe m ?t = POk tr rest" "texts tr = r"
    using assms(2) [unfolded pipe_ok_def, rule_format, of rest m] f m(2) by (auto simp: reads_as_def)
  ultimately have "reads_as (parsepipe n ?s) (PIPE l r) rest"
    using tc by (simp add: m reads_as_def peek_symbol)
  then show "reads_as (parsepipe n (paren (cmd_level (PIPE l r) > 1) (show_cmd (PIPE l r)) @ rest)) (PIPE l r) rest"
    by (simp add: paren_def)
qed

lemma back_ok_pipe:
  assumes "pipe_ok c" "cmd_level c \<noteq> 2"
  shows "back_ok c"
proof -
  have "(cmd_level c > 2) = (cmd_level c > 1)" using assms(2) by auto
  then show ?thesis using assms(1) unfolding back_ok_def pipe_ok_def reads_as_def by metis
qed

lemma back_ok_back:
  assumes "back_ok c"
  shows "back_ok (BACK c)"
  unfolding back_ok_def
proof (intro allI impI)
  fix n rest
  let ?s = "paren (cmd_level c > 2) (show_cmd c) @ CHR ''&'' # rest"
  assume f: "follow ''&;)'' rest"
    and n: "4 * length (paren (cmd_level (BACK c) > 2) (show_cmd (BACK c)) @ rest) + 3 \<le> n"
  have s: "paren (cmd_level (BACK c) > 2) (show_cmd (BACK c)) @ rest = ?s" by (simp add: paren_def)
  obtain tc s tc' where "parsepipe n ?s = POk tc s" "back_loop tc s = back_loop tc' (CHR ''&'' # rest)" "texts tc' = c"
    using assms [unfolded back_ok_def, rule_format, of "CHR ''&'' # rest" n] n unfolding s by (auto simp: follow_def)
  moreover have "back_loop tc' (CHR ''&'' # rest) = back_loop (BACK tc') rest"
    using skip_symbol [of "CHR ''&''" rest] follow_skipws follow_cases(1) [OF f]
    by (subst back_loop.simps) (simp add: peek_symbol)
  ultimately show "\<exists>tc s tc'. parsepipe n (paren (cmd_level (BACK c) > 2) (show_cmd (BACK c)) @ rest) = POk tc s \<and>
      back_loop tc s = back_loop tc' rest \<and> texts tc' = BACK c"
    unfolding s by (intro exI [of _ tc] exI [of _ s] exI [of _ "BACK tc'"]) simp
qed

lemma line_ok_back:
  assumes "back_ok c" "cmd_level c \<noteq> 3"
  shows "line_ok c"
  unfolding line_ok_def
proof (intro allI impI)
  fix n rest
  assume f: "follow '')'' rest" and n: "4 * length (show_cmd c @ rest) + 4 \<le> n"
  obtain m where m: "n = Suc m" "4 * length (show_cmd c @ rest) + 3 \<le> m" using n by (cases n) auto
  have "paren (cmd_level c > 2) (show_cmd c) = show_cmd c"
    using assms(2) by (cases c) (simp_all add: paren_def)
  then obtain tc s tc' where "parsepipe m (show_cmd c @ rest) = POk tc s" "back_loop tc s = back_loop tc' rest" "texts tc' = c"
    using assms(1) [unfolded back_ok_def, rule_format, of rest m] m(2) follow_cases(2) [OF f] by auto
  then show "reads_as (parseline n (show_cmd c @ rest)) c rest"
    using follow_cases(2) [OF f] follow_skipws [of rest]
    by (simp add: m reads_as_def back_loop.simps [of tc' rest])
qed

lemma line_ok_list:
  assumes "back_ok l" "line_ok r" "wf_cmd r"
  shows "line_ok (LIST l r)"
  unfolding line_ok_def
proof (intro allI impI)
  fix n rest
  let ?t = "show_cmd r @ rest"
  let ?s = "paren (cmd_level l > 2) (show_cmd l) @ CHR '';'' # ?t"
  assume f: "follow '')'' rest" and n: "4 * length (show_cmd (LIST l r) @ rest) + 4 \<le> n"
  obtain m where m: "n = Suc m" "4 * length ?s + 3 \<le> m" using n by (cases n) auto
  obtain tc s tc' where "parsepipe m ?s = POk tc s" "back_loop tc s = back_loop tc' (CHR '';'' # ?t)" "texts tc' = l"
    using assms(1) [unfolded back_ok_def, rule_format, of "CHR '';'' # ?t" m] m(2) by (auto simp: follow_def)
  moreover have "back_loop tc' (CHR '';'' # ?t) = (tc', CHR '';'' # ?t)"
    by (subst back_loop.simps) (simp add: peek_symbol)
  moreover have "skip_token (CHR '';'' # ?t) = ?t"
    using skip_symbol [of "CHR '';''" ?t] show_no_ws [OF assms(3)] follow_skipws follow_cases(2) [OF f] by simp
  moreover obtain tr where "parseline m ?t = POk tr rest" "texts tr = r"
    using assms(2) [unfolded line_ok_def, rule_format, of rest m] f m(2) by (auto simp: reads_as_def)
  ultimately show "reads_as (parseline n (show_cmd (LIST l r) @ rest)) (LIST l r) rest"
    by (simp add: m reads_as_def peek_symbol)
qed

lemma all_ok: "wf_cmd c \<Longrightarrow> ex_ok c \<and> pipe_ok c \<and> back_ok c \<and> line_ok c"
proof (induction c)
  case (EXEC ws)
  then have "ex_ok (EXEC ws)" by (rule ex_ok_exec)
  then show ?case by (simp add: pipe_ok_exec back_ok_pipe line_ok_back)
next
  case (REDIR c f mode fd)
  then have "ex_ok (REDIR c f mode fd)" by (intro ex_ok_redir) auto
  then show ?case by (simp add: pipe_ok_exec back_ok_pipe line_ok_back)
next
  case (PIPE l r)
  then have "pipe_ok (PIPE l r)" by (intro pipe_ok_pipe) auto
  with PIPE.prems show ?case by (simp add: back_ok_pipe line_ok_back ex_ok_block)
next
  case (LIST l r)
  then have "line_ok (LIST l r)" by (intro line_ok_list) auto
  with LIST.prems show ?case by (simp add: ex_ok_block pipe_ok_exec back_ok_pipe)
next
  case (BACK c)
  then have "back_ok (BACK c)" by (intro back_ok_back) auto
  with BACK.prems show ?case by (simp add: line_ok_back ex_ok_block pipe_ok_exec)
qed

section \<open>The tokens of a parsed line\<close>

text \<open>A token of the line \<open>s\<close>: a longest word of it.\<close>

definition word_tok :: "string \<Rightarrow> token \<Rightarrow> bool" where
  "word_tok s t \<longleftrightarrow>
     (\<exists>pre w. s = pre @ w @ snd t \<and> fst t = w @ snd t \<and> list_all word_char w \<and>
        (snd t = [] \<or> \<not> word_char (hd (snd t))))"

definition is_tail :: "string \<Rightarrow> string \<Rightarrow> bool" where "is_tail s' s \<longleftrightarrow> (\<exists>pre. s = pre @ s')"

lemma tail_refl: "is_tail s s"
  by (simp add: is_tail_def)

lemma tail_trans: "is_tail a b \<Longrightarrow> is_tail b c \<Longrightarrow> is_tail a c"
  by (auto simp: is_tail_def)

lemma tail_dropWhile: "is_tail (dropWhile P s) s"
  unfolding is_tail_def by (rule exI [of _ "takeWhile P s"]) simp

lemma tail_skipws: "is_tail (skipws s) s"
  unfolding skipws_def by (rule tail_dropWhile)

lemma tail_Cons: "is_tail s (c # s)"
  by (simp add: is_tail_def)

lemma tail_tl: "is_tail (tl s) s"
  by (cases s) (simp_all add: is_tail_def)

lemma tail_token: "is_tail (snd (token_at q)) q"
proof (cases q)
  case (Cons c r)
  have d: "is_tail (dropWhile word_char q) q" by (rule tail_dropWhile)
  have "is_tail r (c # r)" "is_tail (tl r) (c # r)" by (rule tail_Cons, rule tail_trans [OF tail_tl tail_Cons])
  with d show ?thesis by (auto simp: token_at_def Cons simp del: dropWhile.simps)
qed (simp add: token_at_def tail_refl)

lemma tail_skip: "is_tail s s0 \<Longrightarrow> is_tail (skip_token s) s0"
  unfolding skip_token_eq
  by (rule tail_trans [OF tail_skipws tail_trans [OF tail_token tail_trans [OF tail_skipws]]])

lemma word_token:
  assumes "gettoken s = (CHR ''a'', q, eq, s')" "is_tail s s0"
  shows "word_tok s0 (q, eq)"
proof -
  have q: "q = skipws s" and eq: "token_at q = (CHR ''a'', eq)"
    using assms(1) by (auto simp: gettoken_def Let_def split: prod.splits)
  have e: "eq = dropWhile word_char q"
    using eq by (auto simp: token_at_def split: list.splits if_splits)
  obtain pre where "s0 = pre @ q" using assms(2) tail_trans [OF tail_skipws] by (auto simp: q is_tail_def)
  then have "s0 = pre @ takeWhile word_char q @ eq" "q = takeWhile word_char q @ eq" by (simp_all add: e)
  moreover have "list_all word_char (takeWhile word_char q)" by (auto simp: list_all_iff dest: set_takeWhileD)
  moreover have "eq = [] \<or> \<not> word_char (hd eq)" unfolding e using hd_dropWhile [of word_char q] by blast
  ultimately show ?thesis unfolding word_tok_def by fastforce
qed

definition good :: "string \<Rightarrow> token cmd pres \<Rightarrow> bool" where
  "good s0 p \<longleftrightarrow> (\<forall>c s. p = POk c s \<longrightarrow> is_tail s s0 \<and> (\<forall>t\<in>set_cmd c. word_tok s0 t))"

lemma good_bind:
  assumes "good s0 p" "\<And>c s. is_tail s s0 \<Longrightarrow> \<forall>t\<in>set_cmd c. word_tok s0 t \<Longrightarrow> good s0 (f c s)"
  shows "good s0 (pbind p f)"
proof (cases p)
  case (POk c s)
  with assms(1) have "is_tail s s0" "\<forall>t\<in>set_cmd c. word_tok s0 t" by (simp_all add: good_def)
  with assms(2) POk show ?thesis by simp
qed (simp_all add: good_def)

lemma good_redirs:
  "is_tail s s0 \<Longrightarrow> \<forall>t\<in>set_cmd c. word_tok s0 t \<Longrightarrow> good s0 (parseredirs c s)"
proof (induction c s rule: parseredirs.induct)
  case (1 c s)
  obtain tok x y s1 where g1: "gettoken s = (tok, x, y, s1)" by (cases "gettoken s")
  obtain kind q eq s2 where g2: "gettoken s1 = (kind, q, eq, s2)" by (cases "gettoken s1")
  have t: "is_tail s1 s0" "is_tail s2 s0"
    using tail_skip [OF "1.prems"(1)] tail_skip [OF tail_skip [OF "1.prems"(1)]]
      gettoken_rest [OF g1 [symmetric]] gettoken_rest [OF g2 [symmetric]] by simp_all
  show ?case
  proof (cases "peek s ''<>'' \<and> kind = CHR ''a''")
    case True
    then have "word_tok s0 (q, eq)" using word_token [OF _ t(1)] g2 by auto
    with "1.prems"(2) have w: "\<forall>t\<in>set_cmd (if tok = CHR ''<'' then REDIR c (q, eq) 0 0
        else REDIR c (q, eq) (O_WRONLY OR O_CREATE) 1). word_tok s0 t" by simp
    have "parseredirs c s = parseredirs (if tok = CHR ''<'' then REDIR c (q, eq) 0 0
        else REDIR c (q, eq) (O_WRONLY OR O_CREATE) 1) s2"
      using True g1 g2 by (subst parseredirs.simps) simp
    with "1.IH" [OF _ g1 [symmetric] refl refl g2 [symmetric] refl refl _ t(2) w] True show ?thesis by simp
  next
    case False
    with "1.prems" g1 g2 tail_trans [OF tail_skipws "1.prems"(1)] show ?thesis
      by (subst parseredirs.simps) (auto simp: good_def)
  qed
qed

lemma add_arg_tokens: "set_cmd (add_arg t c) \<subseteq> insert t (set_cmd c)"
  by (induction t c rule: add_arg.induct) auto

lemma good_args:
  "is_tail s s0 \<Longrightarrow> \<forall>t\<in>set_cmd c. word_tok s0 t \<Longrightarrow> good s0 (parse_args argc c s)"
proof (induction argc c s rule: parse_args.induct)
  case (1 argc c s)
  obtain tok q eq s1 where g: "gettoken s = (tok, q, eq, s1)" by (cases "gettoken s")
  have t: "is_tail s1 s0" using tail_skip [OF "1.prems"(1)] gettoken_rest [OF g [symmetric]] by simp
  show ?case
  proof (cases "\<not> peek s ''|)&;'' \<and> tok = CHR ''a'' \<and> argc + 1 < MAXARGS")
    case True
    then have "word_tok s0 (q, eq)" using word_token [OF _ "1.prems"(1)] g by auto
    then have "good s0 (parseredirs (add_arg (q, eq) c) s1)"
      using add_arg_tokens [of "(q, eq)" c] "1.prems"(2) by (intro good_redirs t) blast
    moreover have eqn: "parse_args argc c s = pbind (parseredirs (add_arg (q, eq) c) s1) (parse_args (argc + 1))"
      using True g by (subst parse_args.simps) (simp split: pres.split)
    ultimately show ?thesis
    proof (cases "parseredirs (add_arg (q, eq) c) s1")
      case (POk r s2)
      with \<open>good s0 (parseredirs (add_arg (q, eq) c) s1)\<close>
      have "is_tail s2 s0" "\<forall>t\<in>set_cmd r. word_tok s0 t" by (simp_all add: good_def)
      with "1.IH" [OF _ g [symmetric] refl refl _ _ _ POk] True eqn POk show ?thesis by simp
    qed (simp_all add: eqn good_def)
  next
    case False
    with "1.prems" g t tail_trans [OF tail_skipws "1.prems"(1)] show ?thesis
      by (subst parse_args.simps) (auto simp: good_def split: if_splits)
  qed
qed

lemma good_back:
  "is_tail s s0 \<Longrightarrow> \<forall>t\<in>set_cmd c. word_tok s0 t \<Longrightarrow>
   is_tail (snd (back_loop c s)) s0 \<and> (\<forall>t\<in>set_cmd (fst (back_loop c s)). word_tok s0 t)"
proof (induction c s rule: back_loop.induct)
  case (1 c s)
  show ?case
  proof (cases "peek s ''&''")
    case True
    then have "back_loop c s = back_loop (BACK c) (skip_token s)" by (subst back_loop.simps) simp
    with "1.IH" [OF True tail_skip [OF "1.prems"(1)]] "1.prems"(2) show ?thesis by simp
  next
    case False
    then have "back_loop c s = (c, skipws s)" by (subst back_loop.simps) simp
    with "1.prems" tail_trans [OF tail_skipws "1.prems"(1)] show ?thesis by simp
  qed
qed

lemma good_parse:
  "is_tail s s0 \<Longrightarrow> good s0 (parseline n s)"
  "is_tail s s0 \<Longrightarrow> good s0 (parsepipe n s)"
  "is_tail s s0 \<Longrightarrow> good s0 (parseexec n s)"
  "is_tail s s0 \<Longrightarrow> good s0 (parseblock n s)"
proof (induction n arbitrary: s)
  case 0
  {
    case 1 then show ?case by (simp add: good_def)
  next
    case 2 then show ?case by (simp add: good_def)
  next
    case 3 then show ?case by (simp add: good_def)
  next
    case 4 then show ?case by (simp add: good_def)
  }
next
  case (Suc n)
  {
    case 1
    have "good s0 (case back_loop c t of (c, s) \<Rightarrow>
        if peek s '';'' then pbind (parseline n (skip_token s)) (\<lambda>r s. POk (LIST c r) s)
        else POk c (skipws s))" if "is_tail t s0" "\<forall>t\<in>set_cmd c. word_tok s0 t" for c t
    proof -
      obtain b u where b: "back_loop c t = (b, u)" by (cases "back_loop c t")
      then have u: "is_tail u s0" "\<forall>t\<in>set_cmd b. word_tok s0 t" using good_back [OF that] by auto
      have "good s0 (pbind (parseline n (skip_token u)) (\<lambda>r s. POk (LIST b r) s))"
        by (rule good_bind [OF Suc(1) [OF tail_skip [OF u(1)]]]) (use u in \<open>auto simp: good_def\<close>)
      moreover have "good s0 (POk b (skipws u))"
        using u tail_trans [OF tail_skipws u(1)] by (simp add: good_def)
      ultimately show ?thesis by (simp add: b)
    qed
    then show ?case using good_bind [OF Suc(2) [OF 1]] by simp
  next
    case 2
    have "good s0 (if peek t ''|'' then pbind (parsepipe n (skip_token t)) (\<lambda>r s. POk (PIPE c r) s)
        else POk c (skipws t))" if u: "is_tail t s0" "\<forall>t\<in>set_cmd c. word_tok s0 t" for c t
    proof -
      have "good s0 (pbind (parsepipe n (skip_token t)) (\<lambda>r s. POk (PIPE c r) s))"
        by (rule good_bind [OF Suc(2) [OF tail_skip [OF u(1)]]]) (use u in \<open>auto simp: good_def\<close>)
      moreover have "good s0 (POk c (skipws t))"
        using u tail_trans [OF tail_skipws u(1)] by (simp add: good_def)
      ultimately show ?thesis by simp
    qed
    then show ?case using good_bind [OF Suc(3) [OF 2]] by simp
  next
    case 3
    have "good s0 (pbind (parseredirs (EXEC []) s) (parse_args 0))"
      by (rule good_bind [OF good_redirs [OF 3]]) (simp_all add: good_args)
    then show ?case using Suc(4) [OF tail_trans [OF tail_skipws 3]] by simp
  next
    case 4
    have "good s0 (pbind (parseline n (skip_token s)) (\<lambda>c s.
        if \<not> peek s '')'' then PErr ''syntax - missing )'' else parseredirs c (skip_token s)))"
      by (rule good_bind [OF Suc(1) [OF tail_skip [OF 4]]])
        (simp add: good_redirs tail_skip, simp add: good_def)
    then show ?case by (simp add: good_def)
  }
qed

section \<open>The depth is enough\<close>

lemma good_length: "good s (p :: token cmd pres) \<Longrightarrow> p = POk c s' \<Longrightarrow> length s' \<le> length s"
  by (auto simp: good_def is_tail_def)

lemma bind_fuel:
  "p \<noteq> PFuel \<Longrightarrow> (\<And>c s. p = POk c s \<Longrightarrow> f c s \<noteq> PFuel) \<Longrightarrow> pbind p f \<noteq> PFuel"
  by (cases p) auto

lemma bind_fuel_iff: "pbind p f = PFuel \<longleftrightarrow> p = PFuel \<or> (\<exists>c s. p = POk c s \<and> f c s = PFuel)"
  by (cases p) auto

lemma redirs_fuel: "parseredirs c s \<noteq> PFuel"
proof (induction c s rule: parseredirs.induct)
  case (1 c s)
  obtain tok x y s1 where g1: "gettoken s = (tok, x, y, s1)" by (cases "gettoken s")
  obtain kind q eq s2 where g2: "gettoken s1 = (kind, q, eq, s2)" by (cases "gettoken s1")
  show ?case
    using "1.IH" [OF _ g1 [symmetric] refl refl g2 [symmetric] refl refl] g1 g2
    by (subst parseredirs.simps) simp
qed

lemma args_fuel: "parse_args argc c s \<noteq> PFuel"
proof (induction argc c s rule: parse_args.induct)
  case (1 argc c s)
  obtain tok q eq s1 where g: "gettoken s = (tok, q, eq, s1)" by (cases "gettoken s")
  show ?case
    using "1.IH" [OF _ g [symmetric] refl refl] g redirs_fuel [of "add_arg (q, eq) c" s1]
    by (subst parse_args.simps) (auto split: pres.split)
qed

lemma back_length: "back_loop c s = (c', s') \<Longrightarrow> length s' \<le> length s"
proof (induction c s rule: back_loop.induct)
  case (1 c s)
  show ?case
  proof (cases "peek s ''&''")
    case True
    with 1 skip_token_le [of s] show ?thesis by (simp add: back_loop.simps [of c s])
  next
    case False
    with 1(2) skipws_le [of s] show ?thesis by (auto simp: back_loop.simps [of c s])
  qed
qed

lemma parse_fuel:
  "4 * length s + 4 \<le> n \<Longrightarrow> parseline n s \<noteq> PFuel"
  "4 * length s + 3 \<le> n \<Longrightarrow> parsepipe n s \<noteq> PFuel"
  "4 * length s + 2 \<le> n \<Longrightarrow> parseexec n s \<noteq> PFuel"
  "4 * length s + 1 \<le> n \<Longrightarrow> parseblock n s \<noteq> PFuel"
proof (induction n arbitrary: s)
  case (Suc n)
  {
    case 1
    show ?case unfolding parseline.simps
    proof (rule bind_fuel)
      show "parsepipe n s \<noteq> PFuel" using 1 by (intro Suc) simp
      fix c t
      assume "parsepipe n s = POk c t"
      then have t: "length t \<le> length s" by (rule good_length [OF good_parse(2) [OF tail_refl]])
      obtain b u where b: "back_loop c t = (b, u)" by (cases "back_loop c t")
      have "parseline n (skip_token u) \<noteq> PFuel" if "peek u '';''"
        using peek_less [OF that] back_length [OF b] t 1 by (intro Suc) simp
      then show "(case back_loop c t of (c, s) \<Rightarrow>
          if peek s '';'' then pbind (parseline n (skip_token s)) (\<lambda>r s. POk (LIST c r) s)
          else POk c (skipws s)) \<noteq> PFuel"
        by (auto simp: b bind_fuel_iff)
    qed
  next
    case 2
    show ?case unfolding parsepipe.simps
    proof (rule bind_fuel)
      show "parseexec n s \<noteq> PFuel" using 2 by (intro Suc) simp
      fix c t
      assume "parseexec n s = POk c t"
      then have t: "length t \<le> length s" by (rule good_length [OF good_parse(3) [OF tail_refl]])
      have "parsepipe n (skip_token t) \<noteq> PFuel" if "peek t ''|''"
        using peek_less [OF that] t 2 by (intro Suc) simp
      then show "(if peek t ''|'' then pbind (parsepipe n (skip_token t)) (\<lambda>r s. POk (PIPE c r) s)
          else POk c (skipws t)) \<noteq> PFuel"
        by (auto simp: bind_fuel_iff)
    qed
  next
    case 3
    have "parseblock n (skipws s) \<noteq> PFuel" using 3 skipws_le [of s] by (intro Suc) simp
    moreover have "pbind (parseredirs (EXEC []) s) (parse_args 0) \<noteq> PFuel"
      by (rule bind_fuel [OF redirs_fuel args_fuel])
    ultimately show ?case by simp
  next
    case 4
    have "parseline n (skip_token s) \<noteq> PFuel" if "peek s ''(''"
      using peek_less [OF that] 4 by (intro Suc) simp
    then show ?case by (auto simp: bind_fuel_iff redirs_fuel)
  }
qed simp_all

section \<open>Terminating the strings in place\<close>

definition ends :: "nat \<Rightarrow> token cmd \<Rightarrow> nat set" where
  "ends n c = (\<lambda>t. n - length (snd t)) ` set_cmd c"

lemma put_nul_nth:
  "length (put_nul n t buf) = length buf"
  "i < length buf \<Longrightarrow> put_nul n t buf ! i = (if i = n - length (snd t) then CHR 0x00 else buf ! i)"
  by (auto simp: put_nul_def nth_list_update)

lemma fold_put_nul:
  "length (fold (put_nul n) ts buf) = length buf \<and>
   (\<forall>i<length buf. fold (put_nul n) ts buf ! i =
      (if i \<in> (\<lambda>t. n - length (snd t)) ` set ts then CHR 0x00 else buf ! i))"
  by (induction ts arbitrary: buf) (auto simp: put_nul_nth)

lemma nulterminate_nth:
  "length (nulterminate n c buf) = length buf \<and>
   (\<forall>i<length buf. nulterminate n c buf ! i = (if i \<in> ends n c then CHR 0x00 else buf ! i))"
proof (induction c arbitrary: buf)
  case (EXEC ts)
  then show ?case using fold_put_nul [of n ts buf] by (simp add: ends_def)
qed (simp_all add: ends_def put_nul_nth image_Un)

lemma takeWhile_stop:
  "\<lbrakk>length w + p \<le> length b; \<forall>i<length w. b ! (p + i) = w ! i; CHR 0x00 \<notin> set w;
    p + length w = length b \<or> b ! (p + length w) = CHR 0x00\<rbrakk> \<Longrightarrow>
   takeWhile (\<lambda>c. c \<noteq> CHR 0x00) (drop p b) = w"
proof -
  assume a: "length w + p \<le> length b" "\<forall>i<length w. b ! (p + i) = w ! i" "CHR 0x00 \<notin> set w"
    "p + length w = length b \<or> b ! (p + length w) = CHR 0x00"
  have "drop p b = w @ drop (p + length w) b"
    using a(1,2) by (intro nth_equalityI) (auto simp: nth_append add.commute)
  moreover have "\<forall>c\<in>set w. c \<noteq> CHR 0x00" using a(3) by auto
  moreover have "drop (p + length w) b = [] \<or> hd (drop (p + length w) b) = CHR 0x00"
    using a(1,4) by (cases "p + length w < length b") (auto simp: hd_drop_conv_nth)
  ultimately show ?thesis
    by (cases "drop (p + length w) b") (auto simp: takeWhile_append2)
qed

lemma strings_of_tokens:
  assumes "\<forall>t\<in>set_cmd c. word_tok s t" "CHR 0x00 \<notin> set s"
  shows "strings_of s c = texts c"
  unfolding strings_of_def
proof (rule cmd.map_cong0)
  fix t
  assume t: "t \<in> set_cmd c"
  let ?b = "nulterminate (length s) c s"
  obtain pre w where w: "s = pre @ w @ snd t" "fst t = w @ snd t" "list_all word_char w"
    using assms(1) t unfolding word_tok_def by blast
  have len: "length ?b = length s" and nth: "\<And>i. i < length s \<Longrightarrow> ?b ! i = (if i \<in> ends (length s) c then CHR 0x00 else s ! i)"
    using nulterminate_nth [of "length s" c s] by auto
  have stop: "\<not> word_char (s ! i)" if e: "i \<in> ends (length s) c" and l: "i < length s" for i
  proof -
    obtain u where u: "u \<in> set_cmd c" "i = length s - length (snd u)" using e unfolding ends_def by blast
    then obtain pre' w' where "s = pre' @ w' @ snd u" "snd u = [] \<or> \<not> word_char (hd (snd u))"
      using assms(1) unfolding word_tok_def by blast
    with u(2) l show ?thesis by (auto simp: nth_append hd_conv_nth)
  qed
  have "takeWhile (\<lambda>c. c \<noteq> CHR 0x00) (drop (length pre) ?b) = w"
  proof (rule takeWhile_stop)
    show "length w + length pre \<le> length ?b" using arg_cong [OF w(1), of length] len by simp
    show "\<forall>i<length w. ?b ! (length pre + i) = w ! i"
    proof (intro allI impI)
      fix i
      assume i: "i < length w"
      have l: "length pre + i < length s" and si: "s ! (length pre + i) = w ! i"
        using i arg_cong [OF w(1), of length] by (simp_all add: w(1) nth_append)
      moreover have "word_char (w ! i)" using i w(3) by (simp add: list_all_length)
      ultimately show "?b ! (length pre + i) = w ! i" using nth [OF l] stop [OF _ l] by auto
    qed
    show "CHR 0x00 \<notin> set w" using assms(2) w(1) by (metis Un_iff set_append)
    have e: "length pre + length w = length s - length (snd t)" "length (snd t) \<le> length s"
      using arg_cong [OF w(1), of length] by simp_all
    show "length pre + length w = length ?b \<or> ?b ! (length pre + length w) = CHR 0x00"
    proof (cases "snd t")
      case (Cons x r)
      then have "length pre + length w < length s" using e by simp
      moreover have "length pre + length w \<in> ends (length s) c" using t e(1) unfolding ends_def by blast
      ultimately show ?thesis using nth by simp
    qed (use e len in simp)
  qed
  moreover have "length s - length (fst t) = length pre" "text_of t = w"
    using arg_cong [OF w(1), of length] by (simp_all add: w(2) text_of_def)
  ultimately show "str_at (length s) ?b t = text_of t" by (simp add: str_at_def)
qed

section \<open>Printing and reading back\<close>

lemma show_no_nul: "wf_cmd c \<Longrightarrow> CHR 0x00 \<notin> set (show_cmd c)"
  by (induction c) (auto simp: paren_def words_def redir_op_def word_def list_all_iff)

lemma parse_show:
  assumes "wf_cmd c"
  shows "\<exists>tc. parse_line (show_cmd c) = Inr tc \<and> strings_of (show_cmd c) tc = c"
proof -
  have "line_ok c" using all_ok [OF assms] by simp
  then obtain tc where tc: "parseline (depth (show_cmd c)) (show_cmd c) = POk tc []" "texts tc = c"
    unfolding line_ok_def reads_as_def by (metis append_Nil2 depth_def follow_def order_refl)
  then have "\<forall>t\<in>set_cmd tc. word_tok (show_cmd c) t"
    using good_parse(1) [OF tail_refl, of "show_cmd c" "depth (show_cmd c)"] by (simp add: good_def)
  then have "strings_of (show_cmd c) tc = c" using tc(2) strings_of_tokens show_no_nul [OF assms] by simp
  with tc(1) show ?thesis by (simp add: parse_line_def)
qed

text \<open>
  C20. The shell reads back every command it could print: for a command built from words,
  redirections, pipes, lists, background commands and parentheses, \<open>parsecmd\<close> of its text returns
  exactly that command, with its strings cut out of the line by the zeros written into it, and
  makes no system call.
\<close>

theorem parsecmd_reads_back:
  assumes "wf_cmd c"
  shows "parsecmd os (show_cmd c) h = Some (Ret c h)"
  using parse_show [OF assms] by (auto simp: parsecmd_def)

theorem parsecmd_reads_back_witness:
  "parsecmd (\<lambda>_. RInt 0) (show_cmd (LIST (BACK (PIPE (REDIR (EXEC [''cat'']) ''f'' 0 0) (LIST (EXEC [''wc'']) (EXEC [''ls'']))))
     (EXEC [''echo'', ''x'']))) [] =
   Some (Ret (LIST (BACK (PIPE (REDIR (EXEC [''cat'']) ''f'' 0 0) (LIST (EXEC [''wc'']) (EXEC [''ls'']))))
     (EXEC [''echo'', ''x''])) [])"
  by (rule parsecmd_reads_back)
    (simp add: MAXARGS_def word_def word_char_def whitespace_def symbols_def redir_ok_def)

section \<open>Running\<close>

definition last_words :: "hist \<Rightarrow> bool" where
  "last_words h \<longleftrightarrow> h \<noteq> [] \<and> (case last h of SYS_exit \<Rightarrow> True | SYS_exec _ _ \<Rightarrow> True | _ \<Rightarrow> False)"

definition vanishes :: "'a uprog \<Rightarrow> bool" where
  "vanishes p \<longleftrightarrow> (\<forall>h. \<exists>h'. p h = Some (Gone h') \<and> last_words h')"

definition finishes :: "'a uprog \<Rightarrow> bool" where
  "finishes p \<longleftrightarrow> (\<forall>h. (\<exists>a h'. p h = Some (Ret a h')) \<or> (\<exists>h'. p h = Some (Gone h') \<and> last_words h'))"

lemma vanishes_exit: "vanishes (exit_u os)"
  by (simp add: vanishes_def exit_u_def last_words_def)

lemma vanishes_first: "vanishes m \<Longrightarrow> vanishes (ubind m f)"
  unfolding vanishes_def by (metis ubind_simps(2))

lemma vanishes_then:
  assumes "finishes m" "\<And>a. vanishes (f a)"
  shows "vanishes (ubind m f)"
  unfolding vanishes_def
proof
  fix h
  from assms(1) show "\<exists>h'. ubind m f h = Some (Gone h') \<and> last_words h'"
    unfolding finishes_def using assms(2) [unfolded vanishes_def] by (metis ubind_simps(1,2))
qed

lemma vanishes_if: "vanishes p \<Longrightarrow> vanishes q \<Longrightarrow> vanishes (if b then p else q)"
  by simp

lemma vanishes_split: "(\<And>a b c. vanishes (f a b c)) \<Longrightarrow> vanishes (case x of (a, b, c) \<Rightarrow> f a b c)"
  by (cases x) simp

lemma finishes_vanishes: "vanishes p \<Longrightarrow> finishes p"
  unfolding vanishes_def finishes_def by blast

lemma finishes_then:
  assumes "finishes m" "\<And>a. finishes (f a)"
  shows "finishes (ubind m f)"
  unfolding finishes_def
proof
  fix h
  from assms(1) [unfolded finishes_def, rule_format, of h]
  show "(\<exists>a h'. ubind m f h = Some (Ret a h')) \<or> (\<exists>h'. ubind m f h = Some (Gone h') \<and> last_words h')"
    using assms(2) [unfolded finishes_def] by (metis ubind_simps(1,2))
qed

lemma finishes_if: "finishes p \<Longrightarrow> finishes q \<Longrightarrow> finishes (if b then p else q)"
  by simp

lemma finishes_basic:
  "finishes (ret a)" "finishes (call os c)" "finishes (call_int os c)" "finishes (do_call os c)"
  "finishes (exec_u os path argv)" "finishes (pipe_u os)"
  by (simp_all add: finishes_def call_simp call_int_simp do_call_def exec_u_def pipe_u_def ubind_call Let_def
      last_words_def split: sysret.split)

lemma finishes_printf: "format_text fmt ap \<noteq> None \<Longrightarrow> finishes (printf os fd fmt ap)"
  by (auto simp: finishes_def printf_text)

lemma vanishes_panic: "vanishes (panic_u os s)"
  unfolding panic_u_def
  by (intro vanishes_then finishes_printf vanishes_exit) (simp add: conv_text_def)

lemma finishes_fork1: "finishes (fork1 os)"
  unfolding fork1_def
  by (intro finishes_then finishes_if finishes_basic finishes_vanishes vanishes_panic)

lemma finishes_pipe_end: "finishes (pipe_end os fd p p0 p1)"
  unfolding pipe_end_def by (intro finishes_then finishes_basic)

lemmas run_intros =
  vanishes_then vanishes_exit vanishes_panic vanishes_if
  finishes_then finishes_basic finishes_fork1 finishes_pipe_end finishes_printf finishes_if

lemma runcmd_vanishes: "vanishes (runcmd os c)"
proof (induction c)
  case (EXEC argv)
  then show ?case
    by (cases argv) (auto simp: conv_text_def intro!: vanishes_exit vanishes_then finishes_basic finishes_printf)
next
  case (REDIR c f mode fd)
  then show ?case unfolding runcmd.simps
    by (intro run_intros finishes_vanishes) (simp_all add: conv_text_def)
next
  case (PIPE l r)
  show ?case unfolding runcmd.simps
    by (intro run_intros vanishes_split finishes_vanishes [OF PIPE.IH(1)] finishes_vanishes [OF PIPE.IH(2)])
next
  case (LIST l r)
  show ?case unfolding runcmd.simps
    by (intro run_intros finishes_vanishes [OF LIST.IH(1)] finishes_vanishes [OF LIST.IH(2)])
next
  case (BACK c)
  show ?case unfolding runcmd.simps
    by (intro run_intros finishes_vanishes [OF BACK.IH])
qed

text \<open>
  C29. Running a command never returns to its caller, whatever the kernel answers to the system
  calls: the run ends, and its last call is \<open>exit\<close> or an \<open>exec\<close> that replaced the program.
\<close>

theorem runcmd_never_returns: "\<exists>h'. runcmd os c h = Some (Gone h') \<and> last_words h'"
  using runcmd_vanishes by (auto simp: vanishes_def)

section \<open>Appending\<close>

text \<open>The two output redirections open the file in the same way.\<close>

lemma append_is_overwrite:
  assumes "word f"
  shows "parseredirs c (''>>'' @ f @ '' '' @ r) = parseredirs c (''>'' @ f @ '' '' @ r)"
proof -
  have g: "gettoken (''>'' @ f @ '' '' @ r) = (CHR ''>'', ''>'' @ f @ '' '' @ r, f @ '' '' @ r, f @ '' '' @ r)"
    using gettoken_redir [OF assms, of 1 "'' '' @ r"] by (simp add: redir_op_def)
  have g2: "gettoken (''>>'' @ f @ '' '' @ r) = (CHR ''+'', ''>>'' @ f @ '' '' @ r, f @ '' '' @ r, f @ '' '' @ r)"
    using skipws_word [OF assms, of "'' '' @ r"] by (simp add: gettoken_def token_at_def whitespace_def)
  have "peek (''>>'' @ f @ '' '' @ r) ''<>''" "peek (''>'' @ f @ '' '' @ r) ''<>''"
    by (simp_all add: peek_def whitespace_def)
  then show ?thesis
    using g g2 gettoken_word [OF assms, of r] by (subst (1 2) parseredirs.simps) simp
qed

end
