(* ===== verification/Grep.thy ===== *)
theory Grep
  imports Ulib
begin

text \<open>
  \<open>grep.c\<close>: the pattern matcher, the loop over the input with its buffer of 1024 bytes, and \<open>main\<close>.
  Patterns and texts are the bytes before the terminating zero; reading the terminator gives the
  zero byte. Of the buffer the model has the bytes in use.
\<close>

section \<open>The matcher\<close>

definition byte_at :: "string \<Rightarrow> nat \<Rightarrow> char" where
  "byte_at s i = (if i < length s then s ! i else CHR 0x00)"

function matchhere :: "string \<Rightarrow> string \<Rightarrow> bool"
  and matchstar :: "char \<Rightarrow> string \<Rightarrow> string \<Rightarrow> bool" where
  "matchhere re text =
     (if re = [] then True
      else if byte_at re 1 = CHR ''*'' then matchstar (hd re) (drop 2 re) text
      else if hd re = CHR ''$'' \<and> length re = 1 then text = []
      else if text \<noteq> [] \<and> (hd re = CHR ''.'' \<or> hd re = hd text) then matchhere (tl re) (tl text)
      else False)"
| "matchstar c re text =
     (if matchhere re text then True
      else if text \<noteq> [] \<and> (hd text = c \<or> c = CHR ''.'') then matchstar c re (tl text)
      else False)"
  by pat_completeness auto
termination
  by (relation "inv_image (less_than <*lex*> less_than <*lex*> less_than)
      (\<lambda>x. case x of Inl (re, text) \<Rightarrow> (length re, length text, 0)
                   | Inr (c, re, text) \<Rightarrow> (length re, length text, 1 :: nat))") auto

declare matchhere.simps [simp del] matchstar.simps [simp del]

fun match_from :: "string \<Rightarrow> string \<Rightarrow> bool" where
  "match_from re text = (matchhere re text \<or> (case text of [] \<Rightarrow> False | _ # text \<Rightarrow> match_from re text))"

declare match_from.simps [simp del]

definition match :: "string \<Rightarrow> string \<Rightarrow> bool" where
  "match re text =
     (if byte_at re 0 = CHR ''^'' then matchhere (tl re) text else match_from re text)"

section \<open>The loop over the input\<close>

text \<open>
  Print the complete lines at the start of \<open>p\<close> that match; the result is what is left. The search
  for a newline stops at a zero byte.
\<close>

function grep_lines :: "os \<Rightarrow> string \<Rightarrow> string \<Rightarrow> string uprog" where
  "grep_lines os pattern p =
     (if CHR 0x0A \<in> set (takeWhile (\<lambda>c. c \<noteq> CHR 0x00) p) then
        let q = takeWhile (\<lambda>c. c \<noteq> CHR 0x0A) p
        in ubind (if match pattern q then call_int os (SYS_write 1 (q @ [CHR 0x0A])) else ret 0) (\<lambda>_.
           grep_lines os pattern (drop (length q + 1) p))
      else ret p)"
  by auto
termination
  by (relation "measure (\<lambda>(os, pattern, p). length p)") (auto dest!: set_takeWhileD length_pos_if_in_set intro!: diff_less)

declare grep_lines.simps [simp del]

partial_function (option) grep_loop :: "os \<Rightarrow> string \<Rightarrow> int \<Rightarrow> string \<Rightarrow> hist \<Rightarrow> unit uout option" where
  "grep_loop os pattern fd buf h =
     ubind (read os fd (1024 - length buf - 1)) (\<lambda>r.
     if fst r > 0 then
       ubind (grep_lines os pattern (buf @ snd r)) (\<lambda>p.
       grep_loop os pattern fd (if length p = length (buf @ snd r) then [] else p))
     else ret ()) h"

definition grep :: "os \<Rightarrow> string \<Rightarrow> int \<Rightarrow> unit uprog" where
  "grep os pattern fd = grep_loop os pattern fd []"

fun grep_files :: "os \<Rightarrow> string \<Rightarrow> string list \<Rightarrow> unit uprog" where
  "grep_files os pattern [] = exit_u os"
| "grep_files os pattern (a # argv) =
     ubind (call_int os (SYS_open a 0)) (\<lambda>fd.
     if fd < 0 then
       ubind (printf os 1 ''grep: cannot open %s\<newline>'' [PStr (Some a)]) (\<lambda>_. exit_u os)
     else
       ubind (grep os pattern fd) (\<lambda>_.
       ubind (call_int os (SYS_close fd)) (\<lambda>_. grep_files os pattern argv)))"

definition main_grep :: "os \<Rightarrow> string list \<Rightarrow> unit uprog" where
  "main_grep os argv =
     (case argv of
        _ # pattern # files \<Rightarrow>
          if files = [] then ubind (grep os pattern 0) (\<lambda>_. exit_u os)
          else grep_files os pattern files
      | _ \<Rightarrow> ubind (printf os 2 ''usage: grep pattern [file ...]\<newline>'' []) (\<lambda>_. exit_u os))"

section \<open>What a pattern means\<close>

datatype atom = Any | Lit char

datatype item = One atom | Many atom | End

definition atom_of :: "char \<Rightarrow> atom" where "atom_of c = (if c = CHR ''.'' then Any else Lit c)"

fun afits :: "atom \<Rightarrow> char \<Rightarrow> bool" where
  "afits Any x = True"
| "afits (Lit c) x = (x = c)"

text \<open>A pattern is a sequence of items: a character or a dot, possibly starred, and a final dollar.\<close>

fun items :: "string \<Rightarrow> item list" where
  "items [] = []"
| "items [c] = [if c = CHR ''$'' then End else One (atom_of c)]"
| "items (c # d # re) =
     (if d = CHR ''*'' then Many (atom_of c) # items re else One (atom_of c) # items (d # re))"

primrec item_lang :: "item \<Rightarrow> string set" where
  "item_lang (One a) = {[x] |x. afits a x}"
| "item_lang (Many a) = {u. list_all (afits a) u}"
| "item_lang End = {[]}"

primrec seq_lang :: "item list \<Rightarrow> string set" where
  "seq_lang [] = {[]}"
| "seq_lang (i # is) = {u @ v |u v. u \<in> item_lang i \<and> v \<in> seq_lang is}"

text \<open>Some prefix of the text is in the language; the whole text, if the pattern ends in a dollar.\<close>

definition prefix_in :: "item list \<Rightarrow> string \<Rightarrow> bool" where
  "prefix_in is text \<longleftrightarrow>
     (\<exists>u v. text = u @ v \<and> u \<in> seq_lang is \<and> (if End \<in> set is then v = [] else True))"

lemma prefix_in_Nil [simp]: "prefix_in [] text"
  by (simp add: prefix_in_def)

lemma prefix_in_End [simp]: "prefix_in [End] text \<longleftrightarrow> text = []"
  by (auto simp: prefix_in_def)

lemma prefix_in_Cons:
  assumes "i \<noteq> End"
  shows "prefix_in (i # is) t \<longleftrightarrow> (\<exists>u r. t = u @ r \<and> u \<in> item_lang i \<and> prefix_in is r)"
proof
  assume "prefix_in (i # is) t"
  then obtain w v where w: "t = w @ v" "w \<in> seq_lang (i # is)" "if End \<in> set (i # is) then v = [] else True"
    unfolding prefix_in_def by blast
  then obtain u u' where "w = u @ u'" "u \<in> item_lang i" "u' \<in> seq_lang is" by auto
  moreover have "prefix_in is (u' @ v)"
    unfolding prefix_in_def using w(3) assms \<open>u' \<in> seq_lang is\<close>
    by (intro exI [of _ u'] exI [of _ v]) (simp split: if_splits)
  ultimately show "\<exists>u r. t = u @ r \<and> u \<in> item_lang i \<and> prefix_in is r"
    using w(1) by (intro exI [of _ u] exI [of _ "u' @ v"]) simp
next
  assume "\<exists>u r. t = u @ r \<and> u \<in> item_lang i \<and> prefix_in is r"
  then obtain u w v where w: "t = u @ w @ v" "u \<in> item_lang i" "w \<in> seq_lang is"
      "if End \<in> set is then v = [] else True"
    unfolding prefix_in_def by blast
  then have "u @ w \<in> seq_lang (i # is)" by auto
  with w assms show "prefix_in (i # is) t"
    unfolding prefix_in_def by (intro exI [of _ "u @ w"] exI [of _ v]) (simp split: if_splits)
qed

lemma prefix_in_One [simp]:
  "prefix_in (One a # is) t \<longleftrightarrow> (case t of [] \<Rightarrow> False | x # t \<Rightarrow> afits a x \<and> prefix_in is t)"
  by (cases t) (auto simp: prefix_in_Cons, metis append_Cons append_Nil)

lemma prefix_in_Many:
  "prefix_in (Many a # is) t \<longleftrightarrow>
     prefix_in is t \<or> (case t of [] \<Rightarrow> False | x # t \<Rightarrow> afits a x \<and> prefix_in (Many a # is) t)"
proof -
  have "(\<exists>u r. t = u @ r \<and> list_all (afits a) u \<and> P r) \<longleftrightarrow>
      P t \<or> (case t of [] \<Rightarrow> False | x # t \<Rightarrow> afits a x \<and> (\<exists>u r. t = u @ r \<and> list_all (afits a) u \<and> P r))" for P
  proof (cases t)
    case (Cons x t')
    have "(\<exists>u r. t = u @ r \<and> list_all (afits a) u \<and> P r) \<longleftrightarrow>
        (\<exists>r. t = r \<and> P r) \<or> (\<exists>y u r. t = (y # u) @ r \<and> list_all (afits a) (y # u) \<and> P r)"
      by (metis append_Nil list.pred_inject(1) neq_Nil_conv)
    with Cons show ?thesis by auto
  qed auto
  from this [of "prefix_in is"] show ?thesis by (simp add: prefix_in_Cons cong: list.case_cong)
qed

lemma fits_atom_of: "afits (atom_of c) x \<longleftrightarrow> c = CHR ''.'' \<or> c = x"
  by (auto simp: atom_of_def)

lemma matchhere_eqs:
  "matchhere [] t = True"
  "matchhere [c] t =
     (if c = CHR ''$'' then t = [] else case t of [] \<Rightarrow> False | x # _ \<Rightarrow> afits (atom_of c) x)"
  "matchhere (c # d # r) t =
     (if d = CHR ''*'' then matchstar c r t
      else case t of [] \<Rightarrow> False | x # t \<Rightarrow> afits (atom_of c) x \<and> matchhere (d # r) t)"
  by (simp_all add: matchhere.simps [of "[]"] matchhere.simps [of "[c]"] matchhere.simps [of "c # d # r"]
      byte_at_def fits_atom_of split: list.split)

lemma match_items:
  "matchhere re tx \<longleftrightarrow> prefix_in (items re) tx"
  "matchstar c re tx \<longleftrightarrow> prefix_in (Many (atom_of c) # items re) tx"
proof (induction re tx and c re tx rule: matchhere_matchstar.induct)
  case (1 re tx)
  show ?case
  proof (cases re rule: items.cases)
    case (3 c d r)
    with 1 show ?thesis
      by (cases tx) (auto simp: matchhere_eqs byte_at_def fits_atom_of)
  qed (auto simp: matchhere_eqs split: list.split)
next
  case (2 c re tx)
  show ?case
  proof (cases tx)
    case Nil
    with 2 show ?thesis by (simp add: matchstar.simps [of c re "[]"] prefix_in_Many [of "atom_of c" _ "[]"])
  next
    case (Cons x t)
    with 2 show ?thesis
      by (auto simp: matchstar.simps [of c re "x # t"] prefix_in_Many [of "atom_of c" _ "x # t"] fits_atom_of)
  qed
qed

lemma match_from_suffix: "match_from re t \<longleftrightarrow> (\<exists>p q. t = p @ q \<and> matchhere re q)"
proof (induction t)
  case Nil
  then show ?case by (simp add: match_from.simps)
next
  case (Cons x t)
  then have "match_from re (x # t) \<longleftrightarrow> matchhere re (x # t) \<or> (\<exists>p q. t = p @ q \<and> matchhere re q)"
    by (simp add: match_from.simps [of re "x # t"])
  also have "\<dots> \<longleftrightarrow> (\<exists>p q. x # t = p @ q \<and> matchhere re q)"
    by (auto simp: Cons_eq_append_conv)
  finally show ?case .
qed

text \<open>
  C27. \<open>match\<close> decides the meaning of the pattern. The text matches if some part of it is in the
  language of the pattern's items; the part starts at the beginning if the pattern starts with a
  caret, and ends at the end if the pattern ends with a dollar.
\<close>

theorem match_decides_pattern:
  "match re t \<longleftrightarrow>
     (let anchored = (re \<noteq> [] \<and> hd re = CHR ''^''); is = items (if anchored then tl re else re)
      in \<exists>p u v. t = p @ u @ v \<and> u \<in> seq_lang is \<and> (if anchored then p = [] else True) \<and>
           (if End \<in> set is then v = [] else True))"
proof (cases "re \<noteq> [] \<and> hd re = CHR ''^''")
  case True
  then have "byte_at re 0 = CHR ''^''" by (cases re) (auto simp: byte_at_def)
  then have "match re t \<longleftrightarrow> prefix_in (items (tl re)) t" by (simp add: match_def match_items)
  with True show ?thesis by (simp add: prefix_in_def Let_def)
next
  case False
  then have "byte_at re 0 \<noteq> CHR ''^''" by (cases re) (auto simp: byte_at_def)
  then have "match re t \<longleftrightarrow> (\<exists>p q. t = p @ q \<and> prefix_in (items re) q)"
    by (simp add: match_def match_from_suffix match_items)
  moreover have "(\<exists>p q. t = p @ q \<and> (\<exists>u v. q = u @ v \<and> A u v)) \<longleftrightarrow> (\<exists>p u v. t = p @ u @ v \<and> A u v)" for A
    by blast
  ultimately have "match re t \<longleftrightarrow> (\<exists>p u v. t = p @ u @ v \<and> u \<in> seq_lang (items re) \<and>
      (if End \<in> set (items re) then v = [] else True))" by (simp add: prefix_in_def)
  then show ?thesis by (simp only: False if_False Let_def simp_thms)
qed

section \<open>What is printed\<close>

text \<open>The input of a descriptor, as successive reads return it; then its end.\<close>

definition reads_of :: "int \<Rightarrow> hist \<Rightarrow> nat" where
  "reads_of fd h = length (filter (\<lambda>c. case c of SYS_read f n \<Rightarrow> f = fd | _ \<Rightarrow> False) h)"

definition feeds :: "os \<Rightarrow> int \<Rightarrow> string list \<Rightarrow> bool" where
  "feeds os fd cs \<longleftrightarrow>
     (\<forall>h n. os (h @ [SYS_read fd n]) =
        RBytes (if reads_of fd h < length cs then cs ! reads_of fd h else []))"

lemma reads_of_simps [simp]:
  "reads_of fd [] = 0" "reads_of fd (h @ h') = reads_of fd h + reads_of fd h'"
  "reads_of fd (SYS_read f n # h) = (if f = fd then 1 else 0) + reads_of fd h"
  "reads_of fd (SYS_write f s # h) = reads_of fd h"
  by (simp_all add: reads_of_def)

lemma read_fed:
  assumes "feeds os fd cs"
  shows "read os fd n h =
     (let c = take n (if reads_of fd h < length cs then cs ! reads_of fd h else [])
      in Some (Ret (int (length c), c) (h @ [SYS_read fd n])))"
  using assms by (simp add: read_def ubind_call feeds_def Let_def)

definition unlines :: "string list \<Rightarrow> string" where
  "unlines ls = concat (map (\<lambda>l. l @ [CHR 0x0A]) ls)"

definition plain :: "string \<Rightarrow> bool" where
  "plain l \<longleftrightarrow> CHR 0x0A \<notin> set l \<and> CHR 0x00 \<notin> set l"

definition printed :: "string \<Rightarrow> string list \<Rightarrow> hist" where
  "printed pattern ls = map (\<lambda>l. SYS_write 1 (l @ [CHR 0x0A])) (filter (match pattern) ls)"

lemma reads_of_printed [simp]: "reads_of fd (printed pattern ls) = 0"
  by (induction ls) (auto simp: printed_def)

lemma grep_lines_done:
  "CHR 0x0A \<notin> set p \<Longrightarrow> grep_lines os pattern p h = Some (Ret p h)"
  by (subst grep_lines.simps) (auto dest: set_takeWhileD)

lemma grep_lines_line:
  assumes "plain l"
  shows "grep_lines os pattern (l @ CHR 0x0A # r) h = grep_lines os pattern r (h @ printed pattern [l])"
proof -
  have l: "\<forall>x\<in>set l. x \<noteq> CHR 0x0A" using assms by (auto simp: plain_def)
  then have nl: "takeWhile (\<lambda>c. c \<noteq> CHR 0x0A) (l @ CHR 0x0A # r) = l"
    by (simp add: takeWhile_append2)
  have "CHR 0x0A \<in> set (takeWhile (\<lambda>c. c \<noteq> CHR 0x00) (l @ CHR 0x0A # r))"
    using assms by (simp add: plain_def takeWhile_append2 takeWhile_append)
  then show ?thesis
    by (subst grep_lines.simps) (simp add: nl Let_def printed_def user_simps)
qed

lemma grep_lines_unlines:
  "\<forall>l\<in>set ls. plain l \<Longrightarrow> grep_lines os pattern (unlines ls) h = Some (Ret [] (h @ printed pattern ls))"
  by (induction ls arbitrary: h) (simp_all add: unlines_def grep_lines_done grep_lines_line printed_def)

lemma grep_loop_whole:
  assumes "feeds os fd (map unlines lss)"
    "\<forall>ls\<in>set lss. ls \<noteq> [] \<and> (\<forall>l\<in>set ls. plain l) \<and> length (unlines ls) \<le> 1023"
  shows "grep_loop os pattern fd [] h = Some (Ret () (h @
     concat (map (\<lambda>ls. SYS_read fd 1023 # printed pattern ls) (drop (reads_of fd h) lss)) @
     [SYS_read fd 1023]))"
proof (induction "length lss - reads_of fd h" arbitrary: h)
  case 0
  then show ?case
    by (subst grep_loop.simps) (simp add: read_fed [OF assms(1)])
next
  case (Suc n)
  let ?k = "reads_of fd h"
  let ?ls = "lss ! ?k"
  have k: "?k < length lss" using Suc(2) by simp
  then have ls: "?ls \<noteq> []" "\<forall>l\<in>set ?ls. plain l" "length (unlines ?ls) \<le> 1023"
    using assms(2) nth_mem by blast+
  then have "unlines ?ls \<noteq> []" by (simp add: unlines_def)
  moreover have "read os fd 1023 h = Some (Ret (int (length (unlines ?ls)), unlines ?ls) (h @ [SYS_read fd 1023]))"
    using k ls by (simp add: read_fed [OF assms(1)] Let_def)
  ultimately have "grep_loop os pattern fd [] h = grep_loop os pattern fd [] (h @ SYS_read fd 1023 # printed pattern ?ls)"
    using ls by (subst grep_loop.simps) (simp add: grep_lines_unlines)
  also have "\<dots> = Some (Ret () ((h @ SYS_read fd 1023 # printed pattern ?ls) @
      concat (map (\<lambda>ls. SYS_read fd 1023 # printed pattern ls) (drop (Suc ?k) lss)) @ [SYS_read fd 1023]))"
    using Suc(1) [of "h @ SYS_read fd 1023 # printed pattern ?ls"] Suc(2) by simp
  finally show ?case using k by (simp add: Cons_nth_drop_Suc [symmetric])
qed

text \<open>
  C28. If every read returns complete lines, \<open>grep\<close> ends, and what it has written are exactly the
  matching lines, in the order of the input.
\<close>

theorem grep_prints_matches:
  assumes "feeds os fd (map unlines lss)"
    "\<forall>ls\<in>set lss. ls \<noteq> [] \<and> (\<forall>l\<in>set ls. plain l) \<and> length (unlines ls) \<le> 1023"
  shows "\<exists>h. grep os pattern fd [] = Some (Ret () h) \<and>
     filter (\<lambda>c. \<nexists>n. c = SYS_read fd n) h = printed pattern (concat lss)"
proof -
  have w: "filter (\<lambda>c. \<forall>n. c \<noteq> SYS_read fd n) (printed pattern ls) = printed pattern ls" for ls
    by (induction ls) (auto simp: printed_def)
  have "filter (\<lambda>c. \<nexists>n. c = SYS_read fd n)
      (concat (map (\<lambda>ls. SYS_read fd 1023 # printed pattern ls) lss)) = printed pattern (concat lss)"
    by (induction lss) (simp_all add: w, simp_all add: printed_def)
  then show ?thesis
    using grep_loop_whole [OF assms, of pattern "[]"] by (simp add: grep_def)
qed

text \<open>A read that returns less than a line is thrown away: the line is not printed even if it matches.\<close>

lemma grep_drops_partial_line:
  assumes "os (h @ [SYS_read fd 1023]) = RBytes c" "c \<noteq> []" "length c \<le> 1023" "CHR 0x0A \<notin> set c"
  shows "grep_loop os pattern fd [] h = grep_loop os pattern fd [] (h @ [SYS_read fd 1023])"
proof -
  have "read os fd 1023 h = Some (Ret (int (length c), c) (h @ [SYS_read fd 1023]))"
    using assms by (simp add: read_def ubind_call)
  with assms show ?thesis by (subst grep_loop.simps) (simp add: grep_lines_done)
qed

definition script :: "string list \<Rightarrow> os" where
  "script cs h =
     (case last h of
        SYS_read fd n \<Rightarrow> RBytes (let k = reads_of fd (butlast h) in if k < length cs then cs ! k else [])
      | _ \<Rightarrow> RInt 0)"

lemma script_feeds: "feeds (script cs) fd cs"
  by (simp add: feeds_def script_def Let_def)

theorem grep_prints_matches_witness:
  "\<exists>h. grep (script (map unlines [[''ab'', ''cd''], [''xaby'']])) ''ab'' 0 [] = Some (Ret () h) \<and>
     filter (\<lambda>c. \<nexists>n. c = SYS_read 0 n) h = printed ''ab'' [''ab'', ''cd'', ''xaby'']"
  using grep_prints_matches [of "script (map unlines [[''ab'', ''cd''], [''xaby'']])" 0
      "[[''ab'', ''cd''], [''xaby'']]" "''ab''", OF script_feeds]
  by (simp add: plain_def unlines_def)

end
