(* ===== verification/Uprogs.thy ===== *)
theory Uprogs
  imports Grep
begin

text \<open>
  The small user programs: \<open>cat\<close>, \<open>wc\<close>, \<open>echo\<close>, \<open>ls\<close>, \<open>ln\<close>, \<open>mkdir\<close>, \<open>rm\<close>, \<open>kill\<close>, \<open>init\<close>,
  \<open>zombie\<close>, \<open>forktest\<close> and \<open>stressfs\<close>. Each \<open>main\<close> carries the name of its program. A program
  that loops until its input ends, or for ever, is a partial function. The counters of \<open>wc\<close> are
  natural numbers.
\<close>

section \<open>cat\<close>

partial_function (option) cat :: "os \<Rightarrow> int \<Rightarrow> hist \<Rightarrow> unit uout option" where
  "cat os fd h =
     ubind (read os fd 512) (\<lambda>r.
     if fst r > 0 then
       ubind (call_int os (SYS_write 1 (snd r))) (\<lambda>n.
       if n \<noteq> fst r then ubind (printf os 1 ''cat: write error\<newline>'' []) (\<lambda>_. exit_u os)
       else cat os fd)
     else if fst r < 0 then ubind (printf os 1 ''cat: read error\<newline>'' []) (\<lambda>_. exit_u os)
     else ret ()) h"

fun cat_files :: "os \<Rightarrow> string list \<Rightarrow> unit uprog" where
  "cat_files os [] = exit_u os"
| "cat_files os (a # argv) =
     ubind (call_int os (SYS_open a 0)) (\<lambda>fd.
     if fd < 0 then ubind (printf os 1 ''cat: cannot open %s\<newline>'' [PStr (Some a)]) (\<lambda>_. exit_u os)
     else
       ubind (cat os fd) (\<lambda>_.
       ubind (call_int os (SYS_close fd)) (\<lambda>_. cat_files os argv)))"

definition main_cat :: "os \<Rightarrow> string list \<Rightarrow> unit uprog" where
  "main_cat os argv =
     (if length argv \<le> 1 then ubind (cat os 0) (\<lambda>_. exit_u os) else cat_files os (tl argv))"

section \<open>wc\<close>

definition wc_space :: string where
  "wc_space = [CHR '' '', CHR 0x0D, CHR 0x09, CHR 0x0A, CHR 0x0B]"

record wc_state =
  wc_l :: nat
  wc_w :: nat
  wc_c :: nat
  inword :: bool

definition wc_char :: "char \<Rightarrow> wc_state \<Rightarrow> wc_state" where
  "wc_char ch s =
     (let s = s\<lparr>wc_c := wc_c s + 1\<rparr>;
          s = (if ch = CHR 0x0A then s\<lparr>wc_l := wc_l s + 1\<rparr> else s)
      in if ch \<in> set wc_space then s\<lparr>inword := False\<rparr>
         else if \<not> inword s then s\<lparr>wc_w := wc_w s + 1, inword := True\<rparr>
         else s)"

definition wc_init :: wc_state where
  "wc_init = \<lparr>wc_l = 0, wc_w = 0, wc_c = 0, inword = False\<rparr>"

partial_function (option) wc_loop :: "os \<Rightarrow> int \<Rightarrow> string \<Rightarrow> wc_state \<Rightarrow> hist \<Rightarrow> unit uout option" where
  "wc_loop os fd name s h =
     ubind (read os fd 512) (\<lambda>r.
     if fst r > 0 then wc_loop os fd name (fold wc_char (snd r) s)
     else if fst r < 0 then ubind (printf os 1 ''wc: read error\<newline>'' []) (\<lambda>_. exit_u os)
     else printf os 1 ''%d %d %d %s\<newline>''
       [PNum (of_nat (wc_l s)), PNum (of_nat (wc_w s)), PNum (of_nat (wc_c s)), PStr (Some name)]) h"

definition wc :: "os \<Rightarrow> int \<Rightarrow> string \<Rightarrow> unit uprog" where
  "wc os fd name = wc_loop os fd name wc_init"

fun wc_files :: "os \<Rightarrow> string list \<Rightarrow> unit uprog" where
  "wc_files os [] = exit_u os"
| "wc_files os (a # argv) =
     ubind (call_int os (SYS_open a 0)) (\<lambda>fd.
     if fd < 0 then ubind (printf os 1 ''wc: cannot open %s\<newline>'' [PStr (Some a)]) (\<lambda>_. exit_u os)
     else
       ubind (wc os fd a) (\<lambda>_.
       ubind (call_int os (SYS_close fd)) (\<lambda>_. wc_files os argv)))"

definition main_wc :: "os \<Rightarrow> string list \<Rightarrow> unit uprog" where
  "main_wc os argv =
     (if length argv \<le> 1 then ubind (wc os 0 []) (\<lambda>_. exit_u os) else wc_files os (tl argv))"

section \<open>echo\<close>

fun echo_args :: "os \<Rightarrow> string list \<Rightarrow> unit uprog" where
  "echo_args os [] = exit_u os"
| "echo_args os (a # argv) =
     ubind (printf os 1 ''%s%s'' [PStr (Some a), PStr (Some (if argv = [] then [CHR 0x0A] else '' ''))])
       (\<lambda>_. echo_args os argv)"

definition main_echo :: "os \<Rightarrow> string list \<Rightarrow> unit uprog" where
  "main_echo os argv = echo_args os (tl argv)"

section \<open>ln, mkdir, rm, kill\<close>

definition main_ln :: "os \<Rightarrow> string list \<Rightarrow> unit uprog" where
  "main_ln os argv =
     (case argv of
        [_, old, new] \<Rightarrow>
          ubind (call_int os (SYS_link old new)) (\<lambda>r.
          ubind (if r < 0 then printf os 2 ''link %s %s: failed\<newline>'' [PStr (Some old), PStr (Some new)]
                 else ret ()) (\<lambda>_. exit_u os))
      | _ \<Rightarrow> ubind (printf os 2 ''Usage: ln old new\<newline>'' []) (\<lambda>_. exit_u os))"

fun mkdir_args :: "os \<Rightarrow> string list \<Rightarrow> unit uprog" where
  "mkdir_args os [] = ret ()"
| "mkdir_args os (a # argv) =
     ubind (call_int os (SYS_mkdir a)) (\<lambda>r.
     if r < 0 then printf os 2 ''mkdir: %s failed to create\<newline>'' [PStr (Some a)]
     else mkdir_args os argv)"

definition main_mkdir :: "os \<Rightarrow> string list \<Rightarrow> unit uprog" where
  "main_mkdir os argv =
     (if length argv < 2 then ubind (printf os 2 ''Usage: mkdir files...\<newline>'' []) (\<lambda>_. exit_u os)
      else ubind (mkdir_args os (tl argv)) (\<lambda>_. exit_u os))"

fun rm_args :: "os \<Rightarrow> string list \<Rightarrow> unit uprog" where
  "rm_args os [] = ret ()"
| "rm_args os (a # argv) =
     ubind (call_int os (SYS_unlink a)) (\<lambda>r.
     if r < 0 then printf os 2 ''rm: %s failed to delete\<newline>'' [PStr (Some a)]
     else rm_args os argv)"

definition main_rm :: "os \<Rightarrow> string list \<Rightarrow> unit uprog" where
  "main_rm os argv =
     (if length argv < 2 then ubind (printf os 2 ''Usage: rm files...\<newline>'' []) (\<lambda>_. exit_u os)
      else ubind (rm_args os (tl argv)) (\<lambda>_. exit_u os))"

fun kill_args :: "os \<Rightarrow> string list \<Rightarrow> unit uprog" where
  "kill_args os [] = exit_u os"
| "kill_args os (a # argv) = ubind (call_int os (SYS_kill (atoi a))) (\<lambda>_. kill_args os argv)"

definition main_kill :: "os \<Rightarrow> string list \<Rightarrow> unit uprog" where
  "main_kill os argv =
     (if length argv < 2 then ubind (printf os 2 ''usage: kill pid...\<newline>'' []) (\<lambda>_. exit_u os)
      else kill_args os (tl argv))"

section \<open>ls\<close>

text \<open>The part after the last slash, padded with blanks.\<close>

definition fmtname :: "string \<Rightarrow> string" where
  "fmtname path =
     (let p = rev (takeWhile (\<lambda>c. c \<noteq> CHR ''/'') (rev path))
      in if length p \<ge> DIRSIZ then p else p @ replicate (DIRSIZ - length p) CHR '' '')"

definition ls_line :: "os \<Rightarrow> string \<Rightarrow> stat \<Rightarrow> unit uprog" where
  "ls_line os path st =
     printf os 1 ''%s %d %d %d\<newline>''
       [PStr (Some (fmtname path)), PNum (scast (st_type st)), PNum (of_nat (st_ino st)),
        PNum (of_nat (st_size st))]"

text \<open>The entries of a directory; \<open>path\<close> ends in a slash.\<close>

partial_function (option) ls_entries :: "os \<Rightarrow> int \<Rightarrow> string \<Rightarrow> hist \<Rightarrow> unit uout option" where
  "ls_entries os fd path h =
     ubind (read os fd 16) (\<lambda>r.
     if fst r = 16 then
       if de_inum (dec_dirent (map of_char (snd r))) = 0 then ls_entries os fd path
       else
         ubind (ret (path @ takeWhile (\<lambda>c. c \<noteq> CHR 0x00) (drop 2 (snd r)))) (\<lambda>buf.
         ubind (stat_u os buf) (\<lambda>st.
         ubind (case snd st of
                  None \<Rightarrow> printf os 1 ''ls: cannot stat %s\<newline>'' [PStr (Some buf)]
                | Some st \<Rightarrow> ls_line os buf st) (\<lambda>_. ls_entries os fd path)))
     else ret ()) h"

definition ls :: "os \<Rightarrow> string \<Rightarrow> unit uprog" where
  "ls os path =
     ubind (call_int os (SYS_open path 0)) (\<lambda>fd.
     if fd < 0 then printf os 2 ''ls: cannot open %s\<newline>'' [PStr (Some path)]
     else
       ubind (fstat os fd) (\<lambda>r.
       case snd r of
         None \<Rightarrow>
           ubind (printf os 2 ''ls: cannot stat %s\<newline>'' [PStr (Some path)]) (\<lambda>_.
           ubind (call_int os (SYS_close fd)) (\<lambda>_. ret ()))
       | Some st \<Rightarrow>
           ubind
             (if st_type st = T_FILE then ls_line os path st
              else if st_type st = T_DIR then
                if length path + 1 + DIRSIZ + 1 > 512 then printf os 1 ''ls: path too long\<newline>'' []
                else ls_entries os fd (path @ ''/'')
              else ret ()) (\<lambda>_.
           ubind (call_int os (SYS_close fd)) (\<lambda>_. ret ()))))"

fun ls_args :: "os \<Rightarrow> string list \<Rightarrow> unit uprog" where
  "ls_args os [] = exit_u os"
| "ls_args os (a # argv) = ubind (ls os a) (\<lambda>_. ls_args os argv)"

definition main_ls :: "os \<Rightarrow> string list \<Rightarrow> unit uprog" where
  "main_ls os argv =
     (if length argv < 2 then ubind (ls os ''.'') (\<lambda>_. exit_u os) else ls_args os (tl argv))"

section \<open>init\<close>

partial_function (option) init_wait :: "os \<Rightarrow> int \<Rightarrow> hist \<Rightarrow> unit uout option" where
  "init_wait os pid h =
     ubind (call_int os SYS_wait) (\<lambda>wpid.
     if wpid \<ge> 0 \<and> wpid \<noteq> pid then
       ubind (printf os 1 ''zombie!\<newline>'' []) (\<lambda>_. init_wait os pid)
     else ret ()) h"

partial_function (option) init_loop :: "os \<Rightarrow> hist \<Rightarrow> unit uout option" where
  "init_loop os h =
     ubind (printf os 1 ''init: starting sh\<newline>'' []) (\<lambda>_.
     ubind (call_int os SYS_fork) (\<lambda>pid.
     if pid < 0 then ubind (printf os 1 ''init: fork failed\<newline>'' []) (\<lambda>_. exit_u os)
     else
       ubind (if pid = 0 then
                ubind (exec_u os ''sh'' [''sh'']) (\<lambda>_.
                ubind (printf os 1 ''init: exec sh failed\<newline>'' []) (\<lambda>_. exit_u os))
              else ret ()) (\<lambda>_.
       ubind (init_wait os pid) (\<lambda>_. init_loop os)))) h"

definition main_init :: "os \<Rightarrow> unit uprog" where
  "main_init os =
     ubind (call_int os (SYS_open ''console'' O_RDWR)) (\<lambda>fd.
     ubind (if fd < 0 then
              ubind (call_int os (SYS_mknod ''console'' 1 1)) (\<lambda>_.
              call_int os (SYS_open ''console'' O_RDWR))
            else ret 0) (\<lambda>_.
     ubind (call_int os (SYS_dup 0)) (\<lambda>_.
     ubind (call_int os (SYS_dup 0)) (\<lambda>_. init_loop os))))"

section \<open>zombie, forktest, stressfs\<close>

definition main_zombie :: "os \<Rightarrow> unit uprog" where
  "main_zombie os =
     ubind (call_int os SYS_fork) (\<lambda>pid.
     ubind (if pid > 0 then call_int os (SYS_sleep 5) else ret 0) (\<lambda>_. exit_u os))"

definition forktest_N :: nat where "forktest_N = 1000"

definition ft_printf :: "os \<Rightarrow> int \<Rightarrow> string \<Rightarrow> unit uprog" where
  "ft_printf os fd s = ubind (call os (SYS_write fd s)) (\<lambda>_. ret ())"

text \<open>Fork up to \<open>k\<close> more children; the result is the number of children.\<close>

fun ft_fork :: "os \<Rightarrow> nat \<Rightarrow> nat \<Rightarrow> nat uprog" where
  "ft_fork os 0 n = ret n"
| "ft_fork os (Suc k) n =
     ubind (call_int os SYS_fork) (\<lambda>pid.
     if pid < 0 then ret n
     else if pid = 0 then exit_u os
     else ft_fork os k (n + 1))"

fun ft_wait :: "os \<Rightarrow> nat \<Rightarrow> unit uprog" where
  "ft_wait os 0 = ret ()"
| "ft_wait os (Suc n) =
     ubind (call_int os SYS_wait) (\<lambda>r.
     if r < 0 then ubind (ft_printf os 1 ''wait stopped early\<newline>'') (\<lambda>_. exit_u os)
     else ft_wait os n)"

definition forktest :: "os \<Rightarrow> unit uprog" where
  "forktest os =
     ubind (ft_printf os 1 ''fork test\<newline>'') (\<lambda>_.
     ubind (ft_fork os forktest_N 0) (\<lambda>n.
     if n = forktest_N then
       ubind (ft_printf os 1 ''fork claimed to work N times!\<newline>'') (\<lambda>_. exit_u os)
     else
       ubind (ft_wait os n) (\<lambda>_.
       ubind (call_int os SYS_wait) (\<lambda>r.
       if r \<noteq> - 1 then ubind (ft_printf os 1 ''wait got too many\<newline>'') (\<lambda>_. exit_u os)
       else ft_printf os 1 ''fork test OK\<newline>''))))"

definition main_forktest :: "os \<Rightarrow> unit uprog" where
  "main_forktest os = ubind (forktest os) (\<lambda>_. exit_u os)"

text \<open>The result is the number of the process that leaves the loop.\<close>

fun stress_fork :: "os \<Rightarrow> nat \<Rightarrow> nat \<Rightarrow> nat uprog" where
  "stress_fork os 0 i = ret i"
| "stress_fork os (Suc k) i =
     ubind (call_int os SYS_fork) (\<lambda>pid. if pid > 0 then ret i else stress_fork os k (i + 1))"

fun repeat_call :: "os \<Rightarrow> nat \<Rightarrow> sysreq \<Rightarrow> unit uprog" where
  "repeat_call os 0 c = ret ()"
| "repeat_call os (Suc n) c = ubind (call os c) (\<lambda>_. repeat_call os n c)"

definition main_stressfs :: "os \<Rightarrow> unit uprog" where
  "main_stressfs os =
     ubind (printf os 1 ''stressfs starting\<newline>'' []) (\<lambda>_.
     ubind (stress_fork os 4 0) (\<lambda>i.
     ubind (printf os 1 ''write %d\<newline>'' [PNum (of_nat i)]) (\<lambda>_.
     ubind (ret (''stressfs'' @ [char_of (48 + i)])) (\<lambda>path.
     ubind (call_int os (SYS_open path (O_CREATE OR O_RDWR))) (\<lambda>fd.
     ubind (repeat_call os 20 (SYS_write fd (replicate 512 CHR ''a''))) (\<lambda>_.
     ubind (call_int os (SYS_close fd)) (\<lambda>_.
     ubind (printf os 1 ''read\<newline>'' []) (\<lambda>_.
     ubind (call_int os (SYS_open path 0)) (\<lambda>fd.
     ubind (repeat_call os 20 (SYS_read fd 512)) (\<lambda>_.
     ubind (call_int os (SYS_close fd)) (\<lambda>_.
     ubind (call_int os SYS_wait) (\<lambda>_. exit_u os))))))))))))"

end
