(* ===== verification/Umalloc.thy ===== *)
theory Umalloc
  imports Xv6_Prelude
begin

text \<open>
  The allocator of user programs (\<open>umalloc.c\<close>). A header is eight bytes: the address of the next
  free block and the size of the block in units of a header. Addresses are natural numbers; the
  unsigned arithmetic on sizes wraps at 32 bits where the code can reach the limit. The free blocks
  form a circular list through the static header \<open>base\<close>; \<open>freep\<close> points somewhere into it, and is 0
  until the first call of \<open>malloc\<close>. The loops walk a circular list, so they are partial functions;
  \<open>None\<close> is a walk that never ends.

  Of the system call \<open>sbrk\<close> a program sees \<open>sys_sbrk\<close>'s result: the previous end of its memory, or
  -1 when the kernel refuses; \<open>grow\<close> says which of the two happens.
\<close>

section \<open>The allocator\<close>

record uheap =
  h_ptr :: "nat \<Rightarrow> nat"
  h_size :: "nat \<Rightarrow> nat"
  h_base :: nat
  freep :: nat
  brk :: nat

definition set_ptr :: "nat \<Rightarrow> nat \<Rightarrow> uheap \<Rightarrow> uheap" where
  "set_ptr p q s = s\<lparr>h_ptr := (h_ptr s)(p := q)\<rparr>"

definition set_size :: "nat \<Rightarrow> nat \<Rightarrow> uheap \<Rightarrow> uheap" where
  "set_size p n s = s\<lparr>h_size := (h_size s)(p := n mod 2 ^ 32)\<rparr>"

partial_function (option) free_find :: "nat \<Rightarrow> nat \<Rightarrow> uheap \<Rightarrow> nat option" where
  "free_find bp p s =
     (if bp > p \<and> bp < h_ptr s p then Some p
      else if p \<ge> h_ptr s p \<and> (bp > p \<or> bp < h_ptr s p) then Some p
      else free_find bp (h_ptr s p) s)"

definition join_next :: "nat \<Rightarrow> nat \<Rightarrow> uheap \<Rightarrow> uheap" where
  "join_next bp p s =
     (if bp + 8 * h_size s bp = h_ptr s p then
        let s = set_size bp (h_size s bp + h_size s (h_ptr s p)) s
        in set_ptr bp (h_ptr s (h_ptr s p)) s
      else set_ptr bp (h_ptr s p) s)"

definition join_prev :: "nat \<Rightarrow> nat \<Rightarrow> uheap \<Rightarrow> uheap" where
  "join_prev bp p s =
     (if p + 8 * h_size s p = bp then
        let s = set_size p (h_size s p + h_size s bp) s
        in set_ptr p (h_ptr s bp) s
      else set_ptr p bp s)"

definition free :: "nat \<Rightarrow> uheap \<Rightarrow> uheap option" where
  "free ap s =
     (let bp = ap - 8
      in Option.bind (free_find bp (freep s) s) (\<lambda>p.
         Some ((join_prev bp p (join_next bp p s))\<lparr>freep := p\<rparr>)))"

text \<open>\<open>sbrk\<close> takes a signed byte count, so a large unsigned one shrinks the memory.\<close>

definition sbrk :: "(nat \<Rightarrow> int \<Rightarrow> bool) \<Rightarrow> nat \<Rightarrow> uheap \<Rightarrow> nat option \<times> uheap" where
  "sbrk grow n s =
     (let i = sint (of_nat n :: u32)
      in if grow (brk s) i then (Some (brk s), s\<lparr>brk := nat (int (brk s) + i)\<rparr>) else (None, s))"

definition morecore :: "(nat \<Rightarrow> int \<Rightarrow> bool) \<Rightarrow> nat \<Rightarrow> uheap \<Rightarrow> (nat \<times> uheap) option" where
  "morecore grow nu s =
     (let nu = (if nu < 4096 then 4096 else nu)
      in case sbrk grow (nu * 8 mod 2 ^ 32) s of
           (None, s) \<Rightarrow> Some (0, s)
         | (Some hp, s) \<Rightarrow>
             Option.bind (free (hp + 8) (set_size hp nu s)) (\<lambda>s. Some (freep s, s)))"

definition take_block :: "nat \<Rightarrow> nat \<Rightarrow> nat \<Rightarrow> uheap \<Rightarrow> nat \<times> uheap" where
  "take_block nunits prevp p s =
     (if h_size s p = nunits then (p + 8, (set_ptr prevp (h_ptr s p) s)\<lparr>freep := prevp\<rparr>)
      else
        let s = set_size p (h_size s p - nunits) s;
            p = p + 8 * h_size s p
        in (p + 8, (set_size p nunits s)\<lparr>freep := prevp\<rparr>))"

partial_function (option) malloc_loop ::
  "(nat \<Rightarrow> int \<Rightarrow> bool) \<Rightarrow> nat \<Rightarrow> nat \<Rightarrow> nat \<Rightarrow> uheap \<Rightarrow> (nat \<times> uheap) option" where
  "malloc_loop grow nunits prevp p s =
     (if h_size s p \<ge> nunits then Some (take_block nunits prevp p s)
      else if p = freep s then
        Option.bind (morecore grow nunits s) (\<lambda>r.
          if fst r = 0 then Some (0, snd r)
          else malloc_loop grow nunits (fst r) (h_ptr (snd r) (fst r)) (snd r))
      else malloc_loop grow nunits p (h_ptr s p) s)"

definition nunits_of :: "nat \<Rightarrow> nat" where
  "nunits_of nbytes = (nbytes + 7) mod 2 ^ 32 div 8 + 1"

definition malloc_init :: "uheap \<Rightarrow> uheap" where
  "malloc_init s =
     (if freep s = 0 then
        set_size (h_base s) 0 ((set_ptr (h_base s) (h_base s) s)\<lparr>freep := h_base s\<rparr>)
      else s)"

definition malloc :: "(nat \<Rightarrow> int \<Rightarrow> bool) \<Rightarrow> nat \<Rightarrow> uheap \<Rightarrow> (nat \<times> uheap) option" where
  "malloc grow nbytes s =
     (let nunits = nunits_of nbytes;
          s = malloc_init s
      in malloc_loop grow nunits (freep s) (h_ptr s (freep s)) s)"

section \<open>The free list\<close>

type_synonym block = "nat \<times> nat"

text \<open>\<open>hop f a xs b\<close>: following \<open>f\<close> from \<open>a\<close> visits \<open>xs\<close> in this order and then arrives at \<open>b\<close>.\<close>

primrec hop :: "(nat \<Rightarrow> nat) \<Rightarrow> nat \<Rightarrow> nat list \<Rightarrow> nat \<Rightarrow> bool" where
  "hop f a [] b \<longleftrightarrow> f a = b"
| "hop f a (x # xs) b \<longleftrightarrow> f a = x \<and> hop f x xs b"

lemma hop_append [simp]: "hop f a (xs @ y # ys) b \<longleftrightarrow> hop f a xs y \<and> hop f y ys b"
  by (induction xs arbitrary: a) auto

lemma hop_other [simp]: "u \<noteq> a \<Longrightarrow> u \<notin> set xs \<Longrightarrow> hop (f(u := v)) a xs b \<longleftrightarrow> hop f a xs b"
  by (induction xs arbitrary: a) auto

lemma hop_redirect:
  "hop f a xs b \<Longrightarrow> distinct (a # xs) \<Longrightarrow> p = last (a # xs) \<Longrightarrow> hop (f(p := c)) a xs c"
  by (induction xs arbitrary: a) auto

lemma hop_step: "hop f a xs b \<Longrightarrow> q \<in> set (a # xs) \<Longrightarrow> f q \<in> set (xs @ [b])"
  by (induction xs arbitrary: a) auto

lemma hop_last: "hop f a xs b \<Longrightarrow> f (last (a # xs)) = b"
  by (induction xs arbitrary: a) auto

lemma hop_hd: "hop f a xs b \<Longrightarrow> f a = hd (xs @ [b])"
  by (cases xs) auto

lemma hop_split:
  "hop f a (xs @ ys) b \<longleftrightarrow> hop f a xs (hd (ys @ [b])) \<and> hop f (last (a # xs)) ys b"
  by (induction xs arbitrary: a) (auto dest: hop_hd)

lemma hop_same: "hop f a xs b \<Longrightarrow> f c = f a \<Longrightarrow> hop f c xs b"
  by (cases xs) auto

lemma hop_pred:
  assumes "hop f a (xs @ y # ys) b" "distinct (a # xs @ y # ys)" "y \<noteq> b"
    "q \<in> set (a # xs @ y # ys)" "f q = y"
  shows "q = last (a # xs)"
  using assms
proof (induction xs arbitrary: a)
  case Nil
  then show ?case using hop_step [of f y ys b q] by auto
next
  case (Cons x xs)
  from Cons.prems have "q \<noteq> a" by auto
  with Cons show ?case by auto
qed

text \<open>A circular walk can start anywhere.\<close>

lemma hop_rotate:
  assumes "hop f a xs a" "q \<in> set (a # xs)" "distinct (a # xs)"
  shows "\<exists>ws. hop f q ws q \<and> set (q # ws) = set (a # xs) \<and> distinct (q # ws)"
proof (cases "q = a")
  case True
  with assms show ?thesis by auto
next
  case False
  with assms(2) obtain us vs where xs: "xs = us @ q # vs" by (auto simp: in_set_conv_decomp)
  with assms show ?thesis by (intro exI [of _ "vs @ a # us"]) auto
qed

section \<open>Blocks\<close>

definition apart :: "block \<Rightarrow> block \<Rightarrow> bool" where
  "apart x y \<longleftrightarrow> fst x + 8 * snd x \<le> fst y \<or> fst y + 8 * snd y \<le> fst x"

definition before :: "block \<Rightarrow> block \<Rightarrow> bool" where
  "before x y \<longleftrightarrow> fst x + 8 * snd x < fst y"

text \<open>Put a block in front of the free blocks above it, joined to the first of them if they touch.\<close>

fun absorb :: "block \<Rightarrow> block list \<Rightarrow> block list" where
  "absorb b [] = [b]"
| "absorb b (y # ys) =
     (if fst b + 8 * snd b = fst y then (fst b, snd b + snd y) # ys else b # y # ys)"

definition insert_block :: "block \<Rightarrow> block list \<Rightarrow> block list \<Rightarrow> block list" where
  "insert_block b xs ys =
     (if xs = [] then absorb b ys else butlast xs @ absorb (last xs) (absorb b ys))"

definition units :: "block list \<Rightarrow> nat" where "units bs = sum_list (map snd bs)"

lemma units_simps [simp]:
  "units [] = 0" "units (b # bs) = snd b + units bs" "units (bs @ cs) = units bs + units cs"
  by (simp_all add: units_def)

lemma units_absorb [simp]: "units (absorb b ys) = snd b + units ys"
  by (cases ys) auto

lemma units_insert: "units (insert_block b xs ys) = units xs + snd b + units ys"
  by (cases xs rule: rev_cases) (auto simp: insert_block_def)

lemma absorb_head: "\<exists>m ys'. absorb b ys = (fst b, m) # ys' \<and> snd b \<le> m"
  by (cases b; cases ys) auto

lemma absorb_sorted:
  assumes "sorted_wrt before ys" "\<forall>y\<in>set ys. fst b + 8 * snd b \<le> fst y" "\<forall>y\<in>set ys. 0 < snd y"
  shows "sorted_wrt before (absorb b ys)"
  using assms by (cases ys) (fastforce simp: before_def)+

lemma absorb_above:
  "\<forall>y\<in>set ys. e \<le> fst y \<Longrightarrow> e \<le> fst b \<Longrightarrow> \<forall>y\<in>set (absorb b ys). e \<le> fst y"
  by (cases ys) auto

lemma absorb_all:
  assumes "P b" "\<And>y. y \<in> set ys \<Longrightarrow> P y"
    "\<And>x y. P x \<Longrightarrow> P y \<Longrightarrow> fst x + 8 * snd x = fst y \<Longrightarrow> P (fst x, snd x + snd y)"
  shows "\<forall>y\<in>set (absorb b ys). P y"
proof (cases ys)
  case Nil
  with assms(1) show ?thesis by simp
next
  case (Cons y list)
  with assms(1,2) assms(3) [of b y] show ?thesis by auto
qed

section \<open>Well-formed heaps\<close>

text \<open>
  \<open>fl\<close> are the free blocks in the order of the list and \<open>A\<close> the allocated ones. The list starts at
  \<open>base\<close>, is sorted by address, and no two free blocks touch; all blocks lie between \<open>base\<close> and the
  end of memory, do not overlap, and carry their size.
\<close>

definition ring_ok :: "block list \<Rightarrow> uheap \<Rightarrow> bool" where
  "ring_ok fl s \<longleftrightarrow>
     hop (h_ptr s) (h_base s) (map fst fl) (h_base s) \<and> freep s \<in> set (h_base s # map fst fl) \<and>
     h_size s (h_base s) = 0 \<and> 0 < h_base s"

definition block_ok :: "uheap \<Rightarrow> block \<Rightarrow> bool" where
  "block_ok s b \<longleftrightarrow>
     h_size s (fst b) = snd b \<and> 0 < snd b \<and> h_base s + 8 \<le> fst b \<and> fst b + 8 * snd b \<le> brk s"

definition blocks_ok :: "block list \<Rightarrow> block list \<Rightarrow> uheap \<Rightarrow> bool" where
  "blocks_ok fl A s \<longleftrightarrow>
     list_all (block_ok s) (fl @ A) \<and> sorted_wrt before fl \<and> sorted_wrt apart A \<and>
     list_all (\<lambda>x. list_all (apart x) A) fl \<and> h_base s + 8 \<le> brk s \<and> brk s \<le> 2 ^ 31"

definition heap_ok :: "block list \<Rightarrow> block list \<Rightarrow> uheap \<Rightarrow> bool" where
  "heap_ok fl A s \<longleftrightarrow> ring_ok fl s \<and> blocks_ok fl A s"

definition fresh_heap :: "uheap \<Rightarrow> bool" where
  "fresh_heap s \<longleftrightarrow> freep s = 0 \<and> 0 < h_base s \<and> h_base s + 8 \<le> brk s \<and> brk s \<le> 2 ^ 31"

lemma apart_sym: "apart x y \<longleftrightarrow> apart y x"
  by (auto simp: apart_def)

lemma blocks_okD:
  assumes "blocks_ok fl A s"
  shows "b \<in> set fl \<Longrightarrow> block_ok s b" "b \<in> set A \<Longrightarrow> block_ok s b" "sorted_wrt before fl"
    "sorted_wrt apart A" "x \<in> set fl \<Longrightarrow> y \<in> set A \<Longrightarrow> apart x y" "h_base s + 8 \<le> brk s"
    "brk s \<le> 2 ^ 31"
  using assms by (auto simp: blocks_ok_def list_all_iff)

lemma before_distinct:
  "sorted_wrt before fl \<Longrightarrow> list_all (block_ok s) fl \<Longrightarrow> distinct (h_base s # map fst fl)"
  by (induction fl) (fastforce simp: before_def block_ok_def)+

lemma before_sorted:
  "sorted_wrt before fl \<Longrightarrow> list_all (block_ok s) fl \<Longrightarrow> sorted_wrt (<) (h_base s # map fst fl)"
  by (induction fl) (fastforce simp: before_def block_ok_def)+

lemma blocks_ok_distinct: "blocks_ok fl A s \<Longrightarrow> distinct (h_base s # map fst fl)"
  by (rule before_distinct) (auto simp: blocks_ok_def)

section \<open>Freeing\<close>

text \<open>The walk of \<open>free\<close> ends at the last header below the block.\<close>

lemma free_find_step:
  "\<lbrakk>\<not> (p < bp \<and> bp < h_ptr s p); \<not> (h_ptr s p \<le> p \<and> (p < bp \<or> bp < h_ptr s p))\<rbrakk> \<Longrightarrow>
   free_find bp p s = free_find bp (h_ptr s p) s"
  by (subst free_find.simps) auto

lemma free_find_low:
  assumes "hop (h_ptr s) a xs c" "sorted_wrt (<) (a # xs)" "\<forall>x\<in>set (a # xs). x < bp" "bp < c \<or> c \<le> a"
    "q \<in> set (a # xs)"
  shows "free_find bp q s = Some (last (a # xs))"
  using assms
proof (induction xs arbitrary: a q)
  case Nil
  then show ?case by (subst free_find.simps) auto
next
  case (Cons x xs)
  have x: "free_find bp q s = Some (last (x # xs))" if "q \<in> set (x # xs)" for q
    using Cons.prems that by (intro Cons.IH) auto
  show ?case
  proof (cases "q = a")
    case True
    with Cons.prems have "free_find bp q s = free_find bp x s"
      by (subst free_find.simps) auto
    with x show ?thesis by simp
  next
    case False
    with Cons.prems x show ?thesis by simp
  qed
qed

lemma free_find_high:
  assumes "hop (h_ptr s) a ys b" "sorted_wrt (<) (a # ys)" "\<forall>y\<in>set (a # ys). bp < y" "b < bp"
    "q \<in> set (a # ys)"
  shows "free_find bp q s = free_find bp b s"
  using assms
proof (induction ys arbitrary: a q)
  case Nil
  then show ?case by (subst free_find.simps) auto
next
  case (Cons y ys)
  have y: "free_find bp q s = free_find bp b s" if "q \<in> set (y # ys)" for q
    using Cons.prems that by (intro Cons.IH) auto
  show ?case
  proof (cases "q = a")
    case True
    with Cons.prems have "free_find bp q s = free_find bp y s"
      by (subst free_find.simps) auto
    with y show ?thesis by simp
  next
    case False
    with Cons.prems y show ?thesis by simp
  qed
qed

lemma free_find_ok:
  assumes "ring_ok (xs @ ys) s" "blocks_ok (xs @ ys) A s"
    "\<forall>x\<in>set xs. fst x < bp" "\<forall>y\<in>set ys. bp < fst y" "h_base s < bp"
  shows "free_find bp (freep s) s = Some (last (h_base s # map fst xs))"
proof -
  have srt: "sorted_wrt (<) (h_base s # map fst (xs @ ys))"
    using assms(2) by (intro before_sorted) (auto simp: blocks_ok_def)
  show ?thesis
  proof (cases ys)
    case Nil
    with assms srt show ?thesis
      by (intro free_find_low [where c = "h_base s"]) (auto simp: ring_ok_def)
  next
    case (Cons y ys')
    with assms(1) have h: "hop (h_ptr s) (h_base s) (map fst xs) (fst y)"
      "hop (h_ptr s) (fst y) (map fst ys') (h_base s)" by (auto simp: ring_ok_def)
    have low: "free_find bp q s = Some (last (h_base s # map fst xs))"
      if "q \<in> set (h_base s # map fst xs)" for q
      using assms that srt Cons
      by (intro free_find_low [OF h(1)]) (auto simp: sorted_wrt_append)
    show ?thesis
    proof (cases "freep s \<in> set (h_base s # map fst xs)")
      case False
      with assms Cons srt have "free_find bp (freep s) s = free_find bp (h_base s) s"
        by (intro free_find_high [OF h(2)]) (auto simp: sorted_wrt_append ring_ok_def)
      with low show ?thesis by simp
    qed (rule low)
  qed
qed

text \<open>What the two joins write.\<close>

lemma join_next_eq:
  assumes "h_ptr s p = hd (map fst ys @ [h_base s])"
    "hop (h_ptr s) p (map fst ys) (h_base s)"
    "\<forall>y\<in>set ys. h_size s (fst y) = snd y" "bp + 8 * h_size s bp \<noteq> h_base s"
    "h_size s bp + units ys < 2 ^ 32" "bp \<notin> set (map fst ys)"
  shows "join_next bp p s = s\<lparr>h_size := (h_size s)(bp := snd (hd (absorb (bp, h_size s bp) ys))),
     h_ptr := (h_ptr s)(bp := hd (map fst (tl (absorb (bp, h_size s bp) ys)) @ [h_base s]))\<rparr>"
proof (cases ys)
  case Nil
  with assms show ?thesis by (simp add: join_next_def set_ptr_def)
next
  case (Cons y ys')
  with assms(2) have "h_ptr s (fst y) = hd (map fst ys' @ [h_base s])"
    by (cases ys') auto
  with assms Cons show ?thesis
    by (auto simp: join_next_def set_ptr_def set_size_def Let_def)
qed

lemma absorb_hop:
  assumes "hop f p (map fst ys) b" "absorb (bp, n) ys = c # ys1"
    "p \<notin> set (map fst ys)" "bp \<notin> set (map fst ys)" "distinct (map fst ys)" "p \<noteq> bp"
  shows "hop (f(bp := hd (map fst ys1 @ [b]))) bp (map fst ys1) b \<and> fst c = bp \<and>
     set (map fst ys1) \<subseteq> set (map fst ys)"
  using assms by (cases ys; cases ys1) (auto split: if_splits)

text \<open>What \<open>free\<close> writes, and the ring it leaves.\<close>

lemma join_eq:
  assumes "hop (h_ptr s) p (map fst ys) (h_base s)" "\<forall>y\<in>set ys. h_size s (fst y) = snd y"
    "bp + 8 * h_size s bp \<noteq> h_base s" "h_size s p + h_size s bp + units ys < 2 ^ 32"
    "bp \<notin> set (map fst ys)" "p \<noteq> bp" "absorb (bp, h_size s bp) ys = (bp, m) # ys1"
    "nxt = hd (map fst ys1 @ [h_base s])"
  shows "join_prev bp p (join_next bp p s) =
     (if p + 8 * h_size s p = bp
      then s\<lparr>h_size := (h_size s)(bp := m, p := h_size s p + m), h_ptr := (h_ptr s)(bp := nxt, p := nxt)\<rparr>
      else s\<lparr>h_size := (h_size s)(bp := m), h_ptr := (h_ptr s)(bp := nxt, p := bp)\<rparr>)"
proof -
  have "join_next bp p s = s\<lparr>h_size := (h_size s)(bp := m), h_ptr := (h_ptr s)(bp := nxt)\<rparr>"
    using join_next_eq [OF hop_hd [OF assms(1)] assms(1-3)] assms(4-) by simp
  moreover have "h_size s p + m < 2 ^ 32"
    using assms(4) units_absorb [of "(bp, h_size s bp)" ys] assms(7) by simp
  ultimately show ?thesis
    using assms(6) by (simp add: join_prev_def set_ptr_def set_size_def)
qed

lemma join_hop:
  fixes s :: uheap
  assumes "hop (h_ptr s) (h_base s) (map fst (xs @ ys)) (h_base s)"
    "distinct (h_base s # map fst (xs @ ys))" "bp \<notin> set (h_base s # map fst (xs @ ys))"
    and p: "p = last (h_base s # map fst xs)" and c: "absorb (bp, n) ys = (bp, m) # ys1"
    and nxt: "nxt = hd (map fst ys1 @ [h_base s])"
  shows "hop ((h_ptr s)(bp := nxt, p := v)) (h_base s) (map fst xs) v"
    "hop ((h_ptr s)(bp := nxt, p := v)) bp (map fst ys1) (h_base s)"
    "hop (h_ptr s) p (map fst ys) (h_base s)" "p \<notin> set (map fst ys)" "p \<noteq> bp"
    "set (map fst ys1) \<subseteq> set (map fst ys)"
proof -
  have pm: "p \<in> set (h_base s # map fst xs)" unfolding p by (rule last_in_set) simp
  show pn: "p \<notin> set (map fst ys)" "p \<noteq> bp" using pm assms(2,3) by (auto simp: image_iff)
  have h1: "hop (h_ptr s) (h_base s) (map fst xs) (hd (map fst ys @ [h_base s]))"
    and h: "hop (h_ptr s) p (map fst ys) (h_base s)"
    using assms(1) by (simp_all add: hop_split p)
  show "hop (h_ptr s) p (map fst ys) (h_base s)" by (rule h)
  show "hop ((h_ptr s)(bp := nxt, p := v)) (h_base s) (map fst xs) v"
    using h1 assms(2,3) by (intro hop_redirect [OF _ _ p]) auto
  have ab: "hop ((h_ptr s)(bp := nxt)) bp (map fst ys1) (h_base s)"
    "set (map fst ys1) \<subseteq> set (map fst ys)"
    using absorb_hop [OF h c pn(1) _ _ pn(2)] assms(2,3) nxt by auto
  then have "p \<notin> set (map fst ys1)" using pn by blast
  with ab show "set (map fst ys1) \<subseteq> set (map fst ys)"
    and "hop ((h_ptr s)(bp := nxt, p := v)) bp (map fst ys1) (h_base s)"
    using hop_other [OF pn(2)] by auto
qed

lemma insert_block_snoc:
  "absorb b ys = (bp, m) # ys1 \<Longrightarrow>
   insert_block b (xs @ [x]) ys =
     (if fst x + 8 * snd x = bp then xs @ (fst x, snd x + m) # ys1 else xs @ x # (bp, m) # ys1)"
  by (simp add: insert_block_def)

definition linked :: "uheap \<Rightarrow> nat \<Rightarrow> nat \<Rightarrow> block list \<Rightarrow> uheap \<Rightarrow> bool" where
  "linked s p bp fl t \<longleftrightarrow>
     ring_ok fl t \<and> (\<forall>y\<in>set fl. h_size t (fst y) = snd y) \<and>
     (\<forall>a. a \<noteq> p \<and> a \<noteq> bp \<longrightarrow> h_size t a = h_size s a) \<and> h_base t = h_base s \<and> brk t = brk s"

lemma join_ring:
  fixes s :: uheap
  assumes ring: "ring_ok (xs @ ys) s" and dist: "distinct (h_base s # map fst (xs @ ys))"
    and bp: "bp \<notin> set (h_base s # map fst (xs @ ys))" "bp + 8 * h_size s bp \<noteq> h_base s"
    and sz: "\<forall>y\<in>set (xs @ ys). h_size s (fst y) = snd y"
      "units xs + h_size s bp + units ys < 2 ^ 32"
    and p: "p = last (h_base s # map fst xs)"
  shows "linked s p bp (insert_block (bp, h_size s bp) xs ys)
     ((join_prev bp p (join_next bp p s))\<lparr>freep := p\<rparr>)"
proof -
  obtain m ys1 where c: "absorb (bp, h_size s bp) ys = (bp, m) # ys1"
    using absorb_head [of "(bp, h_size s bp)" ys] by auto
  define nxt where "nxt = hd (map fst ys1 @ [h_base s])"
  have hb: "hop (h_ptr s) (h_base s) (map fst (xs @ ys)) (h_base s)" "h_size s (h_base s) = 0"
    "0 < h_base s" using ring by (auto simp: ring_ok_def)
  note j = join_hop [OF hb(1) dist bp(1) p c nxt_def]
  have sz1: "\<forall>y\<in>set ys1. h_size s (fst y) = snd y"
    using c sz(1) by (cases ys) (auto split: if_splits)
  have "h_size s p + h_size s bp + units ys < 2 ^ 32"
    using sz p hb(2) by (cases xs rule: rev_cases) auto
  then have t: "join_prev bp p (join_next bp p s) = (if p + 8 * h_size s p = bp
      then s\<lparr>h_size := (h_size s)(bp := m, p := h_size s p + m), h_ptr := (h_ptr s)(bp := nxt, p := nxt)\<rparr>
      else s\<lparr>h_size := (h_size s)(bp := m), h_ptr := (h_ptr s)(bp := nxt, p := bp)\<rparr>)"
    using bp sz(1) by (intro join_eq [OF j(3) _ _ _ _ j(5) c nxt_def]) auto
  show ?thesis
  proof (cases xs rule: rev_cases)
    case Nil
    then show ?thesis
      unfolding t using p hb bp(1) c j(2) [of bp] sz1 j(6)
      by (auto simp: linked_def insert_block_def ring_ok_def)
  next
    case (snoc xs' x)
    then have px: "p = fst x" "h_size s p = snd x" and nb: "p \<noteq> h_base s"
      using p sz(1) dist by auto
    have "p \<notin> fst ` (set xs' \<union> set ys1)" "bp \<notin> fst ` (set xs' \<union> set ys1)"
      using snoc px dist bp(1) j(4,6) by auto
    then have ne: "fst y \<noteq> p \<and> fst y \<noteq> bp \<and> h_size s (fst y) = snd y" if "y \<in> set xs' \<union> set ys1" for y
      using that snoc sz(1) sz1 by (metis UnE Un_iff imageI set_append)
    have "hop ((h_ptr s)(bp := nxt, p := nxt)) p (map fst ys1) (h_base s)"
      by (rule hop_same [OF j(2)]) simp
    then show ?thesis
      unfolding t using snoc px nb hb bp(1) ne j(1) [of nxt] j(1) [of bp] j(2) [of bp] j(5)
      by (simp add: linked_def insert_block_snoc [OF c] ring_ok_def hop_split nxt_def ball_Un)
  qed
qed

lemma insert_all:
  assumes "P b" "\<forall>y\<in>set xs. P y" "\<forall>y\<in>set ys. P y"
    "\<And>x y. P x \<Longrightarrow> P y \<Longrightarrow> fst x + 8 * snd x = fst y \<Longrightarrow> P (fst x, snd x + snd y)"
  shows "\<forall>y\<in>set (insert_block b xs ys). P y"
proof -
  have ab: "\<forall>y\<in>set (absorb c zs). P y" if "P c" "\<forall>y\<in>set zs. P y" for c zs
    by (rule absorb_all [of P, OF that(1) _ assms(4)]) (rule that(2) [rule_format])
  have ys: "\<forall>y\<in>set (absorb b ys). P y" by (rule ab [OF assms(1,3)])
  show ?thesis
  proof (cases xs rule: rev_cases)
    case Nil
    with ys show ?thesis by (simp add: insert_block_def)
  next
    case (snoc xs' x)
    with assms(2) have "P x" "\<forall>y\<in>set xs'. P y" by simp_all
    with snoc ab [OF this(1) ys] show ?thesis by (simp add: insert_block_def ball_Un)
  qed
qed

lemma absorb_fst: "fst ` set (absorb c zs) \<subseteq> insert (fst c) (fst ` set zs)"
  by (cases zs) auto

lemma insert_fst: "fst ` set (insert_block b xs ys) \<subseteq> fst ` set (b # xs @ ys)"
proof (cases xs rule: rev_cases)
  case Nil
  with absorb_fst [of b ys] show ?thesis by (auto simp: insert_block_def)
next
  case (snoc us c)
  have "fst ` set (absorb c (absorb b ys)) \<subseteq> insert (fst c) (insert (fst b) (fst ` set ys))"
    using absorb_fst [of c "absorb b ys"] absorb_fst [of b ys] by (meson insert_mono order_trans)
  then show ?thesis by (auto simp: snoc insert_block_def image_Un simp del: absorb.simps)
qed

lemma insert_big: "\<exists>x\<in>set (insert_block b xs ys). snd b \<le> snd x"
proof -
  have "\<exists>x\<in>set (absorb c zs). n \<le> snd x" if "\<exists>x\<in>set (c # zs). n \<le> snd x" for c zs and n :: nat
    using that by (cases zs) auto
  from this [of b ys "snd b"] this [of "last xs" "absorb b ys" "snd b"] show ?thesis
    by (auto simp: insert_block_def)
qed

lemma insert_sorted:
  assumes "sorted_wrt before (xs @ ys)" "\<forall>x\<in>set xs. fst x + 8 * snd x \<le> fst b"
    "\<forall>y\<in>set ys. fst b + 8 * snd b \<le> fst y" "\<forall>x\<in>set (b # xs @ ys). 0 < snd x"
  shows "sorted_wrt before (insert_block b xs ys)"
proof (cases xs rule: rev_cases)
  case Nil
  with assms show ?thesis unfolding insert_block_def by (simp add: absorb_sorted)
next
  case (snoc xs' x)
  have b: "sorted_wrt before (absorb b ys)" using assms by (intro absorb_sorted) (auto simp: sorted_wrt_append)
  have x: "\<forall>y\<in>set (absorb b ys). fst x + 8 * snd x \<le> fst y"
    using assms snoc by (intro absorb_above) (auto simp: sorted_wrt_append before_def)
  have pos: "\<forall>y\<in>set (absorb b ys). 0 < snd y" using assms by (intro absorb_all) auto
  have "\<forall>y\<in>set (absorb x (absorb b ys)). fst x \<le> fst y"
    by (rule absorb_above) (use x in auto)
  then have "\<forall>w\<in>set xs'. \<forall>y\<in>set (absorb x (absorb b ys)). before w y"
    using assms(1) snoc by (fastforce simp: sorted_wrt_append before_def)
  then show ?thesis
    using assms(1) snoc absorb_sorted [OF b x pos]
    by (simp add: insert_block_def sorted_wrt_append)
qed

lemma units_le:
  "\<lbrakk>sorted_wrt before fl; \<forall>x\<in>set fl. l \<le> fst x \<and> fst x + 8 * snd x \<le> e; l \<le> e\<rbrakk> \<Longrightarrow> l + 8 * units fl \<le> e"
proof (induction fl arbitrary: l)
  case (Cons x fl)
  then have "(fst x + 8 * snd x) + 8 * units fl \<le> e"
    by (intro Cons.IH) (auto simp: before_def)
  with Cons.prems show ?case by simp
qed simp

lemma dropWhile_high:
  assumes "sorted_wrt (<) (map fst xs)" "y \<in> set (dropWhile (\<lambda>x. fst x < (b :: nat)) xs)"
  shows "b \<le> fst y"
  using assms
proof (induction xs)
  case (Cons x xs)
  show ?case
  proof (cases "fst x < b")
    case False
    with Cons.prems have "y = x \<or> fst x < fst y" by auto
    with False show ?thesis by auto
  qed (use Cons in simp)
qed simp

text \<open>A block that is neither free nor allocated can be given to \<open>free\<close>.\<close>

definition spare :: "block \<Rightarrow> block list \<Rightarrow> block list \<Rightarrow> uheap \<Rightarrow> bool" where
  "spare b fl A s \<longleftrightarrow> block_ok s b \<and> list_all (apart b) (fl @ A)"

lemma spare_split:
  assumes "blocks_ok fl A s" "spare b fl A s"
  obtains xs ys where "fl = xs @ ys" "\<forall>x\<in>set xs. fst x + 8 * snd x \<le> fst b"
    "\<forall>y\<in>set ys. fst b + 8 * snd b \<le> fst y"
proof
  let ?P = "\<lambda>x. fst x < fst b"
  have pos: "0 < snd x \<and> apart b x" if "x \<in> set fl" for x
    using assms that by (simp add: spare_def blocks_ok_def list_all_iff block_ok_def)
  have posb: "0 < snd b" using assms by (simp add: spare_def block_ok_def)
  have srt: "sorted_wrt (<) (map fst fl)"
    using before_sorted [of fl s] assms(1) by (auto simp: blocks_ok_def)
  show "fl = takeWhile ?P fl @ dropWhile ?P fl" by simp
  show "\<forall>x\<in>set (takeWhile ?P fl). fst x + 8 * snd x \<le> fst b"
  proof
    fix x
    assume "x \<in> set (takeWhile ?P fl)"
    then have "x \<in> set fl" "fst x < fst b" by (auto dest: set_takeWhileD)
    with pos [of x] show "fst x + 8 * snd x \<le> fst b" by (simp add: apart_def)
  qed
  show "\<forall>y\<in>set (dropWhile ?P fl). fst b + 8 * snd b \<le> fst y"
  proof
    fix y
    assume y: "y \<in> set (dropWhile ?P fl)"
    have "y \<in> set fl" "fst b \<le> fst y" using dropWhile_high [OF srt y] set_dropWhileD [OF y] by auto
    with pos [of y] posb show "fst b + 8 * snd b \<le> fst y" by (auto simp: apart_def)
  qed
qed

lemma apart_join:
  "\<lbrakk>apart x z; apart y z; fst x + 8 * snd x = fst y; 0 < snd z\<rbrakk> \<Longrightarrow> apart (fst x, snd x + snd y) z"
  by (auto simp: apart_def)

lemma spare_bound:
  assumes "blocks_ok (xs @ ys) A s" "spare b (xs @ ys) A s" "\<forall>x\<in>set xs. fst x + 8 * snd x \<le> fst b"
    "\<forall>y\<in>set ys. fst b + 8 * snd b \<le> fst y"
  shows "sorted_wrt before (insert_block b xs ys)" "units xs + snd b + units ys < 2 ^ 32"
    "\<forall>x\<in>set (insert_block b xs ys). 0 < snd x \<and> h_base s + 8 \<le> fst x \<and> fst x + 8 * snd x \<le> brk s"
proof -
  let ?fl = "insert_block b xs ys"
  let ?P = "\<lambda>x. 0 < snd x \<and> h_base s + 8 \<le> fst x \<and> fst x + 8 * snd x \<le> brk s"
  have P: "?P b" "\<forall>x\<in>set xs. ?P x" "\<forall>x\<in>set ys. ?P x"
    using assms(1,2) by (auto simp: blocks_ok_def spare_def block_ok_def list_all_iff)
  show srt: "sorted_wrt before ?fl"
    using assms P by (intro insert_sorted) (auto simp: blocks_ok_def)
  show all: "\<forall>x\<in>set ?fl. ?P x" by (rule insert_all [OF P]) auto
  have "0 + 8 * units ?fl \<le> brk s" using srt all by (intro units_le) auto
  moreover have "brk s \<le> 2 ^ 31" using assms(1) by (simp add: blocks_ok_def)
  ultimately show "units xs + snd b + units ys < 2 ^ 32" by (simp add: units_insert)
qed

lemma apart_fst: "apart x y \<Longrightarrow> 0 < snd x \<Longrightarrow> 0 < snd y \<Longrightarrow> fst x \<noteq> fst y"
  by (auto simp: apart_def)

lemma linked_blocks:
  assumes bl: "blocks_ok (xs @ ys) A s" and b: "spare b (xs @ ys) A s"
    and lk: "linked s p (fst b) (insert_block b xs ys) t" and p: "p = last (h_base s # map fst xs)"
    and srt: "sorted_wrt before (insert_block b xs ys)"
    and all: "\<forall>x\<in>set (insert_block b xs ys). 0 < snd x \<and> h_base s + 8 \<le> fst x \<and> fst x + 8 * snd x \<le> brk s"
  shows "blocks_ok (insert_block b xs ys) A t"
proof -
  have A: "block_ok t z" "\<forall>x\<in>set (insert_block b xs ys). apart x z" if z: "z \<in> set A" for z
  proof -
    have zok: "block_ok s z" and bz: "apart b z" and xz: "\<forall>x\<in>set (xs @ ys). apart x z \<and> 0 < snd x"
      using z b blocks_okD(1,2,5) [OF bl] by (auto simp: spare_def list_all_iff block_ok_def)
    then have pos: "0 < snd z" "0 < snd b" "h_base s < fst z"
      using b by (auto simp: block_ok_def spare_def)
    show "\<forall>x\<in>set (insert_block b xs ys). apart x z"
      using bz xz pos(1) by (intro insert_all apart_join) auto
    have "p \<in> set (h_base s # map fst xs)" unfolding p by (rule last_in_set) simp
    then have "p = h_base s \<or> (\<exists>x\<in>set xs. p = fst x)" by auto
    moreover have "fst x \<noteq> fst z" if "x \<in> set xs" for x
      using that xz pos(1) apart_fst [of x z] by simp
    ultimately have "fst z \<noteq> p" using pos(3) by force
    moreover have "fst z \<noteq> fst b" using apart_fst [OF bz pos(2,1)] by simp
    ultimately show "block_ok t z" using zok lk by (simp add: block_ok_def linked_def)
  qed
  have "\<forall>x\<in>set (insert_block b xs ys). block_ok t x"
    using all lk by (simp add: block_ok_def linked_def)
  with A srt lk blocks_okD(4,6,7) [OF bl] show ?thesis
    by (simp add: blocks_ok_def list_all_iff linked_def ball_Un)
qed

lemma free_spare:
  assumes h: "heap_ok fl A s" and b: "spare b fl A s"
  shows "\<exists>fl' t. free (fst b + 8) s = Some t \<and> heap_ok fl' A t \<and> units fl' = units fl + snd b \<and>
     (\<exists>x\<in>set fl'. snd b \<le> snd x) \<and> fst ` set fl' \<subseteq> fst ` set (b # fl) \<and> h_base t = h_base s \<and> brk t = brk s"
proof -
  obtain bp n where bn: "b = (bp, n)" by (cases b)
  have ring: "ring_ok fl s" and bl: "blocks_ok fl A s" using h by (auto simp: heap_ok_def)
  obtain xs ys where fl: "fl = xs @ ys" and lo: "\<forall>x\<in>set xs. fst x + 8 * snd x \<le> fst b"
    and hi: "\<forall>y\<in>set ys. fst b + 8 * snd b \<le> fst y" by (rule spare_split [OF bl b])
  define p where "p = last (h_base s # map fst xs)"
  define t where "t = (join_prev bp p (join_next bp p s))\<lparr>freep := p\<rparr>"
  let ?fl = "insert_block b xs ys"
  note sb = spare_bound [OF bl [unfolded fl] b [unfolded fl] lo hi]
  have bok: "h_size s bp = n" "0 < n" "h_base s + 8 \<le> bp"
    using b bn by (auto simp: spare_def block_ok_def)
  have lo': "\<forall>x\<in>set xs. fst x < bp" and hi': "\<forall>y\<in>set ys. bp < fst y"
    using blocks_okD(1) [OF bl] lo hi bok bn by (fastforce simp: fl block_ok_def)+
  have "free_find bp (freep s) s = Some p"
    unfolding p_def using ring bl bok lo' hi' by (intro free_find_ok) (auto simp: fl)
  then have "free (fst b + 8) s = Some t" by (simp add: free_def bn t_def)
  moreover have lk: "linked s p bp ?fl t"
    unfolding t_def bn bok(1) [symmetric]
  proof (rule join_ring [OF ring [unfolded fl] _ _ _ _ _ p_def])
    show "distinct (h_base s # map fst (xs @ ys))" using blocks_ok_distinct [OF bl] fl by simp
    show "\<forall>y\<in>set (xs @ ys). h_size s (fst y) = snd y"
      using bl by (auto simp: fl blocks_ok_def list_all_iff block_ok_def)
  qed (use bok lo' hi' sb(2) bn in auto)
  moreover have "blocks_ok ?fl A t"
    using bl b lk p_def bn sb by (intro linked_blocks) (auto simp: fl)
  ultimately show ?thesis
    using insert_big [of b xs ys] insert_fst [of b xs ys]
    by (intro exI [of _ ?fl] exI [of _ t]) (simp add: linked_def heap_ok_def units_insert fl)
qed

text \<open>An allocated block is spare once it is no longer counted as allocated.\<close>

lemma allocated_spare:
  assumes "heap_ok fl A s" "b \<in> set A"
  shows "heap_ok fl (remove1 b A) s \<and> spare b fl (remove1 b A) s"
proof -
  have bl: "blocks_ok fl A s" using assms(1) by (simp add: heap_ok_def)
  obtain us vs where A: "A = us @ b # vs" and us: "b \<notin> set us"
    using assms(2) by (meson split_list_first)
  then have r: "remove1 b A = us @ vs" by (simp add: remove1_append)
  have "\<forall>y\<in>set (us @ vs). apart b y"
    using blocks_okD(4) [OF bl] apart_sym by (auto simp: A sorted_wrt_append)
  moreover have "\<forall>x\<in>set fl. apart b x"
    using blocks_okD(5) [OF bl _ assms(2)] apart_sym by blast
  ultimately show ?thesis
    unfolding r using assms(1) blocks_okD(2) [OF bl assms(2)]
    by (auto simp: heap_ok_def blocks_ok_def spare_def A sorted_wrt_append list_all_iff)
qed

section \<open>Allocating\<close>

text \<open>The search of \<open>malloc\<close> goes once around the ring.\<close>

lemma malloc_loop_found:
  assumes "hop (h_ptr s) q ws f" "f = freep s" "f \<notin> set ws" "\<exists>x\<in>set (ws @ [f]). nu \<le> h_size s x"
  shows "\<exists>q' p. q' \<in> set (q # ws) \<and> p \<in> set (ws @ [f]) \<and> h_ptr s q' = p \<and> nu \<le> h_size s p \<and>
     malloc_loop grow nu q (h_ptr s q) s = Some (take_block nu q' p s)"
  using assms
proof (induction ws arbitrary: q)
  case Nil
  then show ?case by (subst malloc_loop.simps) auto
next
  case (Cons w ws)
  show ?case
  proof (cases "nu \<le> h_size s w")
    case True
    with Cons.prems show ?thesis by (subst malloc_loop.simps) auto
  next
    case False
    with Cons.prems have "malloc_loop grow nu q (h_ptr s q) s = malloc_loop grow nu w (h_ptr s w) s"
      by (subst malloc_loop.simps) auto
    moreover have "\<exists>q' p. q' \<in> set (w # ws) \<and> p \<in> set (ws @ [f]) \<and> h_ptr s q' = p \<and> nu \<le> h_size s p \<and>
        malloc_loop grow nu w (h_ptr s w) s = Some (take_block nu q' p s)"
      using Cons.prems False by (intro Cons.IH) auto
    ultimately show ?thesis by auto
  qed
qed

lemma malloc_loop_grow:
  assumes "hop (h_ptr s) q ws f" "f = freep s" "f \<notin> set ws" "\<forall>x\<in>set (ws @ [f]). h_size s x < nu"
  shows "malloc_loop grow nu q (h_ptr s q) s = Option.bind (morecore grow nu s) (\<lambda>r.
     if fst r = 0 then Some (0, snd r)
     else malloc_loop grow nu (fst r) (h_ptr (snd r) (fst r)) (snd r))"
  using assms
proof (induction ws arbitrary: q)
  case Nil
  then show ?case by (subst malloc_loop.simps) auto
next
  case (Cons w ws)
  then have "malloc_loop grow nu q (h_ptr s q) s = malloc_loop grow nu w (h_ptr s w) s"
    by (subst malloc_loop.simps) auto
  with Cons show ?case by simp
qed

text \<open>Taking a block out of the ring, or the tail of it.\<close>

definition taken :: "uheap \<Rightarrow> block list \<Rightarrow> block list \<Rightarrow> nat \<Rightarrow> nat \<times> uheap \<Rightarrow> bool" where
  "taken s fl A nu r \<longleftrightarrow>
     (\<exists>fl'. heap_ok fl' ((fst r - 8, nu) # A) (snd r) \<and> 8 \<le> fst r \<and> units fl = units fl' + nu \<and>
        (\<forall>l. (\<forall>y\<in>set fl. l \<le> fst y) \<longrightarrow> l \<le> fst r - 8 \<and> (\<forall>x\<in>set fl'. l \<le> fst x)) \<and>
        brk (snd r) = brk s \<and> h_base (snd r) = h_base s)"

lemma pred_split:
  assumes "ring_ok (xs @ x # ys) s" "distinct (h_base s # map fst (xs @ x # ys))"
    "q \<in> set (h_base s # map fst (xs @ x # ys))" "h_ptr s q = fst x"
  shows "q = last (h_base s # map fst xs)"
  using assms by (intro hop_pred [where f = "h_ptr s" and y = "fst x" and ys = "map fst ys" and b = "h_base s"])
    (auto simp: ring_ok_def)

lemma before_apart: "before x y \<Longrightarrow> apart x y"
  by (simp add: before_def apart_def)

lemma sorted_apart:
  assumes "sorted_wrt before (xs @ x # ys)"
  shows "y \<in> set (xs @ ys) \<Longrightarrow> apart y x"
  using assms before_apart [of x y] before_apart [of y x] apart_sym [of x y]
  by (auto simp: sorted_wrt_append)

lemma inside_apart:
  "\<lbrakk>apart y x; fst x \<le> a; a + 8 * m \<le> fst x + 8 * snd x\<rbrakk> \<Longrightarrow> apart y (a, m)"
  by (auto simp: apart_def)

lemma take_exact:
  assumes h: "heap_ok (xs @ x # ys) A s" and q: "q = last (h_base s # map fst xs)"
  shows "taken s (xs @ x # ys) A (snd x) (take_block (snd x) q (fst x) s)"
proof -
  have ring: "ring_ok (xs @ x # ys) s" and bl: "blocks_ok (xs @ x # ys) A s"
    using h by (auto simp: heap_ok_def)
  let ?t = "s\<lparr>h_ptr := (h_ptr s)(q := h_ptr s (fst x)), freep := q\<rparr>"
  have dist: "distinct (h_base s # map fst (xs @ x # ys))" by (rule blocks_ok_distinct [OF bl])
  have x: "block_ok s x" using blocks_okD(1) [OF bl] by simp
  have qm: "q \<in> set (h_base s # map fst xs)" unfolding q by (rule last_in_set) simp
  have h1: "hop (h_ptr s) (h_base s) (map fst xs) (fst x)" "hop (h_ptr s) (fst x) (map fst ys) (h_base s)"
    using ring by (auto simp: ring_ok_def)
  have qn: "q \<notin> set (fst x # map fst ys)" using qm dist by (auto simp: image_iff)
  have "hop (h_ptr ?t) (h_base s) (map fst xs) (h_ptr s (fst x))"
    using h1(1) dist by (simp del: last.simps add: hop_redirect [OF _ _ q])
  moreover have "hop (h_ptr ?t) q (map fst ys) (h_base s)"
    by (rule hop_same [of _ "fst x"]) (use h1(2) qn in auto)
  ultimately have "ring_ok (xs @ ys) ?t"
    using ring qm hop_hd [OF h1(2)] by (auto simp: ring_ok_def hop_split q [symmetric] simp del: last.simps)
  moreover have "blocks_ok (xs @ ys) (x # A) ?t"
    using bl sorted_apart [of xs x ys]
    by (auto simp: blocks_ok_def list_all_iff block_ok_def sorted_wrt_append)
  ultimately show ?thesis
    using x unfolding taken_def
    by (intro exI [of _ "xs @ ys"]) (simp add: take_block_def block_ok_def set_ptr_def heap_ok_def)
qed

lemma take_split:
  assumes h: "heap_ok (xs @ x # ys) A s" and q: "q \<in> set (h_base s # map fst (xs @ x # ys))"
    and nu: "0 < nu" "nu < snd x"
  shows "taken s (xs @ x # ys) A nu (take_block nu q (fst x) s)"
proof -
  have ring: "ring_ok (xs @ x # ys) s" and bl: "blocks_ok (xs @ x # ys) A s"
    using h by (auto simp: heap_ok_def)
  define a where "a = fst x + 8 * (snd x - nu)"
  let ?x = "(fst x, snd x - nu)" and ?t = "s\<lparr>h_size := (h_size s)(fst x := snd x - nu, a := nu), freep := q\<rparr>"
  have x: "block_ok s x" using blocks_okD(1) [OF bl] by simp
  then have xb: "h_size s (fst x) = snd x" "h_base s < fst x" "fst x + 8 * snd x \<le> brk s"
    "fst x < a" "a + 8 * nu \<le> fst x + 8 * snd x" using nu by (auto simp: block_ok_def a_def)
  have tb: "take_block nu q (fst x) s = (a + 8, ?t)"
    using nu xb(1,3) blocks_okD(7) [OF bl]
    by (simp add: take_block_def set_size_def a_def Let_def)
  have other: "apart y (a, nu) \<and> apart y ?x \<and> block_ok ?t y" if "y \<in> set (xs @ ys) \<union> set A" for y
  proof -
    have y: "block_ok s y" "apart y x"
      using that blocks_okD(1) [OF bl, of y] blocks_okD(2) [OF bl, of y] blocks_okD(5) [OF bl, of x y]
        sorted_apart [OF blocks_okD(3) [OF bl], of y] apart_sym [of x y] by auto
    then have "fst y \<noteq> fst x" "fst y \<noteq> a"
      using apart_fst [OF y(2)] nu xb(4,5) by (auto simp: block_ok_def apart_def)
    with y xb nu show ?thesis by (auto simp: block_ok_def intro: inside_apart)
  qed
  have "ring_ok (xs @ ?x # ys) ?t"
    using ring q xb(2,4) by (auto simp: ring_ok_def)
  moreover have "blocks_ok (xs @ ?x # ys) ((a, nu) # A) ?t"
  proof -
    have "apart ?x (a, nu)" by (simp add: apart_def a_def)
    moreover have "block_ok ?t ?x" "block_ok ?t (a, nu)"
      using x nu xb by (auto simp: block_ok_def)
    moreover have "sorted_wrt before (xs @ ?x # ys)"
      using blocks_okD(3) [OF bl] by (auto simp: sorted_wrt_append before_def)
    moreover have "\<forall>y\<in>set A. apart (a, nu) y \<and> apart ?x y" using other apart_sym by blast
    ultimately show ?thesis
      using bl other by (simp add: blocks_ok_def list_all_iff ball_Un)
  qed
  ultimately show ?thesis
    using nu xb(4) unfolding taken_def
    by (intro exI [of _ "xs @ ?x # ys"]) (simp add: tb heap_ok_def)
qed

lemma ring_walk:
  assumes "heap_ok fl A s"
  obtains ws where "hop (h_ptr s) (freep s) ws (freep s)" "distinct (freep s # ws)"
    "set (freep s # ws) = set (h_base s # map fst fl)"
  using assms hop_rotate [OF _ _ blocks_ok_distinct, of "h_ptr s" s fl "freep s" A]
  by (auto simp: heap_ok_def ring_ok_def)

lemma heap_freep:
  assumes "heap_ok fl A s"
  shows "freep s \<noteq> 0"
proof -
  have "0 < a" if "a \<in> set (h_base s # map fst fl)" for a
    using that assms blocks_okD(1) [of fl A s] by (fastforce simp: heap_ok_def ring_ok_def block_ok_def)
  with assms show ?thesis unfolding heap_ok_def ring_ok_def by blast
qed

lemma malloc_found:
  assumes h: "heap_ok fl A s" and nu: "0 < nu" "\<exists>x\<in>set fl. nu \<le> snd x"
  shows "\<exists>r. malloc_loop grow nu (freep s) (h_ptr s (freep s)) s = Some r \<and> taken s fl A nu r"
proof -
  have ring: "ring_ok fl s" and bl: "blocks_ok fl A s" using h by (auto simp: heap_ok_def)
  note dist = blocks_ok_distinct [OF bl]
  obtain ws where ws: "hop (h_ptr s) (freep s) ws (freep s)" "distinct (freep s # ws)"
      "set (freep s # ws) = set (h_base s # map fst fl)" by (rule ring_walk [OF h])
  have sz: "h_size s (fst x) = snd x" if "x \<in> set fl" for x
    using blocks_okD(1) [OF bl that] by (simp add: block_ok_def)
  have "\<exists>x\<in>set (h_base s # map fst fl). nu \<le> h_size s x" using nu(2) sz by auto
  then have "\<exists>x\<in>set (ws @ [freep s]). nu \<le> h_size s x" unfolding ws(3) [symmetric] by auto
  then obtain q p where qp: "q \<in> set (freep s # ws)" "p \<in> set (ws @ [freep s])" "h_ptr s q = p"
      "nu \<le> h_size s p" "malloc_loop grow nu (freep s) (h_ptr s (freep s)) s = Some (take_block nu q p s)"
    using malloc_loop_found [OF ws(1) refl, of nu grow] ws(2) by auto
  have "p \<in> set (freep s # ws)" using qp(2) by auto
  then have "p \<in> fst ` set fl" using qp(4) nu(1) ring unfolding ws(3) by (auto simp: ring_ok_def)
  then obtain x xs ys where x: "fl = xs @ x # ys" "p = fst x" by (auto dest: split_list)
  have q: "q \<in> set (h_base s # map fst (xs @ x # ys))" using qp(1) unfolding ws(3) x(1) .
  have "taken s fl A nu (take_block nu q p s)"
  proof (cases "snd x = nu")
    case True
    have "q = last (h_base s # map fst xs)"
      using pred_split [OF _ _ q] ring dist qp(3) x by simp
    with True take_exact h x show ?thesis by blast
  next
    case False
    with qp(4) sz [of x] x have "nu < snd x" by simp
    with take_split [OF _ q nu(1)] h x show ?thesis by simp
  qed
  with qp(5) show ?thesis by blast
qed

lemma sint_small: "n < 2 ^ 31 \<Longrightarrow> sint (of_nat n :: u32) = int n"
  by (simp add: sint_uint unsigned_of_nat take_bit_nat_eq_self signed_take_bit_int_eq_self)

lemma sbrk_grown:
  assumes h: "heap_ok fl A s" and n: "0 < n" "8 * n < 2 ^ 31" "brk s + 8 * n \<le> 2 ^ 31"
  defines "t \<equiv> set_size (brk s) n (s\<lparr>brk := brk s + 8 * n\<rparr>)"
  shows "heap_ok fl A t \<and> spare (brk s, n) fl A t"
proof -
  have bl: "blocks_ok fl A s" and ring: "ring_ok fl s" using h by (auto simp: heap_ok_def)
  have t: "h_ptr t = h_ptr s" "h_size t = (h_size s)(brk s := n)" "h_base t = h_base s" "freep t = freep s"
    "brk t = brk s + 8 * n" using n by (simp_all add: t_def set_size_def)
  have b: "block_ok t x \<and> apart (brk s, n) x" if "x \<in> set fl \<union> set A" for x
  proof -
    have "block_ok s x" using that blocks_okD(1) [OF bl, of x] blocks_okD(2) [OF bl, of x] by auto
    then show ?thesis by (auto simp: block_ok_def t apart_def)
  qed
  moreover have "block_ok t (brk s, n)" using n blocks_okD(6) [OF bl] by (simp add: block_ok_def t)
  moreover have "ring_ok fl t" using ring blocks_okD(6) [OF bl] by (simp add: ring_ok_def t)
  ultimately show ?thesis
    using bl n by (simp add: heap_ok_def blocks_ok_def spare_def list_all_iff ball_Un t)
qed

definition grows_below :: "(nat \<Rightarrow> int \<Rightarrow> bool) \<Rightarrow> bool" where
  "grows_below grow \<longleftrightarrow> (\<forall>b i. grow b i \<longrightarrow> int b + i \<le> 2 ^ 31)"

text \<open>The kernel has granted \<open>n\<close> units at the end of memory, and they are on the free list.\<close>

definition heap_grown :: "nat \<Rightarrow> block list \<Rightarrow> uheap \<Rightarrow> block list \<Rightarrow> uheap \<Rightarrow> bool" where
  "heap_grown n fl s fl' t \<longleftrightarrow>
     units fl' = units fl + n \<and> brk t = brk s + 8 * n \<and> fst ` set fl' \<subseteq> insert (brk s) (fst ` set fl)"

lemma morecore_ok:
  assumes h: "heap_ok fl A s" and nu: "8 * nu < 2 ^ 31" and g: "grows_below grow"
  shows "morecore grow nu s = Some (0, s) \<and> \<not> grow (brk s) (8 * int (max 4096 nu)) \<or>
    (\<exists>fl' t. morecore grow nu s = Some (freep t, t) \<and> heap_ok fl' A t \<and> (\<exists>x\<in>set fl'. nu \<le> snd x) \<and>
       grow (brk s) (8 * int (max 4096 nu)) \<and> heap_grown (max 4096 nu) fl s fl' t)"
proof -
  let ?n = "max 4096 nu"
  have n: "0 < ?n" "8 * ?n < 2 ^ 31" "(if nu < 4096 then 4096 else nu) = ?n" using nu by auto
  have si: "sint (of_nat (?n * 8 mod 2 ^ 32) :: u32) = 8 * int ?n"
    using sint_small [of "?n * 8"] n(2) by simp
  show ?thesis
  proof (cases "grow (brk s) (8 * int ?n)")
    case True
    let ?t = "set_size (brk s) ?n (s\<lparr>brk := brk s + 8 * ?n\<rparr>)"
    have "brk s + 8 * ?n \<le> 2 ^ 31" using g True unfolding grows_below_def by fastforce
    then have sp: "heap_ok fl A ?t" "spare (brk s, ?n) fl A ?t" using sbrk_grown [OF h n(1,2)] by auto
    obtain fl' t where t: "free (brk s + 8) ?t = Some t" "heap_ok fl' A t" "\<exists>x\<in>set fl'. ?n \<le> snd x"
        "units fl' = units fl + ?n" "fst ` set fl' \<subseteq> insert (brk s) (fst ` set fl)" "brk t = brk ?t"
      using free_spare [OF sp] by auto
    then have "heap_grown ?n fl s fl' t" by (simp add: heap_grown_def set_size_def)
    have "nat (int (brk s) + 8 * int ?n) = brk s + 8 * ?n" by simp
    with t True si n(3) have "morecore grow nu s = Some (freep t, t)"
      unfolding morecore_def sbrk_def Let_def n(3) si by simp
    with t(2,3) True \<open>heap_grown ?n fl s fl' t\<close> show ?thesis by (intro disjI2 exI [of _ fl'] exI [of _ t]) auto
  next
    case False
    then have "morecore grow nu s = Some (0, s)" unfolding morecore_def sbrk_def Let_def n(3) si by simp
    with False show ?thesis by blast
  qed
qed

text \<open>
  \<open>tight l\<close>: all blocks lie above \<open>l\<close>, and together they fill the memory from there to its end.
\<close>

definition tight :: "nat \<Rightarrow> block list \<Rightarrow> block list \<Rightarrow> uheap \<Rightarrow> bool" where
  "tight l fl A s \<longleftrightarrow>
     (\<forall>x\<in>set fl. l \<le> fst x) \<and> (\<forall>x\<in>set A. l \<le> fst x) \<and> l + 8 * (units fl + units A) = brk s"

lemma taken_tight:
  assumes "taken s fl A nu (r, t)"
  obtains fl' where "heap_ok fl' ((r - 8, nu) # A) t" "8 \<le> r" "brk t = brk s"
    "\<forall>l. tight l fl A s \<longrightarrow> tight l fl' ((r - 8, nu) # A) t"
proof -
  obtain fl' where *: "heap_ok fl' ((r - 8, nu) # A) t" "8 \<le> r" "units fl = units fl' + nu"
      "\<And>l. \<forall>y\<in>set fl. l \<le> fst y \<Longrightarrow> l \<le> r - 8 \<and> (\<forall>x\<in>set fl'. l \<le> fst x)" "brk t = brk s"
    using assms unfolding taken_def fst_conv snd_conv by blast
  have "tight l fl' ((r - 8, nu) # A) t" if "tight l fl A s" for l
    using that *(3,5) *(4) [of l] by (simp add: tight_def)
  with *(1,2,5) that show ?thesis by blast
qed

lemma heap_grown_tight:
  assumes "heap_grown n fl s fl' t" "tight l fl A s"
  shows "tight l fl' A t"
proof -
  have "l \<le> a" if "a \<in> insert (brk s) (fst ` set fl)" for a
    using that assms(2) unfolding tight_def by auto
  with assms show ?thesis unfolding heap_grown_def tight_def by (fastforce simp: algebra_simps)
qed

text \<open>
  What \<open>malloc\<close> promises for \<open>nu\<close> units: a block, or 0 if no free block is large enough and the
  kernel refuses more memory. Memory grows by at least 32 KB at a time.
\<close>

definition alloc_ok ::
  "(nat \<Rightarrow> int \<Rightarrow> bool) \<Rightarrow> nat \<Rightarrow> block list \<Rightarrow> block list \<Rightarrow> uheap \<Rightarrow> nat \<Rightarrow> uheap \<Rightarrow> bool" where
  "alloc_ok grow nu fl A s r t \<longleftrightarrow>
     (if r = 0 then t = s \<and> \<not> grow (brk s) (8 * int (max 4096 nu)) \<and> (\<forall>x\<in>set fl. snd x < nu)
      else 8 \<le> r \<and> (brk t = brk s \<or> brk s + 8 * 4096 \<le> brk t \<and> grow (brk s) (8 * int (max 4096 nu))) \<and>
        (\<exists>fl'. heap_ok fl' ((r - 8, nu) # A) t \<and> (\<forall>l. tight l fl A s \<longrightarrow> tight l fl' ((r - 8, nu) # A) t)))"

lemma malloc_loop_ok:
  assumes h: "heap_ok fl A s" and nu: "0 < nu" "8 * nu < 2 ^ 31" and g: "grows_below grow"
  shows "\<exists>r t. malloc_loop grow nu (freep s) (h_ptr s (freep s)) s = Some (r, t) \<and> alloc_ok grow nu fl A s r t"
proof (cases "\<exists>x\<in>set fl. nu \<le> snd x")
  case True
  then obtain r t where r: "malloc_loop grow nu (freep s) (h_ptr s (freep s)) s = Some (r, t)" "taken s fl A nu (r, t)"
    using malloc_found [OF h nu(1), of grow] by (metis surj_pair)
  from r(2) have "alloc_ok grow nu fl A s r t" by (elim taken_tight) (auto simp: alloc_ok_def)
  with r(1) show ?thesis by blast
next
  case False
  have ring: "ring_ok fl s" and bl: "blocks_ok fl A s" using h by (auto simp: heap_ok_def)
  obtain ws where ws: "hop (h_ptr s) (freep s) ws (freep s)" "distinct (freep s # ws)"
      "set (freep s # ws) = set (h_base s # map fst fl)" by (rule ring_walk [OF h])
  have "\<forall>x\<in>set (h_base s # map fst fl). h_size s x < nu"
    using False ring nu(1) blocks_okD(1) [OF bl] by (fastforce simp: ring_ok_def block_ok_def)
  then have "\<forall>x\<in>set (ws @ [freep s]). h_size s x < nu" unfolding ws(3) [symmetric] by auto
  then have eq: "malloc_loop grow nu (freep s) (h_ptr s (freep s)) s =
      Option.bind (morecore grow nu s) (\<lambda>r. if fst r = 0 then Some (0, snd r)
        else malloc_loop grow nu (fst r) (h_ptr (snd r) (fst r)) (snd r))"
    using ws by (intro malloc_loop_grow) auto
  from morecore_ok [OF h nu(2) g] consider
      "morecore grow nu s = Some (0, s)" "\<not> grow (brk s) (8 * int (max 4096 nu))"
    | fl' t where "morecore grow nu s = Some (freep t, t)" "heap_ok fl' A t" "\<exists>x\<in>set fl'. nu \<le> snd x"
        "grow (brk s) (8 * int (max 4096 nu))" "heap_grown (max 4096 nu) fl s fl' t"
    by blast
  then show ?thesis
  proof cases
    case 1
    with eq False show ?thesis by (auto simp: alloc_ok_def not_le)
  next
    case 2
    obtain r u where r: "malloc_loop grow nu (freep t) (h_ptr t (freep t)) t = Some (r, u)" "taken t fl' A nu (r, u)"
      using malloc_found [OF 2(2) nu(1) 2(3), of grow] by (metis surj_pair)
    obtain fl'' where "heap_ok fl'' ((r - 8, nu) # A) u" "8 \<le> r" "brk u = brk t"
        "\<forall>l. tight l fl' A t \<longrightarrow> tight l fl'' ((r - 8, nu) # A) u" by (rule taken_tight [OF r(2)])
    moreover have "brk s + 8 * 4096 \<le> brk t" using 2(5) by (simp add: heap_grown_def)
    ultimately have "alloc_ok grow nu fl A s r u"
      using heap_grown_tight [OF 2(5), of _ A] 2(4) by (auto simp: alloc_ok_def)
    with 2(1) heap_freep [OF 2(2)] r(1) eq show ?thesis by auto
  qed
qed

lemma malloc_init_ok:
  assumes "fresh_heap s \<and> fl = [] \<and> A = [] \<or> heap_ok fl A s"
  shows "heap_ok fl A (malloc_init s) \<and> brk (malloc_init s) = brk s"
proof (cases "heap_ok fl A s")
  case True
  with heap_freep [OF True] show ?thesis by (simp add: malloc_init_def)
next
  case False
  with assms have "fresh_heap s" "fl = []" "A = []" by auto
  then show ?thesis
    by (simp add: fresh_heap_def malloc_init_def heap_ok_def ring_ok_def blocks_ok_def set_ptr_def set_size_def)
qed

lemma nunits_bounds: "n + 15 < 2 ^ 31 \<Longrightarrow> 0 < nunits_of n \<and> 8 * nunits_of n < 2 ^ 31 \<and> n \<le> 8 * (nunits_of n - 1)"
  using div_mult_mod_eq [of "n + 7" 8] mod_less_divisor [of 8 "n + 7"]
  by (simp add: nunits_of_def) linarith

lemma malloc_ok:
  assumes "fresh_heap s \<and> fl = [] \<and> A = [] \<or> heap_ok fl A s" "n + 15 < 2 ^ 31" "grows_below grow"
  shows "\<exists>r t. malloc grow n s = Some (r, t) \<and> alloc_ok grow (nunits_of n) fl A (malloc_init s) r t"
  using malloc_loop_ok [of fl A "malloc_init s" "nunits_of n" grow] malloc_init_ok [OF assms(1)]
    nunits_bounds [OF assms(2)] assms(3) by (simp add: malloc_def Let_def)

text \<open>
  C16. \<open>malloc\<close> on a well-formed heap always returns. It returns 0 only if the kernel refused more
  memory, and then the heap is unchanged as far as the program can tell. Otherwise the block it
  returns has room for the bytes asked for, lies inside the memory of the program, and overlaps
  neither an allocated block nor a free one, and the heap is well formed again.
\<close>

theorem malloc_fresh_block:
  assumes "fresh_heap s \<and> fl = [] \<and> A = [] \<or> heap_ok fl A s" "n + 15 < 2 ^ 31" "grows_below grow"
  shows "\<exists>r t fl'. malloc grow n s = Some (r, t) \<and>
     (if r = 0 then heap_ok fl' A t \<and> \<not> grow (brk s) (8 * int (max 4096 (nunits_of n)))
      else heap_ok fl' ((r - 8, nunits_of n) # A) t \<and> n \<le> 8 * (nunits_of n - 1))"
proof -
  have "heap_ok fl A (malloc_init s)" "brk (malloc_init s) = brk s" using malloc_init_ok [OF assms(1)] by auto
  with malloc_ok [OF assms] nunits_bounds [OF assms(2)] show ?thesis
    unfolding alloc_ok_def by (smt (verit, best))
qed

text \<open>
  C17. \<open>free\<close> of an allocated block returns, and the heap is well formed with that block no longer
  allocated: the free list is again sorted, no two free blocks touch, and not a unit is lost.
\<close>

theorem free_keeps_heap:
  assumes "heap_ok fl A s" "b \<in> set A"
  shows "\<exists>fl' t. free (fst b + 8) s = Some t \<and> heap_ok fl' (remove1 b A) t \<and> units fl' = units fl + snd b"
  using allocated_spare [OF assms] free_spare by blast

text \<open>
  \<open>malloc\<close> of a size in the last seven below \<open>2 ^ 32\<close> wraps around: the program gets a block without a
  single usable byte.
\<close>

lemma malloc_size_wraps:
  assumes "heap_ok fl A s" "fl \<noteq> []" "2 ^ 32 - 7 \<le> n" "n < 2 ^ 32"
  shows "\<exists>r t fl'. malloc grow n s = Some (r, t) \<and> heap_ok fl' ((r - 8, 1) # A) t \<and> 8 \<le> r"
proof -
  have "nunits_of n = 1"
  proof -
    obtain k where "n = 2 ^ 32 - 7 + k" "k < 7" using assms(3,4) le_Suc_ex by fastforce
    then show ?thesis by (simp add: nunits_of_def)
  qed
  moreover have "malloc_init s = s" using heap_freep [OF assms(1)] by (simp add: malloc_init_def)
  moreover have "\<exists>x\<in>set fl. 1 \<le> snd x"
    using assms(1,2) by (cases fl) (auto simp: heap_ok_def blocks_ok_def block_ok_def)
  ultimately show ?thesis
    using malloc_found [OF assms(1), of 1 grow] by (auto simp: malloc_def taken_def)
qed

text \<open>A request of 2 GB or more reaches \<open>sbrk\<close> as a negative number and shrinks the memory.\<close>

lemma sint_large:
  assumes "2 ^ 31 \<le> n" "n < 2 ^ 32"
  shows "sint (of_nat n :: u32) = int n - 2 ^ 32"
proof -
  have "uint (of_nat n :: u32) = int n"
    using assms(2) by (simp add: unsigned_of_nat take_bit_nat_eq_self)
  moreover have "int n div 2 ^ 31 = 1" using assms by (auto intro!: int_div_pos_eq [of _ _ _ "int n - 2 ^ 31"])
  then have "bit (int n) 31" by (simp add: bit_iff_odd)
  moreover have "take_bit 32 (int n) = int n" using assms(2) by (simp add: take_bit_int_eq_self_iff)
  ultimately show ?thesis by (simp add: sint_uint signed_take_bit_eq_take_bit_minus)
qed

lemma malloc_shrinks:
  assumes "2 ^ 31 \<le> 8 * nu" "8 * nu < 2 ^ 32" "grow (brk s) (8 * int nu - 2 ^ 32)"
  shows "brk (snd (sbrk grow (nu * 8 mod 2 ^ 32) s)) = brk s - (2 ^ 32 - 8 * nu)"
proof -
  have "sint (of_nat (nu * 8 mod 2 ^ 32) :: u32) = 8 * int nu - 2 ^ 32"
    using assms(1,2) sint_large [of "nu * 8"] by simp
  with assms show ?thesis by (simp add: sbrk_def nat_diff_distrib)
qed

definition sample_heap :: uheap where
  "sample_heap = \<lparr>h_ptr = \<lambda>_. 0, h_size = \<lambda>_. 0, h_base = 0x800, freep = 0, brk = 0x3000\<rparr>"

definition any_growth :: "nat \<Rightarrow> int \<Rightarrow> bool" where "any_growth b i \<longleftrightarrow> int b + i \<le> 2 ^ 31"

theorem malloc_fresh_block_witness:
  "\<exists>r t fl'. malloc any_growth 100 sample_heap = Some (r, t) \<and> r \<noteq> 0 \<and>
     heap_ok fl' [(r - 8, 14)] t \<and> 100 \<le> 8 * (14 - 1 :: nat)"
  using malloc_fresh_block [of sample_heap "[]" "[]" 100 any_growth]
  by (auto simp: fresh_heap_def sample_heap_def grows_below_def any_growth_def nunits_of_def split: if_splits)

definition one_block :: uheap where
  "one_block = \<lparr>h_ptr = \<lambda>_. 0x800, h_size = (\<lambda>_. 0)(0x2000 := 16), h_base = 0x800, freep = 0x800,
     brk = 0x3000\<rparr>"

theorem free_keeps_heap_witness:
  "\<exists>fl' t. free 0x2008 one_block = Some t \<and> heap_ok fl' [] t \<and> units fl' = 16"
  using free_keeps_heap [of "[]" "[(0x2000, 16)]" one_block "(0x2000, 16)"]
  by (simp add: heap_ok_def ring_ok_def blocks_ok_def block_ok_def one_block_def)

end
