(* ===== verification/Usertests.thy ===== *)
theory Usertests
  imports Uprogs Umalloc
begin

text \<open>
  The test program \<open>usertests.c\<close>. A test is a program over the system call interface: it makes its
  calls, compares the answers with what it expects, and prints a message and exits at the first
  answer that is wrong. The global buffer \<open>buf\<close> is an argument and a result of the tests that use
  it. The loops \<open>for(;;);\<close> of the tests do not end (\<open>None\<close>), and neither do loops that read for as
  long as the kernel delivers.

  The requests of \<open>malloc\<close> to the kernel are answered by \<open>grow\<close>, as in the model of the allocator.
\<close>

section \<open>Patterns of the tests\<close>

definition stdout :: int where "stdout = 1"

definition O_RDONLY :: u32 where "O_RDONLY = 0"

text \<open>Print a message and exit.\<close>

definition quit :: "os \<Rightarrow> int \<Rightarrow> string \<Rightarrow> parg list \<Rightarrow> 'a uprog" where
  "quit os fd msg ap = ubind (printf os fd msg ap) (\<lambda>_. exit_u os)"

definition do_u :: "os \<Rightarrow> sysreq \<Rightarrow> unit uprog" where
  "do_u os c = ubind (call os c) (\<lambda>_. ret ())"

text \<open>
  One step of a test: the request, the answers on which the test stops, and the message. The
  answers are the comparisons of the source with 0.
\<close>

datatype answer = Never | Negative | Nonzero | Zero | Nonneg

fun stops_on :: "answer \<Rightarrow> int \<Rightarrow> bool" where
  "stops_on Never r \<longleftrightarrow> False"
| "stops_on Negative r \<longleftrightarrow> r < 0"
| "stops_on Nonzero r \<longleftrightarrow> r \<noteq> 0"
| "stops_on Zero r \<longleftrightarrow> r = 0"
| "stops_on Nonneg r \<longleftrightarrow> r \<ge> 0"

type_synonym step = "sysreq \<times> answer \<times> string"

fun run_steps :: "os \<Rightarrow> step list \<Rightarrow> unit uprog" where
  "run_steps os [] = ret ()"
| "run_steps os ((c, a, msg) # ss) =
     ubind (call_int os c) (\<lambda>r.
     if stops_on a r then quit os 1 msg [] else run_steps os ss)"

text \<open>A step whose answer is used: an open file.\<close>

definition open_or :: "os \<Rightarrow> string \<Rightarrow> u32 \<Rightarrow> string \<Rightarrow> int uprog" where
  "open_or os path omode msg =
     ubind (call_int os (SYS_open path omode)) (\<lambda>fd. if fd < 0 then quit os 1 msg [] else ret fd)"

fun each :: "('a \<Rightarrow> unit uprog) \<Rightarrow> 'a list \<Rightarrow> unit uprog" where
  "each f [] = ret ()"
| "each f (x # xs) = ubind (f x) (\<lambda>_. each f xs)"

fun each_buf :: "('a \<Rightarrow> string \<Rightarrow> string uprog) \<Rightarrow> 'a list \<Rightarrow> string \<Rightarrow> string uprog" where
  "each_buf f [] buf = ret buf"
| "each_buf f (x # xs) buf = ubind (f x buf) (\<lambda>buf. each_buf f xs buf)"

text \<open>The buffer after a read, and after \<open>memset(buf, c, n)\<close>.\<close>

definition into :: "string \<Rightarrow> string \<Rightarrow> string" where
  "into bs buf = bs @ drop (length bs) buf"

definition fill :: "nat \<Rightarrow> char \<Rightarrow> string \<Rightarrow> string" where
  "fill n c buf = into (replicate n c) buf"

definition digit :: "nat \<Rightarrow> char" where "digit i = char_of (48 + i)"

text \<open>The value of a \<open>char\<close>, which is signed.\<close>

definition schar :: "char \<Rightarrow> int" where
  "schar c = sint (of_char c :: u8)"

definition spin_forever :: "'a uprog" where "spin_forever h = None"

section \<open>Directories and inodes\<close>

definition iputtest :: "os \<Rightarrow> unit uprog" where
  "iputtest os =
     ubind (printf os stdout ''iput test\<newline>'' []) (\<lambda>_.
     ubind (run_steps os
       [(SYS_mkdir ''iputdir'', Negative, ''mkdir failed\<newline>''),
        (SYS_chdir ''iputdir'', Negative, ''chdir iputdir failed\<newline>''),
        (SYS_unlink ''../iputdir'', Negative, ''unlink ../iputdir failed\<newline>''),
        (SYS_chdir ''/'', Negative, ''chdir / failed\<newline>'')]) (\<lambda>_.
     printf os stdout ''iput test ok\<newline>'' []))"

definition exitiputtest :: "os \<Rightarrow> unit uprog" where
  "exitiputtest os =
     ubind (printf os stdout ''exitiput test\<newline>'' []) (\<lambda>_.
     ubind (call_int os SYS_fork) (\<lambda>pid.
     if pid < 0 then quit os stdout ''fork failed\<newline>'' []
     else if pid = 0 then
       ubind (run_steps os
         [(SYS_mkdir ''iputdir'', Negative, ''mkdir failed\<newline>''),
          (SYS_chdir ''iputdir'', Negative, ''child chdir failed\<newline>''),
          (SYS_unlink ''../iputdir'', Negative, ''unlink ../iputdir failed\<newline>'')]) (\<lambda>_. exit_u os)
     else
       ubind (do_u os SYS_wait) (\<lambda>_. printf os stdout ''exitiput test ok\<newline>'' [])))"

definition openiputtest :: "os \<Rightarrow> unit uprog" where
  "openiputtest os =
     ubind (printf os stdout ''openiput test\<newline>'' []) (\<lambda>_.
     ubind (run_steps os [(SYS_mkdir ''oidir'', Negative, ''mkdir oidir failed\<newline>'')]) (\<lambda>_.
     ubind (call_int os SYS_fork) (\<lambda>pid.
     if pid < 0 then quit os stdout ''fork failed\<newline>'' []
     else if pid = 0 then
       ubind (run_steps os
         [(SYS_open ''oidir'' O_RDWR, Nonneg, ''open directory for write succeeded\<newline>'')]) (\<lambda>_. exit_u os)
     else
       ubind (run_steps os
         [(SYS_sleep 1, Never, []), (SYS_unlink ''oidir'', Nonzero, ''unlink failed\<newline>''),
          (SYS_wait, Never, [])]) (\<lambda>_.
       printf os stdout ''openiput test ok\<newline>'' []))))"

section \<open>Simple file system tests\<close>

definition opentest :: "os \<Rightarrow> unit uprog" where
  "opentest os =
     ubind (printf os stdout ''open test\<newline>'' []) (\<lambda>_.
     ubind (open_or os ''echo'' 0 ''open echo failed!\<newline>'') (\<lambda>fd.
     ubind (run_steps os
       [(SYS_close fd, Never, []),
        (SYS_open ''doesnotexist'' 0, Nonneg, ''open doesnotexist succeeded!\<newline>'')]) (\<lambda>_.
     printf os stdout ''open test ok\<newline>'' [])))"

definition write_ab :: "os \<Rightarrow> int \<Rightarrow> nat \<Rightarrow> unit uprog" where
  "write_ab os fd i =
     ubind (call_int os (SYS_write fd ''aaaaaaaaaa'')) (\<lambda>r.
     if r \<noteq> 10 then quit os stdout ''error: write aa %d new file failed\<newline>'' [PNum (of_nat i)]
     else
       ubind (call_int os (SYS_write fd ''bbbbbbbbbb'')) (\<lambda>r.
       if r \<noteq> 10 then quit os stdout ''error: write bb %d new file failed\<newline>'' [PNum (of_nat i)]
       else ret ()))"

definition writetest :: "os \<Rightarrow> string \<Rightarrow> string uprog" where
  "writetest os buf =
     ubind (printf os stdout ''small file test\<newline>'' []) (\<lambda>_.
     ubind (open_or os ''small'' (O_CREATE OR O_RDWR) ''error: creat small failed!\<newline>'') (\<lambda>fd.
     ubind (printf os stdout ''creat small succeeded; ok\<newline>'' []) (\<lambda>_.
     ubind (each (write_ab os fd) [0..<100]) (\<lambda>_.
     ubind (printf os stdout ''writes ok\<newline>'' []) (\<lambda>_.
     ubind (do_u os (SYS_close fd)) (\<lambda>_.
     ubind (open_or os ''small'' O_RDONLY ''error: open small failed!\<newline>'') (\<lambda>fd.
     ubind (printf os stdout ''open small succeeded ok\<newline>'' []) (\<lambda>_.
     ubind (read os fd 2000) (\<lambda>(i, bs).
     if i \<noteq> 2000 then quit os stdout ''read failed\<newline>'' []
     else
       ubind (printf os stdout ''read succeeded ok\<newline>'' []) (\<lambda>_.
       ubind (run_steps os
         [(SYS_close fd, Never, []), (SYS_unlink ''small'', Negative, ''unlink small failed\<newline>'')]) (\<lambda>_.
       ubind (printf os stdout ''small file test ok\<newline>'' []) (\<lambda>_. ret (into bs buf)))))))))))))"

text \<open>The first four bytes of the buffer as an \<open>int\<close>.\<close>

definition set_int :: "nat \<Rightarrow> string \<Rightarrow> string" where
  "set_int i buf = into (map (\<lambda>b. char_of (unat b)) (enc32 i)) buf"

definition get_int :: "string \<Rightarrow> u32" where
  "get_int buf = of_nat (dec32 (map of_char buf) 0)"

definition write_block1 :: "os \<Rightarrow> int \<Rightarrow> nat \<Rightarrow> string \<Rightarrow> string uprog" where
  "write_block1 os fd i buf =
     ubind (call_int os (SYS_write fd (take 512 (set_int i buf)))) (\<lambda>r.
     if r \<noteq> 512 then quit os stdout ''error: write big file failed\<newline>'' [PNum (of_nat i)]
     else ret (set_int i buf))"

partial_function (option) read_blocks1 :: "os \<Rightarrow> int \<Rightarrow> nat \<Rightarrow> string \<Rightarrow> hist \<Rightarrow> string uout option" where
  "read_blocks1 os fd n buf h =
     ubind (read os fd 512) (\<lambda>r.
     if fst r = 0 then
       if n = MAXFILE - 1 then quit os stdout ''read only %d blocks from big'' [PNum (of_nat n)]
       else ret buf
     else if fst r \<noteq> 512 then quit os stdout ''read failed %d\<newline>'' [PNum (word_of_int (fst r))]
     else if get_int (into (snd r) buf) \<noteq> of_nat n then
       quit os stdout ''read content of block %d is %d\<newline>''
         [PNum (of_nat n), PNum (get_int (into (snd r) buf))]
     else read_blocks1 os fd (n + 1) (into (snd r) buf)) h"

definition writetest1 :: "os \<Rightarrow> string \<Rightarrow> string uprog" where
  "writetest1 os buf =
     ubind (printf os stdout ''big files test\<newline>'' []) (\<lambda>_.
     ubind (open_or os ''big'' (O_CREATE OR O_RDWR) ''error: creat big failed!\<newline>'') (\<lambda>fd.
     ubind (each_buf (write_block1 os fd) [0..<MAXFILE] buf) (\<lambda>buf.
     ubind (do_u os (SYS_close fd)) (\<lambda>_.
     ubind (open_or os ''big'' O_RDONLY ''error: open big failed!\<newline>'') (\<lambda>fd.
     ubind (read_blocks1 os fd 0 buf) (\<lambda>buf.
     ubind (run_steps os
       [(SYS_close fd, Never, []), (SYS_unlink ''big'', Negative, ''unlink big failed\<newline>'')]) (\<lambda>_.
     ubind (printf os stdout ''big files ok\<newline>'' []) (\<lambda>_. ret buf))))))))"

definition createtest :: "os \<Rightarrow> unit uprog" where
  "createtest os =
     ubind (printf os stdout ''many creates, followed by unlink test\<newline>'' []) (\<lambda>_.
     ubind (each (\<lambda>i.
       ubind (call_int os (SYS_open [CHR ''a'', digit i] (O_CREATE OR O_RDWR))) (\<lambda>fd.
       do_u os (SYS_close fd))) [0..<52]) (\<lambda>_.
     ubind (each (\<lambda>i. do_u os (SYS_unlink [CHR ''a'', digit i])) [0..<52]) (\<lambda>_.
     printf os stdout ''many creates, followed by unlink; ok\<newline>'' [])))"

definition dirtest :: "os \<Rightarrow> unit uprog" where
  "dirtest os =
     ubind (printf os stdout ''mkdir test\<newline>'' []) (\<lambda>_.
     ubind (run_steps os
       [(SYS_mkdir ''dir0'', Negative, ''mkdir failed\<newline>''),
        (SYS_chdir ''dir0'', Negative, ''chdir dir0 failed\<newline>''),
        (SYS_chdir ''..'', Negative, ''chdir .. failed\<newline>''),
        (SYS_unlink ''dir0'', Negative, ''unlink dir0 failed\<newline>'')]) (\<lambda>_.
     printf os stdout ''mkdir test ok\<newline>'' []))"

definition echoargv :: "string list" where
  "echoargv = [''echo'', ''ALL'', ''TESTS'', ''PASSED'']"

definition exectest :: "os \<Rightarrow> unit uprog" where
  "exectest os =
     ubind (printf os stdout ''exec test\<newline>'' []) (\<lambda>_.
     ubind (exec_u os ''echo'' echoargv) (\<lambda>r.
     if r < 0 then quit os stdout ''exec echo failed\<newline>'' [] else ret ()))"

section \<open>Processes and pipes\<close>

text \<open>The bytes \<open>seq\<close>, \<open>seq + 1\<close>, ... of a buffer of \<open>char\<close>s.\<close>

definition counting :: "nat \<Rightarrow> nat \<Rightarrow> string" where
  "counting seq n = map (\<lambda>i. char_of (seq + i)) [0..<n]"

definition pipe1_write :: "os \<Rightarrow> int \<Rightarrow> nat \<Rightarrow> string \<Rightarrow> string uprog" where
  "pipe1_write os fd n buf =
     ubind (ret (into (counting (n * 1033) 1033) buf)) (\<lambda>buf.
     ubind (call_int os (SYS_write fd (take 1033 buf))) (\<lambda>r.
     if r \<noteq> 1033 then quit os 1 ''pipe1 oops 1\<newline>'' [] else ret buf))"

text \<open>
  The reader; \<open>seq\<close> and \<open>total\<close> both count the bytes read so far. The result is \<open>None\<close> after a
  wrong byte, when the test returns at once.
\<close>

partial_function (option) pipe1_read ::
  "os \<Rightarrow> int \<Rightarrow> nat \<Rightarrow> nat \<Rightarrow> string \<Rightarrow> hist \<Rightarrow> (nat option \<times> string) uout option" where
  "pipe1_read os fd seq cc buf h =
     ubind (read os fd cc) (\<lambda>r.
     if fst r > 0 then
       if snd r \<noteq> counting seq (length (snd r)) then
         ubind (printf os 1 ''pipe1 oops 2\<newline>'' []) (\<lambda>_. ret (None, into (snd r) buf))
       else pipe1_read os fd (seq + length (snd r)) (min (cc * 2) 8192) (into (snd r) buf)
     else ret (Some seq, buf)) h"

definition pipe1 :: "os \<Rightarrow> string \<Rightarrow> string uprog" where
  "pipe1 os buf =
     ubind (pipe_u os) (\<lambda>(r, rd, wr).
     if r \<noteq> 0 then quit os 1 ''pipe() failed\<newline>'' []
     else
       ubind (call_int os SYS_fork) (\<lambda>pid.
       if pid = 0 then
         ubind (do_u os (SYS_close rd)) (\<lambda>_.
         ubind (each_buf (pipe1_write os wr) [0..<5] buf) (\<lambda>_. exit_u os))
       else if pid > 0 then
         ubind (do_u os (SYS_close wr)) (\<lambda>_.
         ubind (pipe1_read os rd 0 1 buf) (\<lambda>(tot, buf).
         case tot of
           None \<Rightarrow> ret buf
         | Some tot \<Rightarrow>
             if tot \<noteq> 5 * 1033 then quit os 1 ''pipe1 oops 3 total %d\<newline>'' [PNum (of_nat tot)]
             else
               ubind (do_u os (SYS_close rd)) (\<lambda>_.
               ubind (do_u os SYS_wait) (\<lambda>_.
               ubind (printf os 1 ''pipe1 ok\<newline>'' []) (\<lambda>_. ret buf)))))
       else quit os 1 ''fork() failed\<newline>'' []))"

text \<open>
  The result of \<open>pipe\<close> is not looked at; without a pipe the descriptors are undefined, and so is
  the rest of the run.
\<close>

definition preempt :: "os \<Rightarrow> string \<Rightarrow> string uprog" where
  "preempt os buf =
     ubind (printf os 1 ''preempt: '' []) (\<lambda>_.
     ubind (call_int os SYS_fork) (\<lambda>pid1.
     if pid1 = 0 then spin_forever
     else
       ubind (call_int os SYS_fork) (\<lambda>pid2.
       if pid2 = 0 then spin_forever
       else
         ubind (pipe_u os) (\<lambda>(r, rd, wr).
         if r \<noteq> 0 then (\<lambda>_. None)
         else
           ubind (call_int os SYS_fork) (\<lambda>pid3.
           if pid3 = 0 then
             ubind (do_u os (SYS_close rd)) (\<lambda>_.
             ubind (call_int os (SYS_write wr ''x'')) (\<lambda>n.
             ubind (if n \<noteq> 1 then printf os 1 ''preempt write error'' [] else ret ()) (\<lambda>_.
             ubind (do_u os (SYS_close wr)) (\<lambda>_. spin_forever))))
           else
             ubind (do_u os (SYS_close wr)) (\<lambda>_.
             ubind (read os rd 8192) (\<lambda>(n, bs).
             if n \<noteq> 1 then
               ubind (printf os 1 ''preempt read error'' []) (\<lambda>_. ret (into bs buf))
             else
               ubind (do_u os (SYS_close rd)) (\<lambda>_.
               ubind (printf os 1 ''kill... '' []) (\<lambda>_.
               ubind (each (\<lambda>pid. do_u os (SYS_kill pid)) [pid1, pid2, pid3]) (\<lambda>_.
               ubind (printf os 1 ''wait... '' []) (\<lambda>_.
               ubind (each (\<lambda>_. do_u os SYS_wait) [0..<3]) (\<lambda>_.
               ubind (printf os 1 ''preempt ok\<newline>'' []) (\<lambda>_. ret (into bs buf))))))))))))))"

fun exitwait_loop :: "os \<Rightarrow> nat \<Rightarrow> unit uprog" where
  "exitwait_loop os 0 = printf os 1 ''exitwait ok\<newline>'' []"
| "exitwait_loop os (Suc k) =
     ubind (call_int os SYS_fork) (\<lambda>pid.
     if pid < 0 then printf os 1 ''fork failed\<newline>'' []
     else if pid \<noteq> 0 then
       ubind (call_int os SYS_wait) (\<lambda>r.
       if r \<noteq> pid then printf os 1 ''wait wrong pid\<newline>'' [] else exitwait_loop os k)
     else exit_u os)"

definition exitwait :: "os \<Rightarrow> unit uprog" where
  "exitwait os = exitwait_loop os 100"

section \<open>Memory\<close>

text \<open>
  The first word of every allocated block holds the address of the block before it: \<open>link m\<close> is
  the word at \<open>m\<close>.
\<close>

partial_function (option) mem_fill ::
  "(nat \<Rightarrow> int \<Rightarrow> bool) \<Rightarrow> nat \<Rightarrow> (nat \<Rightarrow> nat) \<Rightarrow> uheap \<Rightarrow> (nat \<times> (nat \<Rightarrow> nat) \<times> uheap) option" where
  "mem_fill grow m1 link s =
     Option.bind (malloc grow 10001 s) (\<lambda>r.
     if fst r \<noteq> 0 then mem_fill grow (fst r) (link(fst r := m1)) (snd r)
     else Some (m1, link, snd r))"

partial_function (option) mem_free :: "nat \<Rightarrow> (nat \<Rightarrow> nat) \<Rightarrow> uheap \<Rightarrow> uheap option" where
  "mem_free m1 link s =
     (if m1 \<noteq> 0 then Option.bind (free m1 s) (\<lambda>s. mem_free (link m1) link s) else Some s)"

text \<open>The child; the result says whether the last \<open>malloc\<close> gave a block.\<close>

definition mem_child :: "(nat \<Rightarrow> int \<Rightarrow> bool) \<Rightarrow> uheap \<Rightarrow> bool option" where
  "mem_child grow s =
     Option.bind (mem_fill grow 0 (\<lambda>_. 0) s) (\<lambda>(m1, link, s).
     Option.bind (mem_free m1 link s) (\<lambda>s.
     Option.bind (malloc grow (1024 * 20) s) (\<lambda>(m1, s).
     if m1 = 0 then Some False
     else Option.bind (free m1 s) (\<lambda>_. Some True))))"

definition mem_test :: "os \<Rightarrow> (nat \<Rightarrow> int \<Rightarrow> bool) \<Rightarrow> uheap \<Rightarrow> unit uprog" where
  "mem_test os grow s =
     ubind (printf os 1 ''mem test\<newline>'' []) (\<lambda>_.
     ubind (call_int os SYS_getpid) (\<lambda>ppid.
     ubind (call_int os SYS_fork) (\<lambda>pid.
     if pid = 0 then
       ubind (\<lambda>h. map_option (\<lambda>ok. Ret ok h) (mem_child grow s)) (\<lambda>ok.
       if \<not> ok then
         ubind (printf os 1 ''couldn't allocate mem?!!\<newline>'' []) (\<lambda>_.
         ubind (do_u os (SYS_kill ppid)) (\<lambda>_. exit_u os))
       else quit os 1 ''mem ok\<newline>'' [])
     else do_u os SYS_wait)))"

section \<open>More file system tests\<close>

fun sharedfd_write :: "os \<Rightarrow> int \<Rightarrow> string \<Rightarrow> nat \<Rightarrow> unit uprog" where
  "sharedfd_write os fd buf 0 = ret ()"
| "sharedfd_write os fd buf (Suc k) =
     ubind (call_int os (SYS_write fd buf)) (\<lambda>r.
     if r \<noteq> 10 then printf os 1 ''fstests: write sharedfd failed\<newline>'' []
     else sharedfd_write os fd buf k)"

text \<open>After every read all ten bytes of the buffer are counted.\<close>

partial_function (option) sharedfd_read ::
  "os \<Rightarrow> int \<Rightarrow> string \<Rightarrow> nat \<Rightarrow> nat \<Rightarrow> hist \<Rightarrow> (nat \<times> nat) uout option" where
  "sharedfd_read os fd buf nc np h =
     ubind (read os fd 10) (\<lambda>r.
     if fst r > 0 then
       sharedfd_read os fd (into (snd r) buf)
         (nc + count_list (into (snd r) buf) CHR ''c'') (np + count_list (into (snd r) buf) CHR ''p'')
     else ret (nc, np)) h"

definition sharedfd :: "os \<Rightarrow> unit uprog" where
  "sharedfd os =
     ubind (printf os 1 ''sharedfd test\<newline>'' []) (\<lambda>_.
     ubind (do_u os (SYS_unlink ''sharedfd'')) (\<lambda>_.
     ubind (call_int os (SYS_open ''sharedfd'' (O_CREATE OR O_RDWR))) (\<lambda>fd.
     if fd < 0 then printf os 1 ''fstests: cannot open sharedfd for writing'' []
     else
       ubind (call_int os SYS_fork) (\<lambda>pid.
       ubind (ret (replicate 10 (if pid = 0 then CHR ''c'' else CHR ''p''))) (\<lambda>buf.
       ubind (sharedfd_write os fd buf 1000) (\<lambda>_.
       if pid = 0 then exit_u os
       else
         ubind (do_u os SYS_wait) (\<lambda>_.
         ubind (do_u os (SYS_close fd)) (\<lambda>_.
         ubind (call_int os (SYS_open ''sharedfd'' 0)) (\<lambda>fd.
         if fd < 0 then printf os 1 ''fstests: cannot open sharedfd for reading\<newline>'' []
         else
           ubind (sharedfd_read os fd buf 0 0) (\<lambda>(nc, np).
           ubind (do_u os (SYS_close fd)) (\<lambda>_.
           ubind (do_u os (SYS_unlink ''sharedfd'')) (\<lambda>_.
           if nc = 10000 \<and> np = 10000 then printf os 1 ''sharedfd ok\<newline>'' []
           else quit os 1 ''sharedfd oops %d %d\<newline>'' [PNum (of_nat nc), PNum (of_nat np)]))))))))))))"

definition fourfiles_write :: "os \<Rightarrow> nat \<Rightarrow> string \<Rightarrow> unit uprog" where
  "fourfiles_write os pi buf =
     ubind (open_or os [CHR ''f'', digit pi] (O_CREATE OR O_RDWR) ''create failed\<newline>'') (\<lambda>fd.
     ubind (each (\<lambda>_.
       ubind (call_int os (SYS_write fd (take 500 (fill 512 (digit pi) buf)))) (\<lambda>n.
       if n \<noteq> 500 then quit os 1 ''write failed %d\<newline>'' [PNum (word_of_int n)] else ret ())) [0..<12]) (\<lambda>_.
     exit_u os))"

definition fourfiles_fork :: "os \<Rightarrow> string \<Rightarrow> nat \<Rightarrow> unit uprog" where
  "fourfiles_fork os buf pi =
     ubind (do_u os (SYS_unlink [CHR ''f'', digit pi])) (\<lambda>_.
     ubind (call_int os SYS_fork) (\<lambda>pid.
     if pid < 0 then quit os 1 ''fork failed\<newline>'' []
     else if pid = 0 then fourfiles_write os pi buf
     else ret ()))"

partial_function (option) fourfiles_read ::
  "os \<Rightarrow> int \<Rightarrow> char \<Rightarrow> nat \<Rightarrow> string \<Rightarrow> hist \<Rightarrow> (nat \<times> string) uout option" where
  "fourfiles_read os fd c tot buf h =
     ubind (read os fd 8192) (\<lambda>r.
     if fst r > 0 then
       if list_ex (\<lambda>x. x \<noteq> c) (snd r) then quit os 1 ''wrong char\<newline>'' []
       else fourfiles_read os fd c (tot + length (snd r)) (into (snd r) buf)
     else ret (tot, buf)) h"

definition fourfiles_check :: "os \<Rightarrow> nat \<Rightarrow> string \<Rightarrow> string uprog" where
  "fourfiles_check os i buf =
     ubind (call_int os (SYS_open [CHR ''f'', digit i] 0)) (\<lambda>fd.
     ubind (fourfiles_read os fd (digit i) 0 buf) (\<lambda>(tot, buf).
     ubind (do_u os (SYS_close fd)) (\<lambda>_.
     if tot \<noteq> 12 * 500 then quit os 1 ''wrong length %d\<newline>'' [PNum (of_nat tot)]
     else ubind (do_u os (SYS_unlink [CHR ''f'', digit i])) (\<lambda>_. ret buf))))"

definition fourfiles :: "os \<Rightarrow> string \<Rightarrow> string uprog" where
  "fourfiles os buf =
     ubind (printf os 1 ''fourfiles test\<newline>'' []) (\<lambda>_.
     ubind (each (fourfiles_fork os buf) [0..<4]) (\<lambda>_.
     ubind (each (\<lambda>_. do_u os SYS_wait) [0..<4]) (\<lambda>_.
     ubind (each_buf (fourfiles_check os) [0..<2] buf) (\<lambda>buf.
     ubind (printf os 1 ''fourfiles ok\<newline>'' []) (\<lambda>_. ret buf)))))"

definition cd_name :: "nat \<Rightarrow> nat \<Rightarrow> string" where
  "cd_name pi i = [char_of (112 + pi), digit i]"

definition cd_create :: "os \<Rightarrow> nat \<Rightarrow> nat \<Rightarrow> unit uprog" where
  "cd_create os pi i =
     ubind (open_or os (cd_name pi i) (O_CREATE OR O_RDWR) ''create failed\<newline>'') (\<lambda>fd.
     ubind (do_u os (SYS_close fd)) (\<lambda>_.
     if i > 0 \<and> i mod 2 = 0 then
       run_steps os [(SYS_unlink (cd_name pi (i div 2)), Negative, ''unlink failed\<newline>'')]
     else ret ()))"

definition cd_fork :: "os \<Rightarrow> nat \<Rightarrow> unit uprog" where
  "cd_fork os pi =
     ubind (call_int os SYS_fork) (\<lambda>pid.
     if pid < 0 then quit os 1 ''fork failed\<newline>'' []
     else if pid = 0 then ubind (each (cd_create os pi) [0..<20]) (\<lambda>_. exit_u os)
     else ret ())"

definition cd_check :: "os \<Rightarrow> nat \<times> nat \<Rightarrow> unit uprog" where
  "cd_check os = (\<lambda>(i, pi).
     ubind (call_int os (SYS_open (cd_name pi i) 0)) (\<lambda>fd.
     if (i = 0 \<or> i \<ge> 20 div 2) \<and> fd < 0 then
       quit os 1 ''oops createdelete %s didn't exist\<newline>'' [PStr (Some (cd_name pi i))]
     else if (i \<ge> 1 \<and> i < 20 div 2) \<and> fd \<ge> 0 then
       quit os 1 ''oops createdelete %s did exist\<newline>'' [PStr (Some (cd_name pi i))]
     else if fd \<ge> 0 then do_u os (SYS_close fd) else ret ()))"

text \<open>The last loop takes the letter of the name from \<open>i\<close>, not from \<open>pi\<close>.\<close>

definition createdelete :: "os \<Rightarrow> unit uprog" where
  "createdelete os =
     ubind (printf os 1 ''createdelete test\<newline>'' []) (\<lambda>_.
     ubind (each (cd_fork os) [0..<4]) (\<lambda>_.
     ubind (each (\<lambda>_. do_u os SYS_wait) [0..<4]) (\<lambda>_.
     ubind (each (cd_check os) (List.product [0..<20] [0..<4])) (\<lambda>_.
     ubind (each (\<lambda>(i, pi). do_u os (SYS_unlink (cd_name i i))) (List.product [0..<20] [0..<4])) (\<lambda>_.
     printf os 1 ''createdelete ok\<newline>'' [])))))"

definition unlinkread :: "os \<Rightarrow> string \<Rightarrow> string uprog" where
  "unlinkread os buf =
     ubind (printf os 1 ''unlinkread test\<newline>'' []) (\<lambda>_.
     ubind (open_or os ''unlinkread'' (O_CREATE OR O_RDWR) ''create unlinkread failed\<newline>'') (\<lambda>fd.
     ubind (do_u os (SYS_write fd ''hello'')) (\<lambda>_.
     ubind (do_u os (SYS_close fd)) (\<lambda>_.
     ubind (open_or os ''unlinkread'' O_RDWR ''open unlinkread failed\<newline>'') (\<lambda>fd.
     ubind (run_steps os [(SYS_unlink ''unlinkread'', Nonzero, ''unlink unlinkread failed\<newline>'')]) (\<lambda>_.
     ubind (call_int os (SYS_open ''unlinkread'' (O_CREATE OR O_RDWR))) (\<lambda>fd1.
     ubind (do_u os (SYS_write fd1 ''yyy'')) (\<lambda>_.
     ubind (do_u os (SYS_close fd1)) (\<lambda>_.
     ubind (read os fd 8192) (\<lambda>(n, bs).
     if n \<noteq> 5 then quit os 1 ''unlinkread read failed'' []
     else if hd (into bs buf) \<noteq> CHR ''h'' then quit os 1 ''unlinkread wrong data\<newline>'' []
     else
       ubind (call_int os (SYS_write fd (take 10 (into bs buf)))) (\<lambda>n.
       if n \<noteq> 10 then quit os 1 ''unlinkread write failed\<newline>'' []
       else
         ubind (do_u os (SYS_close fd)) (\<lambda>_.
         ubind (do_u os (SYS_unlink ''unlinkread'')) (\<lambda>_.
         ubind (printf os 1 ''unlinkread ok\<newline>'' []) (\<lambda>_. ret (into bs buf)))))))))))))))"

definition linktest :: "os \<Rightarrow> string \<Rightarrow> string uprog" where
  "linktest os buf =
     ubind (printf os 1 ''linktest\<newline>'' []) (\<lambda>_.
     ubind (do_u os (SYS_unlink ''lf1'')) (\<lambda>_.
     ubind (do_u os (SYS_unlink ''lf2'')) (\<lambda>_.
     ubind (open_or os ''lf1'' (O_CREATE OR O_RDWR) ''create lf1 failed\<newline>'') (\<lambda>fd.
     ubind (call_int os (SYS_write fd ''hello'')) (\<lambda>n.
     if n \<noteq> 5 then quit os 1 ''write lf1 failed\<newline>'' []
     else
       ubind (run_steps os
         [(SYS_close fd, Never, []), (SYS_link ''lf1'' ''lf2'', Negative, ''link lf1 lf2 failed\<newline>''),
          (SYS_unlink ''lf1'', Never, []),
          (SYS_open ''lf1'' 0, Nonneg, ''unlinked lf1 but it is still there!\<newline>'')]) (\<lambda>_.
       ubind (open_or os ''lf2'' 0 ''open lf2 failed\<newline>'') (\<lambda>fd.
       ubind (read os fd 8192) (\<lambda>(n, bs).
       if n \<noteq> 5 then quit os 1 ''read lf2 failed\<newline>'' []
       else
         ubind (run_steps os
           [(SYS_close fd, Never, []),
            (SYS_link ''lf2'' ''lf2'', Nonneg, ''link lf2 lf2 succeeded! oops\<newline>''),
            (SYS_unlink ''lf2'', Never, []),
            (SYS_link ''lf2'' ''lf1'', Nonneg, ''link non-existant succeeded! oops\<newline>''),
            (SYS_link ''.'' ''lf1'', Nonneg, ''link . lf1 succeeded! oops\<newline>'')]) (\<lambda>_.
         ubind (printf os 1 ''linktest ok\<newline>'' []) (\<lambda>_. ret (into bs buf)))))))))))"

definition cc_file :: "nat \<Rightarrow> string" where "cc_file i = [CHR ''C'', digit i]"

definition close_open :: "os \<Rightarrow> string \<Rightarrow> u32 \<Rightarrow> unit uprog" where
  "close_open os path omode = ubind (call_int os (SYS_open path omode)) (\<lambda>fd. do_u os (SYS_close fd))"

text \<open>The end of a round: the child exits, the parent waits for it.\<close>

definition child_exits :: "os \<Rightarrow> int \<Rightarrow> unit uprog" where
  "child_exits os pid = (if pid = 0 then exit_u os else do_u os SYS_wait)"

definition cc_create :: "os \<Rightarrow> nat \<Rightarrow> unit uprog" where
  "cc_create os i =
     ubind (do_u os (SYS_unlink (cc_file i))) (\<lambda>_.
     ubind (call_int os SYS_fork) (\<lambda>pid.
     ubind
       (if pid \<noteq> 0 \<and> i mod 3 = 1 then do_u os (SYS_link ''C0'' (cc_file i))
        else if pid = 0 \<and> i mod 5 = 1 then do_u os (SYS_link ''C0'' (cc_file i))
        else
          ubind (call_int os (SYS_open (cc_file i) (O_CREATE OR O_RDWR))) (\<lambda>fd.
          if fd < 0 then quit os 1 ''concreate create %s failed\<newline>'' [PStr (Some (cc_file i))]
          else do_u os (SYS_close fd))) (\<lambda>_.
     child_exits os pid)))"

text \<open>
  The entries of the directory; \<open>fa\<close> marks the files seen, \<open>de\<close> is the entry read before. The name
  of an entry ends at its first zero byte.
\<close>

partial_function (option) cc_scan ::
  "os \<Rightarrow> int \<Rightarrow> bool list \<Rightarrow> nat \<Rightarrow> string \<Rightarrow> hist \<Rightarrow> nat uout option" where
  "cc_scan os fd fa n de h =
     ubind (read os fd 16) (\<lambda>r.
     if fst r > 0 then
       ubind (ret (into (snd r) de)) (\<lambda>de.
       if de ! 0 = CHR 0x00 \<and> de ! 1 = CHR 0x00 then cc_scan os fd fa n de
       else if de ! 2 = CHR ''C'' \<and> de ! 4 = CHR 0x00 then
         if schar (de ! 3) - 48 < 0 \<or> schar (de ! 3) - 48 \<ge> 40 then
           quit os 1 ''concreate weird file %s\<newline>'' [PStr (Some (takeWhile (\<lambda>c. c \<noteq> CHR 0x00) (drop 2 de)))]
         else if fa ! nat (schar (de ! 3) - 48) then
           quit os 1 ''concreate duplicate file %s\<newline>'' [PStr (Some (takeWhile (\<lambda>c. c \<noteq> CHR 0x00) (drop 2 de)))]
         else cc_scan os fd (fa[nat (schar (de ! 3) - 48) := True]) (n + 1) de
       else cc_scan os fd fa n de)
     else ret n) h"

definition cc_delete :: "os \<Rightarrow> nat \<Rightarrow> unit uprog" where
  "cc_delete os i =
     ubind (call_int os SYS_fork) (\<lambda>pid.
     if pid < 0 then quit os 1 ''fork failed\<newline>'' []
     else
       ubind
         (if (i mod 3 = 0 \<and> pid = 0) \<or> (i mod 3 = 1 \<and> pid \<noteq> 0)
          then each (\<lambda>_. close_open os (cc_file i) 0) [0..<4]
          else each (\<lambda>_. do_u os (SYS_unlink (cc_file i))) [0..<4]) (\<lambda>_.
       child_exits os pid))"

text \<open>\<open>de\<close> is what the entry on the stack holds before the first read.\<close>

definition concreate :: "os \<Rightarrow> string \<Rightarrow> unit uprog" where
  "concreate os de =
     ubind (printf os 1 ''concreate test\<newline>'' []) (\<lambda>_.
     ubind (each (cc_create os) [0..<40]) (\<lambda>_.
     ubind (call_int os (SYS_open ''.'' 0)) (\<lambda>fd.
     ubind (cc_scan os fd (replicate 40 False) 0 de) (\<lambda>n.
     ubind (do_u os (SYS_close fd)) (\<lambda>_.
     if n \<noteq> 40 then quit os 1 ''concreate not enough files in directory listing\<newline>'' []
     else
       ubind (each (cc_delete os) [0..<40]) (\<lambda>_.
       printf os 1 ''concreate ok\<newline>'' []))))))"

fun linkunlink_loop :: "os \<Rightarrow> u32 \<Rightarrow> nat \<Rightarrow> unit uprog" where
  "linkunlink_loop os x 0 = ret ()"
| "linkunlink_loop os x (Suc k) =
     (let x = x * 1103515245 + 12345
      in ubind
           (if x mod 3 = 0 then close_open os ''x'' (O_RDWR OR O_CREATE)
            else if x mod 3 = 1 then do_u os (SYS_link ''cat'' ''x'')
            else do_u os (SYS_unlink ''x'')) (\<lambda>_.
         linkunlink_loop os x k))"

definition linkunlink :: "os \<Rightarrow> unit uprog" where
  "linkunlink os =
     ubind (printf os 1 ''linkunlink test\<newline>'' []) (\<lambda>_.
     ubind (do_u os (SYS_unlink ''x'')) (\<lambda>_.
     ubind (call_int os SYS_fork) (\<lambda>pid.
     if pid < 0 then quit os 1 ''fork failed\<newline>'' []
     else
       ubind (linkunlink_loop os (if pid \<noteq> 0 then 1 else 97) 100) (\<lambda>_.
       ubind (child_exits os pid) (\<lambda>_.
       printf os 1 ''linkunlink ok\<newline>'' [])))))"

definition bd_name :: "nat \<Rightarrow> string" where
  "bd_name i = [CHR ''x'', digit (i div 64), digit (i mod 64)]"

definition bigdir :: "os \<Rightarrow> unit uprog" where
  "bigdir os =
     ubind (printf os 1 ''bigdir test\<newline>'' []) (\<lambda>_.
     ubind (do_u os (SYS_unlink ''bd'')) (\<lambda>_.
     ubind (open_or os ''bd'' O_CREATE ''bigdir create failed\<newline>'') (\<lambda>fd.
     ubind (do_u os (SYS_close fd)) (\<lambda>_.
     ubind (run_steps os
       (map (\<lambda>i. (SYS_link ''bd'' (bd_name i), Nonzero, ''bigdir link failed\<newline>'')) [0..<500])) (\<lambda>_.
     ubind (do_u os (SYS_unlink ''bd'')) (\<lambda>_.
     ubind (run_steps os
       (map (\<lambda>i. (SYS_unlink (bd_name i), Nonzero, ''bigdir unlink failed'')) [0..<500])) (\<lambda>_.
     printf os 1 ''bigdir ok\<newline>'' [])))))))"

text \<open>The steps of \<open>subdir\<close> after the last read.\<close>

definition subdir_steps :: "step list" where
  "subdir_steps =
     [(SYS_open ''dd/dd/ff'' O_RDONLY, Nonneg, ''open (unlinked) dd/dd/ff succeeded!\<newline>''),
      (SYS_open ''dd/ff/ff'' (O_CREATE OR O_RDWR), Nonneg, ''create dd/ff/ff succeeded!\<newline>''),
      (SYS_open ''dd/xx/ff'' (O_CREATE OR O_RDWR), Nonneg, ''create dd/xx/ff succeeded!\<newline>''),
      (SYS_open ''dd'' O_CREATE, Nonneg, ''create dd succeeded!\<newline>''),
      (SYS_open ''dd'' O_RDWR, Nonneg, ''open dd rdwr succeeded!\<newline>''),
      (SYS_open ''dd'' O_WRONLY, Nonneg, ''open dd wronly succeeded!\<newline>''),
      (SYS_link ''dd/ff/ff'' ''dd/dd/xx'', Zero, ''link dd/ff/ff dd/dd/xx succeeded!\<newline>''),
      (SYS_link ''dd/xx/ff'' ''dd/dd/xx'', Zero, ''link dd/xx/ff dd/dd/xx succeeded!\<newline>''),
      (SYS_link ''dd/ff'' ''dd/dd/ffff'', Zero, ''link dd/ff dd/dd/ffff succeeded!\<newline>''),
      (SYS_mkdir ''dd/ff/ff'', Zero, ''mkdir dd/ff/ff succeeded!\<newline>''),
      (SYS_mkdir ''dd/xx/ff'', Zero, ''mkdir dd/xx/ff succeeded!\<newline>''),
      (SYS_mkdir ''dd/dd/ffff'', Zero, ''mkdir dd/dd/ffff succeeded!\<newline>''),
      (SYS_unlink ''dd/xx/ff'', Zero, ''unlink dd/xx/ff succeeded!\<newline>''),
      (SYS_unlink ''dd/ff/ff'', Zero, ''unlink dd/ff/ff succeeded!\<newline>''),
      (SYS_chdir ''dd/ff'', Zero, ''chdir dd/ff succeeded!\<newline>''),
      (SYS_chdir ''dd/xx'', Zero, ''chdir dd/xx succeeded!\<newline>''),
      (SYS_unlink ''dd/dd/ffff'', Nonzero, ''unlink dd/dd/ff failed\<newline>''),
      (SYS_unlink ''dd/ff'', Nonzero, ''unlink dd/ff failed\<newline>''),
      (SYS_unlink ''dd'', Zero, ''unlink non-empty dd succeeded!\<newline>''),
      (SYS_unlink ''dd/dd'', Negative, ''unlink dd/dd failed\<newline>''),
      (SYS_unlink ''dd'', Negative, ''unlink dd failed\<newline>'')]"

definition subdir :: "os \<Rightarrow> string \<Rightarrow> string uprog" where
  "subdir os buf =
     ubind (printf os 1 ''subdir test\<newline>'' []) (\<lambda>_.
     ubind (run_steps os
       [(SYS_unlink ''ff'', Never, []), (SYS_mkdir ''dd'', Nonzero, ''subdir mkdir dd failed\<newline>'')]) (\<lambda>_.
     ubind (open_or os ''dd/ff'' (O_CREATE OR O_RDWR) ''create dd/ff failed\<newline>'') (\<lambda>fd.
     ubind (run_steps os
       [(SYS_write fd ''ff'', Never, []), (SYS_close fd, Never, []),
        (SYS_unlink ''dd'', Nonneg, ''unlink dd (non-empty dir) succeeded!\<newline>''),
        (SYS_mkdir ''/dd/dd'', Nonzero, ''subdir mkdir dd/dd failed\<newline>'')]) (\<lambda>_.
     ubind (open_or os ''dd/dd/ff'' (O_CREATE OR O_RDWR) ''create dd/dd/ff failed\<newline>'') (\<lambda>fd.
     ubind (run_steps os [(SYS_write fd ''FF'', Never, []), (SYS_close fd, Never, [])]) (\<lambda>_.
     ubind (open_or os ''dd/dd/../ff'' 0 ''open dd/dd/../ff failed\<newline>'') (\<lambda>fd.
     ubind (read os fd 8192) (\<lambda>(cc, bs).
     ubind (ret (into bs buf)) (\<lambda>buf.
     if cc \<noteq> 2 \<or> hd buf \<noteq> CHR ''f'' then quit os 1 ''dd/dd/../ff wrong content\<newline>'' []
     else
       ubind (run_steps os
         [(SYS_close fd, Never, []),
          (SYS_link ''dd/dd/ff'' ''dd/dd/ffff'', Nonzero, ''link dd/dd/ff dd/dd/ffff failed\<newline>''),
          (SYS_unlink ''dd/dd/ff'', Nonzero, ''unlink dd/dd/ff failed\<newline>''),
          (SYS_open ''dd/dd/ff'' O_RDONLY, Nonneg, ''open (unlinked) dd/dd/ff succeeded\<newline>''),
          (SYS_chdir ''dd'', Nonzero, ''chdir dd failed\<newline>''),
          (SYS_chdir ''dd/../../dd'', Nonzero, ''chdir dd/../../dd failed\<newline>''),
          (SYS_chdir ''dd/../../../dd'', Nonzero, ''chdir dd/../../dd failed\<newline>''),
          (SYS_chdir ''./..'', Nonzero, ''chdir ./.. failed\<newline>'')]) (\<lambda>_.
       ubind (open_or os ''dd/dd/ffff'' 0 ''open dd/dd/ffff failed\<newline>'') (\<lambda>fd.
       ubind (read os fd 8192) (\<lambda>(cc, bs).
       ubind (ret (into bs buf)) (\<lambda>buf.
       if cc \<noteq> 2 then quit os 1 ''read dd/dd/ffff wrong len\<newline>'' []
       else
         ubind (do_u os (SYS_close fd)) (\<lambda>_.
         ubind (run_steps os subdir_steps) (\<lambda>_.
         ubind (printf os 1 ''subdir ok\<newline>'' []) (\<lambda>_. ret buf))))))))))))))))"

text \<open>The sizes \<open>499\<close>, \<open>970\<close>, ... below \<open>12 * 512\<close>.\<close>

definition bigwrite_sizes :: "nat list" where
  "bigwrite_sizes = takeWhile (\<lambda>sz. sz < 12 * 512) (map (\<lambda>k. 499 + k * 471) [0..<100])"

definition bigwrite_one :: "os \<Rightarrow> string \<Rightarrow> nat \<Rightarrow> unit uprog" where
  "bigwrite_one os buf sz =
     ubind (open_or os ''bigwrite'' (O_CREATE OR O_RDWR) ''cannot create bigwrite\<newline>'') (\<lambda>fd.
     ubind (each (\<lambda>_.
       ubind (call_int os (SYS_write fd (take sz buf))) (\<lambda>cc.
       if cc \<noteq> int sz then quit os 1 ''write(%d) ret %d\<newline>'' [PNum (of_nat sz), PNum (word_of_int cc)]
       else ret ())) [0..<2]) (\<lambda>_.
     ubind (do_u os (SYS_close fd)) (\<lambda>_. do_u os (SYS_unlink ''bigwrite''))))"

definition bigwrite :: "os \<Rightarrow> string \<Rightarrow> unit uprog" where
  "bigwrite os buf =
     ubind (printf os 1 ''bigwrite test\<newline>'' []) (\<lambda>_.
     ubind (do_u os (SYS_unlink ''bigwrite'')) (\<lambda>_.
     ubind (each (bigwrite_one os buf) bigwrite_sizes) (\<lambda>_.
     printf os 1 ''bigwrite ok\<newline>'' [])))"

definition bigfile_write :: "os \<Rightarrow> int \<Rightarrow> nat \<Rightarrow> string \<Rightarrow> string uprog" where
  "bigfile_write os fd i buf =
     ubind (call_int os (SYS_write fd (take 600 (fill 600 (char_of i) buf)))) (\<lambda>r.
     if r \<noteq> 600 then quit os 1 ''write bigfile failed\<newline>'' [] else ret (fill 600 (char_of i) buf))"

partial_function (option) bigfile_read ::
  "os \<Rightarrow> int \<Rightarrow> nat \<Rightarrow> nat \<Rightarrow> string \<Rightarrow> hist \<Rightarrow> (nat \<times> string) uout option" where
  "bigfile_read os fd i tot buf h =
     ubind (read os fd 300) (\<lambda>r.
     if fst r < 0 then quit os 1 ''read bigfile failed\<newline>'' []
     else if fst r = 0 then ret (tot, buf)
     else if fst r \<noteq> 300 then quit os 1 ''short read bigfile\<newline>'' []
     else if schar (snd r ! 0) \<noteq> int (i div 2) \<or> schar (snd r ! 299) \<noteq> int (i div 2) then
       quit os 1 ''read bigfile wrong data\<newline>'' []
     else bigfile_read os fd (i + 1) (tot + 300) (into (snd r) buf)) h"

definition bigfile :: "os \<Rightarrow> string \<Rightarrow> string uprog" where
  "bigfile os buf =
     ubind (printf os 1 ''bigfile test\<newline>'' []) (\<lambda>_.
     ubind (do_u os (SYS_unlink ''bigfile'')) (\<lambda>_.
     ubind (open_or os ''bigfile'' (O_CREATE OR O_RDWR) ''cannot create bigfile'') (\<lambda>fd.
     ubind (each_buf (bigfile_write os fd) [0..<20] buf) (\<lambda>buf.
     ubind (do_u os (SYS_close fd)) (\<lambda>_.
     ubind (open_or os ''bigfile'' 0 ''cannot open bigfile\<newline>'') (\<lambda>fd.
     ubind (bigfile_read os fd 0 0 buf) (\<lambda>(tot, buf).
     ubind (do_u os (SYS_close fd)) (\<lambda>_.
     if tot \<noteq> 20 * 600 then quit os 1 ''read bigfile wrong total\<newline>'' []
     else
       ubind (do_u os (SYS_unlink ''bigfile'')) (\<lambda>_.
       ubind (printf os 1 ''bigfile test ok\<newline>'' []) (\<lambda>_. ret buf))))))))))"

definition fourteen :: "os \<Rightarrow> unit uprog" where
  "fourteen os =
     ubind (printf os 1 ''fourteen test\<newline>'' []) (\<lambda>_.
     ubind (run_steps os
       [(SYS_mkdir ''12345678901234'', Nonzero, ''mkdir 12345678901234 failed\<newline>''),
        (SYS_mkdir ''12345678901234/123456789012345'', Nonzero,
          ''mkdir 12345678901234/123456789012345 failed\<newline>'')]) (\<lambda>_.
     ubind (open_or os ''123456789012345/123456789012345/123456789012345'' O_CREATE
       ''create 123456789012345/123456789012345/123456789012345 failed\<newline>'') (\<lambda>fd.
     ubind (do_u os (SYS_close fd)) (\<lambda>_.
     ubind (open_or os ''12345678901234/12345678901234/12345678901234'' 0
       ''open 12345678901234/12345678901234/12345678901234 failed\<newline>'') (\<lambda>fd.
     ubind (run_steps os
       [(SYS_close fd, Never, []),
        (SYS_mkdir ''12345678901234/12345678901234'', Zero,
          ''mkdir 12345678901234/12345678901234 succeeded!\<newline>''),
        (SYS_mkdir ''123456789012345/12345678901234'', Zero,
          ''mkdir 12345678901234/123456789012345 succeeded!\<newline>'')]) (\<lambda>_.
     printf os 1 ''fourteen ok\<newline>'' []))))))"

definition rmdot :: "os \<Rightarrow> unit uprog" where
  "rmdot os =
     ubind (printf os 1 ''rmdot test\<newline>'' []) (\<lambda>_.
     ubind (run_steps os
       [(SYS_mkdir ''dots'', Nonzero, ''mkdir dots failed\<newline>''),
        (SYS_chdir ''dots'', Nonzero, ''chdir dots failed\<newline>''),
        (SYS_unlink ''.'', Zero, ''rm . worked!\<newline>''),
        (SYS_unlink ''..'', Zero, ''rm .. worked!\<newline>''),
        (SYS_chdir ''/'', Nonzero, ''chdir / failed\<newline>''),
        (SYS_unlink ''dots/.'', Zero, ''unlink dots/. worked!\<newline>''),
        (SYS_unlink ''dots/..'', Zero, ''unlink dots/.. worked!\<newline>''),
        (SYS_unlink ''dots'', Nonzero, ''unlink dots failed!\<newline>'')]) (\<lambda>_.
     printf os 1 ''rmdot ok\<newline>'' []))"

definition dirfile :: "os \<Rightarrow> unit uprog" where
  "dirfile os =
     ubind (printf os 1 ''dir vs file\<newline>'' []) (\<lambda>_.
     ubind (open_or os ''dirfile'' O_CREATE ''create dirfile failed\<newline>'') (\<lambda>fd.
     ubind (run_steps os
       [(SYS_close fd, Never, []),
        (SYS_chdir ''dirfile'', Zero, ''chdir dirfile succeeded!\<newline>''),
        (SYS_open ''dirfile/xx'' 0, Nonneg, ''create dirfile/xx succeeded!\<newline>''),
        (SYS_open ''dirfile/xx'' O_CREATE, Nonneg, ''create dirfile/xx succeeded!\<newline>''),
        (SYS_mkdir ''dirfile/xx'', Zero, ''mkdir dirfile/xx succeeded!\<newline>''),
        (SYS_unlink ''dirfile/xx'', Zero, ''unlink dirfile/xx succeeded!\<newline>''),
        (SYS_link ''README'' ''dirfile/xx'', Zero, ''link to dirfile/xx succeeded!\<newline>''),
        (SYS_unlink ''dirfile'', Nonzero, ''unlink dirfile failed!\<newline>''),
        (SYS_open ''.'' O_RDWR, Nonneg, ''open . for writing succeeded!\<newline>'')]) (\<lambda>_.
     ubind (call_int os (SYS_open ''.'' 0)) (\<lambda>fd.
     ubind (call_int os (SYS_write fd ''x'')) (\<lambda>n.
     if n > 0 then quit os 1 ''write . succeeded!\<newline>'' []
     else
       ubind (do_u os (SYS_close fd)) (\<lambda>_.
       printf os 1 ''dir vs file OK\<newline>'' []))))))"

definition iref_one :: "os \<Rightarrow> unit uprog" where
  "iref_one os =
     ubind (run_steps os
       [(SYS_mkdir ''irefd'', Nonzero, ''mkdir irefd failed\<newline>''),
        (SYS_chdir ''irefd'', Nonzero, ''chdir irefd failed\<newline>''),
        (SYS_mkdir [], Never, []), (SYS_link ''README'' [], Never, [])]) (\<lambda>_.
     ubind (call_int os (SYS_open [] O_CREATE)) (\<lambda>fd.
     ubind (if fd \<ge> 0 then do_u os (SYS_close fd) else ret ()) (\<lambda>_.
     ubind (call_int os (SYS_open ''xx'' O_CREATE)) (\<lambda>fd.
     ubind (if fd \<ge> 0 then do_u os (SYS_close fd) else ret ()) (\<lambda>_.
     do_u os (SYS_unlink ''xx''))))))"

definition iref :: "os \<Rightarrow> unit uprog" where
  "iref os =
     ubind (printf os 1 ''empty file name\<newline>'' []) (\<lambda>_.
     ubind (each (\<lambda>_. iref_one os) [0..<50 + 1]) (\<lambda>_.
     ubind (do_u os (SYS_chdir ''/'')) (\<lambda>_.
     printf os 1 ''empty file name OK\<newline>'' [])))"

section \<open>The limits of memory\<close>

text \<open>The loop that creates the children is that of the program \<open>forktest\<close>.\<close>

definition ut_forktest :: "os \<Rightarrow> unit uprog" where
  "ut_forktest os =
     ubind (printf os 1 ''fork test\<newline>'' []) (\<lambda>_.
     ubind (ft_fork os 1000 0) (\<lambda>n.
     if n = 1000 then quit os 1 ''fork claimed to work 1000 times!\<newline>'' []
     else
       ubind (run_steps os (replicate n (SYS_wait, Negative, ''wait stopped early\<newline>''))) (\<lambda>_.
       ubind (call_int os SYS_wait) (\<lambda>r.
       if r \<noteq> - 1 then quit os 1 ''wait got too many\<newline>'' []
       else printf os 1 ''fork test OK\<newline>'' []))))"

text \<open>An address that \<open>sbrk\<close> returns, and an instruction that the kernel may answer with a fault.\<close>

definition usbrk :: "os \<Rightarrow> int \<Rightarrow> u32 uprog" where
  "usbrk os n = ubind (call_int os (SYS_sbrk n)) (\<lambda>r. ret (word_of_int r))"

definition touch :: "os \<Rightarrow> sysreq \<Rightarrow> int uprog" where
  "touch os c =
     ubind (call os c) (\<lambda>r. if r = RFault then (\<lambda>h. Some (Gone h)) else ret (rval r))"

definition BIG :: u32 where "BIG = 100 * 1024 * 1024"

fun sbrk_bytes :: "os \<Rightarrow> nat \<Rightarrow> nat \<Rightarrow> u32 \<Rightarrow> u32 uprog" where
  "sbrk_bytes os 0 i a = ret a"
| "sbrk_bytes os (Suc k) i a =
     ubind (usbrk os 1) (\<lambda>b.
     if b \<noteq> a then quit os stdout ''sbrk test failed %d %x %x\<newline>'' [PNum (of_nat i), PNum a, PNum b]
     else ubind (touch os (Store b 1)) (\<lambda>_. sbrk_bytes os k (i + 1) (b + 1)))"

definition sbrk_small :: "os \<Rightarrow> unit uprog" where
  "sbrk_small os =
     ubind (usbrk os 0) (\<lambda>a.
     ubind (sbrk_bytes os 5000 0 a) (\<lambda>a.
     ubind (call_int os SYS_fork) (\<lambda>pid.
     if pid < 0 then quit os stdout ''sbrk test fork failed\<newline>'' []
     else
       ubind (usbrk os 1) (\<lambda>_.
       ubind (usbrk os 1) (\<lambda>c.
       if c \<noteq> a + 1 then quit os stdout ''sbrk test failed post-fork\<newline>'' []
       else child_exits os pid)))))"

definition sbrk_big :: "os \<Rightarrow> unit uprog" where
  "sbrk_big os =
     ubind (usbrk os 0) (\<lambda>a.
     ubind (usbrk os (sint (BIG - a))) (\<lambda>p.
     if p \<noteq> a then
       quit os stdout ''sbrk test failed to grow big address space; enough phys mem?\<newline>'' []
     else
       ubind (touch os (Store (BIG - 1) 99)) (\<lambda>_. ret ())))"

definition sbrk_again :: "os \<Rightarrow> unit uprog" where
  "sbrk_again os =
     ubind (usbrk os 0) (\<lambda>a.
     ubind (usbrk os (- 4096)) (\<lambda>c.
     if c = 0xffffffff then quit os stdout ''sbrk could not deallocate\<newline>'' []
     else
       ubind (usbrk os 0) (\<lambda>c.
       if c \<noteq> a - 4096 then
         quit os stdout ''sbrk deallocation produced wrong address, a %x c %x\<newline>'' [PNum a, PNum c]
       else
         ubind (usbrk os 0) (\<lambda>a.
         ubind (usbrk os 4096) (\<lambda>c.
         ubind (if c \<noteq> a then ret True else ubind (usbrk os 0) (\<lambda>e. ret (e \<noteq> a + 4096))) (\<lambda>bad.
         if bad then quit os stdout ''sbrk re-allocation failed, a %x c %x\<newline>'' [PNum a, PNum c]
         else
           ubind (touch os (Load (BIG - 1))) (\<lambda>v.
           if v = 99 then quit os stdout ''sbrk de-allocation didn't really deallocate\<newline>'' []
           else ret ())))))))"

text \<open>\<open>sbrk(-(sbrk(0) - oldbrk))\<close>\<close>

definition sbrk_back :: "os \<Rightarrow> u32 \<Rightarrow> u32 uprog" where
  "sbrk_back os oldbrk = ubind (usbrk os 0) (\<lambda>b. usbrk os (sint (- (b - oldbrk))))"

definition read_kernel :: "os \<Rightarrow> u32 \<Rightarrow> unit uprog" where
  "read_kernel os a =
     ubind (call_int os SYS_getpid) (\<lambda>ppid.
     ubind (call_int os SYS_fork) (\<lambda>pid.
     if pid < 0 then quit os stdout ''fork failed\<newline>'' []
     else if pid = 0 then
       ubind (touch os (Load a)) (\<lambda>v.
       ubind (printf os stdout ''oops could read %x = %x\<newline>'' [PNum a, PNum (word_of_int v)]) (\<lambda>_.
       ubind (do_u os (SYS_kill ppid)) (\<lambda>_. exit_u os)))
     else do_u os SYS_wait))"

partial_function (option) sleep_forever :: "os \<Rightarrow> hist \<Rightarrow> int uout option" where
  "sleep_forever os h = ubind (call_int os (SYS_sleep 1000)) (\<lambda>_. sleep_forever os) h"

text \<open>The child that takes all the memory; the result in the parent is what \<open>fork\<close> returned.\<close>

definition take_memory :: "os \<Rightarrow> int \<Rightarrow> int \<Rightarrow> int uprog" where
  "take_memory os rd wr =
     ubind (call_int os SYS_fork) (\<lambda>pid.
     if pid = 0 then
       ubind (usbrk os 0) (\<lambda>a.
       ubind (usbrk os (sint (BIG - a))) (\<lambda>_.
       ubind (do_u os (SYS_write wr ''x'')) (\<lambda>_. sleep_forever os)))
     else if pid \<noteq> - 1 then ubind (read os rd 1) (\<lambda>_. ret pid)
     else ret pid)"

fun take_memories :: "os \<Rightarrow> int \<Rightarrow> int \<Rightarrow> nat \<Rightarrow> int list uprog" where
  "take_memories os rd wr 0 = ret []"
| "take_memories os rd wr (Suc k) =
     ubind (take_memory os rd wr) (\<lambda>pid.
     ubind (take_memories os rd wr k) (\<lambda>pids. ret (pid # pids)))"

definition sbrk_leak :: "os \<Rightarrow> unit uprog" where
  "sbrk_leak os =
     ubind (pipe_u os) (\<lambda>(r, rd, wr).
     if r \<noteq> 0 then quit os 1 ''pipe() failed\<newline>'' []
     else
       ubind (take_memories os rd wr 10) (\<lambda>pids.
       ubind (usbrk os 4096) (\<lambda>c.
       ubind (each (\<lambda>pid.
         if pid = - 1 then ret ()
         else ubind (do_u os (SYS_kill pid)) (\<lambda>_. do_u os SYS_wait)) pids) (\<lambda>_.
       if c = 0xffffffff then quit os stdout ''failed sbrk leaked memory\<newline>'' []
       else ret ()))))"

definition sbrktest :: "os \<Rightarrow> unit uprog" where
  "sbrktest os =
     ubind (printf os stdout ''sbrk test\<newline>'' []) (\<lambda>_.
     ubind (usbrk os 0) (\<lambda>oldbrk.
     ubind (sbrk_small os) (\<lambda>_.
     ubind (sbrk_big os) (\<lambda>_.
     ubind (sbrk_again os) (\<lambda>_.
     ubind (usbrk os 0) (\<lambda>a.
     ubind (sbrk_back os oldbrk) (\<lambda>c.
     if c \<noteq> a then quit os stdout ''sbrk downsize failed, a %x c %x\<newline>'' [PNum a, PNum c]
     else
       ubind (each (read_kernel os) (map (\<lambda>k. KERNBASE + of_nat k * 50000) [0..<40])) (\<lambda>_.
       ubind (sbrk_leak os) (\<lambda>_.
       ubind (usbrk os 0) (\<lambda>b.
       ubind (if b > oldbrk then ubind (sbrk_back os oldbrk) (\<lambda>_. ret ()) else ret ()) (\<lambda>_.
       printf os stdout ''sbrk test OK\<newline>'' [])))))))))))"

section \<open>Bad arguments\<close>

text \<open>The system call \<open>sleep\<close> with the stack pointer at \<open>p\<close>, where the kernel looks for its argument.\<close>

definition validateint :: "os \<Rightarrow> u32 \<Rightarrow> unit uprog" where
  "validateint os p = do_u os (Sleep_at p)"

definition validate_one :: "os \<Rightarrow> u32 \<Rightarrow> unit uprog" where
  "validate_one os p =
     ubind (call_int os SYS_fork) (\<lambda>pid.
     if pid = 0 then ubind (validateint os p) (\<lambda>_. exit_u os)
     else
       ubind (each (do_u os) [SYS_sleep 0, SYS_sleep 0, SYS_kill pid, SYS_wait]) (\<lambda>_.
       ubind (call_int os (Link_at ''nosuchfile'' p)) (\<lambda>r.
       if r \<noteq> - 1 then quit os stdout ''link should not succeed\<newline>'' [] else ret ())))"

definition validatetest :: "os \<Rightarrow> unit uprog" where
  "validatetest os =
     ubind (printf os stdout ''validate test\<newline>'' []) (\<lambda>_.
     ubind (each (validate_one os) (map (\<lambda>k. of_nat k * 4096) [0..<1100 * 1024 div 4096 + 1])) (\<lambda>_.
     printf os stdout ''validate ok\<newline>'' []))"

definition bsstest :: "os \<Rightarrow> string \<Rightarrow> unit uprog" where
  "bsstest os uninit =
     ubind (printf os stdout ''bss test\<newline>'' []) (\<lambda>_.
     if list_ex (\<lambda>c. c \<noteq> CHR 0x00) uninit then quit os stdout ''bss test failed\<newline>'' []
     else printf os stdout ''bss test ok\<newline>'' [])"

definition bigargs :: "string list" where
  "bigargs = replicate (MAXARG - 1) (''bigargs test: failed\<newline>'' @ replicate 199 CHR '' '')"

definition bigargtest :: "os \<Rightarrow> unit uprog" where
  "bigargtest os =
     ubind (do_u os (SYS_unlink ''bigarg-ok'')) (\<lambda>_.
     ubind (call_int os SYS_fork) (\<lambda>pid.
     if pid = 0 then
       ubind (printf os stdout ''bigarg test\<newline>'' []) (\<lambda>_.
       ubind (exec_u os ''echo'' bigargs) (\<lambda>_.
       ubind (printf os stdout ''bigarg test ok\<newline>'' []) (\<lambda>_.
       ubind (close_open os ''bigarg-ok'' O_CREATE) (\<lambda>_. exit_u os))))
     else if pid < 0 then quit os stdout ''bigargtest: fork failed\<newline>'' []
     else
       ubind (do_u os SYS_wait) (\<lambda>_.
       ubind (open_or os ''bigarg-ok'' 0 ''bigarg test failed!\<newline>'') (\<lambda>fd.
       ubind (do_u os (SYS_close fd)) (\<lambda>_. do_u os (SYS_unlink ''bigarg-ok''))))))"

definition fsfull_name :: "nat \<Rightarrow> string" where
  "fsfull_name n =
     [CHR ''f'', digit (n div 1000), digit (n mod 1000 div 100), digit (n mod 100 div 10), digit (n mod 10)]"

partial_function (option) fsfull_write :: "os \<Rightarrow> int \<Rightarrow> string \<Rightarrow> int \<Rightarrow> hist \<Rightarrow> int uout option" where
  "fsfull_write os fd buf tot h =
     ubind (call_int os (SYS_write fd (take 512 buf))) (\<lambda>cc.
     if cc < 512 then ret tot else fsfull_write os fd buf (tot + cc)) h"

text \<open>The result is the value of \<open>nfiles\<close> at the end of the loop.\<close>

partial_function (option) fsfull_files :: "os \<Rightarrow> string \<Rightarrow> nat \<Rightarrow> hist \<Rightarrow> nat uout option" where
  "fsfull_files os buf nfiles h =
     ubind (printf os 1 ''writing %s\<newline>'' [PStr (Some (fsfull_name nfiles))]) (\<lambda>_.
     ubind (call_int os (SYS_open (fsfull_name nfiles) (O_CREATE OR O_RDWR))) (\<lambda>fd.
     if fd < 0 then
       ubind (printf os 1 ''open %s failed\<newline>'' [PStr (Some (fsfull_name nfiles))]) (\<lambda>_. ret nfiles)
     else
       ubind (fsfull_write os fd buf 0) (\<lambda>tot.
       ubind (printf os 1 ''wrote %d bytes\<newline>'' [PNum (word_of_int tot)]) (\<lambda>_.
       ubind (do_u os (SYS_close fd)) (\<lambda>_.
       if tot = 0 then ret nfiles else fsfull_files os buf (nfiles + 1)))))) h"

definition fsfull :: "os \<Rightarrow> string \<Rightarrow> unit uprog" where
  "fsfull os buf =
     ubind (printf os 1 ''fsfull test\<newline>'' []) (\<lambda>_.
     ubind (fsfull_files os buf 0) (\<lambda>nfiles.
     ubind (each (\<lambda>n. do_u os (SYS_unlink (fsfull_name n))) (rev [0..<nfiles + 1])) (\<lambda>_.
     printf os 1 ''fsfull test finished\<newline>'' [])))"

definition uio :: "os \<Rightarrow> unit uprog" where
  "uio os =
     ubind (printf os 1 ''uio test\<newline>'' []) (\<lambda>_.
     ubind (call_int os SYS_fork) (\<lambda>pid.
     if pid = 0 then
       ubind (touch os (Outb 0x70 0x09)) (\<lambda>_.
       ubind (touch os (Inb 0x71)) (\<lambda>_.
       quit os 1 ''uio: uio succeeded; test FAILED\<newline>'' []))
     else if pid < 0 then quit os 1 ''fork failed\<newline>'' []
     else
       ubind (do_u os SYS_wait) (\<lambda>_.
       printf os 1 ''uio test done\<newline>'' [])))"

definition argptest :: "os \<Rightarrow> unit uprog" where
  "argptest os =
     ubind (call_int os (SYS_open ''init'' O_RDONLY)) (\<lambda>fd.
     if fd < 0 then quit os 2 ''open failed\<newline>'' []
     else
       ubind (usbrk os 0) (\<lambda>b.
       ubind (do_u os (Read_at fd (b - 1) (- 1))) (\<lambda>_.
       ubind (do_u os (SYS_close fd)) (\<lambda>_.
       printf os 1 ''arg test passed\<newline>'' []))))"

text \<open>The next value of \<open>randstate\<close>, which is also the result.\<close>

definition rand :: "u32 \<Rightarrow> u32" where
  "rand randstate = randstate * 1664525 + 1013904223"

section \<open>The program\<close>

text \<open>A test that does not use the buffer, as one that passes it on.\<close>

definition plainly :: "unit uprog \<Rightarrow> string \<Rightarrow> string uprog" where
  "plainly t buf = ubind t (\<lambda>_. ret buf)"

definition ut_tests ::
  "os \<Rightarrow> (nat \<Rightarrow> int \<Rightarrow> bool) \<Rightarrow> uheap \<Rightarrow> string \<Rightarrow> (string \<Rightarrow> string uprog) list" where
  "ut_tests os grow heap de =
     [plainly (argptest os), plainly (createdelete os), plainly (linkunlink os), plainly (concreate os de),
      fourfiles os, plainly (sharedfd os),
      plainly (bigargtest os), (\<lambda>buf. plainly (bigwrite os buf) buf), plainly (bigargtest os),
      plainly (bsstest os (replicate 10000 CHR 0x00)), plainly (sbrktest os), plainly (validatetest os),
      plainly (opentest os), writetest os, writetest1 os, plainly (createtest os),
      plainly (openiputtest os), plainly (exitiputtest os), plainly (iputtest os),
      plainly (mem_test os grow heap), pipe1 os, preempt os, plainly (exitwait os),
      plainly (rmdot os), plainly (fourteen os), bigfile os, subdir os, linktest os, unlinkread os,
      plainly (dirfile os), plainly (iref os), plainly (ut_forktest os), plainly (bigdir os),
      plainly (uio os), plainly (exectest os)]"

definition main_usertests ::
  "os \<Rightarrow> (nat \<Rightarrow> int \<Rightarrow> bool) \<Rightarrow> uheap \<Rightarrow> string \<Rightarrow> unit uprog" where
  "main_usertests os grow heap de =
     ubind (printf os 1 ''usertests starting\<newline>'' []) (\<lambda>_.
     ubind (run_steps os
       [(SYS_open ''usertests.ran'' 0, Nonneg, ''already ran user tests -- rebuild fs.img\<newline>'')]) (\<lambda>_.
     ubind (close_open os ''usertests.ran'' O_CREATE) (\<lambda>_.
     ubind (each_buf (\<lambda>t. t) (ut_tests os grow heap de) (replicate 8192 CHR 0x00)) (\<lambda>_.
     exit_u os))))"

end
