(* ===== verification/Usertests_Spec.thy ===== *)
theory Usertests_Spec
  imports Usertests
begin

text \<open>
  What the tests of \<open>usertests.c\<close> establish when they pass. The memory test is a client of the
  allocator: it passes exactly if the kernel grants the first 32 KB.
\<close>

section \<open>The memory test\<close>

text \<open>The list of blocks that \<open>mem\<close> threads through their first words, the latest block first.\<close>

fun block_chain :: "nat \<Rightarrow> (nat \<Rightarrow> nat) \<Rightarrow> block list \<Rightarrow> bool" where
  "block_chain m link [] \<longleftrightarrow> m = 0"
| "block_chain m link (b # A) \<longleftrightarrow> m = fst b + 8 \<and> block_chain (link m) link A"

lemma chain_other: "m \<notin> (\<lambda>b. fst b + 8) ` set A \<Longrightarrow> block_chain k (link(m := v)) A \<longleftrightarrow> block_chain k link A"
  by (induction A arbitrary: k) auto

lemma tight_room: "heap_ok fl A s \<Longrightarrow> tight l fl A s \<Longrightarrow> 8 * units A \<le> 2 ^ 31"
  by (auto simp: heap_ok_def blocks_ok_def tight_def)

lemma new_block_apart:
  assumes "heap_ok fl ((a, n) # A) s"
  shows "a \<notin> fst ` set A"
proof -
  have "blocks_ok fl ((a, n) # A) s" using assms by (simp add: heap_ok_def)
  note b = blocks_okD(2,4) [OF this]
  show ?thesis
  proof
    assume "a \<in> fst ` set A"
    then obtain y where y: "y \<in> set A" "fst y = a" by auto
    then have "apart (a, n) y" "block_ok s (a, n)" "block_ok s y" using b by auto
    then show False using y(2) apart_fst [of "(a, n)" y] by (auto simp: block_ok_def)
  qed
qed

lemma mem_fill_ok:
  assumes "heap_ok fl A s" "tight l fl A s" "block_chain m1 link A" "grows_below grow"
  shows "\<exists>m link' fl' A' t. mem_fill grow m1 link s = Some (m, link', t) \<and> heap_ok fl' A' t \<and>
    tight l fl' A' t \<and> block_chain m link' A' \<and> brk s \<le> brk t"
  using assms(1-3)
proof (induction "2 ^ 31 - 8 * units A" arbitrary: fl A s m1 link rule: less_induct)
  case less
  have init: "malloc_init s = s" using heap_freep [OF less.prems(1)] by (simp add: malloc_init_def)
  obtain r t where r: "malloc grow 10001 s = Some (r, t)" "alloc_ok grow (nunits_of 10001) fl A s r t"
    using malloc_ok [of s fl A 10001 grow] less.prems(1) assms(4) unfolding init by auto
  show ?case
  proof (cases "r = 0")
    case True
    with r have "mem_fill grow m1 link s = Some (m1, link, s)" by (subst mem_fill.simps) (simp add: alloc_ok_def)
    with less.prems show ?thesis by blast
  next
    case False
    let ?b = "(r - 8, nunits_of 10001)"
    obtain fl' where t: "8 \<le> r" "brk s \<le> brk t" "heap_ok fl' (?b # A) t" "tight l fl' (?b # A) t"
      using r(2) False less.prems(2) by (auto simp: alloc_ok_def)
    have "r \<notin> (\<lambda>b. fst b + 8) ` set A" using new_block_apart [OF t(3)] t(1) by force
    then have c: "block_chain r (link(r := m1)) (?b # A)" using less.prems(3) t(1) by (simp add: chain_other)
    have "2 ^ 31 - 8 * units (?b # A) < 2 ^ 31 - 8 * units A"
      using tight_room [OF t(3,4)] by (simp add: nunits_of_def)
    from less.hyps [OF this t(3,4) c] t(2) obtain m link' fl'' A' u where
      "mem_fill grow r (link(r := m1)) t = Some (m, link', u)" "heap_ok fl'' A' u" "tight l fl'' A' u"
      "block_chain m link' A'" "brk s \<le> brk u" by (meson order_trans)
    moreover have "mem_fill grow m1 link s = mem_fill grow r (link(r := m1)) t"
      using r(1) False by (subst mem_fill.simps) simp
    ultimately show ?thesis by auto
  qed
qed

lemma mem_free_ok:
  assumes "heap_ok fl A s" "tight l fl A s" "block_chain m1 link A"
  shows "\<exists>fl' t. mem_free m1 link s = Some t \<and> heap_ok fl' [] t \<and> tight l fl' [] t \<and> brk t = brk s"
  using assms
proof (induction A arbitrary: fl s m1)
  case Nil
  then show ?case by (subst mem_free.simps) auto
next
  case (Cons b A)
  have "heap_ok fl A s" "spare b fl A s" using allocated_spare [OF Cons.prems(1), of b] by auto
  from free_spare [OF this] obtain fl' t where t: "free (fst b + 8) s = Some t" "heap_ok fl' A t"
      "units fl' = units fl + snd b" "fst ` set fl' \<subseteq> fst ` set (b # fl)" "brk t = brk s" by blast
  have "\<forall>a\<in>fst ` set (b # fl). l \<le> a" using Cons.prems(2) by (auto simp: tight_def)
  then have "\<forall>x\<in>set fl'. l \<le> fst x" using t(4) by blast
  then have "tight l fl' A t" using Cons.prems(2) t(3,5) by (simp add: tight_def)
  from Cons.IH [OF t(2) this, of "link m1"] Cons.prems(3) t(1,5) show ?case
    by (subst mem_free.simps) auto
qed

text \<open>With nothing allocated, the free blocks have joined to one.\<close>

lemma all_joined:
  assumes "heap_ok fl [] s" "tight l fl [] s" "l < brk s"
  shows "\<exists>x\<in>set fl. brk s = l + 8 * snd x"
proof -
  have bl: "blocks_ok fl [] s" using assms(1) by (simp add: heap_ok_def)
  obtain x ys where fl: "fl = x # ys" using assms(2,3) by (cases fl) (auto simp: tight_def)
  have le: "l \<le> fst x" and u: "l + 8 * (snd x + units ys) = brk s" using assms(2) by (auto simp: fl tight_def)
  have "ys = []"
  proof (rule ccontr)
    assume "ys \<noteq> []"
    then obtain y zs where ys: "ys = y # zs" by (cases ys) auto
    have "sorted_wrt before ys" "\<forall>z\<in>set ys. before x z" using blocks_okD(3) [OF bl] by (auto simp: fl)
    moreover have "\<forall>z\<in>set ys. fst z + 8 * snd z \<le> brk s" using blocks_okD(1) [OF bl] by (simp add: fl block_ok_def)
    moreover have "fst x + 8 * snd x + 1 \<le> brk s" using calculation by (auto simp: ys before_def)
    ultimately have "fst x + 8 * snd x + 1 + 8 * units ys \<le> brk s"
      by (intro units_le) (auto simp: before_def)
    with u le show False by simp
  qed
  with u show ?thesis by (auto simp: fl)
qed

lemma fresh_tight: "fresh_heap s \<Longrightarrow> heap_ok [] [] (malloc_init s) \<and> tight (brk s) [] [] (malloc_init s)"
  using malloc_init_ok [of s "[]" "[]"] by (simp add: tight_def)


text \<open>A request that nothing on the free list can serve needs the kernel.\<close>

lemma alloc_empty:
  assumes "alloc_ok grow nu [] [] s r t" "tight l [] [] s" "0 < nu" "nu \<le> 4096"
  shows "r \<noteq> 0 \<longleftrightarrow> grow (brk s) 32768" "r \<noteq> 0 \<Longrightarrow> brk s + 32768 \<le> brk t"
proof -
  have "brk t \<noteq> brk s" if "r \<noteq> 0"
  proof -
    obtain fl' where "tight l fl' [(r - 8, nu)] t" using assms(1,2) \<open>r \<noteq> 0\<close> by (auto simp: alloc_ok_def)
    with assms(2,3) show ?thesis by (auto simp: tight_def)
  qed
  then show "r \<noteq> 0 \<longleftrightarrow> grow (brk s) 32768" "r \<noteq> 0 \<Longrightarrow> brk s + 32768 \<le> brk t"
    using assms(1,4) by (auto simp: alloc_ok_def max_absorb1 split: if_splits)
qed

text \<open>The child finds memory for its last request exactly if the kernel grants the first one.\<close>

lemma mem_child_refused:
  assumes "heap_ok [] [] s" "tight l [] [] s" "grows_below grow" "\<not> grow (brk s) 32768"
  shows "malloc grow 20480 s = Some (0, s)"
proof -
  have i: "malloc_init s = s" using heap_freep [OF assms(1)] by (simp add: malloc_init_def)
  obtain q u where q: "malloc grow 20480 s = Some (q, u)" "alloc_ok grow 2561 [] [] s q u"
    using malloc_ok [of s "[]" "[]" 20480 grow] assms(1,3) unfolding i by (auto simp: nunits_of_def)
  then have "q = 0" using alloc_empty(1) [OF q(2) assms(2)] assms(4) by auto
  with q show ?thesis by (simp add: alloc_ok_def)
qed

lemma mem_child_served:
  assumes "heap_ok fl [] s" "tight l fl [] s" "l + 32768 \<le> brk s" "grows_below grow"
  shows "\<exists>q u v. malloc grow 20480 s = Some (q, u) \<and> q \<noteq> 0 \<and> free q u = Some v"
proof -
  have i: "malloc_init s = s" using heap_freep [OF assms(1)] by (simp add: malloc_init_def)
  obtain q u where q: "malloc grow 20480 s = Some (q, u)" "alloc_ok grow 2561 fl [] s q u"
    using malloc_ok [of s fl "[]" 20480 grow] assms(1,4) unfolding i by (auto simp: nunits_of_def)
  obtain x where "x \<in> set fl" "brk s = l + 8 * snd x" using all_joined [OF assms(1,2)] assms(3) by auto
  then have "\<not> (\<forall>x\<in>set fl. snd x < 2561)" using assms(3) by force
  then have "q \<noteq> 0" using q(2) unfolding alloc_ok_def by meson
  with q(2) obtain fl' where "8 \<le> q" "heap_ok fl' [(q - 8, 2561)] u" by (auto simp: alloc_ok_def)
  with allocated_spare [of fl' "[(q - 8, 2561)]" u "(q - 8, 2561)"] free_spare [of fl' "[]" u "(q - 8, 2561)"]
  obtain v where "free q u = Some v" by auto
  with q(1) \<open>q \<noteq> 0\<close> show ?thesis by blast
qed

lemma mem_child_result:
  assumes s: "fresh_heap s" and g: "grows_below grow"
  shows "mem_child grow s = Some (grow (brk s) 32768)"
proof -
  let ?s = "malloc_init s"
  have f: "heap_ok [] [] ?s" "tight (brk s) [] [] ?s" "brk ?s = brk s"
    using fresh_tight [OF s] by (auto simp: tight_def)
  obtain r t where r: "malloc grow 10001 s = Some (r, t)" "alloc_ok grow 1252 [] [] ?s r t"
    using malloc_ok [of s "[]" "[]" 10001 grow] s g by (auto simp: nunits_of_def)
  note e = alloc_empty [OF r(2) f(2), unfolded f(3)]
  show ?thesis
  proof (cases "r = 0")
    case True
    then have no: "\<not> grow (brk s) 32768" "t = ?s" using e(1) r(2) by (auto simp: alloc_ok_def)
    have "mem_fill grow 0 (\<lambda>_. 0) s = Some (0, \<lambda>_. 0, ?s)" using r(1) True no by (subst mem_fill.simps) simp
    moreover have "mem_free 0 (\<lambda>_. 0) ?s = Some ?s" by (subst mem_free.simps) simp
    ultimately show ?thesis
      using no(1) mem_child_refused [OF f(1,2) g] f(3) by (simp add: mem_child_def)
  next
    case False
    obtain fl where t: "8 \<le> r" "heap_ok fl [(r - 8, 1252)] t" "tight (brk s) fl [(r - 8, 1252)] t"
      using r(2) False f(2) by (auto simp: alloc_ok_def)
    have "block_chain r ((\<lambda>_. 0)(r := 0)) [(r - 8, 1252)]" using t(1) by simp
    from mem_fill_ok [OF t(2,3) this g] obtain m k fl' A u where u:
      "mem_fill grow r ((\<lambda>_. 0)(r := 0)) t = Some (m, k, u)" "heap_ok fl' A u" "tight (brk s) fl' A u"
      "block_chain m k A" "brk t \<le> brk u" by blast
    have fill: "mem_fill grow 0 (\<lambda>_. 0) s = Some (m, k, u)"
      using r(1) False u(1) by (subst mem_fill.simps) simp
    obtain fl'' v where v: "mem_free m k u = Some v" "heap_ok fl'' [] v" "tight (brk s) fl'' [] v" "brk v = brk u"
      using mem_free_ok [OF u(2-4)] by blast
    have "brk s + 32768 \<le> brk v" using e(2) False u(5) v(4) by simp
    from mem_child_served [OF v(2,3) this g] fill v(1) e(1) False show ?thesis
      by (auto simp: mem_child_def)
  qed
qed

text \<open>
  C18. The child of the memory test ends whatever the kernel answers: it prints \<open>mem ok\<close> and exits
  exactly if the kernel grants the first 32 KB, however much it grants after that; otherwise it
  prints its complaint and kills the parent. Freeing every block makes the memory whole again.
\<close>

theorem mem_test_decides:
  assumes "fresh_heap s" "grows_below grow"
    "h' = h @ writes 1 ''mem test\<newline>'' @ [SYS_getpid]" "rval (os (h' @ [SYS_fork])) = 0"
  shows "mem_test os grow s h = Some (Gone (h' @ [SYS_fork] @
    (if grow (brk s) 32768 then writes 1 ''mem ok\<newline>''
     else writes 1 ''couldn't allocate mem?!!\<newline>'' @ [SYS_kill (rval (os h'))]) @ [SYS_exit]))"
  using assms(3,4) mem_child_result [OF assms(1,2)]
  by (simp add: mem_test_def quit_def do_u_def user_simps exit_u_def)

theorem mem_test_decides_witness:
  "fresh_heap sample_heap \<and> mem_test (\<lambda>_. RInt 0) any_growth sample_heap [] =
     Some (Gone (writes 1 ''mem test\<newline>'' @ [SYS_getpid, SYS_fork] @ writes 1 ''mem ok\<newline>'' @ [SYS_exit]))"
proof -
  have "fresh_heap sample_heap" "grows_below any_growth" "any_growth (brk sample_heap) 32768"
    by (simp_all add: fresh_heap_def sample_heap_def grows_below_def any_growth_def)
  with mem_test_decides [of sample_heap any_growth _ "[]" "\<lambda>_. RInt 0"] show ?thesis by simp
qed


section \<open>The pipe test\<close>

lemma length_counting [simp]: "length (counting seq n) = n"
  by (simp add: counting_def)

lemma counting_append: "counting seq (m + n) = counting seq m @ counting (seq + m) n"
  by (rule nth_equalityI) (auto simp: counting_def nth_append)

lemma counting_split:
  "xs @ ys = counting seq (length xs + length ys) \<longleftrightarrow>
     xs = counting seq (length xs) \<and> ys = counting (seq + length xs) (length ys)"
  by (simp add: counting_append)

text \<open>The number of bytes asked for doubles with every read, up to the size of the buffer.\<close>

definition pipe1_asks :: "nat \<Rightarrow> nat" where "pipe1_asks k = min (2 ^ k) 8192"

lemma pipe1_asks_Suc: "min (pipe1_asks k * 2) 8192 = pipe1_asks (Suc k)"
  by (simp add: pipe1_asks_def min_def)

definition asked_for :: "string list \<Rightarrow> bool" where
  "asked_for cs \<longleftrightarrow> (\<forall>k<length cs. cs ! k \<noteq> [] \<and> length (cs ! k) \<le> pipe1_asks k)"

text \<open>The reader ends, and accepts what it has read exactly if it is the counting sequence.\<close>

lemma pipe1_read_fed:
  assumes f: "feeds os fd cs" "asked_for cs"
  shows "\<exists>buf' h'. pipe1_read os fd seq (pipe1_asks (reads_of fd h)) buf h =
     (let xs = concat (drop (reads_of fd h) cs)
      in if xs = counting seq (length xs) then Some (Ret (Some (seq + length xs), buf') h')
         else Some (Ret (None, buf') (h' @ writes 1 ''pipe1 oops 2\<newline>'')))"
proof (induction "length cs - reads_of fd h" arbitrary: h seq buf)
  case 0
  then show ?case
    by (subst pipe1_read.simps) (simp add: read_fed [OF f(1)] counting_def)
next
  case (Suc n)
  let ?k = "reads_of fd h" and ?h = "h @ [SYS_read fd (pipe1_asks (reads_of fd h))]"
  let ?c = "cs ! ?k"
  have k: "?k < length cs" using Suc(2) by simp
  then have c: "?c \<noteq> []" "length ?c \<le> pipe1_asks ?k" using f(2) by (auto simp: asked_for_def)
  then have r: "read os fd (pipe1_asks ?k) h = Some (Ret (int (length ?c), ?c) ?h)"
    using k by (simp add: read_fed [OF f(1)] Let_def)
  have d: "concat (drop ?k cs) = ?c @ concat (drop (Suc ?k) cs)"
    using k by (simp add: Cons_nth_drop_Suc [symmetric])
  have k': "reads_of fd ?h = Suc ?k" and "n = length cs - reads_of fd ?h" using Suc(2) by simp_all
  note IH = Suc(1) [OF this(2), of "seq + length ?c" "into ?c buf", unfolded k']
  show ?case
  proof (cases "?c = counting seq (length ?c)")
    case True
    then have "pipe1_read os fd seq (pipe1_asks ?k) buf h =
        pipe1_read os fd (seq + length ?c) (pipe1_asks (Suc ?k)) (into ?c buf) ?h"
      using r c(1) by (subst pipe1_read.simps) (simp add: pipe1_asks_Suc)
    moreover obtain buf' h' where "pipe1_read os fd (seq + length ?c) (pipe1_asks (Suc ?k)) (into ?c buf) ?h =
        (let xs = concat (drop (Suc ?k) cs)
         in if xs = counting (seq + length ?c) (length xs) then Some (Ret (Some (seq + length ?c + length xs), buf') h')
            else Some (Ret (None, buf') (h' @ writes 1 ''pipe1 oops 2\<newline>'')))"
      using IH by blast
    ultimately show ?thesis
      using True unfolding d by (intro exI [of _ buf'] exI [of _ h']) (simp add: counting_split add.assoc Let_def)
  next
    case False
    then have "pipe1_read os fd seq (pipe1_asks ?k) buf h =
        Some (Ret (None, into ?c buf) (?h @ writes 1 ''pipe1 oops 2\<newline>''))"
      using r c(1) by (subst pipe1_read.simps) (simp add: user_simps)
    with False show ?thesis unfolding d by (auto simp: counting_split)
  qed
qed

lemma pipe1_writes:
  assumes "\<And>h bs. rval (os (h @ [SYS_write fd bs])) = int (length bs)"
  shows "\<exists>buf'. each_buf (pipe1_write os fd) is buf h =
     Some (Ret buf' (h @ map (\<lambda>i. SYS_write fd (counting (i * 1033) 1033)) is))"
proof (induction "is" arbitrary: buf h)
  case (Cons i "is")
  let ?b = "into (counting (i * 1033) 1033) buf"
  have "take 1033 ?b = counting (i * 1033) 1033" by (simp add: into_def)
  then have "pipe1_write os fd i buf h = Some (Ret ?b (h @ [SYS_write fd (counting (i * 1033) 1033)]))"
    by (simp add: pipe1_write_def user_simps assms)
  with Cons [of ?b "h @ [SYS_write fd (counting (i * 1033) 1033)]"] show ?case by simp
qed simp

lemma counting_pieces: "concat (map (\<lambda>j. counting (j * 1033) 1033) [0..<n]) = counting 0 (n * 1033)"
proof (induction n)
  case (Suc n)
  then show ?case using counting_append [of 0 "n * 1033" 1033] by (simp add: add.commute)
qed (simp add: counting_def)

text \<open>A run that ends by returning, with a message as its last output.\<close>

definition ends_saying :: "string \<Rightarrow> 'a uout option \<Rightarrow> bool" where
  "ends_saying msg r \<longleftrightarrow> (\<exists>a h. r = Some (Ret a (h @ writes 1 msg)))"

lemma says_other:
  assumes "length m \<le> length msg" "drop (length msg - length m) msg \<noteq> m"
  shows "h @ writes 1 msg \<noteq> h' @ writes 1 m"
proof
  assume "h @ writes 1 msg = h' @ writes 1 m"
  then have "drop (length (h @ writes 1 msg) - length m) (h @ writes 1 msg) = writes 1 m"
    by (simp add: writes_def)
  then have "drop (length msg - length m) (writes 1 msg) = writes 1 m"
    using assms(1) by (simp add: writes_def)
  then have "map (\<lambda>c. SYS_write 1 [c]) (drop (length msg - length m) msg) = map (\<lambda>c. SYS_write 1 [c]) m"
    by (simp add: writes_def drop_map)
  then show False using assms(2) by (simp add: inj_map_eq_map inj_on_def)
qed

text \<open>The parent, after it has read everything.\<close>

definition pipe1_end :: "os \<Rightarrow> int \<Rightarrow> nat option \<times> string \<Rightarrow> string uprog" where
  "pipe1_end os rd = (\<lambda>(tot, buf).
     case tot of
       None \<Rightarrow> ret buf
     | Some tot \<Rightarrow>
         if tot \<noteq> 5 * 1033 then quit os 1 ''pipe1 oops 3 total %d\<newline>'' [PNum (of_nat tot)]
         else
           ubind (do_u os (SYS_close rd)) (\<lambda>_.
           ubind (do_u os SYS_wait) (\<lambda>_.
           ubind (printf os 1 ''pipe1 ok\<newline>'' []) (\<lambda>_. ret buf))))"

lemma pipe1_parent:
  assumes "os (h @ [SYS_pipe]) = RPipe rd wr" "0 < rval (os (h @ [SYS_pipe, SYS_fork]))"
  shows "pipe1 os buf h =
    ubind (pipe1_read os rd 0 1 buf) (pipe1_end os rd) (h @ [SYS_pipe, SYS_fork, SYS_close wr])"
proof -
  have "pipe_u os h = Some (Ret (0, rd, wr) (h @ [SYS_pipe]))" using assms(1) by (simp add: pipe_u_def user_simps)
  with assms(2) show ?thesis by (simp add: pipe1_def pipe1_end_def do_u_def user_simps)
qed

lemma pipe1_end_ok: "ends_saying ''pipe1 ok\<newline>'' (pipe1_end os rd (Some 5165, buf) h)"
proof -
  have "printf os 1 ''pipe1 ok\<newline>'' [] k = Some (Ret () (k @ writes 1 ''pipe1 ok\<newline>''))" for k
    by (simp add: printf_text)
  then have "pipe1_end os rd (Some 5165, buf) h =
      Some (Ret buf ((h @ [SYS_close rd, SYS_wait]) @ writes 1 ''pipe1 ok\<newline>''))"
    by (simp add: pipe1_end_def do_u_def ubind_call del: writes_simps)
  then show ?thesis unfolding ends_saying_def by blast
qed

lemma pipe1_end_total:
  assumes "n \<noteq> 5165"
  shows "\<exists>h'. pipe1_end os rd (Some n, buf) h = Some (Gone h')"
  using assms by (simp add: pipe1_end_def quit_def exit_u_def printf_text conv_text_def)


lemma pipe1_parent_decides:
  assumes "os (h @ [SYS_pipe]) = RPipe rd wr" "0 < rval (os (h @ [SYS_pipe, SYS_fork]))"
    "feeds os rd cs" "asked_for cs" "reads_of rd h = 0"
  shows "pipe1 os buf h \<noteq> None \<and>
    (ends_saying ''pipe1 ok\<newline>'' (pipe1 os buf h) \<longleftrightarrow> concat cs = counting 0 5165)"
proof -
  define xs where "xs = concat cs"
  let ?h = "h @ [SYS_pipe, SYS_fork, SYS_close wr]"
  have r: "reads_of rd ?h = 0" using assms(5) by (simp add: reads_of_def)
  obtain b h' where rd: "pipe1_read os rd 0 1 buf ?h =
      (if xs = counting 0 (length xs) then Some (Ret (Some (length xs), b) h')
       else Some (Ret (None, b) (h' @ writes 1 ''pipe1 oops 2\<newline>'')))"
    using pipe1_read_fed [OF assms(3,4), of 0 ?h buf, unfolded r drop_0 xs_def [symmetric] Let_def add_0]
    by (auto simp: pipe1_asks_def)
  note eq = pipe1_parent [OF assms(1,2), of buf]
  show ?thesis
  proof (cases "xs = counting 0 (length xs)")
    case True
    then have p: "pipe1 os buf h = pipe1_end os rd (Some (length xs), b) h'" unfolding eq using rd by simp
    show ?thesis
    proof (cases "length xs = 5165")
      case T: True
      then have "ends_saying ''pipe1 ok\<newline>'' (pipe1 os buf h)" unfolding p using pipe1_end_ok by simp
      then show ?thesis using True T by (auto simp: xs_def ends_saying_def)
    next
      case False
      then have "xs \<noteq> counting 0 5165" by auto
      with pipe1_end_total [OF False, of os rd b h'] show ?thesis by (auto simp: p xs_def ends_saying_def)
    qed
  next
    case False
    then have p: "pipe1 os buf h = Some (Ret b (h' @ writes 1 ''pipe1 oops 2\<newline>''))"
      unfolding eq using rd by (simp add: pipe1_end_def del: writes_simps)
    have "h' @ writes 1 ''pipe1 oops 2\<newline>'' \<noteq> k @ writes 1 ''pipe1 ok\<newline>''" for k by (rule says_other) simp_all
    then have "\<not> ends_saying ''pipe1 ok\<newline>'' (pipe1 os buf h)" unfolding p ends_saying_def by blast
    with False p show ?thesis unfolding xs_def by auto
  qed
qed

lemma pipe1_child_writes:
  assumes "os (h @ [SYS_pipe]) = RPipe rd wr" "rval (os (h @ [SYS_pipe, SYS_fork])) = 0"
    "\<And>h bs. rval (os (h @ [SYS_write wr bs])) = int (length bs)"
  shows "\<exists>ws. pipe1 os buf h =
      Some (Gone (h @ [SYS_pipe, SYS_fork, SYS_close rd] @ map (SYS_write wr) ws @ [SYS_exit])) \<and>
    concat ws = counting 0 5165"
proof -
  let ?ws = "map (\<lambda>i. counting (i * 1033) 1033) [0..<5]" and ?h = "h @ [SYS_pipe, SYS_fork, SYS_close rd]"
  have "pipe_u os h = Some (Ret (0, rd, wr) (h @ [SYS_pipe]))" using assms(1) by (simp add: pipe_u_def user_simps)
  moreover obtain b where "each_buf (pipe1_write os wr) [0..<5] buf ?h = Some (Ret b (?h @ map (SYS_write wr) ?ws))"
    using pipe1_writes [OF assms(3), of "[0..<5]" buf ?h] by (auto simp: comp_def simp del: upt_rec_numeral)
  ultimately have "pipe1 os buf h = Some (Gone (?h @ map (SYS_write wr) ?ws @ [SYS_exit]))"
    using assms(2) by (simp add: pipe1_def do_u_def ubind_call ubind_call_int exit_u_def del: upt_rec_numeral)
  moreover have "concat ?ws = counting 0 5165" using counting_pieces [of 5] by simp
  ultimately show ?thesis by (intro exI [of _ ?ws]) simp
qed

text \<open>
  C19. The pipe test decides what it is meant to decide. The child writes the counting sequence of
  5165 bytes. The parent, fed by the pipe in pieces of at most the sizes it asks for, always ends,
  and reports success exactly if the pieces together are that sequence: no byte lost, added, changed
  or out of order.
\<close>

theorem pipe1_decides:
  assumes "os (h @ [SYS_pipe]) = RPipe rd wr" "feeds os rd cs" "asked_for cs" "reads_of rd h = 0"
    "\<forall>h bs. rval (os (h @ [SYS_write wr bs])) = int (length bs)"
  shows "(0 < rval (os (h @ [SYS_pipe, SYS_fork])) \<longrightarrow>
      pipe1 os buf h \<noteq> None \<and>
      (ends_saying ''pipe1 ok\<newline>'' (pipe1 os buf h) \<longleftrightarrow> concat cs = counting 0 5165)) \<and>
    (rval (os (h @ [SYS_pipe, SYS_fork])) = 0 \<longrightarrow>
      (\<exists>ws. pipe1 os buf h =
          Some (Gone (h @ [SYS_pipe, SYS_fork, SYS_close rd] @ map (SYS_write wr) ws @ [SYS_exit])) \<and>
        concat ws = counting 0 5165))"
  using pipe1_parent_decides [of os h rd wr cs buf] pipe1_child_writes [of os h rd wr buf] assms by blast

text \<open>A kernel whose pipe loses everything: the parent sees the end at once, and notices.\<close>

definition lossy_pipe :: os where
  "lossy_pipe h =
     (case last h of
        SYS_pipe \<Rightarrow> RPipe 3 4 | SYS_fork \<Rightarrow> RInt 7 | SYS_read fd n \<Rightarrow> RBytes []
      | SYS_write fd bs \<Rightarrow> RInt (int (length bs)) | _ \<Rightarrow> RInt 0)"

theorem pipe1_decides_witness:
  "feeds lossy_pipe 3 [] \<and> pipe1 lossy_pipe [] [] \<noteq> None \<and> \<not> ends_saying ''pipe1 ok\<newline>'' (pipe1 lossy_pipe [] [])"
proof -
  have "feeds lossy_pipe 3 []" "asked_for []" by (simp_all add: feeds_def asked_for_def lossy_pipe_def)
  moreover have "counting 0 5165 \<noteq> []" by (simp flip: length_greater_0_conv)
  ultimately show ?thesis
    using pipe1_decides [of lossy_pipe "[]" 3 4 "[]" "[]"] by (auto simp: lossy_pipe_def)
qed

section \<open>What two tests miss\<close>

text \<open>
  The test of large files stops on one missing block only: a kernel that delivers nothing at all of
  the file written passes its read loop.
\<close>

lemma read_blocks1_blind:
  assumes "os (h @ [SYS_read fd 512]) = RBytes []"
  shows "read_blocks1 os fd 0 buf h = Some (Ret buf (h @ [SYS_read fd 512]))"
  using assms by (subst read_blocks1.simps) (simp add: read_def ubind_call MAXFILE_def NDIRECT_def NINDIRECT_def)

text \<open>The last loop of \<open>createdelete\<close> never removes a file whose two letters differ in rank.\<close>

lemma createdelete_leaves:
  assumes "pi < 4" "j < 20" "pi \<noteq> j" "i < 20"
  shows "cd_name pi j \<noteq> cd_name i i"
proof
  assume "cd_name pi j = cd_name i i"
  then have "of_char (char_of (112 + pi) :: char) = (of_char (char_of (112 + i) :: char) :: nat)"
    "of_char (char_of (48 + j) :: char) = (of_char (char_of (48 + i) :: char) :: nat)"
    by (simp_all add: cd_name_def digit_def)
  with assms show False by (simp only: of_char_of) simp
qed

end

