(* ===== verification/Mp.thy ===== *)
theory Mp
  imports Trap_Spec
begin

text \<open>
  What the kernel learns from the machine when it starts: the configuration tables of a
  multiprocessor (\<open>mp.c\<close>, \<open>mp.h\<close>), the old interrupt controllers (\<open>picirq.c\<close>), the start of another
  processor and the clock of the CMOS memory (\<open>lapic.c\<close>). The structures of the tables are read from
  memory at their offsets. A search or a loop over the tables that does not end is \<open>None\<close>, and
  \<open>Spin\<close> in \<open>mpinit\<close>. A null pointer is 0.
\<close>

section \<open>State\<close>

text \<open>
  \<open>port_log\<close> are the bytes written to I/O ports, oldest first; \<open>imcr\<close> is what the port 0x23 reads and
  \<open>cmos n r\<close> the clock register \<open>r\<close> at the \<open>n\<close>-th read.
\<close>

record pcstate = tstate +
  ioapicid :: u8
  port_log :: "(nat \<times> u8) list"
  imcr :: u8
  cmos :: "nat \<Rightarrow> u32 \<Rightarrow> u8"
  cmos_reads :: nat

definition pc_outb :: "nat \<Rightarrow> u8 \<Rightarrow> 'z pcstate_scheme \<Rightarrow> 'z pcstate_scheme" where
  "pc_outb p v s = s\<lparr>port_log := port_log s @ [(p, v)]\<rparr>"

section \<open>Finding the tables\<close>

definition MPPROC :: u8 where "MPPROC = 0"
definition MPBUS :: u8 where "MPBUS = 1"
definition MPIOAPIC :: u8 where "MPIOAPIC = 2"
definition MPIOINTR :: u8 where "MPIOINTR = 3"
definition MPLINTR :: u8 where "MPLINTR = 4"

lemmas mp_types = MPPROC_def MPBUS_def MPIOAPIC_def MPIOINTR_def MPLINTR_def

text \<open>The bytes at an address.\<close>

definition at :: "mem \<Rightarrow> u32 \<Rightarrow> bytes" where
  "at m a i = m (unat (a + of_nat i))"

definition str_bytes :: "string \<Rightarrow> bytes" where
  "str_bytes t i = (if i < length t then of_char (t ! i) else 0)"

definition mp_sum :: "mem \<Rightarrow> u32 \<Rightarrow> nat \<Rightarrow> u8" where
  "mp_sum m addr len = sum_list (map (at m addr) [0..<len])"

text \<open>The floating pointer structure: its address field and its \<open>imcrp\<close> byte.\<close>

definition MP_SIZE :: nat where "MP_SIZE = 16"
definition mp_physaddr :: "mem \<Rightarrow> u32 \<Rightarrow> u32" where "mp_physaddr m mp = ld32 m (mp + 4)"
definition mp_imcrp :: "mem \<Rightarrow> u32 \<Rightarrow> u8" where "mp_imcrp m mp = at m mp 12"

text \<open>The header of the configuration table.\<close>

definition MPCONF_SIZE :: nat where "MPCONF_SIZE = 44"
definition conf_length :: "mem \<Rightarrow> u32 \<Rightarrow> nat" where
  "conf_length m conf = unat (at m conf 4) + 256 * unat (at m conf 5)"
definition conf_version :: "mem \<Rightarrow> u32 \<Rightarrow> u8" where "conf_version m conf = at m conf 6"
definition conf_lapicaddr :: "mem \<Rightarrow> u32 \<Rightarrow> u32" where "conf_lapicaddr m conf = ld32 m (conf + 36)"

partial_function (option) mpsearch_loop :: "mem \<Rightarrow> u32 \<Rightarrow> u32 \<Rightarrow> u32 option" where
  "mpsearch_loop m p e =
     (if p < e then
        if memcmp (at m p) (str_bytes ''_MP_'') 4 = 0 \<and> mp_sum m p MP_SIZE = 0 then Some p
        else mpsearch_loop m (p + of_nat MP_SIZE) e
      else Some 0)"

definition mpsearch1 :: "mem \<Rightarrow> u32 \<Rightarrow> u32 \<Rightarrow> u32 option" where
  "mpsearch1 m a len = mpsearch_loop m (P2V a) (P2V a + len)"

definition mpsearch :: "mem \<Rightarrow> u32 option" where
  "mpsearch m =
     (let bda = P2V 0x400;
          p = push_bit 4 (push_bit 8 (ucast (at m bda 0x0F)) OR ucast (at m bda 0x0E)) :: u32
      in Option.bind
           (if p \<noteq> 0 then mpsearch1 m p 1024
            else mpsearch1 m ((push_bit 8 (ucast (at m bda 0x14)) OR ucast (at m bda 0x13)) * 1024 - 1024) 1024)
           (\<lambda>mp. if mp \<noteq> 0 then Some mp else mpsearch1 m 0xF0000 0x10000))"

text \<open>The structure and the table it leads to; \<open>Some None\<close> is a null pointer.\<close>

definition mpconfig :: "mem \<Rightarrow> (u32 \<times> u32) option option" where
  "mpconfig m =
     Option.bind (mpsearch m) (\<lambda>mp.
     if mp = 0 \<or> mp_physaddr m mp = 0 then Some None
     else
       let conf = P2V (mp_physaddr m mp)
       in if memcmp (at m conf) (str_bytes ''PCMP'') 4 \<noteq> 0 then Some None
          else if conf_version m conf \<noteq> 1 \<and> conf_version m conf \<noteq> 4 then Some None
          else if mp_sum m conf (conf_length m conf) \<noteq> 0 then Some None
          else Some (Some (mp, conf)))"

section \<open>Reading the table\<close>

definition add_cpu :: "u8 \<Rightarrow> 'z kstate_scheme \<Rightarrow> 'z kstate_scheme" where
  "add_cpu apicid s =
     (if ncpu s < NCPU then (upd_cpu (ncpu s) (\<lambda>r. r\<lparr>c_apicid := unat apicid\<rparr>) s)\<lparr>ncpu := ncpu s + 1\<rparr>
      else s)"

text \<open>
  The loop over the entries. In the source the \<open>break\<close> of the \<open>default\<close> case leaves the \<open>switch\<close>, not
  the loop, so an entry of an unknown type is looked at again.
\<close>

partial_function (option) mp_entries :: "u32 \<Rightarrow> u32 \<Rightarrow> bool \<Rightarrow> 'z pcstate_scheme \<Rightarrow> (bool \<times> 'z pcstate_scheme) option" where
  "mp_entries p e ismp s =
     (if p < e then
        let ty = kram s (unat p)
        in if ty = MPPROC then mp_entries (p + 20) e ismp (add_cpu (at (kram s) p 1) s)
           else if ty = MPIOAPIC then mp_entries (p + 8) e ismp (s\<lparr>ioapicid := at (kram s) p 1\<rparr>)
           else if ty = MPBUS \<or> ty = MPIOINTR \<or> ty = MPLINTR then mp_entries (p + 8) e ismp s
           else mp_entries p e False s
      else Some (ismp, s))"

definition mpinit :: "'z pcstate_scheme \<Rightarrow> (unit, 'z pcstate_scheme) res" where
  "mpinit s =
     (case mpconfig (kram s) of
        None \<Rightarrow> Spin
      | Some None \<Rightarrow> Panic ''Expect to run on an SMP''
      | Some (Some (mp, conf)) \<Rightarrow>
          let s = s\<lparr>lapic_found := (conf_lapicaddr (kram s) conf \<noteq> 0)\<rparr>
          in case mp_entries (conf + of_nat MPCONF_SIZE) (conf + of_nat (conf_length (kram s) conf)) True s of
               None \<Rightarrow> Spin
             | Some (ismp, s) \<Rightarrow>
                 if \<not> ismp then Panic (''Didn'' @ [CHR 0x27] @ ''t find a suitable machine'')
                 else if mp_imcrp (kram s) mp \<noteq> 0 then
                   Ok () (pc_outb 0x23 (imcr s OR 1) (pc_outb 0x22 0x70 s))
                 else Ok () s)"

section \<open>The old interrupt controllers\<close>

definition IO_PIC1 :: nat where "IO_PIC1 = 0x20"
definition IO_PIC2 :: nat where "IO_PIC2 = 0xA0"

definition picinit :: "'z pcstate_scheme \<Rightarrow> 'z pcstate_scheme" where
  "picinit s = pc_outb (IO_PIC2 + 1) 0xFF (pc_outb (IO_PIC1 + 1) 0xFF s)"

section \<open>Starting a processor\<close>

definition CMOS_PORT :: nat where "CMOS_PORT = 0x70"
definition CMOS_RETURN :: nat where "CMOS_RETURN = 0x71"

definition lapicstartap :: "u8 \<Rightarrow> u32 \<Rightarrow> 'z pcstate_scheme \<Rightarrow> 'z pcstate_scheme" where
  "lapicstartap apicid addr s =
     (let s = pc_outb CMOS_PORT 0xF s;
          s = pc_outb (CMOS_PORT + 1) 0x0A s;
          wrv = P2V (push_bit 4 0x40 OR 0x67);
          s = s\<lparr>kram := (kram s)(unat wrv := 0, unat (wrv + 1) := 0, unat (wrv + 2) := ucast (drop_bit 4 addr),
                                 unat (wrv + 3) := ucast (drop_bit 12 addr))\<rparr>;
          s = lapicw ICRHI (push_bit 24 (ucast apicid)) s;
          s = lapicw ICRLO (INIT OR LEVEL OR ASSERT) s;
          s = lapicw ICRLO (INIT OR LEVEL) s;
          s = lapicw ICRHI (push_bit 24 (ucast apicid)) s;
          s = lapicw ICRLO (STARTUP OR drop_bit 12 addr) s;
          s = lapicw ICRHI (push_bit 24 (ucast apicid)) s
      in lapicw ICRLO (STARTUP OR drop_bit 12 addr) s)"

section \<open>The clock\<close>

definition CMOS_STATA :: u32 where "CMOS_STATA = 0x0a"
definition CMOS_STATB :: u32 where "CMOS_STATB = 0x0b"
definition CMOS_UIP :: u32 where "CMOS_UIP = 0x80"
definition SECS :: u32 where "SECS = 0"
definition MINS :: u32 where "MINS = 2"
definition HOURS :: u32 where "HOURS = 4"
definition DAY :: u32 where "DAY = 7"
definition MONTH :: u32 where "MONTH = 8"
definition YEAR :: u32 where "YEAR = 9"

lemmas cmos_defs = CMOS_STATA_def CMOS_STATB_def CMOS_UIP_def SECS_def MINS_def HOURS_def DAY_def MONTH_def YEAR_def

record rtcdate =
  rtc_second :: u32
  rtc_minute :: u32
  rtc_hour :: u32
  rtc_day :: u32
  rtc_month :: u32
  rtc_year :: u32

definition cmos_read :: "u32 \<Rightarrow> 'z pcstate_scheme \<Rightarrow> u32 \<times> 'z pcstate_scheme" where
  "cmos_read reg s =
     (let s = pc_outb CMOS_PORT (ucast reg) s
      in (ucast (cmos s (cmos_reads s) reg), s\<lparr>cmos_reads := cmos_reads s + 1\<rparr>))"

definition fill_rtcdate :: "'z pcstate_scheme \<Rightarrow> rtcdate \<times> 'z pcstate_scheme" where
  "fill_rtcdate s =
     (let (sec, s) = cmos_read SECS s;
          (mnt, s) = cmos_read MINS s;
          (hour, s) = cmos_read HOURS s;
          (day, s) = cmos_read DAY s;
          (month, s) = cmos_read MONTH s;
          (year, s) = cmos_read YEAR s
      in (\<lparr>rtc_second = sec, rtc_minute = mnt, rtc_hour = hour, rtc_day = day, rtc_month = month, rtc_year = year\<rparr>, s))"

partial_function (option) cmos_loop :: "'z pcstate_scheme \<Rightarrow> (rtcdate \<times> 'z pcstate_scheme) option" where
  "cmos_loop s =
     (let (t1, s) = fill_rtcdate s;
          (a, s) = cmos_read CMOS_STATA s
      in if a AND CMOS_UIP \<noteq> 0 then cmos_loop s
         else
           let (t2, s) = fill_rtcdate s
           in if t1 = t2 then Some (t1, s) else cmos_loop s)"

definition CONV :: "u32 \<Rightarrow> u32" where "CONV x = drop_bit 4 x * 10 + (x AND 0xf)"

definition cmostime :: "'z pcstate_scheme \<Rightarrow> (rtcdate \<times> 'z pcstate_scheme) option" where
  "cmostime s =
     (let (sb, s) = cmos_read CMOS_STATB s;
          bcd = (sb AND push_bit 2 1 = 0)
      in Option.bind (cmos_loop s) (\<lambda>(t1, s).
         let t1 = (if bcd then \<lparr>rtc_second = CONV (rtc_second t1), rtc_minute = CONV (rtc_minute t1),
                                rtc_hour = CONV (rtc_hour t1), rtc_day = CONV (rtc_day t1),
                                rtc_month = CONV (rtc_month t1), rtc_year = CONV (rtc_year t1)\<rparr>
                   else t1)
         in Some (t1\<lparr>rtc_year := rtc_year t1 + 2000\<rparr>, s)))"

section \<open>The search ends\<close>

definition mp_valid :: "mem \<Rightarrow> u32 \<Rightarrow> bool" where
  "mp_valid m p \<longleftrightarrow> (\<forall>i<4. at m p i = str_bytes ''_MP_'' i) \<and> mp_sum m p MP_SIZE = 0"

lemma mpsearch_loop_finds:
  assumes "unat e + 16 \<le> 2 ^ 32" "p \<noteq> 0"
  shows "\<exists>r. mpsearch_loop m p e = Some r \<and>
    (if r = 0 then \<forall>i. unat p + 16 * i < unat e \<longrightarrow> \<not> mp_valid m (p + of_nat (16 * i))
     else \<exists>i. r = p + of_nat (16 * i) \<and> unat p + 16 * i < unat e \<and> mp_valid m r \<and>
       (\<forall>j<i. \<not> mp_valid m (p + of_nat (16 * j))))"
  using assms(2)
proof (induction "unat e - unat p" arbitrary: p rule: less_induct)
  case less
  show ?case
  proof (cases "p < e \<and> \<not> mp_valid m p")
    case True
    then have le: "unat p < unat e" by (simp add: word_less_nat_alt)
    have p16: "unat (p + 16) = unat p + 16" using le assms(1) by (simp add: unat_word_ariths)
    then have "unat e - unat (p + 16) < unat e - unat p" "p + 16 \<noteq> 0" using le by auto
    from less.hyps [OF this] obtain r where r: "mpsearch_loop m (p + 16) e = Some r"
      "if r = 0 then \<forall>i. unat p + 16 + 16 * i < unat e \<longrightarrow> \<not> mp_valid m (p + 16 + of_nat (16 * i))
       else \<exists>i. r = p + 16 + of_nat (16 * i) \<and> unat p + 16 + 16 * i < unat e \<and> mp_valid m r \<and>
         (\<forall>j<i. \<not> mp_valid m (p + 16 + of_nat (16 * j)))"
      unfolding p16 by blast
    have "mpsearch_loop m p e = Some r"
      using True r(1) by (subst mpsearch_loop.simps) (auto simp: mp_valid_def memcmp_zero MP_SIZE_def)
    moreover have "\<not> mp_valid m (p + of_nat (16 * i))" if "r = 0" "unat p + 16 * i < unat e" for i
      using that r(2) True by (cases i) (auto simp: add.assoc)
    moreover have "\<exists>i. r = p + of_nat (16 * i) \<and> unat p + 16 * i < unat e \<and> mp_valid m r \<and>
        (\<forall>j<i. \<not> mp_valid m (p + of_nat (16 * j)))" if nz: "r \<noteq> 0"
    proof -
      obtain i where i: "r = p + 16 + of_nat (16 * i)" "unat p + 16 + 16 * i < unat e" "mp_valid m r"
        "\<And>j. j < i \<Longrightarrow> \<not> mp_valid m (p + 16 + of_nat (16 * j))" using r(2) nz by auto
      have "\<not> mp_valid m (p + of_nat (16 * j))" if "j < Suc i" for j
        using i(4) that True by (cases j) (auto simp: add.assoc)
      with i(1-3) show ?thesis by (intro exI [of _ "Suc i"]) (auto simp: add.assoc)
    qed
    ultimately show ?thesis by auto
  next
    case False
    then have "mpsearch_loop m p e = Some (if p < e then p else 0)"
      by (subst mpsearch_loop.simps) (auto simp: mp_valid_def memcmp_zero)
    then show ?thesis using False less.prems by (auto simp: word_less_nat_alt intro!: exI [of _ 0])
  qed
qed

text \<open>The search always ends, and what it finds has the signature and the checksum.\<close>

lemma mpsearch1_ends:
  assumes "unat (P2V a + len) + 16 \<le> 2 ^ 32" "P2V a \<noteq> 0"
  shows "\<exists>r. mpsearch1 m a len = Some r \<and> (r \<noteq> 0 \<longrightarrow> mp_valid m r)"
  using mpsearch_loop_finds [OF assms, of m] unfolding mpsearch1_def by (auto split: if_splits)

lemma P2V_low:
  assumes "unat a < 0x7FFE0000" "unat len \<le> 0x10000"
  shows "unat (P2V a + len) + 16 \<le> 2 ^ 32" "P2V a \<noteq> 0"
proof -
  have "unat (P2V a) = unat a + 0x80000000"
    using assms(1) by (simp add: P2V_def KERNBASE_def unat_word_ariths)
  then show "unat (P2V a + len) + 16 \<le> 2 ^ 32" "P2V a \<noteq> 0"
    using assms by (auto simp: unat_word_ariths)
qed

lemma two_bytes: "unat (push_bit 8 (ucast (x :: u8)) OR ucast (y :: u8) :: u32) \<le> 0xFFFF"
proof -
  have "(push_bit 8 (ucast x) OR ucast y :: u32) = (push_bit 8 (ucast x) OR ucast y) AND mask 16"
    by (rule bit_word_eqI) (auto simp: bit_simps dest: bit_imp_le_length)
  then have "(push_bit 8 (ucast x) OR ucast y :: u32) \<le> mask 16" by (metis word_and_le1)
  then show ?thesis by (simp add: word_le_nat_alt mask_eq_exp_minus_1)
qed

lemma ebda_low: "unat w \<le> 0xFFFF \<Longrightarrow> unat (push_bit 4 w :: u32) < 0x7FFE0000"
  by (simp add: push_bit_eq_mult unat_word_ariths)

lemma base_mem_search:
  assumes "unat w \<le> 0xFFFF"
  shows "unat (P2V (w * 1024 - 1024) + 1024) + 16 \<le> 2 ^ 32" "P2V (w * 1024 - 1024) \<noteq> 0"
proof -
  have w: "unat (w * 1024) = unat w * 1024" using assms by (simp add: unat_word_ariths)
  have e: "P2V (w * 1024 - 1024) + 1024 = 0x80000000 + w * 1024" by (simp add: P2V_def KERNBASE_def)
  have u: "unat (0x80000000 + w * 1024) = 0x80000000 + unat w * 1024"
    using assms w by (simp add: unat_word_ariths)
  show "unat (P2V (w * 1024 - 1024) + 1024) + 16 \<le> 2 ^ 32" unfolding e u using assms by simp
  show "P2V (w * 1024 - 1024) \<noteq> 0"
  proof
    assume "P2V (w * 1024 - 1024) = 0"
    then have "0x80000000 + w * 1024 = 1024" using e by (metis add_0)
    then have "unat (0x80000000 + w * 1024) = unat (1024 :: u32)" by (rule arg_cong)
    then show False unfolding u by simp
  qed
qed

lemma mpsearch_ends: "\<exists>mp. mpsearch m = Some mp \<and> (mp \<noteq> 0 \<longrightarrow> mp_valid m mp)"
proof -
  define w where "w = (push_bit 8 (ucast (at m (P2V 0x400) 0x0F)) OR ucast (at m (P2V 0x400) 0x0E) :: u32)"
  define v where "v = (push_bit 8 (ucast (at m (P2V 0x400) 0x14)) OR ucast (at m (P2V 0x400) 0x13) :: u32)"
  have le: "unat w \<le> 0xFFFF" "unat v \<le> 0xFFFF" unfolding w_def v_def by (rule two_bytes)+
  have a: "\<exists>r. mpsearch1 m (push_bit 4 w) 1024 = Some r \<and> (r \<noteq> 0 \<longrightarrow> mp_valid m r)"
    using P2V_low [OF ebda_low [OF le(1)], of 1024] by (intro mpsearch1_ends) simp_all
  have b: "\<exists>r. mpsearch1 m (v * 1024 - 1024) 1024 = Some r \<and> (r \<noteq> 0 \<longrightarrow> mp_valid m r)"
    using base_mem_search [OF le(2)] by (intro mpsearch1_ends) simp_all
  have c: "\<exists>r. mpsearch1 m 0xF0000 0x10000 = Some r \<and> (r \<noteq> 0 \<longrightarrow> mp_valid m r)"
    using P2V_low [of "0xF0000" "0x10000"] by (intro mpsearch1_ends) simp_all
  have "mpsearch m = Option.bind
      (if push_bit 4 w \<noteq> 0 then mpsearch1 m (push_bit 4 w) 1024 else mpsearch1 m (v * 1024 - 1024) 1024)
      (\<lambda>mp. if mp \<noteq> 0 then Some mp else mpsearch1 m 0xF0000 0x10000)"
    unfolding mpsearch_def w_def v_def Let_def ..
  moreover obtain r where "(if push_bit 4 w \<noteq> 0 then mpsearch1 m (push_bit 4 w) 1024
      else mpsearch1 m (v * 1024 - 1024) 1024) = Some r" "r \<noteq> 0 \<longrightarrow> mp_valid m r"
    using a b by metis
  ultimately have "mpsearch m = (if r \<noteq> 0 then Some r else mpsearch1 m 0xF0000 0x10000)" by (simp only: bind.simps)
  with c \<open>r \<noteq> 0 \<longrightarrow> mp_valid m r\<close> show ?thesis by (cases "r = 0") simp_all
qed

lemma mpconfig_ends: "\<exists>r. mpconfig m = Some r"
  using mpsearch_ends [of m] by (auto simp: mpconfig_def Let_def)

section \<open>The entries\<close>

text \<open>An entry of the table: a processor, an interrupt controller, or another of the known types.\<close>

datatype mp_entry = EntProc u8 "u8 list" | EntIoapic u8 "u8 list" | EntOther u8 "u8 list"

fun entry_bytes :: "mp_entry \<Rightarrow> u8 list" where
  "entry_bytes (EntProc apicid r) = MPPROC # apicid # r"
| "entry_bytes (EntIoapic apicno r) = MPIOAPIC # apicno # r"
| "entry_bytes (EntOther ty r) = ty # r"

fun entry_ok :: "mp_entry \<Rightarrow> bool" where
  "entry_ok (EntProc apicid r) \<longleftrightarrow> length r = 18"
| "entry_ok (EntIoapic apicno r) \<longleftrightarrow> length r = 6"
| "entry_ok (EntOther ty r) \<longleftrightarrow> (ty = MPBUS \<or> ty = MPIOINTR \<or> ty = MPLINTR) \<and> length r = 7"

definition table_bytes :: "mp_entry list \<Rightarrow> u8 list" where
  "table_bytes es = concat (map entry_bytes es)"

fun take_entry :: "mp_entry \<Rightarrow> 'z pcstate_scheme \<Rightarrow> 'z pcstate_scheme" where
  "take_entry (EntProc apicid r) s = add_cpu apicid s"
| "take_entry (EntIoapic apicno r) s = s\<lparr>ioapicid := apicno\<rparr>"
| "take_entry (EntOther ty r) s = s"

definition holds_bytes :: "mem \<Rightarrow> u32 \<Rightarrow> u8 list \<Rightarrow> bool" where
  "holds_bytes m p bs \<longleftrightarrow> (\<forall>i<length bs. at m p i = bs ! i)"

lemma holds_bytes_append:
  "holds_bytes m p (xs @ ys) \<longleftrightarrow> holds_bytes m p xs \<and> holds_bytes m (p + of_nat (length xs)) ys"
proof
  assume l: "holds_bytes m p (xs @ ys)"
  have "at m p i = xs ! i" if "i < length xs" for i
    using l [unfolded holds_bytes_def, rule_format, of i] that by (simp add: nth_append)
  moreover have "at m (p + of_nat (length xs)) i = ys ! i" if "i < length ys" for i
    using l [unfolded holds_bytes_def, rule_format, of "length xs + i"] that by (simp add: at_def add.assoc)
  ultimately show "holds_bytes m p xs \<and> holds_bytes m (p + of_nat (length xs)) ys" by (simp add: holds_bytes_def)
next
  assume r: "holds_bytes m p xs \<and> holds_bytes m (p + of_nat (length xs)) ys"
  have "at m p i = (xs @ ys) ! i" if "i < length (xs @ ys)" for i
  proof (cases "i < length xs")
    case False
    then obtain j where "i = length xs + j" using le_Suc_ex by (metis not_less)
    then show ?thesis using r [unfolded holds_bytes_def, THEN conjunct2, rule_format, of j] that
      by (simp add: at_def nth_append add.assoc)
  qed (use r in \<open>simp add: holds_bytes_def nth_append\<close>)
  then show "holds_bytes m p (xs @ ys)" by (simp add: holds_bytes_def)
qed

lemma kram_add_cpu [simp]: "kram (add_cpu a s) = kram s"
  by (simp add: add_cpu_def upd_cpu_def)

lemma take_entry_simps [simp]: "kram (take_entry x s) = kram s" "lapic_found (take_entry x s) = lapic_found s"
  by (cases x; simp add: add_cpu_def upd_cpu_def)+

lemma entry_bytes_size: "entry_ok x \<Longrightarrow> length (entry_bytes x) = (case x of EntProc _ _ \<Rightarrow> 20 | _ \<Rightarrow> 8)"
  by (cases x) auto

lemma mp_entries_step:
  assumes "entry_ok x" "holds_bytes (kram s) p (entry_bytes x)" "p < e"
  shows "mp_entries p e ismp s = mp_entries (p + of_nat (length (entry_bytes x))) e ismp (take_entry x s)"
proof -
  have "kram s (unat p) = entry_bytes x ! 0"
    using assms(2) by (cases x) (auto simp: holds_bytes_def at_def dest: spec [of _ 0])
  moreover have "at (kram s) p 1 = entry_bytes x ! 1" if "\<forall>ty r. x \<noteq> EntOther ty r"
    using assms(2) that by (cases x) (auto simp: holds_bytes_def dest: spec [of _ 1])
  ultimately show ?thesis
    using assms(1,3) by (subst mp_entries.simps, cases x) (auto simp: Let_def mp_types)
qed

lemma mp_entries_reads:
  assumes "\<forall>x\<in>set es. entry_ok x" "holds_bytes (kram s) p (table_bytes es)"
    "unat p + length (table_bytes es) < 2 ^ 32"
  shows "mp_entries p (p + of_nat (length (table_bytes es))) ismp s = Some (ismp, fold take_entry es s)"
  using assms
proof (induction es arbitrary: p s)
  case Nil
  then show ?case by (subst mp_entries.simps) (simp add: table_bytes_def)
next
  case (Cons x es)
  let ?n = "length (entry_bytes x)" and ?q = "p + of_nat (length (table_bytes (x # es)))"
  have tb: "table_bytes (x # es) = entry_bytes x @ table_bytes es" by (simp add: table_bytes_def)
  have ok: "entry_ok x" using Cons.prems by simp
  then have n: "?n > 0" by (cases x) auto
  have u: "unat (p + of_nat k) = unat p + k" if "k \<le> length (table_bytes (x # es))" for k
  proof -
    have "unat (of_nat k :: u32) = k" using that Cons.prems(3) by (simp add: unat_of_nat)
    then show ?thesis using that Cons.prems(3) by (simp add: unat_word_ariths)
  qed
  have holds: "holds_bytes (kram s) p (entry_bytes x)" "holds_bytes (kram s) (p + of_nat ?n) (table_bytes es)"
    using Cons.prems(2) unfolding tb holds_bytes_append by simp_all
  have "p < ?q" using u [of "length (table_bytes (x # es))"] n tb by (simp add: word_less_nat_alt)
  then have "mp_entries p ?q ismp s = mp_entries (p + of_nat ?n) ?q ismp (take_entry x s)"
    by (rule mp_entries_step [OF ok holds(1)])
  also have "?q = p + of_nat ?n + of_nat (length (table_bytes es))" by (simp add: tb add.assoc)
  also have "mp_entries (p + of_nat ?n) \<dots> ismp (take_entry x s) = Some (ismp, fold take_entry es (take_entry x s))"
    using Cons.prems holds(2) u [of ?n] tb by (intro Cons.IH) simp_all
  finally show ?case by (simp add: tb add.assoc)
qed

text \<open>The identifiers of the processors in the table.\<close>

fun apicids :: "mp_entry list \<Rightarrow> u8 list" where
  "apicids [] = []"
| "apicids (EntProc a r # es) = a # apicids es"
| "apicids (_ # es) = apicids es"

definition known_cpus :: "'z kstate_scheme \<Rightarrow> nat list" where
  "known_cpus s = map (\<lambda>i. c_apicid (cpus s i)) [0..<ncpu s]"

lemma known_cpus_add:
  "ncpu s \<le> NCPU \<Longrightarrow> known_cpus (add_cpu a s) = take NCPU (known_cpus s @ [unat a]) \<and> ncpu (add_cpu a s) \<le> NCPU"
  by (auto simp: known_cpus_def add_cpu_def upd_cpu_def)

lemma known_cpus_table:
  "ncpu s \<le> NCPU \<Longrightarrow> known_cpus (fold take_entry es s) = take NCPU (known_cpus s @ map unat (apicids es))"
proof (induction es arbitrary: s rule: apicids.induct)
  case (2 a r es)
  then show ?case using known_cpus_add [of s a] by (simp add: take_Cons')
qed (auto simp: known_cpus_def)

lemma fold_take_entry_simps [simp]:
  "kram (fold take_entry es s) = kram s" "lapic_found (fold take_entry es s) = lapic_found s"
  by (induction es arbitrary: s) simp_all

text \<open>
  C31. On a machine whose configuration table holds entries of the known types, \<open>mpinit\<close> returns, with
  the identifiers of the processors of the table, in its order and up to \<open>NCPU\<close> of them, in \<open>cpus\<close>, and
  the local interrupt controller found exactly if the table gives its address.
\<close>

theorem mpinit_finds_cpus:
  assumes "mpconfig (kram s) = Some (Some (mp, conf))" "\<forall>x\<in>set es. entry_ok x"
    "holds_bytes (kram s) (conf + of_nat MPCONF_SIZE) (table_bytes es)"
    "conf_length (kram s) conf = MPCONF_SIZE + length (table_bytes es)"
    "unat conf + conf_length (kram s) conf < 2 ^ 32" "ncpu s = 0"
  shows "\<exists>s'. mpinit s = Ok () s' \<and> known_cpus s' = take NCPU (map unat (apicids es)) \<and>
    lapic_found s' = (conf_lapicaddr (kram s) conf \<noteq> 0)"
proof -
  let ?s = "s\<lparr>lapic_found := (conf_lapicaddr (kram s) conf \<noteq> 0)\<rparr>"
  let ?p = "conf + of_nat MPCONF_SIZE"
  have "unat ?p = unat conf + MPCONF_SIZE"
    using assms(4,5) by (simp add: MPCONF_SIZE_def unat_word_ariths)
  then have "mp_entries ?p (?p + of_nat (length (table_bytes es))) True ?s = Some (True, fold take_entry es ?s)"
    using assms(2-5) by (intro mp_entries_reads) simp_all
  also have "?p + of_nat (length (table_bytes es)) = conf + of_nat (conf_length (kram s) conf)"
    by (simp add: assms(4) add.assoc)
  finally have "mpinit s = (if mp_imcrp (kram s) mp \<noteq> 0
      then Ok () (pc_outb 0x23 (imcr (fold take_entry es ?s) OR 1) (pc_outb 0x22 0x70 (fold take_entry es ?s)))
      else Ok () (fold take_entry es ?s))"
    by (simp add: mpinit_def assms(1) Let_def)
  moreover have "known_cpus (fold take_entry es ?s) = take NCPU (map unat (apicids es))"
    using known_cpus_table [of ?s es] assms(6) by (simp add: known_cpus_def)
  ultimately show ?thesis by (auto simp: known_cpus_def pc_outb_def)
qed

text \<open>An entry of another type is looked at for ever: the code never gets to its last \<open>panic\<close>.\<close>

lemma mp_entries_unknown:
  assumes "p < e" "kram s (unat p) > MPLINTR"
  shows "mp_entries p e ismp s = None"
proof (rule ccontr)
  assume "mp_entries p e ismp s \<noteq> None"
  then obtain y where "mp_entries p e ismp s = Some y" by auto
  then have "p < e \<longrightarrow> kram s (unat p) > MPLINTR \<longrightarrow> False"
  proof (rule mp_entries.raw_induct [rotated])
    fix f :: "u32 \<Rightarrow> u32 \<Rightarrow> bool \<Rightarrow> 'a pcstate_scheme \<Rightarrow> (bool \<times> 'a pcstate_scheme) option" and p e ismp and s :: "'a pcstate_scheme" and y
    assume IH: "\<And>p e ismp s y. f p e ismp s = Some y \<Longrightarrow> p < e \<longrightarrow> kram s (unat p) > MPLINTR \<longrightarrow> False"
      and body: "(if p < e then
        let ty = kram s (unat p)
        in if ty = MPPROC then f (p + 20) e ismp (add_cpu (at (kram s) p 1) s)
           else if ty = MPIOAPIC then f (p + 8) e ismp (s\<lparr>ioapicid := at (kram s) p 1\<rparr>)
           else if ty = MPBUS \<or> ty = MPIOINTR \<or> ty = MPLINTR then f (p + 8) e ismp s
           else f p e False s
      else Some (ismp, s)) = Some y"
    show "p < e \<longrightarrow> kram s (unat p) > MPLINTR \<longrightarrow> False"
    proof (intro impI)
      assume a: "p < e" "kram s (unat p) > MPLINTR"
      then have "f p e False s = Some y" using body by (auto simp: Let_def mp_types split: if_splits)
      from IH [OF this] a show False by blast
    qed
  qed
  with assms show False by blast
qed

lemma mpinit_unknown_entry:
  assumes "mpconfig (kram s) = Some (Some (mp, conf))" "MPCONF_SIZE < conf_length (kram s) conf"
    "unat conf + conf_length (kram s) conf < 2 ^ 32" "at (kram s) conf MPCONF_SIZE > MPLINTR"
  shows "mpinit s = Spin"
proof -
  let ?s = "s\<lparr>lapic_found := (conf_lapicaddr (kram s) conf \<noteq> 0)\<rparr>"
  have "unat (conf + of_nat k) = unat conf + k" if "k \<le> conf_length (kram s) conf" for k
  proof -
    have "unat (of_nat k :: u32) = k" using that assms(3) by (simp add: unat_of_nat)
    then show ?thesis using that assms(3) by (simp add: unat_word_ariths)
  qed
  then have "conf + of_nat MPCONF_SIZE < conf + of_nat (conf_length (kram s) conf)"
    using assms(2) by (simp add: word_less_nat_alt)
  then have "mp_entries (conf + of_nat MPCONF_SIZE) (conf + of_nat (conf_length (kram s) conf)) True ?s = None"
    using assms(4) by (intro mp_entries_unknown) (simp_all add: at_def)
  then show ?thesis by (simp add: mpinit_def assms(1) Let_def)
qed

section \<open>A machine with two processors\<close>

definition two_cpus :: "mp_entry list" where
  "two_cpus = [EntProc 0 (replicate 18 0), EntProc 1 (replicate 18 0), EntIoapic 2 (replicate 6 0)]"

definition bios_bytes :: "u8 list" where
  "bios_bytes =
     [0x5F, 0x4D, 0x50, 0x5F] @ [0x10, 0xFC, 0x09, 0] @ [1, 4, 0x0B, 0, 0x80, 0, 0, 0] @
     [0x50, 0x43, 0x4D, 0x50] @ [92, 0, 4, 0x8A] @ replicate 26 0 @ [3, 0] @ [0, 0, 0xE0, 0xFE] @ replicate 4 0 @
     table_bytes two_cpus"

definition bios :: mem where
  "bios a = (if a = 0x8000040E then 0xC0 else if a = 0x8000040F then 0x9F
             else if 0x8009FC00 \<le> a \<and> a < 0x8009FC00 + 108 then bios_bytes ! (a - 0x8009FC00) else 0)"

definition pc_machine :: pcstate where
  "pc_machine = (tstate.extend (trap_machine (\<lambda>_. zero_proc) False 0) (pcstate.fields 0 [] 0 (\<lambda>_ _. 0) 0))
     \<lparr>kram := bios, ncpu := 0\<rparr>"

lemma table_two_cpus: "table_bytes two_cpus = replicate 21 0 @ [1] @ replicate 18 0 @ [2, 2] @ replicate 6 0"
  by (simp add: table_bytes_def two_cpus_def mp_types numeral_eq_Suc)

lemma bios_at: "i < 108 \<Longrightarrow> at bios (0x8009FC00) i = bios_bytes ! i"
proof -
  assume i: "i < 108"
  then have "unat (0x8009FC00 + of_nat i :: u32) = 0x8009FC00 + i"
    by (simp add: unat_word_ariths unat_of_nat)
  with i show ?thesis by (simp add: at_def bios_def)
qed

lemma bios_at16: "i < 92 \<Longrightarrow> at bios (0x8009FC10) i = bios_bytes ! (16 + i)"
  using bios_at [of "16 + i"] by (simp add: at_def add.assoc)

lemma length_bios: "length bios_bytes = 108"
  by (simp add: bios_bytes_def table_two_cpus)

lemma bios_sums: "mp_sum bios 0x8009FC00 16 = 0" "mp_sum bios 0x8009FC10 92 = 0"
proof -
  have "map (at bios 0x8009FC00) [0..<16] = take 16 bios_bytes"
    by (rule nth_equalityI) (simp_all add: bios_at length_bios)
  then show "mp_sum bios 0x8009FC00 16 = 0" by (simp add: mp_sum_def bios_bytes_def)
  have "map (at bios 0x8009FC10) [0..<92] = drop 16 bios_bytes"
    by (rule nth_equalityI) (simp_all add: bios_at16 length_bios)
  then show "mp_sum bios 0x8009FC10 92 = 0"
    by (simp add: mp_sum_def bios_bytes_def table_two_cpus sum_list_replicate)
qed

lemma bios_search: "mpsearch bios = Some 0x8009FC00"
proof -
  have "at bios 0x80000400 14 = 0xC0" "at bios 0x80000400 15 = 0x9F" by (simp_all add: at_def bios_def)
  moreover have "(\<forall>i<4. at bios 0x8009FC00 i = str_bytes ''_MP_'' i)"
    by (simp add: bios_at bios_bytes_def str_bytes_def numeral_eq_Suc All_less_Suc)
  then have "mpsearch_loop bios 0x8009FC00 0x800A0000 = Some 0x8009FC00"
    by (subst mpsearch_loop.simps) (simp add: memcmp_zero MP_SIZE_def bios_sums)
  ultimately show ?thesis
    by (simp add: mpsearch_def mpsearch1_def P2V_def KERNBASE_def push_bit_eq_mult)
qed

lemma bios_config: "mpconfig bios = Some (Some (0x8009FC00, 0x8009FC10))"
proof -
  have "mp_physaddr bios 0x8009FC00 = 0x9FC10"
    by (simp add: mp_physaddr_def ld32_def bios_def bios_bytes_def push_bit_eq_mult)
  moreover have "(\<forall>i<4. at bios 0x8009FC10 i = str_bytes ''PCMP'' i)"
    by (simp add: bios_at16 bios_bytes_def str_bytes_def numeral_eq_Suc All_less_Suc)
  moreover have "conf_version bios 0x8009FC10 = 4" "conf_length bios 0x8009FC10 = 92"
    by (simp_all add: conf_version_def conf_length_def bios_at16 bios_bytes_def)
  ultimately show ?thesis
    by (simp add: mpconfig_def bios_search P2V_def KERNBASE_def memcmp_zero bios_sums)
qed

theorem mpinit_finds_cpus_witness: "\<exists>s'. mpinit pc_machine = Ok () s' \<and> known_cpus s' = [0, 1] \<and> lapic_found s'"
proof -
  have k: "kram pc_machine = bios" "ncpu pc_machine = 0" by (simp_all add: pc_machine_def)
  have l: "conf_length bios 0x8009FC10 = 92" "conf_lapicaddr bios 0x8009FC10 = 0xFEE00000"
    by (simp_all add: conf_length_def bios_at16 conf_lapicaddr_def ld32_def bios_def bios_bytes_def push_bit_eq_mult
        nth_append)
  have "bios_bytes ! (60 + i) = table_bytes two_cpus ! i" for i
    by (simp add: bios_bytes_def nth_append)
  then have "at bios 0x8009FC3C i = table_bytes two_cpus ! i" if "i < 48" for i
    using bios_at [of "60 + i"] that by (simp add: at_def add.assoc)
  then have "holds_bytes bios 0x8009FC3C (table_bytes two_cpus)" by (simp add: holds_bytes_def table_two_cpus)
  then have "\<exists>s'. mpinit pc_machine = Ok () s' \<and> known_cpus s' = take NCPU (map unat (apicids two_cpus)) \<and>
      lapic_found s' = (conf_lapicaddr (kram pc_machine) 0x8009FC10 \<noteq> 0)"
    by (intro mpinit_finds_cpus) (simp_all add: k bios_config MPCONF_SIZE_def l two_cpus_def [THEN arg_cong, of set] table_two_cpus)
  then show ?thesis by (simp add: k l two_cpus_def NCPU_def)
qed

section \<open>Reading the clock\<close>

text \<open>A number below 100 in binary coded decimal.\<close>

definition to_bcd :: "nat \<Rightarrow> u8" where "to_bcd n = of_nat (16 * (n div 10) + n mod 10)"

lemma CONV_bcd:
  assumes "n < 100"
  shows "CONV (ucast (to_bcd n)) = of_nat n"
proof -
  have "\<forall>n\<in>set [0..<100]. CONV (ucast (to_bcd n)) = of_nat n"
    by code_simp
  then show ?thesis using assms by simp
qed

text \<open>The state after reads of the clock, which keep its registers.\<close>

lemma cmos_read_simps [simp]:
  "fst (cmos_read r s) = ucast (cmos s (cmos_reads s) r)" "cmos (snd (cmos_read r s)) = cmos s"
  by (simp_all add: cmos_read_def Let_def pc_outb_def)

lemma fill_rtcdate_steady:
  assumes "\<And>n. cmos s n = v"
  shows "\<exists>s'. fill_rtcdate s = (\<lparr>rtc_second = ucast (v SECS), rtc_minute = ucast (v MINS), rtc_hour = ucast (v HOURS),
     rtc_day = ucast (v DAY), rtc_month = ucast (v MONTH), rtc_year = ucast (v YEAR)\<rparr>, s') \<and> cmos s' = cmos s"
  using assms by (simp add: fill_rtcdate_def split_def Let_def)

text \<open>
  A clock that stands still while it is read, gives its time in binary coded decimal and is not being
  updated: \<open>cmostime\<close> returns that time.
\<close>

lemma cmostime_reads:
  assumes v: "\<And>n. cmos s n = v" and a: "v CMOS_STATA AND 0x80 = 0" and b: "v CMOS_STATB AND 4 = 0"
    and d: "v SECS = to_bcd sec" "v MINS = to_bcd mnt" "v HOURS = to_bcd hour" "v DAY = to_bcd day"
      "v MONTH = to_bcd month" "v YEAR = to_bcd year"
    and l: "sec < 100" "mnt < 100" "hour < 100" "day < 100" "month < 100" "year < 100"
  shows "\<exists>s'. cmostime s = Some (\<lparr>rtc_second = of_nat sec, rtc_minute = of_nat mnt, rtc_hour = of_nat hour,
     rtc_day = of_nat day, rtc_month = of_nat month, rtc_year = of_nat (2000 + year)\<rparr>, s')"
proof -
  let ?t = "\<lparr>rtc_second = ucast (v SECS), rtc_minute = ucast (v MINS), rtc_hour = ucast (v HOURS),
     rtc_day = ucast (v DAY), rtc_month = ucast (v MONTH), rtc_year = ucast (v YEAR)\<rparr>"
  have ua: "(ucast (v CMOS_STATA) :: u32) AND CMOS_UIP = ucast (v CMOS_STATA AND 0x80)"
    and ub: "(ucast (v CMOS_STATB) :: u32) AND push_bit 2 1 = ucast (v CMOS_STATB AND 4)"
    by (simp_all add: CMOS_UIP_def unsigned_and_eq push_bit_eq_mult)
  obtain sb s1 where s1: "cmos_read CMOS_STATB s = (sb, s1)" by (cases "cmos_read CMOS_STATB s")
  then have sb: "sb AND push_bit 2 1 = 0" and v1: "\<And>n. cmos s1 n = v"
    using cmos_read_simps [of CMOS_STATB s] v ub b by simp_all
  obtain s2 where s2: "fill_rtcdate s1 = (?t, s2)" "\<And>n. cmos s2 n = v" using fill_rtcdate_steady [OF v1] v1 by auto
  obtain x s3 where s3: "cmos_read CMOS_STATA s2 = (x, s3)" by (cases "cmos_read CMOS_STATA s2")
  then have x: "x AND CMOS_UIP = 0" and v3: "\<And>n. cmos s3 n = v"
    using cmos_read_simps [of CMOS_STATA s2] s2(2) ua a by simp_all
  obtain s4 where s4: "fill_rtcdate s3 = (?t, s4)" using fill_rtcdate_steady [OF v3] by auto
  have "cmos_loop s1 = Some (?t, s4)" by (subst cmos_loop.simps) (simp add: s2(1) s3 x s4)
  then show ?thesis using s1 sb d l by (simp add: cmostime_def CONV_bcd)
qed

end
