(* ===== verification/Boot.thy ===== *)
theory Boot
  imports Mp
begin

text \<open>
  The start of the kernel (\<open>main.c\<close>). The places of \<open>entryother.S\<close>, \<open>mpenter\<close> and \<open>entrypgdir\<close> in the
  kernel's image are fields of the state. While the first processor waits for another one, that one
  runs: \<open>ap c\<close> is what processor \<open>c\<close> does meanwhile. A processor that does not report is \<open>Spin\<close>. The
  build is the one with the memory disk, whose image is an argument; \<open>status\<close> is the line status the
  serial port answers and \<open>initcode\<close> the first program.
\<close>

record bootstate = pcstate +
  sym_entryother :: u32
  sym_entryother_size :: u32
  sym_mpenter :: u32
  sym_entrypgdir :: u32

section \<open>The boot page table\<close>

definition PTE_PS :: u32 where "PTE_PS = 0x80"

definition entrypgdir :: "nat \<Rightarrow> u32" where
  "entrypgdir i =
     (if i = 0 then PTE_P OR PTE_W OR PTE_PS
      else if i = unat (drop_bit 22 KERNBASE) then PTE_P OR PTE_W OR PTE_PS
      else 0)"

section \<open>Processors\<close>

definition mpmain_start :: "'z tstate_scheme \<Rightarrow> (unit, 'z tstate_scheme) res" where
  "mpmain_start s =
     andthen (cpuid s) (\<lambda>c s.
     andthen (cprintf (Some (''cpu%d: starting %d'' @ newline)) [CNum (of_nat c), CNum (of_nat c)] s) (\<lambda>_ s.
     andthen (mycpu (idtinit s)) (\<lambda>c s. Ok () (upd_cpu c (\<lambda>r. r\<lparr>c_started := True\<rparr>) s))))"

definition mpmain :: "'z tstate_scheme \<Rightarrow> (unit, 'z tstate_scheme) res" where
  "mpmain s = andthen (mpmain_start s) (\<lambda>_ s. scheduler s)"

definition mpenter :: "'z tstate_scheme \<Rightarrow> (unit, 'z tstate_scheme) res" where
  "mpenter s =
     andthen (seginit (switchkvm s)) (\<lambda>_ s.
     andthen (lapicinit s) (\<lambda>_ s. mpmain s))"

text \<open>Preparing and starting processor \<open>c\<close>.\<close>

definition start_ap :: "nat \<Rightarrow> 'z bootstate_scheme \<Rightarrow> (unit, 'z bootstate_scheme) res" where
  "start_ap c s =
     andthen (kalloc s) (\<lambda>stack s.
     let code = P2V 0x7000;
         s = s\<lparr>kram := st32 (code - 4) (stack + of_nat KSTACKSIZE) (kram s)\<rparr>;
         s = s\<lparr>kram := st32 (code - 8) (sym_mpenter s) (kram s)\<rparr>;
         s = s\<lparr>kram := st32 (code - 12) (V2P (sym_entrypgdir s)) (kram s)\<rparr>
     in Ok () (lapicstartap (of_nat (c_apicid (cpus s c))) (V2P code) s))"

fun start_loop :: "(nat \<Rightarrow> 'z bootstate_scheme \<Rightarrow> 'z bootstate_scheme) \<Rightarrow> nat list \<Rightarrow> 'z bootstate_scheme \<Rightarrow>
    (unit, 'z bootstate_scheme) res" where
  "start_loop ap [] s = Ok () s"
| "start_loop ap (c # cs) s =
     andthen (mycpu s) (\<lambda>me s.
     if c = me then start_loop ap cs s
     else
       andthen (start_ap c s) (\<lambda>_ s.
       let s = ap c s
       in if c_started (cpus s c) then start_loop ap cs s else Spin))"

definition startothers :: "(nat \<Rightarrow> 'z bootstate_scheme \<Rightarrow> 'z bootstate_scheme) \<Rightarrow> 'z bootstate_scheme \<Rightarrow>
    (unit, 'z bootstate_scheme) res" where
  "startothers ap s =
     (let s = s\<lparr>kram := memmove (unat (P2V 0x7000)) (unat (sym_entryother s)) (unat (sym_entryother_size s)) (kram s)\<rparr>
      in start_loop ap [0..<ncpu s] s)"

section \<open>The first processor\<close>

definition main :: "(nat \<Rightarrow> 'z bootstate_scheme \<Rightarrow> 'z bootstate_scheme) \<Rightarrow> u8 \<Rightarrow> disk \<Rightarrow> nat \<Rightarrow>
    u8 list \<Rightarrow> 'z bootstate_scheme \<Rightarrow> (unit, 'z bootstate_scheme) res" where
  "main ap status img imgsize initcode s =
     andthen (kinit1 (sym_end s) (P2V 0x400000) s) (\<lambda>_ s.
     andthen (kvmalloc s) (\<lambda>_ s.
     andthen (mpinit s) (\<lambda>_ s.
     andthen (lapicinit s) (\<lambda>_ s.
     andthen (seginit s) (\<lambda>_ s.
     andthen (ioapicinit (ucast (ioapicid s)) (picinit s)) (\<lambda>_ s.
     andthen (startothers ap (ideinit img imgsize (fileinit (binit (tvinit (pinit (uartinit status (consoleinit s)))))))) (\<lambda>_ s.
     andthen (kinit2 (P2V 0x400000) (P2V PHYSTOP) s) (\<lambda>_ s.
     andthen (userinit devsw_read initcode s) (\<lambda>_ s. mpmain s)))))))))"

section \<open>The first mapping\<close>

text \<open>The physical address of a virtual address under a directory of 4 MB pages.\<close>

definition big_page :: "(nat \<Rightarrow> u32) \<Rightarrow> u32 \<Rightarrow> u32 option" where
  "big_page d va =
     (let e = d (unat (PDX va))
      in if e AND PTE_P = 0 \<or> e AND PTE_PS = 0 then None else Some ((e AND NOT 0x3FFFFF) OR (va AND 0x3FFFFF)))"

lemma unat_low22: "unat (va AND 0x3FFFFF :: u32) = unat va mod 0x400000"
proof -
  have "va AND 0x3FFFFF = take_bit 22 va" by (simp add: take_bit_eq_mask mask_eq_exp_minus_1)
  then show ?thesis by (simp add: take_bit_eq_mod unat_mod)
qed

text \<open>The first 4 MB of memory are mapped at 0 and at \<open>KERNBASE\<close>, and nothing else is.\<close>

lemma entrypgdir_maps:
  "big_page entrypgdir va =
     (if unat va < 0x400000 then Some va
      else if 0x80000000 \<le> unat va \<and> unat va < 0x80400000 then Some (V2P va) else None)"
proof -
  let ?e = "PTE_P OR PTE_W OR PTE_PS"
  have e: "entrypgdir (unat (PDX va)) =
      (if unat va div 0x400000 = 0 \<or> unat va div 0x400000 = 0x200 then ?e else 0)"
    by (auto simp: entrypgdir_def unat_PDX KERNBASE_def drop_bit_eq_div)
  have f: "?e AND PTE_P \<noteq> 0" "?e AND PTE_PS \<noteq> 0" "?e AND NOT 0x3FFFFF = 0" by (simp_all add: PTE_P_def PTE_W_def PTE_PS_def)
  have "va AND 0x3FFFFF = va" if "unat va < 0x400000"
    using unat_low22 [of va] that by (simp add: word_unat_eq_iff)
  moreover have "va AND 0x3FFFFF = V2P va" if "0x80000000 \<le> unat va" "unat va < 0x80400000"
  proof -
    have "unat (V2P va) = unat va - 0x80000000" using that by (simp add: V2P_def KERNBASE_def unat_sub_if')
    moreover have "unat va mod 0x400000 = unat va - 0x80000000" using that by (simp add: mod_nat_eqI)
    ultimately show ?thesis using unat_low22 [of va] by (simp add: word_unat_eq_iff)
  qed
  moreover have "unat va div 0x400000 = 0 \<longleftrightarrow> unat va < 0x400000"
    "unat va div 0x400000 = 0x200 \<longleftrightarrow> 0x80000000 \<le> unat va \<and> unat va < 0x80400000" by auto
  ultimately show ?thesis using f by (auto simp: big_page_def e)
qed

section \<open>Starting the other processors\<close>

lemma lapicstartap_effect:
  "kram (lapicstartap a addr s) = (kram s)(0x80000467 := 0, 0x80000468 := 0, 0x80000469 := ucast (drop_bit 4 addr),
     0x8000046A := ucast (drop_bit 12 addr))"
  "i = lapic_id s \<Longrightarrow> lapic_regs (lapicstartap a addr s) i ICRHI = push_bit 24 (ucast a)"
  "i = lapic_id s \<Longrightarrow> lapic_regs (lapicstartap a addr s) i ICRLO = STARTUP OR drop_bit 12 addr"
  "cpus (lapicstartap a addr s) = cpus s" "lapic_id (lapicstartap a addr s) = lapic_id s"
  "kmem_use_lock (lapicstartap a addr s) = kmem_use_lock s"
  by (simp_all add: lapicstartap_def Let_def lapicw_def pc_outb_def P2V_def KERNBASE_def ICRHI_def ICRLO_def)

text \<open>
  The words below the entry code: another processor finds there the top of its stack, the function to
  call and its page directory; it is sent to the code by the start-up interrupt, whose vector is the
  page of the code.
\<close>

lemma start_ap_prepares:
  assumes "kalloc s = Ok stack s1"
  shows "\<exists>s'. start_ap c s = Ok () s' \<and>
    ld32 (kram s') 0x80006FFC = stack + 4096 \<and> ld32 (kram s') 0x80006FF8 = sym_mpenter s1 \<and>
    ld32 (kram s') 0x80006FF4 = V2P (sym_entrypgdir s1) \<and>
    lapic_regs s' (lapic_id s1) ICRHI = push_bit 24 (of_nat (c_apicid (cpus s1 c) mod 256)) \<and>
    lapic_regs s' (lapic_id s1) ICRLO = STARTUP OR 7 \<and> cpus s' = cpus s1 \<and> lapic_id s' = lapic_id s1 \<and>
    kmem_use_lock s' = kmem_use_lock s1"
proof -
  have keep: "ld32 ((m :: mem)(0x80000467 := x, 0x80000468 := y, 0x80000469 := z, 0x8000046A := w)) a = ld32 m a"
    if "unat a \<ge> 0x80001000" for m x y z w a
    using that by (intro ld32_cong) auto
  have "(ucast (of_nat (c_apicid (cpus s1 c)) :: u8) :: u32) = of_nat (c_apicid (cpus s1 c) mod 256)"
    by (simp add: unsigned_of_nat take_bit_eq_mod)
  then show ?thesis
    using assms by (simp add: start_ap_def Let_def P2V_def V2P_def KERNBASE_def KSTACKSIZE_def lapicstartap_effect keep
        ld32_st32 ld32_st32_other drop_bit_eq_div)
qed

text \<open>
  What the model asks of another processor while the first one waits: it marks no processor as not
  started, and leaves the identifiers and the allocator's lock flag alone.
\<close>

definition ap_ok :: "(nat \<Rightarrow> 'z bootstate_scheme \<Rightarrow> 'z bootstate_scheme) \<Rightarrow> bool" where
  "ap_ok ap \<longleftrightarrow> (\<forall>c s. lapic_id (ap c s) = lapic_id s \<and> kmem_use_lock (ap c s) = kmem_use_lock s \<and>
     (\<forall>d. c_apicid (cpus (ap c s) d) = c_apicid (cpus s d) \<and> (c_started (cpus s d) \<longrightarrow> c_started (cpus (ap c s) d))))"

lemma mycpu_is:
  assumes "mycpu s = Ok c s'"
  shows "s' = s \<and> c_apicid (cpus s c) = lapic_id s"
  using assms by (auto simp: mycpu_def cpu_lookup_def find_Some_iff split: if_splits option.splits)

lemma kalloc_unlocked:
  assumes "\<not> kmem_use_lock s"
  shows "\<exists>r s'. kalloc s = Ok r s' \<and> cpus s' = cpus s \<and> lapic_id s' = lapic_id s \<and> \<not> kmem_use_lock s'"
  using assms by (simp add: kalloc_def kmem_acquire_def kmem_release_def Let_def)

lemma start_loop_waits:
  assumes "ap_ok ap" "\<not> kmem_use_lock s" "start_loop ap cs s = Ok () s'"
  shows "(\<forall>c\<in>set cs. c_apicid (cpus s c) \<noteq> lapic_id s \<longrightarrow> c_started (cpus s' c)) \<and>
    (\<forall>d. c_started (cpus s d) \<longrightarrow> c_started (cpus s' d))"
  using assms(2,3)
proof (induction cs arbitrary: s)
  case (Cons c cs)
  obtain me where me: "mycpu s = Ok me s" "c_apicid (cpus s me) = lapic_id s"
    using Cons.prems(2) mycpu_is by (auto elim!: andthen_OkE)
  show ?case
  proof (cases "c = me")
    case True
    then have "start_loop ap cs s = Ok () s'" using Cons.prems(2) me(1) by simp
    from Cons.IH [OF Cons.prems(1) this] show ?thesis using True me(2) by auto
  next
    case False
    obtain r s1 where s1: "kalloc s = Ok r s1" "cpus s1 = cpus s" "lapic_id s1 = lapic_id s" "\<not> kmem_use_lock s1"
      using kalloc_unlocked [OF Cons.prems(1)] by blast
    obtain s2 where s2: "start_ap c s = Ok () s2" "cpus s2 = cpus s" "lapic_id s2 = lapic_id s" "\<not> kmem_use_lock s2"
      using start_ap_prepares [OF s1(1), of c] s1 by auto
    have a: "lapic_id (ap c s2) = lapic_id s" "\<not> kmem_use_lock (ap c s2)"
      "\<And>d. c_apicid (cpus (ap c s2) d) = c_apicid (cpus s d)"
      "\<And>d. c_started (cpus s d) \<Longrightarrow> c_started (cpus (ap c s2) d)"
      using assms(1) s2 unfolding ap_ok_def by metis+
    have st: "c_started (cpus (ap c s2) c)" and rest: "start_loop ap cs (ap c s2) = Ok () s'"
      using Cons.prems(2) me(1) False s2(1) by (auto simp: Let_def split: if_splits)
    from Cons.IH [OF a(2) rest] show ?thesis using st a by auto
  qed
qed simp

text \<open>
  C32. \<open>startothers\<close> comes back only after every other processor of the machine has reported that it
  runs: what is initialised before is seen by none of them too early, and memory beyond the first 4 MB
  is handed out only when all of them use the full page table.
\<close>

theorem startothers_waits_for_all:
  assumes "ap_ok ap" "\<not> kmem_use_lock s" "startothers ap s = Ok () s'"
  shows "\<forall>c<ncpu s. c_apicid (cpus s c) \<noteq> lapic_id s \<longrightarrow> c_started (cpus s' c)"
  using start_loop_waits [OF assms(1) _ assms(3) [unfolded startothers_def Let_def]] assms(2) by simp

definition two_machine :: bootstate where
  "two_machine = pcstate.extend (pc_machine\<lparr>ncpu := 2, cpus := \<lambda>i. busy_cpu\<lparr>c_apicid := i, c_started := (i = 0)\<rparr>\<rparr>)
     (bootstate.fields 0 0 0x80103000 0x80104000)"

theorem startothers_waits_for_all_witness:
  "\<exists>s'. startothers (\<lambda>c. upd_cpu c (\<lambda>r. r\<lparr>c_started := True\<rparr>)) two_machine = Ok () s' \<and> c_started (cpus s' 1)"
proof -
  let ?ap = "\<lambda>c. upd_cpu c (\<lambda>r. r\<lparr>c_started := True\<rparr>) :: bootstate \<Rightarrow> bootstate"
  have ok: "ap_ok ?ap" by (simp add: ap_ok_def upd_cpu_def)
  have m: "ncpu two_machine = 2" "\<not> kmem_use_lock two_machine" "lapic_id two_machine = 0" "\<not> eflags_if two_machine 0"
    "cpus two_machine = (\<lambda>i. busy_cpu\<lparr>c_apicid := i, c_started := (i = 0)\<rparr>)"
    by (simp_all add: two_machine_def pc_machine_def trap_machine_def prstate.defs dstate.defs cstate.defs tstate.defs
        pcstate.defs bootstate.defs)
  let ?m = "memmove (unat (P2V 0x7000)) (unat (sym_entryother two_machine)) (unat (sym_entryother_size two_machine))
    (kram two_machine)"
  let ?s = "two_machine\<lparr>kram := ?m\<rparr>"
  obtain r s1 where s1: "kalloc ?s = Ok r s1" "cpus s1 = cpus ?s" using kalloc_unlocked [of ?s] m(2) by auto
  obtain s2 where s2: "start_ap 1 ?s = Ok () s2" "cpus s2 = cpus ?s"
    using start_ap_prepares [OF s1(1), of 1] s1(2) by auto
  have "cpu_lookup (cpus two_machine) 2 0 = Some 0" by (simp add: m(5) cpu_lookup_def busy_cpu_def upt_rec)
  then have "mycpu ?s = Ok 0 ?s" using m by (simp add: mycpu_def)
  then have s': "startothers ?ap two_machine = Ok () (?ap 1 s2)"
    using s2 m(1) by (simp add: startothers_def Let_def upt_rec numeral_2_eq_2 upd_cpu_def)
  with startothers_waits_for_all [OF ok m(2) s'] m show ?thesis by (auto simp: busy_cpu_def)
qed

end
