(* ===== verification/Boot_Loader.thy ===== *)
theory Boot_Loader
  imports Exec
begin

text \<open>
  The boot loader (\<open>bootmain.c\<close>). It runs before paging is on, so memory is bytes at 32-bit
  physical addresses. The disk is given as its sectors. The controller of the disk is the command
  bytes last written to its ports and the status bytes it answers with, one after the other; the
  transfer after a read command delivers the sector the address bytes stand for.
\<close>

section \<open>State\<close>

record boot =
  bmem :: "u32 \<Rightarrow> u8"
  bports :: "nat \<Rightarrow> u8"
  bpolls :: nat

type_synonym sectors = "nat \<Rightarrow> nat \<Rightarrow> u8"

definition SECTSIZE :: nat where "SECTSIZE = 512"

definition boot_outb :: "nat \<Rightarrow> u8 \<Rightarrow> boot \<Rightarrow> boot" where
  "boot_outb p v s = s\<lparr>bports := (bports s)(p := v)\<rparr>"

text \<open>The sector number in the four address ports; the upper half of the last selects the drive.\<close>

definition drive_lba :: "boot \<Rightarrow> u32" where
  "drive_lba s =
     ucast (bports s 0x1F3) OR push_bit 8 (ucast (bports s 0x1F4)) OR
     push_bit 16 (ucast (bports s 0x1F5)) OR push_bit 24 (ucast (bports s 0x1F6) AND 0x0F)"

definition boot_insl :: "sectors \<Rightarrow> u32 \<Rightarrow> nat \<Rightarrow> boot \<Rightarrow> boot" where
  "boot_insl disk dst cnt s =
     s\<lparr>bmem := \<lambda>a. if unat (a - dst) < 4 * cnt then disk (unat (drive_lba s)) (unat (a - dst)) else bmem s a\<rparr>"

definition boot_stosb :: "u32 \<Rightarrow> u8 \<Rightarrow> nat \<Rightarrow> boot \<Rightarrow> boot" where
  "boot_stosb dst c n s = s\<lparr>bmem := \<lambda>a. if unat (a - dst) < n then c else bmem s a\<rparr>"

definition boot_bytes :: "u32 \<Rightarrow> nat \<Rightarrow> boot \<Rightarrow> u8 list" where
  "boot_bytes a n s = map (\<lambda>i. bmem s (a + of_nat i)) [0..<n]"

section \<open>Reading the disk\<close>

text \<open>\<open>st n\<close> is the \<open>n\<close>-th status byte.\<close>

partial_function (option) waitdisk :: "(nat \<Rightarrow> u8) \<Rightarrow> boot \<Rightarrow> boot option" where
  "waitdisk st s =
     (let busy = (st (bpolls s) AND 0xC0 \<noteq> 0x40); s = s\<lparr>bpolls := bpolls s + 1\<rparr>
      in if busy then waitdisk st s else Some s)"

definition read_command :: "u32 \<Rightarrow> boot \<Rightarrow> boot" where
  "read_command offset s =
     (let s = boot_outb 0x1F2 1 s;
          s = boot_outb 0x1F3 (ucast offset) s;
          s = boot_outb 0x1F4 (ucast (drop_bit 8 offset)) s;
          s = boot_outb 0x1F5 (ucast (drop_bit 16 offset)) s;
          s = boot_outb 0x1F6 (ucast (drop_bit 24 offset OR 0xE0)) s
      in boot_outb 0x1F7 0x20 s)"

definition readsect :: "(nat \<Rightarrow> u8) \<Rightarrow> sectors \<Rightarrow> u32 \<Rightarrow> u32 \<Rightarrow> boot \<Rightarrow> boot option" where
  "readsect st disk dst offset s =
     Option.bind (waitdisk st s) (\<lambda>s.
     Option.bind (waitdisk st (read_command offset s)) (\<lambda>s.
     Some (boot_insl disk dst (SECTSIZE div 4) s)))"

partial_function (option) readseg_loop :: "(nat \<Rightarrow> u8) \<Rightarrow> sectors \<Rightarrow> u32 \<Rightarrow> u32 \<Rightarrow> u32 \<Rightarrow> boot \<Rightarrow> boot option" where
  "readseg_loop st disk pa epa offset s =
     (if pa < epa then
        Option.bind (readsect st disk pa offset s)
          (\<lambda>s. readseg_loop st disk (pa + of_nat SECTSIZE) epa (offset + 1) s)
      else Some s)"

definition readseg :: "(nat \<Rightarrow> u8) \<Rightarrow> sectors \<Rightarrow> u32 \<Rightarrow> u32 \<Rightarrow> u32 \<Rightarrow> boot \<Rightarrow> boot option" where
  "readseg st disk pa n offset s =
     readseg_loop st disk (pa - offset mod of_nat SECTSIZE) (pa + n) (offset div of_nat SECTSIZE + 1) s"

section \<open>Loading the kernel\<close>

definition load_seg :: "(nat \<Rightarrow> u8) \<Rightarrow> sectors \<Rightarrow> proghdr \<Rightarrow> boot \<Rightarrow> boot option" where
  "load_seg st disk ph s =
     Option.bind (readseg st disk (ph_paddr ph) (ph_filesz ph) (ph_off ph) s) (\<lambda>s.
     Some (if ph_memsz ph > ph_filesz ph
           then boot_stosb (ph_paddr ph + ph_filesz ph) 0 (unat (ph_memsz ph - ph_filesz ph)) s
           else s))"

partial_function (option) boot_segs :: "(nat \<Rightarrow> u8) \<Rightarrow> sectors \<Rightarrow> u32 \<Rightarrow> u32 \<Rightarrow> boot \<Rightarrow> boot option" where
  "boot_segs st disk ph eph s =
     (if ph < eph then
        Option.bind (load_seg st disk (dec_proghdr (boot_bytes ph PROGHDR_SIZE s)) s)
          (\<lambda>s. boot_segs st disk (ph + of_nat PROGHDR_SIZE) eph s)
      else Some s)"

text \<open>The result is the entry point that is called, or \<open>None\<close> when \<open>bootmain\<close> returns to \<open>bootasm.S\<close>.\<close>

definition bootmain :: "(nat \<Rightarrow> u8) \<Rightarrow> sectors \<Rightarrow> boot \<Rightarrow> (u32 option \<times> boot) option" where
  "bootmain st disk s =
     Option.bind (readseg st disk 0x10000 4096 0 s) (\<lambda>s.
     let elf = dec_elfhdr (boot_bytes 0x10000 ELFHDR_SIZE s)
     in if elf_magic elf \<noteq> ELF_MAGIC then Some (None, s)
        else
          let ph = 0x10000 + elf_phoff elf;
              eph = ph + of_nat (PROGHDR_SIZE * elf_phnum elf)
          in Option.bind (boot_segs st disk ph eph s) (\<lambda>s.
             Some (Some (elf_entry (dec_elfhdr (boot_bytes 0x10000 ELFHDR_SIZE s))), s)))"

section \<open>Reading sectors\<close>

text \<open>Byte \<open>j\<close> of the kernel's file, which starts at sector 1.\<close>

definition image :: "sectors \<Rightarrow> nat \<Rightarrow> u8" where
  "image disk j = disk (j div 512 + 1) (j mod 512)"

text \<open>The drive is ready again and again.\<close>

definition drive_answers :: "(nat \<Rightarrow> u8) \<Rightarrow> bool" where
  "drive_answers st \<longleftrightarrow> (\<forall>n. \<exists>m\<ge>n. st m AND 0xC0 = 0x40)"

lemma waitdisk_ends:
  assumes "drive_answers st"
  shows "\<exists>n. waitdisk st s = Some (s\<lparr>bpolls := n\<rparr>)"
proof -
  obtain m where m: "m \<ge> bpolls s" "st m AND 0xC0 = 0x40" using assms by (auto simp: drive_answers_def)
  from m(1) show ?thesis
  proof (induction "m - bpolls s" arbitrary: s)
    case 0
    then show ?case using m(2) by (subst waitdisk.simps) (auto simp: Let_def)
  next
    case (Suc k)
    let ?s = "s\<lparr>bpolls := bpolls s + 1\<rparr>"
    have "\<exists>n. waitdisk st ?s = Some (?s\<lparr>bpolls := n\<rparr>)" using Suc by (intro Suc.hyps(1)) auto
    then show ?case by (subst waitdisk.simps) (auto simp: Let_def)
  qed
qed

lemma drive_lba_command:
  assumes "unat offset < 2 ^ 28"
  shows "drive_lba (read_command offset s) = offset"
proof -
  have hi: "\<not> bit offset n" if "n \<ge> 28" for n
  proof
    assume "bit offset n"
    then have "bit (unat offset) n" by (simp add: bit_unsigned_iff)
    then have "unat offset div 2 ^ n \<noteq> 0" by (metis bit_iff_odd even_zero)
    then have "2 ^ n \<le> unat offset" by (simp add: div_eq_0_iff not_less)
    moreover have "(2 :: nat) ^ 28 \<le> 2 ^ n" using that by (intro power_increasing) auto
    ultimately show False using assms by simp
  qed
  have drive: "\<not> bit (224 :: u32) (n - 24)" if "n - 24 < 4" for n :: nat
  proof -
    have "n - 24 \<in> {0, 1, 2, 3}" using that by auto
    then show ?thesis by auto
  qed
  let ?w = "ucast (ucast offset :: u8) OR push_bit 8 (ucast (ucast (drop_bit 8 offset) :: u8)) OR
      push_bit 16 (ucast (ucast (drop_bit 16 offset) :: u8)) OR
      push_bit 24 (ucast (ucast (drop_bit 24 offset OR 0xE0) :: u8) AND mask 4) :: u32"
  have "drive_lba (read_command offset s) = ?w"
    by (simp add: drive_lba_def read_command_def boot_outb_def Let_def mask_eq_exp_minus_1)
  also have "?w = offset"
  proof (rule bit_word_eqI)
    fix n assume n: "n < LENGTH(32)"
    consider "n < 8" | "8 \<le> n" "n < 16" | "16 \<le> n" "n < 24" | "24 \<le> n" "n < 28" | "28 \<le> n" by linarith
    then show "bit ?w n = bit offset n" using n hi [of n] drive [of n] by cases (auto simp: bit_simps)
  qed
  finally show ?thesis .
qed

lemma readsect_reads:
  assumes "drive_answers st" "unat offset < 2 ^ 28"
  obtains s' where "readsect st disk dst offset s = Some s'"
    "bmem s' = (\<lambda>a. if unat (a - dst) < 512 then disk (unat offset) (unat (a - dst)) else bmem s a)"
proof -
  obtain n where n: "waitdisk st s = Some (s\<lparr>bpolls := n\<rparr>)" using waitdisk_ends [OF assms(1)] by blast
  let ?s = "read_command offset (s\<lparr>bpolls := n\<rparr>)"
  obtain m where m: "waitdisk st ?s = Some (?s\<lparr>bpolls := m\<rparr>)" using waitdisk_ends [OF assms(1)] by blast
  have "drive_lba (?s\<lparr>bpolls := m\<rparr>) = offset"
    using drive_lba_command [OF assms(2)] by (simp add: drive_lba_def)
  moreover have "bmem ?s = bmem s" by (simp add: read_command_def boot_outb_def Let_def)
  ultimately show thesis
    using that n m by (simp add: readsect_def boot_insl_def SECTSIZE_def cong: if_cong)
qed

text \<open>Distances between 32-bit addresses.\<close>

lemma in_range32:
  assumes "unat (p :: u32) + n \<le> 2 ^ 32"
  shows "unat (a - p) < n \<longleftrightarrow> unat p \<le> unat a \<and> unat a < unat p + n"
  using assms unat32_less [of a] unat32_less [of p] by (auto simp: unat_sub_if')

lemma unat_add32:
  assumes "unat (p :: u32) + n < 2 ^ 32"
  shows "unat (p + of_nat n) = unat p + n"
proof -
  have "unat (of_nat n :: u32) = n" using assms by (simp add: unat_of_nat)
  with assms show ?thesis by (simp add: unat_word_ariths)
qed

lemma readseg_loop_reads:
  assumes "drive_answers st" "unat epa \<le> unat pa + 512 * k" "k > 0 \<Longrightarrow> unat pa + 512 * (k - 1) < unat epa"
    "unat pa + 512 * k < 2 ^ 32" "unat offset + k \<le> 2 ^ 28"
  shows "\<exists>s'. readseg_loop st disk pa epa offset s = Some s' \<and>
    (\<forall>a. bmem s' a = (if unat pa \<le> unat a \<and> unat a < unat pa + 512 * k
                      then disk (unat offset + (unat a - unat pa) div 512) ((unat a - unat pa) mod 512)
                      else bmem s a))"
  using assms(2-)
proof (induction k arbitrary: pa offset s)
  case 0
  then have "\<not> pa < epa" by (simp add: word_less_nat_alt)
  then have "readseg_loop st disk pa epa offset s = Some s" by (subst readseg_loop.simps) simp
  then show ?case by auto
next
  case (Suc k)
  have pa: "unat (pa + 512) = unat pa + 512" and off: "unat (offset + 1) = unat offset + 1"
    using Suc.prems unat_add32 [of pa 512] unat_add32 [of offset 1] by simp_all
  obtain s1 where s1: "readsect st disk pa offset s = Some s1"
    "bmem s1 = (\<lambda>a. if unat (a - pa) < 512 then disk (unat offset) (unat (a - pa)) else bmem s a)"
    using readsect_reads [OF assms(1), of offset disk pa s] Suc.prems(4) by auto
  have "\<exists>s'. readseg_loop st disk (pa + 512) epa (offset + 1) s1 = Some s' \<and>
    (\<forall>a. bmem s' a = (if unat (pa + 512) \<le> unat a \<and> unat a < unat (pa + 512) + 512 * k
       then disk (unat (offset + 1) + (unat a - unat (pa + 512)) div 512) ((unat a - unat (pa + 512)) mod 512)
       else bmem s1 a))"
    using Suc.prems by (intro Suc.IH) (auto simp: pa off)
  then obtain s' where s': "readseg_loop st disk (pa + 512) epa (offset + 1) s1 = Some s'"
    "\<And>a. bmem s' a = (if unat pa + 512 \<le> unat a \<and> unat a < unat pa + 512 + 512 * k
       then disk (unat offset + 1 + (unat a - (unat pa + 512)) div 512) ((unat a - (unat pa + 512)) mod 512)
       else bmem s1 a)"
    unfolding pa off by blast
  have "pa < epa" using Suc.prems by (simp add: word_less_nat_alt)
  then have "readseg_loop st disk pa epa offset s = Some s'"
    using s1(1) s'(1) by (subst readseg_loop.simps) (simp add: SECTSIZE_def)
  moreover have "bmem s' a = (if unat pa \<le> unat a \<and> unat a < unat pa + 512 * Suc k
      then disk (unat offset + (unat a - unat pa) div 512) ((unat a - unat pa) mod 512) else bmem s a)"
    if range: "unat (a - pa) < 512 \<longleftrightarrow> unat pa \<le> unat a \<and> unat a < unat pa + 512" for a
  proof (cases "unat pa + 512 \<le> unat a")
    case True
    then obtain t where "unat a = unat pa + 512 + t" using le_Suc_ex by blast
    then have "(unat a - unat pa) div 512 = (unat a - (unat pa + 512)) div 512 + 1"
      "(unat a - unat pa) mod 512 = (unat a - (unat pa + 512)) mod 512" by simp_all
    moreover have "\<not> unat (a - pa) < 512" using True range by simp
    ultimately show ?thesis using True by (simp add: s'(2) s1(2))
  next
    case False
    then have "bmem s' a = bmem s1 a" by (simp add: s'(2))
    moreover have "unat (a - pa) = unat a - unat pa" if "unat pa \<le> unat a"
      using that by (simp add: unat_sub_if')
    ultimately show ?thesis using False range by (simp add: s1(2))
  qed
  moreover have "unat (a - pa) < 512 \<longleftrightarrow> unat pa \<le> unat a \<and> unat a < unat pa + 512" for a
    using Suc.prems by (intro in_range32) simp
  ultimately show ?case by blast
qed

section \<open>Loading segments\<close>

definition seg_end :: "proghdr \<Rightarrow> nat" where
  "seg_end ph = unat (ph_paddr ph) + max (unat (ph_filesz ph)) (unat (ph_memsz ph))"

text \<open>The segment and the sectors it lies in are above \<open>lo\<close> and below the end of memory.\<close>

definition seg_ok :: "nat \<Rightarrow> proghdr \<Rightarrow> bool" where
  "seg_ok lo ph \<longleftrightarrow> lo + unat (ph_off ph) mod 512 \<le> unat (ph_paddr ph) \<and> seg_end ph + 512 \<le> 2 ^ 32"

text \<open>The bytes of the file, followed by zeros.\<close>

definition seg_loaded :: "sectors \<Rightarrow> proghdr \<Rightarrow> (u32 \<Rightarrow> u8) \<Rightarrow> bool" where
  "seg_loaded disk ph m \<longleftrightarrow>
     (\<forall>a. (unat (ph_paddr ph) \<le> unat a \<and> unat a < unat (ph_paddr ph) + unat (ph_filesz ph) \<longrightarrow>
           m a = image disk (unat (ph_off ph) + (unat a - unat (ph_paddr ph)))) \<and>
          (unat (ph_paddr ph) + unat (ph_filesz ph) \<le> unat a \<and> unat a < unat (ph_paddr ph) + unat (ph_memsz ph) \<longrightarrow>
           m a = 0))"

lemma readseg_reads:
  assumes st: "drive_answers st"
    and lo: "unat offset mod 512 \<le> unat pa" and hi: "unat pa + unat n + 512 \<le> 2 ^ 32"
  shows "\<exists>s'. readseg st disk pa n offset s = Some s' \<and>
    (\<forall>a. (unat a < unat pa - unat offset mod 512 \<longrightarrow> bmem s' a = bmem s a) \<and>
         (unat pa \<le> unat a \<and> unat a < unat pa + unat n \<longrightarrow>
          bmem s' a = image disk (unat offset + (unat a - unat pa))))"
proof -
  define r where "r = unat offset mod 512"
  define q where "q = unat offset div 512"
  define k where "k = (unat n + r + 511) div 512"
  obtain p where p: "unat pa = p + r" using lo unfolding r_def [symmetric] by (metis add.commute le_Suc_ex)
  have off: "unat offset = 512 * q + r" by (simp add: r_def q_def)
  have r: "r < 512" by (simp add: r_def)
  have "512 * k + (unat n + r + 511) mod 512 = unat n + r + 511" unfolding k_def by (rule mult_div_mod_eq)
  moreover have "(unat n + r + 511) mod 512 < 512" by simp
  ultimately have k: "unat n + r \<le> 512 * k" "512 * k < unat n + r + 512" by linarith+
  have "unat (offset mod 512) = r" by (simp add: unat_mod r_def)
  then have pa: "unat (pa - offset mod 512) = p" using p by (simp add: unat_sub_if')
  have epa: "unat (pa + n) = p + r + unat n" using hi p by (simp add: unat_word_ariths)
  have sect: "unat (offset div 512 + 1) = q + 1"
    using unat_add32 [of "offset div 512" 1] unat32_less [of offset] by (simp add: unat_div q_def)
  have "512 * (k - 1) < r + unat n" if "k > 0" using that k(2) by (cases k) auto
  moreover have "q + 1 + k \<le> 2 ^ 28" using k(2) r off unat32_less [of n] unat32_less [of offset] by simp
  moreover have "p + 512 * k < 2 ^ 32" using k(2) hi p by simp
  ultimately obtain s' where s': "readseg_loop st disk (pa - offset mod 512) (pa + n) (offset div 512 + 1) s = Some s'"
    "\<And>a. bmem s' a = (if p \<le> unat a \<and> unat a < p + 512 * k
       then disk (q + 1 + (unat a - p) div 512) ((unat a - p) mod 512) else bmem s a)"
    using readseg_loop_reads [OF st, of "pa + n" "pa - offset mod 512" k "offset div 512 + 1" disk s] k(1)
    unfolding pa epa sect by auto
  have "bmem s' a = image disk (unat offset + (unat a - unat pa))"
    if le: "unat pa \<le> unat a" and less: "unat a < unat pa + unat n" for a
  proof -
    obtain d where d: "unat a = p + r + d" using le_Suc_ex [OF le] unfolding p by blast
    then have "d < unat n" using less p by simp
    then have "bmem s' a = disk (q + 1 + (r + d) div 512) ((r + d) mod 512)" using d k(1) by (simp add: s'(2))
    moreover have "unat offset + (unat a - unat pa) = r + d + 512 * q" using d p off by simp
    ultimately show ?thesis by (simp only: image_def div_mult_self2 mod_mult_self2) simp
  qed
  moreover have "unat pa - unat offset mod 512 = p" using p by (simp add: r_def)
  ultimately show ?thesis using s' by (auto simp: readseg_def SECTSIZE_def)
qed

lemma load_seg_loads:
  assumes st: "drive_answers st" and ok: "seg_ok lo ph"
  shows "\<exists>s'. load_seg st disk ph s = Some s' \<and> seg_loaded disk ph (bmem s') \<and>
    (\<forall>a. unat a < lo \<longrightarrow> bmem s' a = bmem s a)"
proof -
  let ?pa = "unat (ph_paddr ph)" and ?f = "unat (ph_filesz ph)" and ?m = "unat (ph_memsz ph)"
  have hi: "?pa + ?f + 512 \<le> 2 ^ 32" "?pa + ?m + 512 \<le> 2 ^ 32" and low: "lo + unat (ph_off ph) mod 512 \<le> ?pa"
    using ok by (auto simp: seg_ok_def seg_end_def)
  obtain s1 where s1: "readseg st disk (ph_paddr ph) (ph_filesz ph) (ph_off ph) s = Some s1"
    "\<And>a. unat a < ?pa - unat (ph_off ph) mod 512 \<Longrightarrow> bmem s1 a = bmem s a"
    "\<And>a. ?pa \<le> unat a \<Longrightarrow> unat a < ?pa + ?f \<Longrightarrow> bmem s1 a = image disk (unat (ph_off ph) + (unat a - ?pa))"
    using readseg_reads [OF st, of "ph_off ph" "ph_paddr ph" "ph_filesz ph" disk s] low hi by auto
  have lo1: "bmem s1 a = bmem s a" if "unat a < lo" for a using s1(2) [of a] that low by linarith
  show ?thesis
  proof (cases "ph_memsz ph > ph_filesz ph")
    case True
    let ?b = "ph_paddr ph + ph_filesz ph" and ?n = "unat (ph_memsz ph - ph_filesz ph)"
    have n: "?n = ?m - ?f" using True by (simp add: unat_sub_if' word_less_nat_alt)
    have b: "unat ?b = ?pa + ?f" using hi by (simp add: unat_word_ariths)
    have "unat (a - ?b) < ?n \<longleftrightarrow> ?pa + ?f \<le> unat a \<and> unat a < ?pa + ?m" for a
    proof -
      have "?f < ?m" using True by (simp add: word_less_nat_alt)
      then show ?thesis using in_range32 [of ?b ?n a] hi n b by auto
    qed
    then have "bmem (boot_stosb ?b 0 ?n s1) a = (if ?pa + ?f \<le> unat a \<and> unat a < ?pa + ?m then 0 else bmem s1 a)" for a
      by (simp add: boot_stosb_def)
    then have "seg_loaded disk ph (bmem (boot_stosb ?b 0 ?n s1))"
      "\<forall>a. unat a < lo \<longrightarrow> bmem (boot_stosb ?b 0 ?n s1) a = bmem s a"
      using s1(3) lo1 low by (auto simp: seg_loaded_def)
    with True s1(1) show ?thesis by (auto simp: load_seg_def)
  next
    case False
    then have "?m \<le> ?f" by (simp add: word_less_nat_alt)
    with s1(3) have "seg_loaded disk ph (bmem s1)" by (auto simp: seg_loaded_def)
    with False s1(1) lo1 show ?thesis by (auto simp: load_seg_def)
  qed
qed

text \<open>The segments are in order, each above the one before it.\<close>

fun segs_ok :: "nat \<Rightarrow> proghdr list \<Rightarrow> bool" where
  "segs_ok lo [] = True"
| "segs_ok lo (ph # phs) = (seg_ok lo ph \<and> segs_ok (seg_end ph) phs)"

lemma seg_end_ge: "seg_ok lo ph \<Longrightarrow> lo \<le> seg_end ph"
  by (auto simp: seg_ok_def seg_end_def)

lemma seg_loaded_cong:
  assumes "seg_loaded disk ph m" "\<And>a. unat a < seg_end ph \<Longrightarrow> m' a = m a"
  shows "seg_loaded disk ph m'"
  using assms unfolding seg_loaded_def seg_end_def by (auto simp: less_max_iff_disj)

lemma boot_bytes_cong:
  assumes "unat p + n < 2 ^ 32" "\<And>a. unat a < unat p + n \<Longrightarrow> bmem s' a = bmem s a"
  shows "boot_bytes p n s' = boot_bytes p n s"
proof -
  have "bmem s' (p + of_nat i) = bmem s (p + of_nat i)" if "i < n" for i
    using that assms(1) unat_add32 [of p i] by (intro assms(2)) simp
  then show ?thesis by (simp add: boot_bytes_def)
qed

lemma boot_segs_load:
  assumes st: "drive_answers st" and "segs_ok lo phs" "unat p + 32 * length phs \<le> lo" "lo < 2 ^ 32"
    "\<forall>i<length phs. dec_proghdr (boot_bytes (p + of_nat (32 * i)) 32 s) = phs ! i"
  shows "\<exists>s'. boot_segs st disk p (p + of_nat (32 * length phs)) s = Some s' \<and>
    (\<forall>ph\<in>set phs. seg_loaded disk ph (bmem s')) \<and> (\<forall>a. unat a < lo \<longrightarrow> bmem s' a = bmem s a)"
  using assms(2-)
proof (induction phs arbitrary: lo p s)
  case Nil
  then show ?case by (subst boot_segs.simps) simp
next
  case (Cons ph phs)
  have next_p: "unat (p + 32) = unat p + 32" using Cons.prems unat_add32 [of p 32] by simp
  have less: "p < p + of_nat (32 * length (ph # phs))"
    using Cons.prems unat_add32 [of p "32 * length (ph # phs)"] by (simp add: word_less_nat_alt)
  have hd: "dec_proghdr (boot_bytes p 32 s) = ph" using Cons.prems(4) by (auto dest: spec [of _ 0])
  have ok: "seg_ok lo ph" "segs_ok (seg_end ph) phs" using Cons.prems(1) by simp_all
  obtain s1 where s1: "load_seg st disk ph s = Some s1" "seg_loaded disk ph (bmem s1)"
    "\<And>a. unat a < lo \<Longrightarrow> bmem s1 a = bmem s a"
    using load_seg_loads [OF st ok(1)] by blast
  have "dec_proghdr (boot_bytes (p + 32 + of_nat (32 * i)) 32 s1) = phs ! i" if "i < length phs" for i
  proof -
    have a: "p + 32 + of_nat (32 * i) = p + of_nat (32 * Suc i)" by simp
    have "unat (p + of_nat (32 * Suc i)) = unat p + 32 * Suc i"
      using that Cons.prems(2,3) by (intro unat_add32) simp
    then have "boot_bytes (p + of_nat (32 * Suc i)) 32 s1 = boot_bytes (p + of_nat (32 * Suc i)) 32 s"
      using that Cons.prems(2,3) by (intro boot_bytes_cong s1(3)) auto
    with a show ?thesis using Cons.prems(4) [rule_format, of "Suc i"] that by (simp add: add.assoc)
  qed
  moreover have "unat (p + 32) + 32 * length phs \<le> seg_end ph" "seg_end ph < 2 ^ 32"
    using seg_end_ge [OF ok(1)] Cons.prems(2) ok(1) by (simp_all add: next_p seg_ok_def)
  ultimately obtain s' where s': "boot_segs st disk (p + 32) (p + 32 + of_nat (32 * length phs)) s1 = Some s'"
    "\<And>q. q \<in> set phs \<Longrightarrow> seg_loaded disk q (bmem s')" "\<And>a. unat a < seg_end ph \<Longrightarrow> bmem s' a = bmem s1 a"
    using Cons.IH [OF ok(2), of "p + 32" s1] by blast
  have "boot_segs st disk p (p + of_nat (32 * length (ph # phs))) s = Some s'"
    using less s1(1) s'(1) hd by (subst boot_segs.simps) (simp add: PROGHDR_SIZE_def add.assoc)
  moreover have "seg_loaded disk ph (bmem s')" using seg_loaded_cong [OF s1(2)] s'(3) by blast
  moreover have "bmem s' a = bmem s a" if "unat a < lo" for a
    using that s1(3) s'(3) seg_end_ge [OF ok(1)] by (simp add: less_le_trans)
  ultimately show ?case using s'(2) by auto
qed

text \<open>The headers in the kernel's file.\<close>

definition image_bytes :: "sectors \<Rightarrow> nat \<Rightarrow> nat \<Rightarrow> u8 list" where
  "image_bytes disk j n = map (\<lambda>i. image disk (j + i)) [0..<n]"

definition image_elf :: "sectors \<Rightarrow> elfhdr" where
  "image_elf disk = dec_elfhdr (image_bytes disk 0 ELFHDR_SIZE)"

definition image_phs :: "sectors \<Rightarrow> proghdr list" where
  "image_phs disk = map (\<lambda>i. dec_proghdr (image_bytes disk (unat (elf_phoff (image_elf disk)) + 32 * i) 32))
     [0..<elf_phnum (image_elf disk)]"

lemma first_page_bytes:
  assumes "\<And>a. 0x10000 \<le> unat a \<Longrightarrow> unat a < 0x11000 \<Longrightarrow> bmem s a = image disk (unat a - 0x10000)" "j + n \<le> 4096"
  shows "boot_bytes (0x10000 + of_nat j) n s = image_bytes disk j n"
proof -
  have "bmem s (0x10000 + of_nat j + of_nat i) = image disk (j + i)" if "i < n" for i
  proof -
    have "unat (0x10000 + of_nat (j + i) :: u32) = 0x10000 + (j + i)"
      using unat_add32 [of "0x10000" "j + i"] assms(2) that by simp
    then show ?thesis using assms(1) [of "0x10000 + of_nat (j + i)"] assms(2) that by (simp add: add.assoc)
  qed
  then show ?thesis by (simp add: boot_bytes_def image_bytes_def)
qed

lemma bootmain_reads_page:
  assumes "drive_answers st"
  shows "\<exists>s'. readseg st disk 0x10000 4096 0 s = Some s' \<and>
    (\<forall>a. 0x10000 \<le> unat a \<and> unat a < 0x11000 \<longrightarrow> bmem s' a = image disk (unat a - 0x10000))"
  using readseg_reads [OF assms, of 0 "0x10000" 4096 disk s] by auto

text \<open>
  C30. The boot loader loads the kernel: given a drive that becomes ready again and again, an ELF
  file at sector 1 whose program headers lie in its first page and whose segments lie in order above
  the scratch page, \<open>bootmain\<close> reads every segment to its physical address, clears what the file does
  not fill, and calls the entry point of the header.
\<close>

theorem bootmain_loads_kernel:
  assumes "drive_answers st" "elf_magic (image_elf disk) = ELF_MAGIC"
    "unat (elf_phoff (image_elf disk)) + 32 * elf_phnum (image_elf disk) \<le> 4096"
    "segs_ok 0x11000 (image_phs disk)"
  shows "\<exists>s'. bootmain st disk s = Some (Some (elf_entry (image_elf disk)), s') \<and>
    (\<forall>ph\<in>set (image_phs disk). seg_loaded disk ph (bmem s'))"
proof -
  let ?elf = "image_elf disk"
  obtain s1 where s1: "readseg st disk 0x10000 4096 0 s = Some s1"
    "\<And>a. 0x10000 \<le> unat a \<Longrightarrow> unat a < 0x11000 \<Longrightarrow> bmem s1 a = image disk (unat a - 0x10000)"
    using bootmain_reads_page [OF assms(1)] by blast
  let ?p = "0x10000 + elf_phoff ?elf"
  have elf: "dec_elfhdr (boot_bytes 0x10000 ELFHDR_SIZE s1) = ?elf"
    using first_page_bytes [OF s1(2), of 0 ELFHDR_SIZE] by (simp add: image_elf_def ELFHDR_SIZE_def)
  have p: "unat ?p = 0x10000 + unat (elf_phoff ?elf)"
    using unat_add32 [of "0x10000" "unat (elf_phoff ?elf)"] assms(3) by simp
  have len: "length (image_phs disk) = elf_phnum ?elf" by (simp add: image_phs_def)
  have "dec_proghdr (boot_bytes (?p + of_nat (32 * i)) 32 s1) = image_phs disk ! i" if "i < elf_phnum ?elf" for i
    using first_page_bytes [OF s1(2), of "unat (elf_phoff ?elf) + 32 * i" 32] assms(3) that
    by (simp add: image_phs_def add.assoc)
  then obtain s' where s': "boot_segs st disk ?p (?p + of_nat (32 * elf_phnum ?elf)) s1 = Some s'"
    "\<And>ph. ph \<in> set (image_phs disk) \<Longrightarrow> seg_loaded disk ph (bmem s')"
    "\<And>a. unat a < 0x11000 \<Longrightarrow> bmem s' a = bmem s1 a"
    using boot_segs_load [OF assms(1,4), of ?p s1 disk] assms(3) p len by auto
  have "bmem s' a = image disk (unat a - 0x10000)" if "0x10000 \<le> unat a" "unat a < 0x11000" for a
    using that s1(2) s'(3) by simp
  then have "dec_elfhdr (boot_bytes 0x10000 ELFHDR_SIZE s') = ?elf"
    using first_page_bytes [of s' disk 0 ELFHDR_SIZE] by (simp add: image_elf_def ELFHDR_SIZE_def)
  then show ?thesis
    using s' s1(1) elf assms(2) by (simp add: bootmain_def PROGHDR_SIZE_def Let_def)
qed

text \<open>A file without the ELF mark is refused.\<close>

lemma bootmain_refuses:
  assumes "drive_answers st" "elf_magic (image_elf disk) \<noteq> ELF_MAGIC"
  shows "\<exists>s'. bootmain st disk s = Some (None, s')"
proof -
  obtain s1 where s1: "readseg st disk 0x10000 4096 0 s = Some s1"
    "\<And>a. 0x10000 \<le> unat a \<Longrightarrow> unat a < 0x11000 \<Longrightarrow> bmem s1 a = image disk (unat a - 0x10000)"
    using bootmain_reads_page [OF assms(1)] by blast
  then have "dec_elfhdr (boot_bytes 0x10000 ELFHDR_SIZE s1) = image_elf disk"
    using first_page_bytes [OF s1(2), of 0 ELFHDR_SIZE] by (simp add: image_elf_def ELFHDR_SIZE_def)
  with s1(1) assms(2) show ?thesis by (simp add: bootmain_def Let_def)
qed

section \<open>A small kernel\<close>

text \<open>One segment of three bytes in the file and five in memory, at \<open>0x100000\<close>.\<close>

definition small_file :: "u8 list" where
  "small_file =
     [0x7F, 0x45, 0x4C, 0x46] @ replicate 20 0 @ [0x0C, 0, 0x10, 0] @ [52, 0, 0, 0] @ replicate 12 0 @ [1, 0] @
     replicate 6 0 @
     [1, 0, 0, 0] @ [84, 0, 0, 0] @ [0, 0, 0x10, 0x80] @ [0, 0, 0x10, 0] @ [3, 0, 0, 0] @ [5, 0, 0, 0] @
     replicate 8 0 @ [0xFA, 0xF4, 0x90]"

definition small_disk :: sectors where
  "small_disk n i = (if n = 1 \<and> i < length small_file then small_file ! i else 0)"

lemma small_image: "image small_disk j = (if j < 87 then small_file ! j else 0)"
  by (auto simp: image_def small_disk_def small_file_def)

lemma small_elf:
  "image_elf small_disk = \<lparr>elf_magic = 0x464C457F, elf_entry = 0x10000C, elf_phoff = 52, elf_phnum = 1\<rparr>"
  by (simp add: image_elf_def dec_elfhdr_def dec32_def dec16_def image_bytes_def ELFHDR_SIZE_def small_image
      small_file_def nth_append)

lemma small_phs:
  "image_phs small_disk = [\<lparr>ph_type = 1, ph_off = 84, ph_vaddr = 0x80100000, ph_paddr = 0x100000,
     ph_filesz = 3, ph_memsz = 5\<rparr>]"
  by (simp add: image_phs_def small_elf dec_proghdr_def dec32_def image_bytes_def small_image
      small_file_def nth_append)

theorem bootmain_loads_kernel_witness:
  "\<exists>s'. bootmain (\<lambda>_. 0x40) small_disk \<lparr>bmem = \<lambda>_. 0xCC, bports = \<lambda>_. 0, bpolls = 0\<rparr>
          = Some (Some 0x10000C, s') \<and>
     bmem s' 0x100002 = 0x90 \<and> bmem s' 0x100004 = 0"
proof -
  have "\<exists>s'. bootmain (\<lambda>_. 0x40) small_disk \<lparr>bmem = \<lambda>_. 0xCC, bports = \<lambda>_. 0, bpolls = 0\<rparr>
          = Some (Some (elf_entry (image_elf small_disk)), s') \<and>
      (\<forall>ph\<in>set (image_phs small_disk). seg_loaded small_disk ph (bmem s'))"
    by (rule bootmain_loads_kernel)
      (auto simp: drive_answers_def small_elf small_phs ELF_MAGIC_def seg_ok_def seg_end_def)
  then obtain s' where "bootmain (\<lambda>_. 0x40) small_disk \<lparr>bmem = \<lambda>_. 0xCC, bports = \<lambda>_. 0, bpolls = 0\<rparr>
      = Some (Some 0x10000C, s')" and loaded: "seg_loaded small_disk (hd (image_phs small_disk)) (bmem s')"
    by (auto simp: small_elf small_phs)
  moreover have "bmem s' 0x100002 = 0x90" "bmem s' 0x100004 = 0"
    using loaded [unfolded seg_loaded_def, THEN spec, of "0x100002"] loaded [unfolded seg_loaded_def, THEN spec, of "0x100004"]
    by (simp_all add: small_phs small_image small_file_def nth_append)
  ultimately show ?thesis by blast
qed

end
