(* ===== verification/Mkfs.thy ===== *)
theory Mkfs
  imports Fs_Blocks
begin

text \<open>
  The program that builds the file system image (\<open>mkfs.c\<close>). It runs on the host: \<open>files\<close> gives for a
  name the pieces in which the file's contents are read, or \<open>None\<close> when it cannot be opened, and
  \<open>creat\<close> says whether the image can be created; seeking and writing in the image succeed, while
  reading past its end fails as it does in the source. Integers in the image are in Intel byte order,
  which \<open>xint\<close> and \<open>xshort\<close> produce; here that is the encoding of \<open>Fs_Layout\<close>.
\<close>

section \<open>Layout\<close>

definition NINODES :: nat where "NINODES = 200"
definition nbitmap :: nat where "nbitmap = FSSIZE div (BSIZE * 8) + 1"
definition ninodeblocks :: nat where "ninodeblocks = NINODES div IPB + 1"
definition nlog :: nat where "nlog = LOGSIZE"
definition nmeta :: nat where "nmeta = 2 + nlog + ninodeblocks + nbitmap"
definition nblocks :: nat where "nblocks = FSSIZE - nmeta"

definition mk_sb :: superblock where
  "mk_sb = \<lparr>sb_size = FSSIZE, sb_nblocks = nblocks, sb_ninodes = NINODES, sb_nlog = nlog, sb_logstart = 2,
     sb_inodestart = 2 + nlog, sb_bmapstart = 2 + nlog + ninodeblocks\<rparr>"

section \<open>State and errors\<close>

record mkfs =
  mk_img :: disk
  mk_size :: nat
  freeinode :: nat
  freeblock :: nat

datatype mkerr = Mk_usage | Mk_open string | Mk_read | Mk_assert

fun mbind :: "mkerr + 'a \<Rightarrow> ('a \<Rightarrow> mkerr + 'b) \<Rightarrow> mkerr + 'b" where
  "mbind (Inl e) f = Inl e"
| "mbind (Inr a) f = f a"

lemma mbind_cong [fundef_cong]: "m = m' \<Longrightarrow> (\<And>a. m' = Inr a \<Longrightarrow> f a = f' a) \<Longrightarrow> mbind m f = mbind m' f'"
  by (cases m') auto

section \<open>Sectors and inodes\<close>

definition wsect :: "nat \<Rightarrow> u8 list \<Rightarrow> mkfs \<Rightarrow> mkfs" where
  "wsect sec buf s = s\<lparr>mk_img := (mk_img s)(sec := buf), mk_size := max (mk_size s) (sec + 1)\<rparr>"

definition rsect :: "nat \<Rightarrow> mkfs \<Rightarrow> mkerr + u8 list" where
  "rsect sec s = (if sec < mk_size s then Inr (mk_img s sec) else Inl Mk_read)"

definition winode :: "nat \<Rightarrow> dinode \<Rightarrow> mkfs \<Rightarrow> mkerr + mkfs" where
  "winode inum ip s =
     (let bn = IBLOCK inum mk_sb
      in mbind (rsect bn s) (\<lambda>buf. Inr (wsect bn (put_bytes buf (64 * (inum mod IPB)) (enc_dinode ip)) s)))"

definition rinode :: "nat \<Rightarrow> mkfs \<Rightarrow> mkerr + dinode" where
  "rinode inum s =
     mbind (rsect (IBLOCK inum mk_sb) s) (\<lambda>buf. Inr (dec_dinode buf (64 * (inum mod IPB))))"

definition mk_ialloc :: "u16 \<Rightarrow> mkfs \<Rightarrow> mkerr + (nat \<times> mkfs)" where
  "mk_ialloc type s =
     (let inum = freeinode s; s = s\<lparr>freeinode := inum + 1\<rparr>;
          din = \<lparr>di_type = type, di_major = 0, di_minor = 0, di_nlink = 1, di_size = 0,
                 di_addrs = replicate (NDIRECT + 1) 0\<rparr>
      in mbind (winode inum din s) (\<lambda>s. Inr (inum, s)))"

definition mk_balloc :: "nat \<Rightarrow> mkfs \<Rightarrow> mkerr + mkfs" where
  "mk_balloc used s =
     (if \<not> used < BSIZE * 8 then Inl Mk_assert
      else Inr (wsect (sb_bmapstart mk_sb) (fold (\<lambda>i buf. set_bit8 buf i) [0..<used] (replicate BSIZE 0)) s))"

section \<open>Appending to a file\<close>

text \<open>The block of the file block \<open>fbn\<close>, allocated if need be.\<close>

definition block_for :: "nat \<Rightarrow> dinode \<Rightarrow> mkfs \<Rightarrow> mkerr + (nat \<times> dinode \<times> mkfs)" where
  "block_for fbn din s =
     (if fbn < NDIRECT then
        let (din, s) = (if di_addrs din ! fbn = 0
                        then (din\<lparr>di_addrs := (di_addrs din)[fbn := freeblock s]\<rparr>, s\<lparr>freeblock := freeblock s + 1\<rparr>)
                        else (din, s))
        in Inr (di_addrs din ! fbn, din, s)
      else
        let (din, s) = (if di_addrs din ! NDIRECT = 0
                        then (din\<lparr>di_addrs := (di_addrs din)[NDIRECT := freeblock s]\<rparr>, s\<lparr>freeblock := freeblock s + 1\<rparr>)
                        else (din, s))
        in mbind (rsect (di_addrs din ! NDIRECT) s) (\<lambda>indirect.
           let i = 4 * (fbn - NDIRECT)
           in if dec32 indirect i = 0 then
                let x = freeblock s
                in Inr (x, din, wsect (di_addrs din ! NDIRECT) (put_bytes indirect i (enc32 x)) (s\<lparr>freeblock := x + 1\<rparr>))
              else Inr (dec32 indirect i, din, s)))"

text \<open>The loop of \<open>iappend\<close>; \<open>p\<close> are the bytes still to be written.\<close>

function iappend_loop :: "u8 list \<Rightarrow> nat \<Rightarrow> dinode \<Rightarrow> mkfs \<Rightarrow> mkerr + (nat \<times> dinode \<times> mkfs)" where
  "iappend_loop p off din s =
     (if p = [] then Inr (off, din, s)
      else
        let fbn = off div BSIZE
        in if \<not> fbn < MAXFILE then Inl Mk_assert
           else
             mbind (block_for fbn din s) (\<lambda>(x, din, s).
             mbind (rsect x s) (\<lambda>buf.
             let n1 = min (length p) ((fbn + 1) * BSIZE - off)
             in iappend_loop (drop n1 p) (off + n1) din (wsect x (put_bytes buf (off - fbn * BSIZE) (take n1 p)) s))))"
  by auto
termination
proof (relation "measure (\<lambda>(p, off, din, s). length p)", goal_cases)
  case (2 p off din s fbn)
  then have "off < (fbn + 1) * BSIZE" by (simp add: BSIZE_def)
  with 2 show ?case by auto
qed simp

declare iappend_loop.simps [simp del]

definition iappend :: "nat \<Rightarrow> u8 list \<Rightarrow> mkfs \<Rightarrow> mkerr + mkfs" where
  "iappend inum p s =
     mbind (rinode inum s) (\<lambda>din.
     mbind (iappend_loop p (di_size din) din s) (\<lambda>(off, din, s).
     winode inum (din\<lparr>di_size := off\<rparr>) s))"

section \<open>The program\<close>

text \<open>A directory entry; a name longer than the field is cut off.\<close>

definition mk_dirent :: "nat \<Rightarrow> string \<Rightarrow> u8 list" where
  "mk_dirent inum name =
     enc_dirent \<lparr>de_inum = of_nat inum,
       de_name = take DIRSIZ (map of_char name @ replicate DIRSIZ 0)\<rparr>"

definition fresh_image :: mkfs where
  "fresh_image =
     wsect 1 (enc_sb mk_sb @ replicate (BSIZE - 28) 0)
       (fold (\<lambda>i. wsect i (replicate BSIZE 0)) [0..<FSSIZE]
         \<lparr>mk_img = \<lambda>_. replicate BSIZE 0, mk_size = 0, freeinode = 1, freeblock = nmeta\<rparr>)"

definition make_root :: "mkfs \<Rightarrow> mkerr + mkfs" where
  "make_root s =
     mbind (mk_ialloc T_DIR s) (\<lambda>(rootino, s).
     if rootino \<noteq> ROOTINO then Inl Mk_assert
     else mbind (iappend rootino (mk_dirent rootino ''.'') s) (\<lambda>s. iappend rootino (mk_dirent rootino ''..'') s))"

fun append_pieces :: "nat \<Rightarrow> u8 list list \<Rightarrow> mkfs \<Rightarrow> mkerr + mkfs" where
  "append_pieces inum [] s = Inr s"
| "append_pieces inum (piece # pieces) s = mbind (iappend inum piece s) (append_pieces inum pieces)"

definition add_file :: "(string \<Rightarrow> u8 list list option) \<Rightarrow> string \<Rightarrow> mkfs \<Rightarrow> mkerr + mkfs" where
  "add_file files arg s =
     (if CHR ''/'' \<in> set arg then Inl Mk_assert
      else
        case files arg of
          None \<Rightarrow> Inl (Mk_open arg)
        | Some pieces \<Rightarrow>
            let name = (if arg \<noteq> [] \<and> hd arg = CHR ''_'' then tl arg else arg)
            in mbind (mk_ialloc T_FILE s) (\<lambda>(inum, s).
               mbind (iappend ROOTINO (mk_dirent inum name) s) (\<lambda>s. append_pieces inum pieces s)))"

fun add_files :: "(string \<Rightarrow> u8 list list option) \<Rightarrow> string list \<Rightarrow> mkfs \<Rightarrow> mkerr + mkfs" where
  "add_files files [] s = Inr s"
| "add_files files (arg # args) s = mbind (add_file files arg s) (add_files files args)"

definition fix_root :: "mkfs \<Rightarrow> mkerr + mkfs" where
  "fix_root s =
     mbind (rinode ROOTINO s) (\<lambda>din.
     winode ROOTINO (din\<lparr>di_size := (di_size din div BSIZE + 1) * BSIZE\<rparr>) s)"

definition main_mkfs :: "(string \<Rightarrow> bool) \<Rightarrow> (string \<Rightarrow> u8 list list option) \<Rightarrow> string list \<Rightarrow> mkerr + disk" where
  "main_mkfs creat files argv =
     (case argv of
        _ # img # args \<Rightarrow>
          if \<not> creat img then Inl (Mk_open img)
          else
            mbind (make_root fresh_image) (\<lambda>s.
            mbind (add_files files args s) (\<lambda>s.
            mbind (fix_root s) (\<lambda>s.
            mbind (mk_balloc (freeblock s) s) (\<lambda>s. Inr (mk_img s)))))
      | _ \<Rightarrow> Inl Mk_usage)"

end
