(* ===== verification/Fs_Files.thy ===== *)
theory Fs_Files
  imports Fs_Blocks
begin

text \<open>
  The contents of files: the blocks an inode refers to, the bytes they hold, and what \<open>bmap\<close> and
  \<open>readi\<close> return. An inode is seen as its size and its list of addresses; \<open>slot\<close> numbers its blocks,
  the indirect block being number 140.
\<close>

section \<open>Blocks of an inode\<close>

definition slot :: "disk \<Rightarrow> nat list \<Rightarrow> nat \<Rightarrow> nat" where
  "slot d as k =
     (if k < 12 then as ! k else if k = 140 then as ! 12
      else if as ! 12 = 0 then 0 else dec32 (d (as ! 12)) (4 * (k - 12)))"

text \<open>A file of \<open>n\<close> bytes has block \<open>k\<close>.\<close>

definition has_slot :: "nat \<Rightarrow> nat \<Rightarrow> bool" where
  "has_slot n k \<longleftrightarrow> (if k = 140 then 6144 < n else 512 * k < n)"

definition byte_of :: "disk \<Rightarrow> nat list \<Rightarrow> nat \<Rightarrow> u8" where
  "byte_of d as j = d (slot d as (j div 512)) ! (j mod 512)"

definition bytes_of :: "disk \<Rightarrow> nat \<Rightarrow> nat list \<Rightarrow> u8 list" where
  "bytes_of d n as = map (byte_of d as) [0..<n]"

text \<open>The blocks depend on the image only through the indirect block.\<close>

lemma slot_cong: "(as ! 12 \<noteq> 0 \<Longrightarrow> d' (as ! 12) = d (as ! 12)) \<Longrightarrow> slot d' as k = slot d as k"
  by (simp add: slot_def)

lemma slot_140 [simp]: "slot d as 140 = as ! 12"
  by (simp add: slot_def)

section \<open>Bytes and blocks\<close>

lemma split512: obtains q r where "off = 512 * q + r" "r < 512" "off div 512 = q" "off mod 512 = (r :: nat)"
  using that [of "off div 512" "off mod 512"] by simp

lemma same_block:
  assumes "off mod 512 + t < (512 :: nat)"
  shows "(off + t) div 512 = off div 512" "(off + t) mod 512 = off mod 512 + t"
proof -
  obtain q r where off: "off = 512 * q + r" "r < 512" "off div 512 = q" "off mod 512 = r" by (rule split512)
  have "(512 * q + u) div 512 = q \<and> (512 * q + u) mod 512 = u" if "u < 512" for u using that by simp
  from this [of "r + t"] show "(off + t) div 512 = off div 512" "(off + t) mod 512 = off mod 512 + t"
    using off(1) assms unfolding off(3,4) by (simp_all add: add.assoc)
qed

lemma block_end: "(off div 512 + 1) * 512 = off + (512 - off mod (512 :: nat))"
proof -
  obtain q r where "off = 512 * q + r" "r < 512" "off div 512 = q" "off mod 512 = r" by (rule split512)
  then show ?thesis by simp
qed

lemma byte_slot: "m < n \<Longrightarrow> n \<le> 71680 \<Longrightarrow> m div 512 < 140 \<and> has_slot n (m div 512)"
  by (auto simp: has_slot_def less_mult_imp_div_less)

lemma bytes_of_cong:
  assumes "\<And>m. m < n \<Longrightarrow> slot d' as' (m div 512) = slot d as (m div 512)"
    "\<And>m. m < n \<Longrightarrow> d' (slot d as (m div 512)) ! (m mod 512) = d (slot d as (m div 512)) ! (m mod 512)"
  shows "bytes_of d' n as' = bytes_of d n as"
  using assms by (simp add: bytes_of_def byte_of_def)

section \<open>Reading a file\<close>

text \<open>A process that is not inside a transaction may read as well; then the cache has to have a buffer left.\<close>

definition can_peek :: "nat \<Rightarrow> 'z fstate_scheme \<Rightarrow> bool" where
  "can_peek p s \<longleftrightarrow> card (bheld s \<union> bdirty s) < NBUF"

text \<open>
  What the file system keeps of the file of a cached inode: enough blocks for its size, all of them on
  the disk, outside the log and not held by anybody.
\<close>

definition file_ok :: "nat \<Rightarrow> nat \<Rightarrow> 'z fstate_scheme \<Rightarrow> bool" where
  "file_ok p ip s \<longleftrightarrow>
     i_dev (icache s ip) = 1 \<and> length (i_addrs (icache s ip)) = 13 \<and> i_size (icache s ip) \<le> 71680 \<and>
     (\<forall>k\<le>140. has_slot (i_size (icache s ip)) k \<longrightarrow> slot (bview s) (i_addrs (icache s ip)) k \<noteq> 0) \<and>
     (\<forall>k\<le>140. slot (bview s) (i_addrs (icache s ip)) k \<noteq> 0 \<longrightarrow> blk_ok p (slot (bview s) (i_addrs (icache s ip)) k) s)"

definition file_data :: "nat \<Rightarrow> 'z fstate_scheme \<Rightarrow> u8 list" where
  "file_data ip s = bytes_of (bview s) (i_size (icache s ip)) (i_addrs (icache s ip))"

lemma length_file_data [simp]: "length (file_data ip s) = i_size (icache s ip)"
  by (simp add: file_data_def bytes_of_def)

text \<open>The state as far as a reader changes nothing.\<close>

definition quiet :: "nat \<Rightarrow> 'z fstate_scheme \<Rightarrow> 'z fstate_scheme \<Rightarrow> bool" where
  "quiet p s t \<longleftrightarrow> bcache p t = bcache p s \<and> bcore t = bcore s"

lemma quiet_refl [simp]: "quiet p s s"
  and quiet_trans: "quiet p s t \<Longrightarrow> quiet p t u \<Longrightarrow> quiet p s u"
  by (simp_all add: quiet_def)

lemma quietD:
  assumes "quiet p s t"
  shows "bview t = bview s" "icache t = icache s" "fs_sb t = fs_sb s" "bheld t = bheld s" "bdirty t = bdirty s"
    "disksize t = disksize s" "log_area t = log_area s" "can_peek p t \<longleftrightarrow> can_peek p s" "file_ok p ip t \<longleftrightarrow> file_ok p ip s"
    "blk_ok p b t \<longleftrightarrow> blk_ok p b s" "lcore t = lcore s"
proof -
  have c: "bcache p t = bcache p s" and l: "lcore t = lcore s"
    using assms lcore_bcore by (auto simp: quiet_def)
  show v: "bview t = bview s" "bheld t = bheld s" "bdirty t = bdirty s" "disksize t = disksize s"
    using c by (metis bcache_sel)+
  show i: "icache t = icache s" "fs_sb t = fs_sb s" "log_area t = log_area s" "lcore t = lcore s"
    using lcore_fs [OF l] lcore_area [OF l] l by simp_all
  show b: "blk_ok p b t \<longleftrightarrow> blk_ok p b s" for b by (rule blk_ok_same [OF l c])
  show "can_peek p t \<longleftrightarrow> can_peek p s" "file_ok p ip t \<longleftrightarrow> file_ok p ip s"
    using v i b by (simp_all add: can_peek_def file_ok_def)
qed

lemma quiet_txn: "txn c p s \<Longrightarrow> bgood c p t \<Longrightarrow> quiet p s t \<Longrightarrow> txn c p t"
  using txn_abs_step [of c p s t "bcache p t"] by (simp add: quiet_def)

lemma io_peek:
  assumes "bgood c p s" "can_peek p s" "b < disksize s" "b \<notin> bheld s"
  obtains i t u where "bread 1 b s = Ok i t" "buf_data i t = bview s b" "icache t = icache s"
    "brelse i t = Ok () u" "bgood c p u" "quiet p s u"
proof -
  have "can_read b (bcache p s)" using assms by (simp add: can_read_def can_peek_def)
  from bc.peek [OF assms(1) this] obtain i t u where *: "bread 1 b s = Ok i t" "buf_data i t = bview s b" "bcore t = bcore s"
    "brelse i t = Ok () u" "bgood c p u" "bcache p u = bcache p s" "bcore u = bcore s"
    by (metis bcache_sel(1))
  show ?thesis using that [OF *(1,2) lcore_fs(1) [OF lcore_bcore [OF *(3)]] *(4,5)] *(6,7) by (simp add: quiet_def)
qed

lemma bmap_found:
  assumes g: "bgood c p s" "can_peek p s" and f: "file_ok p ip s" and k: "k < 140"
    and x: "slot (bview s) (i_addrs (icache s ip)) k \<noteq> 0"
  obtains t where "bmap ip k s = Ok (slot (bview s) (i_addrs (icache s ip)) k) t" "bgood c p t" "quiet p s t"
proof (cases "k < 12")
  case True
  then have "bmap ip k s = Ok (slot (bview s) (i_addrs (icache s ip)) k) s"
    using x by (simp add: bmap_def slot_def NDIRECT_def)
  then show ?thesis using g(1) by (rule that) simp
next
  case False
  let ?a = "i_addrs (icache s ip) ! 12"
  have a: "?a \<noteq> 0" and v: "slot (bview s) (i_addrs (icache s ip)) k = dec32 (bview s ?a) (4 * (k - 12))"
    using x False k by (auto simp: slot_def split: if_splits)
  have "slot (bview s) (i_addrs (icache s ip)) 140 \<noteq> 0" using a by simp
  then have "blk_ok p ?a s" using f unfolding file_ok_def by (metis slot_140 order_refl)
  then have b: "?a < disksize s" "?a \<notin> bheld s" by (simp_all add: blk_ok_def)
  from g b obtain i t u where *: "bread 1 ?a s = Ok i t" "buf_data i t = bview s ?a" "icache t = icache s"
    "brelse i t = Ok () u" "bgood c p u" "quiet p s u" by (rule io_peek)
  have "bmap ip k s = Ok (slot (bview s) (i_addrs (icache s ip)) k) u"
    using False k a x v * f by (simp add: bmap_def layout_defs file_ok_def Let_def)
  then show ?thesis using *(5,6) by (rule that)
qed

lemma get_bytes_block:
  assumes "off mod 512 + m \<le> 512" "length (d (slot d as (off div 512))) = 512"
  shows "get_bytes (d (slot d as (off div 512))) (off mod 512) m = map (byte_of d as) [off..<off + m]"
proof (rule nth_equalityI)
  fix i assume "i < length (get_bytes (d (slot d as (off div 512))) (off mod 512) m)"
  then have "i < m" by (simp add: get_bytes_def)
  then show "get_bytes (d (slot d as (off div 512))) (off mod 512) m ! i = map (byte_of d as) [off..<off + m] ! i"
    using assms same_block [of off i] by (simp add: get_bytes_def byte_of_def)
qed (use assms in \<open>simp add: get_bytes_def\<close>)

lemma readi_loop_ok:
  assumes "bgood c p s" "can_peek p s" "file_ok p ip s" "off + n \<le> i_size (icache s ip)"
  shows "\<exists>t. readi_loop ip off n s = Ok (map (byte_of (bview s) (i_addrs (icache s ip))) [off..<off + n]) t \<and>
    bgood c p t \<and> quiet p s t"
  using assms
proof (induction n arbitrary: off s rule: less_induct)
  case (less n)
  show ?case
  proof (cases "n = 0")
    case True
    then show ?thesis using less.prems(1) by (subst readi_loop.simps) simp
  next
    case False
    let ?as = "i_addrs (icache s ip)" and ?m = "chunk off n"
    let ?x = "slot (bview s) ?as (off div 512)"
    have m: "0 < ?m" "?m \<le> n" "off mod 512 + ?m \<le> 512" using False chunk_pos by (auto simp: chunk_def BSIZE_def)
    have k: "off div 512 < 140" "?x \<noteq> 0" "blk_ok p ?x s"
      using byte_slot [of off "i_size (icache s ip)"] less.prems(3,4) False by (auto simp: file_ok_def)
    from bmap_found [OF less.prems(1-3) k(1,2)] obtain s1 where
      s1: "bmap ip (off div 512) s = Ok ?x s1" "bgood c p s1" "quiet p s s1" by blast
    note q1 = quietD [OF s1(3)]
    have b: "?x < disksize s1" "?x \<notin> bheld s1" and peek1: "can_peek p s1"
      using k(3) q1 less.prems(2) by (simp_all add: blk_ok_def)
    from s1(2) peek1 b obtain i t u where *: "bread 1 ?x s1 = Ok i t" "buf_data i t = bview s1 ?x" "icache t = icache s1"
      "brelse i t = Ok () u" "bgood c p u" "quiet p s1 u" by (rule io_peek)
    have qu: "quiet p s u" using s1(3) *(6) by (rule quiet_trans)
    note q2 = quietD [OF qu]
    have "length (bview s ?x) = 512" using less.prems(1) by (simp add: bgood_def length_bview BSIZE_def)
    then have c: "get_bytes (buf_data i t) (off mod 512) ?m = map (byte_of (bview s) ?as) [off..<off + ?m]"
      unfolding *(2) q1(1) by (rule get_bytes_block [OF m(3)])
    obtain v where v: "readi_loop ip (off + ?m) (n - ?m) u =
        Ok (map (byte_of (bview s) ?as) [off + ?m..<off + ?m + (n - ?m)]) v" "bgood c p v" "quiet p u v"
      using less.IH [of "n - ?m" u "off + ?m"] less.prems *(5) m False unfolding q2 by auto
    have e: "[off..<off + n] = [off..<off + ?m] @ [off + ?m..<off + ?m + (n - ?m)]"
      using m(2) upt_add_eq_append [of off "off + ?m" "n - ?m"] by simp
    have "readi_loop ip off n s = Ok (map (byte_of (bview s) ?as) [off..<off + n]) v"
      using False s1(1) * v(1) c q1 less.prems(3) unfolding e
      by (subst readi_loop.simps) (simp add: BSIZE_def file_ok_def Let_def)
    then show ?thesis using v(2) quiet_trans [OF qu v(3)] by blast
  qed
qed

lemma upt_bytes: "off + m \<le> n \<Longrightarrow> map (byte_of d as) [off..<off + m] = take m (drop off (bytes_of d n as))"
  by (simp add: bytes_of_def drop_map take_map)

lemma readi_ok:
  assumes "bgood c p s" "can_peek p s" "file_ok p ip s" "i_type (icache s ip) \<noteq> T_DEV"
    "off \<le> i_size (icache s ip)" "off + n < 4294967296"
  obtains t where "readi dr ip off n s = Ok (int (min n (i_size (icache s ip) - off)), take n (drop off (file_data ip s))) t"
    "bgood c p t" "quiet p s t"
proof -
  let ?sz = "i_size (icache s ip)"
  let ?n = "min n (?sz - off)"
  have le: "off + ?n \<le> ?sz" using assms(5) by auto
  from readi_loop_ok [OF assms(1-3) this] obtain t where
    t: "readi_loop ip off ?n s = Ok (take ?n (drop off (file_data ip s))) t" "bgood c p t" "quiet p s t"
    unfolding upt_bytes [OF le] file_data_def by blast
  have "take ?n (drop off (file_data ip s)) = take n (drop off (file_data ip s))"
    using take_all_iff by (simp add: min_def)
  moreover have "?n = (if (off + n) mod 4294967296 > ?sz then ?sz - off else n)" using assms(5,6) by auto
  ultimately have "readi dr ip off n s = Ok (int ?n, take n (drop off (file_data ip s))) t"
    using t(1) assms(4-6) by (simp add: readi_def)
  then show ?thesis using t(2,3) by (rule that)
qed

text \<open>
  C7. \<open>readi\<close> reads the file. With a file whose blocks are on the disk and not held by anybody, reading
  \<open>n\<close> bytes at an offset up to the size returns the bytes of the file from there on, as many of the
  \<open>n\<close> as it has, with their number; an offset beyond the end or a range that wraps around gives -1. The
  contents of the disk and the inodes stay as they are.
\<close>

theorem readi_reads:
  assumes "bgood c p s" "can_peek p s" "file_ok p ip s" "i_type (icache s ip) \<noteq> T_DEV" "off < 4294967296" "n < 4294967296"
  shows "if off \<le> i_size (icache s ip) \<and> off + n < 4294967296
    then \<exists>t. readi dr ip off n s = Ok (int (min n (i_size (icache s ip) - off)), take n (drop off (file_data ip s))) t \<and>
      bgood c p t \<and> quiet p s t
    else readi dr ip off n s = Ok (-1, []) s"
proof (cases "off \<le> i_size (icache s ip) \<and> off + n < 4294967296")
  case True
  then show ?thesis using readi_ok [OF assms(1-4)] by metis
next
  case False
  have "(off + n) mod 4294967296 < off" if "\<not> off + n < 4294967296"
  proof -
    have "(off + n) mod 4294967296 = off + n - 4294967296" using that assms(5,6) by (simp add: mod_if)
    then show ?thesis using that assms(6) by linarith
  qed
  then show ?thesis using False assms(4) by (auto simp: readi_def)
qed

text \<open>A disk with a file of two bytes in block 59, and its inode.\<close>

definition hi_disk :: disk where "hi_disk = sample_disk(59 := [104, 105] @ replicate 510 0)"

definition hi_inode :: inode where
  "hi_inode = no_inode\<lparr>i_dev := 1, i_inum := 2, i_ref := 1, i_valid := True, i_type := T_FILE, i_size := 2,
     i_addrs := 59 # replicate 12 0\<rparr>"

lemma hi_disk_ok: "blocks_ok hi_disk" "hdr_n (hi_disk 2) = 0"
  using sample_disk_ok by (simp_all add: hi_disk_def blocks_ok_def BSIZE_def)

lemmas hi_machine = fs_machine_txn [OF hi_disk_ok] fs_machine_view [OF hi_disk_ok] fs_machine_blk [OF hi_disk_ok]

theorem readi_reads_witness:
  "\<exists>t. readi (\<lambda>_. None) 0 1 5 (fs_machine hi_disk (\<lambda>_. hi_inode)) = Ok (1, [105]) t"
proof -
  let ?s = "fs_machine hi_disk (\<lambda>_. hi_inode)"
  have slot: "slot d (59 # replicate 12 0) k = (if k = 0 then 59 else 0)" for d k
    by (auto simp: slot_def nth_Cons')
  have f: "file_ok 0 0 ?s" by (simp add: file_ok_def hi_inode_def slot hi_machine has_slot_def)
  have "file_data 0 ?s = [104, 105]"
    unfolding file_data_def hi_machine(4) by (simp add: hi_inode_def bytes_of_def byte_of_def slot hi_disk_def upt_rec)
  moreover have "can_peek 0 ?s" by (simp add: can_peek_def hi_machine NBUF_def MAXOPBLOCKS_def)
  ultimately show ?thesis
    using readi_reads [OF txn_bgood [OF hi_machine(1)] _ f, of 1 5 "\<lambda>_. None"]
    by (auto simp: hi_inode_def T_FILE_def T_DEV_def)
qed

end
