(* ===== verification/Mkfs_Spec.thy ===== *)
theory Mkfs_Spec
  imports Mkfs Fs_Files
begin

text \<open>
  What \<open>mkfs\<close> puts into the image, as the kernel's \<open>readi\<close> finds it: the blocks of an inode, the bytes
  they hold, and that appending to one file leaves the others alone. The blocks of an inode are
  numbered as in \<open>Fs_Files\<close>.
\<close>

section \<open>Blocks of an inode\<close>

text \<open>The number of blocks of a file.\<close>

definition nb :: "nat \<Rightarrow> nat" where
  "nb n = (n + 511) div 512 + (if 6144 < n then 1 else 0)"

definition node_ok :: "disk \<Rightarrow> nat \<Rightarrow> nat \<Rightarrow> nat list \<Rightarrow> bool" where
  "node_ok d fb n as \<longleftrightarrow> length as = 13 \<and> n \<le> 71680 \<and>
     (\<forall>k\<le>140. (slot d as k \<noteq> 0 \<longleftrightarrow> has_slot n k) \<and> (slot d as k \<noteq> 0 \<longrightarrow> 59 \<le> slot d as k \<and> slot d as k < fb))"

definition img_ok :: "mkfs \<Rightarrow> bool" where
  "img_ok s \<longleftrightarrow> mk_size s = 1000 \<and> (\<forall>b. length (mk_img s b) = 512) \<and> 59 \<le> freeblock s \<and>
     (\<forall>b\<ge>freeblock s. mk_img s b = replicate 512 0)"

text \<open>The blocks of the inodes \<open>I\<close>, with sizes \<open>N\<close> and addresses \<open>A\<close>, do not overlap.\<close>

definition files_ok :: "(nat \<Rightarrow> nat) \<Rightarrow> (nat \<Rightarrow> nat list) \<Rightarrow> nat set \<Rightarrow> mkfs \<Rightarrow> bool" where
  "files_ok N A I s \<longleftrightarrow> img_ok s \<and> (\<forall>i\<in>I. node_ok (mk_img s) (freeblock s) (N i) (A i)) \<and>
     (\<forall>i\<in>I. \<forall>j\<in>I. \<forall>k\<le>140. \<forall>l\<le>140. slot (mk_img s) (A i) k = slot (mk_img s) (A j) l \<longrightarrow>
        slot (mk_img s) (A i) k \<noteq> 0 \<longrightarrow> i = j \<and> k = l)"

lemma files_okD:
  assumes "files_ok N A I s" "i \<in> I"
  shows "node_ok (mk_img s) (freeblock s) (N i) (A i)" "length (A i) = 13" "N i \<le> 71680"
    "k \<le> 140 \<Longrightarrow> slot (mk_img s) (A i) k \<noteq> 0 \<longleftrightarrow> has_slot (N i) k"
    "k \<le> 140 \<Longrightarrow> slot (mk_img s) (A i) k \<noteq> 0 \<Longrightarrow> 59 \<le> slot (mk_img s) (A i) k \<and> slot (mk_img s) (A i) k < freeblock s"
  using assms by (auto simp: files_ok_def node_ok_def)

lemma files_ok_apart:
  assumes "files_ok N A I s" "i \<in> I" "j \<in> I" "k \<le> 140" "l \<le> 140" "slot (mk_img s) (A i) k \<noteq> 0"
    "slot (mk_img s) (A i) k = slot (mk_img s) (A j) l"
  shows "i = j \<and> k = l"
  using assms unfolding files_ok_def by blast

section \<open>Allocating a block\<close>

text \<open>
  \<open>grown\<close>: how the blocks of inode \<open>i\<close>, of size \<open>off\<close>, change when block \<open>off div 512\<close> is asked for. Only
  the new block and, with the first indirect one, the indirect block are added.
\<close>

lemma has_slot_grow:
  assumes "off div 512 < 140" "off < n" "n \<le> 512 * (off div 512 + 1)" "k \<le> 140"
  shows "has_slot n k \<longleftrightarrow> has_slot off k \<or> k = off div 512 \<or> k = 140 \<and> 12 \<le> off div 512"
proof -
  obtain q r where off: "off = 512 * q + r" "r < 512" and q: "off div 512 = q" by (rule split512)
  have "6144 < n \<longleftrightarrow> 6144 < off \<or> 12 \<le> q" "512 * k < n \<longleftrightarrow> 512 * k < off \<or> k = q"
    using assms(2,3) off unfolding q by auto
  then show ?thesis using assms(1) unfolding q has_slot_def by auto
qed

lemma nb_grow:
  assumes "off < n" "n \<le> 512 * (off div 512 + 1)"
  shows "nb n = nb off + (if off mod 512 = 0 then (if off = 6144 then 2 else 1) else 0)"
proof -
  obtain q r where off: "off = 512 * q + r" "r < 512" and q: "off div 512 = q" and r: "off mod 512 = r" by (rule split512)
  have "(n + 511) div 512 = q + 1" using assms(2) assms(1) off unfolding q by (intro div_nat_eqI) auto
  moreover have "(off + 511) div 512 = (if r = 0 then q else q + 1)"
    using off by (auto intro!: div_nat_eqI)
  moreover have "6144 < n \<longleftrightarrow> 6144 < off \<or> off = 6144" using assms off unfolding q by (cases "12 \<le> q") auto
  moreover have "r = 0" if "off = 6144"
  proof (rule ccontr)
    assume "r \<noteq> 0"
    moreover have "512 * q + r = 6144" using off(1) that by simp
    ultimately have "512 * q < 6144" "6144 < 512 * q + 512" using off(2) by simp_all
    then show False by simp
  qed
  ultimately show ?thesis unfolding nb_def r using off by auto
qed

definition new_blocks :: "nat \<Rightarrow> nat" where "new_blocks off = (if off = 6144 then 2 else 1)"

definition grown :: "disk \<Rightarrow> nat list \<Rightarrow> nat \<Rightarrow> nat \<Rightarrow> disk \<Rightarrow> nat list \<Rightarrow> bool" where
  "grown d as fb off d' as' \<longleftrightarrow> length as' = 13 \<and> (\<forall>b. length (d' b) = 512) \<and>
     (\<forall>b. b \<noteq> as' ! 12 \<longrightarrow> d' b = d b) \<and> (off < 6144 \<longrightarrow> d' = d) \<and>
     (\<forall>k\<le>140. slot d' as' k = (if k = off div 512 then fb + new_blocks off - 1
                                else if k = 140 \<and> off = 6144 then fb else slot d as k))"

lemma dec32_zero: "i + 4 \<le> n \<Longrightarrow> dec32 (replicate n 0) i = 0"
  by (simp add: dec32_def)

lemma grown_direct:
  assumes "length as = 13" "\<And>b. length (d b) = 512" "off div 512 < 12"
  shows "grown d as fb off d (as[off div 512 := fb])"
proof -
  have "off < 6144" using assms(3) by simp
  then show ?thesis using assms by (auto simp: grown_def slot_def new_blocks_def nth_list_update)
qed

lemma grown_first_indirect:
  assumes "length as = 13" "\<And>b. length (d b) = 512" "as ! 12 = 0" "d fb = replicate 512 0" "0 < fb" "fb < 1000"
  shows "grown d as fb 6144 (d(fb := put_bytes (d fb) 0 (enc32 (fb + 1)))) (as[12 := fb])"
proof -
  have "dec32 (put_bytes (replicate 512 0) 0 (enc32 (fb + 1))) (4 * (k - 12)) = (if k = 12 then fb + 1 else 0)"
    if "12 \<le> k" "k < 140" for k
    using that assms(6) by (cases "k = 12") (simp_all add: dec32_put_same dec32_put_other dec32_zero)
  moreover have "dec32 (put_bytes (replicate 512 0) 0 (enc32 (Suc fb))) 0 = Suc fb"
    using assms(6) by (simp add: dec32_put_same)
  ultimately show ?thesis using assms by (auto simp: grown_def slot_def new_blocks_def nth_list_update)
qed

lemma grown_indirect:
  assumes "length as = 13" "\<And>b. length (d b) = 512" "as ! 12 \<noteq> 0" "12 < off div 512" "off div 512 < 140" "fb < 1000"
  shows "grown d as fb off (d(as ! 12 := put_bytes (d (as ! 12)) (4 * (off div 512 - 12)) (enc32 fb))) as"
proof -
  let ?q = "off div 512"
  have "6144 < off" using assms(4) by simp
  moreover have "dec32 (put_bytes (d (as ! 12)) (4 * (?q - 12)) (enc32 fb)) (4 * (k - 12)) =
      (if k = ?q then fb else dec32 (d (as ! 12)) (4 * (k - 12)))" if "12 \<le> k" "k < 140" for k
  proof (cases "k = ?q")
    case False
    then have "k < ?q \<or> ?q < k" by linarith
    then have "4 * (k - 12) + 4 \<le> 4 * (?q - 12) \<or> 4 * (?q - 12) + 4 \<le> 4 * (k - 12)" using that assms(4) by linarith
    then show ?thesis using False that assms(2,4,5) by (simp add: dec32_put_other)
  qed (use assms that in \<open>simp add: dec32_put_same\<close>)
  ultimately show ?thesis using assms by (auto simp: grown_def slot_def new_blocks_def)
qed

lemma block_for_old:
  assumes ok: "files_ok N A I s" "i \<in> I" and room: "freeblock s \<le> 1000" and A: "A i = di_addrs din"
    and off: "N i mod 512 \<noteq> 0" "N i div 512 < 140"
  shows "block_for (N i div 512) din s = Inr (slot (mk_img s) (A i) (N i div 512), din, s)"
proof -
  let ?q = "N i div 512"
  have "512 * ?q < N i" using off(1) mult_div_mod_eq [of 512 "N i"] by linarith
  then have nz: "slot (mk_img s) (A i) ?q \<noteq> 0" using files_okD(4) [OF ok, of ?q] off(2) by (simp add: has_slot_def)
  show ?thesis
  proof (cases "?q < 12")
    case True
    then show ?thesis using nz A by (simp add: block_for_def NDIRECT_def slot_def)
  next
    case False
    then have ind: "A i ! 12 \<noteq> 0" and dec: "slot (mk_img s) (A i) ?q = dec32 (mk_img s (A i ! 12)) (4 * (?q - 12))"
      using nz off(2) by (auto simp: slot_def split: if_splits)
    have "A i ! 12 < 1000" using files_okD(5) [OF ok, of 140] ind room by simp
    then have "rsect (A i ! 12) s = Inr (mk_img s (A i ! 12))" using ok(1) by (simp add: rsect_def files_ok_def img_ok_def)
    with False ind nz dec A show ?thesis by (simp add: block_for_def NDIRECT_def)
  qed
qed

lemma block_for_new:
  assumes ok: "files_ok N A I s" "i \<in> I" and A: "A i = di_addrs din"
    and off: "N i mod 512 = 0" "N i div 512 < 140" and room: "freeblock s + new_blocks (N i) \<le> 1000"
  shows "\<exists>as' s'. block_for (N i div 512) din s = Inr (freeblock s + new_blocks (N i) - 1, din\<lparr>di_addrs := as'\<rparr>, s') \<and>
    grown (mk_img s) (A i) (freeblock s) (N i) (mk_img s') as' \<and> freeblock s' = freeblock s + new_blocks (N i) \<and>
    mk_size s' = 1000 \<and> freeinode s' = freeinode s"
proof -
  let ?q = "N i div 512" and ?d = "mk_img s" and ?fb = "freeblock s"
  have img: "mk_size s = 1000" "\<And>b. length (?d b) = 512" "59 \<le> ?fb" "\<And>b. b \<ge> ?fb \<Longrightarrow> ?d b = replicate 512 0"
    using ok(1) by (auto simp: files_ok_def img_ok_def)
  have len: "length (A i) = 13" using files_okD(2) [OF ok] .
  have n: "N i = 512 * ?q" using off(1) mult_div_mod_eq [of 512 "N i"] by simp
  then have "\<not> has_slot (N i) ?q" using off(2) by (simp add: has_slot_def)
  then have z: "slot ?d (A i) ?q = 0" using files_okD(4) [OF ok, of ?q] off(2) by simp
  have ind: "A i ! 12 \<noteq> 0 \<longleftrightarrow> 6144 < N i" using files_okD(4) [OF ok, of 140] by (simp add: has_slot_def)
  consider "?q < 12" | "?q = 12" | "12 < ?q" by linarith
  then show ?thesis
  proof cases
    case 1
    then have "A i ! ?q = 0" and new: "new_blocks (N i) = 1" using z n by (auto simp: slot_def new_blocks_def)
    then have "block_for ?q din s = Inr (?fb, din\<lparr>di_addrs := (A i)[?q := ?fb]\<rparr>, s\<lparr>freeblock := ?fb + 1\<rparr>)"
      using 1 A len by (simp add: block_for_def NDIRECT_def)
    with grown_direct [OF len img(2) 1, where fb = ?fb] new img(1) show ?thesis
      by (intro exI [of _ "(A i)[?q := ?fb]"] exI [of _ "s\<lparr>freeblock := ?fb + 1\<rparr>"]) simp
  next
    case 2
    then have n6: "N i = 6144" using n by simp
    then have a: "A i ! 12 = 0" and new: "new_blocks (N i) = 2" using ind by (auto simp: new_blocks_def)
    have r: "rsect ?fb (s\<lparr>freeblock := ?fb + 1\<rparr>) = Inr (?d ?fb)" and m: "max (mk_size s) (?fb + 1) = 1000"
      using room img(1) new by (auto simp: rsect_def)
    let ?s = "s\<lparr>mk_img := ?d(?fb := put_bytes (?d ?fb) 0 (enc32 (?fb + 1))), mk_size := 1000, freeblock := ?fb + 2\<rparr>"
    have "block_for 12 din s = Inr (?fb + 1, din\<lparr>di_addrs := (A i)[12 := ?fb]\<rparr>, ?s)"
      using a r m A len img(4) [of ?fb] by (simp add: block_for_def NDIRECT_def wsect_def dec32_zero)
    with grown_first_indirect [where d = ?d and fb = ?fb, OF len img(2) a img(4)] new img(3) room n6 2 show ?thesis
      by (intro exI [of _ "(A i)[12 := ?fb]"] exI [of _ ?s]) simp
  next
    case 3
    then have nz: "A i ! 12 \<noteq> 0" and new: "new_blocks (N i) = 1" using ind n by (auto simp: new_blocks_def)
    have "A i ! 12 < 1000" using files_okD(5) [OF ok, of 140] nz room by simp
    then have r: "rsect (A i ! 12) s = Inr (?d (A i ! 12))" and m: "max (mk_size s) (A i ! 12 + 1) = 1000"
      using img(1) by (auto simp: rsect_def)
    let ?s = "s\<lparr>mk_img := ?d(A i ! 12 := put_bytes (?d (A i ! 12)) (4 * (?q - 12)) (enc32 ?fb)), mk_size := 1000,
      freeblock := ?fb + 1\<rparr>"
    have "dec32 (?d (A i ! 12)) (4 * (?q - 12)) = 0" using z 3 nz off(2) by (simp add: slot_def)
    then have "block_for ?q din s = Inr (?fb, din\<lparr>di_addrs := A i\<rparr>, ?s)"
      using 3 nz r m A by (simp add: block_for_def NDIRECT_def wsect_def Let_def)
    with grown_indirect [OF len img(2) nz 3 off(2), where fb = ?fb] new room show ?thesis
      by (intro exI [of _ "A i"] exI [of _ ?s]) simp
  qed
qed

section \<open>Appending keeps the files apart\<close>

text \<open>The facts about an image that a block was added to.\<close>

lemma grownD:
  assumes "grown d as fb off d' as'"
  shows "length as' = 13" "length (d' b) = 512" "b \<noteq> as' ! 12 \<Longrightarrow> d' b = d b" "off < 6144 \<Longrightarrow> d' = d"
    "k \<le> 140 \<Longrightarrow> slot d' as' k = (if k = off div 512 then fb + new_blocks off - 1
                                 else if k = 140 \<and> off = 6144 then fb else slot d as k)"
  using assms by (simp_all add: grown_def)

lemma grown_12:
  assumes "grown d as fb off d' as'" "off div 512 < 140"
  shows "as' ! 12 = (if off = 6144 then fb else as ! 12)"
  using grownD(5) [OF assms(1), of 140] assms(2) by (simp split: if_splits)

lemma grown_ind:
  assumes ok: "files_ok N A I s" "i \<in> I" and g: "grown (mk_img s) (A i) (freeblock s) (N i) d' as'"
    and off: "N i div 512 < 140" and b: "b \<noteq> 0" "b = slot (mk_img s) (A j) k" "k \<le> 140" "j \<in> I" "j \<noteq> i \<or> k \<noteq> 140"
  shows "d' b = mk_img s b"
proof -
  note ind = grown_12 [OF g off]
  have "b < freeblock s" using files_okD(5) [OF ok(1) b(4) b(3)] b(1,2) by simp
  moreover have "b \<noteq> A i ! 12"
  proof
    assume "b = A i ! 12"
    then have "j = i \<and> k = 140" using files_ok_apart [OF ok(1) b(4) ok(2) b(3), of 140] b(1,2) by simp
    with b(5) show False by blast
  qed
  ultimately have "b \<noteq> as' ! 12" using ind by auto
  then show ?thesis by (rule grownD(3) [OF g])
qed

lemma grown_others:
  assumes ok: "files_ok N A I s" "i \<in> I" and g: "grown (mk_img s) (A i) (freeblock s) (N i) d' as'"
    and off: "N i div 512 < 140" and j: "j \<in> I" "j \<noteq> i"
  shows "slot d' (A j) k = slot (mk_img s) (A j) k"
proof (rule slot_cong)
  assume "A j ! 12 \<noteq> 0"
  then show "d' (A j ! 12) = mk_img s (A j ! 12)" using j by (intro grown_ind [OF ok g off, where j = j and k = 140]) simp_all
qed

lemma grown_low:
  assumes ok: "files_ok N A I s" "i \<in> I" and g: "grown (mk_img s) (A i) (freeblock s) (N i) d' as'"
    and off: "N i div 512 < 140" and b: "b < 59 \<or> freeblock s + new_blocks (N i) \<le> b"
  shows "d' b = mk_img s b"
proof (cases "N i < 6144")
  case False
  have fb: "59 \<le> freeblock s" using ok(1) by (simp add: files_ok_def img_ok_def)
  note ind = grown_12 [OF g off]
  have "59 \<le> A i ! 12 \<and> A i ! 12 < freeblock s" if "N i \<noteq> 6144"
    using that False files_okD(4,5) [OF ok, of 140] by (simp add: has_slot_def)
  with ind fb b have "b \<noteq> as' ! 12" by (auto simp: new_blocks_def)
  then show ?thesis by (rule grownD(3) [OF g])
qed (use grownD(4) [OF g] in simp)

lemma new_blocks_pos: "1 \<le> new_blocks off" "off = 6144 \<Longrightarrow> new_blocks off = 2"
  by (simp_all add: new_blocks_def)

lemma grown_node_ok:
  assumes ok: "files_ok N A I s" "i \<in> I" and g: "grown (mk_img s) (A i) (freeblock s) (N i) d' as'"
    and off: "N i mod 512 = 0" "N i div 512 < 140" and n: "N i < n" "n \<le> 512 * (N i div 512 + 1)"
  shows "node_ok d' (freeblock s + new_blocks (N i)) n as'"
proof -
  let ?d = "mk_img s" and ?q = "N i div 512" and ?fb = "freeblock s"
  have Nq: "N i = 512 * ?q" using off(1) mult_div_mod_eq [of 512 "N i"] by simp
  have img: "59 \<le> ?fb" using ok(1) by (simp add: files_ok_def img_ok_def)
  note si = grownD(5) [OF g] and nb = new_blocks_pos [of "N i"]
  have "n \<le> 71680" using n(2) off(2) by simp
  moreover have "slot d' as' k \<noteq> 0 \<longleftrightarrow> has_slot n k" if "k \<le> 140" for k
  proof -
    have "slot ?d (A i) k \<noteq> 0 \<longleftrightarrow> has_slot (N i) k" by (rule files_okD(4) [OF ok that])
    moreover have "has_slot n k \<longleftrightarrow> has_slot (N i) k \<or> k = ?q \<or> k = 140 \<and> 12 \<le> ?q"
      by (rule has_slot_grow [OF off(2) n that])
    moreover have "has_slot (N i) 140 \<longleftrightarrow> 12 \<le> ?q \<and> N i \<noteq> 6144" using Nq by (simp add: has_slot_def) linarith
    ultimately show ?thesis using si [OF that] img nb(1) Nq
      by (cases "k = ?q"; cases "k = 140 \<and> N i = 6144"; cases "k = 140") simp_all
  qed
  moreover have "59 \<le> slot d' as' k \<and> slot d' as' k < ?fb + new_blocks (N i)" if "k \<le> 140" "slot d' as' k \<noteq> 0" for k
  proof (cases "k = ?q \<or> k = 140 \<and> N i = 6144")
    case True
    then show ?thesis using si [OF that(1)] img nb by auto
  next
    case False
    then have "slot d' as' k = slot ?d (A i) k" using si [OF that(1)] by auto
    then show ?thesis using files_okD(5) [OF ok that(1)] that(2) by simp
  qed
  ultimately show ?thesis using grownD(1) [OF g] by (simp add: node_ok_def)
qed

lemma grown_apart:
  assumes ok: "files_ok N A I s" "i \<in> I" and g: "grown (mk_img s) (A i) (freeblock s) (N i) d' as'"
    and off: "N i mod 512 = 0" "N i div 512 < 140"
    and ab: "a \<in> I" "b \<in> I" and kl: "k \<le> 140" "l \<le> 140"
    and eq: "slot d' ((A(i := as')) a) k = slot d' ((A(i := as')) b) l" and nz: "slot d' ((A(i := as')) a) k \<noteq> 0"
  shows "a = b \<and> k = l"
proof -
  let ?d = "mk_img s" and ?q = "N i div 512" and ?fb = "freeblock s"
  note si = grownD(5) [OF g] and nb = new_blocks_pos [of "N i"]
  have sj: "slot d' (A j) k = slot ?d (A j) k" if "j \<in> I" "j \<noteq> i" for j k
    using grown_others [OF ok g off(2) that] .
  define fresh where "fresh c m \<longleftrightarrow> c = i \<and> (m = ?q \<or> m = 140 \<and> N i = 6144)" for c m
  have new: "slot d' ((A(i := as')) c) m = (if m = ?q then ?fb + new_blocks (N i) - 1 else ?fb)"
    if "fresh c m" "m \<le> 140" for c m using si [OF that(2)] that(1) by (auto simp: fresh_def)
  have old: "slot d' ((A(i := as')) c) m = slot ?d (A c) m" if "\<not> fresh c m" "m \<le> 140" "c \<in> I" for c m
    using si [OF that(2)] sj [of c m] that by (cases "c = i") (auto simp: fresh_def)
  have less: "slot d' ((A(i := as')) c) m < ?fb"
    if "\<not> fresh c m" "m \<le> 140" "c \<in> I" "slot d' ((A(i := as')) c) m \<noteq> 0" for c m
    using files_okD(5) [OF ok(1) that(3,2)] old [OF that(1-3)] that(4) by simp
  have ge: "?fb \<le> slot d' ((A(i := as')) c) m" if "fresh c m" "m \<le> 140" for c m using new [OF that] nb(1) by (cases "m = ?q") auto
  consider "fresh a k" "fresh b l" | "fresh a k" "\<not> fresh b l" | "\<not> fresh a k" "fresh b l" | "\<not> fresh a k" "\<not> fresh b l" by blast
  then show ?thesis
  proof cases
    case 1
    have "k = l"
    proof (rule ccontr)
      assume ne: "k \<noteq> l"
      then have "N i = 6144" "k = ?q \<longleftrightarrow> l \<noteq> ?q" using 1 by (auto simp: fresh_def)
      then show False using new [OF 1(1) kl(1)] new [OF 1(2) kl(2)] eq nb(2) by (auto split: if_splits)
    qed
    with 1 show ?thesis by (simp add: fresh_def)
  next
    case 2
    then show ?thesis using ge [OF 2(1) kl(1)] less [OF 2(2) kl(2) ab(2)] eq nz by simp
  next
    case 3
    then show ?thesis using ge [OF 3(2) kl(2)] less [OF 3(1) kl(1) ab(1)] eq nz by simp
  next
    case 4
    show ?thesis using files_ok_apart [OF ok(1) ab kl] eq nz unfolding old [OF 4(1) kl(1) ab(1)] old [OF 4(2) kl(2) ab(2)] by blast
  qed
qed

lemma files_grow:
  assumes ok: "files_ok N A I s" "i \<in> I" and g: "grown (mk_img s) (A i) (freeblock s) (N i) (mk_img s') as'"
    and off: "N i mod 512 = 0" "N i div 512 < 140" and s': "freeblock s' = freeblock s + new_blocks (N i)" "mk_size s' = 1000"
    and n: "N i < n" "n \<le> 512 * (N i div 512 + 1)"
  shows "files_ok (N(i := n)) (A(i := as')) I s'"
proof -
  let ?d' = "mk_img s'"
  have img: "59 \<le> freeblock s" "\<And>b. b \<ge> freeblock s \<Longrightarrow> mk_img s b = replicate 512 0"
    using ok(1) by (simp_all add: files_ok_def img_ok_def)
  have "?d' b = replicate 512 0" if "freeblock s' \<le> b" for b
    using grown_low [OF ok g off(2), of b] img(2) [of b] s'(1) that by simp
  then have "img_ok s'" using grownD(2) [OF g] s' img(1) by (simp add: img_ok_def)
  moreover have "node_ok ?d' (freeblock s') n as'" using grown_node_ok [OF ok g off n] s'(1) by simp
  moreover have "node_ok ?d' (freeblock s') (N j) (A j)" if "j \<in> I" "j \<noteq> i" for j
    using files_okD(1) [OF ok(1) that(1)] grown_others [OF ok g off(2) that] s'(1)
    unfolding node_ok_def by (simp add: trans_less_add1)
  ultimately show ?thesis using grown_apart [OF ok g off] unfolding files_ok_def by simp
qed

section \<open>Writing the bytes\<close>

lemma files_write:
  assumes ok: "files_ok N A I s" "i \<in> I" and k: "k < 140" and x: "x = slot (mk_img s) (A i) k" "x \<noteq> 0"
    and buf: "length buf = 512" and room: "freeblock s \<le> 1000"
  shows "files_ok N A I (wsect x buf s)"
    and "j \<in> I \<Longrightarrow> slot (mk_img (wsect x buf s)) (A j) l = slot (mk_img s) (A j) l"
proof -
  let ?d' = "mk_img (wsect x buf s)"
  have xb: "59 \<le> x" "x < freeblock s" using files_okD(5) [OF ok, of k] k x by auto
  have s: "slot ?d' (A j) l = slot (mk_img s) (A j) l" if "j \<in> I" for j l
  proof (rule slot_cong)
    assume "A j ! 12 \<noteq> 0"
    then have "A j ! 12 \<noteq> x" using files_ok_apart [OF ok(1) that ok(2), of 140 k] k x by auto
    then show "?d' (A j ! 12) = mk_img s (A j ! 12)" by (simp add: wsect_def)
  qed
  then show "j \<in> I \<Longrightarrow> slot ?d' (A j) l = slot (mk_img s) (A j) l" by blast
  have "img_ok (wsect x buf s)" using ok(1) xb room buf by (auto simp: files_ok_def img_ok_def wsect_def)
  moreover have "freeblock (wsect x buf s) = freeblock s" by (simp add: wsect_def)
  ultimately show "files_ok N A I (wsect x buf s)"
    using ok(1) s unfolding files_ok_def node_ok_def by simp
qed

text \<open>A byte of a file lies in a block of the file.\<close>

lemma bytes_write_other:
  assumes ok: "files_ok N A I s" "i \<in> I" and k: "k < 140" and x: "x = slot (mk_img s) (A i) k" "x \<noteq> 0"
    and buf: "length buf = 512" and room: "freeblock s \<le> 1000" and j: "j \<in> I" "j \<noteq> i"
  shows "bytes_of (mk_img (wsect x buf s)) (N j) (A j) = bytes_of (mk_img s) (N j) (A j)"
proof (rule bytes_of_cong)
  fix m assume m: "m < N j"
  let ?b = "slot (mk_img s) (A j) (m div 512)"
  show "slot (mk_img (wsect x buf s)) (A j) (m div 512) = ?b" by (rule files_write(2) [OF ok k x buf room j(1)])
  have b: "m div 512 < 140 \<and> has_slot (N j) (m div 512)" using byte_slot [OF m] files_okD(3) [OF ok(1) j(1)] by simp
  then have "?b \<noteq> 0" using files_okD(4) [OF ok(1) j(1), of "m div 512"] by simp
  then have "?b \<noteq> x" using files_ok_apart [OF ok(1) j(1) ok(2), of "m div 512" k] b k x j(2) by auto
  then show "mk_img (wsect x buf s) ?b ! (m mod 512) = mk_img s ?b ! (m mod 512)" by (simp add: wsect_def)
qed

lemma bytes_grown:
  assumes ok: "files_ok N A I s" "i \<in> I" and g: "grown (mk_img s) (A i) (freeblock s) (N i) d' as'"
    and off: "N i mod 512 = 0" "N i div 512 < 140" and j: "j \<in> I"
  shows "bytes_of d' (N j) ((A(i := as')) j) = bytes_of (mk_img s) (N j) (A j)"
proof (rule bytes_of_cong)
  fix m assume m: "m < N j"
  let ?b = "slot (mk_img s) (A j) (m div 512)"
  have b: "m div 512 < 140 \<and> has_slot (N j) (m div 512)" using byte_slot [OF m] files_okD(3) [OF ok(1) j] by simp
  show "slot d' ((A(i := as')) j) (m div 512) = ?b"
  proof (cases "j = i")
    case True
    have "N i = 512 * (N i div 512)" using off(1) mult_div_mod_eq [of 512 "N i"] by simp
    then have "m div 512 \<noteq> N i div 512" using m True by (metis less_mult_imp_div_less mult.commute nat_neq_iff)
    then show ?thesis using grownD(5) [OF g, of "m div 512"] b True by simp
  next
    case False
    then show ?thesis using grown_others [OF ok g off(2) j] by simp
  qed
  have "?b \<noteq> 0" using files_okD(4) [OF ok(1) j, of "m div 512"] b by simp
  then have "d' ?b = mk_img s ?b" using b j by (intro grown_ind [OF ok g off(2), where j = j and k = "m div 512"]) auto
  then show "d' ?b ! (m mod 512) = mk_img s ?b ! (m mod 512)" by simp
qed

lemma bytes_write_same:
  assumes ok: "files_ok N A I s" "i \<in> I" and q: "off div 512 < 140" and N: "N i = off + length bs"
    and fits: "off mod 512 + length bs \<le> 512" and x: "x = slot (mk_img s) (A i) (off div 512)" "x \<noteq> 0"
    and room: "freeblock s \<le> 1000"
  shows "bytes_of (mk_img (wsect x (put_bytes (mk_img s x) (off mod 512) bs) s)) (N i) (A i) =
    bytes_of (mk_img s) off (A i) @ bs"
proof -
  let ?buf = "put_bytes (mk_img s x) (off mod 512) bs"
  let ?d' = "mk_img (wsect x ?buf s)" and ?q = "off div 512" and ?r = "off mod 512"
  have len: "length (mk_img s x) = 512" using ok(1) by (simp add: files_ok_def img_ok_def)
  have buf: "length ?buf = 512" using len fits by simp
  have sl: "slot ?d' (A i) l = slot (mk_img s) (A i) l" for l
    by (rule files_write(2) [OF ok q x buf room ok(2)])
  have d': "?d' b = (if b = x then ?buf else mk_img s b)" for b by (simp add: wsect_def)
  have low: "byte_of ?d' (A i) m = byte_of (mk_img s) (A i) m" if "m < off" for m
  proof (cases "slot (mk_img s) (A i) (m div 512) = x")
    case True
    have "m div 512 < 140" using that q by simp
    then have "m div 512 = ?q" using files_ok_apart [OF ok(1) ok(2) ok(2), of "m div 512" ?q] True x q by simp
    then have "m mod 512 < ?r" using that by (metis mod_less_eq_dividend mult_div_mod_eq nat_add_left_cancel_less)
    then show ?thesis using True len fits by (simp add: byte_of_def sl d' nth_put_bytes)
  qed (simp add: byte_of_def sl d')
  have high: "byte_of ?d' (A i) (off + t) = bs ! t" if "t < length bs" for t
  proof -
    have "(off + t) div 512 = ?q" "(off + t) mod 512 = ?r + t" using same_block [of off t] that fits by simp_all
    then show ?thesis using that len fits by (simp add: byte_of_def sl d' nth_put_bytes x(1) [symmetric])
  qed
  have "map (byte_of ?d' (A i)) [off..<off + length bs] = bs"
    using high by (intro nth_equalityI) simp_all
  moreover have "[0..<N i] = [0..<off] @ [off..<off + length bs]" unfolding N by (rule upt_add_eq_append) simp
  ultimately show ?thesis using low by (simp add: bytes_of_def)
qed

section \<open>One piece\<close>

text \<open>
  What the operations on the image do to the files: the sizes and addresses change for inode \<open>i\<close> only,
  the bytes of the other files and the blocks before the data stay.
\<close>

definition others_kept :: "(nat \<Rightarrow> nat) \<Rightarrow> (nat \<Rightarrow> nat list) \<Rightarrow> nat set \<Rightarrow> nat \<Rightarrow> mkfs \<Rightarrow> mkfs \<Rightarrow> bool" where
  "others_kept N A I i s s' \<longleftrightarrow>
     (\<forall>j\<in>I. j \<noteq> i \<longrightarrow> bytes_of (mk_img s') (N j) (A j) = bytes_of (mk_img s) (N j) (A j)) \<and>
     (\<forall>b<59. mk_img s' b = mk_img s b) \<and> freeinode s' = freeinode s"

lemma others_kept_trans:
  "others_kept N A I i s s' \<Longrightarrow> others_kept (N(i := n)) (A(i := as)) I i s' s'' \<Longrightarrow> others_kept N A I i s s''"
  by (simp add: others_kept_def)

lemma files_resize:
  assumes ok: "files_ok N A I s" "i \<in> I" and q: "N i div 512 < 140" and n: "N i < n" "n \<le> 512 * (N i div 512 + 1)"
    and r: "N i mod 512 \<noteq> 0"
  shows "files_ok (N(i := n)) (A(i := A i)) I s"
proof -
  have lt: "512 * (N i div 512) < N i" using r mult_div_mod_eq [of 512 "N i"] by linarith
  have "has_slot n k \<longleftrightarrow> has_slot (N i) k" if "k \<le> 140" for k
  proof -
    have "has_slot (N i) k" if "k = N i div 512 \<or> k = 140 \<and> 12 \<le> N i div 512"
      using that lt q by (auto simp: has_slot_def)
    then show ?thesis using has_slot_grow [OF q n that] by blast
  qed
  moreover have "n \<le> 71680" using n(2) q by simp
  ultimately have "node_ok (mk_img s) (freeblock s) n (A i)"
    using files_okD(1) [OF ok] by (simp add: node_ok_def)
  then show ?thesis using ok(1) by (simp add: files_ok_def)
qed

text \<open>The state between finding the block and writing the bytes.\<close>

lemma block_for_ok:
  assumes ok: "files_ok N A I s" "i \<in> I" and A: "A i = di_addrs din" and q: "N i div 512 < 140"
    and n: "N i < n" "n \<le> 512 * (N i div 512 + 1)" and room: "freeblock s + nb n - nb (N i) \<le> 1000"
  shows "\<exists>x as' s'. block_for (N i div 512) din s = Inr (x, din\<lparr>di_addrs := as'\<rparr>, s') \<and>
    x = slot (mk_img s') as' (N i div 512) \<and> x \<noteq> 0 \<and> files_ok (N(i := n)) (A(i := as')) I s' \<and>
    bytes_of (mk_img s') (N i) as' = bytes_of (mk_img s) (N i) (A i) \<and> others_kept N A I i s s' \<and>
    freeblock s' = freeblock s + nb n - nb (N i)"
proof (cases "N i mod 512 = 0")
  case True
  have nb: "nb n = nb (N i) + new_blocks (N i)" using nb_grow [OF n] True by (simp add: new_blocks_def)
  then have "freeblock s + new_blocks (N i) \<le> 1000" using room by simp
  from block_for_new [OF ok A True q this] obtain as' s' where s': "block_for (N i div 512) din s =
      Inr (freeblock s + new_blocks (N i) - 1, din\<lparr>di_addrs := as'\<rparr>, s')"
    and g: "grown (mk_img s) (A i) (freeblock s) (N i) (mk_img s') as'"
    and f: "freeblock s' = freeblock s + new_blocks (N i)" "mk_size s' = 1000" "freeinode s' = freeinode s" by blast
  have x: "freeblock s + new_blocks (N i) - 1 = slot (mk_img s') as' (N i div 512)" using grownD(5) [OF g, of "N i div 512"] q by simp
  have b: "bytes_of (mk_img s') (N j) ((A(i := as')) j) = bytes_of (mk_img s) (N j) (A j)" if "j \<in> I" for j
    by (rule bytes_grown [OF ok g True q that])
  have "others_kept N A I i s s'" unfolding others_kept_def
  proof (intro conjI ballI impI allI)
    fix j assume "j \<in> I" "j \<noteq> i" then show "bytes_of (mk_img s') (N j) (A j) = bytes_of (mk_img s) (N j) (A j)" using b [of j] by simp
  next
    fix b assume "b < (59 :: nat)" then show "mk_img s' b = mk_img s b" by (intro grown_low [OF ok g q]) simp
  qed (rule f(3))
  moreover have "59 \<le> freeblock s" using ok(1) by (simp add: files_ok_def img_ok_def)
  ultimately show ?thesis using s' x files_grow [OF ok g True q f(1,2) n] b [OF ok(2)] f(1) nb
    by (intro exI [of _ "freeblock s + new_blocks (N i) - 1"] exI [of _ as'] exI [of _ s']) simp
next
  case False
  have nb: "nb n = nb (N i)" using nb_grow [OF n] False by simp
  then have fb: "freeblock s \<le> 1000" using room by simp
  let ?x = "slot (mk_img s) (A i) (N i div 512)"
  have "512 * (N i div 512) < N i" using False mult_div_mod_eq [of 512 "N i"] by linarith
  then have has: "has_slot (N i) (N i div 512)" using q by (simp add: has_slot_def)
  then have "?x \<noteq> 0" using files_okD(4) [OF ok, of "N i div 512"] q by simp
  moreover have "files_ok (N(i := n)) (A(i := A i)) I s" by (rule files_resize [OF ok q n False])
  moreover have "others_kept N A I i s s" by (simp add: others_kept_def)
  moreover have "din\<lparr>di_addrs := A i\<rparr> = din" using A by simp
  ultimately show ?thesis using block_for_old [OF ok fb A False q] nb
    by (intro exI [of _ ?x] exI [of _ "A i"] exI [of _ s]) simp
qed

lemma nb_mono: "m \<le> n \<Longrightarrow> nb m \<le> nb n"
  by (simp add: nb_def add_mono div_le_mono)

lemma append_block:
  assumes ok: "files_ok N A I s" "i \<in> I" and A: "A i = di_addrs din" and q: "N i div 512 < 140"
    and bs: "bs \<noteq> []" "N i mod 512 + length bs \<le> 512"
    and room: "freeblock s + nb (N i + length bs) - nb (N i) \<le> 1000"
  shows "\<exists>x as' s1 s'. block_for (N i div 512) din s = Inr (x, din\<lparr>di_addrs := as'\<rparr>, s1) \<and>
    rsect x s1 = Inr (mk_img s1 x) \<and> s' = wsect x (put_bytes (mk_img s1 x) (N i mod 512) bs) s1 \<and>
    files_ok (N(i := N i + length bs)) (A(i := as')) I s' \<and>
    bytes_of (mk_img s') (N i + length bs) as' = bytes_of (mk_img s) (N i) (A i) @ bs \<and>
    others_kept N A I i s s' \<and> freeblock s' = freeblock s + nb (N i + length bs) - nb (N i)"
proof -
  let ?n = "N i + length bs" and ?q = "N i div 512"
  have n: "N i < ?n" using bs(1) by simp
  have n': "?n \<le> 512 * (?q + 1)" using bs(2) block_end [of "N i"] by simp
  obtain x as' s1 where b: "block_for ?q din s = Inr (x, din\<lparr>di_addrs := as'\<rparr>, s1)"
    and x: "x = slot (mk_img s1) as' ?q" "x \<noteq> 0" and ok1: "files_ok (N(i := ?n)) (A(i := as')) I s1"
    and bytes: "bytes_of (mk_img s1) (N i) as' = bytes_of (mk_img s) (N i) (A i)"
    and kept: "others_kept N A I i s s1" and fb: "freeblock s1 = freeblock s + nb ?n - nb (N i)"
    using block_for_ok [OF ok A q n n' room] by blast
  let ?buf = "put_bytes (mk_img s1 x) (N i mod 512) bs"
  let ?s' = "wsect x ?buf s1"
  have fb1: "freeblock s1 \<le> 1000" using fb room by simp
  have x': "x = slot (mk_img s1) ((A(i := as')) i) ?q" using x(1) by simp
  have len: "length ?buf = 512" using ok1 bs(2) by (simp add: files_ok_def img_ok_def)
  have xb: "59 \<le> x" "x < freeblock s1" using files_okD(5) [OF ok1 ok(2), of ?q] x q by auto
  then have r: "rsect x s1 = Inr (mk_img s1 x)" using ok1 fb1 by (simp add: rsect_def files_ok_def img_ok_def)
  have "bytes_of (mk_img ?s') ?n as' = bytes_of (mk_img s) (N i) (A i) @ bs"
    using bytes_write_same [OF ok1 ok(2) q _ bs(2) x' x(2) fb1] bytes by simp
  moreover have "others_kept N A I i s ?s'"
    using kept bytes_write_other [OF ok1 ok(2) q x' x(2) len fb1] xb
    by (simp add: others_kept_def wsect_def)
  moreover have "freeblock ?s' = freeblock s1" by (simp add: wsect_def)
  ultimately show ?thesis using b r files_write(1) [OF ok1 ok(2) q x' x(2) len fb1] fb
    by (intro exI [of _ x] exI [of _ as'] exI [of _ s1] exI [of _ ?s'] conjI) (simp_all del: fun_upd_apply)
qed

lemma iappend_loop_ok:
  assumes "files_ok N A I s" "i \<in> I" "A i = di_addrs din" "N i + length p \<le> 71680"
    "freeblock s + nb (N i + length p) - nb (N i) \<le> 1000"
  shows "\<exists>as' s'. iappend_loop p (N i) din s = Inr (N i + length p, din\<lparr>di_addrs := as'\<rparr>, s') \<and>
    files_ok (N(i := N i + length p)) (A(i := as')) I s' \<and>
    bytes_of (mk_img s') (N i + length p) as' = bytes_of (mk_img s) (N i) (A i) @ p \<and>
    others_kept N A I i s s' \<and> freeblock s' = freeblock s + nb (N i + length p) - nb (N i)"
  using assms
proof (induction "length p" arbitrary: p N A s din rule: less_induct)
  case less
  show ?case
  proof (cases "p = []")
    case True
    have "iappend_loop p (N i) din s = Inr (N i + length p, din\<lparr>di_addrs := A i\<rparr>, s)"
      using True less.prems(3) by (subst iappend_loop.simps) simp
    then show ?thesis using less.prems(1) True
      by (intro exI [of _ "A i"] exI [of _ s]) (simp add: others_kept_def)
  next
    case False
    let ?off = "N i" and ?q = "N i div 512"
    define n1 where "n1 = min (length p) ((?q + 1) * 512 - ?off)"
    have q: "?q < 140" using less.prems(4) False by (cases p) auto
    have "n1 = min (length p) (512 - ?off mod 512)" unfolding n1_def block_end by simp
    moreover have "?off mod 512 < 512" by simp
    ultimately have n1: "0 < n1" "n1 \<le> length p" "?off mod 512 + n1 \<le> 512" using False by auto
    have tk: "length (take n1 p) = n1" using n1(2) by simp
    have m1: "nb ?off \<le> nb (?off + n1)" "nb (?off + n1) \<le> nb (?off + length p)" using n1 by (auto intro!: nb_mono)
    have "take n1 p \<noteq> []" "?off mod 512 + length (take n1 p) \<le> 512"
      "freeblock s + nb (?off + length (take n1 p)) - nb ?off \<le> 1000"
      using n1 tk False less.prems(5) m1 by auto
    from append_block [OF less.prems(1-3) q this] obtain x as' s1 s' where
      b: "block_for ?q din s = Inr (x, din\<lparr>di_addrs := as'\<rparr>, s1)" "rsect x s1 = Inr (mk_img s1 x)"
      and s': "s' = wsect x (put_bytes (mk_img s1 x) (?off mod 512) (take n1 p)) s1"
      and ok: "files_ok (N(i := ?off + n1)) (A(i := as')) I s'"
      and bytes: "bytes_of (mk_img s') (?off + n1) as' = bytes_of (mk_img s) ?off (A i) @ take n1 p"
      and kept: "others_kept N A I i s s'" and fb: "freeblock s' = freeblock s + nb (?off + n1) - nb ?off"
      unfolding tk by blast
    have "iappend_loop p ?off din s = iappend_loop (drop n1 p) (?off + n1) (din\<lparr>di_addrs := as'\<rparr>) s'"
      using False q b s' minus_div_mult_eq_mod [of ?off 512]
      by (subst iappend_loop.simps) (simp add: layout_defs n1_def Let_def)
    moreover have "\<exists>as2 s2. iappend_loop (drop n1 p) ((N(i := ?off + n1)) i) (din\<lparr>di_addrs := as'\<rparr>) s' =
        Inr ((N(i := ?off + n1)) i + length (drop n1 p), din\<lparr>di_addrs := as', di_addrs := as2\<rparr>, s2) \<and>
      files_ok (N(i := ?off + n1, i := (N(i := ?off + n1)) i + length (drop n1 p))) (A(i := as', i := as2)) I s2 \<and>
      bytes_of (mk_img s2) ((N(i := ?off + n1)) i + length (drop n1 p)) as2 =
        bytes_of (mk_img s') ((N(i := ?off + n1)) i) ((A(i := as')) i) @ drop n1 p \<and>
      others_kept (N(i := ?off + n1)) (A(i := as')) I i s' s2 \<and>
      freeblock s2 = freeblock s' + nb ((N(i := ?off + n1)) i + length (drop n1 p)) - nb ((N(i := ?off + n1)) i)"
      using n1 ok less.prems(2,4,5) fb m1 by (intro less.hyps) (auto simp: fun_upd_same simp del: fun_upd_apply)
    ultimately show ?thesis using bytes kept n1 fb m1 others_kept_trans [OF kept] by fastforce
  qed
qed

section \<open>Inodes in the image\<close>

definition inode_of :: "disk \<Rightarrow> nat \<Rightarrow> dinode" where
  "inode_of d i = dec_dinode (d (IBLOCK i mk_sb)) (64 * (i mod IPB))"

definition sizes :: "disk \<Rightarrow> nat \<Rightarrow> nat" where "sizes d i = di_size (inode_of d i)"
definition addrs :: "disk \<Rightarrow> nat \<Rightarrow> nat list" where "addrs d i = di_addrs (inode_of d i)"
definition contents :: "disk \<Rightarrow> nat \<Rightarrow> u8 list" where "contents d i = bytes_of d (sizes d i) (addrs d i)"

lemma mk_layout: "nmeta = 59" "sb_bmapstart mk_sb = 58" "IBLOCK i mk_sb = i div 8 + 32" "IPB = 8"
  by (simp_all add: nmeta_def nlog_def ninodeblocks_def nbitmap_def mk_sb_def IBLOCK_def layout_defs param_defs NINODES_def)

lemma files_ok_cong:
  assumes "\<And>i. i \<in> I \<Longrightarrow> N' i = N i" "\<And>i. i \<in> I \<Longrightarrow> A' i = A i"
  shows "files_ok N' A' I s \<longleftrightarrow> files_ok N A I s"
  using assms by (simp add: files_ok_def)

text \<open>Writing a block before the data blocks leaves the files alone.\<close>

lemma meta_slot:
  assumes ok: "files_ok N A I s" and d': "\<And>b. 59 \<le> b \<Longrightarrow> d' b = mk_img s b" and i: "i \<in> I"
  shows "slot d' (A i) k = slot (mk_img s) (A i) k"
proof (rule slot_cong)
  assume "A i ! 12 \<noteq> 0"
  then have "59 \<le> A i ! 12" using files_okD(5) [OF ok i, of 140] by simp
  then show "d' (A i ! 12) = mk_img s (A i ! 12)" by (rule d')
qed

lemma files_ok_meta:
  assumes ok: "files_ok N A I s" and d': "\<And>b. 59 \<le> b \<Longrightarrow> mk_img s' b = mk_img s b" "\<And>b. length (mk_img s' b) = 512"
    and same: "mk_size s' = mk_size s" "freeblock s' = freeblock s"
  shows "files_ok N A I s'"
proof -
  have "img_ok s'" using ok d' same by (auto simp: files_ok_def img_ok_def)
  moreover have slots: "slot (mk_img s') (A i) k = slot (mk_img s) (A i) k" if "i \<in> I" for i k
    by (rule meta_slot [OF ok d'(1) that])
  moreover have "node_ok (mk_img s') (freeblock s') (N i) (A i)" if "i \<in> I" for i
    using files_okD(1) [OF ok that] slots [OF that] same(2) by (simp add: node_ok_def)
  ultimately show ?thesis using ok by (simp add: files_ok_def)
qed

lemma bytes_of_meta:
  assumes ok: "files_ok N A I s" and d': "\<And>b. 59 \<le> b \<Longrightarrow> d' b = mk_img s b" and i: "i \<in> I"
  shows "bytes_of d' (N i) (A i) = bytes_of (mk_img s) (N i) (A i)"
proof (rule bytes_of_cong)
  fix m assume m: "m < N i"
  show "slot d' (A i) (m div 512) = slot (mk_img s) (A i) (m div 512)" by (rule meta_slot [OF ok d' i])
  have b: "m div 512 < 140 \<and> has_slot (N i) (m div 512)" using byte_slot [OF m] files_okD(3) [OF ok i] by simp
  then have "59 \<le> slot (mk_img s) (A i) (m div 512)" using files_okD(4,5) [OF ok i, of "m div 512"] by simp
  then show "d' (slot (mk_img s) (A i) (m div 512)) ! (m mod 512) = mk_img s (slot (mk_img s) (A i) (m div 512)) ! (m mod 512)"
    by (simp add: d')
qed

lemma winode_ok:
  assumes s: "mk_size s = 1000" "\<And>b. length (mk_img s b) = 512" and i: "i < 208" and di: "dinode_ok di"
  shows "\<exists>s'. winode i di s = Inr s' \<and> inode_of (mk_img s') i = di \<and>
    (\<forall>j. j \<noteq> i \<longrightarrow> inode_of (mk_img s') j = inode_of (mk_img s) j) \<and>
    (\<forall>b. b < 32 \<or> 58 \<le> b \<longrightarrow> mk_img s' b = mk_img s b) \<and> (\<forall>b. length (mk_img s' b) = 512) \<and>
    mk_size s' = 1000 \<and> freeblock s' = freeblock s \<and> freeinode s' = freeinode s"
proof -
  let ?b = "i div 8 + 32" and ?o = "64 * (i mod 8)"
  let ?buf = "put_bytes (mk_img s ?b) ?o (enc_dinode di)"
  let ?s' = "wsect ?b ?buf s"
  have b: "?b < 58" using i by simp
  have o: "?o + 64 \<le> 512" by simp
  have "winode i di s = Inr ?s'" using s(1) b by (simp add: winode_def mk_layout rsect_def Let_def)
  moreover have "inode_of (mk_img ?s') i = di"
    using dec_put_dinode [OF di, of ?o "mk_img s ?b"] s(2) o by (simp add: inode_of_def mk_layout wsect_def)
  moreover have "inode_of (mk_img ?s') j = inode_of (mk_img s) j" if "j \<noteq> i" for j
  proof (cases "j div 8 = i div 8")
    case True
    then have "j mod 8 \<noteq> i mod 8" using that by (metis div_mult_mod_eq)
    then have "64 * (j mod 8) + 64 \<le> ?o \<or> ?o + 64 \<le> 64 * (j mod 8)" by auto
    then show ?thesis using dec_put_dinode_other [OF di, of ?o "mk_img s ?b" "64 * (j mod 8)"] s(2) o True
      by (simp add: inode_of_def mk_layout wsect_def)
  qed (simp add: inode_of_def mk_layout wsect_def)
  moreover have "length (mk_img ?s' c) = 512" for c
    using s(2) o length_enc_dinode [OF di] by (simp add: wsect_def)
  ultimately show ?thesis using b s(1) by (intro exI [of _ ?s']) (auto simp: wsect_def)
qed

lemma node_dinode_ok:
  assumes ok: "files_ok N A I s" "i \<in> I" and fb: "freeblock s \<le> 1000" and di: "N i = di_size di" "A i = di_addrs di"
  shows "dinode_ok di"
proof -
  have "di_addrs di ! k < 4294967296" if "k < 13" for k
  proof (cases "k = 12")
    case True
    then show ?thesis using files_okD(5) [OF ok, of 140] fb di by (cases "di_addrs di ! k = 0") (auto simp: slot_def)
  next
    case False
    then show ?thesis using that files_okD(5) [OF ok, of k] fb di by (cases "di_addrs di ! k = 0") (auto simp: slot_def)
  qed
  then show ?thesis using files_okD(2,3) [OF ok] di by (auto simp: dinode_ok_def NDIRECT_def in_set_conv_nth)
qed

text \<open>Writing back the inode of a file whose size or addresses have changed.\<close>

lemma winode_files:
  assumes ok: "files_ok N A I s" "i \<in> I" and i: "i < 208" and fb: "freeblock s \<le> 1000"
    and di: "N i = di_size di" "A i = di_addrs di"
    and others: "\<And>j. j \<in> I \<Longrightarrow> j \<noteq> i \<Longrightarrow> N j = sizes (mk_img s) j \<and> A j = addrs (mk_img s) j"
  shows "\<exists>s'. winode i di s = Inr s' \<and> files_ok (sizes (mk_img s')) (addrs (mk_img s')) I s' \<and>
    inode_of (mk_img s') i = di \<and> (\<forall>j. j \<noteq> i \<longrightarrow> inode_of (mk_img s') j = inode_of (mk_img s) j) \<and>
    (\<forall>j\<in>I. contents (mk_img s') j = bytes_of (mk_img s) (N j) (A j)) \<and>
    (\<forall>b<32. mk_img s' b = mk_img s b) \<and> freeblock s' = freeblock s \<and> freeinode s' = freeinode s"
proof -
  have s: "mk_size s = 1000" "length (mk_img s b) = 512" for b using ok(1) by (simp_all add: files_ok_def img_ok_def)
  obtain s' where w: "winode i di s = Inr s'" "inode_of (mk_img s') i = di"
    "\<And>j. j \<noteq> i \<Longrightarrow> inode_of (mk_img s') j = inode_of (mk_img s) j"
    "\<And>b. b < 32 \<or> 58 \<le> b \<Longrightarrow> mk_img s' b = mk_img s b" "\<And>b. length (mk_img s' b) = 512"
    "mk_size s' = 1000" "freeblock s' = freeblock s" "freeinode s' = freeinode s"
    using winode_ok [OF s i node_dinode_ok [OF ok fb di]] by blast
  have N: "sizes (mk_img s') j = N j" "addrs (mk_img s') j = A j" if "j \<in> I" for j
    using w(2,3) others [OF that] di by (cases "j = i"; simp add: sizes_def addrs_def)+
  have "files_ok N A I s'" by (rule files_ok_meta [OF ok(1)]) (use w s in auto)
  then have "files_ok (sizes (mk_img s')) (addrs (mk_img s')) I s'" using N by (subst files_ok_cong) auto
  moreover have "contents (mk_img s') j = bytes_of (mk_img s) (N j) (A j)" if "j \<in> I" for j
    unfolding contents_def N [OF that] by (rule bytes_of_meta [OF ok(1) _ that]) (simp add: w)
  ultimately show ?thesis using w by (intro exI [of _ s']) simp
qed

section \<open>The files of the image\<close>

text \<open>
  The abstract image is the list of its files, inode 1 first: type and contents. \<open>blocks_used\<close> is the first
  free block.
\<close>

type_synonym mkfile = "u16 \<times> u8 list"

definition blocks_used :: "mkfile list \<Rightarrow> nat" where
  "blocks_used fs = 59 + sum_list (map (\<lambda>f. nb (length (snd f))) fs)"

definition image_holds :: "mkfs \<Rightarrow> mkfile list \<Rightarrow> bool" where
  "image_holds s fs \<longleftrightarrow>
     files_ok (sizes (mk_img s)) (addrs (mk_img s)) {1..length fs} s \<and> freeinode s = length fs + 1 \<and> length fs \<le> 207 \<and>
     freeblock s = blocks_used fs \<and> blocks_used fs \<le> 1000 \<and> (\<forall>b<32. mk_img s b = mk_img fresh_image b) \<and>
     (\<forall>i\<in>{1..length fs}. di_type (inode_of (mk_img s) i) = fst (fs ! (i - 1)) \<and> di_nlink (inode_of (mk_img s) i) = 1 \<and>
        contents (mk_img s) i = snd (fs ! (i - 1)))"

lemma length_contents [simp]: "length (contents d i) = sizes d i"
  by (simp add: contents_def bytes_of_def)

lemma image_holdsD:
  assumes "image_holds s fs"
  shows "files_ok (sizes (mk_img s)) (addrs (mk_img s)) {1..length fs} s" "mk_size s = 1000" "length (mk_img s b) = 512"
    "freeinode s = length fs + 1" "freeblock s = blocks_used fs" "blocks_used fs \<le> 1000" "length fs \<le> 207"
    "i \<in> {1..length fs} \<Longrightarrow> contents (mk_img s) i = snd (fs ! (i - 1))"
    "i \<in> {1..length fs} \<Longrightarrow> sizes (mk_img s) i = length (snd (fs ! (i - 1)))"
proof -
  show "files_ok (sizes (mk_img s)) (addrs (mk_img s)) {1..length fs} s" "freeinode s = length fs + 1" "freeblock s = blocks_used fs"
    "blocks_used fs \<le> 1000" "length fs \<le> 207"
    and c: "i \<in> {1..length fs} \<Longrightarrow> contents (mk_img s) i = snd (fs ! (i - 1))"
    using assms by (simp_all add: image_holds_def)
  then show "mk_size s = 1000" "length (mk_img s b) = 512" by (simp_all add: files_ok_def img_ok_def)
  show "i \<in> {1..length fs} \<Longrightarrow> sizes (mk_img s) i = length (snd (fs ! (i - 1)))"
    using c length_contents [of "mk_img s" i] by simp
qed

text \<open>A new inode is an empty file.\<close>

lemma blocks_used_snoc: "blocks_used (fs @ [f]) = blocks_used fs + nb (length (snd f))"
  by (simp add: blocks_used_def)

lemma nb_0 [simp]: "nb 0 = 0"
  by (simp add: nb_def)

lemma files_ok_empty:
  assumes ok: "files_ok N A I s" and i: "i \<notin> I"
  shows "files_ok (N(i := 0)) (A(i := replicate 13 0)) (insert i I) s"
proof -
  have z: "slot (mk_img s) (replicate 13 0) k = 0" for k by (cases "k < 12") (simp_all add: slot_def)
  then have "node_ok (mk_img s) (freeblock s) 0 (replicate 13 0)" by (simp add: node_ok_def has_slot_def)
  then show ?thesis using ok i z by (auto simp: files_ok_def)
qed

lemma mk_ialloc_refines:
  assumes h: "image_holds s fs" and room: "length fs < 207"
  shows "\<exists>s'. mk_ialloc ty s = Inr (length fs + 1, s') \<and> image_holds s' (fs @ [(ty, [])])"
proof -
  let ?n = "length fs + 1" and ?s = "s\<lparr>freeinode := length fs + 2\<rparr>" and ?d = "mk_img s"
  let ?di = "\<lparr>di_type = ty, di_major = 0, di_minor = 0, di_nlink = 1, di_size = 0, di_addrs = replicate 13 0\<rparr>"
  let ?N = "(sizes ?d)(?n := 0)" and ?A = "(addrs ?d)(?n := replicate 13 0)" and ?I = "insert ?n {1..length fs}"
  have "files_ok ?N ?A ?I s" by (rule files_ok_empty [OF image_holdsD(1) [OF h]]) simp
  then have ok: "files_ok ?N ?A ?I ?s" by (simp add: files_ok_def img_ok_def)
  obtain s' where w: "winode ?n ?di ?s = Inr s'" "files_ok (sizes (mk_img s')) (addrs (mk_img s')) ?I s'"
    "inode_of (mk_img s') ?n = ?di" "\<And>j. j \<noteq> ?n \<Longrightarrow> inode_of (mk_img s') j = inode_of ?d j"
    "\<forall>j\<in>?I. contents (mk_img s') j = bytes_of ?d (?N j) (?A j)"
    "\<forall>b<32. mk_img s' b = ?d b" "freeblock s' = freeblock s" "freeinode s' = length fs + 2"
    using winode_files [OF ok, of ?n ?di] image_holdsD(5,6) [OF h] room by auto
  have I: "?I = {1..length (fs @ [(ty, [])])}" by auto
  have "di_type (inode_of (mk_img s') j) = fst ((fs @ [(ty, [])]) ! (j - 1)) \<and> di_nlink (inode_of (mk_img s') j) = 1 \<and>
      contents (mk_img s') j = snd ((fs @ [(ty, [])]) ! (j - 1))" if "j \<in> ?I" for j
  proof (cases "j = ?n")
    case True
    then show ?thesis using w(3,5) by (simp add: bytes_of_def)
  next
    case False
    then show ?thesis using that h w(4) [of j] bspec [OF w(5) that]
      by (auto simp: image_holds_def nth_append contents_def)
  qed
  then have "image_holds s' (fs @ [(ty, [])])"
    using h w(2,6-8) room unfolding image_holds_def I by (simp add: blocks_used_snoc)
  moreover have "mk_ialloc ty s = Inr (?n, s')"
    using w(1) image_holdsD(4) [OF h] by (simp add: mk_ialloc_def NDIRECT_def eval_nat_numeral)
  ultimately show ?thesis by blast
qed

text \<open>Appending to an inode appends to its file.\<close>

definition append_to :: "nat \<Rightarrow> u8 list \<Rightarrow> mkfile list \<Rightarrow> mkfile list" where
  "append_to i p fs = fs[i - 1 := (fst (fs ! (i - 1)), snd (fs ! (i - 1)) @ p)]"

lemma blocks_used_append_to:
  assumes "i \<in> {1..length fs}"
  shows "blocks_used (append_to i p fs) = blocks_used fs + nb (length (snd (fs ! (i - 1))) + length p) - nb (length (snd (fs ! (i - 1))))"
proof -
  have k: "i - 1 < length fs" using assms by auto
  have "nb (length (snd (fs ! (i - 1)))) \<le> sum_list (map (\<lambda>f. nb (length (snd f))) fs)"
    using k by (intro member_le_sum_list) auto
  then show ?thesis using k by (simp add: blocks_used_def append_to_def map_update sum_list_update)
qed

lemma rinode_ok:
  assumes "mk_size s = 1000" "i < 208" shows "rinode i s = Inr (inode_of (mk_img s) i)"
  using assms by (simp add: rinode_def rsect_def inode_of_def mk_layout)

lemma inode_of_meta:
  assumes "\<And>b. b < 59 \<Longrightarrow> d' b = d b" "i < 208" shows "inode_of d' i = inode_of d i"
  using assms by (simp add: inode_of_def mk_layout)

lemma iappend_refines:
  assumes h: "image_holds s fs" and i: "i \<in> {1..length fs}"
    and room: "length (snd (fs ! (i - 1))) + length p \<le> 71680" "blocks_used (append_to i p fs) \<le> 1000"
  shows "\<exists>s'. iappend i p s = Inr s' \<and> image_holds s' (append_to i p fs)"
proof -
  let ?d = "mk_img s" and ?din = "inode_of (mk_img s) i" and ?I = "{1..length fs}"
  let ?n = "sizes ?d i + length p"
  note ok = image_holdsD(1) [OF h]
  have i208: "j < 208" if "j \<in> ?I" for j using that image_holdsD(7) [OF h] by simp
  have sz: "sizes ?d i = length (snd (fs ! (i - 1)))" using image_holdsD(9) [OF h i] .
  have tot: "blocks_used (append_to i p fs) = blocks_used fs + nb ?n - nb (sizes ?d i)"
    unfolding sz by (rule blocks_used_append_to [OF i])
  have "addrs ?d i = di_addrs ?din" "sizes ?d i + length p \<le> 71680" "freeblock s + nb ?n - nb (sizes ?d i) \<le> 1000"
    using room sz tot image_holdsD(5) [OF h] by (simp_all add: addrs_def)
  from iappend_loop_ok [OF ok i this] obtain as' s1 where
    l: "iappend_loop p (sizes ?d i) ?din s = Inr (?n, ?din\<lparr>di_addrs := as'\<rparr>, s1)"
    and ok1: "files_ok ((sizes ?d)(i := ?n)) ((addrs ?d)(i := as')) ?I s1"
    and bytes: "bytes_of (mk_img s1) ?n as' = contents ?d i @ p"
    and kept: "others_kept (sizes ?d) (addrs ?d) ?I i s s1" and fb: "freeblock s1 = blocks_used (append_to i p fs)"
    unfolding tot contents_def image_holdsD(5) [OF h] by auto
  have meta: "mk_img s1 b = ?d b" if "b < 59" for b using kept that by (simp add: others_kept_def)
  have same: "inode_of (mk_img s1) j = inode_of ?d j" if "j \<in> ?I" for j
    using inode_of_meta [of "mk_img s1" ?d j] meta i208 [OF that] by simp
  obtain s' where w: "winode i (?din\<lparr>di_addrs := as', di_size := ?n\<rparr>) s1 = Inr s'"
    "files_ok (sizes (mk_img s')) (addrs (mk_img s')) ?I s'" "inode_of (mk_img s') i = ?din\<lparr>di_addrs := as', di_size := ?n\<rparr>"
    "\<And>j. j \<noteq> i \<Longrightarrow> inode_of (mk_img s') j = inode_of (mk_img s1) j"
    "\<forall>j\<in>?I. contents (mk_img s') j = bytes_of (mk_img s1) (((sizes ?d)(i := ?n)) j) (((addrs ?d)(i := as')) j)"
    "\<forall>b<32. mk_img s' b = mk_img s1 b" "freeblock s' = freeblock s1" "freeinode s' = freeinode s1"
    using winode_files [OF ok1 i, of "?din\<lparr>di_addrs := as', di_size := ?n\<rparr>"] i208 [OF i] fb room(2) same
    by (auto simp: sizes_def addrs_def)
  have "iappend i p s = Inr s'"
    using l w(1) rinode_ok [OF image_holdsD(2) [OF h] i208 [OF i]] by (simp add: iappend_def sizes_def)
  moreover have "di_type (inode_of (mk_img s') j) = fst (append_to i p fs ! (j - 1)) \<and> di_nlink (inode_of (mk_img s') j) = 1 \<and>
      contents (mk_img s') j = snd (append_to i p fs ! (j - 1))" if j: "j \<in> ?I" for j
  proof (cases "j = i")
    case True
    then show ?thesis using w(3) bspec [OF w(5) i] h i bytes by (auto simp: image_holds_def append_to_def)
  next
    case False
    have "contents (mk_img s') j = contents ?d j"
      using bspec [OF w(5) j] False kept j by (simp add: others_kept_def contents_def)
    moreover have "append_to i p fs ! (j - 1) = fs ! (j - 1)" using False i j by (auto simp: append_to_def)
    ultimately show ?thesis using w(4) [OF False] h j same [OF j] by (simp add: image_holds_def)
  qed
  moreover have "\<forall>b<32. mk_img s' b = ?d b" "freeinode s' = freeinode s" using w(6,8) meta kept by (simp_all add: others_kept_def)
  ultimately show ?thesis using h w(2,7) fb room(2) by (auto simp: image_holds_def append_to_def)
qed

section \<open>The whole image\<close>

lemma append_to_append: "append_to i q (append_to i p fs) = append_to i (p @ q) fs"
  by (cases "i - 1 < length fs") (simp_all add: append_to_def list_update_beyond)

lemma append_to_nil [simp]: "append_to i [] fs = fs"
  by (cases "i - 1 < length fs") (simp_all add: append_to_def)

lemma append_pieces_refines:
  assumes "image_holds s fs" "i \<in> {1..length fs}" "length (snd (fs ! (i - 1))) + length (concat ps) \<le> 71680"
    "blocks_used (append_to i (concat ps) fs) \<le> 1000"
  shows "\<exists>s'. append_pieces i ps s = Inr s' \<and> image_holds s' (append_to i (concat ps) fs)"
  using assms
proof (induction ps arbitrary: s fs)
  case (Cons p ps)
  have "blocks_used (append_to i p fs) \<le> blocks_used (append_to i (p @ concat ps) fs)"
    unfolding blocks_used_append_to [OF Cons.prems(2)] by (intro diff_le_mono add_left_mono nb_mono) simp
  then obtain s1 where s1: "iappend i p s = Inr s1" "image_holds s1 (append_to i p fs)"
    using iappend_refines [OF Cons.prems(1,2), of p] Cons.prems(3,4) by auto
  have "i \<in> {1..length (append_to i p fs)}" "snd (append_to i p fs ! (i - 1)) = snd (fs ! (i - 1)) @ p"
    using Cons.prems(2) by (auto simp: append_to_def)
  then show ?case using Cons.IH [OF s1(2)] Cons.prems(3,4) s1(1) by (simp add: append_to_append)
qed simp

text \<open>The files of the image that \<open>args\<close> name: the root directory, then the files in their order.\<close>

definition short_name :: "string \<Rightarrow> string" where
  "short_name arg = (if arg \<noteq> [] \<and> hd arg = CHR ''_'' then tl arg else arg)"

definition root_dir :: "string list \<Rightarrow> u8 list" where
  "root_dir args = mk_dirent 1 ''.'' @ mk_dirent 1 ''..'' @
     concat (map (\<lambda>j. mk_dirent (j + 2) (short_name (args ! j))) [0..<length args])"

definition file_bytes :: "(string \<Rightarrow> u8 list list option) \<Rightarrow> string \<Rightarrow> u8 list" where
  "file_bytes files arg = (case files arg of None \<Rightarrow> [] | Some ps \<Rightarrow> concat ps)"

definition image_of :: "(string \<Rightarrow> u8 list list option) \<Rightarrow> string list \<Rightarrow> mkfile list" where
  "image_of files args = (T_DIR, root_dir args) # map (\<lambda>a. (T_FILE, file_bytes files a)) args"

lemma length_mk_dirent [simp]: "length (mk_dirent i n) = 16"
  by (simp add: mk_dirent_def enc_dirent_def DIRSIZ_def)

lemma length_image_of [simp]: "length (image_of files args) = length args + 1"
  by (simp add: image_of_def)

lemma root_dir_snoc: "root_dir (args @ [a]) = root_dir args @ mk_dirent (length args + 2) (short_name a)"
proof -
  have "map (\<lambda>j. mk_dirent (j + 2) (short_name ((args @ [a]) ! j))) [0..<length args] =
    map (\<lambda>j. mk_dirent (j + 2) (short_name (args ! j))) [0..<length args]"
    by (simp add: nth_append)
  then show ?thesis by (simp add: root_dir_def del: map_eq_conv)
qed

lemma length_root_dir [simp]: "length (root_dir args) = 16 * (length args + 2)"
proof (induction args rule: rev_induct)
  case Nil
  then show ?case by (simp add: root_dir_def)
qed (simp add: root_dir_snoc)

lemma blocks_used_image_of:
  "blocks_used (image_of files args) = 59 + nb (16 * (length args + 2)) + sum_list (map (\<lambda>a. nb (length (file_bytes files a))) args)"
  by (simp add: blocks_used_def image_of_def comp_def)

lemma blocks_used_image_mono: "blocks_used (image_of files as) \<le> blocks_used (image_of files (as @ bs))"
  unfolding blocks_used_image_of using nb_mono [of "16 * (length as + 2)" "16 * (length (as @ bs) + 2)"] by simp

lemma add_file_refines:
  assumes h: "image_holds s (image_of files as)" and arg: "CHR ''/'' \<notin> set arg" "files arg = Some ps"
    and room: "length as < 206" "length (file_bytes files arg) \<le> 71680" "blocks_used (image_of files (as @ [arg])) \<le> 1000"
  shows "\<exists>s'. add_file files arg s = Inr s' \<and> image_holds s' (image_of files (as @ [arg]))"
proof -
  let ?fs = "image_of files as" and ?n = "length as + 2"
  let ?e = "mk_dirent ?n (short_name arg)"
  let ?fs1 = "?fs @ [(T_FILE, [])]"
  have bytes: "file_bytes files arg = concat ps" using arg(2) by (simp add: file_bytes_def)
  obtain s1 where s1: "mk_ialloc T_FILE s = Inr (?n, s1)" "image_holds s1 ?fs1"
    using mk_ialloc_refines [OF h, of T_FILE] room(1) by auto
  have fs2: "append_to 1 ?e ?fs1 = (T_DIR, root_dir (as @ [arg])) # map (\<lambda>a. (T_FILE, file_bytes files a)) as @ [(T_FILE, [])]"
    by (simp add: append_to_def image_of_def root_dir_snoc)
  have fs3: "append_to ?n (concat ps) (append_to 1 ?e ?fs1) = image_of files (as @ [arg])"
    unfolding fs2 by (simp add: append_to_def image_of_def bytes nth_append list_update_append)
  have "blocks_used (append_to 1 ?e ?fs1) \<le> blocks_used (image_of files (as @ [arg]))"
    unfolding fs2 by (simp add: blocks_used_def image_of_def)
  then obtain s2 where s2: "iappend 1 ?e s1 = Inr s2" "image_holds s2 (append_to 1 ?e ?fs1)"
    using iappend_refines [OF s1(2), of 1 ?e] room by (auto simp: image_of_def)
  have "?n \<in> {1..length (append_to 1 ?e ?fs1)}" "snd (append_to 1 ?e ?fs1 ! (?n - 1)) = []"
    unfolding fs2 by (simp_all add: nth_append)
  then obtain s3 where "append_pieces ?n ps s2 = Inr s3" "image_holds s3 (image_of files (as @ [arg]))"
    using append_pieces_refines [OF s2(2), of ?n ps] room bytes unfolding fs3 by auto
  then show ?thesis using s1(1) s2(1) arg by (simp add: add_file_def ROOTINO_def short_name_def)
qed

lemma add_files_refines:
  assumes "image_holds s (image_of files as)" "length (as @ args) \<le> 206" "blocks_used (image_of files (as @ args)) \<le> 1000"
    "\<forall>a\<in>set args. CHR ''/'' \<notin> set a \<and> files a \<noteq> None \<and> length (file_bytes files a) \<le> 71680"
  shows "\<exists>s'. add_files files args s = Inr s' \<and> image_holds s' (image_of files (as @ args))"
  using assms
proof (induction args arbitrary: s as)
  case (Cons a args)
  have "blocks_used (image_of files (as @ [a])) \<le> 1000"
    using blocks_used_image_mono [of files "as @ [a]" args] Cons.prems(3) by simp
  then obtain s1 where "add_file files a s = Inr s1" "image_holds s1 (image_of files (as @ [a]))"
    using add_file_refines [OF Cons.prems(1), of a] Cons.prems(2,4) by auto
  then show ?case using Cons.IH [of s1 "as @ [a]"] Cons.prems by simp
qed simp

lemma zero_sectors:
  "fold (\<lambda>i. wsect i z) [0..<n] s = s\<lparr>mk_img := \<lambda>b. if b < n then z else mk_img s b, mk_size := max (mk_size s) n\<rparr>"
  by (induction n) (auto simp: wsect_def fun_eq_iff)

lemma fresh_image_eq:
  "fresh_image = \<lparr>mk_img = (\<lambda>_. replicate 512 0)(1 := enc_sb mk_sb @ replicate 484 0), mk_size = 1000, freeinode = 1,
      freeblock = 59\<rparr>"
  unfolding fresh_image_def zero_sectors by (simp add: wsect_def layout_defs FSSIZE_def mk_layout fun_eq_iff)

lemma fresh_image_holds: "image_holds fresh_image []"
  by (simp add: image_holds_def files_ok_def img_ok_def enc_sb_def blocks_used_def fresh_image_eq)

lemma fresh_sb: "dec_sb (mk_img fresh_image 1) = mk_sb"
proof -
  have "dec_sb (enc_sb mk_sb @ replicate 484 0) = mk_sb"
    by (rule dec_enc_sb) (simp_all add: mk_sb_def nblocks_def mk_layout FSSIZE_def NINODES_def nlog_def ninodeblocks_def
        layout_defs param_defs)
  then show ?thesis by (simp add: fresh_image_eq)
qed

lemma make_root_refines: "\<exists>s. make_root fresh_image = Inr s \<and> image_holds s (image_of files [])"
proof -
  let ?fs = "[(T_DIR, [])] :: mkfile list" and ?dot = "mk_dirent 1 ''.''" and ?dots = "mk_dirent 1 ''..''"
  obtain s1 where s1: "mk_ialloc T_DIR fresh_image = Inr (1, s1)" "image_holds s1 ?fs"
    using mk_ialloc_refines [OF fresh_image_holds, of T_DIR] by auto
  have a: "append_to 1 ?dot ?fs = [(T_DIR, ?dot)]" "append_to 1 ?dots [(T_DIR, ?dot)] = image_of files []"
    by (simp_all add: append_to_def image_of_def root_dir_def)
  obtain s2 where s2: "iappend 1 ?dot s1 = Inr s2" "image_holds s2 [(T_DIR, ?dot)]"
    using iappend_refines [OF s1(2), of 1 ?dot] unfolding a by (auto simp: blocks_used_def nb_def)
  obtain s3 where "iappend 1 ?dots s2 = Inr s3" "image_holds s3 (image_of files [])"
    using iappend_refines [OF s2(2), of 1 ?dots] unfolding a by (auto simp: blocks_used_image_of nb_def)
  then show ?thesis using s1(1) s2(1) by (simp add: make_root_def ROOTINO_def)
qed

text \<open>The free map and the size of the root directory are written last.\<close>

lemma bitmap_set:
  assumes "n \<le> 8 * length d"
  shows "length (fold (\<lambda>i buf. set_bit8 buf i) [0..<n] d) = length d \<and>
    (bit_free (fold (\<lambda>i buf. set_bit8 buf i) [0..<n] d) b \<longleftrightarrow> n \<le> b \<and> bit_free d b)"
  using assms
proof (induction n)
  case (Suc n)
  have "n div 8 < length d" using Suc.prems by simp
  with Suc show ?case by (auto simp: bit_free_set)
qed simp

lemma finish_image:
  assumes h: "image_holds s (f # fs)"
  shows "\<exists>s1 s2. fix_root s = Inr s1 \<and> mk_balloc (freeblock s1) s1 = Inr s2 \<and> (\<forall>b<32. mk_img s2 b = mk_img fresh_image b) \<and>
    (\<forall>b. length (mk_img s2 b) = 512) \<and> inode_of (mk_img s2) 1 = (inode_of (mk_img s) 1)\<lparr>di_size := 512 * (length (snd f) div 512 + 1)\<rparr> \<and>
    (\<forall>j<208. j \<noteq> 1 \<longrightarrow> inode_of (mk_img s2) j = inode_of (mk_img s) j) \<and> (\<forall>b\<ge>59. mk_img s2 b = mk_img s b) \<and>
    (\<forall>b<4096. bit_free (mk_img s2 58) b \<longleftrightarrow> blocks_used (f # fs) \<le> b)"
proof -
  let ?din = "inode_of (mk_img s) 1" and ?sz = "512 * (length (snd f) div 512 + 1)"
  note ok = image_holdsD(1) [OF h]
  have one: "1 \<in> {1..length (f # fs)}" by simp
  have sz: "di_size ?din = length (snd f)" using image_holdsD(9) [OF h one] by (simp add: sizes_def)
  then have "length (snd f) \<le> 71680" using files_okD(3) [OF ok one] by (simp add: sizes_def)
  then have di: "dinode_ok (?din\<lparr>di_size := ?sz\<rparr>)"
    using node_dinode_ok [OF ok one, of ?din] image_holdsD(5,6) [OF h] by (simp add: dinode_ok_def sizes_def addrs_def)
  obtain s1 where w: "winode 1 (?din\<lparr>di_size := ?sz\<rparr>) s = Inr s1" "inode_of (mk_img s1) 1 = ?din\<lparr>di_size := ?sz\<rparr>"
    "\<And>j. j \<noteq> 1 \<Longrightarrow> inode_of (mk_img s1) j = inode_of (mk_img s) j"
    "\<And>b. b < 32 \<or> 58 \<le> b \<Longrightarrow> mk_img s1 b = mk_img s b" "freeblock s1 = freeblock s" "\<And>b. length (mk_img s1 b) = 512"
    using winode_ok [OF image_holdsD(2,3) [OF h] _ di, of 1] by auto
  have fix_root: "fix_root s = Inr s1"
    using w(1) rinode_ok [OF image_holdsD(2) [OF h], of 1] sz by (simp add: fix_root_def ROOTINO_def BSIZE_def mult.commute)
  let ?map = "fold (\<lambda>i buf. set_bit8 buf i) [0..<freeblock s1] (replicate 512 0)"
  let ?s2 = "wsect 58 ?map s1"
  have fb: "freeblock s1 = blocks_used (f # fs)" "blocks_used (f # fs) \<le> 1000" using image_holdsD(5,6) [OF h] w(5) by auto
  then have "mk_balloc (freeblock s1) s1 = Inr ?s2" by (simp add: mk_balloc_def mk_layout BSIZE_def)
  moreover have "bit_free (mk_img ?s2 58) b \<longleftrightarrow> blocks_used (f # fs) \<le> b" if "b < 4096" for b
    using bitmap_set [of "freeblock s1" "replicate 512 0" b] fb that by (simp add: wsect_def bit_free_def less_mult_imp_div_less)
  moreover have "inode_of (mk_img ?s2) j = inode_of (mk_img s1) j" if "j < 208" for j
    using that by (simp add: inode_of_def mk_layout wsect_def)
  moreover have "length (mk_img ?s2 b) = 512" for b
    using w(6) bitmap_set [of "freeblock s1" "replicate 512 0" 0] fb by (simp add: wsect_def)
  ultimately show ?thesis using w(2-4) fix_root h by (intro exI [of _ s1] exI [of _ ?s2]) (auto simp: wsect_def image_holds_def)
qed

text \<open>
  What the arguments have to satisfy: names without slashes of files that can be opened and are not too
  large, not more than the inode blocks have room for, and blocks enough for all of them.
\<close>

definition mkfs_args_ok :: "(string \<Rightarrow> u8 list list option) \<Rightarrow> string list \<Rightarrow> bool" where
  "mkfs_args_ok files args \<longleftrightarrow> length args \<le> 206 \<and> blocks_used (image_of files args) \<le> FSSIZE \<and>
     (\<forall>a\<in>set args. CHR ''/'' \<notin> set a \<and> files a \<noteq> None \<and> length (file_bytes files a) \<le> MAXFILE * BSIZE)"

lemma main_mkfs_image:
  assumes c: "creat img" and args: "mkfs_args_ok files args"
  shows "\<exists>s d. main_mkfs creat files (prog # img # args) = Inr d \<and> image_holds s (image_of files args) \<and>
    (\<forall>b<32. d b = mk_img fresh_image b) \<and> (\<forall>b. length (d b) = 512) \<and>
    inode_of (d) 1 = (inode_of (mk_img s) 1)\<lparr>di_size := 512 * (16 * (length args + 2) div 512 + 1)\<rparr> \<and>
    (\<forall>j<208. j \<noteq> 1 \<longrightarrow> inode_of (d) j = inode_of (mk_img s) j) \<and> (\<forall>b\<ge>59. d b = mk_img s b) \<and>
    (\<forall>b<4096. bit_free (d 58) b \<longleftrightarrow> blocks_used (image_of files args) \<le> b)"
proof -
  obtain s0 where s0: "make_root fresh_image = Inr s0" "image_holds s0 (image_of files [])"
    using make_root_refines by blast
  have "MAXFILE * BSIZE = 71680" by (simp add: layout_defs)
  then obtain s where s: "add_files files args s0 = Inr s" "image_holds s (image_of files args)"
    using add_files_refines [of s0 files "[]" args] s0(2) args by (auto simp: mkfs_args_ok_def FSSIZE_def)
  then have "image_holds s ((T_DIR, root_dir args) # map (\<lambda>a. (T_FILE, file_bytes files a)) args)"
    by (simp add: image_of_def)
  from finish_image [OF this] obtain s1 s2 where f: "fix_root s = Inr s1" "mk_balloc (freeblock s1) s1 = Inr s2"
    and r: "\<forall>b<32. mk_img s2 b = mk_img fresh_image b" "\<forall>b. length (mk_img s2 b) = 512"
      "inode_of (mk_img s2) 1 = (inode_of (mk_img s) 1)\<lparr>di_size := 512 * (16 * (length args + 2) div 512 + 1)\<rparr>"
      "\<forall>j<208. j \<noteq> 1 \<longrightarrow> inode_of (mk_img s2) j = inode_of (mk_img s) j" "\<forall>b\<ge>59. mk_img s2 b = mk_img s b"
      "\<forall>b<4096. bit_free (mk_img s2 58) b \<longleftrightarrow> blocks_used (image_of files args) \<le> b"
    unfolding image_of_def by auto
  have "main_mkfs creat files (prog # img # args) = Inr (mk_img s2)"
    using f s(1) s0(1) c by (simp add: main_mkfs_def)
  then show ?thesis using s(2) r by (intro exI [of _ s] exI [of _ "mk_img s2"]) simp
qed

lemma image_file_kept:
  assumes h: "image_holds s fs" and i: "i \<in> {1..length fs}" and d: "\<And>b. 59 \<le> b \<Longrightarrow> d b = mk_img s b"
    and a: "addrs d i = addrs (mk_img s) i"
  shows "bytes_of d (sizes (mk_img s) i) (addrs d i) = snd (fs ! (i - 1))"
  using bytes_of_meta [OF image_holdsD(1) [OF h] d i] image_holdsD(8) [OF h i] a by (simp add: contents_def)

text \<open>
  C10. \<open>mkfs\<close> builds the file system it is asked for. When its arguments fit, it ends without error, and
  the image has the superblock of the layout, inode 1 as the root directory with one entry per file
  after \<open>.\<close> and \<open>..\<close>, its size rounded up to blocks, and from inode 2 on the files with exactly the
  bytes that were read, in the order of the arguments and with a link count of 1. The free map
  marks the blocks in use and no others.
\<close>

theorem mkfs_builds_image:
  assumes "creat img" "mkfs_args_ok files args"
  shows "\<exists>d. main_mkfs creat files (prog # img # args) = Inr d \<and> dec_sb (d 1) = mk_sb \<and>
    (\<forall>b<FSSIZE. bit_free (d 58) b \<longleftrightarrow> blocks_used (image_of files args) \<le> b) \<and>
    di_type (inode_of d 1) = T_DIR \<and> sizes d 1 = BSIZE * (16 * (length args + 2) div BSIZE + 1) \<and>
    bytes_of d (16 * (length args + 2)) (addrs d 1) = root_dir args \<and>
    (\<forall>j<length args. di_type (inode_of d (j + 2)) = T_FILE \<and> di_nlink (inode_of d (j + 2)) = 1 \<and>
       contents d (j + 2) = file_bytes files (args ! j))"
proof -
  obtain s d where m: "main_mkfs creat files (prog # img # args) = Inr d"
    and h: "image_holds s (image_of files args)" and low: "\<forall>b<32. d b = mk_img fresh_image b"
    and root: "inode_of d 1 = (inode_of (mk_img s) 1)\<lparr>di_size := 512 * (16 * (length args + 2) div 512 + 1)\<rparr>"
    and same: "\<And>j. j < 208 \<Longrightarrow> j \<noteq> 1 \<Longrightarrow> inode_of d j = inode_of (mk_img s) j"
    and data: "\<And>b. 59 \<le> b \<Longrightarrow> d b = mk_img s b"
    and bits: "\<And>b. b < 4096 \<Longrightarrow> bit_free (d 58) b \<longleftrightarrow> blocks_used (image_of files args) \<le> b"
    using main_mkfs_image [of creat img files args prog] assms by blast
  have one: "1 \<in> {1..length (image_of files args)}" by simp
  have "addrs d 1 = addrs (mk_img s) 1" using root by (simp add: addrs_def)
  then have "bytes_of d (16 * (length args + 2)) (addrs d 1) = root_dir args"
    using image_file_kept [OF h one data] image_holdsD(9) [OF h one] by (simp add: image_of_def)
  moreover have "di_type (inode_of d (j + 2)) = T_FILE \<and> di_nlink (inode_of d (j + 2)) = 1 \<and>
      contents d (j + 2) = file_bytes files (args ! j)" if "j < length args" for j
  proof -
    have J: "j + 2 \<in> {1..length (image_of files args)}" and j: "j + 2 < 208" "j + 2 \<noteq> 1"
      using that assms(2) by (auto simp: mkfs_args_ok_def)
    have "contents d (j + 2) = snd (image_of files args ! (j + 1))"
      using image_file_kept [OF h J data] same [OF j] by (simp add: contents_def sizes_def addrs_def)
    then show ?thesis using h J same [OF j] that by (auto simp: image_holds_def image_of_def)
  qed
  moreover have "di_type (inode_of d 1) = T_DIR" using h root one by (auto simp: image_holds_def image_of_def)
  ultimately show ?thesis using m low fresh_sb root bits
    by (intro exI [of _ d]) (simp add: sizes_def FSSIZE_def BSIZE_def)
qed

theorem mkfs_builds_image_witness:
  "let files = (\<lambda>n. if n = ''_cat'' then Some [[1, 2], [3]] else None) :: string \<Rightarrow> u8 list list option
   in mkfs_args_ok files [''_cat''] \<and>
    (\<exists>d. main_mkfs (\<lambda>_. True) files [''mkfs'', ''fs.img'', ''_cat''] = Inr d \<and> contents d 2 = [1, 2, 3] \<and>
      bytes_of d 48 (addrs d 1) = mk_dirent 1 ''.'' @ mk_dirent 1 ''..'' @ mk_dirent 2 ''cat'' \<and>
      bit_free (d 58) 61 \<and> \<not> bit_free (d 58) 60)"
proof -
  let ?files = "(\<lambda>n. if n = ''_cat'' then Some [[1, 2], [3]] else None) :: string \<Rightarrow> u8 list list option"
  have t: "blocks_used (image_of ?files [''_cat'']) = 61" by (simp add: blocks_used_image_of file_bytes_def nb_def)
  then have ok: "mkfs_args_ok ?files [''_cat'']"
    by (simp add: mkfs_args_ok_def file_bytes_def layout_defs FSSIZE_def)
  have "root_dir [''_cat''] = mk_dirent 1 ''.'' @ mk_dirent 1 ''..'' @ mk_dirent 2 ''cat''"
    by (simp add: root_dir_def short_name_def numeral_2_eq_2)
  then show ?thesis
    using mkfs_builds_image [of "\<lambda>_. True" "''fs.img''" ?files "[''_cat'']" "''mkfs''"] ok
    unfolding t by (auto simp: Let_def file_bytes_def FSSIZE_def numeral_2_eq_2)
qed

end
