(* ===== verification/Fs_Write.thy ===== *)
theory Fs_Write
  imports Fs_Files
begin

text \<open>
  Writing files: what \<open>bmap\<close> does when it has to allocate, and what \<open>writei\<close> makes of a file, of the
  other files and of the free map.
\<close>

section \<open>Invariants\<close>

text \<open>The blocks of the inodes and of the free map, and the blocks that are free.\<close>

definition meta :: "superblock \<Rightarrow> nat set" where
  "meta sb = (\<lambda>i. IBLOCK i sb) ` {0..<sb_ninodes sb} \<union> (\<lambda>b. BBLOCK b sb) ` {0..<sb_size sb}"

definition free_blocks :: "'z fstate_scheme \<Rightarrow> nat set" where
  "free_blocks s = {b. b < sb_size (fs_sb s) \<and> block_free s b}"

text \<open>
  The file system as a whole: metadata can be changed, free blocks are neither block 0 nor metadata and
  can be used, and inodes and free map do not overlap.
\<close>

definition fs_inv :: "nat \<Rightarrow> 'z fstate_scheme \<Rightarrow> bool" where
  "fs_inv p s \<longleftrightarrow> (\<forall>b\<in>meta (fs_sb s). blk_ok p b s) \<and> 0 \<notin> free_blocks s \<and> free_blocks s \<inter> meta (fs_sb s) = {} \<and>
     (\<forall>b\<in>free_blocks s. blk_ok p b s) \<and> sb_size (fs_sb s) \<le> 4294967296 \<and>
     (\<forall>i < sb_ninodes (fs_sb s). \<forall>b < sb_size (fs_sb s). IBLOCK i (fs_sb s) \<noteq> BBLOCK b (fs_sb s))"

text \<open>The blocks of an inode; they differ, are in use and are not metadata.\<close>

definition own :: "disk \<Rightarrow> nat list \<Rightarrow> nat set" where
  "own d as = slot d as ` {0..140} - {0}"

definition file_inv :: "nat \<Rightarrow> nat \<Rightarrow> 'z fstate_scheme \<Rightarrow> bool" where
  "file_inv p ip s \<longleftrightarrow> file_ok p ip s \<and>
     (\<forall>k\<le>140. \<forall>l\<le>140. slot (bview s) (i_addrs (icache s ip)) k = slot (bview s) (i_addrs (icache s ip)) l \<longrightarrow>
        slot (bview s) (i_addrs (icache s ip)) k \<noteq> 0 \<longrightarrow> k = l) \<and>
     own (bview s) (i_addrs (icache s ip)) \<inter> (meta (fs_sb s) \<union> free_blocks s) = {}"

lemma ownI: "k \<le> 140 \<Longrightarrow> slot d as k \<noteq> 0 \<Longrightarrow> slot d as k \<in> own d as"
  by (simp add: own_def)

lemma finite_free [simp]: "finite (free_blocks s)"
  by (rule finite_subset [of _ "{..<sb_size (fs_sb s)}"]) (auto simp: free_blocks_def)

lemma meta_BBLOCK: "b < sb_size sb \<Longrightarrow> BBLOCK b sb \<in> meta sb"
  and meta_IBLOCK: "i < sb_ninodes sb \<Longrightarrow> IBLOCK i sb \<in> meta sb"
  by (auto simp: meta_def)

text \<open>What the checks on blocks depend on.\<close>

definition same_fs :: "'z fstate_scheme \<Rightarrow> 'z fstate_scheme \<Rightarrow> bool" where
  "same_fs s t \<longleftrightarrow> log_area t = log_area s \<and> log_lim t = log_lim s \<and> disksize t = disksize s \<and>
     bheld t = bheld s \<and> fs_sb t = fs_sb s"

lemma same_fs_refl [simp]: "same_fs s s"
  and same_fs_trans: "same_fs s t \<Longrightarrow> same_fs t u \<Longrightarrow> same_fs s u"
  and same_fs_blk: "same_fs s t \<Longrightarrow> blk_ok p b t \<longleftrightarrow> blk_ok p b s"
  and same_fs_sb: "same_fs s t \<Longrightarrow> fs_sb t = fs_sb s"
  by (simp_all add: same_fs_def blk_ok_def)

lemma same_fs_core: "lcore t = lcore s \<Longrightarrow> bheld t = bheld s \<Longrightarrow> same_fs s t"
  using lcore_area [of t s] lcore_fs(2) [of t s] lcore_log(7) [of t s] by (simp add: same_fs_def)

lemma fs_inv_shrink:
  assumes "fs_inv p s" "same_fs s t" "free_blocks t \<subseteq> free_blocks s" shows "fs_inv p t"
proof -
  have "blk_ok p b t \<longleftrightarrow> blk_ok p b s" for b by (rule same_fs_blk [OF assms(2)])
  moreover have "fs_sb t = fs_sb s" by (rule same_fs_sb [OF assms(2)])
  ultimately show ?thesis using assms(1,3) unfolding fs_inv_def by auto
qed

section \<open>Allocating a block\<close>

lemma fsroom_puts:
  assumes "fsroom (Suc (Suc k)) p s" "lcore t = lcore s" "bcache p t = a_put x d (a_put y e (bcache p s))"
  shows "fsroom k p t"
  using assms lcore_area(2) [OF assms(2)] by (auto simp: fsroom_def intro: fits_put)

lemma alloc_step:
  assumes "txn c p s" "fsroom (Suc (Suc k)) p s" "fs_inv p s" "free_blocks s \<noteq> {}"
  obtains x t where "balloc 1 s = Ok x t" "txn c p t" "lcore t = lcore s" "x \<in> free_blocks s" "fsroom k p t"
    "same_fs s t" "free_blocks t = free_blocks s - {x}" "fs_inv p t" "bview t x = replicate 512 0"
    "\<And>b. b \<noteq> x \<Longrightarrow> b \<notin> meta (fs_sb s) \<Longrightarrow> bview t b = bview s b" "ca_mine (bcache p t) = ca_mine (bcache p s)"
proof -
  define x where "x = Min (free_blocks s)"
  have x: "x \<in> free_blocks s" "\<forall>y<x. y \<notin> free_blocks s"
    using assms(4) by (auto simp: x_def)
  then have x': "x < sb_size (fs_sb s)" "block_free s x" "\<forall>y<x. \<not> block_free s y" "blk_ok p x s" "x \<notin> meta (fs_sb s)"
    using assms(3) by (auto simp: free_blocks_def fs_inv_def)
  have "bitmap_ok p s" using assms(3) by (auto simp: bitmap_ok_def fs_inv_def meta_BBLOCK)
  from assms(1,2) this x'(1-4) obtain t where t: "balloc 1 s = Ok x t" "txn c p t" "lcore t = lcore s"
    "bcache p t = a_put x (replicate BSIZE 0)
      (a_put (BBLOCK x (fs_sb s)) (set_bit8 (bview s (BBLOCK x (fs_sb s))) (x mod BPB)) (bcache p s))"
    by (rule balloc_ok)
  have v: "bview t = (bview s)(BBLOCK x (fs_sb s) := set_bit8 (bview s (BBLOCK x (fs_sb s))) (x mod BPB), x := replicate BSIZE 0)"
    using arg_cong [OF t(4), of ca_view] by simp
  have sb: "fs_sb t = fs_sb s" using t(3) by (rule lcore_fs)
  have ap: "\<forall>b < sb_size (fs_sb s). BBLOCK b (fs_sb s) \<noteq> x" using x'(5) meta_BBLOCK by metis
  have free: "free_blocks t = free_blocks s - {x}"
    using free_map_set [OF v sb txn_length [OF assms(1)] ap] by (auto simp: free_blocks_def sb)
  have dev: "same_fs s t" using t(3) arg_cong [OF t(4), of ca_held] by (intro same_fs_core) simp_all
  have "fs_inv p t" using assms(3) dev free by (rule_tac fs_inv_shrink) auto
  moreover have "bview t b = bview s b" if "b \<noteq> x" "b \<notin> meta (fs_sb s)" for b
    using that meta_BBLOCK [OF x'(1)] by (auto simp: v)
  moreover have "ca_mine (bcache p t) = ca_mine (bcache p s)" using t(4) by simp
  ultimately show ?thesis
    using that [OF t(1-3) x(1) fsroom_puts [OF assms(2) t(3,4)] dev free] by (simp add: v BSIZE_def)
qed

section \<open>Changing the inode\<close>

lemma icache_upd [simp]:
  "runs c p (s\<lparr>icache := t\<rparr>) = runs c p s" "bcache p (s\<lparr>icache := t\<rparr>) = bcache p s"
  "bgood c p (s\<lparr>icache := t\<rparr>) = bgood c p s"
proof -
  show r: "runs c p (s\<lparr>icache := t\<rparr>) = runs c p s" by (simp add: runs_def calm_def steady_def lk_free_def)
  show "bcache p (s\<lparr>icache := t\<rparr>) = bcache p s" by (rule bcache_cong; simp)
  show "bgood c p (s\<lparr>icache := t\<rparr>) = bgood c p s" by (rule bgood_cong; simp add: r)
qed

lemma icache_upd_view [simp]:
  "bview (s\<lparr>icache := t\<rparr>) = bview s" "bheld (s\<lparr>icache := t\<rparr>) = bheld s" "bdirty (s\<lparr>icache := t\<rparr>) = bdirty s"
  using bcache_eqD [OF icache_upd(2) [of 0 t s]] by simp_all

lemma icache_upd_fs [simp]:
  "txn c p (s\<lparr>icache := t\<rparr>) = txn c p s" "fsroom k p (s\<lparr>icache := t\<rparr>) = fsroom k p s"
  "same_fs u (s\<lparr>icache := t\<rparr>) = same_fs u s" "free_blocks (s\<lparr>icache := t\<rparr>) = free_blocks s"
  "fs_inv p (s\<lparr>icache := t\<rparr>) = fs_inv p s"
  by (simp_all add: txn_def log_sound_def logged_def fsroom_def log_lim_def same_fs_def log_area_def free_blocks_def
      block_free_def fs_inv_def blk_ok_def)

section \<open>One more block\<close>

abbreviation fslot :: "nat \<Rightarrow> 'z fstate_scheme \<Rightarrow> nat \<Rightarrow> nat" where
  "fslot ip s k \<equiv> slot (bview s) (i_addrs (icache s ip)) k"

abbreviation fown :: "nat \<Rightarrow> 'z fstate_scheme \<Rightarrow> nat set" where
  "fown ip s \<equiv> own (bview s) (i_addrs (icache s ip))"

abbreviation fbyte :: "nat \<Rightarrow> 'z fstate_scheme \<Rightarrow> nat \<Rightarrow> u8" where
  "fbyte ip s j \<equiv> byte_of (bview s) (i_addrs (icache s ip)) j"

text \<open>
  \<open>extends\<close>: the file of \<open>ip\<close> keeps its blocks and may get free ones; of the disk only its blocks, the
  metadata and blocks that were free change, and of the inode only the addresses.
\<close>

definition extends :: "nat \<Rightarrow> 'z fstate_scheme \<Rightarrow> 'z fstate_scheme \<Rightarrow> bool" where
  "extends ip s t \<longleftrightarrow> same_fs s t \<and>
     icache t = (icache s)(ip := (icache s ip)\<lparr>i_addrs := i_addrs (icache t ip)\<rparr>) \<and>
     (\<forall>k\<le>140. fslot ip s k \<noteq> 0 \<longrightarrow> fslot ip t k = fslot ip s k) \<and>
     free_blocks t \<subseteq> free_blocks s \<and> fown ip t \<subseteq> fown ip s \<union> (free_blocks s - free_blocks t) \<and>
     (\<forall>b. b \<notin> fown ip t \<and> b \<notin> meta (fs_sb s) \<and> b \<notin> free_blocks s \<longrightarrow> bview t b = bview s b)"

text \<open>\<open>wrote\<close>: the bytes from \<open>off\<close> on are \<open>src\<close>, and the other bytes of the file's blocks are as before.\<close>

definition wrote :: "nat \<Rightarrow> nat \<Rightarrow> u8 list \<Rightarrow> 'z fstate_scheme \<Rightarrow> 'z fstate_scheme \<Rightarrow> bool" where
  "wrote ip off src s t \<longleftrightarrow> (\<forall>j<71680.
     if off \<le> j \<and> j < off + length src then fslot ip t (j div 512) \<noteq> 0 \<and> fbyte ip t j = src ! (j - off)
     else fslot ip s (j div 512) \<noteq> 0 \<longrightarrow> fbyte ip t j = fbyte ip s j)"

lemma extends_refl [simp]: "extends ip s s"
  by (simp add: extends_def)

lemma extends_trans:
  assumes "extends ip s t" "extends ip t u" shows "extends ip s u"
proof -
  have 1: "same_fs s u" "fs_sb t = fs_sb s" using assms same_fs_trans same_fs_sb by (auto simp: extends_def)
  have 2: "icache u = (icache s)(ip := (icache s ip)\<lparr>i_addrs := i_addrs (icache u ip)\<rparr>)"
  proof -
    have u: "icache u = (icache t)(ip := (icache t ip)\<lparr>i_addrs := i_addrs (icache u ip)\<rparr>)"
      and t: "icache t = (icache s)(ip := (icache s ip)\<lparr>i_addrs := i_addrs (icache t ip)\<rparr>)"
      using assms by (simp_all only: extends_def)
    show ?thesis by (subst u, subst t, subst t) simp
  qed
  have 3: "\<forall>k\<le>140. fslot ip s k \<noteq> 0 \<longrightarrow> fslot ip u k = fslot ip s k" using assms by (simp add: extends_def)
  have 4: "free_blocks u \<subseteq> free_blocks s" "fown ip u \<subseteq> fown ip s \<union> (free_blocks s - free_blocks u)"
    using assms unfolding extends_def by blast+
  have 5: "fown ip t \<subseteq> fown ip u"
  proof
    fix x assume "x \<in> fown ip t"
    then obtain k where k: "k \<le> 140" "x = fslot ip t k" "x \<noteq> 0" by (auto simp: own_def)
    then have "fslot ip u k = x" using assms(2) by (simp add: extends_def)
    then show "x \<in> fown ip u" using ownI [OF k(1), of "bview u"] k(3) by metis
  qed
  have "bview u b = bview s b" if "b \<notin> fown ip u" "b \<notin> meta (fs_sb s)" "b \<notin> free_blocks s" for b
  proof -
    have "b \<notin> fown ip t" "b \<notin> free_blocks t" using 5 that assms(1) unfolding extends_def by blast+
    then have "bview u b = bview t b" using assms(2) that 1(2) by (simp add: extends_def)
    also have "\<dots> = bview s b" using assms(1) that \<open>b \<notin> fown ip t\<close> by (simp add: extends_def)
    finally show ?thesis .
  qed
  then show ?thesis using 1(1) 2 3 4 unfolding extends_def by blast
qed

lemma wrote_trans:
  assumes "extends ip s t" "wrote ip off a s t" "extends ip t u" "wrote ip (off + length a) b t u"
  shows "wrote ip off (a @ b) s u"
  unfolding wrote_def
proof (intro allI impI)
  fix j :: nat assume j: "j < 71680"
  have k: "j div 512 \<le> 140" using j by simp
  have st: "fslot ip s (j div 512) \<noteq> 0 \<longrightarrow> fslot ip t (j div 512) \<noteq> 0"
    and tu: "fslot ip t (j div 512) \<noteq> 0 \<longrightarrow> fslot ip u (j div 512) \<noteq> 0"
    using assms(1,3) k by (auto simp: extends_def)
  note A = assms(2) [unfolded wrote_def, rule_format, OF j] and B = assms(4) [unfolded wrote_def, rule_format, OF j]
  show "if off \<le> j \<and> j < off + length (a @ b) then fslot ip u (j div 512) \<noteq> 0 \<and> fbyte ip u j = (a @ b) ! (j - off)
     else fslot ip s (j div 512) \<noteq> 0 \<longrightarrow> fbyte ip u j = fbyte ip s j"
  proof (cases "off \<le> j \<and> j < off + length a")
    case True
    then have "j - off < length a" by linarith
    then show ?thesis using True A B tu by (simp add: nth_append)
  next
    case False
    then show ?thesis using A B st tu by (auto simp: nth_append)
  qed
qed

lemma file_inv_distinct:
  "file_inv p ip s \<Longrightarrow> k \<le> 140 \<Longrightarrow> l \<le> 140 \<Longrightarrow> fslot ip s k = fslot ip s l \<Longrightarrow> fslot ip s k \<noteq> 0 \<Longrightarrow> k = l"
  unfolding file_inv_def by blast

text \<open>The three ways in which an inode gets a block.\<close>

lemma slot_direct:
  assumes "length as = 13" "m < 12" shows "slot d (as[m := x]) k = (if k = m then x else slot d as k)"
  using assms by (auto simp: slot_def)

lemma slot_indirect_block:
  assumes "length as = 13" "as ! 12 = 0" "d x = replicate 512 0" "k \<le> 140"
  shows "slot d (as[12 := x]) k = (if k = 140 then x else slot d as k)"
  using assms by (auto simp: slot_def dec32_def)

lemma slot_indirect:
  assumes "length (d (as ! 12)) = 512" "as ! 12 \<noteq> 0" "12 \<le> m" "m < 140" "x < 4294967296" "k \<le> 140"
  shows "slot (d(as ! 12 := put_bytes (d (as ! 12)) (4 * (m - 12)) (enc32 x))) as k = (if k = m then x else slot d as k)"
proof (cases "k = m \<or> k < 12 \<or> k = 140")
  case True
  then show ?thesis using assms by (auto simp: slot_def dec32_put_same)
next
  case False
  then have "4 * (k - 12) + 4 \<le> 4 * (m - 12) \<or> 4 * (m - 12) + 4 \<le> 4 * (k - 12)" using assms(3) by linarith
  then have "dec32 (put_bytes (d (as ! 12)) (4 * (m - 12)) (enc32 x)) (4 * (k - 12)) = dec32 (d (as ! 12)) (4 * (k - 12))"
    using False assms by (intro dec32_put_other) auto
  then show ?thesis using False assms by (simp add: slot_def)
qed

lemma grow_one:
  assumes f: "file_inv p ip s" and i: "fs_inv p s" and x: "x \<in> free_blocks s" and m: "m \<le> 140" "fslot ip s m = 0"
    and slots: "\<And>k. k \<le> 140 \<Longrightarrow> fslot ip t k = (if k = m then x else fslot ip s k)"
    and dev: "same_fs s t" and free: "free_blocks t = free_blocks s - {x}"
    and ic: "icache t = (icache s)(ip := (icache s ip)\<lparr>i_addrs := i_addrs (icache t ip)\<rparr>)" "length (i_addrs (icache t ip)) = 13"
    and view: "\<And>b. b \<noteq> x \<Longrightarrow> b \<notin> meta (fs_sb s) \<Longrightarrow> fslot ip t 140 = 0 \<or> b \<noteq> fslot ip t 140 \<Longrightarrow> bview t b = bview s b"
  shows "file_inv p ip t" "extends ip s t" "wrote ip off [] s t"
proof -
  have x0: "x \<noteq> 0" "x \<notin> meta (fs_sb s)" "blk_ok p x s" using x i by (auto simp: fs_inv_def)
  have xo: "x \<notin> fown ip s" using f x by (auto simp: file_inv_def)
  then have ne: "fslot ip s k \<noteq> x" if "k \<le> 140" for k using ownI [OF that, of "bview s" "i_addrs (icache s ip)"] x0(1) by metis
  have size: "i_size (icache t ip) = i_size (icache s ip)" "i_dev (icache t ip) = i_dev (icache s ip)"
    using arg_cong [OF ic(1), of "\<lambda>g. i_size (g ip)"] arg_cong [OF ic(1), of "\<lambda>g. i_dev (g ip)"] by simp_all
  have own: "fown ip t = insert x (fown ip s)"
    using slots m x0(1) unfolding own_def by (auto simp: image_iff)
  have "file_ok p ip t"
    using f slots size ic(2) x0 same_fs_blk [OF dev] m(2) by (auto simp: file_inv_def file_ok_def)
  moreover have "k = l" if "k \<le> 140" "l \<le> 140" "fslot ip t k = fslot ip t l" "fslot ip t k \<noteq> 0" for k l
  proof (cases "k = m \<or> l = m")
    case True
    then show ?thesis using that slots ne [OF that(1)] ne [OF that(2)] by (auto split: if_splits)
  next
    case False
    then show ?thesis using that slots f unfolding file_inv_def by auto
  qed
  ultimately show "file_inv p ip t"
    using f own free x0 same_fs_sb [OF dev] unfolding file_inv_def by auto
  show "extends ip s t"
    unfolding extends_def
  proof (intro conjI)
    show "\<forall>k\<le>140. fslot ip s k \<noteq> 0 \<longrightarrow> fslot ip t k = fslot ip s k" using slots m(2) by auto
    have "fslot ip t 140 = 0 \<or> fslot ip t 140 \<in> fown ip t" using ownI [of 140 "bview t"] by fastforce
    then show "\<forall>b. b \<notin> fown ip t \<and> b \<notin> meta (fs_sb s) \<and> b \<notin> free_blocks s \<longrightarrow> bview t b = bview s b"
      using view x by metis
  qed (use dev ic(1) free own x in auto)
  have "fbyte ip t j = fbyte ip s j" if j: "j < 71680" "fslot ip s (j div 512) \<noteq> 0" for j
  proof -
    let ?q = "j div 512"
    have q: "?q < 140" "?q \<noteq> m" using j m(2) by auto
    then have b: "fslot ip t ?q = fslot ip s ?q" using slots by simp
    have "fslot ip s ?q \<notin> meta (fs_sb s)"
      using f ownI [of ?q "bview s" "i_addrs (icache s ip)"] j(2) q(1) by (auto simp: file_inv_def)
    moreover have "fslot ip t 140 = 0 \<or> fslot ip s ?q \<noteq> fslot ip t 140"
      using q j(2) ne [of ?q] slots [of 140] file_inv_distinct [OF f, of ?q 140] by (auto split: if_splits)
    ultimately show ?thesis using view ne [of ?q] q(1) b by (simp add: byte_of_def)
  qed
  then show "wrote ip off [] s t" by (simp add: wrote_def)
qed

section \<open>Mapping a block\<close>

lemma fs_inv_held:
  assumes "fs_inv p s" "bcache p t = a_read i a (bcache p s)" "lcore t = lcore s" "a \<notin> meta (fs_sb s)" "a \<notin> free_blocks s"
  shows "fs_inv p t" "free_blocks t = free_blocks s" "bview t = bview s"
proof -
  have v: "bview t = bview s" "bheld t = insert a (bheld s)" "disksize t = disksize s"
    using arg_cong [OF assms(2), of ca_view] arg_cong [OF assms(2), of ca_held] arg_cong [OF assms(2), of ca_size]
    by (simp_all add: a_read_def)
  have sb: "fs_sb t = fs_sb s" "log_area t = log_area s" using assms(3) lcore_fs lcore_area by blast+
  show free: "free_blocks t = free_blocks s" "bview t = bview s" using v sb by (simp_all add: free_blocks_def block_free_def)
  have "blk_ok p b t" if "blk_ok p b s" "b \<noteq> a" for b using that v sb by (simp add: blk_ok_def)
  then show "fs_inv p t" using assms(1,4,5) free(1) sb unfolding fs_inv_def by metis
qed

text \<open>The held block \<open>a\<close> is changed, logged and released.\<close>

lemma put_released:
  assumes c: "bcache p v = a_release i a (a_put a d (bcache p u))" and l: "lcore v = lcore u"
    and a: "a \<in> bheld u" "a \<notin> meta (fs_sb u)" and r: "fsroom k p u"
  shows "bview v = (bview u)(a := d)" "bheld v = bheld u - {a}" "free_blocks v = free_blocks u" "fsroom k p v"
proof -
  show v: "bview v = (bview u)(a := d)" "bheld v = bheld u - {a}"
    using arg_cong [OF c, of ca_view] arg_cong [OF c, of ca_held] by (simp_all add: a_release_def)
  have "bdirty v = insert a (bdirty u)" using arg_cong [OF c, of ca_dirty] by (simp add: a_release_def)
  then have "bheld v \<union> bdirty v = bheld u \<union> bdirty u" using v(2) a(1) by auto
  then show "fsroom k p v" using r lcore_area(2) [OF l] by (simp add: fsroom_def fits_def)
  have "block_free v b \<longleftrightarrow> block_free u b" if "b < sb_size (fs_sb u)" for b
  proof -
    have "BBLOCK b (fs_sb u) \<noteq> a" using a(2) meta_BBLOCK [OF that] by metis
    then show ?thesis by (simp add: block_free_def v(1) lcore_fs(2) [OF l])
  qed
  then show "free_blocks v = free_blocks u" by (auto simp: free_blocks_def lcore_fs(2) [OF l])
qed

text \<open>A block is allocated while \<open>a\<close> is held, and \<open>a\<close> is changed by \<open>f\<close> to refer to it.\<close>

lemma held_alloc:
  assumes x: "txn c p s" "fsroom (Suc (Suc (Suc (Suc k)))) p s" "fs_inv p s" "free_blocks s \<noteq> {}"
    and a: "blk_ok p a s" "a \<notin> meta (fs_sb s)" "a \<notin> free_blocks s" and f: "\<And>y. length (f y (bview s a)) = BSIZE"
  obtains i t y u w v where "bread 1 a s = Ok i t" "buf_data i t = bview s a" "icache t = icache s"
    "balloc 1 t = Ok y u" "icache u = icache s" "buf_data i u = bview s a"
    "log_write i (set_data i (f y (bview s a)) u) = Ok () w" "brelse i w = Ok () v"
    "txn c p v" "fsroom (Suc k) p v" "lcore v = lcore s" "same_fs s v" "y \<in> free_blocks s" "free_blocks v = free_blocks s - {y}"
    "bview v a = f y (bview s a)" "\<And>b. b \<noteq> y \<Longrightarrow> b \<noteq> a \<Longrightarrow> b \<notin> meta (fs_sb s) \<Longrightarrow> bview v b = bview s b"
proof -
  have "can_read a (bcache p s)"
    using x(2) a(1) txn_lim [OF x(1)] by (intro fits_can_read) (auto simp: fsroom_def blk_ok_def)
  then obtain i t where t: "bread 1 a s = Ok i t" "txn c p t" "bcache p t = a_read i a (bcache p s)" "lcore t = lcore s"
    using tx.rd_ok [OF x(1)] by blast
  have mt: "(i, a) \<in> ca_mine (bcache p t)" using t(3) by (simp add: a_read_def)
  have dt: "buf_data i t = bview s a" using tx.getd_ok [OF t(2) mt] t(3) by (simp add: a_read_def)
  have rt: "fsroom (Suc (Suc (Suc k))) p t"
    using x(2) t(3) lcore_area(2) [OF t(4)] by (auto simp: fsroom_def intro: fits_read)
  note inv = fs_inv_held [OF x(3) t(3,4) a(2,3)]
  obtain y u where u: "balloc 1 t = Ok y u" "txn c p u" "lcore u = lcore t" "y \<in> free_blocks t" "fsroom (Suc k) p u"
    "same_fs t u" "free_blocks u = free_blocks t - {y}" "fs_inv p u" "bview u y = replicate 512 0"
    "\<And>b. b \<noteq> y \<Longrightarrow> b \<notin> meta (fs_sb t) \<Longrightarrow> bview u b = bview t b" "ca_mine (bcache p u) = ca_mine (bcache p t)"
    using alloc_step [OF t(2) rt inv(1)] x(4) unfolding inv(2) by metis
  have ic: "fs_sb t = fs_sb s" "icache t = icache s" "icache u = icache s" using t(4) u(3) lcore_fs by metis+
  have mu: "(i, a) \<in> ca_mine (bcache p u)" using mt u(11) by simp
  have du: "buf_data i u = bview s a"
    using tx.getd_ok [OF u(2) mu] u(10) [of a] a u(4) inv(2,3) ic by auto
  have au: "a < ca_size (bcache p u)" "a \<notin> log_area u" "card (ca_dirty (bcache p u)) < log_lim u"
    using a(1) u(6) lcore_area(1) [OF t(4)] lcore_log(7) [OF t(4)] fits_dirty [of k "log_lim u" "bcache p u"] u(5)
    by (simp_all add: blk_ok_def same_fs_def fsroom_def)
  obtain w v where v: "log_write i (set_data i (f y (bview s a)) u) = Ok () w" "brelse i w = Ok () v" "txn c p v"
    "lcore v = lcore u" "bcache p v = a_release i a (a_put a (f y (bview s a)) (bcache p u))"
    using tx.put_release [OF u(2) mu f au] by blast
  have held: "bheld u = insert a (bheld s)" "a \<notin> bheld s" "fs_sb u = fs_sb s"
    using u(6) arg_cong [OF t(3), of ca_held] a(1) ic(1) by (simp_all add: same_fs_def a_read_def blk_ok_def)
  have pr: "bview v = (bview u)(a := f y (bview s a))" "bheld v = bheld u - {a}" "free_blocks v = free_blocks u"
    "fsroom (Suc k) p v"
    using put_released [OF v(5,4) _ _ u(5)] held(1,3) a(2) by auto
  have core: "lcore v = lcore s" using v(4) u(3) t(4) by simp
  have dev: "same_fs s v" using pr(2) held by (intro same_fs_core [OF core]) auto
  show ?thesis
    by (rule that [OF t(1) dt ic(2) u(1) ic(3) du v(1-3) pr(4) core dev])
      (use u(4,7,10) inv(2,3) pr(1,3) ic(1) in auto)
qed

text \<open>A block is allocated and entered into the indirect block \<open>a\<close>.\<close>

lemma indirect_alloc:
  assumes x: "txn c p s" "fsroom (Suc (Suc (Suc (Suc k)))) p s" "fs_inv p s" "file_inv p ip s" "free_blocks s \<noteq> {}"
    and a: "a = i_addrs (icache s ip) ! 12" "a \<noteq> 0" and m: "12 \<le> m" "m < 140" "fslot ip s m = 0"
  obtains i t y u w v where "bread 1 a s = Ok i t" "buf_data i t = bview s a" "icache t = icache s"
    "balloc 1 t = Ok y u" "icache u = icache s"
    "log_write i (set_data i (put_bytes (buf_data i u) (4 * (m - 12)) (enc32 y)) u) = Ok () w" "brelse i w = Ok () v"
    "txn c p v" "fsroom (Suc k) p v" "fs_inv p v" "file_inv p ip v" "extends ip s v" "wrote ip off [] s v"
    "icache v = icache s" "fslot ip v m = y" "y \<in> free_blocks s" "free_blocks v = free_blocks s - {y}"
proof -
  have "fslot ip s 140 = a" using a(1) by simp
  then have ab: "blk_ok p a s" "a \<notin> meta (fs_sb s)" "a \<notin> free_blocks s"
    using x(4) ownI [of 140 "bview s" "i_addrs (icache s ip)"] a unfolding file_inv_def file_ok_def
    by (metis order_refl, auto)
  let ?f = "\<lambda>y d. put_bytes d (4 * (m - 12)) (enc32 y)"
  have l: "length (bview s a) = 512" using txn_length [OF x(1)] by (simp add: BSIZE_def)
  then have "length (?f y (bview s a)) = BSIZE" for y using m(2) by (simp add: BSIZE_def)
  from held_alloc [where f = ?f, OF x(1-3,5) ab this] obtain i t y u w v where
    h: "bread 1 a s = Ok i t" "buf_data i t = bview s a" "icache t = icache s" "balloc 1 t = Ok y u" "icache u = icache s"
      "buf_data i u = bview s a" "log_write i (set_data i (?f y (bview s a)) u) = Ok () w" "brelse i w = Ok () v"
      "txn c p v" "fsroom (Suc k) p v" "lcore v = lcore s" "same_fs s v" "y \<in> free_blocks s"
      "free_blocks v = free_blocks s - {y}"
    and v: "bview v a = ?f y (bview s a)" "\<And>b. b \<noteq> y \<Longrightarrow> b \<noteq> a \<Longrightarrow> b \<notin> meta (fs_sb s) \<Longrightarrow> bview v b = bview s b"
    by metis
  have ic: "icache v = icache s" by (rule lcore_fs(1) [OF h(11)])
  have y: "y < 4294967296" using h(13) x(3) by (auto simp: fs_inv_def free_blocks_def)
  have slots: "fslot ip v k = (if k = m then y else fslot ip s k)" if "k \<le> 140" for k
  proof -
    have "fslot ip v k = slot ((bview s)(a := ?f y (bview s a))) (i_addrs (icache s ip)) k"
      using a v(1) by (auto simp: ic intro!: slot_cong)
    then show ?thesis using slot_indirect [of "bview s" "i_addrs (icache s ip)" m y k] a l m y that by simp
  qed
  have view: "bview v b = bview s b" if "b \<noteq> y" "b \<notin> meta (fs_sb s)" "fslot ip v 140 = 0 \<or> b \<noteq> fslot ip v 140" for b
    using that v(2) a ic by auto
  have len: "length (i_addrs (icache v ip)) = 13" using x(4) ic by (simp add: file_inv_def file_ok_def)
  have ic': "icache v = (icache s)(ip := (icache s ip)\<lparr>i_addrs := i_addrs (icache v ip)\<rparr>)" by (simp add: ic)
  have "m \<le> 140" using m(2) by simp
  note g = grow_one [OF x(4,3) h(13) this m(3) slots h(12,14) ic' len view]
  have "fs_inv p v" using fs_inv_shrink [OF x(3) h(12)] h(14) by auto
  then show ?thesis
    using that [OF h(1-5) _ h(8-10) _ g(1,2) g(3) ic _ h(13,14)] h(6,7) slots [of m] m(2) by simp
qed

text \<open>A block is allocated and entered into the inode.\<close>

lemma addr_alloc:
  assumes x: "txn c p s" "fsroom (Suc (Suc k)) p s" "fs_inv p s" "file_inv p ip s" "free_blocks s \<noteq> {}"
    and m: "m \<le> 12" "i_addrs (icache s ip) ! m = 0"
  defines "n \<equiv> (if m = 12 then 140 else m)"
  obtains y t v where "balloc 1 s = Ok y t" "v = upd_inode ip (\<lambda>r. r\<lparr>i_addrs := (i_addrs r)[m := y]\<rparr>) t"
    "txn c p v" "fsroom k p v" "fs_inv p v" "file_inv p ip v" "extends ip s v" "wrote ip off [] s v"
    "\<forall>k\<le>140. fslot ip v k = (if k = n then y else fslot ip s k)" "y \<in> free_blocks s" "free_blocks v = free_blocks s - {y}"
proof -
  let ?as = "i_addrs (icache s ip)"
  obtain y t where t: "balloc 1 s = Ok y t" "txn c p t" "lcore t = lcore s" "y \<in> free_blocks s" "fsroom k p t"
    "same_fs s t" "free_blocks t = free_blocks s - {y}" "fs_inv p t" "bview t y = replicate 512 0"
    "\<And>b. b \<noteq> y \<Longrightarrow> b \<notin> meta (fs_sb s) \<Longrightarrow> bview t b = bview s b"
    using alloc_step [OF x(1-3,5)] by metis
  let ?v = "upd_inode ip (\<lambda>r. r\<lparr>i_addrs := (i_addrs r)[m := y]\<rparr>) t"
  have ic: "icache t = icache s" by (rule lcore_fs(1) [OF t(3)])
  have v: "bview ?v = bview t" "icache ?v = (icache s)(ip := (icache s ip)\<lparr>i_addrs := ?as[m := y]\<rparr>)" "same_fs s ?v"
    "free_blocks ?v = free_blocks s - {y}" "txn c p ?v" "fsroom k p ?v" "fs_inv p ?v"
    using t(2,5-8) ic by (simp_all add: upd_inode_def)
  have len: "length ?as = 13" using x(4) by (simp add: file_inv_def file_ok_def)
  have ind: "bview t (?as ! 12) = bview s (?as ! 12)" if "?as ! 12 \<noteq> 0"
  proof -
    have "?as ! 12 \<in> fown ip s" using ownI [of 140 "bview s" ?as] that by simp
    then have "?as ! 12 \<notin> meta (fs_sb s)" "?as ! 12 \<noteq> y" using x(4) t(4) unfolding file_inv_def by blast+
    then show ?thesis by (intro t(10))
  qed
  have fv: "fslot ip ?v k = slot (bview t) (?as[m := y]) k" for k by (simp add: v)
  have slots: "fslot ip ?v k = (if k = n then y else fslot ip s k)" if "k \<le> 140" for k
  proof (cases "m = 12")
    case True
    then show ?thesis
      using slot_indirect_block [OF len, of "bview t" y k] slot_cong [of ?as "bview t" "bview s" k] t(9) m(2) that
      unfolding fv by (simp add: n_def)
  next
    case False
    then show ?thesis using slot_direct [OF len, of m "bview t" y k] slot_cong [of ?as "bview t" "bview s" k] ind m(1)
      unfolding fv by (simp add: n_def)
  qed
  have n: "n \<le> 140" "fslot ip s n = 0" using m by (auto simp: n_def slot_def)
  have ic': "icache ?v = (icache s)(ip := (icache s ip)\<lparr>i_addrs := i_addrs (icache ?v ip)\<rparr>)" "length (i_addrs (icache ?v ip)) = 13"
    using len by (simp_all add: v(2))
  have view: "bview ?v b = bview s b" if "b \<noteq> y" "b \<notin> meta (fs_sb s)" "fslot ip ?v 140 = 0 \<or> b \<noteq> fslot ip ?v 140" for b
    using that t(10) v(1) by simp
  note g = grow_one [OF x(4,3) t(4) n slots v(3,4) ic' view]
  show ?thesis using that [OF t(1) refl v(5-7) g(1,2) g(3) _ t(4) v(4)] slots by blast
qed

lemma peek_room: "txn c p s \<Longrightarrow> fsroom (Suc k) p s \<Longrightarrow> can_peek p s"
  using txn_lim [of c p s] by (simp add: can_peek_def fsroom_def fits_def)

lemma quiet_extends: "quiet p s t \<Longrightarrow> extends ip s t" "quiet p s t \<Longrightarrow> wrote ip off [] s t"
  "quiet p s t \<Longrightarrow> fs_inv p t \<longleftrightarrow> fs_inv p s" "quiet p s t \<Longrightarrow> file_inv p ip t \<longleftrightarrow> file_inv p ip s"
  "quiet p s t \<Longrightarrow> fsroom k p t \<longleftrightarrow> fsroom k p s" "quiet p s t \<Longrightarrow> free_blocks t = free_blocks s"
proof -
  assume q: "quiet p s t"
  note e = quietD [OF q]
  have dev: "same_fs s t" using same_fs_core e(4,11) by blast
  show f: "free_blocks t = free_blocks s" using e by (simp add: free_blocks_def block_free_def)
  show "extends ip s t" using dev e(1,2) f by (simp add: extends_def)
  show "wrote ip off [] s t" using e(1,2) by (simp add: wrote_def)
  show "fs_inv p t \<longleftrightarrow> fs_inv p s" using f e by (simp add: fs_inv_def)
  show "file_inv p ip t \<longleftrightarrow> file_inv p ip s" using f e by (simp add: file_inv_def)
  show "fsroom k p t \<longleftrightarrow> fsroom k p s" using q e(11) by (intro fsroom_same) (simp_all add: quiet_def)
qed

text \<open>What holds when \<open>bmap\<close> has returned: block \<open>m\<close> is there, at the cost of at most
  \<open>j\<close> free blocks, and the file is as before otherwise.\<close>

definition mapped :: "nat \<Rightarrow> nat \<Rightarrow> nat \<Rightarrow> nat \<Rightarrow> nat \<Rightarrow> nat \<Rightarrow> 'z fstate_scheme \<Rightarrow> 'z fstate_scheme \<Rightarrow> bool" where
  "mapped c p k j ip m s t \<longleftrightarrow> txn c p t \<and> fsroom k p t \<and> fs_inv p t \<and> file_inv p ip t \<and> extends ip s t \<and>
     wrote ip 0 [] s t \<and> fslot ip t m \<noteq> 0 \<and> card (free_blocks s) \<le> card (free_blocks t) + j"

lemma fsroom_mono: "fsroom k p s \<Longrightarrow> j \<le> k \<Longrightarrow> fsroom j p s"
  by (auto simp: fsroom_def intro: fits_mono)

lemma wrote_nil: "wrote ip off [] s t \<longleftrightarrow> wrote ip 0 [] s t"
  by (simp add: wrote_def)

lemma bmap_old:
  assumes x: "txn c p s" "fsroom (Suc k) p s" "fs_inv p s" "file_inv p ip s" and m: "m < 140" "fslot ip s m \<noteq> 0"
  shows "\<exists>t. bmap ip m s = Ok (fslot ip t m) t \<and> mapped c p (Suc k) 0 ip m s t"
proof -
  have f: "file_ok p ip s" using x(4) by (simp add: file_inv_def)
  from bmap_found [OF txn_bgood [OF x(1)] peek_room [OF x(1,2)] f m] obtain t where
    t: "bmap ip m s = Ok (fslot ip s m) t" "bgood c p t" "quiet p s t" by blast
  have "mapped c p (Suc k) 0 ip m s t"
    using quiet_extends [OF t(3)] quiet_txn [OF x(1) t(2,3)] quietD(1,2) [OF t(3)] x m(2) by (simp add: mapped_def)
  then show ?thesis using t(1) quietD(1,2) [OF t(3)] by auto
qed

lemma free_less: "y \<in> free_blocks s \<Longrightarrow> card (free_blocks s - {y}) + 1 = card (free_blocks s)"
  using card_Suc_Diff1 [of "free_blocks s" y] by simp

lemma free_nonzero: "fs_inv p s \<Longrightarrow> y \<in> free_blocks s \<Longrightarrow> y \<noteq> 0"
  by (auto simp: fs_inv_def)

lemma bmap_direct:
  assumes x: "txn c p s" "fsroom (Suc (Suc k)) p s" "fs_inv p s" "file_inv p ip s" "free_blocks s \<noteq> {}"
    and m: "m < 12" "fslot ip s m = 0"
  shows "\<exists>t. bmap ip m s = Ok (fslot ip t m) t \<and> mapped c p k 1 ip m s t"
proof -
  have m': "m \<le> 12" "i_addrs (icache s ip) ! m = 0" using m by (simp_all add: slot_def)
  obtain y t v where *: "balloc 1 s = Ok y t" "v = upd_inode ip (\<lambda>r. r\<lparr>i_addrs := (i_addrs r)[m := y]\<rparr>) t"
    "txn c p v" "fsroom k p v" "fs_inv p v" "file_inv p ip v" "extends ip s v" "wrote ip 0 [] s v"
    "\<forall>k\<le>140. fslot ip v k = (if k = (if m = 12 then 140 else m) then y else fslot ip s k)"
    "y \<in> free_blocks s" "free_blocks v = free_blocks s - {y}"
    by (rule addr_alloc [OF x m', where off = 0])
  have "fslot ip v m = y" using *(9) m(1) by simp
  moreover have "bmap ip m s = Ok y v"
    using m m' *(1,2) x(4) by (simp add: bmap_def NDIRECT_def file_inv_def file_ok_def)
  ultimately show ?thesis using *(3-8,11) free_less [OF *(10)] free_nonzero [OF x(3) *(10)] by (auto simp: mapped_def)
qed

lemma bmap_entry:
  assumes x: "txn c p s" "fsroom (Suc (Suc (Suc (Suc k)))) p s" "fs_inv p s" "file_inv p ip s" "free_blocks s \<noteq> {}"
    and m: "12 \<le> m" "m < 140" "fslot ip s m = 0" "i_addrs (icache s ip) ! 12 \<noteq> 0"
  shows "\<exists>t. bmap ip m s = Ok (fslot ip t m) t \<and> mapped c p (Suc k) 1 ip m s t"
proof -
  let ?a = "i_addrs (icache s ip) ! 12"
  obtain i t y u w v where *: "bread 1 ?a s = Ok i t" "buf_data i t = bview s ?a" "icache t = icache s"
    "balloc 1 t = Ok y u" "icache u = icache s"
    "log_write i (set_data i (put_bytes (buf_data i u) (4 * (m - 12)) (enc32 y)) u) = Ok () w" "brelse i w = Ok () v"
    "txn c p v" "fsroom (Suc k) p v" "fs_inv p v" "file_inv p ip v" "extends ip s v" "wrote ip 0 [] s v"
    "fslot ip v m = y" "y \<in> free_blocks s" "free_blocks v = free_blocks s - {y}"
    using indirect_alloc [OF x refl m(4,1-3), where off = 0] by metis
  have "dec32 (bview s ?a) (4 * (m - 12)) = 0" using m by (simp add: slot_def)
  then have "bmap ip m s = Ok y v"
    using m *(1-7) x(4) by (simp add: bmap_def layout_defs file_inv_def file_ok_def Let_def)
  then show ?thesis using *(8-16) free_less [OF *(15)] free_nonzero [OF x(3) *(15)] by (auto simp: mapped_def)
qed

lemma bmap_both:
  assumes x: "txn c p s" "fsroom (Suc (Suc (Suc (Suc (Suc (Suc k)))))) p s" "fs_inv p s" "file_inv p ip s"
    "2 \<le> card (free_blocks s)" and m: "12 \<le> m" "m < 140" "fslot ip s m = 0" "i_addrs (icache s ip) ! 12 = 0"
  shows "\<exists>t. bmap ip m s = Ok (fslot ip t m) t \<and> mapped c p (Suc k) 2 ip m s t"
proof -
  have ne: "free_blocks s \<noteq> {}" using x(5) by auto
  have m': "(12 :: nat) \<le> 12" by simp
  obtain y0 t0 s1 where 1: "balloc 1 s = Ok y0 t0" "s1 = upd_inode ip (\<lambda>r. r\<lparr>i_addrs := (i_addrs r)[12 := y0]\<rparr>) t0"
    "txn c p s1" "fsroom (Suc (Suc (Suc (Suc k)))) p s1" "fs_inv p s1" "file_inv p ip s1" "extends ip s s1" "wrote ip 0 [] s s1"
    "\<forall>k\<le>140. fslot ip s1 k = (if k = (if (12 :: nat) = 12 then 140 else 12) then y0 else fslot ip s k)"
    "y0 \<in> free_blocks s" "free_blocks s1 = free_blocks s - {y0}"
    by (rule addr_alloc [OF x(1-4) ne m' m(4), where off = 0])
  have a: "i_addrs (icache s1 ip) ! 12 = y0" "y0 \<noteq> 0" using spec [OF 1(9), of 140] free_nonzero [OF x(3) 1(10)] by simp_all
  have card1: "card (free_blocks s1) + 1 = card (free_blocks s)" using free_less [OF 1(10)] 1(11) by simp
  then have ne1: "free_blocks s1 \<noteq> {}" using x(5) by auto
  have m1: "fslot ip s1 m = 0" using 1(9) m by simp
  obtain t where t: "bmap ip m s1 = Ok (fslot ip t m) t" "mapped c p (Suc k) 1 ip m s1 t"
    using bmap_entry [OF 1(3-6) ne1 m(1,2) m1] a by auto
  have "i_dev (icache s ip) = 1" "i_dev (icache s1 ip) = 1" using x(4) 1(6) by (simp_all add: file_inv_def file_ok_def)
  moreover have "m - 12 < 128" using m by simp
  ultimately have "bmap ip m s = bmap ip m s1"
    using m a 1(1) unfolding bmap_def 1(2) [symmetric] by (simp add: layout_defs 1(2) [symmetric])
  moreover have "mapped c p (Suc k) 2 ip m s t"
    using t(2) card1 extends_trans [OF 1(7)] wrote_trans [OF 1(7,8)] by (auto simp: mapped_def)
  ultimately show ?thesis using t(1) by auto
qed

lemma mapped_mono: "mapped c p k j ip m s t \<Longrightarrow> k' \<le> k \<Longrightarrow> j \<le> j' \<Longrightarrow> mapped c p k' j' ip m s t"
  using fsroom_mono [of k p t k'] by (auto simp: mapped_def)

lemma bmap_ok:
  assumes x: "txn c p s" "fsroom (Suc (Suc (Suc (Suc (Suc (Suc k)))))) p s" "fs_inv p s" "file_inv p ip s"
    "2 \<le> card (free_blocks s)" and m: "m < 140"
  obtains t where "bmap ip m s = Ok (fslot ip t m) t" "mapped c p (Suc k) 2 ip m s t"
proof -
  have ne: "free_blocks s \<noteq> {}" using x(5) by auto
  note r = fsroom_mono [OF x(2)]
  have "\<exists>t. bmap ip m s = Ok (fslot ip t m) t \<and> mapped c p (Suc k) 2 ip m s t"
  proof (cases "fslot ip s m = 0")
    case False
    have "fsroom (Suc k) p s" by (rule r) simp
    from bmap_old [OF x(1) this x(3,4) m False] show ?thesis using mapped_mono by fastforce
  next
    case True
    show ?thesis
    proof (cases "m < 12")
      case d: True
      have "fsroom (Suc (Suc (Suc k))) p s" by (rule r) simp
      from bmap_direct [OF x(1) this x(3,4) ne d True] show ?thesis using mapped_mono by fastforce
    next
      case d: False
      have e: "fsroom (Suc (Suc (Suc (Suc k)))) p s" by (rule r) simp
      show ?thesis
      proof (cases "i_addrs (icache s ip) ! 12 = 0")
        case a: True
        then show ?thesis using bmap_both [OF x _ m True] d by simp
      next
        case a: False
        then show ?thesis using bmap_entry [OF x(1) e x(3,4) ne _ m True] d mapped_mono by fastforce
      qed
    qed
  qed
  then show ?thesis using that by blast
qed

section \<open>Writing bytes\<close>

lemma file_block:
  assumes "file_inv p ip s" "k \<le> 140" "fslot ip s k \<noteq> 0"
  shows "blk_ok p (fslot ip s k) s" "fslot ip s k \<notin> meta (fs_sb s)" "fslot ip s k \<notin> free_blocks s"
  using assms ownI [OF assms(2,3)] unfolding file_inv_def file_ok_def by blast+

text \<open>One data block of the file is replaced.\<close>

lemma data_put:
  assumes f: "file_inv p ip s" and i: "fs_inv p s" and q: "q < 140" "fslot ip s q \<noteq> 0"
    and v: "bview u = (bview s)(fslot ip s q := d)" and core: "lcore u = lcore s" "bheld u = bheld s"
  shows "fs_inv p u" "file_inv p ip u" "extends ip s u" "free_blocks u = free_blocks s" "\<And>k. k \<le> 140 \<Longrightarrow> fslot ip u k = fslot ip s k"
proof -
  let ?x = "fslot ip s q"
  have sb: "fs_sb u = fs_sb s" "icache u = icache s" using core(1) lcore_fs by blast+
  have dev: "same_fs s u" by (rule same_fs_core [OF core])
  have "fslot ip s q \<noteq> fslot ip s 140" using file_inv_distinct [OF f, of q 140] q by auto
  then have "i_addrs (icache s ip) ! 12 \<noteq> ?x" by simp
  then show slots: "fslot ip u k = fslot ip s k" if "k \<le> 140" for k
    unfolding sb(2) by (intro slot_cong) (simp add: v)
  have own: "fown ip u = fown ip s" using slots unfolding own_def by (simp cong: image_cong_simp)
  have "block_free u b \<longleftrightarrow> block_free s b" if "b < sb_size (fs_sb s)" for b
  proof -
    have "BBLOCK b (fs_sb s) \<noteq> ?x" using file_block(2) [OF f _ q(2)] q(1) meta_BBLOCK [OF that] by fastforce
    then show ?thesis by (simp add: block_free_def v sb)
  qed
  then show free: "free_blocks u = free_blocks s" by (auto simp: free_blocks_def sb)
  show "fs_inv p u" using fs_inv_shrink [OF i dev] free by simp
  show "file_inv p ip u"
    using f slots own free same_fs_blk [OF dev] unfolding file_inv_def file_ok_def sb by auto
  have "?x \<in> fown ip u" using ownI [of q "bview s"] q own by simp
  then show "extends ip s u"
    unfolding extends_def using dev slots own free sb v by auto
qed

lemma block_range:
  assumes "off mod 512 + n \<le> (512 :: nat)"
  shows "off \<le> j \<and> j < off + n \<longleftrightarrow> j div 512 = off div 512 \<and> off mod 512 \<le> j mod 512 \<and> j mod 512 < off mod 512 + n"
    "j div 512 = off div 512 \<Longrightarrow> j - off = j mod 512 - off mod 512"
proof -
  obtain a r where 1: "off = 512 * a + r" "r < 512" "off div 512 = a" "off mod 512 = r" by (rule split512)
  obtain b t where 2: "j = 512 * b + t" "t < 512" "j div 512 = b" "j mod 512 = t" by (rule split512)
  have n: "r + n \<le> 512" using assms unfolding 1(4) .
  have "b = a" if "off \<le> j" "j < off + n"
  proof (rule antisym)
    have "512 * b < 512 * a + 512" using that(2) 1(1) 2(1) n by linarith
    then show "b \<le> a" by simp
    have "512 * a < 512 * b + 512" using that(1) 1(1) 2(1,2) by linarith
    then show "a \<le> b" by simp
  qed
  then show "off \<le> j \<and> j < off + n \<longleftrightarrow> j div 512 = off div 512 \<and> off mod 512 \<le> j mod 512 \<and> j mod 512 < off mod 512 + n"
    unfolding 1(3,4) 2(3,4) using 1(1) 2(1) by auto
  show "j div 512 = off div 512 \<Longrightarrow> j - off = j mod 512 - off mod 512"
    unfolding 1(3,4) 2(3,4) using 1(1) 2(1) by simp
qed

lemma wrote_block:
  assumes v: "bview u = (bview s)(fslot ip s (off div 512) := put_bytes (bview s (fslot ip s (off div 512))) (off mod 512) bs)"
    and slots: "\<And>k. k \<le> 140 \<Longrightarrow> fslot ip u k = fslot ip s k" and f: "file_inv p ip s"
    and q: "off div 512 < 140" "fslot ip s (off div 512) \<noteq> 0" and bs: "off mod 512 + length bs \<le> 512"
    and len: "length (bview s (fslot ip s (off div 512))) = 512"
  shows "wrote ip off bs s u"
  unfolding wrote_def
proof (intro allI impI)
  fix j :: nat assume j: "j < 71680"
  let ?x = "fslot ip s (off div 512)"
  have k: "j div 512 < 140" using j by simp
  have here: "off \<le> j \<and> j < off + length bs \<longleftrightarrow>
      j div 512 = off div 512 \<and> off mod 512 \<le> j mod 512 \<and> j mod 512 < off mod 512 + length bs"
    and at: "j div 512 = off div 512 \<Longrightarrow> j - off = j mod 512 - off mod 512"
    using block_range [OF bs, of j] by blast+
  have "fbyte ip u j = bview u (fslot ip s (j div 512)) ! (j mod 512)" using slots [of "j div 512"] k by (simp add: byte_of_def)
  moreover have "fslot ip s (j div 512) \<noteq> ?x" if "j div 512 \<noteq> off div 512" "fslot ip s (j div 512) \<noteq> 0"
    using that file_inv_distinct [OF f, of "j div 512" "off div 512"] k q(1) by auto
  moreover have "bview u ?x ! (j mod 512) =
      (if off mod 512 \<le> j mod 512 \<and> j mod 512 < off mod 512 + length bs then bs ! (j mod 512 - off mod 512)
       else bview s ?x ! (j mod 512))"
    using bs len by (simp add: v nth_put_bytes)
  moreover have "bview u b = bview s b" if "b \<noteq> ?x" for b using that by (simp add: v)
  ultimately have b: "fbyte ip u j = (if j div 512 = off div 512 \<and> off mod 512 \<le> j mod 512 \<and> j mod 512 < off mod 512 + length bs
      then bs ! (j mod 512 - off mod 512) else fbyte ip s j)" if "fslot ip s (j div 512) \<noteq> 0"
    using that by (cases "j div 512 = off div 512") (simp_all add: byte_of_def)
  show "if off \<le> j \<and> j < off + length bs then fslot ip u (j div 512) \<noteq> 0 \<and> fbyte ip u j = bs ! (j - off)
     else fslot ip s (j div 512) \<noteq> 0 \<longrightarrow> fbyte ip u j = fbyte ip s j"
    unfolding here using b at slots [of "j div 512"] slots [of "off div 512"] k q by simp
qed

lemma write_block:
  assumes x: "txn c p s" "fsroom (Suc k) p s" "fs_inv p s" "file_inv p ip s"
    and q: "off div 512 < 140" "fslot ip s (off div 512) \<noteq> 0" and bs: "off mod 512 + length bs \<le> 512"
  obtains i t w u where "bread 1 (fslot ip s (off div 512)) s = Ok i t"
    "log_write i (set_data i (put_bytes (buf_data i t) (off mod 512) bs) t) = Ok () w" "brelse i w = Ok () u"
    "txn c p u" "fsroom k p u" "fs_inv p u" "file_inv p ip u" "extends ip s u" "wrote ip off bs s u"
    "free_blocks u = free_blocks s"
proof -
  let ?x = "fslot ip s (off div 512)" and ?f = "\<lambda>d. put_bytes d (off mod 512) bs"
  have b: "blk_ok p ?x s" using file_block(1) [OF x(4) _ q(2)] q(1) by simp
  have len: "length (bview s ?x) = 512" using txn_length [OF x(1)] by (simp add: BSIZE_def)
  then have l: "length (?f (bview s ?x)) = BSIZE" using bs by (simp add: BSIZE_def)
  from fs_modify [where f = ?f, OF x(1,2) b l] obtain i t w u where *: "bread 1 ?x s = Ok i t" "buf_data i t = bview s ?x"
    "log_write i (set_data i (?f (bview s ?x)) t) = Ok () w" "brelse i w = Ok () u" "txn c p u" "lcore u = lcore s"
    "bcache p u = a_put ?x (?f (bview s ?x)) (bcache p s)" by metis
  have v: "bview u = (bview s)(?x := ?f (bview s ?x))" "bheld u = bheld s"
    using arg_cong [OF *(7), of ca_view] arg_cong [OF *(7), of ca_held] by simp_all
  note d = data_put [OF x(4,3) q v(1) *(6) v(2)]
  show ?thesis
    by (rule that [OF *(1) _ *(4,5) fsroom_put [OF x(2) *(6,7)] d(1-3) wrote_block [OF v(1) d(5) x(4) q bs len] d(4)])
      (use *(2,3) in simp_all)
qed

text \<open>The number of blocks that \<open>n\<close> bytes from \<open>off\<close> on touch.\<close>

definition touched :: "nat \<Rightarrow> nat \<Rightarrow> nat" where
  "touched off n = (if n = 0 then 0 else (off mod 512 + n + 511) div 512)"

lemma touched_step:
  assumes "0 < n" and m: "m = min n (512 - off mod 512)"
  shows "touched off n = Suc (touched (off + m) (n - m))"
proof -
  obtain q r where off: "off = 512 * q + r" "r < 512" "off mod 512 = r" by (metis split512)
  show ?thesis
  proof (cases "n \<le> 512 - r")
    case True
    then have "touched off n = 1" using assms(1) off(2) unfolding touched_def off(3) by (simp add: div_nat_eqI)
    then show ?thesis using True m off(3) by (simp add: touched_def)
  next
    case False
    then have m': "m = 512 - r" "n = m + (n - m)" "0 < n - m" using m off(2,3) by auto
    then have "off + m = 512 * (q + 1)" using off(1,2) by simp
    then have "(off + m) mod 512 = 0" by (metis mod_mult_self1_is_0)
    moreover have "r + n + 511 = (n - m + 511) + 512" using m' off(2) by linarith
    ultimately show ?thesis using m'(3) assms(1) unfolding touched_def off(3) by simp
  qed
qed

lemma writei_loop_ok:
  assumes "txn c p s" "fsroom (6 * touched off (length src) + k) p s" "fs_inv p s" "file_inv p ip s"
    "2 * touched off (length src) \<le> card (free_blocks s)" "off + length src \<le> 71680"
  shows "\<exists>t. writei_loop ip src off s = Ok () t \<and> txn c p t \<and> fsroom k p t \<and> fs_inv p t \<and> file_inv p ip t \<and>
    extends ip s t \<and> wrote ip off src s t"
  using assms
proof (induction "length src" arbitrary: src off s rule: less_induct)
  case less
  show ?case
  proof (cases "src = []")
    case True
    then show ?thesis using less.prems by (subst writei_loop.simps) (simp add: touched_def wrote_def)
  next
    case False
    define m where "m = chunk off (length src)"
    have m: "m = min (length src) (512 - off mod 512)" by (simp add: m_def chunk_def BSIZE_def)
    have n: "0 < length src" "0 < m" "m \<le> length src" "length (take m src) = m"
      using False chunk_pos [of "length src" off] m m_def by auto
    have "off mod 512 < 512" "m \<le> 512 - off mod 512" using m by simp_all
    then have bs: "off mod 512 + length (take m src) \<le> 512" unfolding n(4) by linarith
    have t: "touched off (length src) = Suc (touched (off + m) (length (drop m src)))"
      using touched_step [OF n(1) m] by simp
    let ?n = "touched (off + m) (length (drop m src))"
    have q: "off div 512 < 140" using less.prems(6) n(1) by (intro less_mult_imp_div_less) linarith
    have r: "fsroom (Suc (Suc (Suc (Suc (Suc (Suc (6 * ?n + k))))))) p s" using less.prems(2) unfolding t by (simp add: eval_nat_numeral)
    have c: "2 \<le> card (free_blocks s)" using less.prems(5) t by simp
    obtain s1 where s1: "bmap ip (off div 512) s = Ok (fslot ip s1 (off div 512)) s1" "mapped c p (Suc (6 * ?n + k)) 2 ip (off div 512) s s1"
      using bmap_ok [OF less.prems(1) r less.prems(3,4) c q] by blast
    have x: "txn c p s1" "fsroom (Suc (6 * ?n + k)) p s1" "fs_inv p s1" "file_inv p ip s1" "fslot ip s1 (off div 512) \<noteq> 0"
      "extends ip s s1" "wrote ip off [] s s1" "card (free_blocks s) \<le> card (free_blocks s1) + 2"
      using s1(2) wrote_nil [of ip off s s1] by (simp_all add: mapped_def)
    from write_block [OF x(1-4) q x(5) bs] obtain i t' w u where
      u: "bread 1 (fslot ip s1 (off div 512)) s1 = Ok i t'"
        "log_write i (set_data i (put_bytes (buf_data i t') (off mod 512) (take m src)) t') = Ok () w" "brelse i w = Ok () u"
        "txn c p u" "fsroom (6 * ?n + k) p u" "fs_inv p u" "file_inv p ip u" "extends ip s1 u" "wrote ip off (take m src) s1 u"
        "free_blocks u = free_blocks s1" by metis
    have "2 * ?n \<le> card (free_blocks u)" "off + m + length (drop m src) \<le> 71680"
      using less.prems(5,6) t x(8) u(10) n by simp_all
    moreover have "length (drop m src) < length src" using n by simp
    ultimately obtain v where v: "writei_loop ip (drop m src) (off + m) u = Ok () v" "txn c p v" "fsroom k p v" "fs_inv p v"
      "file_inv p ip v" "extends ip u v" "wrote ip (off + m) (drop m src) u v"
      using less.hyps [OF _ u(4) _ u(6,7)] u(5) by blast
    have e: "extends ip s u" "wrote ip off (take m src) s u"
      using extends_trans [OF x(6) u(8)] wrote_trans [OF x(6,7) u(8)] u(9) by simp_all
    have "wrote ip off src s v" using wrote_trans [OF e v(6), of "drop m src"] v(7) unfolding n(4) by simp
    moreover have "writei_loop ip src off s = Ok () v"
      using False s1(1) u(1-3) v(1) x(4)
      by (subst writei_loop.simps) (simp add: BSIZE_def m_def Let_def file_inv_def file_ok_def)
    ultimately show ?thesis using v(2-5) extends_trans [OF e(1) v(6)] by blast
  qed
qed

section \<open>Writing a file\<close>

text \<open>The inode is where its number says, and its metadata is not part of its file.\<close>

lemma iupdate_ok:
  assumes x: "txn c p s" "fsroom (Suc k) p s" "fs_inv p s" and i: "i_dev (icache s ip) = 1" "i_inum (icache s ip) < sb_ninodes (fs_sb s)"
    and di: "dinode_ok (disk_inode (icache s ip))"
  obtains t where "iupdate ip s = Ok () t" "txn c p t" "fsroom k p t" "lcore t = lcore s" "bheld t = bheld s"
    "bview t = (bview s)(IBLOCK (i_inum (icache s ip)) (fs_sb s) :=
       put_bytes (bview s (IBLOCK (i_inum (icache s ip)) (fs_sb s))) (dinode_off (i_inum (icache s ip)))
         (enc_dinode (disk_inode (icache s ip))))"
proof -
  let ?b = "IBLOCK (i_inum (icache s ip)) (fs_sb s)" and ?o = "dinode_off (i_inum (icache s ip))"
  let ?f = "\<lambda>d. put_bytes d ?o (enc_dinode (disk_inode (icache s ip)))"
  have b: "blk_ok p ?b s" using x(3) meta_IBLOCK [OF i(2)] by (simp add: fs_inv_def)
  have o: "?o + 64 \<le> 512" by (simp add: dinode_off_def layout_defs)
  have l: "length (?f (bview s ?b)) = BSIZE"
    using txn_length [OF x(1)] o by (simp add: length_enc_dinode [OF di] BSIZE_def)
  from fs_modify [where f = ?f, OF x(1,2) b l] obtain i' t w u where *: "bread 1 ?b s = Ok i' t" "buf_data i' t = bview s ?b"
    "lcore t = lcore s" "log_write i' (set_data i' (?f (bview s ?b)) t) = Ok () w" "brelse i' w = Ok () u" "txn c p u"
    "lcore u = lcore s" "bcache p u = a_put ?b (?f (bview s ?b)) (bcache p s)" by metis
  have "iupdate ip s = Ok () u"
    using i *(1,2,4,5) lcore_fs(1) [OF *(3)] by (simp add: iupdate_def)
  then show ?thesis
    using that [OF _ *(6) fsroom_put [OF x(2) *(7,8)] *(7)] arg_cong [OF *(8), of ca_view] arg_cong [OF *(8), of ca_held] by simp
qed

text \<open>Files other than the one that grew are as before.\<close>

lemma same_blocks:
  assumes f: "file_inv p jp s" and ic: "icache t jp = icache s jp" and dev: "same_fs s t" and free: "free_blocks t \<subseteq> free_blocks s"
    and v: "\<And>b. b \<in> fown jp s \<Longrightarrow> bview t b = bview s b"
  shows "file_inv p jp t" "file_data jp t = file_data jp s" "fown jp t = fown jp s"
proof -
  have slots: "fslot jp t k = fslot jp s k" for k
    unfolding ic by (intro slot_cong v) (use ownI [of 140 "bview s" "i_addrs (icache s jp)"] in simp)
  then show own: "fown jp t = fown jp s" unfolding own_def by simp
  show "file_inv p jp t"
    using f slots own free same_fs_blk [OF dev] same_fs_sb [OF dev] unfolding file_inv_def file_ok_def ic by auto
  show "file_data jp t = file_data jp s"
    unfolding file_data_def ic
  proof (rule bytes_of_cong)
    fix m assume m: "m < i_size (icache s jp)"
    show "slot (bview t) (i_addrs (icache s jp)) (m div 512) = fslot jp s (m div 512)" using slots ic by simp
    have k: "m div 512 < 140 \<and> has_slot (i_size (icache s jp)) (m div 512)"
      using byte_slot [OF m] f by (simp add: file_inv_def file_ok_def)
    then have "fslot jp s (m div 512) \<in> fown jp s" using f by (intro ownI) (simp_all add: file_inv_def file_ok_def)
    then show "bview t (fslot jp s (m div 512)) ! (m mod 512) = bview s (fslot jp s (m div 512)) ! (m mod 512)"
      using v by simp
  qed
qed

lemma extends_others:
  assumes e: "extends ip s t" and f: "file_inv p jp s" "jp \<noteq> ip" "fown jp s \<inter> fown ip s = {}"
  shows "file_inv p jp t" "file_data jp t = file_data jp s"
proof -
  have ic: "icache t jp = icache s jp"
  proof -
    have "icache t = (icache s)(ip := (icache s ip)\<lparr>i_addrs := i_addrs (icache t ip)\<rparr>)" using e by (simp only: extends_def)
    from fun_cong [OF this, of jp] show ?thesis using f(2) by simp
  qed
  have dev: "same_fs s t" "free_blocks t \<subseteq> free_blocks s" using e by (simp_all add: extends_def)
  have "bview t b = bview s b" if "b \<in> fown jp s" for b
  proof -
    have "b \<notin> meta (fs_sb s)" "b \<notin> free_blocks s" using f(1) that by (auto simp: file_inv_def)
    moreover from this have "b \<notin> fown ip t" using e f(3) that unfolding extends_def by blast
    ultimately show ?thesis using e by (simp add: extends_def)
  qed
  then show "file_inv p jp t" "file_data jp t = file_data jp s" using same_blocks [OF f(1) ic dev] by simp_all
qed

text \<open>After the bytes are written, the blocks suffice for the new size and hold the new contents.\<close>

lemma wrote_data:
  assumes e: "extends ip s t" and w: "wrote ip off src s t" and f: "file_inv p ip s"
    and off: "off \<le> i_size (icache s ip)" "off + length src \<le> 71680"
  defines "n \<equiv> max (i_size (icache s ip)) (off + length src)"
  shows "\<And>k. k \<le> 140 \<Longrightarrow> has_slot n k \<Longrightarrow> fslot ip t k \<noteq> 0"
    "bytes_of (bview t) n (i_addrs (icache t ip)) = put_bytes (file_data ip s) off src"
proof -
  let ?sz = "i_size (icache s ip)"
  have sz: "?sz \<le> 71680" and old: "\<And>k. k \<le> 140 \<Longrightarrow> has_slot ?sz k \<Longrightarrow> fslot ip s k \<noteq> 0"
    using f by (simp_all add: file_inv_def file_ok_def)
  have kept: "fslot ip t k \<noteq> 0" if "k \<le> 140" "has_slot ?sz k" for k
    using old [OF that] e that(1) by (simp add: extends_def)
  have at: "if off \<le> j \<and> j < off + length src then fslot ip t (j div 512) \<noteq> 0 \<and> fbyte ip t j = src ! (j - off)
     else fslot ip s (j div 512) \<noteq> 0 \<longrightarrow> fbyte ip t j = fbyte ip s j" if "j < 71680" for j
    using w that unfolding wrote_def by blast
  have new: "fslot ip t k \<noteq> 0" if "k < 140" "512 * k < n" for k
  proof (cases "512 * k < ?sz")
    case True
    then show ?thesis using kept [of k] that(1) by (simp add: has_slot_def)
  next
    case False
    then have "off \<le> 512 * k \<and> 512 * k < off + length src" using that off(1) by (simp add: n_def)
    then show ?thesis using at [of "512 * k"] that(1) by simp
  qed
  show "fslot ip t k \<noteq> 0" if "k \<le> 140" "has_slot n k" for k
  proof (cases "k = 140")
    case True
    then have "fslot ip t 12 \<noteq> 0" using new [of 12] that(2) by (simp add: has_slot_def)
    then show ?thesis using True by (auto simp: slot_def split: if_splits)
  qed (use new that in \<open>simp add: has_slot_def\<close>)
  show "bytes_of (bview t) n (i_addrs (icache t ip)) = put_bytes (file_data ip s) off src"
  proof (rule nth_equalityI)
    show "length (bytes_of (bview t) n (i_addrs (icache t ip))) = length (put_bytes (file_data ip s) off src)"
      using off by (simp add: bytes_of_def put_bytes_def n_def)
  next
    fix j assume "j < length (bytes_of (bview t) n (i_addrs (icache t ip)))"
    then have j: "j < n" "j < 71680" using sz off(2) by (auto simp: bytes_of_def n_def)
    have "fbyte ip t j = fbyte ip s j" if "\<not> (off \<le> j \<and> j < off + length src)"
    proof -
      have "j < ?sz" using that j(1) off(1) by (auto simp: n_def)
      then show ?thesis using at [OF j(2)] that old [of "j div 512"] byte_slot [of j ?sz] sz by auto
    qed
    then show "bytes_of (bview t) n (i_addrs (icache t ip)) ! j = put_bytes (file_data ip s) off src ! j"
      using at [OF j(2)] j(1) off(1) by (auto simp: bytes_of_def file_data_def put_bytes_def nth_append n_def)
  qed
qed

text \<open>The size grows and the inode is written to the disk.\<close>

lemma file_dinode_ok:
  assumes "txn c p s" "file_inv p ip s" "n < 4294967296" shows "dinode_ok (disk_inode ((icache s ip)\<lparr>i_size := n\<rparr>))"
proof -
  have l: "length (i_addrs (icache s ip)) = 13" using assms(2) by (simp add: file_inv_def file_ok_def)
  have "i_addrs (icache s ip) ! k < 4294967296" if "k < 13" for k
  proof (cases "i_addrs (icache s ip) ! k = 0")
    case False
    define m where "m = (if k = 12 then 140 else k)"
    have m: "m \<le> 140" "fslot ip s m = i_addrs (icache s ip) ! k" using that by (auto simp: m_def slot_def)
    then have "i_addrs (icache s ip) ! k < disksize s"
      using file_block(1) [OF assms(2) m(1)] False by (simp add: blk_ok_def)
    moreover have "disksize s < 4294967296" using assms(1) by (simp add: txn_def log_sound_def)
    ultimately show ?thesis by linarith
  qed simp
  then show ?thesis using l assms(3) by (auto simp: dinode_ok_def disk_inode_def NDIRECT_def in_set_conv_nth)
qed

lemma meta_put:
  assumes v: "bview u = (bview t)(IBLOCK i (fs_sb t) := d)" and core: "lcore u = lcore t" "bheld u = bheld t"
    and i: "fs_inv p t" "i < sb_ninodes (fs_sb t)"
  shows "fs_inv p u" "same_fs t u" "free_blocks u = free_blocks t"
    "\<And>jp. file_inv p jp t \<Longrightarrow> file_inv p jp u \<and> file_data jp u = file_data jp t"
proof -
  have sb: "fs_sb u = fs_sb t" "icache u = icache t" using core(1) lcore_fs by blast+
  show dev: "same_fs t u" by (rule same_fs_core [OF core])
  have "block_free u b \<longleftrightarrow> block_free t b" if "b < sb_size (fs_sb t)" for b
  proof -
    have "BBLOCK b (fs_sb t) \<noteq> IBLOCK i (fs_sb t)" using i that unfolding fs_inv_def by metis
    then show ?thesis by (simp add: block_free_def v sb)
  qed
  then show free: "free_blocks u = free_blocks t" by (auto simp: free_blocks_def sb)
  show "fs_inv p u" using fs_inv_shrink [OF i(1) dev] free by simp
  fix jp assume f: "file_inv p jp t"
  have "bview u b = bview t b" if "b \<in> fown jp t" for b
    using f that meta_IBLOCK [OF i(2)] unfolding file_inv_def by (auto simp: v)
  then show "file_inv p jp u \<and> file_data jp u = file_data jp t"
    using same_blocks [OF f _ dev] sb(2) free by simp
qed

text \<open>The size of the file changes in the inode only.\<close>

lemma resized:
  assumes f: "file_inv p ip t" and n: "n \<le> 71680" "\<And>k. k \<le> 140 \<Longrightarrow> has_slot n k \<Longrightarrow> fslot ip t k \<noteq> 0"
  defines "u \<equiv> upd_inode ip (\<lambda>r. r\<lparr>i_size := n\<rparr>) t"
  shows "file_inv p ip u" "file_data ip u = bytes_of (bview t) n (i_addrs (icache t ip))"
    "\<And>jp. jp \<noteq> ip \<Longrightarrow> file_inv p jp u \<longleftrightarrow> file_inv p jp t" "\<And>jp. jp \<noteq> ip \<Longrightarrow> file_data jp u = file_data jp t"
    "disk_inode (icache u ip) = disk_inode ((icache t ip)\<lparr>i_size := n\<rparr>)"
proof -
  have b: "blk_ok p b u \<longleftrightarrow> blk_ok p b t" for b by (simp add: u_def upd_inode_def blk_ok_def log_area_def)
  have v: "bview u = bview t" "free_blocks u = free_blocks t" "fs_sb u = fs_sb t" by (simp_all add: u_def upd_inode_def)
  have ic: "icache u = (icache t)(ip := (icache t ip)\<lparr>i_size := n\<rparr>)" by (simp add: u_def upd_inode_def)
  show "file_inv p ip u" using f n unfolding file_inv_def file_ok_def b v by (simp add: ic)
  show "file_data ip u = bytes_of (bview t) n (i_addrs (icache t ip))" by (simp add: file_data_def v ic)
  show "disk_inode (icache u ip) = disk_inode ((icache t ip)\<lparr>i_size := n\<rparr>)" by (simp add: ic)
  fix jp assume j: "jp \<noteq> ip"
  then show "file_inv p jp u \<longleftrightarrow> file_inv p jp t" unfolding file_inv_def file_ok_def b v by (simp add: ic)
  show "file_data jp u = file_data jp t" using j by (simp add: file_data_def v ic)
qed

text \<open>What a write of \<open>src\<close> at \<open>off\<close> does to the files.\<close>

definition written :: "nat \<Rightarrow> nat \<Rightarrow> nat \<Rightarrow> u8 list \<Rightarrow> 'z fstate_scheme \<Rightarrow> 'z fstate_scheme \<Rightarrow> bool" where
  "written p ip off src s t \<longleftrightarrow> fs_inv p t \<and> file_inv p ip t \<and> file_data ip t = put_bytes (file_data ip s) off src \<and>
     (\<forall>jp. jp \<noteq> ip \<and> file_inv p jp s \<and> fown jp s \<inter> fown ip s = {} \<longrightarrow>
        file_inv p jp t \<and> file_data jp t = file_data jp s) \<and>
     (i_size (icache t ip) \<noteq> i_size (icache s ip) \<longrightarrow>
        dec_dinode (bview t (IBLOCK (i_inum (icache t ip)) (fs_sb t))) (dinode_off (i_inum (icache t ip))) = disk_inode (icache t ip))"

lemma extends_inode:
  assumes "extends ip s t" shows "icache t ip = (icache s ip)\<lparr>i_addrs := i_addrs (icache t ip)\<rparr>"
proof -
  have "icache t = (icache s)(ip := (icache s ip)\<lparr>i_addrs := i_addrs (icache t ip)\<rparr>)" using assms by (simp only: extends_def)
  from fun_cong [OF this, of ip] show ?thesis by simp
qed

lemma grow_inode:
  assumes x: "txn c p t" "fsroom 1 p t" "fs_inv p t" "file_inv p ip t" and n: "n \<le> 71680" "\<And>k. k \<le> 140 \<Longrightarrow> has_slot n k \<Longrightarrow> fslot ip t k \<noteq> 0"
    and i: "i_inum (icache t ip) < sb_ninodes (fs_sb t)"
  shows "\<exists>u. iupdate ip (upd_inode ip (\<lambda>r. r\<lparr>i_size := n\<rparr>) t) = Ok () u \<and> txn c p u \<and> fsroom 0 p u \<and> fs_inv p u \<and> file_inv p ip u \<and>
    file_data ip u = bytes_of (bview t) n (i_addrs (icache t ip)) \<and>
    (\<forall>jp. jp \<noteq> ip \<and> file_inv p jp t \<longrightarrow> file_inv p jp u \<and> file_data jp u = file_data jp t) \<and>
    icache u = (icache t)(ip := (icache t ip)\<lparr>i_size := n\<rparr>) \<and> fs_sb u = fs_sb t \<and>
    dec_dinode (bview u (IBLOCK (i_inum (icache t ip)) (fs_sb t))) (dinode_off (i_inum (icache t ip))) = disk_inode (icache u ip)"
proof -
  let ?t = "upd_inode ip (\<lambda>r. r\<lparr>i_size := n\<rparr>) t" and ?b = "IBLOCK (i_inum (icache t ip)) (fs_sb t)"
  note r = resized [OF x(4) n]
  have t: "txn c p ?t" "fsroom (Suc 0) p ?t" "fs_inv p ?t" "bview ?t = bview t" "fs_sb ?t = fs_sb t"
    "icache ?t = (icache t)(ip := (icache t ip)\<lparr>i_size := n\<rparr>)"
    using x by (simp_all add: upd_inode_def)
  have dev: "i_dev (icache ?t ip) = 1" "i_inum (icache ?t ip) = i_inum (icache t ip)"
    using x(4) t(6) by (simp_all add: file_inv_def file_ok_def)
  have di: "dinode_ok (disk_inode (icache ?t ip))" using file_dinode_ok [OF x(1,4), of n] n(1) r(5) by simp
  obtain u where u: "iupdate ip ?t = Ok () u" "txn c p u" "lcore u = lcore ?t" "bheld u = bheld ?t" and r0: "fsroom 0 p u"
    and v: "bview u = (bview ?t)(?b := put_bytes (bview ?t ?b) (dinode_off (i_inum (icache t ip))) (enc_dinode (disk_inode (icache ?t ip))))"
    using iupdate_ok [OF t(1-3) dev(1) _ di] dev(2) i t(5) by metis
  have b: "?b = IBLOCK (i_inum (icache t ip)) (fs_sb ?t)" "i_inum (icache t ip) < sb_ninodes (fs_sb ?t)" using t(5) i by simp_all
  note m = meta_put [OF v [unfolded b(1)] u(3,4) t(3) b(2)]
  have ic: "icache u = icache ?t" "fs_sb u = fs_sb t" using lcore_fs [OF u(3)] t(5) by simp_all
  have "dinode_off (i_inum (icache t ip)) + 64 \<le> length (bview t ?b)"
    using txn_length [OF x(1)] by (simp add: dinode_off_def layout_defs)
  then have "dec_dinode (bview u ?b) (dinode_off (i_inum (icache t ip))) = disk_inode (icache u ip)"
    using dec_put_dinode [OF di] v ic(1) t(4) by simp
  then show ?thesis using u(1,2) r0 m(1) m(4) [OF r(1)] m(4) r(2-4) ic t(6) by (intro exI [of _ u]) auto
qed

lemma writei_ok:
  assumes x: "txn c p s" "fsroom (6 * touched off (length src) + 1) p s" "fs_inv p s" "file_inv p ip s"
    and free: "2 * touched off (length src) \<le> card (free_blocks s)"
    and off: "off \<le> i_size (icache s ip)" "off + length src \<le> 71680"
    and i: "i_inum (icache s ip) < sb_ninodes (fs_sb s)" "i_type (icache s ip) \<noteq> T_DEV"
  obtains t where "writei dw ip src off s = Ok (int (length src)) t" "txn c p t" "fsroom 0 p t" "written p ip off src s t"
    "i_type (icache t ip) = i_type (icache s ip)"
proof -
  let ?sz = "i_size (icache s ip)" and ?n = "off + length src"
  obtain t where t: "writei_loop ip src off s = Ok () t" "txn c p t" "fsroom 1 p t" "fs_inv p t" "file_inv p ip t"
    "extends ip s t" "wrote ip off src s t"
    using writei_loop_ok [OF x free off(2)] by blast
  note w = wrote_data [OF t(6,7) x(4) off]
  have sb: "fs_sb t = fs_sb s" using t(6) by (simp add: extends_def same_fs_def)
  note ino = extends_inode [OF t(6)]
  have sz: "i_size (icache t ip) = ?sz" "i_inum (icache t ip) = i_inum (icache s ip)" "i_type (icache t ip) = i_type (icache s ip)"
    by (subst ino, simp)+
  have oth: "\<forall>jp. jp \<noteq> ip \<and> file_inv p jp s \<and> fown jp s \<inter> fown ip s = {} \<longrightarrow> file_inv p jp t \<and> file_data jp t = file_data jp s"
    using extends_others [OF t(6)] by blast
  have eq: "writei dw ip src off s = (if length src > 0 \<and> ?n > ?sz
      then andthen (iupdate ip (upd_inode ip (\<lambda>r. r\<lparr>i_size := ?n\<rparr>) t)) (\<lambda>_ s. Ok (int (length src)) s) else Ok (int (length src)) t)"
    using t(1) off i(2) sz(1) by (simp add: writei_def Let_def layout_defs)
  show ?thesis
  proof (cases "?n > ?sz")
    case True
    then have g: "length src > 0" "max ?sz ?n = ?n" using off(1) by auto
    have "i_inum (icache t ip) < sb_ninodes (fs_sb t)" using i(1) sz(2) sb by simp
    from grow_inode [OF t(2-5) off(2) w(1) [unfolded g(2)] this] obtain u where
      u: "iupdate ip (upd_inode ip (\<lambda>r. r\<lparr>i_size := ?n\<rparr>) t) = Ok () u" "txn c p u" "fs_inv p u" "file_inv p ip u"
        and r0: "fsroom 0 p u" and u': "file_data ip u = bytes_of (bview t) ?n (i_addrs (icache t ip))"
        "\<forall>jp. jp \<noteq> ip \<and> file_inv p jp t \<longrightarrow> file_inv p jp u \<and> file_data jp u = file_data jp t"
        "icache u = (icache t)(ip := (icache t ip)\<lparr>i_size := ?n\<rparr>)" "fs_sb u = fs_sb t"
        "dec_dinode (bview u (IBLOCK (i_inum (icache t ip)) (fs_sb t))) (dinode_off (i_inum (icache t ip))) = disk_inode (icache u ip)"
      by blast
    have "written p ip off src s u"
      unfolding written_def using u u' w(2) g(2) oth by (simp add: sz)
    then show ?thesis using that [of u] eq True g(1) u(1,2) r0 u'(3) sz(3) by simp
  next
    case False
    then have "file_data ip t = put_bytes (file_data ip s) off src"
      using w(2) sz(1) by (simp add: file_data_def max_absorb1)
    then have "written p ip off src s t" unfolding written_def using t(4,5) oth sz(1) by simp
    then show ?thesis using that [of t] eq False t(2) fsroom_mono [OF t(3), of 0] sz(3) by simp
  qed
qed

text \<open>
  C4. \<open>writei\<close> writes the file and nothing else. Inside a transaction with room, and with blocks left on
  the disk, it returns the number of bytes; the contents of the file are the old ones with the new
  bytes in place from the offset on, at the end if it starts there, and the inode on the disk is brought
  up to date when the file has grown. Every other file has its contents as before, and the
  invariants of the file system hold again.
\<close>

theorem writei_writes:
  assumes "txn c p s" "fsroom (6 * touched off (length src) + 1) p s" "fs_inv p s" "file_inv p ip s"
    "2 * touched off (length src) \<le> card (free_blocks s)"
    "off \<le> i_size (icache s ip)" "off + length src \<le> MAXFILE * BSIZE"
    "i_inum (icache s ip) < sb_ninodes (fs_sb s)" "i_type (icache s ip) \<noteq> T_DEV"
  shows "\<exists>t. writei dw ip src off s = Ok (int (length src)) t \<and> txn c p t \<and> written p ip off src s t"
proof -
  have "off + length src \<le> 71680" using assms(7) by (simp add: layout_defs)
  from writei_ok [OF assms(1-6) this assms(8,9)] show ?thesis by metis
qed

text \<open>
  C6. What is written is what is read: after \<open>writei\<close> of some bytes, \<open>readi\<close> at the same offset returns
  exactly these bytes.
\<close>

theorem write_then_read:
  assumes "txn c p s" "fsroom (6 * touched off (length src) + 1) p s" "fs_inv p s" "file_inv p ip s"
    "2 * touched off (length src) \<le> card (free_blocks s)"
    "off \<le> i_size (icache s ip)" "off + length src \<le> MAXFILE * BSIZE"
    "i_inum (icache s ip) < sb_ninodes (fs_sb s)" "i_type (icache s ip) \<noteq> T_DEV"
  shows "\<exists>t u. writei dw ip src off s = Ok (int (length src)) t \<and> readi dr ip off (length src) t = Ok (int (length src), src) u"
proof -
  have n: "off + length src \<le> 71680" using assms(7) by (simp add: layout_defs)
  from writei_ok [OF assms(1-6) this assms(8,9)] obtain t where
    t: "writei dw ip src off s = Ok (int (length src)) t" "txn c p t" "fsroom 0 p t" "written p ip off src s t"
      "i_type (icache t ip) = i_type (icache s ip)" by metis
  have d: "file_data ip t = put_bytes (file_data ip s) off src" and f: "file_ok p ip t" using t(4) by (simp_all add: written_def file_inv_def)
  have sz: "off + length src \<le> i_size (icache t ip)"
    using arg_cong [OF d, of length] assms(6) by (simp add: put_bytes_def)
  have "can_peek p t" using t(2,3) by (auto simp: txn_def log_sound_def can_peek_def fsroom_def fits_def log_lim_def NBUF_def MAXOPBLOCKS_def)
  from readi_ok [OF txn_bgood [OF t(2)] this f, of off "length src" dr] obtain u where
    "readi dr ip off (length src) t = Ok (int (length src), take (length src) (drop off (file_data ip t))) u"
    using assms(9) t(5) sz n by auto
  moreover have "take (length src) (drop off (file_data ip t)) = src" using d assms(6) by (simp add: put_bytes_def)
  ultimately show ?thesis using t(1) by simp
qed

section \<open>A file on the sample disk\<close>

text \<open>An empty file with inode number 2 in entry 0 of the inode table.\<close>

definition new_file :: inode where
  "new_file = no_inode\<lparr>i_dev := 1, i_inum := 2, i_ref := 1, i_valid := True, i_type := T_FILE, i_nlink := 1\<rparr>"

lemma new_file_fields [simp]:
  "i_dev new_file = 1" "i_inum new_file = 2" "i_type new_file = T_FILE" "i_size new_file = 0" "i_addrs new_file = replicate 13 0"
  by (simp_all add: new_file_def no_inode_def)

abbreviation file_fs :: fstate where "file_fs \<equiv> fs_machine sample_disk ((\<lambda>_. no_inode)(0 := new_file))"

lemma sample_fs_free: "b < 1000 \<Longrightarrow> block_free (fs_machine sample_disk tab) b \<longleftrightarrow> bit_free sample_map b"
  by (simp add: block_free_def sample_BBLOCK sample_machine layout_defs) (simp add: sample_disk_def)

lemma sample_map_free: "b < 1000 \<Longrightarrow> bit_free sample_map b \<longleftrightarrow> 59 \<le> b"
proof -
  assume b: "b < 1000"
  have "\<not> bit_free sample_map b" if "b < 59" using sample_first_free(2) that b sample_free [OF b] by simp
  moreover have "bit_free sample_map b" if "59 \<le> b"
  proof (cases "b < 64")
    case True
    then have "b div 8 = 7" "3 \<le> b mod 8" using that by (auto simp: div_nat_eqI) presburger
    moreover have "\<not> bit (7 :: u8) n" if "3 \<le> n" for n
    proof -
      have e: "(7 :: u8) = mask 3" by (simp add: mask_eq_exp_minus_1)
      show ?thesis using that unfolding e by (simp add: bit_mask_iff)
    qed
    ultimately show ?thesis by (simp add: bit_free_bit sample_map_def nth_append)
  next
    case False
    then have "8 \<le> b div 8" "b div 8 < 125" using b by auto
    then show ?thesis by (simp add: bit_free_bit sample_map_def nth_append nth_Cons')
  qed
  ultimately show ?thesis by linarith
qed

lemma sample_fs_blocks: "free_blocks (fs_machine sample_disk tab) = {59..<1000}"
  using sample_map_free sample_fs_free [of _ tab] by (auto simp: free_blocks_def sample_sb_def)

lemma sample_meta: "meta sample_sb \<subseteq> {32..58}"
  by (auto simp: meta_def IBLOCK_def BBLOCK_def sample_sb_def layout_defs)

lemma sample_fs_inv: "fs_inv 0 (fs_machine sample_disk tab)"
proof -
  have "blk_ok 0 b (fs_machine sample_disk tab)" if "b \<in> meta sample_sb" for b
    using that sample_meta by (auto simp: sample_machine)
  moreover have "IBLOCK i sample_sb \<noteq> BBLOCK b sample_sb" if "i < 200" "b < 1000" for i b
    using that by (simp add: IBLOCK_def BBLOCK_def sample_sb_def layout_defs)
  moreover have "{59..<1000} \<inter> meta sample_sb = {}" using sample_meta by fastforce
  ultimately show ?thesis by (simp add: fs_inv_def sample_fs_blocks sample_machine sample_sb_def)
qed

lemma sample_fs_file:
  assumes "i_dev (tab 0) = 1" "i_size (tab 0) = 0" "i_addrs (tab 0) = replicate 13 0"
  shows "file_inv 0 0 (fs_machine sample_disk tab)"
proof -
  have z: "slot d (replicate 13 0) k = 0" for d k by (cases "k < 12") (simp_all add: slot_def)
  then have "own d (replicate 13 0) = {}" for d by (auto simp: own_def)
  with z show ?thesis using assms by (simp add: file_inv_def file_ok_def has_slot_def)
qed

lemmas file_fs_ready = sample_machine(1) [of "(\<lambda>_. no_inode)(0 := new_file)"] sample_fs_inv sample_fs_file [of "(\<lambda>_. no_inode)(0 := new_file)"]

theorem writei_writes_witness:
  "\<exists>t. writei (\<lambda>_. None) 0 [104, 105] 0 file_fs = Ok 2 t \<and> written 0 0 0 [104, 105] file_fs t \<and> file_data 0 t = [104, 105]"
proof -
  have "\<exists>t. writei (\<lambda>_. None) 0 [104, 105] 0 file_fs = Ok (int (length [104, 105 :: u8])) t \<and> txn 0 0 t \<and>
    written 0 0 0 [104, 105] file_fs t"
    by (rule writei_writes [OF file_fs_ready(1) _ file_fs_ready(2,3)])
      (simp_all add: sample_machine touched_def sample_fs_blocks T_FILE_def T_DEV_def sample_sb_def
        layout_defs)
  then show ?thesis by (auto simp: written_def file_data_def bytes_of_def put_bytes_def)
qed

theorem write_then_read_witness:
  "\<exists>t u. writei (\<lambda>_. None) 0 [104, 105] 0 file_fs = Ok 2 t \<and> readi (\<lambda>_. None) 0 0 2 t = Ok (2, [104, 105]) u"
  using write_then_read [of 0 0 file_fs 0 "[104, 105]" 0 "\<lambda>_. None" "\<lambda>_. None"] file_fs_ready
  by (auto simp: sample_machine touched_def sample_fs_blocks T_FILE_def T_DEV_def sample_sb_def
      layout_defs numeral_2_eq_2)

end
