(* ===== verification/Fs_Names.thy ===== *)
theory Fs_Names
  imports Fs_Write
begin

text \<open>
  Inodes and names: what \<open>iget\<close>, \<open>ilock\<close> and \<open>iunlockput\<close> do to the inode table, how \<open>dirlookup\<close>
  searches a directory, and how \<open>namei\<close> finds a file of the root directory.
\<close>

section \<open>Inode locks and the buffer cache\<close>

definition ilocks :: "'z fstate_scheme \<Rightarrow> nat \<Rightarrow> sleeplock" where
  "ilocks s i = slocks s (InodeLock i)"

text \<open>What the operations on inodes leave alone: the cache, the super block and the identifiers of processes.\<close>

definition keeps :: "nat \<Rightarrow> 'z fstate_scheme \<Rightarrow> 'z fstate_scheme \<Rightarrow> bool" where
  "keeps p s t \<longleftrightarrow> bcache p t = bcache p s \<and> log_area t = log_area s \<and> fs_sb t = fs_sb s \<and>
     (\<forall>q. p_pid (procs t q) = p_pid (procs s q))"

lemma keeps_refl [simp]: "keeps p s s"
  and keeps_trans: "keeps p s t \<Longrightarrow> keeps p t u \<Longrightarrow> keeps p s u"
  by (simp_all add: keeps_def)

lemma keepsD:
  assumes "keeps p s t"
  shows "bview t = bview s" "bheld t = bheld s" "bdirty t = bdirty s" "disksize t = disksize s" "fs_sb t = fs_sb s"
    "can_peek p t \<longleftrightarrow> can_peek p s" "blk_ok p b t \<longleftrightarrow> blk_ok p b s" "p_pid (procs t q) = p_pid (procs s q)"
    "icache t ip = icache s ip \<Longrightarrow> file_ok p ip t \<longleftrightarrow> file_ok p ip s"
    "icache t ip = icache s ip \<Longrightarrow> file_data ip t = file_data ip s"
proof -
  have c: "bcache p t = bcache p s" using assms by (simp add: keeps_def)
  show v: "bview t = bview s" "bheld t = bheld s" "bdirty t = bdirty s" "disksize t = disksize s"
    using c by (metis bcache_sel)+
  show f: "fs_sb t = fs_sb s" "p_pid (procs t q) = p_pid (procs s q)" for q using assms by (simp_all add: keeps_def)
  have "log_area t = log_area s" using assms by (simp add: keeps_def)
  then show b: "blk_ok p b t \<longleftrightarrow> blk_ok p b s" for b using v by (simp add: blk_ok_def)
  show "can_peek p t \<longleftrightarrow> can_peek p s" using v by (simp add: can_peek_def)
  show "icache t ip = icache s ip \<Longrightarrow> file_ok p ip t \<longleftrightarrow> file_ok p ip s" using v b by (simp add: file_ok_def)
  show "icache t ip = icache s ip \<Longrightarrow> file_data ip t = file_data ip s" using v by (simp add: file_data_def)
qed

lemma bcore_fields:
  assumes "bcore u = bcore v"
  shows "icache u = icache v" "fs_sb u = fs_sb v" "log_area u = log_area v" "procs u = procs v" "ilocks u = ilocks v"
proof -
  have l: "lcore u = lcore v" using assms by (rule lcore_bcore)
  show "icache u = icache v" "fs_sb u = fs_sb v" "log_area u = log_area v" "procs u = procs v"
    using lcore_fs [OF l] lcore_area(1) [OF l] lcore_log(6) [OF l] by simp_all
  have "snd (bcore u) = snd (bcore v)" using assms by simp
  then show "ilocks u = ilocks v" by (simp add: bcore_def ilocks_def fun_eq_iff)
qed

lemma quiet_keeps:
  assumes "quiet p s t" shows "keeps p s t" "icache t = icache s" "ilocks t = ilocks s"
  using assms bcore_fields [of t s] by (simp_all add: quiet_def keeps_def)

text \<open>Taking and giving up an inode's lock does not touch the buffers.\<close>

lemma bcache_inode_lock: "bcache p (s\<lparr>slocks := (slocks s)(InodeLock i := k)\<rparr>) = bcache p s"
proof -
  let ?t = "s\<lparr>slocks := (slocks s)(InodeLock i := k)\<rparr>"
  have "bview ?t = bview s" by (rule ext) (simp add: bview_def caches_def split: option.splits)
  then show ?thesis
    unfolding bcache_def bheld_def bdirty_def holds_buf_def caches_def buf_locked_def by simp
qed

lemma bgood_inode_lock: "bgood c p (s\<lparr>slocks := (slocks s)(InodeLock i := k)\<rparr>) = bgood c p s"
  unfolding bgood_def binv_def lru_def caches_def by simp

lemma take_inode:
  assumes "bgood c p s"
  shows "bgood c p (slock_set (InodeLock i) p s)" "keeps p s (slock_set (InodeLock i) p s)"
    "icache (slock_set (InodeLock i) p s) = icache s"
    "ilocks (slock_set (InodeLock i) p s) = (ilocks s)(i := (ilocks s i)\<lparr>sl_locked := True, sl_pid := p_pid (procs s p)\<rparr>)"
  using assms by (simp_all add: slock_set_def bgood_inode_lock bcache_inode_lock keeps_def log_area_def ilocks_def fun_eq_iff)

lemma drop_inode:
  assumes "bgood c p s"
  shows "bgood c p (slock_clear (InodeLock i) s)" "keeps p s (slock_clear (InodeLock i) s)"
    "icache (slock_clear (InodeLock i) s) = icache s"
    "ilocks (slock_clear (InodeLock i) s) = (ilocks s)(i := (ilocks s i)\<lparr>sl_locked := False, sl_pid := 0\<rparr>)"
proof -
  show "bgood c p (slock_clear (InodeLock i) s)"
    unfolding slock_clear_def by (rule bgood_wakeup) (simp add: bgood_inode_lock assms)
  show "keeps p s (slock_clear (InodeLock i) s)"
  proof -
    have "bcache p (slock_clear (InodeLock i) s) = bcache p s" by (simp add: slock_clear_def bcache_inode_lock)
    moreover have "log_area (slock_clear (InodeLock i) s) = log_area s" "fs_sb (slock_clear (InodeLock i) s) = fs_sb s"
      by (simp_all add: slock_clear_def wakeup1_eq log_area_def)
    ultimately show ?thesis by (simp add: keeps_def)
  qed
  show "icache (slock_clear (InodeLock i) s) = icache s" by (simp add: slock_clear_def wakeup1_eq)
  show "ilocks (slock_clear (InodeLock i) s) = (ilocks s)(i := (ilocks s i)\<lparr>sl_locked := False, sl_pid := 0\<rparr>)"
    by (simp add: ilocks_def fun_eq_iff)
qed

section \<open>The inode table\<close>

lemma acq_icache: "icache (acq l c s) = icache s" "upd_inode i f (acq l c s) = acq l c (upd_inode i f s)"
  by (simp_all add: acq_def upd_inode_def)

lemma upd_inode_keeps:
  "keeps p s (upd_inode i f s)" "ilocks (upd_inode i f s) = ilocks s" "bgood c p (upd_inode i f s) = bgood c p s"
  "icache (upd_inode i f s) = (icache s)(i := f (icache s i))" "runs c p (upd_inode i f s) = runs c p s"
  by (simp_all add: upd_inode_def keeps_def log_area_def ilocks_def fun_eq_iff)

text \<open>The entry of an inode that is in use, and the entry \<open>iget\<close> takes for one that is not.\<close>

definition cached_at :: "nat \<Rightarrow> nat \<Rightarrow> 'z fstate_scheme \<Rightarrow> nat option" where
  "cached_at dev inum s =
     find (\<lambda>i. i_ref (icache s i) > 0 \<and> i_dev (icache s i) = dev \<and> i_inum (icache s i) = inum) [0..<NINODE]"

definition empty_at :: "'z fstate_scheme \<Rightarrow> nat option" where
  "empty_at s = find (\<lambda>i. i_ref (icache s i) = 0) [0..<NINODE]"

lemma iget_hit:
  assumes "bgood c p s" "cached_at dev inum s = Some i"
  shows "iget dev inum s = Ok i (upd_inode i (\<lambda>r. r\<lparr>i_ref := i_ref r + 1\<rparr>) s)"
proof -
  have r: "runs c p s" using assms(1) by (simp add: bgood_def)
  then show ?thesis
    using assms(2) release_acq_runs [of c p "upd_inode i (\<lambda>r. r\<lparr>i_ref := i_ref r + 1\<rparr>) s" IcacheLock]
    by (simp add: iget_def acquire_runs [OF r] acq_icache cached_at_def upd_inode_keeps)
qed

lemma iget_new:
  assumes "bgood c p s" "cached_at dev inum s = None" "empty_at s = Some i"
  shows "iget dev inum s = Ok i (upd_inode i (\<lambda>r. r\<lparr>i_dev := dev, i_inum := inum, i_ref := 1, i_valid := False\<rparr>) s)"
proof -
  have r: "runs c p s" using assms(1) by (simp add: bgood_def)
  then show ?thesis
    using assms(2,3) release_acq_runs [of c p "upd_inode i (\<lambda>r. r\<lparr>i_dev := dev, i_inum := inum, i_ref := 1, i_valid := False\<rparr>) s" IcacheLock]
    by (simp add: iget_def acquire_runs [OF r] acq_icache cached_at_def empty_at_def upd_inode_keeps)
qed

text \<open>\<open>ilock\<close> takes the lock and reads the inode from the disk when it is not in memory yet.\<close>

definition disk_inode_at :: "nat \<Rightarrow> 'z fstate_scheme \<Rightarrow> dinode" where
  "disk_inode_at inum s = dec_dinode (bview s (IBLOCK inum (fs_sb s))) (dinode_off inum)"

lemma read_inode:
  assumes g: "bgood c p s" "can_peek p s" "b < disksize s" "b \<notin> bheld s"
  obtains j t u where "bread 1 b s = Ok j t" "buf_data j t = bview s b" "icache t = icache s"
    "brelse j (upd_inode ip f t) = Ok () u" "bgood c p u" "keeps p s u" "ilocks u = ilocks s"
    "icache u = (icache s)(ip := f (icache s ip))"
proof -
  have "can_read b (bcache p s)" using g(2-4) by (simp add: can_read_def can_peek_def)
  then obtain j t where t: "bread 1 b s = Ok j t" "bgood c p t" "bcache p t = a_read j b (bcache p s)" "bcore t = bcore s"
    using bc.rd_ok [OF g(1)] by blast
  note ft = bcore_fields [OF t(4)]
  let ?t = "upd_inode ip f t"
  have c: "bgood c p ?t" "bcache p ?t = bcache p t" using t(2) by (simp_all add: upd_inode_def)
  have m: "(j, b) \<in> ca_mine (bcache p t)" using t(3) by (simp add: a_read_def)
  have d: "buf_data j t = bview s b" using bc.getd_ok [OF t(2) m] t(3) by (simp add: a_read_def)
  have "b \<in> ca_dirty (bcache p ?t) \<or> ca_view (bcache p ?t) b = ca_disk (bcache p ?t) b"
    using bc.settled [OF g(1), of b] g(4) c(2) t(3) by (simp add: a_read_def)
  then obtain u where u: "brelse j ?t = Ok () u" "bgood c p u" "bcache p u = a_release j b (bcache p ?t)" "bcore u = bcore ?t"
    using bc.rel_ok [OF c(1), of j b] m c(2) by auto
  note fu = bcore_fields [OF u(4)]
  have "bcache p u = bcache p s" using u(3) c(2) t(3) bc.read_release_id [OF g(1), of b j] g(4) by simp
  then have "keeps p s u" using fu ft upd_inode_keeps(1) [of p t ip] by (simp add: keeps_def)
  moreover have "icache u = (icache s)(ip := f (icache s ip))" "ilocks u = ilocks s"
    using fu(1,5) ft(1,5) by (simp_all add: upd_inode_keeps)
  ultimately show ?thesis using that [OF t(1) d ft(1) u(1,2)] by simp
qed

lemma ilock_ok:
  assumes g: "bgood c p s" "can_peek p s" and i: "1 \<le> i_ref (icache s ip)" "i_dev (icache s ip) = 1"
    "\<not> sl_locked (ilocks s ip)" and b: "blk_ok p (IBLOCK (i_inum (icache s ip)) (fs_sb s)) s"
    and ty: "if i_valid (icache s ip) then True else di_type (disk_inode_at (i_inum (icache s ip)) s) \<noteq> 0"
  obtains t where "ilock ip s = Ok () t" "bgood c p t" "keeps p s t"
    "icache t = (if i_valid (icache s ip) then icache s
       else (icache s)(ip := (load_inode (disk_inode_at (i_inum (icache s ip)) s) (icache s ip))\<lparr>i_valid := True\<rparr>))"
    "ilocks t = (ilocks s)(ip := (ilocks s ip)\<lparr>sl_locked := True, sl_pid := p_pid (procs s p)\<rparr>)"
proof -
  let ?s = "slock_set (InodeLock ip) p s"
  have r: "runs c p s" using g(1) by (simp add: bgood_def)
  have a: "acquiresleep (InodeLock ip) s = Ok () ?s" using acquiresleep_free [OF r, of "InodeLock ip"] i(3) by (simp add: ilocks_def)
  note k = take_inode [OF g(1), of ip]
  show ?thesis
  proof (cases "i_valid (icache s ip)")
    case True
    then have "ilock ip s = Ok () ?s" using i(1) a k(3) by (simp add: ilock_def)
    then show ?thesis using that [OF _ k(1,2)] k(3,4) True by simp
  next
    case False
    let ?b = "IBLOCK (i_inum (icache s ip)) (fs_sb s)"
    have p: "can_peek p ?s" "?b < disksize ?s" "?b \<notin> bheld ?s" using keepsD [OF k(2)] g(2) b by (auto simp: blk_ok_def)
    let ?f = "load_inode (disk_inode_at (i_inum (icache s ip)) s)"
    from k(1) p obtain j t u where u: "bread 1 ?b ?s = Ok j t" "buf_data j t = bview ?s ?b" "icache t = icache ?s"
      "brelse j (upd_inode ip ?f t) = Ok () u" "bgood c p u" "keeps p ?s u" "ilocks u = ilocks ?s"
      "icache u = (icache ?s)(ip := ?f (icache ?s ip))" by (rule read_inode)
    let ?u = "upd_inode ip (\<lambda>r. r\<lparr>i_valid := True\<rparr>) u"
    have "dec_dinode (buf_data j t) (dinode_off (i_inum (icache t ip))) = disk_inode_at (i_inum (icache s ip)) s"
      using u(2,3) k(3) keepsD(1) [OF k(2)] by (simp add: disk_inode_at_def)
    then have "ilock ip s = Ok () ?u"
      using False i(1,2) a k(3) u(1,4,8) ty keepsD(5) [OF k(2)]
      by (simp add: ilock_def upd_inode_keeps Let_def load_inode_def)
    moreover have "keeps p s ?u" using keeps_trans [OF k(2) keeps_trans [OF u(6) upd_inode_keeps(1)]] .
    ultimately show ?thesis using that [of ?u] u(5,7,8) k(3,4) False by (simp add: upd_inode_keeps)
  qed
qed

lemma iunlock_ok:
  assumes g: "bgood c p s" and l: "sl_locked (ilocks s ip)" "sl_pid (ilocks s ip) = p_pid (procs s p)" "1 \<le> i_ref (icache s ip)"
  obtains t where "iunlock ip s = Ok () t" "bgood c p t" "keeps p s t" "icache t = icache s"
    "ilocks t = (ilocks s)(ip := (ilocks s ip)\<lparr>sl_locked := False, sl_pid := 0\<rparr>)"
proof -
  have r: "runs c p s" using g by (simp add: bgood_def)
  have "iunlock ip s = Ok () (slock_clear (InodeLock ip) s)"
    using l holdingsleep_ok [OF r, of "InodeLock ip"] releasesleep_ok [OF r, of "InodeLock ip"]
    by (simp add: iunlock_def ilocks_def)
  then show ?thesis using that drop_inode [OF g, of ip] by blast
qed

text \<open>Giving up a reference to an inode that still has links only counts it down.\<close>

lemma iput_linked:
  assumes g: "bgood c p s" and l: "\<not> sl_locked (ilocks s ip)" "sl_pid (ilocks s ip) = 0" and n: "i_nlink (icache s ip) \<noteq> 0"
  obtains t where "iput ip s = Ok () t" "bgood c p t" "keeps p s t"
    "icache t = (icache s)(ip := (icache s ip)\<lparr>i_ref := i_ref (icache s ip) - 1\<rparr>)" "ilocks t = ilocks s"
proof -
  let ?s = "slock_set (InodeLock ip) p s"
  let ?t = "slock_clear (InodeLock ip) ?s"
  let ?u = "upd_inode ip (\<lambda>r. r\<lparr>i_ref := i_ref r - 1\<rparr>) ?t"
  have r: "runs c p s" using g by (simp add: bgood_def)
  have a: "acquiresleep (InodeLock ip) s = Ok () ?s" using acquiresleep_free [OF r, of "InodeLock ip"] l(1) by (simp add: ilocks_def)
  note k = take_inode [OF g, of ip]
  note d = drop_inode [OF k(1), of ip]
  have rt: "runs c p ?s" "runs c p ?t" "runs c p ?u" using r by (simp_all add: upd_inode_keeps)
  have ic: "icache ?t = icache s" using d(3) k(3) by simp
  have "iput ip s = Ok () ?u"
    using a n releasesleep_ok [OF rt(1), of "InodeLock ip"] acquire_runs [OF rt(2), of IcacheLock]
      release_acq_runs [OF rt(3), of IcacheLock] k(3)
    by (simp add: iput_def acq_icache)
  moreover have "keeps p s ?u" by (rule keeps_trans [OF k(2) keeps_trans [OF d(2) upd_inode_keeps(1)]])
  moreover have "ilocks ?u = ilocks s" using l by (simp add: upd_inode_keeps d(4) k(4) fun_eq_iff)
  ultimately show ?thesis using that [of ?u] d(1) ic by (simp add: upd_inode_keeps)
qed

lemma iunlockput_ok:
  assumes g: "bgood c p s" and l: "sl_locked (ilocks s ip)" "sl_pid (ilocks s ip) = p_pid (procs s p)" "1 \<le> i_ref (icache s ip)"
    and n: "i_nlink (icache s ip) \<noteq> 0"
  obtains t where "iunlockput ip s = Ok () t" "bgood c p t" "keeps p s t"
    "icache t = (icache s)(ip := (icache s ip)\<lparr>i_ref := i_ref (icache s ip) - 1\<rparr>)"
    "ilocks t = (ilocks s)(ip := (ilocks s ip)\<lparr>sl_locked := False, sl_pid := 0\<rparr>)"
proof -
  from g l obtain t where t: "iunlock ip s = Ok () t" "bgood c p t" "keeps p s t" "icache t = icache s"
    "ilocks t = (ilocks s)(ip := (ilocks s ip)\<lparr>sl_locked := False, sl_pid := 0\<rparr>)" by (rule iunlock_ok)
  have "\<not> sl_locked (ilocks t ip)" "sl_pid (ilocks t ip) = 0" "i_nlink (icache t ip) \<noteq> 0" using t(4,5) n by simp_all
  with t(2) obtain u where u: "iput ip t = Ok () u" "bgood c p u" "keeps p t u"
    "icache u = (icache t)(ip := (icache t ip)\<lparr>i_ref := i_ref (icache t ip) - 1\<rparr>)" "ilocks u = ilocks t"
    by (rule iput_linked)
  show ?thesis using that [of u] t u keeps_trans [OF t(3) u(3)] by (simp add: iunlockput_def)
qed

section \<open>Directories\<close>

text \<open>A name is at most 14 bytes and ends before the first zero; \<open>namecmp\<close> compares names.\<close>

definition cname :: "u8 list \<Rightarrow> u8 list" where
  "cname l = takeWhile (\<lambda>c. c \<noteq> 0) (take DIRSIZ l)"

lemma strncmp_eq:
  "strncmp (cstr a) (cstr b) n = 0 \<longleftrightarrow> takeWhile (\<lambda>c. c \<noteq> 0) (take n a) = takeWhile (\<lambda>c. c \<noteq> 0) (take n b)"
proof (induction n arbitrary: a b)
  case (Suc n)
  have tl: "(\<lambda>i. cstr l (i + 1)) = cstr (tl l)" for l by (rule ext) (cases l; simp add: cstr_def)
  have "int (unat x) - int (unat y) = 0 \<longleftrightarrow> x = y" for x y :: u8
    unfolding right_minus_eq of_nat_eq_iff by (rule word_unat_eq_iff [symmetric])
  then have "strncmp (cstr a) (cstr b) (Suc n) = 0 \<longleftrightarrow>
      cstr a 0 = cstr b 0 \<and> (cstr a 0 \<noteq> 0 \<longrightarrow> strncmp (cstr (tl a)) (cstr (tl b)) n = 0)"
    unfolding strncmp.simps tl by auto
  also have "\<dots> \<longleftrightarrow> cstr a 0 = cstr b 0 \<and> (cstr a 0 \<noteq> 0 \<longrightarrow>
      takeWhile (\<lambda>c. c \<noteq> 0) (take n (tl a)) = takeWhile (\<lambda>c. c \<noteq> 0) (take n (tl b)))"
    by (simp only: Suc.IH)
  also have "\<dots> \<longleftrightarrow> takeWhile (\<lambda>c. c \<noteq> 0) (take (Suc n) a) = takeWhile (\<lambda>c. c \<noteq> 0) (take (Suc n) b)"
    by (cases a; cases b) (auto simp: cstr_def)
  finally show ?case .
qed simp

lemma namecmp_eq: "namecmp (cstr a) (cstr b) = 0 \<longleftrightarrow> cname a = cname b"
  unfolding namecmp_def cname_def by (rule strncmp_eq)

text \<open>The entry at an offset of a directory's contents, and the offset of the first one with a given name.\<close>

definition entry_at :: "u8 list \<Rightarrow> nat \<Rightarrow> dirent" where
  "entry_at bs off = dec_dirent (take 16 (drop off bs))"

definition dir_find :: "u8 list \<Rightarrow> u8 list \<Rightarrow> nat list \<Rightarrow> nat option" where
  "dir_find name bs offs = find (\<lambda>off. de_inum (entry_at bs off) \<noteq> 0 \<and> cname name = cname (de_name (entry_at bs off))) offs"

lemma read_entry:
  assumes "bgood c p s" "can_peek p s" "file_ok p dp s" "i_type (icache s dp) \<noteq> T_DEV" "off + 16 \<le> i_size (icache s dp)"
  obtains t where "readi dr dp off 16 s = Ok (16, take 16 (drop off (file_data dp s))) t" "bgood c p t" "quiet p s t"
proof -
  have "off \<le> i_size (icache s dp)" "off + 16 < 4294967296" using assms(3,5) by (auto simp: file_ok_def)
  from readi_ok [OF assms(1-4) this, of dr] obtain t where
    "readi dr dp off 16 s = Ok (int (min 16 (i_size (icache s dp) - off)), take 16 (drop off (file_data dp s))) t"
    "bgood c p t" "quiet p s t" by metis
  moreover have "min 16 (i_size (icache s dp) - off) = 16" using assms(5) by auto
  ultimately show ?thesis using that by simp
qed

lemma dirlookup_loop_ok:
  assumes "bgood c p s" "can_peek p s" "file_ok p dp s" "i_type (icache s dp) \<noteq> T_DEV"
    "\<forall>off\<in>set offs. off + 16 \<le> i_size (icache s dp)"
  shows "\<exists>t. bgood c p t \<and> quiet p s t \<and> dirlookup_loop dr dp name offs s =
    (case dir_find name (file_data dp s) offs of
       None \<Rightarrow> Ok None t
     | Some off \<Rightarrow> andthen (iget 1 (unat (de_inum (entry_at (file_data dp s) off))) t) (\<lambda>ip s. Ok (Some (ip, off)) s))"
  using assms
proof (induction offs arbitrary: s)
  case Nil
  then show ?case by (intro exI [of _ s]) (simp add: dir_find_def)
next
  case (Cons off offs)
  have sz: "i_dev (icache s dp) = 1" using Cons.prems(3) by (simp add: file_ok_def)
  obtain t where t: "readi dr dp off 16 s = Ok (16, take 16 (drop off (file_data dp s))) t" "bgood c p t" "quiet p s t"
    using read_entry [OF Cons.prems(1-4)] Cons.prems(5) by (metis list.set_intros(1))
  note q = quietD [OF t(3)]
  have dt: "file_data dp t = file_data dp s" using q(1,2) by (simp add: file_data_def)
  let ?de = "entry_at (file_data dp s) off"
  have step: "dirlookup_loop dr dp name (off # offs) s =
      (if de_inum ?de \<noteq> 0 \<and> cname name = cname (de_name ?de)
       then andthen (iget 1 (unat (de_inum ?de)) t) (\<lambda>ip s. Ok (Some (ip, off)) s) else dirlookup_loop dr dp name offs t)"
    using t(1) sz q(2) by (simp add: DIRENT_def entry_at_def namecmp_eq Let_def)
  show ?case
  proof (cases "de_inum ?de \<noteq> 0 \<and> cname name = cname (de_name ?de)")
    case True
    then show ?thesis using t(2,3) step by (intro exI [of _ t]) (simp add: dir_find_def)
  next
    case False
    have "\<exists>u. bgood c p u \<and> quiet p t u \<and> dirlookup_loop dr dp name offs t =
      (case dir_find name (file_data dp t) offs of
         None \<Rightarrow> Ok None u
       | Some off \<Rightarrow> andthen (iget 1 (unat (de_inum (entry_at (file_data dp t) off))) u) (\<lambda>ip s. Ok (Some (ip, off)) s))"
      using Cons.prems(2-5) q t(2) by (intro Cons.IH) simp_all
    moreover have "dir_find name (file_data dp s) (off # offs) = dir_find name (file_data dp s) offs"
      using False by (auto simp: dir_find_def)
    ultimately show ?thesis using step False quiet_trans [OF t(3)] unfolding dt by auto
  qed
qed

lemma steps_bound:
  assumes "k dvd n" "0 < k" "x \<in> set (steps n k)" shows "x + k \<le> n"
proof -
  obtain m where n: "n = k * m" using assms(1) by (rule dvdE)
  have "(n + k - 1) div k = m" using assms(2) n by (intro div_nat_eqI) (auto simp: algebra_simps)
  then have "x \<in> (\<lambda>j. j * k) ` {0..<m}" using assms(3) by (simp add: steps_def)
  then obtain j where "x = j * k" "j < m" by fastforce
  then have "x + k \<le> m * k" by (metis Suc_leI add.commute mult_Suc mult_le_mono1)
  then show ?thesis using n by (simp add: mult.commute)
qed

lemma dirlookup_ok:
  assumes "bgood c p s" "can_peek p s" "file_ok p dp s" "i_type (icache s dp) = T_DIR" "16 dvd i_size (icache s dp)"
  shows "\<exists>t. bgood c p t \<and> quiet p s t \<and> dirlookup dr dp name s =
    (case dir_find name (file_data dp s) (steps (i_size (icache s dp)) 16) of
       None \<Rightarrow> Ok None t
     | Some off \<Rightarrow> andthen (iget 1 (unat (de_inum (entry_at (file_data dp s) off))) t) (\<lambda>ip s. Ok (Some (ip, off)) s))"
  using dirlookup_loop_ok [OF assms(1-3), of "steps (i_size (icache s dp)) 16" dr name] assms(4,5)
    steps_bound [OF assms(5)]
  by (simp add: dirlookup_def DIRENT_def T_DIR_def T_DEV_def)

text \<open>
  \<open>refers ip inum s t\<close>: between \<open>s\<close> and \<open>t\<close> entry \<open>ip\<close> of the inode table has gained a reference to inode
  \<open>inum\<close>. If the inode was in the table, this is its entry; otherwise it is the first free one, whose
  contents are not read yet. The other entries are the same.
\<close>

definition refers :: "nat \<Rightarrow> nat \<Rightarrow> 'z fstate_scheme \<Rightarrow> 'z fstate_scheme \<Rightarrow> bool" where
  "refers ip inum s t \<longleftrightarrow>
     i_dev (icache t ip) = 1 \<and> i_inum (icache t ip) = inum \<and> (\<forall>i. i \<noteq> ip \<longrightarrow> icache t i = icache s i) \<and>
     (case cached_at 1 inum s of
        Some i \<Rightarrow> ip = i \<and> icache t ip = (icache s ip)\<lparr>i_ref := i_ref (icache s ip) + 1\<rparr>
      | None \<Rightarrow> empty_at s = Some ip \<and> i_ref (icache t ip) = 1 \<and> \<not> i_valid (icache t ip))"

lemma iget_refers:
  assumes g: "bgood c p s" and e: "empty_at s \<noteq> None"
  shows "\<exists>ip t. iget 1 inum s = Ok ip t \<and> bgood c p t \<and> keeps p s t \<and> refers ip inum s t"
proof (cases "cached_at 1 inum s")
  case None
  obtain i where i: "empty_at s = Some i" using e by auto
  let ?t = "upd_inode i (\<lambda>r. r\<lparr>i_dev := 1, i_inum := inum, i_ref := 1, i_valid := False\<rparr>) s"
  have "refers i inum s ?t" using None i by (simp add: refers_def upd_inode_keeps)
  then show ?thesis using iget_new [OF g None i] g upd_inode_keeps by blast
next
  case (Some i)
  let ?t = "upd_inode i (\<lambda>r. r\<lparr>i_ref := i_ref r + 1\<rparr>) s"
  have "i_dev (icache s i) = 1" "i_inum (icache s i) = inum"
    using Some by (auto simp: cached_at_def find_Some_iff)
  then have "refers i inum s ?t" using Some by (simp add: refers_def upd_inode_keeps)
  then show ?thesis using iget_hit [OF g Some] g upd_inode_keeps by blast
qed

lemma refers_cong:
  assumes "icache s' = icache s" "refers ip inum s' t" shows "refers ip inum s t"
  using assms(2) unfolding refers_def cached_at_def empty_at_def assms(1) .

text \<open>
  C9. \<open>dirlookup\<close> searches a directory. On a directory whose size is a whole number of entries it looks
  for the first entry in use whose name is the given one, comparing the 14 bytes of the field up
  to the first zero. If there is none it returns a null pointer and changes nothing. Otherwise, as long as
  the inode table is not full, it returns the entry's offset and a counted reference to the inode with
  the number in the entry; the disk and the other inodes are as before.
\<close>

theorem dirlookup_searches:
  assumes "bgood c p s" "can_peek p s" "file_ok p dp s" "i_type (icache s dp) = T_DIR" "16 dvd i_size (icache s dp)"
    "empty_at s \<noteq> None"
  shows "case dir_find name (file_data dp s) (steps (i_size (icache s dp)) 16) of
       None \<Rightarrow> (\<exists>t. dirlookup dr dp name s = Ok None t \<and> bgood c p t \<and> quiet p s t)
     | Some off \<Rightarrow> (\<exists>ip t. dirlookup dr dp name s = Ok (Some (ip, off)) t \<and> bgood c p t \<and> keeps p s t \<and>
         refers ip (unat (de_inum (entry_at (file_data dp s) off))) s t)"
proof (cases "dir_find name (file_data dp s) (steps (i_size (icache s dp)) 16)")
  case None
  then show ?thesis using dirlookup_ok [OF assms(1-5), of dr name] by auto
next
  case (Some off)
  let ?inum = "unat (de_inum (entry_at (file_data dp s) off))"
  obtain t where t: "bgood c p t" "quiet p s t" "dirlookup dr dp name s =
      andthen (iget 1 ?inum t) (\<lambda>ip s. Ok (Some (ip, off)) s)"
    using dirlookup_ok [OF assms(1-5), of dr name] Some by auto
  note q = quiet_keeps [OF t(2)]
  have "empty_at t \<noteq> None" using assms(6) q(2) by (simp add: empty_at_def)
  from iget_refers [OF t(1) this] obtain ip u where "iget 1 ?inum t = Ok ip u" "bgood c p u" "keeps p t u" "refers ip ?inum t u"
    by blast
  with t(3) Some q(1) show ?thesis by (auto intro: refers_cong [OF q(2)] keeps_trans)
qed

text \<open>A directory with one entry, for inode 2 under the name \<open>a\<close>.\<close>

definition one_entry :: "u8 list" where
  "one_entry = enc_dirent \<lparr>de_inum = 2, de_name = 97 # replicate 13 0\<rparr>"

definition dir_disk :: disk where "dir_disk = sample_disk(59 := one_entry @ replicate 496 0)"

definition dir_inode :: inode where
  "dir_inode = no_inode\<lparr>i_dev := 1, i_inum := 1, i_ref := 1, i_valid := True, i_type := T_DIR, i_size := 16,
     i_addrs := 59 # replicate 12 0\<rparr>"

lemma dir_inode_fields [simp]: "i_type dir_inode = T_DIR" "i_size dir_inode = 16"
  by (simp_all add: dir_inode_def)

lemma length_one_entry [simp]: "length one_entry = 16"
  by (simp add: one_entry_def enc_dirent_def)

lemma dir_disk_ok: "blocks_ok dir_disk" "hdr_n (dir_disk 2) = 0"
  using sample_disk_ok by (simp_all add: dir_disk_def blocks_ok_def BSIZE_def)

lemmas dir_machine = fs_machine_txn [OF dir_disk_ok] fs_machine_view [OF dir_disk_ok] fs_machine_blk [OF dir_disk_ok]

theorem dirlookup_searches_witness:
  "let s = fs_machine dir_disk ((\<lambda>_. no_inode)(0 := dir_inode))
   in \<exists>ip t. dirlookup (\<lambda>_. None) 0 [97] s = Ok (Some (ip, 0)) t \<and> i_inum (icache t ip) = 2 \<and> i_ref (icache t ip) = 1 \<and>
     icache t 0 = dir_inode"
proof -
  let ?s = "fs_machine dir_disk ((\<lambda>_. no_inode)(0 := dir_inode))"
  have slot: "slot d (59 # replicate 12 0) k = (if k = 0 then 59 else 0)" for d k
    by (auto simp: slot_def nth_Cons')
  have f: "file_ok 0 0 ?s" by (simp add: file_ok_def dir_inode_def slot dir_machine has_slot_def)
  have "file_data 0 ?s = take 16 (dir_disk 59)"
    unfolding file_data_def dir_machine(4)
    by (rule nth_equalityI) (simp_all add: dir_inode_def bytes_of_def byte_of_def slot dir_disk_def nth_append)
  then have fd: "file_data 0 ?s = one_entry" by (simp add: dir_disk_def)
  have e: "entry_at one_entry 0 = \<lparr>de_inum = 2, de_name = 97 # replicate 13 0\<rparr>"
    by (simp add: entry_at_def) (simp add: one_entry_def dec_enc_dirent DIRSIZ_def)
  have "dir_find [97] one_entry (steps 16 16) = Some 0"
    by (simp add: dir_find_def steps_def e cname_def DIRSIZ_def)
  moreover have "can_peek 0 ?s" by (simp add: can_peek_def dir_machine NBUF_def MAXOPBLOCKS_def)
  moreover have m: "empty_at ?s = Some 1" "cached_at 1 2 ?s = None"
    by (simp_all add: empty_at_def cached_at_def dir_inode_def no_inode_def NINODE_def upt_rec numeral_eq_Suc)
  ultimately obtain ip t where "dirlookup (\<lambda>_. None) 0 [97] ?s = Ok (Some (ip, 0)) t" "refers ip 2 ?s t"
    using dirlookup_searches [OF txn_bgood [OF dir_machine(1)] _ f, of "\<lambda>_. None" "[97]"] by (auto simp: fd e)
  then show ?thesis using m by (auto simp: refers_def)
qed

section \<open>Finding a file\<close>

text \<open>The file of an inode as it is on the disk.\<close>

definition dfile_ok :: "nat \<Rightarrow> dinode \<Rightarrow> 'z fstate_scheme \<Rightarrow> bool" where
  "dfile_ok p di s \<longleftrightarrow> length (di_addrs di) = 13 \<and> di_size di \<le> 71680 \<and>
     (\<forall>k\<le>140. has_slot (di_size di) k \<longrightarrow> slot (bview s) (di_addrs di) k \<noteq> 0) \<and>
     (\<forall>k\<le>140. slot (bview s) (di_addrs di) k \<noteq> 0 \<longrightarrow> blk_ok p (slot (bview s) (di_addrs di) k) s)"

definition dfile_data :: "dinode \<Rightarrow> 'z fstate_scheme \<Rightarrow> u8 list" where
  "dfile_data di s = bytes_of (bview s) (di_size di) (di_addrs di)"

lemma loaded_file:
  assumes k: "keeps p s t" and f: "dfile_ok p di s" and i: "icache t ip = (load_inode di r)\<lparr>i_valid := True\<rparr>" "i_dev r = 1"
  shows "file_ok p ip t" "file_data ip t = dfile_data di s"
  using f keepsD [OF k] by (simp_all add: file_ok_def dfile_ok_def file_data_def dfile_data_def i load_inode_def)

text \<open>The state after booting: no inode is in use.\<close>

definition fresh_inodes :: "'z fstate_scheme \<Rightarrow> bool" where
  "fresh_inodes s \<longleftrightarrow> (\<forall>i. i_ref (icache s i) = 0 \<and> \<not> sl_locked (ilocks s i) \<and> sl_pid (ilocks s i) = 0)"

lemma find_range: "find P [0..<n] = Some i \<longleftrightarrow> i < n \<and> P i \<and> (\<forall>j<i. \<not> P j)"
  by (auto simp: find_Some_iff)

lemma iget_root:
  assumes "bgood c p s" "fresh_inodes s"
  shows "iget 1 1 s = Ok 0 (upd_inode 0 (\<lambda>r. r\<lparr>i_dev := 1, i_inum := 1, i_ref := 1, i_valid := False\<rparr>) s)"
proof (rule iget_new [OF assms(1)])
  show "cached_at 1 1 s = None" using assms(2) by (simp add: cached_at_def find_None_iff fresh_inodes_def)
  show "empty_at s = Some 0" using assms(2) unfolding empty_at_def find_range by (simp add: fresh_inodes_def NINODE_def)
qed

lemma iget_second:
  assumes "bgood c p s" and i: "0 < i_ref (icache s 0)" "i_inum (icache s 0) \<noteq> n" "\<And>i. 0 < i \<Longrightarrow> i_ref (icache s i) = 0"
  shows "iget 1 n s = Ok 1 (upd_inode 1 (\<lambda>r. r\<lparr>i_dev := 1, i_inum := n, i_ref := 1, i_valid := False\<rparr>) s)"
proof (rule iget_new [OF assms(1)])
  have "\<not> (0 < i_ref (icache s j) \<and> i_dev (icache s j) = 1 \<and> i_inum (icache s j) = n)" for j
    using i by (cases "j = 0") auto
  then show "cached_at 1 n s = None" unfolding cached_at_def find_None_iff by blast
  show "empty_at s = Some 1" using i unfolding empty_at_def find_range by (simp add: NINODE_def)
qed

lemma skipelem_one:
  assumes "name \<noteq> []" "slash \<notin> set name"
  shows "skipelem (slash # name) = Some (take DIRSIZ name, [])" "skipelem [] = None"
proof -
  have "dropWhile (\<lambda>c. c = slash) name = name" using assms by (cases name) auto
  moreover have "takeWhile (\<lambda>c. c \<noteq> slash) name = name" using assms(2) by (auto simp: takeWhile_eq_all_conv)
  ultimately show "skipelem (slash # name) = Some (take DIRSIZ name, [])" using assms(1) by (simp add: skipelem_def Let_def del: takeWhile_eq_all_conv)
  show "skipelem [] = None" by (simp add: skipelem_def)
qed

lemma cname_take: "cname (take DIRSIZ l) = cname l"
  by (simp add: cname_def)

text \<open>The root directory is fetched and locked; entry 0 of the table is taken for it.\<close>

definition root_locked :: "nat \<Rightarrow> 'z fstate_scheme \<Rightarrow> 'z fstate_scheme \<Rightarrow> bool" where
  "root_locked p s t \<longleftrightarrow> keeps p s t \<and>
     icache t = (icache s)(0 := (load_inode (disk_inode_at 1 s)
       ((icache s 0)\<lparr>i_dev := 1, i_inum := 1, i_ref := 1, i_valid := False\<rparr>))\<lparr>i_valid := True\<rparr>) \<and>
     ilocks t = (ilocks s)(0 := (ilocks s 0)\<lparr>sl_locked := True, sl_pid := p_pid (procs s p)\<rparr>)"

lemma lock_root:
  assumes g: "bgood c p s" "can_peek p s" "fresh_inodes s" and root: "di_type (disk_inode_at 1 s) \<noteq> 0" "blk_ok p (IBLOCK 1 (fs_sb s)) s"
  obtains s1 t where "iget 1 1 s = Ok 0 s1" "ilock 0 s1 = Ok () t" "bgood c p t" "root_locked p s t"
proof -
  let ?di = "disk_inode_at 1 s"
  define s1 where "s1 = upd_inode 0 (\<lambda>r. r\<lparr>i_dev := 1, i_inum := 1, i_ref := 1, i_valid := False\<rparr>) s"
  have ig: "iget 1 1 s = Ok 0 s1" unfolding s1_def by (rule iget_root [OF g(1,3)])
  have s1: "bgood c p s1" "keeps p s s1" "ilocks s1 = ilocks s"
    "icache s1 = (icache s)(0 := (icache s 0)\<lparr>i_dev := 1, i_inum := 1, i_ref := 1, i_valid := False\<rparr>)"
    using g(1) by (simp_all add: s1_def upd_inode_keeps)
  have l1: "can_peek p s1" "1 \<le> i_ref (icache s1 0)" "i_dev (icache s1 0) = 1" "\<not> sl_locked (ilocks s1 0)"
    "blk_ok p (IBLOCK (i_inum (icache s1 0)) (fs_sb s1)) s1" "disk_inode_at (i_inum (icache s1 0)) s1 = ?di"
    using g(2,3) root(2) keepsD [OF s1(2)] s1(3,4) by (simp_all add: fresh_inodes_def disk_inode_at_def)
  have "if i_valid (icache s1 0) then True else di_type (disk_inode_at (i_inum (icache s1 0)) s1) \<noteq> 0"
    using l1(6) root(1) by simp
  from ilock_ok [OF s1(1) l1(1-5) this] obtain t where t: "ilock 0 s1 = Ok () t" "bgood c p t" "keeps p s1 t"
    "icache t = (icache s1)(0 := (load_inode ?di (icache s1 0))\<lparr>i_valid := True\<rparr>)"
    "ilocks t = (ilocks s1)(0 := (ilocks s1 0)\<lparr>sl_locked := True, sl_pid := p_pid (procs s1 p)\<rparr>)"
    unfolding l1(6) using s1(4) by auto
  have "root_locked p s t"
    using keeps_trans [OF s1(2) t(3)] t(4,5) s1(3,4) keepsD(8) [OF s1(2)] by (simp add: root_locked_def)
  then show ?thesis using that ig t(1,2) by blast
qed

text \<open>
  Looking up a name in the root directory: the root inode is locked and searched, and the entry of the
  inode that was found is number 1 of the table.
\<close>

lemma namei_root:
  assumes g: "bgood c p s" "can_peek p s" "fresh_inodes s"
    and root: "di_type (disk_inode_at 1 s) = T_DIR" "di_nlink (disk_inode_at 1 s) \<noteq> 0" "16 dvd di_size (disk_inode_at 1 s)"
      "dfile_ok p (disk_inode_at 1 s) s" "blk_ok p (IBLOCK 1 (fs_sb s)) s"
    and name: "name \<noteq> []" "slash \<notin> set name"
    and found: "dir_find name (dfile_data (disk_inode_at 1 s) s) (steps (di_size (disk_inode_at 1 s)) 16) = Some off"
      "n = unat (de_inum (entry_at (dfile_data (disk_inode_at 1 s) s) off))" "n \<noteq> 1"
  obtains t where "namei dr (slash # name) s = Ok (Some 1) t" "bgood c p t" "keeps p s t" "ilocks t = ilocks s"
    "icache t 1 = (icache s 1)\<lparr>i_dev := 1, i_inum := n, i_ref := 1, i_valid := False\<rparr>"
proof -
  let ?di = "disk_inode_at 1 s"
  have "di_type ?di \<noteq> 0" using root(1) by (simp add: T_DIR_def)
  with g obtain s1 s2 where s2: "iget 1 1 s = Ok 0 s1" "ilock 0 s1 = Ok () s2" "bgood c p s2" "root_locked p s s2"
    using root(5) by (rule lock_root)
  have k2: "keeps p s s2" and ic2: "icache s2 = (icache s)(0 := (load_inode ?di
       ((icache s 0)\<lparr>i_dev := 1, i_inum := 1, i_ref := 1, i_valid := False\<rparr>))\<lparr>i_valid := True\<rparr>)"
    and il2: "ilocks s2 = (ilocks s)(0 := (ilocks s 0)\<lparr>sl_locked := True, sl_pid := p_pid (procs s p)\<rparr>)"
    using s2(4) by (simp_all add: root_locked_def)
  have f2: "file_ok p 0 s2" "file_data 0 s2 = dfile_data ?di s"
    using loaded_file [OF k2 root(4), of 0 "(icache s 0)\<lparr>i_dev := 1, i_inum := 1, i_ref := 1, i_valid := False\<rparr>"] ic2
    by simp_all
  have t2: "i_type (icache s2 0) = T_DIR" "i_size (icache s2 0) = di_size ?di" "i_nlink (icache s2 0) \<noteq> 0"
    "i_ref (icache s2 0) = 1" "i_inum (icache s2 0) = 1" "\<And>i. 0 < i \<Longrightarrow> icache s2 i = icache s i"
    using root(1,2) by (simp_all add: ic2 load_inode_def)
  have "can_peek p s2" "16 dvd i_size (icache s2 0)" using keepsD(6) [OF k2] g(2) root(3) t2(2) by simp_all
  from dirlookup_ok [OF s2(3) this(1) f2(1) t2(1) this(2), of dr "take DIRSIZ name"] obtain s3 where
    s3: "bgood c p s3" "quiet p s2 s3" "dirlookup dr 0 (take DIRSIZ name) s2 = andthen (iget 1 n s3) (\<lambda>ip s. Ok (Some (ip, off)) s)"
    using found(1,2) unfolding f2(2) t2(2) dir_find_def cname_take by auto
  note q3 = quiet_keeps [OF s3(2)]
  have r: "0 < i_ref (icache s3 0)" "i_inum (icache s3 0) \<noteq> n" "\<And>i. 0 < i \<Longrightarrow> i_ref (icache s3 i) = 0"
    using q3(2) t2 found(3) g(3) by (simp_all add: fresh_inodes_def)
  define s4 where "s4 = upd_inode 1 (\<lambda>r. r\<lparr>i_dev := 1, i_inum := n, i_ref := 1, i_valid := False\<rparr>) s3"
  have i4: "iget 1 n s3 = Ok 1 s4" unfolding s4_def by (rule iget_second [OF s3(1) r])
  have s4: "bgood c p s4" "keeps p s s4" "ilocks s4 = ilocks s2"
    "icache s4 = (icache s2)(1 := (icache s 1)\<lparr>i_dev := 1, i_inum := n, i_ref := 1, i_valid := False\<rparr>)"
    using s3(1) keeps_trans [OF k2 keeps_trans [OF q3(1) upd_inode_keeps(1)]] q3(2,3) t2(6) by (simp_all add: s4_def upd_inode_keeps)
  have "sl_locked (ilocks s4 0)" "sl_pid (ilocks s4 0) = p_pid (procs s4 p)" "1 \<le> i_ref (icache s4 0)" "i_nlink (icache s4 0) \<noteq> 0"
    using s4 il2 t2 keepsD(8) [OF s4(2)] by simp_all
  with s4(1) obtain t where t: "iunlockput 0 s4 = Ok () t" "bgood c p t" "keeps p s4 t"
    "icache t = (icache s4)(0 := (icache s4 0)\<lparr>i_ref := i_ref (icache s4 0) - 1\<rparr>)"
    "ilocks t = (ilocks s4)(0 := (ilocks s4 0)\<lparr>sl_locked := False, sl_pid := 0\<rparr>)" by (rule iunlockput_ok)
  have "namei dr (slash # name) s = Ok (Some 1) t"
    using s2(1,2) t2(1) s3(3) i4 t(1) skipelem_one [OF name] name(1)
    by (simp add: namei_def namex_def namex_loop.simps ROOTDEV_def ROOTINO_def)
  moreover have "ilocks t = ilocks s" using t(5) s4(3) il2 g(3) by (simp add: fresh_inodes_def fun_eq_iff)
  ultimately show ?thesis using that [OF _ t(2) keeps_trans [OF s4(2) t(3)]] t(4) s4(4) by simp
qed

section \<open>Entering a name\<close>

lemma strncmp_equal: "strncmp p q n = 0 \<longleftrightarrow> (\<forall>k<n. (\<forall>j<k. p j \<noteq> 0) \<longrightarrow> p k = q k)"
proof (induction n arbitrary: p q)
  case (Suc n)
  have "int (unat x) - int (unat y) = 0 \<longleftrightarrow> x = y" for x y :: u8
    unfolding right_minus_eq of_nat_eq_iff by (rule word_unat_eq_iff [symmetric])
  then have "strncmp p q (Suc n) = 0 \<longleftrightarrow> p 0 = q 0 \<and> (p 0 \<noteq> 0 \<longrightarrow> strncmp (\<lambda>i. p (i + 1)) (\<lambda>i. q (i + 1)) n = 0)"
    unfolding strncmp.simps by auto
  also have "\<dots> \<longleftrightarrow> p 0 = q 0 \<and> (p 0 \<noteq> 0 \<longrightarrow> (\<forall>k<n. (\<forall>j<k. p (j + 1) \<noteq> 0) \<longrightarrow> p (k + 1) = q (k + 1)))"
    by (simp only: Suc.IH)
  also have "\<dots> \<longleftrightarrow> (\<forall>k<Suc n. (\<forall>j<k. p j \<noteq> 0) \<longrightarrow> p k = q k)"
    by (auto simp: All_less_Suc2)
  finally show ?case .
qed simp

lemma new_dirent_name: "cname (de_name (new_dirent name inum)) = cname name" "length (de_name (new_dirent name inum)) = DIRSIZ"
proof -
  let ?f = "strncpy (\<lambda>_. 0) (cstr name) (int DIRSIZ)"
  have "strncmp (cstr name) (cstr (map ?f [0..<DIRSIZ])) DIRSIZ = 0"
    unfolding strncmp_equal by (simp add: cstr_def strncpy_copies)
  then show "cname (de_name (new_dirent name inum)) = cname name"
    unfolding strncmp_eq by (simp add: cname_def new_dirent_def)
  show "length (de_name (new_dirent name inum)) = DIRSIZ" by (simp add: new_dirent_def)
qed

text \<open>The entries of a directory by their number.\<close>

definition hit :: "u8 list \<Rightarrow> u8 list \<Rightarrow> nat \<Rightarrow> bool" where
  "hit name bs k \<longleftrightarrow> de_inum (entry_at bs (16 * k)) \<noteq> 0 \<and> cname name = cname (de_name (entry_at bs (16 * k)))"

lemma steps_16: "steps (16 * m) 16 = map (\<lambda>k. 16 * k) [0..<m]"
  by (simp add: steps_def mult.commute)

lemma find_map: "find P (map f xs) = map_option f (find (\<lambda>x. P (f x)) xs)"
  by (induction xs) auto

lemma dir_find_hit: "dir_find name bs (steps (16 * m) 16) = map_option (\<lambda>k. 16 * k) (find (hit name bs) [0..<m])"
  unfolding dir_find_def steps_16 find_map hit_def ..

lemma nth_put_grow:
  "off \<le> length d \<Longrightarrow> i < max (length d) (off + length src) \<Longrightarrow>
   put_bytes d off src ! i = (if off \<le> i \<and> i < off + length src then src ! (i - off) else d ! i)"
  by (auto simp: put_bytes_def nth_append)

lemma entry_put:
  assumes bs: "length bs = 16 * m" "q \<le> m" "length e = 16"
  shows "k < m \<or> k = q \<Longrightarrow> entry_at (put_bytes bs (16 * q) e) (16 * k) = (if k = q then dec_dirent e else entry_at bs (16 * k))"
    "length (put_bytes bs (16 * q) e) = 16 * max m (q + 1)"
proof -
  let ?p = "put_bytes bs (16 * q) e"
  show len: "length ?p = 16 * max m (q + 1)" using bs by (cases "q < m") (simp_all add: put_bytes_def max_def)
  assume k: "k < m \<or> k = q"
  have "take 16 (drop (16 * k) ?p) = (if k = q then e else take 16 (drop (16 * k) bs))"
  proof (rule nth_equalityI)
    have "16 * k + 16 \<le> 16 * max m (q + 1)" using k by (auto simp: max_def)
    then show l: "length (take 16 (drop (16 * k) ?p)) = length (if k = q then e else take 16 (drop (16 * k) bs))"
      using bs k len by auto
    fix i assume "i < length (take 16 (drop (16 * k) ?p))"
    then have i: "i < 16" by simp
    have "16 * k + i < max (length bs) (16 * q + length e)" using k i bs by auto
    then have n: "?p ! (16 * k + i) = (if 16 * q \<le> 16 * k + i \<and> 16 * k + i < 16 * q + 16 then e ! (16 * k + i - 16 * q) else bs ! (16 * k + i))"
      using nth_put_grow [of "16 * q" bs "16 * k + i" e] bs by simp
    show "take 16 (drop (16 * k) ?p) ! i = (if k = q then e else take 16 (drop (16 * k) bs)) ! i"
    proof (cases "k = q")
      case True
      then show ?thesis using n i len by simp
    next
      case False
      then have "\<not> (16 * q \<le> 16 * k + i \<and> 16 * k + i < 16 * q + 16)" using i by linarith
      then have "?p ! (16 * k + i) = bs ! (16 * k + i)" unfolding n by (rule if_not_P)
      then show ?thesis using i False k len bs by simp
    qed
  qed
  then show "entry_at ?p (16 * k) = (if k = q then dec_dirent e else entry_at bs (16 * k))" by (simp add: entry_at_def)
qed

text \<open>An entry that replaces a free one, or is added at the end, is found, and hides no other name.\<close>

lemma find_cut: "q < m \<Longrightarrow> P q \<Longrightarrow> (\<forall>k<m. k \<noteq> q \<longrightarrow> \<not> P k) \<Longrightarrow> find P [0..<m] = Some q"
  unfolding find_range by auto

lemma find_append: "find P (xs @ ys) = (case find P xs of None \<Rightarrow> find P ys | Some x \<Rightarrow> Some x)"
  by (induction xs) auto

lemma find_grow:
  assumes "\<forall>k<m. P' k \<longleftrightarrow> P k" "q \<le> m" "\<not> P' q"
  shows "find P' [0..<max m (q + 1)] = find P [0..<m]"
proof -
  have e: "find P' [0..<m] = find P [0..<m]" using assms(1) by (intro find_cong) auto
  show ?thesis
  proof (cases "q < m")
    case True
    then show ?thesis using e by (simp add: max_absorb1)
  next
    case False
    then have "[0..<max m (q + 1)] = [0..<m] @ [q]" using assms(2) by simp
    moreover have "find P' ([0..<m] @ [q]) = find P' [0..<m]" using assms(3)
      by (cases "find P' [0..<m]") (simp_all add: find_append)
    ultimately show ?thesis using e by simp
  qed
qed

lemma entered:
  assumes bs: "length bs = 16 * m" "q \<le> m" and free: "q < m \<Longrightarrow> de_inum (entry_at bs (16 * q)) = 0"
    and de: "length (de_name de) = DIRSIZ" "de_inum de \<noteq> 0" "cname (de_name de) = cname name"
    and none: "dir_find name bs (steps (16 * m) 16) = None"
  defines "bs' \<equiv> put_bytes bs (16 * q) (enc_dirent de)"
  shows "dir_find name bs' (steps (length bs') 16) = Some (16 * q)" "entry_at bs' (16 * q) = de"
    "cname n \<noteq> cname name \<Longrightarrow> dir_find n bs' (steps (length bs') 16) = dir_find n bs (steps (length bs) 16)"
proof -
  have l: "length (enc_dirent de) = 16" using de(1) by (simp add: enc_dirent_def DIRSIZ_def)
  note p = entry_put [OF bs l, folded bs'_def]
  show q: "entry_at bs' (16 * q) = de" using p(1) [of q] dec_enc_dirent [OF de(1)] by simp
  have e: "entry_at bs' (16 * k) = entry_at bs (16 * k)" if "k < m" "k \<noteq> q" for k using p(1) [of k] that by simp
  have "\<not> hit name bs k" if "k < m" for k using none that unfolding dir_find_hit by (auto simp: find_None_iff)
  then have "find (hit name bs') [0..<max m (q + 1)] = Some q"
    using q e de bs(2) by (intro find_cut) (auto simp: hit_def less_max_iff_disj less_Suc_eq_le)
  then show "dir_find name bs' (steps (length bs') 16) = Some (16 * q)" unfolding p(2) dir_find_hit by simp
  assume n: "cname n \<noteq> cname name"
  have "hit n bs' k \<longleftrightarrow> hit n bs k" if "k < m" for k
    using e [OF that] q free n de(3) that by (cases "k = q") (auto simp: hit_def)
  moreover have "\<not> hit n bs' q" using q n de(3) by (simp add: hit_def)
  ultimately show "dir_find n bs' (steps (length bs') 16) = dir_find n bs (steps (length bs) 16)"
    unfolding p(2) bs(1) dir_find_hit using find_grow [of m "hit n bs'" "hit n bs" q] bs(2) by simp
qed

lemma dirfree_loop_ok:
  assumes "bgood c p s" "can_peek p s" "file_ok p dp s" "i_type (icache s dp) \<noteq> T_DEV"
    "\<forall>off\<in>set offs. off + 16 \<le> i_size (icache s dp)"
  shows "\<exists>t. bgood c p t \<and> quiet p s t \<and> dirfree_loop dr dp offs fin s =
    Ok (case find (\<lambda>off. de_inum (entry_at (file_data dp s) off) = 0) offs of None \<Rightarrow> fin | Some off \<Rightarrow> off) t"
  using assms
proof (induction offs arbitrary: s)
  case Nil
  then show ?case by (intro exI [of _ s]) simp
next
  case (Cons off offs)
  obtain t where t: "readi dr dp off 16 s = Ok (16, take 16 (drop off (file_data dp s))) t" "bgood c p t" "quiet p s t"
    using read_entry [OF Cons.prems(1-4)] Cons.prems(5) by (metis list.set_intros(1))
  note q = quietD [OF t(3)]
  have dt: "file_data dp t = file_data dp s" using q(1,2) by (simp add: file_data_def)
  have step: "dirfree_loop dr dp (off # offs) fin s =
      (if de_inum (entry_at (file_data dp s) off) = 0 then Ok off t else dirfree_loop dr dp offs fin t)"
    using t(1) by (simp add: DIRENT_def entry_at_def)
  show ?case
  proof (cases "de_inum (entry_at (file_data dp s) off) = 0")
    case True
    then show ?thesis using t(2,3) step by (intro exI [of _ t]) simp
  next
    case False
    have "\<exists>u. bgood c p u \<and> quiet p t u \<and> dirfree_loop dr dp offs fin t =
        Ok (case find (\<lambda>off. de_inum (entry_at (file_data dp t) off) = 0) offs of None \<Rightarrow> fin | Some off \<Rightarrow> off) u"
      using Cons.prems(2-5) q t(2) by (intro Cons.IH) simp_all
    then show ?thesis using step False quiet_trans [OF t(3)] unfolding dt by auto
  qed
qed

text \<open>Where a new entry goes: the first free entry, or the end of the directory.\<close>

definition free_slot :: "u8 list \<Rightarrow> nat" where
  "free_slot bs =
     (case find (\<lambda>off. de_inum (entry_at bs off) = 0) (steps (length bs) 16) of None \<Rightarrow> length bs | Some off \<Rightarrow> off)"

lemma free_entry:
  assumes "length bs = 16 * m"
  obtains q where "free_slot bs = 16 * q" "q \<le> m" "q < m \<Longrightarrow> de_inum (entry_at bs (16 * q)) = 0"
proof (cases "find (\<lambda>k. de_inum (entry_at bs (16 * k)) = 0) [0..<m]")
  case None
  then show ?thesis using that [of m] by (simp add: free_slot_def assms steps_16 find_map)
next
  case (Some q)
  then show ?thesis using that [of q] by (simp add: free_slot_def assms steps_16 find_map) (simp add: find_range)
qed

lemma touched_entry: "touched (16 * q) 16 = 1"
proof -
  have "16 * q mod 512 = 16 * (q mod 32)" using mult_mod_right [of 16 q 32] by simp
  moreover have "q mod 32 < 32" by simp
  ultimately have "16 * q mod 512 + 16 \<le> 512" by linarith
  then have "(16 * q mod 512 + 16 + 511) div 512 = 1" by (intro div_nat_eqI) simp_all
  then show ?thesis by (simp add: touched_def)
qed

lemma dirlink_place:
  assumes x: "txn c p s" "fsroom 7 p s" "file_inv p dp s" and d: "i_type (icache s dp) = T_DIR" "16 dvd i_size (icache s dp)"
    and none: "dir_find name (file_data dp s) (steps (i_size (icache s dp)) 16) = None"
  obtains q t where "dirlink dr dw dp name inum s =
      andthen (writei dw dp (enc_dirent (new_dirent name inum)) (16 * q) t) (\<lambda>r s. if r \<noteq> 16 then Panic ''dirlink'' else Ok 0 s)"
    "txn c p t" "quiet p s t" "free_slot (file_data dp s) = 16 * q" "16 * q \<le> i_size (icache s dp)"
    "16 * q < i_size (icache s dp) \<Longrightarrow> de_inum (entry_at (file_data dp s) (16 * q)) = 0"
proof -
  obtain m where m: "i_size (icache s dp) = 16 * m" using d(2) by (rule dvdE)
  have f: "file_ok p dp s" using x(3) by (simp add: file_inv_def)
  have peek: "can_peek p s" using peek_room [of c p s 6] x(1,2) by simp
  obtain s1 where s1: "bgood c p s1" "quiet p s s1" "dirlookup dr dp name s = Ok None s1"
    using dirlookup_ok [OF txn_bgood [OF x(1)] peek f d, of dr name] none by auto
  note q1 = quietD [OF s1(2)]
  have fd: "file_data dp s1 = file_data dp s" using q1(1,2) by (simp add: file_data_def)
  have b: "\<forall>off\<in>set (steps (i_size (icache s1 dp)) 16). off + 16 \<le> i_size (icache s1 dp)"
    using steps_bound [OF d(2)] q1(2) by simp
  have nd: "i_type (icache s1 dp) \<noteq> T_DEV" using d(1) q1(2) by (simp add: T_DIR_def T_DEV_def)
  have pf: "can_peek p s1" "file_ok p dp s1" using peek f q1 by simp_all
  obtain q where q: "free_slot (file_data dp s) = 16 * q" "q \<le> m" "q < m \<Longrightarrow> de_inum (entry_at (file_data dp s) (16 * q)) = 0"
    using free_entry [of "file_data dp s" m] m by (metis length_file_data)
  obtain t where t: "bgood c p t" "quiet p s1 t" "dirfree_loop dr dp (steps (16 * m) 16) (16 * m) s1 = Ok (16 * q) t"
    using dirfree_loop_ok [OF s1(1) pf nd b, of dr "16 * m"] q(1) [unfolded free_slot_def length_file_data m]
    unfolding fd q1(2) m by auto
  have qt: "quiet p s t" by (rule quiet_trans [OF s1(2) t(2)])
  have "length (steps (16 * m) 16) = m" by (simp add: steps_16)
  then have "dirlink dr dw dp name inum s =
      andthen (writei dw dp (enc_dirent (new_dirent name inum)) (16 * q) t) (\<lambda>r s. if r \<noteq> 16 then Panic ''dirlink'' else Ok 0 s)"
    using s1(3) t(3) q1(2) m by (simp add: dirlink_def DIRENT_def Let_def)
  then show ?thesis using that [OF _ quiet_txn [OF x(1) t(1) qt] qt q(1)] q(2,3) m by simp
qed

text \<open>
  C8. \<open>dirlink\<close> enters a name. When the name is not in the directory and there is room for the entry, it
  returns 0. The new entry, with the name and the inode number, is in the first free slot, or at the end
  if no slot is free; every other entry is the one it was. From then on \<open>dirlookup\<close> finds the name there,
  and every other name where it was found before, or not at all.
\<close>

theorem dirlink_enters:
  assumes x: "txn c p s" "fsroom 7 p s" "fs_inv p s" "file_inv p dp s" "2 \<le> card (free_blocks s)"
    and d: "i_type (icache s dp) = T_DIR" "16 dvd i_size (icache s dp)" "i_size (icache s dp) + 16 \<le> MAXFILE * BSIZE"
      "i_inum (icache s dp) < sb_ninodes (fs_sb s)"
    and none: "dir_find name (file_data dp s) (steps (i_size (icache s dp)) 16) = None" and inum: "0 < inum" "inum < 65536"
  shows "\<exists>t. dirlink dr dw dp name inum s = Ok 0 t \<and> txn c p t \<and> fs_inv p t \<and> file_inv p dp t \<and>
    (let off = free_slot (file_data dp s); bs = file_data dp s; bs' = file_data dp t
     in length bs' = max (length bs) (off + 16) \<and>
       de_inum (entry_at bs' off) = of_nat inum \<and> cname (de_name (entry_at bs' off)) = cname name \<and>
       (\<forall>k. 16 * k < length bs \<and> 16 * k \<noteq> off \<longrightarrow> entry_at bs' (16 * k) = entry_at bs (16 * k)) \<and>
       dir_find name bs' (steps (length bs') 16) = Some off \<and>
       (\<forall>n. cname n \<noteq> cname name \<longrightarrow> dir_find n bs' (steps (length bs') 16) = dir_find n bs (steps (length bs) 16)))"
proof -
  let ?de = "new_dirent name inum"
  let ?e = "enc_dirent ?de"
  obtain m where m: "i_size (icache s dp) = 16 * m" using d(2) by (rule dvdE)
  obtain q t where t: "dirlink dr dw dp name inum s =
      andthen (writei dw dp ?e (16 * q) t) (\<lambda>r s. if r \<noteq> 16 then Panic ''dirlink'' else Ok 0 s)"
    "txn c p t" "quiet p s t" and off: "free_slot (file_data dp s) = 16 * q" and q: "16 * q \<le> 16 * m" "16 * q < 16 * m \<Longrightarrow> de_inum (entry_at (file_data dp s) (16 * q)) = 0"
    using dirlink_place [OF x(1,2,4) d(1,2) none, of dr dw inum] unfolding m by metis
  note k = quietD [OF t(3)] and e = quiet_extends [OF t(3)]
  have l: "length ?e = 16" using new_dirent_name(2) [of name inum] by (simp add: enc_dirent_def DIRSIZ_def)
  have fd: "file_data dp t = file_data dp s" using k(1,2) by (simp add: file_data_def)
  have w: "fsroom (6 * touched (16 * q) (length ?e) + 1) p t" "fs_inv p t" "file_inv p dp t"
    "2 * touched (16 * q) (length ?e) \<le> card (free_blocks t)" "16 * q \<le> i_size (icache t dp)" "16 * q + length ?e \<le> 71680"
    "i_inum (icache t dp) < sb_ninodes (fs_sb t)" "i_type (icache t dp) \<noteq> T_DEV"
    using x(2-5) d q(1) e k(2,3) m by (simp_all add: l touched_entry layout_defs T_DIR_def T_DEV_def)
  obtain u where u: "writei dw dp ?e (16 * q) t = Ok (int (length ?e)) u" "txn c p u" "written p dp (16 * q) ?e t u"
    using writei_ok [OF t(2) w, of dw] by metis
  have data: "file_data dp u = put_bytes (file_data dp s) (16 * q) ?e" "fs_inv p u" "file_inv p dp u"
    using u(3) fd by (simp_all add: written_def)
  have sz: "i_size (icache u dp) = length (put_bytes (file_data dp s) (16 * q) ?e)" using arg_cong [OF data(1), of length] by simp
  have n0: "de_inum ?de \<noteq> 0" "de_inum ?de = of_nat inum"
    using inum by (auto simp: new_dirent_def word_of_nat_eq_0_iff dvd_imp_le leD)
  have L: "length (file_data dp s) = 16 * m" "q \<le> m" using m q(1) by simp_all
  have fr: "q < m \<Longrightarrow> de_inum (entry_at (file_data dp s) (16 * q)) = 0" using q(2) by simp
  note en = entered [OF L fr new_dirent_name(2) n0(1) new_dirent_name(1) none [unfolded m]]
  note ep = entry_put [OF L l]
  have "dirlink dr dw dp name inum s = Ok 0 u" using t(1) u(1) l by simp
  moreover have "length (file_data dp u) = max (length (file_data dp s)) (16 * q + 16)"
    unfolding data(1) ep(2) L(1) by (auto simp: max_def)
  moreover have "\<forall>k. 16 * k < length (file_data dp s) \<and> 16 * k \<noteq> 16 * q \<longrightarrow>
      entry_at (file_data dp u) (16 * k) = entry_at (file_data dp s) (16 * k)"
    unfolding data(1) L(1) using ep(1) by simp
  ultimately show ?thesis using u(2) data(2,3) en n0(2) new_dirent_name(1) [of name inum] unfolding off Let_def
    by (intro exI [of _ u] conjI) (simp_all add: data(1))
qed

theorem dirlink_enters_witness:
  "let s = fs_machine sample_disk ((\<lambda>_. no_inode)(0 := new_file\<lparr>i_type := T_DIR\<rparr>))
   in \<exists>t. dirlink (\<lambda>_. None) (\<lambda>_. None) 0 [97] 7 s = Ok 0 t \<and> length (file_data 0 t) = 16 \<and>
     de_inum (entry_at (file_data 0 t) 0) = 7 \<and> dir_find [97] (file_data 0 t) (steps 16 16) = Some 0"
proof -
  let ?tab = "(\<lambda>_. no_inode)(0 := new_file\<lparr>i_type := T_DIR\<rparr>)"
  let ?s = "fs_machine sample_disk ?tab"
  have f: "file_inv 0 0 ?s" by (rule sample_fs_file) simp_all
  have e: "file_data 0 ?s = []" by (simp flip: length_0_conv)
  have "\<exists>t. dirlink (\<lambda>_. None) (\<lambda>_. None) 0 [97] 7 ?s = Ok 0 t \<and> txn 0 0 t \<and> fs_inv 0 t \<and> file_inv 0 0 t \<and>
    (let off = free_slot (file_data 0 ?s); bs = file_data 0 ?s; bs' = file_data 0 t
     in length bs' = max (length bs) (off + 16) \<and>
       de_inum (entry_at bs' off) = of_nat 7 \<and> cname (de_name (entry_at bs' off)) = cname [97] \<and>
       (\<forall>k. 16 * k < length bs \<and> 16 * k \<noteq> off \<longrightarrow> entry_at bs' (16 * k) = entry_at bs (16 * k)) \<and>
       dir_find [97] bs' (steps (length bs') 16) = Some off \<and>
       (\<forall>n. cname n \<noteq> cname [97] \<longrightarrow> dir_find n bs' (steps (length bs') 16) = dir_find n bs (steps (length bs) 16)))"
    by (rule dirlink_enters [OF sample_machine(1) _ sample_fs_inv f])
      (simp_all add: sample_machine sample_fs_blocks sample_sb_def layout_defs dir_find_def steps_def)
  then show ?thesis unfolding e by (auto simp: Let_def free_slot_def steps_def)
qed

end
