(* ===== verification/Mkfs_Mount.thy ===== *)
theory Mkfs_Mount
  imports Mkfs_Spec Fs_Names
begin

text \<open>
  The image of \<open>mkfs\<close> as the kernel finds it: the inodes and the root directory that \<open>mkfs\<close> writes meet
  what \<open>ilock\<close>, \<open>readi\<close> and \<open>dirlookup\<close> expect.
\<close>

section \<open>The entries of the root directory\<close>

lemma concat_entry:
  assumes "\<forall>e\<in>set es. length e = 16" "m < length es"
  shows "take 16 (drop (16 * m) (concat es)) = es ! m"
  using assms
proof (induction es arbitrary: m)
  case (Cons e es)
  then show ?case by (cases m) auto
qed simp

text \<open>The bytes of a file's name in the image.\<close>

definition file_name :: "string \<Rightarrow> u8 list" where
  "file_name arg = map of_char (short_name arg)"

definition root_names :: "string list \<Rightarrow> (nat \<times> string) list" where
  "root_names args = [(1, ''.''), (1, ''..'')] @ map (\<lambda>j. (j + 2, short_name (args ! j))) [0..<length args]"

lemma root_dir_entries: "root_dir args = concat (map (\<lambda>(i, n). mk_dirent i n) (root_names args))"
  by (simp add: root_dir_def root_names_def comp_def)

lemma length_root_names [simp]: "length (root_names args) = length args + 2"
  by (simp add: root_names_def)

lemma root_names_nth: "j < length args \<Longrightarrow> root_names args ! (j + 2) = (j + 2, short_name (args ! j))"
  by (simp add: root_names_def nth_append)

lemma root_entry:
  assumes "take (16 * (length args + 2)) bs = root_dir args" "m < length args + 2"
  shows "entry_at bs (16 * m) = dec_dirent (mk_dirent (fst (root_names args ! m)) (snd (root_names args ! m)))"
proof -
  let ?es = "map (\<lambda>(i, n). mk_dirent i n) (root_names args)"
  have "take 16 (drop (16 * m) (concat ?es)) = ?es ! m" using assms(2) by (intro concat_entry) auto
  moreover have "take 16 (drop (16 * m) bs) = take 16 (drop (16 * m) (take (16 * (length args + 2)) bs))"
    using assms(2) by (simp add: drop_take min_def)
  ultimately show ?thesis
    using assms by (simp add: entry_at_def root_dir_entries case_prod_beta)
qed

lemma mk_dirent_fields:
  "de_inum (dec_dirent (mk_dirent i n)) = of_nat i"
  "de_name (dec_dirent (mk_dirent i n)) = take DIRSIZ (map of_char n @ replicate DIRSIZ 0)"
  by (simp_all add: mk_dirent_def dec_enc_dirent)

lemma cname_padded:
  assumes "(0 :: u8) \<notin> set l" shows "cname (take DIRSIZ (l @ replicate DIRSIZ 0)) = take DIRSIZ l" "cname l = take DIRSIZ l"
proof -
  have a: "takeWhile (\<lambda>c. c \<noteq> 0) (take k l @ r) = take k l @ takeWhile (\<lambda>c. c \<noteq> 0) r" for k r
    using assms by (intro takeWhile_append2) (metis in_set_takeD)
  show "cname l = take DIRSIZ l" using a [of DIRSIZ "[]"] by (simp add: cname_def)
  show "cname (take DIRSIZ (l @ replicate DIRSIZ 0)) = take DIRSIZ l"
    using a [of DIRSIZ] by (simp add: cname_def)
qed

text \<open>The name of file \<open>j\<close> can be looked up: no zero bytes, not empty, and not hidden by an earlier entry.\<close>

definition names_ok :: "string list \<Rightarrow> nat \<Rightarrow> bool" where
  "names_ok args j \<longleftrightarrow> (\<forall>i\<le>j. 0 \<notin> set (file_name (args ! i))) \<and> file_name (args ! j) \<noteq> [] \<and>
     take DIRSIZ (file_name (args ! j)) \<notin> {[46], [46, 46]} \<and>
     (\<forall>i<j. take DIRSIZ (file_name (args ! i)) \<noteq> take DIRSIZ (file_name (args ! j)))"

lemma dot_names:
  "cname (de_name (dec_dirent (mk_dirent i ''.''))) = [46]" "cname (de_name (dec_dirent (mk_dirent i ''..''))) = [46, 46]"
  unfolding mk_dirent_fields using cname_padded(1) [of "[46]"] cname_padded(1) [of "[46, 46]"] by (simp_all add: DIRSIZ_def)

lemma nat_02: "(k = (0 :: nat) \<Longrightarrow> P) \<Longrightarrow> (k = 1 \<Longrightarrow> P) \<Longrightarrow> (\<And>i. k = i + 2 \<Longrightarrow> P) \<Longrightarrow> P"
  by (cases k; cases "k - 1") auto

lemma root_find:
  assumes bs: "take (16 * (length args + 2)) bs = root_dir args" and j: "j < length args" "length args \<le> 206" "names_ok args j"
    and sz: "16 * (length args + 2) \<le> n" "16 dvd n"
  shows "dir_find (file_name (args ! j)) bs (steps n 16) = Some (16 * (j + 2))"
    "unat (de_inum (entry_at bs (16 * (j + 2)))) = j + 2"
proof -
  let ?name = "file_name (args ! j)"
  let ?P = "\<lambda>off. de_inum (entry_at bs off) \<noteq> 0 \<and> cname ?name = cname (de_name (entry_at bs off))"
  obtain m where n: "n = 16 * m" using sz(2) by (rule dvdE)
  have m: "length args + 2 \<le> m" using sz(1) n by simp
  have st: "steps n 16 = map (\<lambda>j. j * 16) [0..<m]" by (simp add: steps_def n)
  have cj: "cname ?name = take DIRSIZ ?name" using j(3) by (intro cname_padded) (simp add: names_ok_def)
  have hit: "de_inum (entry_at bs (16 * (j + 2))) = of_nat (j + 2)" "cname (de_name (entry_at bs (16 * (j + 2)))) = take DIRSIZ ?name"
    using root_entry [OF bs, of "j + 2"] j root_names_nth [OF j(1)] cname_padded(1) [of ?name]
    by (simp_all add: mk_dirent_fields file_name_def names_ok_def)
  show num: "unat (de_inum (entry_at bs (16 * (j + 2)))) = j + 2"
    unfolding hit(1) using j(1,2) by (simp add: unat_of_nat take_bit_nat_eq_self del: of_nat_add of_nat_Suc)
  then have "?P (16 * (j + 2))" using hit(2) cj by auto
  moreover have "\<not> ?P (16 * k)" if k: "k < j + 2" for k
  proof -
    have e: "entry_at bs (16 * k) = dec_dirent (mk_dirent (fst (root_names args ! k)) (snd (root_names args ! k)))"
      using k j(1) by (intro root_entry [OF bs]) simp
    consider "k = 0" | "k = 1" | i where "k = i + 2" "i < j" 
      using k by (cases k rule: nat_02) auto
    then show ?thesis
    proof cases
      case (3 i)
      then have "cname (de_name (entry_at bs (16 * k))) = take DIRSIZ (file_name (args ! i))"
        using e j root_names_nth [of i args] cname_padded(1) [of "file_name (args ! i)"]
        by (simp add: mk_dirent_fields file_name_def names_ok_def)
      then show ?thesis using j(3) 3(2) cj by (auto simp: names_ok_def)
    qed (use e j(3) cj dot_names in \<open>auto simp: names_ok_def root_names_def\<close>)
  qed
  ultimately show "dir_find ?name bs (steps n 16) = Some (16 * (j + 2))"
    unfolding dir_find_def find_Some_iff st using j(1) m by (intro exI [of _ "j + 2"]) (auto simp: mult.commute)
qed

section \<open>The image in the kernel\<close>

text \<open>A kernel that has just booted from the image: its buffers show the image, and no inode is in use.\<close>

definition mounted :: "nat \<Rightarrow> nat \<Rightarrow> disk \<Rightarrow> 'z fstate_scheme \<Rightarrow> bool" where
  "mounted c p d s \<longleftrightarrow> bgood c p s \<and> can_peek p s \<and> fresh_inodes s \<and> bview s = d \<and> fs_sb s = mk_sb \<and>
     (\<forall>b. 32 \<le> b \<and> b < FSSIZE \<longrightarrow> blk_ok p b s)"

lemma mounted_inode: "mounted c p d s \<Longrightarrow> disk_inode_at i s = inode_of d i"
  by (simp add: mounted_def disk_inode_at_def inode_of_def dinode_off_def)

lemma mounted_blk: "mounted c p d s \<Longrightarrow> i < 208 \<Longrightarrow> blk_ok p (IBLOCK i (fs_sb s)) s"
  by (auto simp: mounted_def mk_layout FSSIZE_def)

text \<open>The blocks of an inode of the image; the size may be larger as long as no further block is needed.\<close>

lemma image_dfile:
  assumes m: "mounted c p d s" and h: "image_holds x fs" and i: "i \<in> {1..length fs}" and d: "\<And>b. 59 \<le> b \<Longrightarrow> d b = mk_img x b"
    and a: "addrs d i = addrs (mk_img x) i" and n: "di_addrs di = addrs d i" "di_size di \<le> 71680"
      "\<And>k. k \<le> 140 \<Longrightarrow> has_slot (di_size di) k \<Longrightarrow> has_slot (sizes (mk_img x) i) k"
  shows "dfile_ok p di s"
proof -
  note ok = image_holdsD(1) [OF h]
  have v: "bview s = d" and b: "\<And>b. 32 \<le> b \<Longrightarrow> b < 1000 \<Longrightarrow> blk_ok p b s" using m by (auto simp: mounted_def FSSIZE_def)
  have slots: "slot d (addrs d i) k = slot (mk_img x) (addrs (mk_img x) i) k" for k
    unfolding a by (rule meta_slot [OF ok d i])
  have "freeblock x \<le> 1000" using image_holdsD(5,6) [OF h] by simp
  then have r: "32 \<le> slot d (addrs d i) k \<and> slot d (addrs d i) k < 1000" if "k \<le> 140" "slot d (addrs d i) k \<noteq> 0" for k
    using files_okD(5) [OF ok i that(1)] that(2) slots by simp
  show ?thesis
    using n files_okD(2,4) [OF ok i] r b a slots unfolding dfile_ok_def v by simp
qed

lemma take_bytes: "m \<le> n \<Longrightarrow> take m (bytes_of d n as) = bytes_of d m as"
  by (simp add: bytes_of_def take_map)

lemma round_slot: "n mod 512 \<noteq> 0 \<Longrightarrow> n \<le> 6144 \<Longrightarrow> k \<le> 140 \<Longrightarrow> has_slot (512 * (n div 512 + 1)) k \<Longrightarrow> has_slot n k"
proof -
  assume n: "n mod 512 \<noteq> 0" "n \<le> 6144" and k: "k \<le> 140" "has_slot (512 * (n div 512 + 1)) k"
  obtain q r where e: "n = 512 * q + r" "r < 512" "n div 512 = q" "n mod 512 = r" by (rule split512)
  have r: "0 < r" using n(1) e(4) by simp
  have "512 * k < 512 * q + r" if "512 * k < 512 * (q + 1)"
  proof -
    have "k \<le> q" using that by simp
    then have "512 * k \<le> 512 * q" by simp
    then show ?thesis using r by linarith
  qed
  moreover have "512 * (q + 1) \<le> 6144"
  proof -
    have "512 * q < 512 * 12" using n(2) e(1) r by linarith
    then have "q < 12" by simp
    then show ?thesis by simp
  qed
  ultimately show "has_slot n k" using k e by (auto simp: has_slot_def split: if_splits)
qed

lemma image_root:
  assumes m: "mounted c p d s" and h: "image_holds x (image_of files args)" and data: "\<And>b. 59 \<le> b \<Longrightarrow> d b = mk_img x b"
    and root: "inode_of d 1 = (inode_of (mk_img x) 1)\<lparr>di_size := 512 * (16 * (length args + 2) div 512 + 1)\<rparr>"
    and rt: "(length args + 2) mod 32 \<noteq> 0" "length args \<le> 206"
  shows "di_type (inode_of d 1) = T_DIR" "di_nlink (inode_of d 1) = 1" "16 dvd di_size (inode_of d 1)"
    "16 * (length args + 2) \<le> di_size (inode_of d 1)" "dfile_ok p (inode_of d 1) s"
    "take (16 * (length args + 2)) (dfile_data (inode_of d 1) s) = root_dir args"
proof -
  let ?n = "16 * (length args + 2)"
  have one: "1 \<in> {1..length (image_of files args)}" by simp
  show "di_type (inode_of d 1) = T_DIR" "di_nlink (inode_of d 1) = 1"
    using h one root by (auto simp: image_holds_def image_of_def)
  have size: "di_size (inode_of d 1) = 512 * (?n div 512 + 1)" using root by simp
  have "512 * (y :: nat) = 16 * (32 * y)" for y by simp
  then show "16 dvd di_size (inode_of d 1)" unfolding size by (metis dvd_triv_left)
  show le: "?n \<le> di_size (inode_of d 1)" unfolding size using block_end [of ?n] by (simp add: mult.commute)
  have n: "?n mod 512 \<noteq> 0" "?n \<le> 6144" using rt mult_mod_right [of 16 "length args + 2" 32] by simp_all
  have a: "addrs d 1 = addrs (mk_img x) 1" using root by (simp add: addrs_def)
  have s1: "sizes (mk_img x) 1 = ?n" using image_holdsD(9) [OF h one] by (simp add: image_of_def)
  show "dfile_ok p (inode_of d 1) s"
  proof (rule image_dfile [OF m h one data a])
    show "di_addrs (inode_of d 1) = addrs d 1" by (simp add: addrs_def)
    show "di_size (inode_of d 1) \<le> 71680" unfolding size using n(2) by simp
    show "has_slot (sizes (mk_img x) 1) k" if "k \<le> 140" "has_slot (di_size (inode_of d 1)) k" for k
      using round_slot [OF n that(1)] that(2) unfolding size s1 .
  qed
  have "bytes_of d ?n (addrs d 1) = root_dir args"
    using image_file_kept [OF h one data a] s1 by (simp add: image_of_def)
  then show "take ?n (dfile_data (inode_of d 1) s) = root_dir args"
    using take_bytes [OF le, of d "addrs d 1"] m by (simp add: dfile_data_def mounted_def addrs_def)
qed

lemma image_file:
  assumes m: "mounted c p d s" and h: "image_holds x (image_of files args)" and data: "\<And>b. 59 \<le> b \<Longrightarrow> d b = mk_img x b"
    and j: "j < length args" and same: "inode_of d (j + 2) = inode_of (mk_img x) (j + 2)"
  shows "dfile_ok p (inode_of d (j + 2)) s" "dfile_data (inode_of d (j + 2)) s = file_bytes files (args ! j)"
    "di_type (inode_of d (j + 2)) = T_FILE"
proof -
  have J: "j + 2 \<in> {1..length (image_of files args)}" using j by simp
  have a: "addrs d (j + 2) = addrs (mk_img x) (j + 2)" "sizes d (j + 2) = sizes (mk_img x) (j + 2)"
    using same by (simp_all add: addrs_def sizes_def)
  show "dfile_ok p (inode_of d (j + 2)) s"
    by (rule image_dfile [OF m h J data a(1)])
      (use same files_okD(3) [OF image_holdsD(1) [OF h] J] in \<open>simp_all add: addrs_def sizes_def\<close>)
  show "dfile_data (inode_of d (j + 2)) s = file_bytes files (args ! j)"
    using image_file_kept [OF h J data a(1)] a(2) m j
    by (simp add: dfile_data_def mounted_def addrs_def sizes_def image_of_def)
  show "di_type (inode_of d (j + 2)) = T_FILE" using h J same j by (auto simp: image_holds_def image_of_def)
qed

lemma slash_char: "(of_char ch :: u8) = slash \<Longrightarrow> ch = CHR ''/''"
proof -
  assume a: "(of_char ch :: u8) = slash"
  have "(of_nat (of_char ch) :: u8) = of_char ch" by (cases ch) simp
  then have "(of_nat (of_char ch) :: u8) = of_nat 47" using a by (simp add: slash_def)
  then have "take_bit 8 (of_char ch :: nat) = take_bit 8 47" by (simp only: word_of_nat_eq_iff) simp
  moreover have "take_bit 8 (of_char ch :: nat) = of_char ch" by (cases ch) (simp add: take_bit_eq_mod)
  ultimately have "(of_char ch :: nat) = of_char CHR ''/''" by (simp add: take_bit_eq_mod)
  then show ?thesis by (simp only: of_char_eq_iff)
qed

lemma no_slash: "CHR ''/'' \<notin> set arg \<Longrightarrow> slash \<notin> set (file_name arg)"
proof -
  assume a: "CHR ''/'' \<notin> set arg"
  have "set (short_name arg) \<subseteq> set arg" by (cases arg) (auto simp: short_name_def)
  with a show "slash \<notin> set (file_name arg)" using slash_char by (auto simp: file_name_def) (metis subsetD)
qed

text \<open>A file of the image is found under its name and read through its inode.\<close>

lemma image_lookup:
  assumes mk: "creat img" "mkfs_args_ok files args" "main_mkfs creat files (prog # img # args) = Inr d"
    and rt: "(length args + 2) mod 32 \<noteq> 0" and j: "j < length args" "names_ok args j" and m: "mounted c p d s"
  obtains t where "namei dr (slash # file_name (args ! j)) s = Ok (Some 1) t" "bgood c p t" "keeps p s t" "ilocks t = ilocks s"
    "icache t 1 = (icache s 1)\<lparr>i_dev := 1, i_inum := j + 2, i_ref := 1, i_valid := False\<rparr>"
    "dfile_ok p (inode_of d (j + 2)) s" "dfile_data (inode_of d (j + 2)) s = file_bytes files (args ! j)"
    "di_type (inode_of d (j + 2)) = T_FILE"
proof -
  let ?di = "inode_of d 1"
  obtain x where h: "image_holds x (image_of files args)"
    and root: "inode_of d 1 = (inode_of (mk_img x) 1)\<lparr>di_size := 512 * (16 * (length args + 2) div 512 + 1)\<rparr>"
    and same: "\<And>j. j < 208 \<Longrightarrow> j \<noteq> 1 \<Longrightarrow> inode_of d j = inode_of (mk_img x) j"
    and data: "\<And>b. 59 \<le> b \<Longrightarrow> d b = mk_img x b"
    using main_mkfs_image [of creat img files args prog] mk by auto
  have len: "length args \<le> 206" using mk(2) by (simp add: mkfs_args_ok_def)
  note r = image_root [OF m h data root rt len]
  have "inode_of d (j + 2) = inode_of (mk_img x) (j + 2)" using same j(1) len by simp
  note f = image_file [OF m h data j(1) this]
  have g: "bgood c p s" "can_peek p s" "fresh_inodes s" using m by (simp_all add: mounted_def)
  have at: "disk_inode_at 1 s = ?di" by (rule mounted_inode [OF m])
  have "CHR ''/'' \<notin> set (args ! j)" using mk(2) j(1) by (simp add: mkfs_args_ok_def)
  then have sl: "slash \<notin> set (file_name (args ! j))" by (rule no_slash)
  have nm: "file_name (args ! j) \<noteq> []" using j(2) by (simp add: names_ok_def)
  have fd: "dir_find (file_name (args ! j)) (dfile_data ?di s) (steps (di_size ?di) 16) = Some (16 * (j + 2))"
    "j + 2 = unat (de_inum (entry_at (dfile_data ?di s) (16 * (j + 2))))"
    using root_find [OF r(6) j(1) len j(2) r(4,3)] by simp_all
  have b: "blk_ok p (IBLOCK 1 (fs_sb s)) s" by (rule mounted_blk [OF m]) simp
  have "di_nlink ?di \<noteq> 0" "j + 2 \<noteq> 1" using r(2) by simp_all
  then show ?thesis
    using namei_root [of c p s "file_name (args ! j)" "16 * (j + 2)" "j + 2" dr] g r(1,3,5) b sl nm fd that f unfolding at by metis
qed

lemma image_read:
  assumes mk: "creat img" "mkfs_args_ok files args" "main_mkfs creat files (prog # img # args) = Inr d"
    and rt: "(length args + 2) mod 32 \<noteq> 0" and j: "j < length args" "names_ok args j" and m: "mounted c p d s"
    and off: "off \<le> length (file_bytes files (args ! j))" "off + n < 4294967296"
  shows "\<exists>t u v. namei dr (slash # file_name (args ! j)) s = Ok (Some 1) t \<and> ilock 1 t = Ok () u \<and>
    readi dr 1 off n u = Ok (int (min n (length (file_bytes files (args ! j)) - off)),
      take n (drop off (file_bytes files (args ! j)))) v"
proof -
  let ?di = "inode_of d (j + 2)"
  obtain t where t: "namei dr (slash # file_name (args ! j)) s = Ok (Some 1) t" "bgood c p t" "keeps p s t" "ilocks t = ilocks s"
    "icache t 1 = (icache s 1)\<lparr>i_dev := 1, i_inum := j + 2, i_ref := 1, i_valid := False\<rparr>"
    and f: "dfile_ok p ?di s" "dfile_data ?di s = file_bytes files (args ! j)" "di_type ?di = T_FILE"
    using image_lookup [OF mk rt j m, of dr] by metis
  have g: "can_peek p t" "1 \<le> i_ref (icache t 1)" "i_dev (icache t 1) = 1" "\<not> sl_locked (ilocks t 1)"
    "blk_ok p (IBLOCK (i_inum (icache t 1)) (fs_sb t)) t" "disk_inode_at (i_inum (icache t 1)) t = ?di"
    using m t(4,5) keepsD [OF t(3)] mounted_blk [OF m, of "j + 2"] mounted_inode [OF m, of "j + 2"] j(1) mk(2)
    by (simp_all add: mounted_def fresh_inodes_def disk_inode_at_def mkfs_args_ok_def)
  have "if i_valid (icache t 1) then True else di_type (disk_inode_at (i_inum (icache t 1)) t) \<noteq> 0"
    using g(6) f(3) by (simp add: T_FILE_def)
  from ilock_ok [OF t(2) g(1-5) this] obtain u where u: "ilock 1 t = Ok () u" "bgood c p u" "keeps p t u"
    "icache u = (icache t)(1 := (load_inode ?di (icache t 1))\<lparr>i_valid := True\<rparr>)"
    unfolding g(6) using t(5) by auto
  have k: "keeps p s u" by (rule keeps_trans [OF t(3) u(3)])
  have i1: "icache u 1 = (load_inode ?di (icache t 1))\<lparr>i_valid := True\<rparr>" using u(4) by simp
  note l = loaded_file [OF k f(1) i1 g(3)]
  have sz: "i_size (icache u 1) = length (file_bytes files (args ! j))" "i_type (icache u 1) \<noteq> T_DEV"
    using i1 arg_cong [OF f(2), of length] f(3) by (simp_all add: load_inode_def dfile_data_def bytes_of_def T_FILE_def T_DEV_def)
  have "can_peek p u" using g(1) keepsD(6) [OF u(3)] by simp
  from readi_ok [OF u(2) this l(1) sz(2), of off n dr] off obtain v where
    "readi dr 1 off n u = Ok (int (min n (i_size (icache u 1) - off)), take n (drop off (file_data 1 u))) v"
    unfolding sz(1) by metis
  then show ?thesis using t(1) u(1) f(2) l(2) sz(1) by auto
qed

section \<open>A machine with the image\<close>

lemma binit_inode_locks: "slocks (binit s) (InodeLock i) = slocks s (InodeLock i)"
proof -
  have "slocks (fold (\<lambda>b s. initsleeplock (BufLock b) ''buffer'' (list_push b s)) xs s) (InodeLock i) = slocks s (InodeLock i)"
    for xs and s :: "'a bstate_scheme"
    by (induction xs arbitrary: s)
      (simp_all add: list_push_def upd_buf_def Let_def initsleeplock_def initlock_def upd_slock_def upd_lock_def)
  then show ?thesis by (simp add: binit_def upd_buf_def initlock_def upd_lock_def)
qed

lemma sample_is_mk_sb: "sample_sb = mk_sb"
  by (simp add: sample_sb_def mk_sb_def nblocks_def mk_layout FSSIZE_def NINODES_def nlog_def ninodeblocks_def
      layout_defs param_defs)

lemma machine_mounted:
  assumes "\<forall>b. length (d b) = 512" "d 2 = replicate 512 0"
  shows "mounted 0 0 d (fs_machine d (\<lambda>_. no_inode))"
proof -
  let ?s = "fs_machine d (\<lambda>_. no_inode)"
  have d: "blocks_ok d" "hdr_n (d 2) = 0" using assms by (simp_all add: blocks_ok_def BSIZE_def hdr_n_def dec32_def)
  note m = fs_machine_txn [OF d, of "\<lambda>_. no_inode"]
  have "ilocks ?s i = free_sleeplock" for i
    by (simp add: ilocks_def fs_machine_def open_machine_def machine_def binit_inode_locks raw_machine_def)
  then have "fresh_inodes ?s" by (simp add: fresh_inodes_def no_inode_def free_sleeplock_def)
  then show ?thesis using m txn_bgood [OF m(1)] fs_machine_view [OF d] fs_machine_blk [OF d]
    by (simp add: mounted_def can_peek_def NBUF_def MAXOPBLOCKS_def sample_is_mk_sb FSSIZE_def)
qed

end
