(* ===== verification/Spec2Isabelle.thy ===== *)
theory Spec2Isabelle
  imports Console_Spec Ide Shell_Spec Usertests_Spec Boot Boot_Loader Mkfs_Mount
begin

text \<open>
  A verification of xv6, a small Unix for the PC: the kernel, the boot loader, the program that builds
  the file system image, and the user programs. The sources are the C files under \<open>src/\<close>.

  \<^bold>\<open>The program.\<close> The boot loader (\<open>bootmain.c\<close>) reads the kernel from disk; \<open>main.c\<close> starts the
  allocator, paging, the interrupt controllers, the caches and the other processors. The kernel proper
  is a stack of layers: spin locks (\<open>spinlock.c\<close>), sleeping and waking (\<open>proc.c\<close>), sleep locks
  (\<open>sleeplock.c\<close>), the buffer cache (\<open>bio.c\<close>) over a disk driver (\<open>memide.c\<close> or \<open>ide.c\<close>), the log
  (\<open>log.c\<close>), the file system (\<open>fs.c\<close>), open files and pipes (\<open>file.c\<close>, \<open>pipe.c\<close>), the system calls
  (\<open>syscall.c\<close>, \<open>sysfile.c\<close>, \<open>sysproc.c\<close>, \<open>exec.c\<close>), processes and memory (\<open>proc.c\<close>, \<open>kalloc.c\<close>,
  \<open>vm.c\<close>), and traps and devices (\<open>trap.c\<close>, \<open>lapic.c\<close>, \<open>console.c\<close>, \<open>kbd.c\<close>, \<open>uart.c\<close>). User programs
  reach it through the system calls only. \<open>mkfs.c\<close> runs on the host and writes the image the kernel
  mounts.

  \<^bold>\<open>How code is modelled.\<close> Every C function is a definition with the name of the source, in the order of
  the source; parts of a function that need a name (a loop, one branch) carry one of their own. A kernel
  function takes the state and gives an outcome \<open>res\<close> (\<open>Xv6_Prelude\<close>): \<open>Ok\<close> a value and the new state,
  \<open>Panic\<close> a message, \<open>Swtch\<close> the state at which the process gives up the CPU, or \<open>Spin\<close>, waiting for
  something that does not come. What a process runs when it is scheduled again is a function of its own,
  with the suffix \<open>_resume\<close> or \<open>_return\<close>. The state is a chain of records, each component extending the
  one below it: \<open>kstate\<close> (CPUs, locks, processes), \<open>bstate\<close> (buffers and disk), \<open>lstate\<close> (log),
  \<open>fstate\<close> (inodes), \<open>mstate\<close> (memory), \<open>vstate\<close> (segments and page tables), \<open>pstate\<close> (pipes), \<open>fdstate\<close>
  (open files), \<open>prstate\<close> (processes), \<open>dstate\<close>, \<open>cstate\<close>, \<open>tstate\<close> (devices, console, traps), then
  \<open>istate\<close> or \<open>pcstate\<close> and \<open>bootstate\<close>. Because the records are extensible, a lemma about one layer holds
  in every layer above it. Machine integers are words where the code can wrap around; elsewhere they are
  numbers, with the bound in the invariant. Reference counts (\<open>i_ref\<close>, \<open>f_ref\<close>, \<open>b_refcnt\<close>) and the nesting
  depth \<open>c_ncli\<close> are numbers too: they count the holders, of which the tables of the kernel allow far
  fewer than \<open>2^31\<close>. A user program is a function on the history of its system
  calls (\<open>Usys\<close>): the environment answers each call from the calls made so far, a run returns, is over
  (\<open>exit\<close>, \<open>exec\<close>) or does not end. \<open>mkfs\<close> is in an error monad.

  \<^bold>\<open>Theories.\<close>
  \<^item> \<open>Xv6_Prelude\<close>: outcomes and sequencing, words, little-endian encodings, byte arrays.
  \<^item> \<open>Kernel_State\<close>, \<open>Spinlock\<close>, \<open>Sleep_Wakeup\<close>, \<open>Sleep_Spec\<close>, \<open>Sleeplock\<close>: \<open>param.h\<close>, \<open>proc.h\<close>,
    \<open>spinlock.c\<close>, \<open>sched\<close>, \<open>sleep\<close>, \<open>wakeup\<close> of \<open>proc.c\<close>, \<open>sleeplock.c\<close>. Mutual exclusion holds along
    every interleaving of the processors' steps; \<open>sleep\<close> and \<open>wakeup\<close> are lists of statements, and in every
    interleaving of the two the sleeper ends up runnable.
  \<^item> \<open>Block_Cache\<close>, \<open>Bio\<close>, \<open>Bio_Spec\<close>: the contract of the cache as the locales \<open>block_io\<close>,
    \<open>block_cache\<close> and \<open>block_txn\<close>; \<open>bio.c\<close> and \<open>memide.c\<close>; the proof that the ring of buffers implements
    the contract (interpretation \<open>bc\<close>).
  \<^item> \<open>Fs_Layout\<close>, \<open>Log\<close>, \<open>Log_Disk\<close>, \<open>Log_Spec\<close>, \<open>Log_Txn\<close>: \<open>fs.h\<close> and \<open>log.c\<close>. A crash between any two
    disk writes of a commit, or of the recovery, leaves all or none of the transaction; inside a
    transaction the cache again meets its contract (interpretation \<open>tx\<close>). Three operations that fill what
    \<open>begin_op\<close> reserved for them run into the panic of \<open>log_write\<close>, one block before the end.
  \<^item> \<open>Cstring\<close>, \<open>Fs\<close>, \<open>Fs_Blocks\<close>, \<open>Fs_Files\<close>, \<open>Fs_Write\<close>, \<open>Fs_Names\<close>: \<open>string.c\<close> and \<open>fs.c\<close>. A file is
    the list of its bytes: \<open>readi\<close> returns a part of it, \<open>writei\<close> replaces one, allocating blocks that no
    other file has; a directory is the list of its entries, which \<open>dirlookup\<close> searches and \<open>dirlink\<close>
    extends.
  \<^item> \<open>Kalloc\<close>, \<open>Vm\<close>, \<open>Vm_Spec\<close>: \<open>kalloc.c\<close> (interpretation \<open>km\<close> of the locale \<open>page_pool\<close>), \<open>vm.c\<close>,
    \<open>mmu.h\<close>. No page is lost or handed out twice; a page table is a map of pages with their permissions.
  \<^item> \<open>Pipe\<close>, \<open>File\<close>, \<open>Uarg\<close>, \<open>Exec\<close>, \<open>Sysfile\<close>: \<open>pipe.c\<close>, \<open>file.c\<close>, the argument functions of
    \<open>syscall.c\<close>, \<open>exec.c\<close>, \<open>sysfile.c\<close>. A pipe is a queue, also when its counters wrap around; pointers
    accepted from user programs are inside their memory.
  \<^item> \<open>Proc\<close>, \<open>Frame\<close>, \<open>Proc_Spec\<close>: the rest of \<open>proc.c\<close>. The locale \<open>frame\<close> says once what a piece of code
    may leave alone; its interpretations give that identifiers stay unique until the counter \<open>nextpid\<close>
    wraps around, and that a killed process stays killed.
  \<^item> \<open>Devices\<close>, \<open>Console\<close>, \<open>Trap\<close>, \<open>Trap_Spec\<close>, \<open>Console_Spec\<close>, \<open>Ide\<close>: the devices, \<open>console.c\<close>,
    \<open>lapic.c\<close>, \<open>sysproc.c\<close>, \<open>syscall.c\<close>, \<open>trap.c\<close>, \<open>ide.c\<close>. A process that is killed before or
    during a trap does not get back to user mode; the console is a line editor for both its sources of characters (locale \<open>char_source\<close>).
  \<^item> \<open>Mp\<close>, \<open>Boot\<close>, \<open>Boot_Loader\<close>: \<open>mp.c\<close>, \<open>picirq.c\<close>, \<open>main.c\<close>, \<open>bootmain.c\<close>.
  \<^item> \<open>Mkfs\<close>, \<open>Mkfs_Spec\<close>, \<open>Mkfs_Mount\<close>: \<open>mkfs.c\<close>, what it writes, and that the kernel finds it; the
    theorem below puts the two programs together.
  \<^item> \<open>Usys\<close>, \<open>Ulib\<close>, \<open>Umalloc\<close>, \<open>Shell\<close>, \<open>Shell_Spec\<close>, \<open>Grep\<close>, \<open>Uprogs\<close>, \<open>Usertests\<close>,
    \<open>Usertests_Spec\<close>: \<open>ulib.c\<close>, \<open>printf.c\<close>, \<open>umalloc.c\<close>, \<open>sh.c\<close>, \<open>grep.c\<close>, the small programs and
    \<open>usertests.c\<close>. The allocator keeps a sorted, joined free list; the shell's parser reads every command
    back from its text; \<open>grep\<close> decides the language of its pattern; two of the tests are shown to pass
    exactly on the kernels they are meant to accept.
  \<^item> \<open>Sample_State\<close>: a concrete machine, for the examples that accompany the theorems.

  \<^bold>\<open>Bounds.\<close> The parser of the shell recurses to a depth of \<open>4 * length s + 4\<close> for a line \<open>s\<close>;
  \<open>Shell_Spec\<close> proves that the bound is never reached. Loops that the hardware or another process decides
  are partial functions, or end in \<open>Spin\<close>; each theorem that says such a loop returns proves that it
  does, under what it assumes of the device. The theorems on \<open>writei\<close> and \<open>dirlink\<close> assume room in the log
  for the blocks they can touch, and that the blocks concerned are in the cache or free in it, as
  \<open>begin_op\<close> and the size of the cache are there to ensure.

  \<^bold>\<open>Not modelled.\<close> The assembly files (\<open>bootasm.S\<close>, \<open>entry.S\<close>, \<open>entryother.S\<close>, \<open>initcode.S\<close>, \<open>swtch.S\<close>,
  \<open>trapasm.S\<close>, the generated vectors): they set up segments, paging and stacks, and their effect is stated
  where it is needed. The declarations of \<open>defs.h\<close> and \<open>types.h\<close> compute nothing. Delays and memory barriers
  have no effect in the model, and processors interleave at the granularity of the steps of a definition;
  effects of relaxed memory are left out. A run of a user program follows one process; where a theorem
  fixes the answers of \<open>sbrk\<close>, whether it grants memory depends only on the size of the process and the amount. \<open>acquire\<close> is one step, with the wait for the lock as its outcome \<open>Spin\<close>. The messages
  that \<open>allocuvm\<close> and \<open>iinit\<close> print are left out. The trap frame and the context of a process are fields of its
  record and not bytes of its kernel stack. The cache and
  the log are proved for the memory disk; the IDE driver is modelled beside it.
\<close>

section \<open>From the image to the kernel\<close>

text \<open>
  C3. The kernel reads what \<open>mkfs\<close> wrote. When \<open>mkfs\<close> has built an image from files that fit, a kernel
  booted from it finds each of them in the root directory under its name, without the leading
  underscore and cut to 14 bytes, unless an earlier entry has that name: \<open>namei\<close> returns an entry of the
  inode table, \<open>ilock\<close> reads the inode, and \<open>readi\<close> at any offset returns the bytes that \<open>mkfs\<close> read
  from the file on the host. The number of directory entries is not a multiple of 32, since \<open>mkfs\<close> would
  then give the root directory one block less than its size says.
\<close>

theorem mkfs_files_readable:
  assumes "creat img" "mkfs_args_ok files args" "main_mkfs creat files (prog # img # args) = Inr d"
    "(length args + 2) mod 32 \<noteq> 0" "j < length args" "names_ok args j" "mounted c p d s"
    "off \<le> length (file_bytes files (args ! j))" "off + n < 4294967296"
  shows "\<exists>t u v. namei dr (slash # file_name (args ! j)) s = Ok (Some 1) t \<and> ilock 1 t = Ok () u \<and>
    readi dr 1 off n u = Ok (int (min n (length (file_bytes files (args ! j)) - off)),
      take n (drop off (file_bytes files (args ! j)))) v"
  using assms by (rule image_read)

theorem mkfs_files_readable_witness:
  "let files = (\<lambda>n. if n = ''_cat'' then Some [[1, 2], [3]] else None) :: string \<Rightarrow> u8 list list option
   in \<exists>d t u v. main_mkfs (\<lambda>_. True) files [''mkfs'', ''fs.img'', ''_cat''] = Inr d \<and>
     namei (\<lambda>_. None) [47, 99, 97, 116] (fs_machine d (\<lambda>_. no_inode)) = Ok (Some 1) t \<and> ilock 1 t = Ok () u \<and>
     readi (\<lambda>_. None) 1 1 10 u = Ok (2, [2, 3]) v"
proof -
  let ?files = "(\<lambda>n. if n = ''_cat'' then Some [[1, 2], [3]] else None) :: string \<Rightarrow> u8 list list option"
  have ok: "mkfs_args_ok ?files [''_cat'']"
    by (simp add: mkfs_args_ok_def blocks_used_image_of file_bytes_def nb_def layout_defs FSSIZE_def)
  obtain d where d: "main_mkfs (\<lambda>_. True) ?files [''mkfs'', ''fs.img'', ''_cat''] = Inr d"
    and low: "\<forall>b<32. d b = mk_img fresh_image b" and len: "\<forall>b. length (d b) = 512"
    using main_mkfs_image [of "\<lambda>_. True" "''fs.img''" ?files "[''_cat'']" "''mkfs''"] ok by auto
  have "d 2 = replicate 512 0" using low by (simp add: fresh_image_eq)
  then have m: "mounted 0 0 d (fs_machine d (\<lambda>_. no_inode))" by (rule machine_mounted [OF len])
  have nm: "file_name ''_cat'' = [99, 97, 116]" by (simp add: file_name_def short_name_def)
  then have "names_ok [''_cat''] 0" by (simp add: names_ok_def DIRSIZ_def)
  from mkfs_files_readable [of "\<lambda>_. True" "''fs.img''" ?files "[''_cat'']" "''mkfs''" d 0 0 0
      "fs_machine d (\<lambda>_. no_inode)" 1 10 "\<lambda>_. None", OF _ ok d _ _ this m]
  show ?thesis using d by (auto simp: Let_def nm file_bytes_def slash_def)
qed

end
